(* ===== verification/Prelude.thy ===== *)
theory Prelude
  imports Complex_Main "HOL-Library.Word"
begin

text \<open>
  Shared vocabulary of the development.  The verified code is Python, so its
  integers are unbounded: every Python \<open>int\<close> is an HOL \<^typ>\<open>int\<close>, and a
  Python bit operation is the HOL one of the same meaning (both read a negative
  number as an infinite two's complement string; the shifts are \<open>push_bit\<close> and
  \<open>drop_bit\<close>).  An exception is a value of
  \<open>py_error\<close>; a function that may raise returns \<open>'a result\<close>, whose \<open>Inl\<close> side is
  the exception.

  This theory holds the exceptions, the monadic sequencing of results, the
  lemmas on masks, bit fields and ranges that the component proofs share, and a
  generic theory of invariants of step functions (locale \<open>stepper\<close>), which the
  stateful components interpret.
\<close>

unbundle bit_operations_syntax

section \<open>Exceptions and results\<close>

datatype py_error =
    ValueError string
  | FlagStateError string
  | AssertionError string
  | DecodeError string
  | AddressError string
  | ScopeError string
  | Mismatch string
  | KeyError
  | IndexError
  | StopIteration
  | RuntimeError string
  | TypeError
  | AttributeError
  | ZeroDivisionError

type_synonym 'a result = "py_error + 'a"

definition bindR :: "'a result \<Rightarrow> ('a \<Rightarrow> 'b result) \<Rightarrow> 'b result" where
  "bindR r f = (case r of Inl e \<Rightarrow> Inl e | Inr x \<Rightarrow> f x)"

fun is_ok :: "'a result \<Rightarrow> bool" where
  "is_ok (Inr _) = True"
| "is_ok (Inl _) = False"

named_theorems result_simps \<open>sequencing of results\<close>
named_theorems mask_simps \<open>literal masks as truncations\<close>
named_theorems field_simps_bits \<open>reading back a field of an encoded word\<close>

lemma bindR_Inl [simp, result_simps]: "bindR (Inl e) f = Inl e"
  by (simp add: bindR_def)

lemma bindR_Inr [simp, result_simps]: "bindR (Inr x) f = f x"
  by (simp add: bindR_def)

lemma bindR_eq_Inr [result_simps]:
  "bindR r f = Inr y \<longleftrightarrow> (\<exists>x. r = Inr x \<and> f x = Inr y)"
  by (cases r) auto

lemma bindR_assoc: "bindR (bindR r f) g = bindR r (\<lambda>x. bindR (f x) g)"
  by (cases r) auto

lemma is_ok_iff: "is_ok r \<longleftrightarrow> (\<exists>x. r = Inr x)"
  by (cases r) auto

section \<open>Masks and truncation\<close>

lemma and_mask32 [mask_simps]: "(x::int) AND 0xFFFFFFFF = take_bit 32 x"
  by (simp add: take_bit_eq_mask mask_eq_exp_minus_1)

lemma and_mask5 [mask_simps]: "(x::int) AND 31 = take_bit 5 x"
  by (simp add: take_bit_eq_mask mask_eq_exp_minus_1)

lemma and_mask6 [mask_simps]: "(x::int) AND 0x3F = take_bit 6 x"
  by (simp add: take_bit_eq_mask mask_eq_exp_minus_1)

lemma and_sign32: "(x::int) AND 0x80000000 = 0 \<longleftrightarrow> \<not> bit x 31"
  by (simp add: bit_iff_and_push_bit_not_eq_0)

lemma take_bit32_range: "0 \<le> take_bit 32 (x::int) \<and> take_bit 32 x \<le> 0xFFFFFFFF"
  using take_bit_int_less_exp [of 32 x] by simp

lemma take_bit32_le [simp]: "take_bit 32 (x::int) \<le> 0xFFFFFFFF"
  using take_bit32_range by blast

lemma take_bit_range_id: "0 \<le> (x::int) \<Longrightarrow> x < 2 ^ n \<Longrightarrow> take_bit n x = x"
  by (simp add: take_bit_int_eq_self)

lemma bit_of_take_bit32: "bit (take_bit 32 (x::int)) 31 = bit x 31"
  by (simp add: bit_take_bit_iff)

text \<open>Sign of a 32-bit pattern, as a comparison.\<close>

lemma bit31_iff_ge:
  assumes "0 \<le> (x::int)" "x < 2 ^ 32"
  shows "bit x 31 \<longleftrightarrow> 2 ^ 31 \<le> x"
proof -
  have "bit x 31 \<longleftrightarrow> odd (x div 2 ^ 31)" by (rule bit_iff_odd)
  moreover have "x div 2147483648 = (if 2147483648 \<le> x then 1 else 0)"
    using assms by (simp, linarith)
  ultimately show ?thesis by simp
qed

section \<open>Bit length\<close>

text \<open>Python's \<open>int.bit_length\<close> on the non-negative integers it is used on.\<close>

function bit_length :: "int \<Rightarrow> int" where
  "bit_length n = (if n \<le> 0 then 0 else bit_length (n div 2) + 1)"
  by auto
termination by (relation "measure nat") auto

declare bit_length.simps [simp del]

section \<open>Fields of an encoded word\<close>

text \<open>
  The encoders build a word as \<open>(a << p) | (b << q) | ... | c\<close>.  \<open>shl v p\<close> is
  Python's \<open>v << p\<close>, kept as a constant of its own so that the field rules below
  see it before the simplifier turns small shifts into products.
\<close>

definition shl :: "int \<Rightarrow> nat \<Rightarrow> int" where
  "shl v p = push_bit p v"

definition in_field :: "nat \<Rightarrow> int \<Rightarrow> bool" where
  "in_field n v \<longleftrightarrow> 0 \<le> v \<and> v < 2 ^ n"

definition get_field :: "nat \<Rightarrow> nat \<Rightarrow> int \<Rightarrow> int" where
  "get_field s n w = take_bit n (drop_bit s w)"

lemma in_field_not_bit: "in_field n v \<Longrightarrow> n \<le> m \<Longrightarrow> \<not> bit v m"
  by (metis bit_take_bit_iff in_field_def leD take_bit_int_eq_self)

lemma in_field_take_bit: "in_field n v \<Longrightarrow> take_bit n v = v"
  by (simp add: in_field_def take_bit_int_eq_self)

lemma in_fieldI_take_bit: "take_bit n v = v \<Longrightarrow> in_field n v"
  by (metis in_field_def take_bit_int_less_exp take_bit_nonnegative)

lemma in_field_iff: "in_field n v \<longleftrightarrow> take_bit n v = v"
  using in_field_take_bit in_fieldI_take_bit by blast

lemma in_field_take_bit_self [simp]: "in_field n (take_bit n v)"
  by (simp add: in_field_iff)

lemma in_field_0 [simp]: "in_field n 0"
  by (simp add: in_field_def)

lemma in_field_mono: "in_field k v \<Longrightarrow> k \<le> n \<Longrightarrow> in_field n v"
  by (metis in_field_iff min.absorb2 take_bit_take_bit)

lemma in_field_or [simp]: "in_field n x \<Longrightarrow> in_field n y \<Longrightarrow> in_field n (x OR y)"
  by (simp add: in_field_iff)

lemma in_field_and [simp]: "in_field n x \<Longrightarrow> in_field n (x AND y)"
  by (simp add: in_field_iff take_bit_eq_mask and.assoc and.left_commute [of x]) (simp add: and.commute)

lemma in_field_shl: "in_field k v \<Longrightarrow> p + k \<le> n \<Longrightarrow> in_field n (shl v p)"
proof -
  assume v: "in_field k v" and le: "p + k \<le> n"
  then have "take_bit (n - p) v = v"
    using in_field_mono [of k v "n - p"] by (simp add: in_field_iff)
  then show ?thesis
    using le by (simp add: in_field_iff shl_def take_bit_push_bit)
qed

lemma get_field_or [field_simps_bits]: "get_field s n (x OR y) = get_field s n x OR get_field s n y"
  by (simp add: get_field_def)

lemma get_field_0 [field_simps_bits]: "in_field n v \<Longrightarrow> get_field 0 n v = v"
  by (simp add: get_field_def in_field_iff)

lemma get_field_past [field_simps_bits]: "in_field k v \<Longrightarrow> k \<le> s \<Longrightarrow> get_field s n v = 0"
  by (rule bit_eqI) (simp add: get_field_def bit_take_bit_iff bit_drop_bit_eq in_field_not_bit)

lemma get_field_shl_self [field_simps_bits]: "in_field n v \<Longrightarrow> get_field p n (shl v p) = v"
  by (simp add: get_field_def in_field_iff shl_def drop_bit_push_bit)

lemma get_field_shl_above [field_simps_bits]:
  "in_field k v \<Longrightarrow> p + k \<le> s \<Longrightarrow> get_field s n (shl v p) = 0"
  by (rule get_field_past [OF in_field_shl]) auto

lemma get_field_shl_below [field_simps_bits]: "s + n \<le> p \<Longrightarrow> get_field s n (shl v p) = 0"
  by (rule bit_eqI)
     (auto simp: get_field_def shl_def bit_take_bit_iff bit_drop_bit_eq bit_push_bit_iff)

section \<open>Bits and nibbles\<close>

definition is_bit :: "int \<Rightarrow> bool" where
  "is_bit v \<longleftrightarrow> v = 0 \<or> v = 1"

lemma is_bit_0 [simp]: "is_bit 0" and is_bit_1 [simp]: "is_bit 1"
  by (simp_all add: is_bit_def)

lemma is_bit_or [simp]: "is_bit a \<Longrightarrow> is_bit b \<Longrightarrow> is_bit (a OR b)"
  by (auto simp: is_bit_def)

lemma is_bit_of_bool [simp]: "is_bit (of_bool b)"
  by (cases b) simp_all

lemma in_field_is_bit: "in_field 1 v \<longleftrightarrow> is_bit v"
  by (auto simp: in_field_def is_bit_def)

lemma is_bit_cases: "is_bit v \<Longrightarrow> (v = 0 \<Longrightarrow> P) \<Longrightarrow> (v = 1 \<Longrightarrow> P) \<Longrightarrow> P"
  by (auto simp: is_bit_def)

text \<open>
  The relation nibble (LT, GT, EQ in bits 3, 2, 1) that every record form
  writes into CR0: \<open>0b1000 if value & (1 << 31) else (0b0010 if value == 0 else 0b0100)\<close>.
\<close>

definition cr0_relation :: "int \<Rightarrow> int" where
  "cr0_relation v = (if v AND 0x80000000 \<noteq> 0 then 8 else if v = 0 then 2 else 4)"

lemma cr0_relation_cases: "cr0_relation v \<in> {8, 2, 4}"
  by (simp add: cr0_relation_def)

lemma cr0_relation_or_bit:
  assumes "is_bit so"
  shows "0 \<le> cr0_relation v OR so" and "cr0_relation v OR so \<le> 15"
    and "(cr0_relation v OR so) AND 0xE = cr0_relation v"
    and "(cr0_relation v OR so) AND 1 = so"
  using cr0_relation_cases [of v] assms by (auto simp: is_bit_def)

lemma in_field_cr0 [simp]: "is_bit so \<Longrightarrow> in_field 4 (cr0_relation v OR so)"
  using cr0_relation_or_bit(1,2) [of so v] by (simp add: in_field_def)

lemma uint_minus_one32 [simp]: "uint (- 1 :: 32 word) = 0xFFFFFFFF"
  by (simp add: unsigned_minus_1_eq_mask mask_eq_exp_minus_1)

section \<open>Invariants of step functions\<close>

text \<open>
  A stateful model is a step function on its state.  \<open>stepper\<close> is the contract a
  component gives its users: every legal step keeps the invariant.  A run is a
  fold over the events, and what holds along every run is proved once here.
\<close>

locale stepper =
  fixes step :: "'s \<Rightarrow> 'e \<Rightarrow> 's"
    and legal :: "'e \<Rightarrow> bool"
    and inv :: "'s \<Rightarrow> bool"
  assumes step_inv: "inv s \<Longrightarrow> legal e \<Longrightarrow> inv (step s e)"
begin

lemma run_inv: "inv s \<Longrightarrow> list_all legal es \<Longrightarrow> inv (foldl step s es)"
  by (induction es arbitrary: s) (auto intro: step_inv)

lemma run_rel:
  assumes "inv s" and "list_all legal es"
    and refl: "\<And>s. R s s" and trans: "\<And>a b c. R a b \<Longrightarrow> R b c \<Longrightarrow> R a c"
    and one: "\<And>s e. inv s \<Longrightarrow> legal e \<Longrightarrow> R s (step s e)"
  shows "R s (foldl step s es)"
  using assms(1,2)
proof (induction es arbitrary: s)
  case Nil
  then show ?case by (simp add: refl)
next
  case (Cons e es)
  then have "R s (step s e)" and "inv (step s e)"
    by (simp_all add: one step_inv)
  moreover from this Cons have "R (step s e) (foldl step (step s e) es)"
    by simp
  ultimately show ?case by (auto intro: trans)
qed

end

end
