(* ===== verification/Family_Contract.thy ===== *)
theory Family_Contract
  imports Prelude
begin

text \<open>
  What the integer family models of \<open>sim/tools/*_family.py\<close> share: the frozen
  five-field result, the argument checks \<open>_bit\<close> and \<open>_five_bits\<close>, and the
  contract (locale \<open>flag_producer\<close>) that the CR0/XER commit model of
  \<open>flag_state.py\<close> relies on when it turns a result into a completion payload.
\<close>

section \<open>Results and argument checks\<close>

text \<open>
  \<open>AddResult\<close>, \<open>LogicalResult\<close>, \<open>ShiftResult\<close> and \<open>RotateResult\<close> are frozen
  dataclasses with the same five integer fields.
\<close>

record family_result =
  r_value :: int
  r_ca :: int
  r_ov :: int
  r_so :: int
  r_cr0 :: int

text \<open>
  The arguments of an evaluator as one record (Python's positional and keyword
  arguments): family, the two operands, and the incoming flags.
\<close>

record family_args =
  fa_family :: string
  fa_a :: int
  fa_b :: int
  fa_ca :: int
  fa_oe :: int
  fa_rc :: int
  fa_ov :: int
  fa_so :: int
  fa_cr0 :: int

text \<open>\<open>_bit\<close> returns its argument or raises; the message carries the name.\<close>

definition check_bit :: "int \<Rightarrow> string \<Rightarrow> int result" where
  "check_bit value name =
     (if value \<noteq> 0 \<and> value \<noteq> 1 then Inl (ValueError (name @ '' must be 0 or 1''))
      else Inr value)"

definition check_five_bits :: "int \<Rightarrow> string \<Rightarrow> string \<Rightarrow> int result" where
  "check_five_bits value name what =
     (if \<not> (0 \<le> value \<and> value < 32) then Inl (ValueError (name @ '' must be a five-bit '' @ what))
      else Inr value)"

definition check_nibble :: "int \<Rightarrow> int result" where
  "check_nibble old_cr0 =
     (if \<not> (0 \<le> old_cr0 \<and> old_cr0 \<le> 0xF) then Inl (ValueError ''old_cr0 must be a nibble'')
      else Inr old_cr0)"

text \<open>\<open>_signed\<close> of the add family and \<open>_signed32\<close> of the compare family.\<close>

definition signed32 :: "int \<Rightarrow> int" where
  "signed32 value =
     (let v = value AND 0xFFFFFFFF
      in if v AND 0x80000000 \<noteq> 0 then v - 2 ^ 32 else v)"

section \<open>Facts about the checks\<close>

lemma check_bit_ok [simp]: "is_bit v \<Longrightarrow> check_bit v n = Inr v"
  by (auto simp: check_bit_def is_bit_def)

lemma check_bit_Inr_iff [result_simps]: "check_bit v n = Inr x \<longleftrightarrow> is_bit v \<and> x = v"
  by (auto simp: check_bit_def is_bit_def)

lemma check_bit_bad: "\<not> is_bit v \<Longrightarrow> check_bit v n = Inl (ValueError (n @ '' must be 0 or 1''))"
  by (auto simp: check_bit_def is_bit_def)

lemma check_five_bits_ok [simp]: "in_field 5 v \<Longrightarrow> check_five_bits v n w = Inr v"
  by (simp add: check_five_bits_def in_field_def)

lemma check_five_bits_Inr_iff [result_simps]:
  "check_five_bits v n w = Inr x \<longleftrightarrow> in_field 5 v \<and> x = v"
  by (auto simp: check_five_bits_def in_field_def)

lemma check_nibble_ok [simp]: "in_field 4 v \<Longrightarrow> check_nibble v = Inr v"
  by (simp add: check_nibble_def in_field_def)

lemma check_nibble_Inr_iff [result_simps]: "check_nibble v = Inr x \<longleftrightarrow> in_field 4 v \<and> x = v"
  by (auto simp: check_nibble_def in_field_def)

lemma signed32_eq_sint: "signed32 v = sint (word_of_int v :: 32 word)"
proof -
  have "sint (word_of_int v :: 32 word) = signed_take_bit 31 v"
    by (simp add: sint_sbintrunc')
  also have "\<dots> = (if bit v 31 then take_bit 32 v - 2 ^ 32 else take_bit 32 v)"
    by (simp add: signed_take_bit_eq_take_bit_minus)
  finally show ?thesis
    by (simp add: signed32_def and_mask32 and_sign32 bit_take_bit_iff Let_def)
qed

lemma sint_word_of_int_eq_iff:
  "sint (word_of_int k :: 32 word) = k \<longleftrightarrow> - (2 ^ 31) \<le> k \<and> k < 2 ^ 31"
  by (simp add: sint_sbintrunc' signed_take_bit_int_eq_self_iff)

lemma cr0_relation_word:
  fixes w :: "32 word"
  shows "cr0_relation (uint w) = (if sint w < 0 then 8 else if w = 0 then 2 else 4)"
proof -
  have "uint w AND 0x80000000 \<noteq> 0 \<longleftrightarrow> bit (uint w) 31"
    by (simp add: and_sign32)
  also have "\<dots> \<longleftrightarrow> sint w < 0"
    by (simp add: bit_uint_iff bit_last_iff sint_uint)
  finally show ?thesis
    by (simp add: cr0_relation_def uint_0_iff)
qed

section \<open>The contract of a flag-producing family\<close>

definition family_result_ok :: "family_result \<Rightarrow> bool" where
  "family_result_ok r \<longleftrightarrow>
     in_field 32 (r_value r) \<and> is_bit (r_ca r) \<and> is_bit (r_ov r) \<and> is_bit (r_so r) \<and>
     in_field 4 (r_cr0 r)"

text \<open>
  \<open>eval\<close> is a family's evaluator on its packed arguments; \<open>rc\<close>, \<open>oe\<close> and \<open>so\<close>
  read the record bit, the overflow-enable bit and the incoming SO out of them
  (a family without an OE form has \<open>oe = 0\<close>).
\<close>

locale flag_producer =
  fixes eval :: "'a \<Rightarrow> family_result result"
    and rc :: "'a \<Rightarrow> int" and oe :: "'a \<Rightarrow> int" and so :: "'a \<Rightarrow> int"
  assumes args_bits: "eval x = Inr r \<Longrightarrow> is_bit (rc x) \<and> is_bit (oe x) \<and> is_bit (so x)"
    and result_ok: "eval x = Inr r \<Longrightarrow> family_result_ok r"
    and sticky: "eval x = Inr r \<Longrightarrow> r_so r = (if oe x = 1 then so x OR r_ov r else so x)"
    and record_form: "eval x = Inr r \<Longrightarrow> rc x = 1 \<Longrightarrow> r_cr0 r = cr0_relation (r_value r) OR r_so r"
begin

lemma so_never_clears: "eval x = Inr r \<Longrightarrow> so x = 1 \<Longrightarrow> r_so r = 1"
proof -
  assume e: "eval x = Inr r" and s: "so x = 1"
  from e have "is_bit (r_ov r)" using result_ok by (simp add: family_result_ok_def)
  with sticky [OF e] s show "r_so r = 1" by (auto simp: is_bit_def)
qed

lemma cr0_split:
  assumes "eval x = Inr r" "rc x = 1"
  shows "r_cr0 r AND 0xE = cr0_relation (r_value r)" and "r_cr0 r AND 1 = r_so r"
proof -
  have "is_bit (r_so r)"
    using result_ok [OF assms(1)] by (simp add: family_result_ok_def)
  then show "r_cr0 r AND 0xE = cr0_relation (r_value r)" and "r_cr0 r AND 1 = r_so r"
    using record_form [OF assms] by (simp_all only: cr0_relation_or_bit)
qed

end

end
