(* ===== verification/Compare_Family.thy ===== *)
theory Compare_Family
  imports Family_Contract
begin

text \<open>
  \<open>sim/tools/compare_family.py\<close>: cmp, cmpi, cmpl and cmpli with L = 0.  A compare
  replaces one four-bit field of CR and nothing else.
\<close>

section \<open>Model\<close>

text \<open>\<open>ENCODINGS\<close>: form (X or D), primary opcode, extended opcode of the X forms.\<close>

definition ENCODINGS :: "string \<Rightarrow> (string \<times> int \<times> int option) option" where
  "ENCODINGS = map_of [(''cmp'', (''X'', 31, Some 0)), (''cmpi'', (''D'', 11, None)),
     (''cmpl'', (''X'', 31, Some 32)), (''cmpli'', (''D'', 10, None))]"

record CompareResult =
  cmp_cr :: int
  cmp_field :: int
  cmp_ca :: int
  cmp_ov :: int
  cmp_so :: int

text \<open>The right operand: an immediate is checked and, for cmpi, sign-extended.\<close>

definition compare_rhs :: "string \<Rightarrow> int \<Rightarrow> int result" where
  "compare_rhs family rhs =
     (if last family = CHR ''i'' then
        (if \<not> (0 \<le> rhs \<and> rhs < 2 ^ 16)
         then Inl (ValueError ''immediate rhs must be a 16-bit encoded field'')
         else Inr (if family = ''cmpi'' \<and> rhs AND 0x8000 \<noteq> 0 then rhs - 2 ^ 16 else rhs))
      else Inr (rhs AND 0xFFFFFFFF))"

definition compare_evaluate ::
  "string \<Rightarrow> int \<Rightarrow> int \<Rightarrow> int \<Rightarrow> int \<Rightarrow> int \<Rightarrow> int \<Rightarrow> int \<Rightarrow> int \<Rightarrow> CompareResult result" where
  "compare_evaluate family a rhs bf l ca ov so old_cr =
     (if ENCODINGS family = None then Inl (ValueError ''unknown compare family'')
      else if \<not> (0 \<le> bf \<and> bf < 8) then Inl (ValueError ''bf must be a three-bit field'')
      else if l \<noteq> 0 then Inl (ValueError ''only the 32-bit L=0 form is legal on 603e'')
      else bindR (check_bit ca ''ca'') (\<lambda>ca.
           bindR (check_bit ov ''ov'') (\<lambda>ov.
           bindR (check_bit so ''so'') (\<lambda>so.
           if \<not> (0 \<le> old_cr \<and> old_cr \<le> 0xFFFFFFFF)
           then Inl (ValueError ''old_cr must be a 32-bit value'')
           else bindR (compare_rhs family rhs) (\<lambda>b.
             let a = a AND 0xFFFFFFFF;
                 (left, right) = (if family = ''cmp'' \<or> family = ''cmpi''
                                  then (signed32 a, signed32 b) else (a, b));
                 relation = (if left < right then 8 else if left > right then 4 else 2);
                 field = relation OR so;
                 shift = nat (28 - 4 * bf);
                 field_mask = push_bit shift 0xF;
                 cr = (old_cr AND NOT field_mask) OR push_bit shift field
             in Inr \<lparr>cmp_cr = cr, cmp_field = field, cmp_ca = ca, cmp_ov = ov, cmp_so = so\<rparr>)))))"

definition compare_encode :: "string \<Rightarrow> int \<Rightarrow> int \<Rightarrow> int \<Rightarrow> int \<Rightarrow> int result" where
  "compare_encode family bf ra rhs l =
     (case ENCODINGS family of
        None \<Rightarrow> Inl (ValueError ''unknown compare family'')
      | Some (form, opcode, xo) \<Rightarrow>
          if \<not> (0 \<le> bf \<and> bf < 8) then Inl (ValueError ''bf must be a three-bit field'')
          else if \<not> (0 \<le> ra \<and> ra < 32) then Inl (ValueError ''ra must be a five-bit field'')
          else if l \<noteq> 0 then Inl (ValueError ''only the 32-bit L=0 form is legal on 603e'')
          else
            let w = shl opcode 26 OR shl bf 23 OR shl ra 16 in
            if form = ''D'' then
              (if \<not> (0 \<le> rhs \<and> rhs < 2 ^ 16)
               then Inl (ValueError ''immediate rhs must be a 16-bit encoded field'')
               else Inr (w OR rhs))
            else if \<not> (0 \<le> rhs \<and> rhs < 32)
            then Inl (ValueError ''register rhs must be a five-bit field'')
            else Inr (w OR shl rhs 11 OR shl (the xo) 1))"

section \<open>Field replacement\<close>

text \<open>CR field \<open>i\<close>, counted from the most significant nibble.\<close>

definition cr_nibble :: "int \<Rightarrow> int \<Rightarrow> int" where
  "cr_nibble cr i = get_field (nat (28 - 4 * i)) 4 cr"

lemma replace_field_same:
  assumes "in_field 4 v"
  shows "get_field p 4 ((old AND NOT (push_bit p 0xF)) OR push_bit p v) = v"
proof (rule bit_eqI)
  fix n
  have m: "bit (0xF::int) j \<longleftrightarrow> j < 4" for j
    using bit_mask_iff [of 4 j, where ?'a = int] by (simp add: mask_eq_exp_minus_1)
  show "bit (get_field p 4 ((old AND NOT (push_bit p 0xF)) OR push_bit p v)) n = bit v n"
    using in_field_not_bit [OF assms, of n] linorder_not_le [of 4 n]
    by (auto simp: get_field_def bit_take_bit_iff bit_drop_bit_eq bit_or_iff bit_and_iff
        bit_not_iff bit_push_bit_iff m)
qed

lemma replace_field_other:
  assumes "in_field 4 v" and "q + 4 \<le> p \<or> p + 4 \<le> q"
  shows "get_field q 4 ((old AND NOT (push_bit p 0xF)) OR push_bit p v) = get_field q 4 old"
proof (rule bit_eqI)
  fix n
  have m: "bit (0xF::int) j \<longleftrightarrow> j < 4" for j
    using bit_mask_iff [of 4 j, where ?'a = int] by (simp add: mask_eq_exp_minus_1)
  have "bit v j \<Longrightarrow> j < 4" for j using in_field_not_bit [OF assms(1), of j] by force
  then show "bit (get_field q 4 ((old AND NOT (push_bit p 0xF)) OR push_bit p v)) n =
      bit (get_field q 4 old) n"
    using assms(2)
    by (auto simp: get_field_def bit_take_bit_iff bit_drop_bit_eq bit_or_iff bit_and_iff
        bit_not_iff bit_push_bit_iff m) (fastforce dest: leD)+
qed

lemma replace_field_range:
  assumes "in_field 32 old" "in_field 4 v" "p \<le> 28"
  shows "in_field 32 ((old AND NOT (push_bit p 0xF)) OR push_bit p v)"
  using assms(1,3) in_field_shl [OF assms(2), of p 32]
  by (auto simp: shl_def intro: in_field_or in_field_and)

lemma in_field_nibbles: "relation \<in> {8, 4, 2} \<Longrightarrow> is_bit so \<Longrightarrow> in_field 4 (relation OR so)"
  by (auto simp: is_bit_def in_field_def)

text \<open>What the two operands of a compare mean: signed words, or unsigned ones.\<close>

definition compare_operands :: "string \<Rightarrow> int \<Rightarrow> int \<Rightarrow> int \<times> int" where
  "compare_operands f a b =
     (if f = ''cmp'' then (sint (word_of_int a :: 32 word), sint (word_of_int b :: 32 word))
      else if f = ''cmpi'' then (sint (word_of_int a :: 32 word), sint (word_of_int b :: 16 word))
      else if f = ''cmpl'' then (uint (word_of_int a :: 32 word), uint (word_of_int b :: 32 word))
      else (uint (word_of_int a :: 32 word), uint (word_of_int b :: 16 word)))"

lemma signed32_trunc [simp]: "signed32 (take_bit 32 v) = signed32 v"
  by (simp add: signed32_def and_mask32)

lemma signed32_small: "- (2 ^ 31) \<le> v \<Longrightarrow> v < 2 ^ 31 \<Longrightarrow> signed32 v = v"
  using sint_word_of_int_eq_iff [of v] by (simp add: signed32_eq_sint)

lemma sint16_field:
  assumes "0 \<le> v" "v < 2 ^ 16"
  shows "sint (word_of_int v :: 16 word) = (if v AND 0x8000 \<noteq> 0 then v - 2 ^ 16 else v)"
proof -
  have "v AND 0x8000 \<noteq> 0 \<longleftrightarrow> bit v 15" by (simp add: bit_iff_and_push_bit_not_eq_0)
  moreover have "sint (word_of_int v :: 16 word) = signed_take_bit 15 v"
    by (simp add: sint_sbintrunc')
  moreover have "take_bit 16 v = v" using assms by (simp add: take_bit_int_eq_self)
  ultimately show ?thesis by (simp add: signed_take_bit_eq_take_bit_minus)
qed

lemma compare_operands_rhs:
  assumes "compare_rhs f rhs = Inr b" "ENCODINGS f \<noteq> None"
  shows "(if f = ''cmp'' \<or> f = ''cmpi'' then (signed32 (take_bit 32 a), signed32 b) else (take_bit 32 a, b))
    = compare_operands f a rhs"
proof -
  have trunc: "signed32 (take_bit 32 v) = sint (word_of_int v :: 32 word)" for v
    by (simp add: signed32_eq_sint [symmetric])
  have f: "f \<in> {''cmp'', ''cmpi'', ''cmpl'', ''cmpli''}"
    using assms(2) by (auto simp: ENCODINGS_def split: if_splits)
  have imm: "signed32 b = sint (word_of_int rhs :: 16 word)" if "f = ''cmpi''"
  proof -
    have r: "0 \<le> rhs" "rhs < 2 ^ 16" "b = (if rhs AND 0x8000 \<noteq> 0 then rhs - 2 ^ 16 else rhs)"
      using assms(1) that by (auto simp: compare_rhs_def split: if_splits)
    then show ?thesis using sint16_field [of rhs] signed32_small [of b] by simp
  qed
  from f assms(1) imm show ?thesis
    by (auto simp: compare_rhs_def compare_operands_def trunc and_mask32 unsigned_of_int take_bit_int_eq_self
        simp del: signed32_trunc split: if_splits)
qed

section \<open>Properties\<close>

text \<open>
  a compare writes CR field BF and nothing else.  The field is one of LT, GT,
  EQ for the two operands read as signed words (cmp, cmpi with a sign-extended
  immediate) or unsigned words (cmpl, cmpli), with SO copied below it; the other
  seven fields of CR and CA, OV, SO are unchanged.
\<close>

theorem compare_evaluate_cr:
  assumes "compare_evaluate f a rhs bf l ca ov so old_cr = Inr r"
  shows "in_field 32 (cmp_cr r) \<and>
    cmp_field r = (case compare_operands f a rhs of (x, y) \<Rightarrow>
      if x < y then 8 else if x > y then 4 else 2) + so \<and>
    list_all (\<lambda>i. cr_nibble (cmp_cr r) i = (if i = bf then cmp_field r else cr_nibble old_cr i)) [0..7] \<and>
    cmp_ca r = ca \<and> cmp_ov r = ov \<and> cmp_so r = so"
proof -
  from assms obtain b where bf: "0 \<le> bf" "bf < 8" and so: "is_bit so" and old: "in_field 32 old_cr"
    and enc: "ENCODINGS f \<noteq> None" and b: "compare_rhs f rhs = Inr b"
    by (auto simp: compare_evaluate_def result_simps in_field_def split: if_splits)
  obtain x y where xy: "compare_operands f a rhs = (x, y)" by fastforce
  define relation :: int where "relation = (if x < y then 8 else if x > y then 4 else 2)"
  define p where "p = nat (28 - 4 * bf)"
  have fld: "in_field 4 (relation OR so)" and sum: "relation OR so = relation + so"
    using so by (auto simp: relation_def is_bit_def in_field_def)
  have r: "r = \<lparr>cmp_cr = (old_cr AND NOT (push_bit p 0xF)) OR push_bit p (relation OR so),
      cmp_field = relation OR so, cmp_ca = ca, cmp_ov = ov, cmp_so = so\<rparr>"
    using assms bf enc b xy compare_operands_rhs [OF b enc, of a]
    by (simp add: compare_evaluate_def result_simps and_mask32 Let_def relation_def p_def
        split: if_splits prod.splits)
  have "cr_nibble (cmp_cr r) i = (if i = bf then cmp_field r else cr_nibble old_cr i)"
    if "0 \<le> i" "i < 8" for i
  proof (cases "i = bf")
    case True
    then show ?thesis using replace_field_same [OF fld, of p old_cr] r by (simp add: cr_nibble_def p_def)
  next
    case False
    then have "nat (28 - 4 * i) + 4 \<le> p \<or> p + 4 \<le> nat (28 - 4 * i)"
      using that bf by (auto simp: p_def)
    then show ?thesis
      using replace_field_other [OF fld, of "nat (28 - 4 * i)" p old_cr] r False by (simp add: cr_nibble_def)
  qed
  then have "list_all (\<lambda>i. cr_nibble (cmp_cr r) i = (if i = bf then cmp_field r else cr_nibble old_cr i)) [0..7]"
    by (auto simp: list_all_iff)
  moreover have "in_field 32 (cmp_cr r)"
    using replace_field_range [OF old fld, of p] bf r by (simp add: p_def)
  ultimately show ?thesis using r xy sum by (simp add: relation_def)
qed

theorem compare_evaluate_cr_witness:
  "\<exists>r. compare_evaluate ''cmpi'' 5 0xFFFF 2 0 1 0 1 0x12345678 = Inr r \<and>
     cmp_field r = 5 \<and> cmp_cr r = 0x12545678 \<and> in_field 32 (cmp_cr r)"
proof -
  have e: "compare_evaluate ''cmpi'' 5 0xFFFF 2 0 1 0 1 0x12345678 =
    Inr \<lparr>cmp_cr = 0x12545678, cmp_field = 5, cmp_ca = 1, cmp_ov = 0, cmp_so = 1\<rparr>"
    by (simp add: compare_evaluate_def ENCODINGS_def compare_rhs_def signed32_def)
  show ?thesis using e compare_evaluate_cr [OF e] by simp
qed

text \<open>
  A compare encoding carries opcode, BF and rA where the 32-bit instruction
  has them, L and the reserved bit are zero, and the operand field is the 16-bit
  immediate or rB.
\<close>

theorem compare_encode_fields:
  assumes "compare_encode f bf ra rhs l = Inr w"
  shows "in_field 32 w \<and> get_field 23 3 w = bf \<and> get_field 21 2 w = 0 \<and> get_field 16 5 w = ra \<and>
    (if f = ''cmpi'' \<or> f = ''cmpli''
     then get_field 26 6 w = (if f = ''cmpi'' then 11 else 10) \<and> get_field 0 16 w = rhs
     else get_field 26 6 w = 31 \<and> get_field 11 5 w = rhs \<and>
          get_field 1 10 w = (if f = ''cmp'' then 0 else 32) \<and> get_field 0 1 w = 0)"
proof -
  from assms have f: "f \<in> {''cmp'', ''cmpi'', ''cmpl'', ''cmpli''}"
    by (auto simp: compare_encode_def ENCODINGS_def split: if_splits)
  have ops: "in_field 6 (31::int)" "in_field 6 (11::int)" "in_field 6 (10::int)" "in_field 10 (32::int)"
    by (simp_all add: in_field_def)
  have flds: "in_field 3 bf" "in_field 5 ra"
    using assms f by (auto simp: compare_encode_def ENCODINGS_def in_field_def split: if_splits)
  show ?thesis
  proof (cases "f = ''cmpi'' \<or> f = ''cmpli''")
    case True
    then have r: "in_field 16 rhs" and w: "w = (shl (if f = ''cmpi'' then 11 else 10) 26 OR shl bf 23 OR shl ra 16) OR rhs"
      using assms by (auto simp: compare_encode_def ENCODINGS_def in_field_def Let_def split: if_splits)
    have "in_field 6 (if f = ''cmpi'' then 11 else 10 :: int)" using ops by simp
    note o = this
    have "in_field 32 w" unfolding w
      by (intro in_field_or in_field_shl [OF o] in_field_shl [OF flds(1)] in_field_shl [OF flds(2)]
          in_field_mono [OF r]) simp_all
    then show ?thesis using True unfolding w
      by (simp add: field_simps_bits get_field_shl_above [OF o] get_field_shl_above [OF flds(1)]
          get_field_shl_above [OF flds(2)] get_field_past [OF r] get_field_0 [OF r]
          get_field_shl_self flds o)
  next
    case False
    then have r: "in_field 5 rhs" and w: "w = (shl 31 26 OR shl bf 23 OR shl ra 16) OR shl rhs 11 OR
        shl (if f = ''cmp'' then 0 else 32) 1"
      using assms f by (auto simp: compare_encode_def ENCODINGS_def in_field_def Let_def split: if_splits)
    have "in_field 10 (if f = ''cmp'' then 0 else 32 :: int)" using ops by simp
    note o = this
    have "in_field 32 w" unfolding w
      by (intro in_field_or in_field_shl [OF ops(1)] in_field_shl [OF flds(1)] in_field_shl [OF flds(2)]
          in_field_shl [OF r] in_field_shl [OF o]) simp_all
    then show ?thesis using False unfolding w
      by (simp add: field_simps_bits get_field_shl_above [OF ops(1)] get_field_shl_above [OF flds(1)]
          get_field_shl_above [OF flds(2)] get_field_shl_above [OF r] get_field_shl_above [OF o]
          get_field_shl_self flds o r ops)
  qed
qed

theorem compare_encode_fields_witness:
  "\<exists>w. compare_encode ''cmpl'' 7 3 4 0 = Inr w \<and> get_field 23 3 w = 7 \<and> get_field 11 5 w = 4"
proof -
  have e: "compare_encode ''cmpl'' 7 3 4 0 = Inr 0x7F832040"
    by (simp add: compare_encode_def ENCODINGS_def shl_def)
  show ?thesis using e compare_encode_fields [OF e] by simp
qed

end
