(* ===== verification/Rotate_Family.thy ===== *)
theory Rotate_Family
  imports Family_Contract
begin

text \<open>
  \<open>sim/tools/rotate_family.py\<close>: rlwimi, rlwinm and rlwnm, with the PowerPC mask
  MASK(MB, ME), whose bit 0 is the most significant bit and which wraps when
  MB > ME.  The mask loop is a \<open>while True\<close>; it is modelled as a partial function
  and shown to return.
\<close>

section \<open>Model\<close>

definition PRIMARY_OPCODE :: "string \<Rightarrow> int option" where
  "PRIMARY_OPCODE = map_of [(''rlwimi'', 20), (''rlwinm'', 21), (''rlwnm'', 23)]"

type_synonym RotateResult = family_result

partial_function (option) ppc_mask_loop :: "int \<Rightarrow> int \<Rightarrow> int \<Rightarrow> int option" where
  "ppc_mask_loop me index result =
     (let result = result OR push_bit (nat (31 - index)) 1
      in if index = me then Some result
         else ppc_mask_loop me ((index + 1) AND 31) result)"

definition ppc_mask :: "int \<Rightarrow> int \<Rightarrow> int option result" where
  "ppc_mask mb me =
     bindR (check_five_bits mb ''mb'' ''value'') (\<lambda>mb.
     bindR (check_five_bits me ''me'' ''value'') (\<lambda>me.
       Inr (ppc_mask_loop me mb 0)))"

definition rotate_left :: "int \<Rightarrow> int \<Rightarrow> int" where
  "rotate_left value amount =
     (let value = value AND 0xFFFFFFFF; amount = amount AND 31
      in if amount = 0 then value
         else (push_bit (nat amount) value OR drop_bit (nat (32 - amount)) value) AND 0xFFFFFFFF)"

text \<open>
  The whole evaluator.  \<open>None\<close> inside the result would be a mask loop that never
  returns; \<open>ppc_mask_returns\<close> below excludes it.
\<close>

definition rotate_evaluate ::
  "string \<Rightarrow> int \<Rightarrow> int \<Rightarrow> int \<Rightarrow> int \<Rightarrow> int \<Rightarrow> int \<Rightarrow> int \<Rightarrow> int \<Rightarrow> int \<Rightarrow> int \<Rightarrow>
   RotateResult option result" where
  "rotate_evaluate family s shift mb me old_a rc ca ov so old_cr0 =
     (if PRIMARY_OPCODE family = None then Inl (ValueError ''unknown word-rotate family'')
      else bindR (if family \<noteq> ''rlwnm'' then check_five_bits shift ''sh'' ''value'' else Inr shift) (\<lambda>_.
           bindR (check_bit rc ''rc'') (\<lambda>rc.
           bindR (check_bit ca ''ca'') (\<lambda>ca.
           bindR (check_bit ov ''ov'') (\<lambda>ov.
           bindR (check_bit so ''so'') (\<lambda>so.
           bindR (check_nibble old_cr0) (\<lambda>old_cr0.
           bindR (ppc_mask mb me) (\<lambda>m. Inr (map_option (\<lambda>mask.
             let rotated = rotate_left s shift;
                 value = (if family = ''rlwimi''
                          then (rotated AND mask) OR ((old_a AND 0xFFFFFFFF) AND NOT mask)
                          else rotated AND mask) AND 0xFFFFFFFF;
                 cr0 = (if rc \<noteq> 0 then cr0_relation value OR so else old_cr0)
             in \<lparr>r_value = value, r_ca = ca, r_ov = ov, r_so = so, r_cr0 = cr0\<rparr>) m)))))))))"

definition rotate_encode :: "string \<Rightarrow> int \<Rightarrow> int \<Rightarrow> int \<Rightarrow> int \<Rightarrow> int \<Rightarrow> int \<Rightarrow> int result" where
  "rotate_encode family rc rs ra sh_or_rb mb me =
     (case PRIMARY_OPCODE family of
        None \<Rightarrow> Inl (ValueError ''unknown word-rotate family'')
      | Some opcode \<Rightarrow>
          bindR (check_bit rc ''rc'') (\<lambda>rc.
          bindR (check_five_bits rs ''rs'' ''value'') (\<lambda>rs.
          bindR (check_five_bits ra ''ra'' ''value'') (\<lambda>ra.
          bindR (check_five_bits sh_or_rb ''sh_or_rb'' ''value'') (\<lambda>sh_or_rb.
          bindR (check_five_bits mb ''mb'' ''value'') (\<lambda>mb.
          bindR (check_five_bits me ''me'' ''value'') (\<lambda>me.
            Inr (shl opcode 26 OR shl rs 21 OR shl ra 16 OR shl sh_or_rb 11 OR shl mb 6 OR
                 shl me 1 OR rc))))))))"

section \<open>The mask\<close>

text \<open>
  Architectural bit \<open>i\<close> is in MASK(MB, ME) when it lies on the cyclic walk from
  MB up to ME.
\<close>

definition mask_selects :: "int \<Rightarrow> int \<Rightarrow> int \<Rightarrow> bool" where
  "mask_selects mb me i = (if mb \<le> me then mb \<le> i \<and> i \<le> me else mb \<le> i \<or> i \<le> me)"

lemma next_index: "in_field 5 i \<Longrightarrow> (i + 1) AND 31 = (if i = 31 then 0 else i + 1)"
  by (auto simp: and_mask5 in_field_def take_bit_int_eq_self)

lemma mod32_near: "- 32 < x \<Longrightarrow> x < 32 \<Longrightarrow> x mod 32 = (if x < 0 then x + 32 else (x::int))"
  using mod_add_self2 [of x 32, symmetric] mod_pos_pos_trivial [of "x + 32" 32] mod_pos_pos_trivial [of x 32]
  by (auto simp del: mod_add_self1 mod_add_self2)

lemma ppc_mask_loop_returns:
  assumes "in_field 5 me" "in_field 5 i"
  shows "\<exists>m. ppc_mask_loop me i acc = Some m \<and>
    (\<forall>k. 0 \<le> k \<and> k < 32 \<longrightarrow> bit m (nat (31 - k)) = (bit acc (nat (31 - k)) \<or> mask_selects i me k)) \<and>
    (in_field 32 acc \<longrightarrow> in_field 32 m)"
  using assms(2)
proof (induction "nat ((me - i) mod 32)" arbitrary: i acc rule: less_induct)
  case less
  let ?acc = "acc OR push_bit (nat (31 - i)) 1"
  have bits: "bit ?acc (nat (31 - k)) = (bit acc (nat (31 - k)) \<or> k = i)" if "0 \<le> k" "k < 32" for k
  proof -
    have "nat (31 - k) = nat (31 - i) \<longleftrightarrow> k = i"
      using that less.prems by (auto simp: in_field_def nat_eq_iff)
    then show ?thesis by (auto simp: bit_or_iff bit_exp_iff)
  qed
  have fld: "in_field 32 ?acc" if "in_field 32 acc"
  proof -
    have "in_field 32 (shl 1 (nat (31 - i)))"
      using less.prems by (intro in_field_shl [of 1]) (auto simp: in_field_def)
    from in_field_or [OF that this] show ?thesis by (simp add: shl_def)
  qed
  show ?case
  proof (cases "i = me")
    case True
    have "mask_selects i me k \<longleftrightarrow> k = i" for k using True by (auto simp: mask_selects_def)
    then show ?thesis
      using True bits fld by (auto simp: ppc_mask_loop.simps)
  next
    case False
    let ?j = "(i + 1) AND 31"
    have j: "in_field 5 ?j" by (simp add: and_mask5)
    have "nat ((me - ?j) mod 32) < nat ((me - i) mod 32)"
      using False assms(1) less.prems unfolding next_index [OF less.prems] in_field_def
      by (simp add: mod32_near)
    from less.hyps [OF this j, of ?acc] obtain m where m: "ppc_mask_loop me ?j ?acc = Some m"
      and mb: "\<And>k. 0 \<le> k \<Longrightarrow> k < 32 \<Longrightarrow> bit m (nat (31 - k)) = (bit ?acc (nat (31 - k)) \<or> mask_selects ?j me k)"
      and mf: "in_field 32 ?acc \<Longrightarrow> in_field 32 m" by auto
    have "(k = i \<or> mask_selects ?j me k) \<longleftrightarrow> mask_selects i me k" if "0 \<le> k" "k < 32" for k
      using that False assms(1) less.prems unfolding next_index [OF less.prems]
      by (auto simp: mask_selects_def in_field_def split: if_splits)
    then show ?thesis
      using m mb bits mf fld False by (auto simp: ppc_mask_loop.simps [of me i] Let_def)
  qed
qed

lemma ppc_mask_returns:
  assumes "in_field 5 mb" "in_field 5 me"
  shows "\<exists>m. ppc_mask mb me = Inr (Some m) \<and> in_field 32 m \<and>
    (\<forall>k. 0 \<le> k \<and> k < 32 \<longrightarrow> bit m (nat (31 - k)) = mask_selects mb me k)"
  using assms ppc_mask_loop_returns [OF assms(2,1), of 0] by (auto simp: ppc_mask_def)

lemma ppc_mask_Inr: "ppc_mask mb me = Inr m \<Longrightarrow> in_field 5 mb \<and> in_field 5 me"
  by (auto simp: ppc_mask_def result_simps)

section \<open>Rotation\<close>

lemma rotate_left_word: "rotate_left v n = uint (word_rotl (nat (n mod 32)) (word_of_int v :: 32 word))"
  (is "_ = uint (word_rotl ?k ?w)")
proof (rule bit_eqI)
  fix i
  have k: "nat (n AND 31) = ?k" "n AND 31 = 0 \<longleftrightarrow> ?k = 0" "nat (32 - (n AND 31)) = 32 - ?k" "?k < 32"
    by (auto simp: and_mask5 take_bit_eq_mod nat_diff_distrib nat_less_iff)
  have w: "bit ?w j = (j < 32 \<and> bit v j)" for j
    by (simp add: bit_word_of_int_iff)
  show "bit (rotate_left v n) i = bit (uint (word_rotl ?k ?w)) i"
  proof (cases "?k = 0")
    case True
    then show ?thesis
      using k(2) by (auto simp: rotate_left_def Let_def and_mask32 bit_take_bit_iff bit_uint_iff
          bit_word_rotl_iff w)
  next
    case False
    have m: "(i + (32 - ?k mod 32)) mod 32 = (if i < ?k then i + 32 - ?k else i - ?k)" if "i < 32"
      using that k(4) False by (auto simp: mod_if)
    define q where "q = ?k"
    have q: "q \<noteq> 0" "q < 32" using False k(4) by (simp_all add: q_def)
    have "rotate_left v n = take_bit 32 (push_bit q (take_bit 32 v) OR drop_bit (32 - q) (take_bit 32 v))"
      using False k(1-3) by (simp add: rotate_left_def Let_def and_mask32 q_def)
    then have "bit (rotate_left v n) i =
        (i < 32 \<and> (q \<le> i \<and> bit v (i - q) \<or> i < q \<and> bit v (i + 32 - q)))"
      using q by (auto simp: bit_take_bit_iff bit_or_iff bit_push_bit_iff bit_drop_bit_eq add.commute)
    also have "\<dots> = bit (uint (word_rotl ?k ?w)) i"
    proof (cases "i < 32")
      case True
      have "bit (word_rotl q ?w) i = bit ?w (if i < q then i + 32 - q else i - q)"
        using True m q by (simp add: bit_word_rotl_iff q_def [symmetric])
      then show ?thesis using True q by (auto simp: bit_uint_iff q_def [symmetric] w)
    qed (simp add: bit_uint_iff)
    finally show ?thesis .
  qed
qed

section \<open>Properties\<close>

text \<open>
  C6: the mask loop returns for every pair of five-bit arguments, and MASK(MB, ME)
  has architectural bit \<open>k\<close> set exactly when \<open>k\<close> is on the cyclic walk from MB to ME;
  an argument outside five bits raises.
\<close>

theorem ppc_mask_correct:
  "(case ppc_mask mb me of
      Inl _ \<Rightarrow> \<not> (in_field 5 mb \<and> in_field 5 me)
    | Inr None \<Rightarrow> False
    | Inr (Some m) \<Rightarrow> in_field 5 mb \<and> in_field 5 me \<and> in_field 32 m \<and>
        list_all (\<lambda>k. bit m (nat (31 - k)) = mask_selects mb me k) [0..31])"
proof (cases "in_field 5 mb \<and> in_field 5 me")
  case True
  then obtain m where "ppc_mask mb me = Inr (Some m)" "in_field 32 m"
    "\<forall>k. 0 \<le> k \<and> k < 32 \<longrightarrow> bit m (nat (31 - k)) = mask_selects mb me k"
    using ppc_mask_returns by blast
  then show ?thesis using True by (auto simp: list_all_iff)
next
  case False
  then show ?thesis
    by (cases "ppc_mask mb me") (auto dest: ppc_mask_Inr)
qed

text \<open>
  a rotate form is machine rotation under a mask.  Bit by bit, rlwinm and
  rlwnm return the rotated operand inside MASK(MB, ME) and zero outside it, rlwimi
  keeps the old rA outside it; CA, OV and SO never change and CR0 only with Rc.
\<close>

theorem rotate_evaluate_bits:
  assumes "rotate_evaluate f s sh mb me old_a rc ca ov so cr0 = Inr res"
    and "0 \<le> k" and "k < 32"
  shows "\<exists>r. res = Some r \<and> in_field 32 (r_value r) \<and>
    bit (r_value r) (nat (31 - k)) =
      (if mask_selects mb me k
       then bit (word_rotl (nat (sh mod 32)) (word_of_int s :: 32 word)) (nat (31 - k))
       else f = ''rlwimi'' \<and> bit old_a (nat (31 - k))) \<and>
    r_ca r = ca \<and> r_ov r = ov \<and> r_so r = so \<and>
    r_cr0 r = (if rc = 1 then cr0_relation (r_value r) OR so else cr0)"
proof -
  from assms(1) obtain m where fields: "in_field 5 mb" "in_field 5 me" and rc: "is_bit rc"
    and m: "ppc_mask mb me = Inr m"
    by (auto simp: rotate_evaluate_def result_simps dest: ppc_mask_Inr split: if_splits)
  obtain mk where mk: "m = Some mk" "in_field 32 mk"
    and bits: "bit mk (nat (31 - k)) = mask_selects mb me k"
    using ppc_mask_returns [OF fields] m assms(2,3) by auto
  have rc1: "rc \<noteq> 0 \<longleftrightarrow> rc = 1" using rc by (auto simp: is_bit_def)
  have pos: "nat (31 - k) < 32" using assms(2) by simp
  define v where "v = take_bit 32 (if f = ''rlwimi''
      then (rotate_left s sh AND mk) OR (take_bit 32 old_a AND NOT mk) else rotate_left s sh AND mk)"
  have res: "res = Some \<lparr>r_value = v, r_ca = ca, r_ov = ov, r_so = so,
      r_cr0 = (if rc \<noteq> 0 then cr0_relation v OR so else cr0)\<rparr>"
    using assms(1) m mk(1) unfolding v_def
    by (auto simp: rotate_evaluate_def result_simps Let_def and_mask32
        split: if_splits simp del: take_bit_and take_bit_or)
  have "bit v (nat (31 - k)) =
      (if mask_selects mb me k
       then bit (word_rotl (nat (sh mod 32)) (word_of_int s :: 32 word)) (nat (31 - k))
       else f = ''rlwimi'' \<and> bit old_a (nat (31 - k)))"
    using pos bits unfolding v_def rotate_left_word
    by (simp add: bit_take_bit_iff bit_and_iff bit_or_iff bit_not_iff bit_uint_iff)
  then show ?thesis using res rc1 unfolding v_def by simp
qed

theorem rotate_evaluate_bits_witness:
  "\<exists>r. rotate_evaluate ''rlwimi'' 0x12345678 0 31 0 0xAAAA5555 1 0 0 0 0 = Inr (Some r) \<and>
     bit (r_value r) 31 = False \<and> in_field 32 (r_value r)"
proof -
  have e: "rotate_evaluate ''rlwimi'' 0x12345678 0 31 0 0xAAAA5555 1 0 0 0 0 =
    Inr (Some \<lparr>r_value = 0x2AAA5554, r_ca = 0, r_ov = 0, r_so = 0, r_cr0 = 4\<rparr>)"
    by (simp add: rotate_evaluate_def PRIMARY_OPCODE_def check_five_bits_def check_nibble_def
        ppc_mask_def ppc_mask_loop.simps rotate_left_def cr0_relation_def)
  show ?thesis using e rotate_evaluate_bits [OF e, of 0] by auto
qed

end
