(* ===== verification/Add_Family.thy ===== *)
theory Add_Family
  imports Family_Contract
begin

text \<open>
  \<open>sim/tools/add_family.py\<close>: the reference model of add, addc, adde, addme and
  addze with XER and CR0 side effects, and the XO-form encoder.  The theorems
  relate it to 32-bit machine arithmetic and read the encoded fields back.
\<close>

section \<open>Model\<close>

definition add_XO :: "string \<Rightarrow> int option" where
  "add_XO = map_of [(''add'', 266), (''addc'', 10), (''adde'', 138), (''addme'', 234),
                    (''addze'', 202)]"

type_synonym AddResult = family_result

text \<open>The two running totals of \<open>evaluate\<close>: unsigned and signed.\<close>

definition add_totals :: "string \<Rightarrow> int \<Rightarrow> int \<Rightarrow> int \<Rightarrow> int \<times> int" where
  "add_totals family a b ca =
     (if family = ''add'' \<or> family = ''addc'' then (a + b, signed32 a + signed32 b)
      else if family = ''adde'' then (a + b + ca, signed32 a + signed32 b + ca)
      else if family = ''addme'' then (a + 0xFFFFFFFF + ca, signed32 a + ca - 1)
      else (a + ca, signed32 a + ca))"

definition add_evaluate ::
  "string \<Rightarrow> int \<Rightarrow> int \<Rightarrow> int \<Rightarrow> int \<Rightarrow> int \<Rightarrow> int \<Rightarrow> int \<Rightarrow> int \<Rightarrow> AddResult result" where
  "add_evaluate family a b ca oe rc old_ov old_so old_cr0 =
     (if add_XO family = None then Inl (ValueError ''unknown ADD family'')
      else bindR (check_bit ca ''ca'') (\<lambda>ca.
           bindR (check_bit oe ''oe'') (\<lambda>oe.
           bindR (check_bit rc ''rc'') (\<lambda>rc.
           bindR (check_bit old_ov ''old_ov'') (\<lambda>old_ov.
           bindR (check_bit old_so ''old_so'') (\<lambda>old_so.
           bindR (check_nibble old_cr0) (\<lambda>old_cr0.
             let a = a AND 0xFFFFFFFF; b = b AND 0xFFFFFFFF;
                 (unsigned_total, signed_total) = add_totals family a b ca;
                 value = unsigned_total AND 0xFFFFFFFF;
                 carry = of_bool (unsigned_total > 0xFFFFFFFF);
                 new_ca = (if family = ''add'' then ca else carry);
                 overflow = of_bool (signed_total < - (2 ^ 31) \<or> signed_total > 2 ^ 31 - 1);
                 new_ov = (if oe \<noteq> 0 then overflow else old_ov);
                 new_so = (if oe \<noteq> 0 then old_so OR overflow else old_so);
                 new_cr0 = (if rc \<noteq> 0 then cr0_relation value OR new_so else old_cr0)
             in Inr \<lparr>r_value = value, r_ca = new_ca, r_ov = new_ov, r_so = new_so,
                     r_cr0 = new_cr0\<rparr>)))))))"

definition add_encode :: "string \<Rightarrow> int \<Rightarrow> int \<Rightarrow> int \<Rightarrow> int \<Rightarrow> int \<Rightarrow> int result" where
  "add_encode family oe rc rd ra rb =
     (case add_XO family of
        None \<Rightarrow> Inl (ValueError ''unknown ADD family'')
      | Some xo \<Rightarrow>
          bindR (check_bit oe ''oe'') (\<lambda>oe.
          bindR (check_bit rc ''rc'') (\<lambda>rc.
          bindR (check_five_bits rd ''rd'' ''register index'') (\<lambda>_.
          bindR (check_five_bits ra ''ra'' ''register index'') (\<lambda>_.
          bindR (check_five_bits rb ''rb'' ''register index'') (\<lambda>_.
            if (family = ''addme'' \<or> family = ''addze'') \<and> rb \<noteq> 0
            then Inl (ValueError (family @ '' rB field is reserved and must be zero''))
            else Inr (shl 31 26 OR shl rd 21 OR shl ra 16 OR shl rb 11 OR shl oe 10 OR shl xo 1 OR rc)))))))"

section \<open>Machine arithmetic\<close>

text \<open>
  The reference: one 32-bit addition of \<open>A\<close>, an addend chosen by the family and
  a carry-in.
\<close>

definition add_addend :: "string \<Rightarrow> 32 word \<Rightarrow> 32 word" where
  "add_addend family b =
     (if family = ''addme'' then - 1 else if family = ''addze'' then 0 else b)"

definition add_cin :: "string \<Rightarrow> int \<Rightarrow> int" where
  "add_cin family ca = (if family = ''add'' \<or> family = ''addc'' then 0 else ca)"

lemma add_XO_dom: "add_XO f \<noteq> None \<longleftrightarrow> f \<in> {''add'', ''addc'', ''adde'', ''addme'', ''addze''}"
  by (auto simp: add_XO_def)

lemma add_XO_field: "add_XO f = Some xo \<Longrightarrow> in_field 9 xo"
  by (auto simp: add_XO_def in_field_def split: if_splits)

lemma signed32_mask [simp]: "signed32 (x AND 0xFFFFFFFF) = signed32 x"
  by (simp add: signed32_def and_mask32)

lemma signed32_range: "- (2 ^ 31) \<le> signed32 x \<and> signed32 x < 2 ^ 31"
  using sint_range_size [of "word_of_int x :: 32 word"]
  by (simp add: signed32_eq_sint word_size)

lemma uint_word_of_int32: "uint (word_of_int x :: 32 word) = x AND 0xFFFFFFFF"
  by (simp add: and_mask32 unsigned_of_int)

lemma add_totals_unsigned:
  assumes "add_XO f \<noteq> None"
  shows "fst (add_totals f (a AND 0xFFFFFFFF) (b AND 0xFFFFFFFF) ca) =
         uint (word_of_int a :: 32 word) + uint (add_addend f (word_of_int b)) + add_cin f ca"
  using assms [unfolded add_XO_dom]
  by (auto simp: add_totals_def add_addend_def add_cin_def uint_word_of_int32)

lemma add_totals_signed:
  assumes "add_XO f \<noteq> None"
  shows "snd (add_totals f (a AND 0xFFFFFFFF) (b AND 0xFFFFFFFF) ca) =
         sint (word_of_int a :: 32 word) + sint (add_addend f (word_of_int b)) + add_cin f ca"
  using assms [unfolded add_XO_dom]
  by (auto simp: add_totals_def add_addend_def add_cin_def signed32_eq_sint [symmetric])

text \<open>The result record in terms of the two totals, once the arguments are checked.\<close>

definition add_result :: "string \<Rightarrow> int \<Rightarrow> int \<Rightarrow> int \<Rightarrow> int \<Rightarrow> int \<Rightarrow> int \<Rightarrow> int \<Rightarrow> int \<Rightarrow> AddResult" where
  "add_result family u s ca oe rc old_ov old_so old_cr0 =
     (let value = take_bit 32 u;
          overflow = of_bool (s < - (2 ^ 31) \<or> s > 2 ^ 31 - 1);
          new_so = (if oe \<noteq> 0 then old_so OR overflow else old_so)
      in \<lparr>r_value = value,
          r_ca = (if family = ''add'' then ca else of_bool (u > 0xFFFFFFFF)),
          r_ov = (if oe \<noteq> 0 then overflow else old_ov),
          r_so = new_so,
          r_cr0 = (if rc \<noteq> 0 then cr0_relation value OR new_so else old_cr0)\<rparr>)"

lemma add_evaluate_eq:
  "add_evaluate f a b ca oe rc ov so cr0 = Inr r \<longleftrightarrow>
     add_XO f \<noteq> None \<and> is_bit ca \<and> is_bit oe \<and> is_bit rc \<and> is_bit ov \<and> is_bit so \<and>
     in_field 4 cr0 \<and>
     r = add_result f (fst (add_totals f (a AND 0xFFFFFFFF) (b AND 0xFFFFFFFF) ca))
                      (snd (add_totals f (a AND 0xFFFFFFFF) (b AND 0xFFFFFFFF) ca))
                      ca oe rc ov so cr0"
  by (cases "add_XO f = None")
     (auto simp: add_evaluate_def add_result_def result_simps Let_def and_mask32 case_prod_beta
           split del: if_split)

lemma add_result_ok:
  assumes "is_bit ca" "is_bit oe" "is_bit ov" "is_bit so" "in_field 4 cr0"
  shows "family_result_ok (add_result f u s ca oe rc ov so cr0)"
  using assms by (simp add: family_result_ok_def add_result_def Let_def)

lemma add_result_sticky:
  "is_bit oe \<Longrightarrow> r_so (add_result f u s ca oe rc ov so cr0) =
     (if oe = 1 then so OR r_ov (add_result f u s ca oe rc ov so cr0) else so)"
  by (auto simp: add_result_def Let_def is_bit_def)

lemma add_result_record:
  "r_cr0 (add_result f u s ca oe 1 ov so cr0) =
     cr0_relation (r_value (add_result f u s ca oe 1 ov so cr0)) OR
     r_so (add_result f u s ca oe 1 ov so cr0)"
  by (simp add: add_result_def Let_def)

definition add_run :: "family_args \<Rightarrow> AddResult result" where
  "add_run x = add_evaluate (fa_family x) (fa_a x) (fa_b x) (fa_ca x) (fa_oe x) (fa_rc x)
                            (fa_ov x) (fa_so x) (fa_cr0 x)"

interpretation add_flags: flag_producer add_run fa_rc fa_oe fa_so
proof (unfold_locales, goal_cases)
  case (1 x r)
  then show ?case by (simp add: add_run_def add_evaluate_eq)
next
  case (2 x r)
  then show ?case by (simp add: add_run_def add_evaluate_eq add_result_ok)
next
  case (3 x r)
  then show ?case by (simp only: add_run_def add_evaluate_eq) (metis add_result_sticky)
next
  case (4 x r)
  then show ?case by (simp only: add_run_def add_evaluate_eq) (metis add_result_record)
qed

section \<open>Properties\<close>

text \<open>
  C5: the add family is 32-bit machine addition.  With \<open>A\<close> and \<open>B\<close> the operands
  as 32-bit words, every accepted evaluation returns \<open>A + addend + cin\<close>, a CA
  that is the carry out of bit 0 (add keeps the old CA), and with OE an OV that
  says exactly when the signed sum does not fit, sticky in SO; with Rc the CR0
  nibble is the signed relation of the result and the new SO.
\<close>

theorem add_evaluate_word:
  fixes A B :: "32 word"
  assumes "add_XO f \<noteq> None" and "is_bit ca" "is_bit oe" "is_bit rc" "is_bit ov" "is_bit so"
    and "in_field 4 cr0"
    and "A = word_of_int a" and "B = add_addend f (word_of_int b)" and "c = add_cin f ca"
  shows "\<exists>r. add_evaluate f a b ca oe rc ov so cr0 = Inr r \<and>
    r_value r = uint (A + B + word_of_int c) \<and>
    r_ca r = (if f = ''add'' then ca else of_bool (2 ^ 32 \<le> uint A + uint B + c)) \<and>
    r_ov r = (if oe = 1 then of_bool (sint (A + B + word_of_int c) \<noteq> sint A + sint B + c) else ov) \<and>
    r_so r = (if oe = 1 then so OR r_ov r else so) \<and>
    r_cr0 r = (if rc = 1 then (if sint (A + B + word_of_int c) < 0 then 8
                               else if A + B + word_of_int c = 0 then 2 else 4) OR r_so r
               else cr0)"
proof -
  let ?u = "uint A + uint B + c" and ?s = "sint A + sint B + c"
  let ?w = "A + B + word_of_int c"
  let ?r = "add_result f ?u ?s ca oe rc ov so cr0"
  have ev: "add_evaluate f a b ca oe rc ov so cr0 = Inr ?r"
    using assms by (simp add: add_evaluate_eq add_totals_unsigned add_totals_signed)
  have w_u: "?w = word_of_int ?u" and w_s: "?w = word_of_int ?s"
    by simp_all
  have val: "r_value ?r = uint ?w"
    unfolding w_u uint_word_of_int_eq by (simp add: add_result_def Let_def)
  have ov: "(?s < - (2 ^ 31) \<or> ?s > 2 ^ 31 - 1) \<longleftrightarrow> sint ?w \<noteq> ?s"
    unfolding w_s using sint_word_of_int_eq_iff [of ?s] by auto
  have neg: "cr0_relation (uint ?w) = (if sint ?w < 0 then 8 else if ?w = 0 then 2 else 4)"
    by (simp add: cr0_relation_word)
  have bits: "oe \<noteq> 0 \<longleftrightarrow> oe = 1" "rc \<noteq> 0 \<longleftrightarrow> rc = 1"
    using assms(3,4) by (auto simp: is_bit_def)
  have "r_cr0 ?r = (if rc = 1 then cr0_relation (r_value ?r) OR r_so ?r else cr0)"
    using bits(2) by (simp add: add_result_def Let_def)
  moreover have "r_ov ?r = (if oe = 1 then of_bool (sint ?w \<noteq> ?s) else ov)"
    unfolding add_result_def Let_def ov using bits(1) by simp
  moreover have "r_ca ?r = (if f = ''add'' then ca else of_bool (2 ^ 32 \<le> ?u))"
    by (simp add: add_result_def Let_def)
  ultimately show ?thesis
    using ev val neg add_result_sticky [OF assms(3)] by auto
qed

theorem add_evaluate_word_witness:
  "\<exists>r. add_evaluate ''adde'' 0x7FFFFFFF 0 1 1 1 0 0 0 = Inr r \<and>
     r_value r = 0x80000000 \<and> r_ca r = 0 \<and> r_ov r = 1 \<and> r_so r = 1 \<and> r_cr0 r = 9"
  using add_evaluate_word [of "''adde''" 1 1 1 0 0 0 "word_of_int 0x7FFFFFFF" "0x7FFFFFFF"
      "add_addend ''adde'' (word_of_int 0)" 0 "add_cin ''adde'' 1"]
  by (auto simp: add_XO_def add_addend_def add_cin_def)

text \<open>
  The encoder is injective.  An accepted \<open>encode\<close> call gives a 32-bit word
  whose primary opcode, rD, rA, rB, OE, extended-opcode and Rc fields read back
  the arguments, so the family and every operand are recovered from the word.
\<close>

theorem add_encode_fields:
  assumes "add_encode f oe rc rd ra rb = Inr w"
  shows "in_field 32 w \<and> get_field 26 6 w = 31 \<and> get_field 21 5 w = rd \<and>
    get_field 16 5 w = ra \<and> get_field 11 5 w = rb \<and> get_field 10 1 w = oe \<and>
    Some (get_field 1 9 w) = add_XO f \<and> get_field 0 1 w = rc"
proof -
  from assms obtain xo where xo: "add_XO f = Some xo"
    and w: "w = shl 31 26 OR shl rd 21 OR shl ra 16 OR shl rb 11 OR shl oe 10 OR shl xo 1 OR rc"
    and fields: "in_field 1 oe" "in_field 1 rc" "in_field 5 rd" "in_field 5 ra" "in_field 5 rb"
    unfolding add_encode_def in_field_is_bit
    by (auto simp: result_simps split: option.splits if_splits)
  moreover have "in_field 6 31" by (simp add: in_field_def)
  moreover have "in_field 9 xo" using xo by (rule add_XO_field)
  ultimately show ?thesis
    by (simp add: w field_simps_bits in_field_shl in_field_mono [of _ _ 32])
qed

theorem add_encode_fields_witness:
  "add_encode ''addze'' 1 1 3 4 0 = Inr 0x7C640595 \<and> get_field 21 5 0x7C640595 = 3"
  using add_encode_fields [of "''addze''" 1 1 3 4 0 "0x7C640595"]
  by (simp add: add_encode_def add_XO_def check_five_bits_def shl_def get_field_def)

end
