(* ===== verification/Logical_Family.thy ===== *)
theory Logical_Family
  imports Family_Contract
begin

text \<open>
  \<open>sim/tools/logical_family.py\<close>: the eight register-logical forms, which touch
  no XER bit and write CR0 only in their record form, and their X-form encoder.
\<close>

section \<open>Model\<close>

definition logical_XO :: "string \<Rightarrow> int option" where
  "logical_XO = map_of [(''and'', 28), (''andc'', 60), (''or'', 444), (''orc'', 412),
     (''xor'', 316), (''nand'', 476), (''nor'', 124), (''eqv'', 284)]"

type_synonym LogicalResult = family_result

definition logical_value :: "string \<Rightarrow> int \<Rightarrow> int \<Rightarrow> int" where
  "logical_value family s b =
     (if family = ''and'' then s AND b
      else if family = ''andc'' then s AND NOT b
      else if family = ''or'' then s OR b
      else if family = ''orc'' then s OR NOT b
      else if family = ''xor'' then s XOR b
      else if family = ''nand'' then NOT (s AND b)
      else if family = ''nor'' then NOT (s OR b)
      else NOT (s XOR b))"

definition logical_evaluate ::
  "string \<Rightarrow> int \<Rightarrow> int \<Rightarrow> int \<Rightarrow> int \<Rightarrow> int \<Rightarrow> int \<Rightarrow> int \<Rightarrow> LogicalResult result" where
  "logical_evaluate family s b rc ca ov so old_cr0 =
     (if logical_XO family = None then Inl (ValueError ''unknown register-logical family'')
      else bindR (check_bit rc ''rc'') (\<lambda>rc.
           bindR (check_bit ca ''ca'') (\<lambda>ca.
           bindR (check_bit ov ''ov'') (\<lambda>ov.
           bindR (check_bit so ''so'') (\<lambda>so.
           bindR (check_nibble old_cr0) (\<lambda>old_cr0.
             let s = s AND 0xFFFFFFFF; b = b AND 0xFFFFFFFF;
                 value = logical_value family s b AND 0xFFFFFFFF;
                 cr0 = (if rc \<noteq> 0 then cr0_relation value OR so else old_cr0)
             in Inr \<lparr>r_value = value, r_ca = ca, r_ov = ov, r_so = so, r_cr0 = cr0\<rparr>))))))"

definition logical_encode :: "string \<Rightarrow> int \<Rightarrow> int \<Rightarrow> int \<Rightarrow> int \<Rightarrow> int result" where
  "logical_encode family rc rs ra rb =
     (case logical_XO family of
        None \<Rightarrow> Inl (ValueError ''unknown register-logical family'')
      | Some xo \<Rightarrow>
          bindR (check_bit rc ''rc'') (\<lambda>rc.
          bindR (check_five_bits rs ''rs'' ''register index'') (\<lambda>_.
          bindR (check_five_bits ra ''ra'' ''register index'') (\<lambda>_.
          bindR (check_five_bits rb ''rb'' ''register index'') (\<lambda>_.
            Inr (shl 31 26 OR shl rs 21 OR shl ra 16 OR shl rb 11 OR shl xo 1 OR rc))))))"

section \<open>Lemmas\<close>

lemma logical_XO_dom:
  "logical_XO f \<noteq> None \<longleftrightarrow>
     f \<in> {''and'', ''andc'', ''or'', ''orc'', ''xor'', ''nand'', ''nor'', ''eqv''}"
  by (auto simp: logical_XO_def)

lemma logical_XO_field: "logical_XO f = Some xo \<Longrightarrow> in_field 10 xo"
  by (auto simp: logical_XO_def in_field_def split: if_splits)

lemma logical_evaluate_eq:
  "logical_evaluate f s b rc ca ov so cr0 = Inr r \<longleftrightarrow>
     logical_XO f \<noteq> None \<and> is_bit rc \<and> is_bit ca \<and> is_bit ov \<and> is_bit so \<and> in_field 4 cr0 \<and>
     r = (let v = take_bit 32 (logical_value f (take_bit 32 s) (take_bit 32 b))
          in \<lparr>r_value = v, r_ca = ca, r_ov = ov, r_so = so,
              r_cr0 = (if rc \<noteq> 0 then cr0_relation v OR so else cr0)\<rparr>)"
  by (cases "logical_XO f = None")
     (auto simp: logical_evaluate_def result_simps Let_def and_mask32 split del: if_split)

definition logical_run :: "family_args \<Rightarrow> LogicalResult result" where
  "logical_run x = logical_evaluate (fa_family x) (fa_a x) (fa_b x) (fa_rc x) (fa_ca x)
                                    (fa_ov x) (fa_so x) (fa_cr0 x)"

interpretation logical_flags: flag_producer logical_run fa_rc "\<lambda>_. 0" fa_so
  by unfold_locales
     (simp_all add: logical_run_def logical_evaluate_eq family_result_ok_def Let_def)

section \<open>Properties\<close>

text \<open>
  The value is the bitwise function of the two operands as 32-bit words; a bit of the
  result depends only on the same bits of the operands.
\<close>

definition logical_bool :: "string \<Rightarrow> bool \<Rightarrow> bool \<Rightarrow> bool" where
  "logical_bool family p q =
     (if family = ''and'' then p \<and> q else if family = ''andc'' then p \<and> \<not> q
      else if family = ''or'' then p \<or> q else if family = ''orc'' then p \<or> \<not> q
      else if family = ''xor'' then p \<noteq> q else if family = ''nand'' then \<not> (p \<and> q)
      else if family = ''nor'' then \<not> (p \<or> q) else p = q)"

lemma bit_logical_value:
  "bit (logical_value f s b) n = logical_bool f (bit s n) (bit b n)"
  by (simp add: logical_value_def logical_bool_def bit_simps)

text \<open>
  Register-logical forms compute bitwise and leave XER alone.  Every accepted
  evaluation gives a 32-bit value whose bit \<open>n\<close> is the family's Boolean function of
  bits \<open>n\<close> of the operands, returns the incoming CA, OV and SO unchanged, and keeps
  CR0 unless Rc is set.
\<close>

theorem logical_evaluate_bits:
  assumes "logical_evaluate f s b rc ca ov so cr0 = Inr r"
  shows "in_field 32 (r_value r) \<and>
    (\<forall>n < 32. bit (r_value r) n = logical_bool f (bit s n) (bit b n)) \<and>
    r_ca r = ca \<and> r_ov r = ov \<and> r_so r = so \<and>
    r_cr0 r = (if rc = 1 then cr0_relation (r_value r) OR so else cr0)"
proof -
  have "rc \<noteq> 0 \<longleftrightarrow> rc = 1"
    using assms by (auto simp: logical_evaluate_eq is_bit_def)
  then show ?thesis
    using assms by (simp add: logical_evaluate_eq Let_def bit_take_bit_iff bit_logical_value)
qed

theorem logical_evaluate_bits_witness:
  "logical_evaluate ''orc'' 0 0xFFFFFFFF 1 0 0 1 0 =
     Inr \<lparr>r_value = 0, r_ca = 0, r_ov = 0, r_so = 1, r_cr0 = 3\<rparr> \<and>
   \<not> logical_bool ''orc'' (bit (0::int) 7) (bit (0xFFFFFFFF::int) 7)"
proof -
  have e: "logical_evaluate ''orc'' 0 0xFFFFFFFF 1 0 0 1 0 =
     Inr \<lparr>r_value = 0, r_ca = 0, r_ov = 0, r_so = 1, r_cr0 = 3\<rparr>"
    by (simp add: logical_evaluate_def logical_XO_def check_nibble_def logical_value_def
        cr0_relation_def)
  show ?thesis using e logical_evaluate_bits [OF e] by (simp add: logical_bool_def)
qed

end
