(* ===== verification/Shift_Family.thy ===== *)
theory Shift_Family
  imports Family_Contract
begin

text \<open>
  \<open>sim/tools/shift_family.py\<close>: slw, srw, sraw and srawi.  Register forms use the
  low six bits of the count; the algebraic right shifts set CA when a negative
  operand loses a one bit.
\<close>

section \<open>Model\<close>

definition shift_XO :: "string \<Rightarrow> int option" where
  "shift_XO = map_of [(''slw'', 24), (''srw'', 536), (''sraw'', 792), (''srawi'', 824)]"

type_synonym ShiftResult = family_result

text \<open>The count: SH for srawi, checked to be five bits, else the low six bits.\<close>

definition shift_count :: "string \<Rightarrow> int \<Rightarrow> int result" where
  "shift_count family shift =
     (if family = ''srawi'' then
        (if \<not> (0 \<le> shift \<and> shift < 32) then Inl (ValueError ''srawi SH must be a five-bit value'')
         else Inr shift)
      else Inr (shift AND 0x3F))"

text \<open>The value and the new CA.\<close>

definition shift_value :: "string \<Rightarrow> int \<Rightarrow> int \<Rightarrow> int \<Rightarrow> int \<times> int" where
  "shift_value family s count ca =
     (let negative = (s AND 0x80000000 \<noteq> 0) in
      if family = ''slw'' then
        ((if count < 32 then push_bit (nat count) s AND 0xFFFFFFFF else 0), ca)
      else if family = ''srw'' then ((if count < 32 then drop_bit (nat count) s else 0), ca)
      else if count \<ge> 32 then
        ((if negative then 0xFFFFFFFF else 0), of_bool (negative \<and> negative))
      else
        (let signed_s = (if negative then s - 2 ^ 32 else s);
             value = drop_bit (nat count) signed_s AND 0xFFFFFFFF;
             discarded_one = (count > 0 \<and> s AND (push_bit (nat count) 1 - 1) \<noteq> 0)
         in (value, of_bool (negative \<and> discarded_one))))"

definition shift_evaluate ::
  "string \<Rightarrow> int \<Rightarrow> int \<Rightarrow> int \<Rightarrow> int \<Rightarrow> int \<Rightarrow> int \<Rightarrow> int \<Rightarrow> ShiftResult result" where
  "shift_evaluate family s shift rc ca ov so old_cr0 =
     (if shift_XO family = None then Inl (ValueError ''unknown word-shift family'')
      else bindR (check_bit rc ''rc'') (\<lambda>rc.
           bindR (check_bit ca ''ca'') (\<lambda>ca.
           bindR (check_bit ov ''ov'') (\<lambda>ov.
           bindR (check_bit so ''so'') (\<lambda>so.
           bindR (check_nibble old_cr0) (\<lambda>old_cr0.
           bindR (shift_count family shift) (\<lambda>count.
             let s = s AND 0xFFFFFFFF;
                 (value, new_ca) = shift_value family s count ca;
                 cr0 = (if rc \<noteq> 0 then cr0_relation value OR so else old_cr0)
             in Inr \<lparr>r_value = value, r_ca = new_ca, r_ov = ov, r_so = so, r_cr0 = cr0\<rparr>)))))))"

definition shift_encode :: "string \<Rightarrow> int \<Rightarrow> int \<Rightarrow> int \<Rightarrow> int \<Rightarrow> int result" where
  "shift_encode family rc rs ra rb_or_sh =
     (case shift_XO family of
        None \<Rightarrow> Inl (ValueError ''unknown word-shift family'')
      | Some xo \<Rightarrow>
          bindR (check_bit rc ''rc'') (\<lambda>rc.
          bindR (check_five_bits rs ''rs'' ''field'') (\<lambda>_.
          bindR (check_five_bits ra ''ra'' ''field'') (\<lambda>_.
          bindR (check_five_bits rb_or_sh ''rb_or_sh'' ''field'') (\<lambda>_.
            Inr (shl 31 26 OR shl rs 21 OR shl ra 16 OR shl rb_or_sh 11 OR shl xo 1 OR rc))))))"

section \<open>Lemmas\<close>

lemma shift_XO_dom: "shift_XO f \<noteq> None \<longleftrightarrow> f \<in> {''slw'', ''srw'', ''sraw'', ''srawi''}"
  by (auto simp: shift_XO_def)

lemma shift_count_range: "shift_count f shift = Inr c \<Longrightarrow> 0 \<le> c \<and> c < 64"
  using take_bit_int_less_exp [of 6 shift]
  by (auto simp: shift_count_def and_mask6 split: if_splits)

lemma shift_evaluate_eq:
  "shift_evaluate f s shift rc ca ov so cr0 = Inr r \<longleftrightarrow>
     shift_XO f \<noteq> None \<and> is_bit rc \<and> is_bit ca \<and> is_bit ov \<and> is_bit so \<and> in_field 4 cr0 \<and>
     (\<exists>c. shift_count f shift = Inr c \<and>
       r = (let (v, ca') = shift_value f (take_bit 32 s) c ca
            in \<lparr>r_value = v, r_ca = ca', r_ov = ov, r_so = so,
                r_cr0 = (if rc \<noteq> 0 then cr0_relation v OR so else cr0)\<rparr>))"
  by (cases "shift_XO f = None")
     (auto simp: shift_evaluate_def result_simps Let_def and_mask32 case_prod_beta split del: if_split)

lemma in_field_drop_bit: "in_field n s \<Longrightarrow> in_field n (drop_bit m s)"
  using in_field_mono [of n s "n + m"] by (simp add: in_field_iff take_bit_drop_bit)

lemma shift_value_ok:
  assumes "in_field 32 s" "is_bit ca"
  shows "in_field 32 (fst (shift_value f s c ca)) \<and> is_bit (snd (shift_value f s c ca))"
proof -
  have "in_field 32 0xFFFFFFFF" by (simp add: in_field_def)
  then show ?thesis
    using assms in_field_drop_bit [OF assms(1)]
    by (simp add: shift_value_def Let_def and_mask32)
qed

definition shift_run :: "family_args \<Rightarrow> ShiftResult result" where
  "shift_run x = shift_evaluate (fa_family x) (fa_a x) (fa_b x) (fa_rc x) (fa_ca x)
                                (fa_ov x) (fa_so x) (fa_cr0 x)"

interpretation shift_flags: flag_producer shift_run fa_rc "\<lambda>_. 0" fa_so
  by unfold_locales
     (use shift_value_ok [OF in_field_take_bit_self] in
       \<open>auto simp: shift_run_def shift_evaluate_eq family_result_ok_def Let_def case_prod_beta\<close>)

section \<open>Machine shifts\<close>

definition shift_word :: "string \<Rightarrow> nat \<Rightarrow> 32 word \<Rightarrow> 32 word" where
  "shift_word family n a =
     (if family = ''slw'' then push_bit n a else if family = ''srw'' then drop_bit n a
      else signed_drop_bit n a)"

lemma uint_eq_take_bit_sint: "uint (a :: 32 word) = take_bit 32 (sint a)"
  using uint_sint [of a] by simp

lemma take_bit_uint32 [simp]: "take_bit 32 (uint (a :: 32 word)) = uint a"
  using uint_bounded [of a] by (simp add: take_bit_int_eq_self)

lemma negative_iff_sint: "uint (a :: 32 word) AND 0x80000000 \<noteq> 0 \<longleftrightarrow> sint a < 0"
  by (simp add: and_sign32 bit_uint_iff bit_last_iff sint_uint)

lemma signed_of_uint:
  "(if uint (a :: 32 word) AND 0x80000000 \<noteq> 0 then uint a - 2 ^ 32 else uint a) = sint a"
  using signed32_eq_sint [of "uint a"]
  by (simp only: signed32_def and_mask32 Let_def take_bit_uint32 word_of_int_uint)

lemma low_bits_sint:
  assumes "n < 32"
  shows "uint (a :: 32 word) AND (push_bit n 1 - 1) = sint a mod 2 ^ n"
proof -
  have "uint a AND (push_bit n 1 - 1) = take_bit n (uint a)"
    by (simp only: take_bit_eq_mask mask_eq_exp_minus_1 push_bit_eq_mult mult_1)
  also have "\<dots> = take_bit n (sint a)"
    using assms by (simp add: uint_eq_take_bit_sint take_bit_take_bit min_def)
  finally show ?thesis by (simp add: take_bit_eq_mod)
qed

lemma shift_value_left:
  assumes "0 \<le> c"
  shows "shift_value ''slw'' (uint (a :: 32 word)) c ca = (uint (push_bit (nat c) a), ca)"
proof -
  have "uint (push_bit (nat c) a) = take_bit 32 (push_bit (nat c) (uint a))"
    using unsigned_push_bit_eq [of "nat c" a] by simp
  moreover have "take_bit 32 (push_bit (nat c) (uint a)) = 0" if "\<not> c < 32"
    using that assms by (simp add: take_bit_push_bit)
  ultimately show ?thesis
    by (simp add: shift_value_def Let_def and_mask32)
qed

lemma shift_value_right:
  assumes "0 \<le> c"
  shows "shift_value ''srw'' (uint (a :: 32 word)) c ca = (uint (drop_bit (nat c) a), ca)"
proof -
  have "uint (drop_bit (nat c) a) = drop_bit (nat c) (uint a)"
    by (simp add: unsigned_drop_bit_eq)
  moreover have "drop_bit (nat c) (uint a) = 0" if "\<not> c < 32"
    using that assms uint_bounded [of a] drop_bit_take_bit [of "nat c" 32 "uint a"] by simp
  ultimately show ?thesis
    by (simp add: shift_value_def Let_def)
qed

lemma shift_value_algebraic:
  assumes "0 \<le> c" and "f = ''sraw'' \<or> f = ''srawi''"
  shows "shift_value f (uint (a :: 32 word)) c ca =
    (uint (signed_drop_bit (nat c) a),
     of_bool (sint a < 0 \<and> \<not> 2 ^ nat c dvd sint a))"
proof (cases "c < 32")
  case True
  have v: "uint (signed_drop_bit (nat c) a) = take_bit 32 (drop_bit (nat c) (sint a))"
    by (simp add: uint_eq_take_bit_sint sint_signed_drop_bit_eq)
  have d: "(c > 0 \<and> uint a AND (push_bit (nat c) 1 - 1) \<noteq> 0) \<longleftrightarrow> \<not> 2 ^ nat c dvd sint a"
    using True assms(1) low_bits_sint [of "nat c" a]
    by (cases "c = 0") (auto simp: dvd_eq_mod_eq_0)
  have "shift_value f (uint a) c ca =
      (drop_bit (nat c) (if uint a AND 0x80000000 \<noteq> 0 then uint a - 2 ^ 32 else uint a)
         AND 0xFFFFFFFF,
       of_bool (uint a AND 0x80000000 \<noteq> 0 \<and>
         (c > 0 \<and> uint a AND (push_bit (nat c) 1 - 1) \<noteq> 0)))"
    using True assms(2) by (elim disjE) (simp_all add: shift_value_def Let_def)
  then show ?thesis
    unfolding signed_of_uint unfolding negative_iff_sint d v and_mask32 .
next
  case False
  then have n: "32 \<le> nat c" by simp
  have r: "- (2 ^ 31) \<le> sint a" "sint a < 2 ^ 31"
    using sint_range_size [of a] by (simp_all add: word_size)
  have p: "(2::int) ^ 31 < 2 ^ nat c"
    using n by (intro power_strict_increasing) auto
  have d: "drop_bit (nat c) (sint a) = (if sint a < 0 then - 1 else 0)"
  proof (cases "sint a < 0")
    case True
    then have "sint a div 2 ^ nat c = - 1"
      using r(1) p by (intro int_div_pos_eq [where r = "sint a + 2 ^ nat c"]) auto
    then show ?thesis using True by (simp add: drop_bit_eq_div)
  next
    case False
    then show ?thesis using r(2) p by (simp add: drop_bit_eq_div div_pos_pos_trivial)
  qed
  have "\<not> 2 ^ nat c dvd sint a" if "sint a < 0"
    using that r(1) p zdvd_imp_le [of "2 ^ nat c" "- sint a"] by auto
  moreover have "shift_value f (uint a) c ca =
      (if sint a < 0 then 0xFFFFFFFF else 0, of_bool (sint a < 0))"
    using False assms(2) unfolding shift_value_def Let_def negative_iff_sint
    by (elim disjE) simp_all
  moreover have "uint (signed_drop_bit (nat c) a) = (if sint a < 0 then 0xFFFFFFFF else 0)"
    unfolding uint_eq_take_bit_sint sint_signed_drop_bit_eq d by (simp add: mask_eq_exp_minus_1)
  ultimately show ?thesis by auto
qed

section \<open>Properties\<close>

text \<open>
  the shift family is 32-bit machine shifting.  For a count that the form
  accepts (six bits for the register forms, so 32 to 63 included), slw and srw
  return the logical shifts and leave CA alone, sraw and srawi return the
  arithmetic right shift with CA set exactly when the operand is negative and
  the shift is inexact; OV and SO never change.
\<close>

theorem shift_evaluate_word:
  fixes A :: "32 word"
  assumes "shift_evaluate f (uint A) shift rc ca ov so cr0 = Inr r"
    and "shift_count f shift = Inr n"
  shows "r_value r = uint (shift_word f (nat n) A) \<and>
    r_ca r = (if f = ''slw'' \<or> f = ''srw'' then ca
              else of_bool (sint A < 0 \<and> \<not> 2 ^ nat n dvd sint A)) \<and>
    r_ov r = ov \<and> r_so r = so \<and>
    r_cr0 r = (if rc = 1 then cr0_relation (r_value r) OR so else cr0)"
proof -
  from assms have f: "f = ''slw'' \<or> f = ''srw'' \<or> f = ''sraw'' \<or> f = ''srawi''"
    and rc: "rc \<noteq> 0 \<longleftrightarrow> rc = 1" and r: "r = (let (v, ca') = shift_value f (uint A) n ca
            in \<lparr>r_value = v, r_ca = ca', r_ov = ov, r_so = so,
                r_cr0 = (if rc \<noteq> 0 then cr0_relation v OR so else cr0)\<rparr>)"
    using shift_XO_dom [of f] by (auto simp: shift_evaluate_eq is_bit_def)
  have "0 \<le> n" using shift_count_range [OF assms(2)] by simp
  then have "shift_value f (uint A) n ca = (uint (shift_word f (nat n) A),
      if f = ''slw'' \<or> f = ''srw'' then ca else of_bool (sint A < 0 \<and> \<not> 2 ^ nat n dvd sint A))"
    using f by (auto simp: shift_value_left shift_value_right shift_value_algebraic shift_word_def)
  then show ?thesis using r rc by (simp add: Let_def)
qed

theorem shift_evaluate_word_witness:
  "shift_evaluate ''sraw'' (uint (0xF0000008 :: 32 word)) 0x44 1 0 0 1 0 =
     Inr \<lparr>r_value = 0xFF000000, r_ca = 1, r_ov = 0, r_so = 1, r_cr0 = 9\<rparr> \<and>
   shift_word ''sraw'' 4 0xF0000008 = 0xFF000000"
proof -
  have e: "shift_evaluate ''sraw'' (uint (0xF0000008 :: 32 word)) 0x44 1 0 0 1 0 =
     Inr \<lparr>r_value = 0xFF000000, r_ca = 1, r_ov = 0, r_so = 1, r_cr0 = 9\<rparr>"
    by (simp add: shift_evaluate_def shift_XO_def check_nibble_def shift_count_def shift_value_def
        cr0_relation_def)
  have n: "shift_count ''sraw'' 0x44 = Inr 4" by (simp add: shift_count_def)
  show ?thesis
    using e shift_evaluate_word [OF e n] by (simp add: word_uint_eq_iff)
qed

end
