(* ===== verification/Flag_State.thy ===== *)
theory Flag_State
  imports Add_Family Logical_Family Shift_Family
begin

text \<open>
  \<open>sim/tools/flag_state.py\<close>: the masked commit of CR0, XER and one GPR, and the
  lifecycle of the single speculative flag owner.  A dataclass is a record; its
  \<open>__post_init__\<close> is a \<open>mk_\<close> constructor that returns the record or the
  \<open>FlagStateError\<close> it raises, and the predicate \<open>..._ok\<close> holds of exactly the
  records that constructor lets through.  The type checks of \<open>__post_init__\<close>
  (\<open>isinstance\<close>, \<open>type(...) is bool\<close>) are discharged by the HOL types.

  \<open>FlagOwnerModel.advance\<close> mutates the object while it runs and may raise on
  the way, so the model returns both: the outcome or exception, and the object
  as the method leaves it.
\<close>

section \<open>Data\<close>

definition CR0_MASK :: int where "CR0_MASK = 0xF0000000"
definition XER_SO_MASK :: int where "XER_SO_MASK = 0x80000000"
definition XER_OV_MASK :: int where "XER_OV_MASK = 0x40000000"
definition XER_CA_MASK :: int where "XER_CA_MASK = 0x20000000"
definition OWNER_DEPTH :: int where "OWNER_DEPTH = 5"
definition GENERATION_MODULUS :: int where "GENERATION_MODULUS = 256"

definition flag_bit :: "int \<Rightarrow> string \<Rightarrow> int result" where
  "flag_bit value name =
     (if value \<noteq> 0 \<and> value \<noteq> 1 then Inl (FlagStateError (name @ '' must be 0 or 1'')) else Inr value)"

definition flag_word :: "int \<Rightarrow> string \<Rightarrow> int result" where
  "flag_word value name =
     (if \<not> (0 \<le> value \<and> value \<le> 0xFFFFFFFF)
      then Inl (FlagStateError (name @ '' must be a 32-bit unsigned value'')) else Inr value)"

record OwnerTag =
  ot_index :: int
  ot_generation :: int

definition mk_OwnerTag :: "int \<Rightarrow> int \<Rightarrow> OwnerTag result" where
  "mk_OwnerTag index generation =
     (if \<not> (0 \<le> index \<and> index < OWNER_DEPTH)
      then Inl (FlagStateError ''owner index must select one of five completion slots'')
      else if \<not> (0 \<le> generation \<and> generation < GENERATION_MODULUS)
      then Inl (FlagStateError ''owner generation must be an eight-bit value'')
      else Inr \<lparr>ot_index = index, ot_generation = generation\<rparr>)"

record WritePermissions =
  read_ca :: bool
  read_so :: bool
  write_ca :: bool
  write_ov_so :: bool
  write_cr_field :: bool

definition mk_WritePermissions :: "bool \<Rightarrow> bool \<Rightarrow> bool \<Rightarrow> bool \<Rightarrow> bool \<Rightarrow> WritePermissions result" where
  "mk_WritePermissions rca rso wca wov wcr =
     (if (wov \<or> wcr) \<and> \<not> rso
      then Inl (FlagStateError ''OV/SO or CR0 writers must capture incoming SO'')
      else Inr \<lparr>read_ca = rca, read_so = rso, write_ca = wca, write_ov_so = wov, write_cr_field = wcr\<rparr>)"

definition needs_flags :: "WritePermissions \<Rightarrow> bool" where
  "needs_flags p = (read_ca p \<or> read_so p \<or> write_ca p \<or> write_ov_so p \<or> write_cr_field p)"

definition cr_mask :: "WritePermissions \<Rightarrow> int" where
  "cr_mask p = (if write_cr_field p then CR0_MASK else 0)"

definition xer_mask :: "WritePermissions \<Rightarrow> int" where
  "xer_mask p = (if write_ca p then XER_CA_MASK else 0) OR
     (if write_ov_so p then XER_SO_MASK OR XER_OV_MASK else 0)"

record CompletionPayload =
  pl_value :: int
  pl_ca :: int
  pl_ov :: int
  pl_so :: int
  pl_cr0 :: int

definition mk_CompletionPayload :: "int \<Rightarrow> int \<Rightarrow> int \<Rightarrow> int \<Rightarrow> int \<Rightarrow> CompletionPayload result" where
  "mk_CompletionPayload value ca ov so cr0 =
     bindR (flag_word value ''result value'') (\<lambda>_.
     bindR (flag_bit ca ''ca'') (\<lambda>_.
     bindR (flag_bit ov ''ov'') (\<lambda>_.
     bindR (flag_bit so ''so'') (\<lambda>_.
       if \<not> (0 \<le> cr0 \<and> cr0 \<le> 0xF) then Inl (FlagStateError ''cr0 must be a four-bit value'')
       else Inr \<lparr>pl_value = value, pl_ca = ca, pl_ov = ov, pl_so = so, pl_cr0 = cr0\<rparr>))))"

record ArchitecturalState =
  st_cr :: int
  st_xer :: int
  st_gprs :: "int list"

fun check_gprs :: "int list \<Rightarrow> unit result" where
  "check_gprs [] = Inr ()"
| "check_gprs (v # vs) = bindR (flag_word v ''gprs[index]'') (\<lambda>_. check_gprs vs)"

definition mk_ArchitecturalState :: "int \<Rightarrow> int \<Rightarrow> int list \<Rightarrow> ArchitecturalState result" where
  "mk_ArchitecturalState cr xer gprs =
     bindR (flag_word cr ''cr'') (\<lambda>_.
     bindR (flag_word xer ''xer'') (\<lambda>_.
       if length gprs \<noteq> 32 then Inl (FlagStateError ''gprs must contain exactly 32 values'')
       else bindR (check_gprs gprs) (\<lambda>_. Inr \<lparr>st_cr = cr, st_xer = xer, st_gprs = gprs\<rparr>)))"

record CommitPacket =
  cp_permissions :: WritePermissions
  cp_payload :: CompletionPayload
  cp_gpr_write :: bool
  cp_gpr :: int

definition mk_CommitPacket :: "WritePermissions \<Rightarrow> CompletionPayload \<Rightarrow> bool \<Rightarrow> int \<Rightarrow> CommitPacket result" where
  "mk_CommitPacket perms payload gpr_write gpr =
     (if \<not> (0 \<le> gpr \<and> gpr < 32) then Inl (FlagStateError ''gpr must be a five-bit register index'')
      else Inr \<lparr>cp_permissions = perms, cp_payload = payload, cp_gpr_write = gpr_write, cp_gpr = gpr\<rparr>)"

record AllocationRequest =
  rq_tag :: OwnerTag
  rq_permissions :: WritePermissions
  rq_gpr_write :: bool
  rq_gpr :: int

definition mk_AllocationRequest :: "OwnerTag \<Rightarrow> WritePermissions \<Rightarrow> bool \<Rightarrow> int \<Rightarrow> AllocationRequest result" where
  "mk_AllocationRequest tag perms gpr_write gpr =
     (if \<not> (0 \<le> gpr \<and> gpr < 32) then Inl (FlagStateError ''gpr must be a five-bit register index'')
      else Inr \<lparr>rq_tag = tag, rq_permissions = perms, rq_gpr_write = gpr_write, rq_gpr = gpr\<rparr>)"

record CapturedAllocation =
  ca_request :: AllocationRequest
  ca_ca_in :: int
  ca_so_in :: int

definition mk_CapturedAllocation :: "AllocationRequest \<Rightarrow> int \<Rightarrow> int \<Rightarrow> CapturedAllocation result" where
  "mk_CapturedAllocation request ca_in so_in =
     bindR (flag_bit ca_in ''ca_in'') (\<lambda>_.
     bindR (flag_bit so_in ''so_in'') (\<lambda>_.
       if \<not> needs_flags (rq_permissions request)
       then Inl (FlagStateError ''flag-free allocation cannot own the flag token'')
       else Inr \<lparr>ca_request = request, ca_ca_in = ca_in, ca_so_in = so_in\<rparr>))"

record PreparedOperation =
  po_permissions :: WritePermissions
  po_payload :: CompletionPayload

record EdgeOutcome =
  eo_retired :: bool
  eo_finished :: bool
  eo_wake :: bool
  eo_killed :: bool
  eo_acquired :: bool
  eo_captured :: "CapturedAllocation option"

section \<open>The atomic commit\<close>

definition apply_commit :: "ArchitecturalState \<Rightarrow> CommitPacket \<Rightarrow> ArchitecturalState result" where
  "apply_commit state packet =
     (let permissions = cp_permissions packet;
          payload = cp_payload packet;
          cr_candidate = push_bit 28 (pl_cr0 payload);
          xer_candidate = push_bit 31 (pl_so payload) OR push_bit 30 (pl_ov payload) OR push_bit 29 (pl_ca payload);
          cr = (st_cr state AND NOT (cr_mask permissions)) OR (cr_candidate AND cr_mask permissions);
          xer = (st_xer state AND NOT (xer_mask permissions)) OR (xer_candidate AND xer_mask permissions);
          gprs = (if cp_gpr_write packet then (st_gprs state)[nat (cp_gpr packet) := pl_value payload]
                  else st_gprs state)
      in mk_ArchitecturalState cr xer gprs)"

definition check_commit_transition ::
  "ArchitecturalState \<Rightarrow> CommitPacket \<Rightarrow> ArchitecturalState \<Rightarrow> unit result" where
  "check_commit_transition before packet after =
     bindR (apply_commit before packet) (\<lambda>expected.
       if after \<noteq> expected
       then Inl (FlagStateError ''architectural transition is not the allocated atomic commit'')
       else Inr ())"

definition validate_completion :: "CapturedAllocation \<Rightarrow> CompletionPayload \<Rightarrow> unit result" where
  "validate_completion allocation payload =
     (let permissions = rq_permissions (ca_request allocation) in
      bindR (if write_ov_so permissions
             then (let expected_so = ca_so_in allocation OR pl_ov payload in
                   if pl_so payload \<noteq> expected_so
                   then (if ca_so_in allocation \<noteq> 0 \<and> \<not> pl_so payload \<noteq> 0
                         then Inl (FlagStateError ''sticky SO cannot clear an incoming one'')
                         else Inl (FlagStateError ''SO must equal incoming SO OR current OV''))
                   else Inr ())
             else Inr ()) (\<lambda>_.
      if write_cr_field permissions
      then (let relation = pl_cr0 payload AND 0xE;
                expected_relation = cr0_relation (pl_value payload) in
            if relation \<noteq> expected_relation
            then Inl (FlagStateError ''CR0 LT/GT/EQ must describe the signed result value'')
            else let final_so = (if write_ov_so permissions then pl_so payload else ca_so_in allocation) in
              if (pl_cr0 payload AND 1) \<noteq> final_so
              then Inl (FlagStateError ''CR0.SO must use the instruction's final SO'')
              else Inr ())
      else Inr ()))"

section \<open>Preparing an operation from a family model\<close>

definition prepare_payload :: "WritePermissions result \<Rightarrow> family_result \<Rightarrow> PreparedOperation result" where
  "prepare_payload perms result =
     bindR perms (\<lambda>permissions.
     bindR (mk_CompletionPayload (r_value result) (r_ca result) (r_ov result) (r_so result) (r_cr0 result))
       (\<lambda>payload. Inr \<lparr>po_permissions = permissions, po_payload = payload\<rparr>))"

definition prepare_add ::
  "string \<Rightarrow> int \<Rightarrow> int \<Rightarrow> int \<Rightarrow> int \<Rightarrow> int \<Rightarrow> int \<Rightarrow> int \<Rightarrow> int \<Rightarrow> PreparedOperation result" where
  "prepare_add family a b ca_in oe rc ov_in so_in old_cr0 =
     (if add_XO family = None then Inl (FlagStateError ''unknown ADD family'')
      else bindR (flag_bit oe ''oe'') (\<lambda>oe.
           bindR (flag_bit rc ''rc'') (\<lambda>rc.
           bindR (flag_bit ca_in ''ca_in'') (\<lambda>ca_in.
           bindR (flag_bit ov_in ''ov_in'') (\<lambda>ov_in.
           bindR (flag_bit so_in ''so_in'') (\<lambda>so_in.
           bindR (add_evaluate family a b ca_in oe rc ov_in so_in old_cr0) (\<lambda>result.
             prepare_payload
               (mk_WritePermissions (family \<in> {''adde'', ''addme'', ''addze''}) (oe \<noteq> 0 \<or> rc \<noteq> 0)
                  (family \<noteq> ''add'') (oe \<noteq> 0) (rc \<noteq> 0))
               result)))))))"

definition prepare_shift ::
  "string \<Rightarrow> int \<Rightarrow> int \<Rightarrow> int \<Rightarrow> int \<Rightarrow> int \<Rightarrow> int \<Rightarrow> int \<Rightarrow> PreparedOperation result" where
  "prepare_shift family source count rc ca_in ov_in so_in old_cr0 =
     (if shift_XO family = None then Inl (FlagStateError ''unknown shift family'')
      else bindR (flag_bit rc ''rc'') (\<lambda>rc.
           bindR (shift_evaluate family source count rc ca_in ov_in so_in old_cr0) (\<lambda>result.
             let writes_ca = (family \<in> {''sraw'', ''srawi''}) in
             prepare_payload (mk_WritePermissions False (rc \<noteq> 0) writes_ca False (rc \<noteq> 0)) result)))"

definition prepare_logical ::
  "string \<Rightarrow> int \<Rightarrow> int \<Rightarrow> int \<Rightarrow> int \<Rightarrow> int \<Rightarrow> int \<Rightarrow> int \<Rightarrow> PreparedOperation result" where
  "prepare_logical family source operand rc ca_in ov_in so_in old_cr0 =
     (if logical_XO family = None then Inl (FlagStateError ''unknown logical family'')
      else bindR (flag_bit rc ''rc'') (\<lambda>rc.
           bindR (logical_evaluate family source operand rc ca_in ov_in so_in old_cr0) (\<lambda>result.
             prepare_payload (mk_WritePermissions False (rc \<noteq> 0) False False (rc \<noteq> 0)) result)))"

section \<open>The flag owner\<close>

record FlagOwnerModel =
  fo_state :: ArchitecturalState
  fo_owner :: "CapturedAllocation option"
  fo_finished :: "CompletionPayload option"

definition FlagOwnerModel_init :: "ArchitecturalState option \<Rightarrow> FlagOwnerModel" where
  "FlagOwnerModel_init state =
     \<lparr>fo_state = (case state of Some s \<Rightarrow> s
        | None \<Rightarrow> \<lparr>st_cr = 0, st_xer = 0, st_gprs = replicate 32 0\<rparr>),
      fo_owner = None, fo_finished = None\<rparr>"

definition busy :: "FlagOwnerModel \<Rightarrow> bool" where
  "busy m = (fo_owner m \<noteq> None)"

text \<open>The keyword arguments of \<open>advance\<close>.\<close>

record Edge =
  ed_retire :: "OwnerTag option"
  ed_finish :: "(OwnerTag \<times> CompletionPayload) option"
  ed_allocate :: "AllocationRequest option"
  ed_survivors :: "OwnerTag list option"

definition owner_tag :: "CapturedAllocation \<Rightarrow> OwnerTag" where
  "owner_tag c = rq_tag (ca_request c)"

definition edge_retired :: "FlagOwnerModel \<Rightarrow> Edge \<Rightarrow> bool" where
  "edge_retired m e =
     (case (ed_retire e, fo_owner m, fo_finished m) of
        (Some t, Some owner, Some _) \<Rightarrow> t = owner_tag owner
      | _ \<Rightarrow> False)"

definition check_recovery :: "FlagOwnerModel \<Rightarrow> Edge \<Rightarrow> unit result" where
  "check_recovery m e =
     (case ed_survivors e of
        None \<Rightarrow> Inr ()
      | Some survivor_list \<Rightarrow>
          if length survivor_list \<noteq> card (set survivor_list)
          then Inl (FlagStateError ''recovery flag-owner list contains a duplicate'')
          else if length survivor_list > 1
          then Inl (FlagStateError ''at most one flag owner may survive recovery'')
          else if fo_owner m = None \<and> survivor_list \<noteq> []
          then Inl (FlagStateError ''recovery names a flag owner when none is allocated'')
          else if (case fo_owner m of Some owner \<Rightarrow> survivor_list \<noteq> [] \<and> hd survivor_list \<noteq> owner_tag owner
                   | None \<Rightarrow> False)
          then Inl (FlagStateError ''recovery survivor is not the exact allocated flag owner'')
          else if edge_retired m e \<and> survivor_list \<noteq> []
          then Inl (FlagStateError ''retiring flag owner must be absent from post-commit survivors'')
          else Inr ())"

definition retire_step :: "FlagOwnerModel \<Rightarrow> Edge \<Rightarrow> FlagOwnerModel result" where
  "retire_step m e =
     (case (edge_retired m e, fo_owner m, fo_finished m) of
        (True, Some pre_owner, Some pre_finished) \<Rightarrow>
          bindR (validate_completion pre_owner pre_finished) (\<lambda>_.
          bindR (mk_CommitPacket (rq_permissions (ca_request pre_owner)) pre_finished
                   (rq_gpr_write (ca_request pre_owner)) (rq_gpr (ca_request pre_owner))) (\<lambda>packet.
          bindR (apply_commit (fo_state m) packet) (\<lambda>state.
            Inr (m\<lparr>fo_state := state, fo_owner := None, fo_finished := None\<rparr>))))
      | _ \<Rightarrow> Inr m)"

definition kill_step :: "FlagOwnerModel \<Rightarrow> Edge \<Rightarrow> FlagOwnerModel \<times> bool" where
  "kill_step m e =
     (case (ed_survivors e, fo_owner m) of
        (Some survivors, Some owner) \<Rightarrow>
          if owner_tag owner \<notin> set survivors
          then (m\<lparr>fo_owner := None, fo_finished := None\<rparr>, True) else (m, False)
      | _ \<Rightarrow> (m, False))"

definition finish_step :: "FlagOwnerModel \<Rightarrow> Edge \<Rightarrow> (FlagOwnerModel \<times> bool) result" where
  "finish_step m e =
     (case (ed_finish e, fo_owner m, fo_finished m) of
        (Some (tag, payload), Some owner, None) \<Rightarrow>
          if tag = owner_tag owner
          then bindR (validate_completion owner payload) (\<lambda>_. Inr (m\<lparr>fo_finished := Some payload\<rparr>, True))
          else Inr (m, False)
      | _ \<Rightarrow> Inr (m, False))"

definition allocate_step ::
  "bool \<Rightarrow> FlagOwnerModel \<Rightarrow> Edge \<Rightarrow> (FlagOwnerModel \<times> bool \<times> CapturedAllocation option) result" where
  "allocate_step pre_busy m e =
     (case (ed_allocate e, ed_survivors e) of
        (Some request, None) \<Rightarrow>
          if \<not> needs_flags (rq_permissions request) then Inr (m, True, None)
          else if \<not> pre_busy
          then bindR (mk_CapturedAllocation request
                        (if st_xer (fo_state m) AND XER_CA_MASK \<noteq> 0 then 1 else 0)
                        (if st_xer (fo_state m) AND XER_SO_MASK \<noteq> 0 then 1 else 0)) (\<lambda>captured.
                 Inr (m\<lparr>fo_owner := Some captured, fo_finished := None\<rparr>, True, Some captured))
          else Inr (m, False, None)
      | _ \<Rightarrow> Inr (m, False, None))"

definition edge_wake :: "FlagOwnerModel \<Rightarrow> bool \<Rightarrow> bool" where
  "edge_wake m finished =
     (finished \<and> (case fo_owner m of Some owner \<Rightarrow> rq_gpr_write (ca_request owner) | None \<Rightarrow> False))"

definition advance :: "FlagOwnerModel \<Rightarrow> Edge \<Rightarrow> EdgeOutcome result \<times> FlagOwnerModel" where
  "advance m e =
     (case check_recovery m e of Inl err \<Rightarrow> (Inl err, m) | Inr _ \<Rightarrow>
      case retire_step m e of Inl err \<Rightarrow> (Inl err, m) | Inr m1 \<Rightarrow>
      case kill_step m1 e of (m2, killed) \<Rightarrow>
      case finish_step m2 e of Inl err \<Rightarrow> (Inl err, m2) | Inr (m3, finished) \<Rightarrow>
      case allocate_step (busy m) m3 e of Inl err \<Rightarrow> (Inl err, m3) | Inr (m4, acquired, captured) \<Rightarrow>
        (Inr \<lparr>eo_retired = edge_retired m e, eo_finished = finished, eo_wake = edge_wake m4 finished,
              eo_killed = killed, eo_acquired = acquired, eo_captured = captured\<rparr>, m4))"

section \<open>Constructed values\<close>

definition tag_ok :: "OwnerTag \<Rightarrow> bool" where
  "tag_ok t \<longleftrightarrow> 0 \<le> ot_index t \<and> ot_index t < OWNER_DEPTH \<and>
     0 \<le> ot_generation t \<and> ot_generation t < GENERATION_MODULUS"

definition permissions_ok :: "WritePermissions \<Rightarrow> bool" where
  "permissions_ok p \<longleftrightarrow> (write_ov_so p \<or> write_cr_field p \<longrightarrow> read_so p)"

definition payload_ok :: "CompletionPayload \<Rightarrow> bool" where
  "payload_ok p \<longleftrightarrow> in_field 32 (pl_value p) \<and> is_bit (pl_ca p) \<and> is_bit (pl_ov p) \<and>
     is_bit (pl_so p) \<and> in_field 4 (pl_cr0 p)"

definition state_ok :: "ArchitecturalState \<Rightarrow> bool" where
  "state_ok s \<longleftrightarrow> in_field 32 (st_cr s) \<and> in_field 32 (st_xer s) \<and> length (st_gprs s) = 32 \<and>
     list_all (in_field 32) (st_gprs s)"

definition packet_ok :: "CommitPacket \<Rightarrow> bool" where
  "packet_ok c \<longleftrightarrow> permissions_ok (cp_permissions c) \<and> payload_ok (cp_payload c) \<and> in_field 5 (cp_gpr c)"

definition request_ok :: "AllocationRequest \<Rightarrow> bool" where
  "request_ok q \<longleftrightarrow> tag_ok (rq_tag q) \<and> permissions_ok (rq_permissions q) \<and> in_field 5 (rq_gpr q)"

definition captured_ok :: "CapturedAllocation \<Rightarrow> bool" where
  "captured_ok c \<longleftrightarrow> request_ok (ca_request c) \<and> is_bit (ca_ca_in c) \<and> is_bit (ca_so_in c) \<and>
     needs_flags (rq_permissions (ca_request c))"

lemma flag_bit_Inr_iff [result_simps]: "flag_bit v n = Inr x \<longleftrightarrow> is_bit v \<and> x = v"
  by (auto simp: flag_bit_def is_bit_def)

lemma flag_bit_ok [simp]: "is_bit v \<Longrightarrow> flag_bit v n = Inr v"
  by (simp add: flag_bit_Inr_iff)

lemma flag_word_Inr_iff [result_simps]: "flag_word v n = Inr x \<longleftrightarrow> in_field 32 v \<and> x = v"
  by (auto simp: flag_word_def in_field_def)

lemma flag_word_ok [simp]: "in_field 32 v \<Longrightarrow> flag_word v n = Inr v"
  by (simp add: flag_word_Inr_iff)

lemma check_gprs_Inr_iff [result_simps]: "check_gprs vs = Inr u \<longleftrightarrow> list_all (in_field 32) vs"
  by (induction vs) (auto simp: result_simps)

lemma mk_ArchitecturalState_ok:
  "state_ok \<lparr>st_cr = c, st_xer = x, st_gprs = g\<rparr> \<Longrightarrow>
   mk_ArchitecturalState c x g = Inr \<lparr>st_cr = c, st_xer = x, st_gprs = g\<rparr>"
  by (auto simp: mk_ArchitecturalState_def state_ok_def result_simps)

lemma mk_CompletionPayload_Inr_iff [result_simps]:
  "mk_CompletionPayload v ca ov so cr0 = Inr p \<longleftrightarrow>
   p = \<lparr>pl_value = v, pl_ca = ca, pl_ov = ov, pl_so = so, pl_cr0 = cr0\<rparr> \<and> payload_ok p"
  by (auto simp: mk_CompletionPayload_def result_simps payload_ok_def in_field_def)

lemma mk_WritePermissions_Inr_iff [result_simps]:
  "mk_WritePermissions a b c d e = Inr p \<longleftrightarrow>
   p = \<lparr>read_ca = a, read_so = b, write_ca = c, write_ov_so = d, write_cr_field = e\<rparr> \<and> permissions_ok p"
  by (auto simp: mk_WritePermissions_def permissions_ok_def)

lemma mk_CapturedAllocation_Inr_iff [result_simps]:
  "mk_CapturedAllocation q c s = Inr a \<longleftrightarrow>
   a = \<lparr>ca_request = q, ca_ca_in = c, ca_so_in = s\<rparr> \<and> is_bit c \<and> is_bit s \<and> needs_flags (rq_permissions q)"
  by (auto simp: mk_CapturedAllocation_def result_simps)

lemma mk_CommitPacket_Inr_iff [result_simps]:
  "mk_CommitPacket p l w g = Inr c \<longleftrightarrow>
   c = \<lparr>cp_permissions = p, cp_payload = l, cp_gpr_write = w, cp_gpr = g\<rparr> \<and> in_field 5 g"
  by (auto simp: mk_CommitPacket_def in_field_def)

lemma mk_OwnerTag_Inr_iff [result_simps]:
  "mk_OwnerTag i g = Inr t \<longleftrightarrow> t = \<lparr>ot_index = i, ot_generation = g\<rparr> \<and> tag_ok t"
  by (auto simp: mk_OwnerTag_def tag_ok_def)

section \<open>The commit, bit by bit\<close>

text \<open>What one bit of CR and XER becomes under a packet.\<close>

definition commit_cr_bit :: "ArchitecturalState \<Rightarrow> CommitPacket \<Rightarrow> nat \<Rightarrow> bool" where
  "commit_cr_bit s c n =
     (if write_cr_field (cp_permissions c) \<and> 28 \<le> n \<and> n < 32 then bit (pl_cr0 (cp_payload c)) (n - 28)
      else bit (st_cr s) n)"

definition commit_xer_bit :: "ArchitecturalState \<Rightarrow> CommitPacket \<Rightarrow> nat \<Rightarrow> bool" where
  "commit_xer_bit s c n =
     (if write_ov_so (cp_permissions c) \<and> n = 31 then pl_so (cp_payload c) = 1
      else if write_ov_so (cp_permissions c) \<and> n = 30 then pl_ov (cp_payload c) = 1
      else if write_ca (cp_permissions c) \<and> n = 29 then pl_ca (cp_payload c) = 1
      else bit (st_xer s) n)"

lemma bit_CR0_MASK: "bit CR0_MASK n \<longleftrightarrow> 28 \<le> n \<and> n < 32"
proof -
  have "CR0_MASK = push_bit 28 (mask 4)" by (simp add: CR0_MASK_def mask_eq_exp_minus_1)
  then have "bit CR0_MASK n \<longleftrightarrow> bit (push_bit 28 (mask 4) :: int) n" by (rule arg_cong)
  then show ?thesis by (simp only: bit_push_bit_iff bit_mask_iff) auto
qed

lemma bit_XER_MASKs:
  "bit XER_SO_MASK n \<longleftrightarrow> n = 31" "bit XER_OV_MASK n \<longleftrightarrow> n = 30" "bit XER_CA_MASK n \<longleftrightarrow> n = 29"
proof -
  have "XER_SO_MASK = 2 ^ 31" "XER_OV_MASK = 2 ^ 30" "XER_CA_MASK = 2 ^ 29"
    by (simp_all add: XER_SO_MASK_def XER_OV_MASK_def XER_CA_MASK_def)
  note this [THEN arg_cong, of "\<lambda>m. bit m n"]
  then show "bit XER_SO_MASK n \<longleftrightarrow> n = 31" "bit XER_OV_MASK n \<longleftrightarrow> n = 30" "bit XER_CA_MASK n \<longleftrightarrow> n = 29"
    by (simp_all only: bit_exp_iff) auto
qed

lemma is_bit_bit: "is_bit v \<Longrightarrow> bit v n \<longleftrightarrow> n = 0 \<and> v = 1"
  by (auto simp: is_bit_def bit_1_iff)

lemma commit_cr_bits:
  "bit ((st_cr s AND NOT (cr_mask (cp_permissions c))) OR
        (push_bit 28 (pl_cr0 (cp_payload c)) AND cr_mask (cp_permissions c))) n = commit_cr_bit s c n"
  by (auto simp: commit_cr_bit_def cr_mask_def bit_or_iff bit_and_iff bit_not_iff bit_CR0_MASK bit_push_bit_iff)

lemma commit_xer_bits:
  assumes "payload_ok (cp_payload c)"
  shows "bit ((st_xer s AND NOT (xer_mask (cp_permissions c))) OR
     ((push_bit 31 (pl_so (cp_payload c)) OR push_bit 30 (pl_ov (cp_payload c)) OR
       push_bit 29 (pl_ca (cp_payload c))) AND xer_mask (cp_permissions c))) n = commit_xer_bit s c n"
proof -
  have m: "bit (xer_mask p) n \<longleftrightarrow> write_ov_so p \<and> (n = 31 \<or> n = 30) \<or> write_ca p \<and> n = 29" for p
    by (auto simp: xer_mask_def bit_or_iff bit_XER_MASKs)
  have "is_bit (pl_so (cp_payload c))" "is_bit (pl_ov (cp_payload c))" "is_bit (pl_ca (cp_payload c))"
    using assms by (simp_all add: payload_ok_def)
  note b = this [THEN is_bit_bit]
  show ?thesis
    unfolding commit_xer_bit_def
    by (simp add: bit_or_iff bit_and_iff bit_not_iff m bit_push_bit_iff b) fastforce
qed

lemma in_field_bitI: "0 \<le> (v::int) \<Longrightarrow> (\<And>n. m \<le> n \<Longrightarrow> \<not> bit v n) \<Longrightarrow> in_field m v"
  by (rule in_fieldI_take_bit, rule bit_eqI) (auto simp: bit_take_bit_iff not_less [symmetric])

text \<open>The committed GPR file.\<close>

definition commit_gprs :: "ArchitecturalState \<Rightarrow> CommitPacket \<Rightarrow> int list" where
  "commit_gprs s c = (if cp_gpr_write c then (st_gprs s)[nat (cp_gpr c) := pl_value (cp_payload c)] else st_gprs s)"

lemma masks_nonneg [simp]: "0 \<le> cr_mask p" "0 \<le> xer_mask p"
  by (simp_all add: cr_mask_def xer_mask_def CR0_MASK_def XER_SO_MASK_def XER_OV_MASK_def XER_CA_MASK_def)

lemma apply_commit_bits:
  assumes s: "state_ok s" and c: "packet_ok c"
  shows "\<exists>s'. apply_commit s c = Inr s' \<and> state_ok s' \<and> st_gprs s' = commit_gprs s c \<and>
    (\<forall>n. bit (st_cr s') n = commit_cr_bit s c n) \<and> (\<forall>n. bit (st_xer s') n = commit_xer_bit s c n)"
proof -
  let ?p = "cp_permissions c" and ?l = "cp_payload c"
  have l: "payload_ok ?l" using c by (simp add: packet_ok_def)
  have hi: "\<not> bit (st_cr s) n" "\<not> bit (st_xer s) n" if "32 \<le> n" for n
    using s that in_field_not_bit by (auto simp: state_ok_def)
  define cr where "cr = (st_cr s AND NOT (cr_mask ?p)) OR (push_bit 28 (pl_cr0 ?l) AND cr_mask ?p)"
  define xer where "xer = (st_xer s AND NOT (xer_mask ?p)) OR
    ((push_bit 31 (pl_so ?l) OR push_bit 30 (pl_ov ?l) OR push_bit 29 (pl_ca ?l)) AND xer_mask ?p)"
  have cb: "bit cr n = commit_cr_bit s c n" for n unfolding cr_def by (rule commit_cr_bits)
  have xb: "bit xer n = commit_xer_bit s c n" for n unfolding xer_def by (rule commit_xer_bits [OF l])
  have "0 \<le> cr" "0 \<le> xer" using s by (auto simp: cr_def xer_def state_ok_def in_field_def)
  then have "in_field 32 cr" "in_field 32 xer"
    using hi by (auto intro!: in_field_bitI simp: cb xb commit_cr_bit_def commit_xer_bit_def)
  moreover have "list_all (in_field 32) (commit_gprs s c)" "length (commit_gprs s c) = 32"
    using s l by (auto simp: commit_gprs_def state_ok_def payload_ok_def list_all_iff dest!: set_update_subset_insert [THEN subsetD])
  ultimately have ok: "state_ok \<lparr>st_cr = cr, st_xer = xer, st_gprs = commit_gprs s c\<rparr>"
    by (simp add: state_ok_def)
  have "apply_commit s c = Inr \<lparr>st_cr = cr, st_xer = xer, st_gprs = commit_gprs s c\<rparr>"
    using mk_ArchitecturalState_ok [OF ok] by (simp add: apply_commit_def Let_def cr_def xer_def commit_gprs_def)
  then show ?thesis using ok cb xb by simp
qed

section \<open>The owner invariant\<close>

definition state_ca :: "ArchitecturalState \<Rightarrow> int" where
  "state_ca s = (if st_xer s AND XER_CA_MASK \<noteq> 0 then 1 else 0)"

definition state_so :: "ArchitecturalState \<Rightarrow> int" where
  "state_so s = (if st_xer s AND XER_SO_MASK \<noteq> 0 then 1 else 0)"

lemma state_ca_bit: "state_ca s = of_bool (bit (st_xer s) 29)"
  by (simp add: state_ca_def XER_CA_MASK_def bit_iff_and_push_bit_not_eq_0)

lemma state_so_bit: "state_so s = of_bool (bit (st_xer s) 31)"
  by (simp add: state_so_def XER_SO_MASK_def bit_iff_and_push_bit_not_eq_0)

text \<open>
  The owner's captured flags are those of the architectural state: nothing but
  the owner's own retirement writes XER, and that ends the ownership.
\<close>

definition owner_ok :: "ArchitecturalState \<Rightarrow> CapturedAllocation \<Rightarrow> bool" where
  "owner_ok s c \<longleftrightarrow> captured_ok c \<and> ca_ca_in c = state_ca s \<and> ca_so_in c = state_so s"

definition finish_ok :: "CapturedAllocation \<Rightarrow> CompletionPayload \<Rightarrow> bool" where
  "finish_ok c p \<longleftrightarrow> payload_ok p \<and> validate_completion c p = Inr ()"

definition model_ok :: "FlagOwnerModel \<Rightarrow> bool" where
  "model_ok m \<longleftrightarrow> state_ok (fo_state m) \<and>
     (case fo_owner m of
        None \<Rightarrow> fo_finished m = None
      | Some c \<Rightarrow> owner_ok (fo_state m) c \<and> (case fo_finished m of None \<Rightarrow> True | Some p \<Rightarrow> finish_ok c p))"

definition edge_ok :: "Edge \<Rightarrow> bool" where
  "edge_ok e \<longleftrightarrow> (case ed_finish e of None \<Rightarrow> True | Some (t, p) \<Rightarrow> payload_ok p) \<and>
     (case ed_allocate e of None \<Rightarrow> True | Some q \<Rightarrow> request_ok q)"

definition owner_packet :: "CapturedAllocation \<Rightarrow> CompletionPayload \<Rightarrow> CommitPacket" where
  "owner_packet c p = \<lparr>cp_permissions = rq_permissions (ca_request c), cp_payload = p,
     cp_gpr_write = rq_gpr_write (ca_request c), cp_gpr = rq_gpr (ca_request c)\<rparr>"

lemma owner_packet_ok: "captured_ok c \<Longrightarrow> payload_ok p \<Longrightarrow> packet_ok (owner_packet c p)"
  by (simp add: owner_packet_def packet_ok_def captured_ok_def request_ok_def)

lemma edge_retiredE:
  assumes "edge_retired m e"
  obtains c p where "ed_retire e = Some (owner_tag c)" "fo_owner m = Some c" "fo_finished m = Some p"
  using assms by (auto simp: edge_retired_def split: option.splits)

lemma retire_step_idle: "\<not> edge_retired m e \<Longrightarrow> retire_step m e = Inr m"
  by (simp add: retire_step_def)

lemma retire_step_retired:
  assumes "model_ok m" "edge_retired m e" "fo_owner m = Some c" "fo_finished m = Some p"
  shows "\<exists>s. apply_commit (fo_state m) (owner_packet c p) = Inr s \<and> state_ok s \<and>
    retire_step m e = Inr \<lparr>fo_state = s, fo_owner = None, fo_finished = None\<rparr>"
proof -
  have ok: "captured_ok c" "finish_ok c p" "state_ok (fo_state m)"
    using assms by (auto simp: model_ok_def owner_ok_def)
  then obtain s where s: "apply_commit (fo_state m) (owner_packet c p) = Inr s" "state_ok s"
    using apply_commit_bits owner_packet_ok by (metis finish_ok_def)
  have "mk_CommitPacket (rq_permissions (ca_request c)) p (rq_gpr_write (ca_request c))
      (rq_gpr (ca_request c)) = Inr (owner_packet c p)"
    using ok by (simp add: owner_packet_def mk_CommitPacket_Inr_iff captured_ok_def request_ok_def)
  then show ?thesis using assms ok s by (simp add: retire_step_def finish_ok_def)
qed

lemma retire_step_cases:
  assumes "model_ok m"
  shows "\<exists>m1. retire_step m e = Inr m1 \<and> model_ok m1 \<and> (if edge_retired m e then fo_owner m1 = None else m1 = m)"
proof (cases "edge_retired m e")
  case True
  then obtain c p where "fo_owner m = Some c" "fo_finished m = Some p" by (rule edge_retiredE)
  then obtain s where "state_ok s" "retire_step m e = Inr \<lparr>fo_state = s, fo_owner = None, fo_finished = None\<rparr>"
    using retire_step_retired [OF assms True] by blast
  then show ?thesis using True by (simp add: model_ok_def)
qed (simp add: retire_step_idle assms)

lemma kill_step_ok: "model_ok m \<Longrightarrow> model_ok (fst (kill_step m e))"
  by (auto simp: kill_step_def model_ok_def split: option.splits)

lemma kill_step_state [simp]: "fo_state (fst (kill_step m e)) = fo_state m"
  by (auto simp: kill_step_def split: option.splits)

lemma kill_step_idle: "fo_owner (fst (kill_step m e)) \<noteq> None \<Longrightarrow> kill_step m e = (m, False)"
  by (auto simp: kill_step_def split: option.splits if_splits)

lemma finish_step_ok:
  assumes "model_ok m" "edge_ok e" "finish_step m e = Inr (m', f)"
  shows "model_ok m'" and "fo_state m' = fo_state m" and "fo_owner m' = fo_owner m"
  using assms
  by (auto simp: finish_step_def model_ok_def edge_ok_def finish_ok_def result_simps
      split: option.splits prod.splits if_splits)

lemma finish_step_Inl:
  "finish_step m e = Inl err \<Longrightarrow> fo_owner m \<noteq> None"
  by (auto simp: finish_step_def split: option.splits prod.splits if_splits)

lemma allocate_step_ok:
  assumes "model_ok m" "edge_ok e" "\<not> b \<longrightarrow> fo_owner m = None"
  shows "\<exists>m' a c. allocate_step b m e = Inr (m', a, c) \<and> model_ok m' \<and> fo_state m' = fo_state m"
proof -
  have "\<exists>m' a c. allocate_step b m e = Inr (m', a, c) \<and> model_ok m' \<and> fo_state m' = fo_state m"
    if a: "ed_allocate e = Some q" "ed_survivors e = None" "needs_flags (rq_permissions q)" "\<not> b" for q
  proof -
    let ?c = "\<lparr>ca_request = q, ca_ca_in = state_ca (fo_state m), ca_so_in = state_so (fo_state m)\<rparr>"
    have "mk_CapturedAllocation q (state_ca (fo_state m)) (state_so (fo_state m)) = Inr ?c"
      using that by (simp add: mk_CapturedAllocation_Inr_iff state_ca_def state_so_def)
    then have "allocate_step b m e = Inr (m\<lparr>fo_owner := Some ?c, fo_finished := None\<rparr>, True, Some ?c)"
      using a by (simp add: allocate_step_def state_ca_def state_so_def)
    moreover have "captured_ok ?c"
      using assms(2) a by (simp add: captured_ok_def edge_ok_def state_ca_def state_so_def)
    ultimately show ?thesis using assms(1) by (auto simp: model_ok_def owner_ok_def split: option.splits)
  qed
  then show ?thesis using assms(1) by (auto simp: allocate_step_def split: option.splits if_splits)
qed

text \<open>Every edge, taken apart: an error changes nothing, and a success passes the four stages.\<close>

lemma advance_cases:
  assumes "model_ok m" "edge_ok e"
  obtains err where "advance m e = (Inl err, m)"
  | m1 k m2 f m3 a c m4 where "retire_step m e = Inr m1" "kill_step m1 e = (m2, k)"
      "finish_step m2 e = Inr (m3, f)" "allocate_step (busy m) m3 e = Inr (m4, a, c)"
      "advance m e = (Inr \<lparr>eo_retired = edge_retired m e, eo_finished = f, eo_wake = edge_wake m4 f,
         eo_killed = k, eo_acquired = a, eo_captured = c\<rparr>, m4)"
      "model_ok m4" "fo_state m4 = fo_state m1" "check_recovery m e = Inr ()"
proof (cases "check_recovery m e")
  case (Inl err)
  then show ?thesis by (intro that(1)) (simp add: advance_def)
next
  case (Inr u)
  obtain m1 where r: "retire_step m e = Inr m1" and m1: "model_ok m1"
    and idle: "if edge_retired m e then fo_owner m1 = None else m1 = m"
    using retire_step_cases [OF assms(1)] by blast
  obtain m2 k where k: "kill_step m1 e = (m2, k)" by fastforce
  then have m2: "model_ok m2" "fo_state m2 = fo_state m1"
    using kill_step_ok [OF m1, of e] kill_step_state [of m1 e] by simp_all
  show ?thesis
  proof (cases "finish_step m2 e")
    case (Inl err)
    then have "fo_owner m2 \<noteq> None" by (rule finish_step_Inl)
    then have "m2 = m1" and "m1 = m"
      using k kill_step_idle [of m1 e] idle by (auto split: if_splits simp: kill_step_def)
    then have "advance m e = (Inl err, m)"
      using Inl r k \<open>check_recovery m e = Inr u\<close> by (simp add: advance_def)
    then show ?thesis by (rule that(1))
  next
    case (Inr x)
    then obtain m3 f where f: "finish_step m2 e = Inr (m3, f)" by (cases x) simp
    note m3 = finish_step_ok [OF m2(1) assms(2) f]
    have "\<not> busy m \<longrightarrow> fo_owner m3 = None"
    proof
      assume "\<not> busy m"
      then have "fo_owner m1 = None" using idle by (auto simp: busy_def split: if_splits)
      then have "fo_owner m2 = None" using k by (auto simp: kill_step_def split: option.splits)
      then show "fo_owner m3 = None" using m3(3) by simp
    qed
    from allocate_step_ok [OF m3(1) assms(2) this] obtain m4 a c
      where a: "allocate_step (busy m) m3 e = Inr (m4, a, c)" "model_ok m4" "fo_state m4 = fo_state m3"
      by blast
    show ?thesis
      by (rule that(2) [OF r k f a(1)])
         (use \<open>check_recovery m e = Inr u\<close> r k f a m3 m2 in \<open>simp_all add: advance_def\<close>)
  qed
qed

definition advance_model :: "FlagOwnerModel \<Rightarrow> Edge \<Rightarrow> FlagOwnerModel" where
  "advance_model m e = snd (advance m e)"

interpretation flag_owner: stepper advance_model edge_ok model_ok
proof
  fix m e assume "model_ok m" "edge_ok e"
  then show "model_ok (advance_model m e)"
    by (rule advance_cases) (simp_all add: advance_model_def \<open>model_ok m\<close>)
qed

section \<open>Sticky SO\<close>

lemma validate_ov_so:
  "validate_completion c p = Inr () \<Longrightarrow> write_ov_so (rq_permissions (ca_request c)) \<Longrightarrow>
   pl_so p = ca_so_in c OR pl_ov p"
  by (auto simp: validate_completion_def Let_def result_simps split: if_splits)

lemma advance_so_sticky:
  assumes "model_ok m" "edge_ok e" "state_so (fo_state m) = 1"
  shows "state_so (fo_state (advance_model m e)) = 1"
proof (rule advance_cases [OF assms(1,2)])
  fix err assume "advance m e = (Inl err, m)"
  then show ?thesis using assms(3) by (simp add: advance_model_def)
next
  fix m1 k m2 f m3 a c m4
  assume r: "retire_step m e = Inr m1" and s: "fo_state m4 = fo_state m1"
    and adv: "advance m e = (Inr \<lparr>eo_retired = edge_retired m e, eo_finished = f, eo_wake = edge_wake m4 f,
         eo_killed = k, eo_acquired = a, eo_captured = c\<rparr>, m4)"
  have "state_so (fo_state m1) = 1"
  proof (cases "edge_retired m e")
    case True
    then obtain o' p where o: "fo_owner m = Some o'" "fo_finished m = Some p" by (rule edge_retiredE)
    then have own: "owner_ok (fo_state m) o'" "finish_ok o' p" "state_ok (fo_state m)"
      using assms(1) by (auto simp: model_ok_def)
    then have pk: "packet_ok (owner_packet o' p)"
      by (simp add: owner_packet_ok owner_ok_def finish_ok_def)
    from apply_commit_bits [OF own(3) pk] retire_step_retired [OF assms(1) True o] r
    have "bit (st_xer (fo_state m1)) 31 = commit_xer_bit (fo_state m) (owner_packet o' p) 31"
      by auto
    moreover have "pl_so p = 1" if "write_ov_so (rq_permissions (ca_request o'))"
      using own assms(3) validate_ov_so [of o' p] that
      by (auto simp: finish_ok_def owner_ok_def payload_ok_def is_bit_def)
    ultimately show ?thesis using assms(3)
      by (auto simp: state_so_bit commit_xer_bit_def owner_packet_def)
  qed (use r assms(3) in \<open>simp add: retire_step_idle\<close>)
  then show ?thesis using s adv by (simp add: advance_model_def)
qed

section \<open>Prepared operations are valid completions\<close>

text \<open>
  The client side of the family contract: a payload made from a family's result
  passes the completion check of any allocation that carries the permissions
  derived from Rc and OE and the same incoming SO.
\<close>

definition result_payload :: "family_result \<Rightarrow> CompletionPayload" where
  "result_payload r = \<lparr>pl_value = r_value r, pl_ca = r_ca r, pl_ov = r_ov r, pl_so = r_so r, pl_cr0 = r_cr0 r\<rparr>"

context flag_producer
begin

lemma payload_valid:
  assumes e: "eval x = Inr r"
    and p: "write_ov_so (rq_permissions (ca_request c)) = (oe x = 1)"
           "write_cr_field (rq_permissions (ca_request c)) = (rc x = 1)"
    and s: "ca_so_in c = so x"
  shows "finish_ok c (result_payload r)"
proof -
  have ok: "payload_ok (result_payload r)"
    using result_ok [OF e] by (simp add: payload_ok_def family_result_ok_def result_payload_def)
  have so: "oe x = 1 \<Longrightarrow> r_so r = so x OR r_ov r" "oe x \<noteq> 1 \<Longrightarrow> r_so r = so x"
    using sticky [OF e] by simp_all
  show ?thesis
  proof (cases "rc x = 1")
    case True
    from cr0_split [OF e True] show ?thesis
      using ok so p s by (simp add: finish_ok_def validate_completion_def Let_def result_payload_def)
  next
    case False
    then show ?thesis
      using ok so p s by (simp add: finish_ok_def validate_completion_def Let_def result_payload_def)
  qed
qed

end

lemma prepare_payload_Inr:
  "prepare_payload perms r = Inr po \<longleftrightarrow>
   (\<exists>p. perms = Inr p \<and> payload_ok (result_payload r) \<and> po = \<lparr>po_permissions = p, po_payload = result_payload r\<rparr>)"
  by (auto simp: prepare_payload_def result_simps result_payload_def)

lemma prepare_add_Inr:
  assumes "prepare_add f a b ca oe rc ov so cr0 = Inr po"
  shows "\<exists>r. add_evaluate f a b ca oe rc ov so cr0 = Inr r \<and> po_payload po = result_payload r \<and>
    po_permissions po = \<lparr>read_ca = f \<in> {''adde'', ''addme'', ''addze''}, read_so = (oe = 1 \<or> rc = 1),
      write_ca = (f \<noteq> ''add''), write_ov_so = (oe = 1), write_cr_field = (rc = 1)\<rparr>"
proof -
  have b: "is_bit oe" "is_bit rc"
    using assms by (auto simp: prepare_add_def result_simps split: if_splits)
  then have "oe \<noteq> 0 \<longleftrightarrow> oe = 1" "rc \<noteq> 0 \<longleftrightarrow> rc = 1" by (auto simp: is_bit_def)
  then show ?thesis
    using assms by (auto simp: prepare_add_def result_simps prepare_payload_Inr split: if_splits)
qed

lemma prepare_shift_Inr:
  assumes "prepare_shift f a n rc ca ov so cr0 = Inr po"
  shows "\<exists>r. shift_evaluate f a n rc ca ov so cr0 = Inr r \<and> po_payload po = result_payload r \<and>
    po_permissions po = \<lparr>read_ca = False, read_so = (rc = 1),
      write_ca = (f \<in> {''sraw'', ''srawi''}), write_ov_so = False, write_cr_field = (rc = 1)\<rparr>"
proof -
  have b: "is_bit rc"
    using assms by (auto simp: prepare_shift_def result_simps split: if_splits)
  then have "rc \<noteq> 0 \<longleftrightarrow> rc = 1" by (auto simp: is_bit_def)
  then show ?thesis
    using assms by (auto simp: prepare_shift_def result_simps prepare_payload_Inr Let_def split: if_splits)
qed

lemma prepare_logical_Inr:
  assumes "prepare_logical f a n rc ca ov so cr0 = Inr po"
  shows "\<exists>r. logical_evaluate f a n rc ca ov so cr0 = Inr r \<and> po_payload po = result_payload r \<and>
    po_permissions po = \<lparr>read_ca = False, read_so = (rc = 1),
      write_ca = False, write_ov_so = False, write_cr_field = (rc = 1)\<rparr>"
proof -
  have b: "is_bit rc"
    using assms by (auto simp: prepare_logical_def result_simps split: if_splits)
  then have "rc \<noteq> 0 \<longleftrightarrow> rc = 1" by (auto simp: is_bit_def)
  then show ?thesis
    using assms by (auto simp: prepare_logical_def result_simps prepare_payload_Inr split: if_splits)
qed

text \<open>Which preparation an operation comes from, as one datatype.\<close>

datatype prepared_by =
    PreparedAdd string int int int int int int int int
  | PreparedShift string int int int int int int int
  | PreparedLogical string int int int int int int int

fun prepare :: "prepared_by \<Rightarrow> PreparedOperation result" where
  "prepare (PreparedAdd f a b ca oe rc ov so cr0) = prepare_add f a b ca oe rc ov so cr0"
| "prepare (PreparedShift f a n rc ca ov so cr0) = prepare_shift f a n rc ca ov so cr0"
| "prepare (PreparedLogical f a b rc ca ov so cr0) = prepare_logical f a b rc ca ov so cr0"

fun prepared_so :: "prepared_by \<Rightarrow> int" where
  "prepared_so (PreparedAdd f a b ca oe rc ov so cr0) = so"
| "prepared_so (PreparedShift f a n rc ca ov so cr0) = so"
| "prepared_so (PreparedLogical f a b rc ca ov so cr0) = so"

text \<open>The family evaluation behind an operation, and the registers its form may write.\<close>

fun evaluate_op :: "prepared_by \<Rightarrow> family_result result" where
  "evaluate_op (PreparedAdd f a b ca oe rc ov so cr0) = add_evaluate f a b ca oe rc ov so cr0"
| "evaluate_op (PreparedShift f a n rc ca ov so cr0) = shift_evaluate f a n rc ca ov so cr0"
| "evaluate_op (PreparedLogical f a b rc ca ov so cr0) = logical_evaluate f a b rc ca ov so cr0"

fun op_writes_ca :: "prepared_by \<Rightarrow> bool" where
  "op_writes_ca (PreparedAdd f a b ca oe rc ov so cr0) = (f \<noteq> ''add'')"
| "op_writes_ca (PreparedShift f a n rc ca ov so cr0) = (f \<in> {''sraw'', ''srawi''})"
| "op_writes_ca (PreparedLogical f a b rc ca ov so cr0) = False"

fun op_writes_ov :: "prepared_by \<Rightarrow> bool" where
  "op_writes_ov (PreparedAdd f a b ca oe rc ov so cr0) = (oe = 1)"
| "op_writes_ov (PreparedShift f a n rc ca ov so cr0) = False"
| "op_writes_ov (PreparedLogical f a b rc ca ov so cr0) = False"

fun op_records :: "prepared_by \<Rightarrow> bool" where
  "op_records (PreparedAdd f a b ca oe rc ov so cr0) = (rc = 1)"
| "op_records (PreparedShift f a n rc ca ov so cr0) = (rc = 1)"
| "op_records (PreparedLogical f a b rc ca ov so cr0) = (rc = 1)"

lemma prepare_result:
  assumes "prepare op = Inr po"
  obtains r where "evaluate_op op = Inr r" "po_payload po = result_payload r"
    "write_ca (po_permissions po) = op_writes_ca op" "write_ov_so (po_permissions po) = op_writes_ov op"
    "write_cr_field (po_permissions po) = op_records op"
  using assms by (cases op) (auto dest!: prepare_add_Inr prepare_shift_Inr prepare_logical_Inr)

lemma prepare_finish_ok:
  assumes "prepare op = Inr po" "rq_permissions (ca_request c) = po_permissions po"
    and "ca_so_in c = prepared_so op"
  shows "finish_ok c (po_payload po)"
proof (cases op)
  case (PreparedAdd f a b ca oe rc ov so cr0)
  let ?x = "\<lparr>fa_family = f, fa_a = a, fa_b = b, fa_ca = ca, fa_oe = oe, fa_rc = rc, fa_ov = ov, fa_so = so, fa_cr0 = cr0\<rparr>"
  show ?thesis
    using prepare_add_Inr [of f a b ca oe rc ov so cr0 po] add_flags.payload_valid [of ?x _ c] assms PreparedAdd
    by (auto simp: add_run_def)
next
  case (PreparedShift f a b rc ca ov so cr0)
  let ?x = "\<lparr>fa_family = f, fa_a = a, fa_b = b, fa_ca = ca, fa_oe = 0, fa_rc = rc, fa_ov = ov, fa_so = so, fa_cr0 = cr0\<rparr>"
  show ?thesis
    using prepare_shift_Inr [of f a b rc ca ov so cr0 po] shift_flags.payload_valid [of ?x _ c] assms PreparedShift
    by (auto simp: shift_run_def)
next
  case (PreparedLogical f a b rc ca ov so cr0)
  let ?x = "\<lparr>fa_family = f, fa_a = a, fa_b = b, fa_ca = ca, fa_oe = 0, fa_rc = rc, fa_ov = ov, fa_so = so, fa_cr0 = cr0\<rparr>"
  show ?thesis
    using prepare_logical_Inr [of f a b rc ca ov so cr0 po] logical_flags.payload_valid [of ?x _ c] assms PreparedLogical
    by (auto simp: logical_run_def)
qed

section \<open>One operation from allocation to retirement\<close>

definition no_edge :: Edge where
  "no_edge = \<lparr>ed_retire = None, ed_finish = None, ed_allocate = None, ed_survivors = None\<rparr>"

definition captured_for :: "AllocationRequest \<Rightarrow> ArchitecturalState \<Rightarrow> CapturedAllocation" where
  "captured_for q s = \<lparr>ca_request = q, ca_ca_in = state_ca s, ca_so_in = state_so s\<rparr>"

lemma advance_allocate:
  assumes "fo_owner m = None" "needs_flags (rq_permissions q)"
  shows "advance m (no_edge\<lparr>ed_allocate := Some q\<rparr>) =
    (Inr \<lparr>eo_retired = False, eo_finished = False, eo_wake = False, eo_killed = False, eo_acquired = True,
          eo_captured = Some (captured_for q (fo_state m))\<rparr>,
     m\<lparr>fo_owner := Some (captured_for q (fo_state m)), fo_finished := None\<rparr>)"
  using assms
  by (simp add: advance_def no_edge_def check_recovery_def retire_step_def edge_retired_def kill_step_def
      finish_step_def allocate_step_def busy_def edge_wake_def captured_for_def state_ca_def state_so_def
      mk_CapturedAllocation_def)

lemma advance_finish:
  assumes "fo_owner m = Some c" "fo_finished m = None" "validate_completion c p = Inr ()"
  shows "advance m (no_edge\<lparr>ed_finish := Some (owner_tag c, p)\<rparr>) =
    (Inr \<lparr>eo_retired = False, eo_finished = True, eo_wake = rq_gpr_write (ca_request c), eo_killed = False,
          eo_acquired = False, eo_captured = None\<rparr>, m\<lparr>fo_finished := Some p\<rparr>)"
  using assms
  by (simp add: advance_def no_edge_def check_recovery_def retire_step_def edge_retired_def kill_step_def
      finish_step_def allocate_step_def edge_wake_def)

lemma advance_retire:
  assumes "model_ok m" "fo_owner m = Some c" "fo_finished m = Some p"
  shows "\<exists>s. apply_commit (fo_state m) (owner_packet c p) = Inr s \<and>
    advance m (no_edge\<lparr>ed_retire := Some (owner_tag c)\<rparr>) =
    (Inr \<lparr>eo_retired = True, eo_finished = False, eo_wake = False, eo_killed = False,
          eo_acquired = False, eo_captured = None\<rparr>,
     \<lparr>fo_state = s, fo_owner = None, fo_finished = None\<rparr>)"
proof -
  let ?e = "no_edge\<lparr>ed_retire := Some (owner_tag c)\<rparr>"
  have r: "edge_retired m ?e" using assms by (simp add: edge_retired_def)
  from retire_step_retired [OF assms(1) r assms(2,3)] obtain s
    where "apply_commit (fo_state m) (owner_packet c p) = Inr s"
      "retire_step m ?e = Inr \<lparr>fo_state = s, fo_owner = None, fo_finished = None\<rparr>" by blast
  then show ?thesis
    using r by (simp add: advance_def no_edge_def check_recovery_def kill_step_def finish_step_def
        allocate_step_def edge_wake_def)
qed

section \<open>Properties\<close>

text \<open>
  C2: the commit is atomic and masked.  A valid packet on a valid state never
  raises; CR bits 31 to 28 take the payload's CR0 exactly when the CR-field
  permission is set, XER SO and OV, and CA, exactly under theirs, every other bit
  of CR and XER is unchanged, and the one named GPR is written exactly when the
  packet asks for it.
\<close>

theorem apply_commit_exact:
  assumes "state_ok s" and "packet_ok c"
  shows "\<exists>s'. apply_commit s c = Inr s' \<and> state_ok s' \<and>
    bit (st_cr s') n = commit_cr_bit s c n \<and> bit (st_xer s') n = commit_xer_bit s c n \<and>
    (i < 32 \<longrightarrow> st_gprs s' ! i =
       (if cp_gpr_write c \<and> int i = cp_gpr c then pl_value (cp_payload c) else st_gprs s ! i)) \<and>
    check_commit_transition s c s' = Inr ()"
proof -
  from apply_commit_bits [OF assms] obtain s' where s': "apply_commit s c = Inr s'" "state_ok s'"
    "st_gprs s' = commit_gprs s c" "bit (st_cr s') n = commit_cr_bit s c n"
    "bit (st_xer s') n = commit_xer_bit s c n" by blast
  have "length (st_gprs s) = 32" "0 \<le> cp_gpr c"
    using assms by (auto simp: state_ok_def packet_ok_def in_field_def)
  then have "i < 32 \<longrightarrow> st_gprs s' ! i =
      (if cp_gpr_write c \<and> int i = cp_gpr c then pl_value (cp_payload c) else st_gprs s ! i)"
    using s'(3) by (auto simp: commit_gprs_def nth_list_update)
  then show ?thesis using s' by (simp add: check_commit_transition_def)
qed

definition example_state :: ArchitecturalState where
  "example_state = \<lparr>st_cr = 0x12345678, st_xer = 0xE0000010, st_gprs = replicate 32 7\<rparr>"

definition example_packet :: CommitPacket where
  "example_packet = \<lparr>
     cp_permissions = \<lparr>read_ca = False, read_so = True, write_ca = True, write_ov_so = False, write_cr_field = True\<rparr>,
     cp_payload = \<lparr>pl_value = 0, pl_ca = 0, pl_ov = 0, pl_so = 1, pl_cr0 = 3\<rparr>, cp_gpr_write = True, cp_gpr = 31\<rparr>"

lemma example_ok: "state_ok example_state" "packet_ok example_packet"
  by (simp_all add: example_state_def example_packet_def state_ok_def packet_ok_def permissions_ok_def
      payload_ok_def in_field_def list_all_iff)

theorem apply_commit_exact_witness:
  "\<exists>s'. apply_commit example_state example_packet = Inr s' \<and> st_gprs s' ! 31 = 0 \<and>
     bit (st_xer s') 29 = False \<and> state_ok s'"
  using apply_commit_exact [OF example_ok, of 29 31]
  by (auto simp: commit_xer_bit_def example_packet_def)

text \<open>
  C7: an edge that raises leaves the model as it was, although \<open>advance\<close>
  mutates it in stages: no commit, kill, finish or allocation is half done.
\<close>

theorem advance_error_atomic:
  assumes "model_ok m" and "edge_ok e" and "fst (advance m e) = Inl err"
  shows "snd (advance m e) = m"
  by (rule advance_cases [OF assms(1,2)]) (use assms(3) in simp_all)

lemma init_ok: "model_ok (FlagOwnerModel_init None)"
  by (simp add: model_ok_def FlagOwnerModel_init_def state_ok_def list_all_iff)

theorem advance_error_atomic_witness:
  "let e = no_edge\<lparr>ed_survivors := Some [\<lparr>ot_index = 1, ot_generation = 9\<rparr>]\<rparr> in
     \<not> is_ok (fst (advance (FlagOwnerModel_init None) e)) \<and>
     snd (advance (FlagOwnerModel_init None) e) = FlagOwnerModel_init None"
proof -
  let ?e = "no_edge\<lparr>ed_survivors := Some [\<lparr>ot_index = 1, ot_generation = 9\<rparr>]\<rparr>"
  have e: "edge_ok ?e" by (simp add: edge_ok_def no_edge_def)
  have f: "fst (advance (FlagOwnerModel_init None) ?e) =
      Inl (FlagStateError ''recovery names a flag owner when none is allocated'')"
    by (simp add: advance_def check_recovery_def no_edge_def FlagOwnerModel_init_def)
  show ?thesis using f advance_error_atomic [OF init_ok e f] by (simp add: Let_def)
qed

text \<open>
  architectural state changes only by retirement.  On an edge that succeeds,
  the state is the old one unless the retire tag names the exact owner and that
  owner's finish is registered from an earlier edge; then it is the atomic commit of
  that finish under the permissions captured at allocation, and the token is free
  after the edge (an allocation on the same edge does not get it).
\<close>

theorem advance_commits_retired_owner:
  assumes "model_ok m" and "edge_ok e" and "advance m e = (Inr out, m')"
  shows "if eo_retired out
    then \<exists>c p. fo_owner m = Some c \<and> fo_finished m = Some p \<and> ed_retire e = Some (owner_tag c) \<and>
           apply_commit (fo_state m) (owner_packet c p) = Inr (fo_state m') \<and> \<not> busy m'
    else fo_state m' = fo_state m"
proof (rule advance_cases [OF assms(1,2)])
  fix m1 k m2 f m3 a c m4
  assume r: "retire_step m e = Inr m1" and k: "kill_step m1 e = (m2, k)"
    and f: "finish_step m2 e = Inr (m3, f)" and a: "allocate_step (busy m) m3 e = Inr (m4, a, c)"
    and adv: "advance m e = (Inr \<lparr>eo_retired = edge_retired m e, eo_finished = f, eo_wake = edge_wake m4 f,
         eo_killed = k, eo_acquired = a, eo_captured = c\<rparr>, m4)" and s: "fo_state m4 = fo_state m1"
  from adv assms(3) have out: "eo_retired out = edge_retired m e" "m' = m4" by auto
  show ?thesis
  proof (cases "edge_retired m e")
    case True
    then obtain c' p where o: "ed_retire e = Some (owner_tag c')" "fo_owner m = Some c'" "fo_finished m = Some p"
      by (rule edge_retiredE)
    from retire_step_retired [OF assms(1) True o(2,3)] r
    have m1: "apply_commit (fo_state m) (owner_packet c' p) = Inr (fo_state m1)" "fo_owner m1 = None" by auto
    have "m2 = m1" "m3 = m1"
      using k f m1(2) by (auto simp: kill_step_def finish_step_def split: option.splits)
    moreover have "busy m" using o by (simp add: busy_def)
    ultimately have "\<not> busy m4" using a m1(2)
      by (auto simp: allocate_step_def busy_def split: option.splits if_splits)
    then show ?thesis using True o m1 s out by auto
  qed (use r s out in \<open>simp add: retire_step_idle\<close>)
qed (use assms(3) in simp)

theorem advance_commits_retired_owner_witness:
  "let e = no_edge\<lparr>ed_retire := Some \<lparr>ot_index = 0, ot_generation = 0\<rparr>\<rparr> in
     fo_state (snd (advance (FlagOwnerModel_init None) e)) = fo_state (FlagOwnerModel_init None)"
proof -
  let ?e = "no_edge\<lparr>ed_retire := Some \<lparr>ot_index = 0, ot_generation = 0\<rparr>\<rparr>"
  have e: "edge_ok ?e" by (simp add: edge_ok_def no_edge_def)
  have a: "advance (FlagOwnerModel_init None) ?e =
    (Inr \<lparr>eo_retired = False, eo_finished = False, eo_wake = False, eo_killed = False, eo_acquired = False,
          eo_captured = None\<rparr>, FlagOwnerModel_init None)"
    by (simp add: advance_def check_recovery_def edge_retired_def retire_step_def kill_step_def finish_step_def
        allocate_step_def edge_wake_def no_edge_def FlagOwnerModel_init_def)
  show ?thesis using advance_commits_retired_owner [OF init_ok e a] a by (simp add: Let_def)
qed

text \<open>
  C8: along any sequence of edges from a constructed model the invariant holds
  (in particular every registered finish passes the completion check and the
  owner's captured CA and SO are the architectural ones), and SO is sticky: once
  set, no retirement, kill or error clears it.
\<close>

theorem flag_owner_run:
  assumes "model_ok m" and "list_all edge_ok es"
  shows "model_ok (foldl advance_model m es) \<and>
    (state_so (fo_state m) = 1 \<longrightarrow> state_so (fo_state (foldl advance_model m es)) = 1)"
proof
  show "model_ok (foldl advance_model m es)" by (rule flag_owner.run_inv [OF assms])
  show "state_so (fo_state m) = 1 \<longrightarrow> state_so (fo_state (foldl advance_model m es)) = 1"
    by (rule flag_owner.run_rel [OF assms, where R = "\<lambda>a b. state_so (fo_state a) = 1 \<longrightarrow> state_so (fo_state b) = 1"])
       (blast intro: advance_so_sticky)+
qed

theorem flag_owner_run_witness:
  "let m = FlagOwnerModel_init (Some example_state);
       q = \<lparr>rq_tag = \<lparr>ot_index = 4, ot_generation = 255\<rparr>, rq_permissions = cp_permissions example_packet,
            rq_gpr_write = True, rq_gpr = 3\<rparr>
   in state_so (fo_state (foldl advance_model m [no_edge\<lparr>ed_allocate := Some q\<rparr>, no_edge\<lparr>ed_survivors := Some []\<rparr>])) = 1"
proof -
  let ?q = "\<lparr>rq_tag = \<lparr>ot_index = 4, ot_generation = 255\<rparr>, rq_permissions = cp_permissions example_packet,
            rq_gpr_write = True, rq_gpr = 3\<rparr>"
  let ?es = "[no_edge\<lparr>ed_allocate := Some ?q\<rparr>, no_edge\<lparr>ed_survivors := Some []\<rparr>]"
  have m: "model_ok (FlagOwnerModel_init (Some example_state))"
    using example_ok by (simp add: model_ok_def FlagOwnerModel_init_def)
  have es: "list_all edge_ok ?es"
    by (simp add: edge_ok_def no_edge_def request_ok_def tag_ok_def permissions_ok_def OWNER_DEPTH_def
        GENERATION_MODULUS_def example_packet_def in_field_def)
  have so: "state_so (fo_state (FlagOwnerModel_init (Some example_state))) = 1"
    by (simp add: state_so_def FlagOwnerModel_init_def example_state_def XER_SO_MASK_def)
  show ?thesis using flag_owner_run [OF m es] so by (simp add: Let_def del: foldl.simps)
qed

text \<open>
  C9: a flag-using operation of the add, shift or logical family goes through with the
  family's result.  On an idle model, allocate with the permissions of the prepared
  operation, finish with its payload, retire by its tag: none of the three edges
  raises, the middle one wakes exactly a GPR writer, and the final state holds the
  evaluation of the operation: its value in the named register if one was asked for,
  its carry in XER CA if the form defines one, its overflow and summary bits in XER if
  OE is set, its comparison in CR0 if Rc is set, and the old value everywhere else.
\<close>

theorem prepared_operation_commits:
  assumes m: "model_ok m" "\<not> busy m" and q: "request_ok q" "needs_flags (rq_permissions q)"
    and p: "prepare op = Inr po" "rq_permissions q = po_permissions po" "prepared_so op = state_so (fo_state m)"
  shows "\<exists>o1 m1 o2 m2 o3 m3 c r.
    advance m (no_edge\<lparr>ed_allocate := Some q\<rparr>) = (Inr o1, m1) \<and> eo_acquired o1 \<and> eo_captured o1 = Some c \<and>
    advance m1 (no_edge\<lparr>ed_finish := Some (rq_tag q, po_payload po)\<rparr>) = (Inr o2, m2) \<and>
    eo_wake o2 = rq_gpr_write q \<and>
    advance m2 (no_edge\<lparr>ed_retire := Some (rq_tag q)\<rparr>) = (Inr o3, m3) \<and> eo_retired o3 \<and> \<not> busy m3 \<and>
    apply_commit (fo_state m) (owner_packet c (po_payload po)) = Inr (fo_state m3) \<and>
    evaluate_op op = Inr r \<and>
    (\<forall>i < 32. st_gprs (fo_state m3) ! i =
       (if rq_gpr_write q \<and> int i = rq_gpr q then r_value r else st_gprs (fo_state m) ! i)) \<and>
    (\<forall>n. bit (st_xer (fo_state m3)) n =
       (if n = 29 \<and> op_writes_ca op then r_ca r = 1
        else if n = 30 \<and> op_writes_ov op then r_ov r = 1
        else if n = 31 \<and> op_writes_ov op then r_so r = 1
        else bit (st_xer (fo_state m)) n)) \<and>
    (\<forall>n. bit (st_cr (fo_state m3)) n =
       (if 28 \<le> n \<and> n < 32 \<and> op_records op then bit (r_cr0 r) (n - 28) else bit (st_cr (fo_state m)) n))"
proof -
  obtain r where r: "evaluate_op op = Inr r" "po_payload po = result_payload r"
    and w: "write_ca (po_permissions po) = op_writes_ca op" "write_ov_so (po_permissions po) = op_writes_ov op"
      "write_cr_field (po_permissions po) = op_records op"
    by (rule prepare_result [OF p(1)])
  let ?c = "captured_for q (fo_state m)"
  have tag: "owner_tag ?c = rq_tag q" and so: "ca_so_in ?c = state_so (fo_state m)" and rq: "ca_request ?c = q"
    by (simp_all add: captured_for_def owner_tag_def)
  define m1 where "m1 = m\<lparr>fo_owner := Some ?c, fo_finished := None\<rparr>"
  define m2 where "m2 = m1\<lparr>fo_finished := Some (po_payload po)\<rparr>"
  have fin: "finish_ok ?c (po_payload po)"
    using prepare_finish_ok [OF p(1), of ?c] p rq so by simp
  have own: "owner_ok (fo_state m) ?c"
    using q by (simp add: owner_ok_def captured_ok_def captured_for_def state_ca_def state_so_def)
  then have ok2: "model_ok m2" using m fin by (auto simp: model_ok_def m1_def m2_def split: option.splits)
  have a1: "advance m (no_edge\<lparr>ed_allocate := Some q\<rparr>) =
    (Inr \<lparr>eo_retired = False, eo_finished = False, eo_wake = False, eo_killed = False, eo_acquired = True,
          eo_captured = Some ?c\<rparr>, m1)"
    using advance_allocate [of m q] m q by (simp add: m1_def busy_def)
  have a2: "advance m1 (no_edge\<lparr>ed_finish := Some (rq_tag q, po_payload po)\<rparr>) =
    (Inr \<lparr>eo_retired = False, eo_finished = True, eo_wake = rq_gpr_write q, eo_killed = False,
          eo_acquired = False, eo_captured = None\<rparr>, m2)"
    using advance_finish [of m1 ?c "po_payload po"] fin
    by (simp add: m1_def m2_def finish_ok_def tag rq)
  have m2: "fo_state m2 = fo_state m" by (simp add: m1_def m2_def)
  from advance_retire [OF ok2, of ?c "po_payload po"] obtain s
    where commit: "apply_commit (fo_state m) (owner_packet ?c (po_payload po)) = Inr s"
      and a3: "advance m2 (no_edge\<lparr>ed_retire := Some (rq_tag q)\<rparr>) =
        (Inr \<lparr>eo_retired = True, eo_finished = False, eo_wake = False, eo_killed = False,
          eo_acquired = False, eo_captured = None\<rparr>, \<lparr>fo_state = s, fo_owner = None, fo_finished = None\<rparr>)"
    by (auto simp: m1_def m2_def tag)
  have packet: "owner_packet ?c (po_payload po) = \<lparr>cp_permissions = po_permissions po, cp_payload = result_payload r,
      cp_gpr_write = rq_gpr_write q, cp_gpr = rq_gpr q\<rparr>"
    by (simp add: owner_packet_def rq r(2) p(2))
  have "packet_ok (owner_packet ?c (po_payload po))"
    using own fin by (auto simp: owner_ok_def finish_ok_def intro: owner_packet_ok)
  moreover have "state_ok (fo_state m)"
    using m(1) by (simp add: model_ok_def)
  ultimately have effect: "st_gprs s = commit_gprs (fo_state m) (owner_packet ?c (po_payload po))"
    "bit (st_cr s) n = commit_cr_bit (fo_state m) (owner_packet ?c (po_payload po)) n"
    "bit (st_xer s) n = commit_xer_bit (fo_state m) (owner_packet ?c (po_payload po)) n" for n
    using apply_commit_bits [of "fo_state m" "owner_packet ?c (po_payload po)"] commit by auto
  have "length (st_gprs (fo_state m)) = 32" and gpr: "0 \<le> rq_gpr q"
    using \<open>state_ok (fo_state m)\<close> q(1) by (auto simp: state_ok_def request_ok_def in_field_def)
  then have gprs: "\<forall>i < 32. st_gprs s ! i = (if rq_gpr_write q \<and> int i = rq_gpr q then r_value r else st_gprs (fo_state m) ! i)"
    using effect(1) by (auto simp: packet commit_gprs_def nth_list_update result_payload_def)
  have xer: "bit (st_xer s) n = (if n = 29 \<and> op_writes_ca op then r_ca r = 1 else if n = 30 \<and> op_writes_ov op then r_ov r = 1
      else if n = 31 \<and> op_writes_ov op then r_so r = 1 else bit (st_xer (fo_state m)) n)" for n
    using effect(3) [of n] by (auto simp: packet commit_xer_bit_def w result_payload_def)
  have cr: "bit (st_cr s) n = (if 28 \<le> n \<and> n < 32 \<and> op_records op then bit (r_cr0 r) (n - 28) else bit (st_cr (fo_state m)) n)" for n
    using effect(2) [of n] by (auto simp: packet commit_cr_bit_def w result_payload_def)
  show ?thesis
    using a1 a2 a3 commit r(1) gprs xer cr by (auto simp: busy_def)
qed

theorem prepared_operation_commits_witness:
  "\<exists>o1 m1 o2 m2 o3 m3.
    advance (FlagOwnerModel_init None) (no_edge\<lparr>ed_allocate := Some \<lparr>rq_tag = \<lparr>ot_index = 0, ot_generation = 1\<rparr>,
      rq_permissions = \<lparr>read_ca = False, read_so = True, write_ca = True, write_ov_so = True, write_cr_field = True\<rparr>,
      rq_gpr_write = True, rq_gpr = 5\<rparr>\<rparr>) = (Inr o1, m1) \<and>
    advance m1 (no_edge\<lparr>ed_finish := Some (\<lparr>ot_index = 0, ot_generation = 1\<rparr>,
      \<lparr>pl_value = 0x80000000, pl_ca = 0, pl_ov = 1, pl_so = 1, pl_cr0 = 9\<rparr>)\<rparr>) = (Inr o2, m2) \<and>
    advance m2 (no_edge\<lparr>ed_retire := Some \<lparr>ot_index = 0, ot_generation = 1\<rparr>\<rparr>) = (Inr o3, m3) \<and>
    eo_retired o3"
proof -
  let ?t = "\<lparr>ot_index = 0, ot_generation = 1\<rparr>"
  let ?p = "\<lparr>read_ca = False, read_so = True, write_ca = True, write_ov_so = True, write_cr_field = True\<rparr>"
  let ?q = "\<lparr>rq_tag = ?t, rq_permissions = ?p, rq_gpr_write = True, rq_gpr = 5\<rparr>"
  let ?op = "PreparedAdd ''addc'' 0x7FFFFFFF 1 0 1 1 0 0 0"
  let ?po = "\<lparr>po_permissions = ?p, po_payload = \<lparr>pl_value = 0x80000000, pl_ca = 0, pl_ov = 1, pl_so = 1, pl_cr0 = 9\<rparr>\<rparr>"
  have q: "request_ok ?q" "needs_flags (rq_permissions ?q)"
    by (simp_all add: request_ok_def tag_ok_def permissions_ok_def OWNER_DEPTH_def GENERATION_MODULUS_def
        in_field_def needs_flags_def)
  have idle: "\<not> busy (FlagOwnerModel_init None)" "prepared_so ?op = state_so (fo_state (FlagOwnerModel_init None))"
    by (simp_all add: busy_def FlagOwnerModel_init_def state_so_def)
  have po: "prepare ?op = Inr ?po"
    by (simp add: prepare_add_def add_XO_def add_evaluate_def add_totals_def signed32_def cr0_relation_def
        prepare_payload_def mk_WritePermissions_def mk_CompletionPayload_def flag_word_def Let_def)
  show ?thesis
    using prepared_operation_commits [OF init_ok idle(1) q po _ idle(2)] by fastforce
qed

end
