(* ===== verification/Dict.thy ===== *)
theory Dict
  imports Prelude "HOL-Library.AList"
begin

text \<open>
  Python containers.  Dictionaries are association lists with distinct keys: \<open>d[k] = v\<close> updates
  in place or appends, \<open>d.pop(k, None)\<close> and \<open>del d[k]\<close> remove, and two
  dictionaries are equal when they hold the same items, in any order.  Lists and
  byte strings are HOL lists, with Python's indexing and slicing.
\<close>

type_synonym ('k, 'v) dict = "('k \<times> 'v) list"

abbreviation dict_get :: "('k, 'v) dict \<Rightarrow> 'k \<Rightarrow> 'v option" where
  "dict_get d k \<equiv> map_of d k"

abbreviation dict_set :: "'k \<Rightarrow> 'v \<Rightarrow> ('k, 'v) dict \<Rightarrow> ('k, 'v) dict" where
  "dict_set \<equiv> AList.update"

abbreviation dict_pop :: "'k \<Rightarrow> ('k, 'v) dict \<Rightarrow> ('k, 'v) dict" where
  "dict_pop \<equiv> AList.delete"

definition dict_keys :: "('k, 'v) dict \<Rightarrow> 'k set" where
  "dict_keys d = set (map fst d)"

definition dict_wf :: "('k, 'v) dict \<Rightarrow> bool" where
  "dict_wf d = distinct (map fst d)"

definition dict_eq :: "('k, 'v) dict \<Rightarrow> ('k, 'v) dict \<Rightarrow> bool" where
  "dict_eq d e = (set d = set e)"

text \<open>A dictionary comprehension \<open>{k: v for ...}\<close>: later items override earlier ones.\<close>

definition dict_of :: "('k \<times> 'v) list \<Rightarrow> ('k, 'v) dict" where
  "dict_of xs = foldl (\<lambda>d (k, v). dict_set k v d) [] xs"

lemma dict_wf_Nil [simp]: "dict_wf []"
  by (simp add: dict_wf_def)

lemma dict_wf_set [simp]: "dict_wf d \<Longrightarrow> dict_wf (dict_set k v d)"
  by (simp add: dict_wf_def AList.distinct_update)

lemma dict_wf_pop [simp]: "dict_wf d \<Longrightarrow> dict_wf (dict_pop k d)"
  by (simp add: dict_wf_def AList.distinct_delete)

lemma dict_keys_set [simp]: "dict_keys (dict_set k v d) = insert k (dict_keys d)"
  by (simp add: dict_keys_def AList.dom_update)

lemma dict_keys_pop [simp]: "dict_keys (dict_pop k d) = dict_keys d - {k}"
  by (simp add: dict_keys_def AList.delete_keys)

lemma dict_keys_iff: "k \<in> dict_keys d \<longleftrightarrow> dict_get d k \<noteq> None"
  by (simp add: dict_keys_def map_of_eq_None_iff)

lemma dict_get_set: "dict_get (dict_set k v d) k' = (if k' = k then Some v else dict_get d k')"
  by (simp add: AList.update_conv')

lemma dict_get_pop: "dict_get (dict_pop k d) k' = (if k' = k then None else dict_get d k')"
  by (simp add: AList.delete_conv')

lemma dict_item_iff: "dict_wf d \<Longrightarrow> (k, v) \<in> set d \<longleftrightarrow> dict_get d k = Some v"
  by (simp add: dict_wf_def)

lemma dict_eq_refl [simp]: "dict_eq d d"
  by (simp add: dict_eq_def)

lemma foldl_dict_get:
  "dict_get (foldl (\<lambda>d (k, v). dict_set k v d) d xs) k =
   (case dict_get (rev xs) k of None \<Rightarrow> dict_get d k | Some v \<Rightarrow> Some v)"
  by (induction xs arbitrary: d) (auto simp: dict_get_set map_add_def split: option.splits)

lemma dict_get_of: "dict_get (dict_of xs) k = map_of (rev xs) k"
  by (simp add: dict_of_def foldl_dict_get split: option.splits)

lemma dict_set_subset: "set (dict_set k v d) \<subseteq> insert (k, v) (set d)"
  by (induction d) auto

text \<open>A property of every key with its value survives the building of a dictionary.\<close>

lemma dict_of_all: "\<forall>(k, v) \<in> set xs. P k v \<Longrightarrow> \<forall>(k, v) \<in> set (dict_of xs). P k v"
proof -
  have "\<forall>p \<in> set d \<union> set xs. case p of (k, v) \<Rightarrow> P k v \<Longrightarrow>
      \<forall>p \<in> set (foldl (\<lambda>d (k, v). dict_set k v d) d xs). case p of (k, v) \<Rightarrow> P k v" for d
  proof (induction xs arbitrary: d)
    case (Cons x xs)
    obtain k v where x: "x = (k, v)" by (cases x)
    show ?case
      using Cons.IH [of "dict_set k v d"] Cons.prems dict_set_subset [of k v d] unfolding x by auto
  qed simp
  from this [of "[]"] show "\<forall>(k, v) \<in> set xs. P k v \<Longrightarrow> ?thesis" by (simp add: dict_of_def)
qed

lemma dict_keys_of: "dict_keys (dict_of xs) = fst ` set xs"
proof -
  have "dict_keys (foldl (\<lambda>d (k, v). dict_set k v d) d xs) = dict_keys d \<union> fst ` set xs" for d
    by (induction xs arbitrary: d) auto
  then show ?thesis by (simp add: dict_of_def dict_keys_def)
qed

text \<open>Deleting several keys.\<close>

lemma dict_wf_fold_pop: "dict_wf d \<Longrightarrow> dict_wf (foldl (\<lambda>d k. if P d k then dict_pop k d else d) d ks)"
  by (induction ks arbitrary: d) auto

text \<open>\<open>d[k]\<close>, given what \<open>d.get(k)\<close> finds.\<close>

definition py_key :: "'a option \<Rightarrow> 'a result" where
  "py_key x = (case x of None \<Rightarrow> Inl KeyError | Some y \<Rightarrow> Inr y)"

lemma py_key_simps [simp]: "py_key None = Inl KeyError" "py_key (Some y) = Inr y"
  by (simp_all add: py_key_def)

lemma py_key_eq_Inr [simp]: "py_key x = Inr y \<longleftrightarrow> x = Some y"
  by (cases x) auto

section \<open>Python lists\<close>

text \<open>Indexing: a negative index counts from the end, any other index out of range raises.\<close>

definition py_index :: "nat \<Rightarrow> int \<Rightarrow> nat result" where
  "py_index len i =
     (if 0 \<le> i \<and> i < int len then Inr (nat i)
      else if - int len \<le> i \<and> i < 0 then Inr (nat (int len + i))
      else Inl IndexError)"

definition py_get :: "'a list \<Rightarrow> int \<Rightarrow> 'a result" where
  "py_get xs i = bindR (py_index (length xs) i) (\<lambda>k. Inr (xs ! k))"

definition py_set :: "'a list \<Rightarrow> int \<Rightarrow> 'a \<Rightarrow> 'a list result" where
  "py_set xs i v = bindR (py_index (length xs) i) (\<lambda>k. Inr (xs[k := v]))"

text \<open>Slice bounds are clamped, never an error.\<close>

definition py_bound :: "nat \<Rightarrow> int \<Rightarrow> nat" where
  "py_bound len i = nat (if i < 0 then max 0 (i + int len) else min i (int len))"

definition py_slice :: "'a list \<Rightarrow> int \<Rightarrow> int \<Rightarrow> 'a list" where
  "py_slice xs a b = take (py_bound (length xs) b - py_bound (length xs) a) (drop (py_bound (length xs) a) xs)"

definition py_slice_set :: "'a list \<Rightarrow> int \<Rightarrow> int \<Rightarrow> 'a list \<Rightarrow> 'a list" where
  "py_slice_set xs a b ys =
     take (py_bound (length xs) a) xs @ ys @ drop (max (py_bound (length xs) a) (py_bound (length xs) b)) xs"

lemma py_get_in [simp]: "0 \<le> i \<Longrightarrow> i < int (length xs) \<Longrightarrow> py_get xs i = Inr (xs ! nat i)"
  by (simp add: py_get_def py_index_def)

lemma py_set_in [simp]: "0 \<le> i \<Longrightarrow> i < int (length xs) \<Longrightarrow> py_set xs i v = Inr (xs[nat i := v])"
  by (simp add: py_set_def py_index_def)

lemma py_index_less: "py_index len i = Inr k \<Longrightarrow> k < len"
  by (auto simp: py_index_def split: if_splits)

lemma py_set_length: "py_set xs i v = Inr ys \<Longrightarrow> length ys = length xs"
  by (auto simp: py_set_def bindR_eq_Inr)

lemma py_set_all: "py_set xs i v = Inr ys \<Longrightarrow> (\<forall>x \<in> set xs. P x) \<Longrightarrow> P v \<Longrightarrow> \<forall>y \<in> set ys. P y"
  by (auto simp: py_set_def bindR_eq_Inr dest: set_update_subset_insert [THEN subsetD])

lemma py_get_all: "py_get xs i = Inr x \<Longrightarrow> (\<forall>y \<in> set xs. P y) \<Longrightarrow> P x"
  by (auto simp: py_get_def bindR_eq_Inr dest: py_index_less)

end
