(* ===== verification/Recovery.thy ===== *)
theory Recovery
  imports Dict
begin

text \<open>
  \<open>sim/recovery/model.py\<close>, class \<open>RecoveryModel\<close>: a completion queue with rename
  slots, generation tags, producer tokens and redirect recovery.  \<open>step\<close> mutates the
  model and ends with \<open>check_invariants\<close>, whose assertions are branches of the
  model here; the main result is that no sequence of steps ever fails them.

  A step that raises returns the exception beside the model as it is left.
  Python's \<open>next((e for e in es if ...), None)\<close> is \<open>List.find\<close>.
\<close>

section \<open>Data\<close>

record Tag =
  slot :: int
  generation :: int

record Entry =
  tag :: Tag
  serial :: int
  dst :: "int option"
  rename :: "int option"
  is_done :: bool
  val :: int
  fault :: bool
  issued :: bool

record Redirect =
  rd_target :: int
  rd_pivot :: "Tag option"
  rd_keep_pivot :: bool

definition mk_Redirect :: "int \<Rightarrow> Tag option \<Rightarrow> bool \<Rightarrow> Redirect result" where
  "mk_Redirect target pivot keep_pivot =
     (if \<not> (0 \<le> target \<and> target \<le> 0xFFFFFFFF) \<or> target mod 4 \<noteq> 0
      then Inl (ValueError ''redirect target must be an aligned 32-bit PC'')
      else Inr \<lparr>rd_target = target, rd_pivot = pivot, rd_keep_pivot = keep_pivot\<rparr>)"

record Events =
  ev_allocated :: "Tag option"
  ev_finished :: "Tag option"
  ev_committed :: "(int \<times> int option \<times> int) option"
  ev_killed :: "Tag list"
  ev_redirect_accepted :: bool
  ev_redirect_rejected :: "string option"
  ev_issue_accepted :: bool
  ev_result_consumed :: bool

record RecoveryModel =
  depth :: int
  rename_depth :: int
  generation_mask :: int
  entries :: "Entry list"
  generations :: "int list"
  tail :: int
  tokens :: "(Tag, string) dict"
  arch :: "int list"
  mapping :: "(int, Tag) dict"
  next_serial :: int
  retired :: "(int \<times> int option \<times> int) list"

definition reset :: "RecoveryModel \<Rightarrow> RecoveryModel" where
  "reset m = m\<lparr>entries := [], generations := replicate (nat (depth m)) 0, tail := 0, tokens := [],
               arch := replicate 32 0, mapping := [], next_serial := 0, retired := []\<rparr>"

definition RecoveryModel_init :: "int \<Rightarrow> int \<Rightarrow> int \<Rightarrow> RecoveryModel result" where
  "RecoveryModel_init depth' rename_depth' generation_bits =
     (if min (min depth' rename_depth') generation_bits < 1
      then Inl (ValueError ''positive resource dimensions required'')
      else Inr (reset \<lparr>depth = depth', rename_depth = rename_depth',
             generation_mask = push_bit (nat generation_bits) 1 - 1, entries = [], generations = [],
             tail = 0, tokens = [], arch = [], mapping = [], next_serial = 0, retired = []\<rparr>))"

section \<open>Operations\<close>

definition candidate :: "RecoveryModel \<Rightarrow> Tag" where
  "candidate m = \<lparr>slot = tail m, generation = (generations m ! nat (tail m) + 1) AND generation_mask m\<rparr>"

definition operand :: "RecoveryModel \<Rightarrow> int \<Rightarrow> (bool \<times> int \<times> Tag option) result" where
  "operand m reg =
     (if \<not> (0 \<le> reg \<and> reg < 32) then Inl (ValueError ''GPR index out of range'')
      else case dict_get (mapping m) reg of
        None \<Rightarrow> Inr (True, arch m ! nat reg, None)
      | Some t \<Rightarrow>
          (case find (\<lambda>e. tag e = t) (entries m) of
             None \<Rightarrow> Inl StopIteration
           | Some e \<Rightarrow> Inr (is_done e, val e, Some t)))"

text \<open>The keyword arguments of \<open>step\<close>.\<close>

record StepArgs =
  sa_allocate :: bool
  sa_dst :: "int option"
  sa_fault :: bool
  sa_issue :: "Tag option"
  sa_producer_kind :: string
  sa_result :: "(Tag \<times> int) option"
  sa_redirect :: "Redirect option"
  sa_retire_ready :: bool

fun find_index :: "('a \<Rightarrow> bool) \<Rightarrow> 'a list \<Rightarrow> nat option" where
  "find_index P [] = None"
| "find_index P (x # xs) = (if P x then Some 0 else map_option Suc (find_index P xs))"

text \<open>Redirect qualification: the cut, or the reason for refusing it.\<close>

definition redirect_cut :: "Entry list \<Rightarrow> Redirect \<Rightarrow> nat option" where
  "redirect_cut pre r =
     (case rd_pivot r of
        None \<Rightarrow> Some 0
      | Some pivot \<Rightarrow> map_option (\<lambda>i. i + (if rd_keep_pivot r then 1 else 0)) (find_index (\<lambda>e. tag e = pivot) pre))"

definition redirect_decision ::
  "Entry list \<Rightarrow> Redirect option \<Rightarrow> bool \<times> string option \<times> Entry list" where
  "redirect_decision pre redirect =
     (case redirect of
        None \<Rightarrow> (False, None, pre)
      | Some r \<Rightarrow>
          (case redirect_cut pre r of
             None \<Rightarrow> (False, Some ''inactive_pivot'', pre)
           | Some pos \<Rightarrow>
               if pos = 0 \<and> pre \<noteq> [] \<and> is_done (hd pre)
               then (False, Some ''irrevocable_retirement_head'', pre)
               else (True, None, take pos pre)))"

definition redirect_tail :: "RecoveryModel \<Rightarrow> Entry list \<Rightarrow> Entry list \<Rightarrow> int" where
  "redirect_tail m pre survivors =
     (if survivors \<noteq> [] then (slot (tag (last survivors)) + 1) mod depth m
      else if pre \<noteq> [] then slot (tag (hd pre)) else tail m)"

definition drop_local_tokens :: "(Tag, string) dict \<Rightarrow> Tag list \<Rightarrow> (Tag, string) dict" where
  "drop_local_tokens toks killed =
     foldl (\<lambda>d t. if dict_get d t = Some ''local'' then dict_pop t d else d) toks killed"

text \<open>Assigning to the entry a \<open>next(...)\<close> found: the first one that satisfies \<open>P\<close>.\<close>

fun update_first :: "('a \<Rightarrow> bool) \<Rightarrow> ('a \<Rightarrow> 'a) \<Rightarrow> 'a list \<Rightarrow> 'a list" where
  "update_first P f [] = []"
| "update_first P f (x # xs) = (if P x then f x # xs else x # update_first P f xs)"

definition finish_result ::
  "(Tag, string) dict \<Rightarrow> Entry list \<Rightarrow> (Tag \<times> int) option \<Rightarrow> Entry list \<times> Tag option" where
  "finish_result pre_tokens survivors result =
     (case result of
        None \<Rightarrow> (survivors, None)
      | Some (t, value) \<Rightarrow>
          (case find (\<lambda>e. tag e = t) survivors of
             None \<Rightarrow> (survivors, None)
           | Some e \<Rightarrow>
               if \<not> is_done e \<and> dict_get pre_tokens t \<noteq> None
               then (update_first (\<lambda>e. tag e = t) (\<lambda>e. e\<lparr>is_done := True, val := value AND 0xFFFFFFFF\<rparr>) survivors, Some t)
               else (survivors, None)))"

definition result_tokens :: "(Tag, string) dict \<Rightarrow> (Tag \<times> int) option \<Rightarrow> (Tag, string) dict" where
  "result_tokens toks result = (case result of None \<Rightarrow> toks | Some (t, _) \<Rightarrow> dict_pop t toks)"

definition can_commit :: "Entry list \<Rightarrow> Tag set \<Rightarrow> bool \<Rightarrow> bool" where
  "can_commit pre keep retire_ready =
     (case pre of [] \<Rightarrow> False | h # _ \<Rightarrow> is_done h \<and> tag h \<in> keep \<and> retire_ready)"

text \<open>\<open>survivors.pop(0)\<close>, the architectural write and the committed record.\<close>

definition commit_head :: "int list \<Rightarrow> Entry \<Rightarrow> int list" where
  "commit_head a h = (case dst h of None \<Rightarrow> a | Some d \<Rightarrow> a[nat d := val h])"

definition committed_of :: "Entry \<Rightarrow> int \<times> int option \<times> int" where
  "committed_of h = (serial h, dst h, val h)"

definition can_issue :: "Entry list \<Rightarrow> Tag option \<Rightarrow> bool" where
  "can_issue survivors issue =
     (case issue of
        None \<Rightarrow> False
      | Some t \<Rightarrow> (case find (\<lambda>e. tag e = t) survivors of
                     None \<Rightarrow> False | Some e \<Rightarrow> \<not> issued e \<and> \<not> is_done e))"

definition free_rename :: "RecoveryModel \<Rightarrow> Entry list \<Rightarrow> int option" where
  "free_rename m pre =
     find (\<lambda>i. i \<notin> set (List.map_filter rename pre)) [0..rename_depth m - 1]"

definition new_entry :: "Tag \<Rightarrow> int \<Rightarrow> int option \<Rightarrow> bool \<Rightarrow> int option \<Rightarrow> Entry" where
  "new_entry t ser d flt free =
     \<lparr>tag = t, serial = ser, dst = (if flt then None else d),
      rename = (if d \<noteq> None \<and> \<not> flt then free else None), is_done = flt, val = 0, fault = flt, issued = False\<rparr>"

definition dst_mapping :: "Entry list \<Rightarrow> (int, Tag) dict" where
  "dst_mapping es = dict_of (List.map_filter (\<lambda>e. map_option (\<lambda>d. (d, tag e)) (dst e)) es)"

definition check_invariants :: "RecoveryModel \<Rightarrow> unit result" where
  "check_invariants m =
     (let es = entries m; renames = List.map_filter rename es in
      if \<not> int (length es) \<le> depth m then Inl (AssertionError ''len(self.entries) <= self.depth'')
      else if card (set (map (\<lambda>e. slot (tag e)) es)) \<noteq> length es then Inl (AssertionError ''slots'')
      else if card (set (map serial es)) \<noteq> length es then Inl (AssertionError ''serials'')
      else if map serial es \<noteq> sort (map serial es) then Inl (AssertionError ''serial order'')
      else if \<not> (length renames = card (set renames) \<and> int (card (set renames)) \<le> rename_depth m)
      then Inl (AssertionError ''renames'')
      else if \<not> dict_eq (mapping m) (dst_mapping es) then Inl (AssertionError ''mapping'')
      else if \<not> list_all (\<lambda>(older, younger). slot (tag younger) = (slot (tag older) + 1) mod depth m)
                 (zip es (tl es))
      then Inl (AssertionError ''slot order'')
      else if es \<noteq> [] \<and> tail m \<noteq> (slot (tag (last es)) + 1) mod depth m then Inl (AssertionError ''tail'')
      else if \<not> list_all (\<lambda>(t, kind). t \<notin> set (map tag es) \<longrightarrow> kind = ''external'') (tokens m)
      then Inl (AssertionError ''tokens'')
      else if \<not> list_all (\<lambda>e. \<not> is_done e \<or> dict_get (tokens m) (tag e) = None) es
      then Inl (AssertionError ''done tokens'')
      else Inr ())"

text \<open>
  The body of \<open>step\<close> after its argument checks and before \<open>check_invariants\<close>,
  in the order of the code: redirect, finish, commit, issue, allocate.
\<close>

definition step_body :: "RecoveryModel \<Rightarrow> StepArgs \<Rightarrow> Events \<times> RecoveryModel" where
  "step_body m x =
     (let pre = entries m;
          pre_tokens = tokens m;
          (accepted, rejected, survivors) = redirect_decision pre (sa_redirect x);
          keep = set (map tag survivors);
          killed = filter (\<lambda>t. t \<notin> keep) (map tag pre);
          tail1 = (if accepted then redirect_tail m pre survivors else tail m);
          tokens1 = (if accepted then drop_local_tokens (tokens m) killed else tokens m);
          tokens2 = result_tokens tokens1 (sa_result x);
          (survivors2, finished) = finish_result pre_tokens survivors (sa_result x);
          commits = can_commit pre keep (sa_retire_ready x);
          arch3 = (if commits then commit_head (arch m) (hd survivors2) else arch m);
          committed = (if commits then Some (committed_of (hd survivors2)) else None);
          retired3 = (if commits then retired m @ [committed_of (hd survivors2)] else retired m);
          survivors3 = (if commits then tl survivors2 else survivors2);
          issue_accepted = can_issue survivors3 (sa_issue x);
          survivors4 = (if issue_accepted
                        then update_first (\<lambda>e. Some (tag e) = sa_issue x) (\<lambda>e. e\<lparr>issued := True\<rparr>) survivors3
                        else survivors3);
          tokens4 = (if issue_accepted then dict_set (the (sa_issue x)) (sa_producer_kind x) tokens2 else tokens2);
          free = free_rename m pre;
          needs_rename = (sa_dst x \<noteq> None \<and> \<not> sa_fault x);
          cand = candidate (m\<lparr>tail := tail1\<rparr>);
          allocates = (sa_allocate x \<and> \<not> accepted \<and> int (length pre) < depth m \<and>
                       (\<not> needs_rename \<or> free \<noteq> None) \<and> dict_get pre_tokens cand = None);
          survivors5 = (if allocates
                        then survivors4 @ [new_entry cand (next_serial m) (sa_dst x) (sa_fault x) free]
                        else survivors4)
      in (\<lparr>ev_allocated = (if allocates then Some cand else None), ev_finished = finished,
           ev_committed = committed, ev_killed = killed, ev_redirect_accepted = accepted,
           ev_redirect_rejected = rejected, ev_issue_accepted = issue_accepted,
           ev_result_consumed = (sa_result x \<noteq> None)\<rparr>,
          m\<lparr>entries := survivors5,
            generations := (if allocates then (generations m)[nat (slot cand) := generation cand] else generations m),
            tail := (if allocates then (tail1 + 1) mod depth m else tail1),
            tokens := tokens4, arch := arch3, mapping := dst_mapping survivors5,
            next_serial := (if allocates then next_serial m + 1 else next_serial m),
            retired := retired3\<rparr>))"

definition step :: "RecoveryModel \<Rightarrow> StepArgs \<Rightarrow> Events result \<times> RecoveryModel" where
  "step m x =
     (if \<not> (case sa_dst x of None \<Rightarrow> True | Some d \<Rightarrow> 0 \<le> d \<and> d < 32)
      then (Inl (ValueError ''GPR index out of range''), m)
      else if sa_producer_kind x \<notin> {''local'', ''external''}
      then (Inl (ValueError ''unknown producer cancellation kind''), m)
      else case step_body m x of (events, m') \<Rightarrow>
        (case check_invariants m' of Inl err \<Rightarrow> (Inl err, m') | Inr _ \<Rightarrow> (Inr events, m')))"

section \<open>The queue invariant\<close>

text \<open>The slots of the queue are consecutive modulo the depth and end just before the tail.\<close>

definition ring_ok :: "int \<Rightarrow> int \<Rightarrow> Entry list \<Rightarrow> bool" where
  "ring_ok d t es \<longleftrightarrow> (\<forall>i < length es. slot (tag (es ! i)) = (t - int (length es) + int i) mod d)"

definition dims_ok :: "RecoveryModel \<Rightarrow> bool" where
  "dims_ok m \<longleftrightarrow> 1 \<le> depth m \<and> 1 \<le> rename_depth m \<and> length (generations m) = nat (depth m) \<and>
     length (arch m) = 32 \<and> 0 \<le> tail m \<and> tail m < depth m \<and> int (length (entries m)) \<le> depth m"

definition order_ok :: "RecoveryModel \<Rightarrow> bool" where
  "order_ok m \<longleftrightarrow> sorted_wrt (<) (map fst (retired m) @ map serial (entries m)) \<and>
     (\<forall>s \<in> set (map fst (retired m) @ map serial (entries m)). s < next_serial m)"

definition rename_ok :: "RecoveryModel \<Rightarrow> bool" where
  "rename_ok m \<longleftrightarrow> distinct (List.map_filter rename (entries m)) \<and>
     (\<forall>r \<in> set (List.map_filter rename (entries m)). 0 \<le> r \<and> r < rename_depth m) \<and>
     (\<forall>e \<in> set (entries m). \<forall>d. dst e = Some d \<longrightarrow> 0 \<le> d \<and> d < 32)"

definition token_ok :: "RecoveryModel \<Rightarrow> bool" where
  "token_ok m \<longleftrightarrow> dict_wf (tokens m) \<and>
     (\<forall>t k. dict_get (tokens m) t = Some k \<longrightarrow> k \<in> {''local'', ''external''} \<and>
        (t \<notin> set (map tag (entries m)) \<longrightarrow> k = ''external'')) \<and>
     (\<forall>e \<in> set (entries m). dict_get (tokens m) (tag e) \<noteq> None \<longrightarrow> issued e \<and> \<not> is_done e)"

definition core_ok :: "RecoveryModel \<Rightarrow> bool" where
  "core_ok m \<longleftrightarrow> dims_ok m \<and> ring_ok (depth m) (tail m) (entries m) \<and> order_ok m \<and> rename_ok m \<and> token_ok m"

definition recovery_ok :: "RecoveryModel \<Rightarrow> bool" where
  "recovery_ok m \<longleftrightarrow> core_ok m \<and> mapping m = dst_mapping (entries m)"

lemma init_recovery_ok: "RecoveryModel_init d r g = Inr m \<Longrightarrow> recovery_ok m"
  by (auto simp: RecoveryModel_init_def reset_def recovery_ok_def core_ok_def dims_ok_def ring_ok_def
      order_ok_def rename_ok_def token_ok_def dst_mapping_def dict_of_def map_filter_simps split: if_splits)

section \<open>Generic facts about the list helpers\<close>

lemma length_update_first [simp]: "length (update_first P f xs) = length xs"
  by (induction xs) auto

lemma map_update_first: "(\<And>x. g (f x) = g x) \<Longrightarrow> map g (update_first P f xs) = map g xs"
  by (induction xs) auto

lemma map_filter_update_first:
  "(\<And>x. g (f x) = g x) \<Longrightarrow> List.map_filter g (update_first P f xs) = List.map_filter g xs"
  by (induction xs) (auto simp: map_filter_simps split: option.splits)

lemma set_update_first: "y \<in> set (update_first P f xs) \<Longrightarrow> y \<in> set xs \<or> (\<exists>x \<in> set xs. P x \<and> y = f x)"
  by (induction xs) (auto split: if_splits)

lemma update_first_keep: "y \<in> set (update_first P f xs) \<Longrightarrow> distinct (map g xs) \<Longrightarrow>
  (\<And>x. g (f x) = g x) \<Longrightarrow> (\<And>x. P x \<longleftrightarrow> g x = k) \<Longrightarrow> g y \<noteq> k \<Longrightarrow> y \<in> set xs"
  by (induction xs) (auto split: if_splits)

lemma update_first_hit:
  "y \<in> set (update_first P f xs) \<Longrightarrow> distinct (map g xs) \<Longrightarrow>
   (\<And>x. g (f x) = g x) \<Longrightarrow> (\<And>x. P x \<longleftrightarrow> g x = k) \<Longrightarrow> g y = k \<Longrightarrow> \<exists>x \<in> set xs. P x \<and> y = f x"
proof (induction xs)
  case (Cons a xs)
  show ?case
  proof (cases "P a")
    case True
    then have "g a = k" "k \<notin> g ` set xs" using Cons.prems by auto
    moreover from this have "y \<notin> set xs" using Cons.prems(5) by (metis imageI)
    ultimately show ?thesis using True Cons.prems(1) by auto
  next
    case False
    then show ?thesis using Cons by auto
  qed
qed simp

lemma update_first_cases:
  assumes e: "e \<in> set (update_first (\<lambda>x. g x = k) f xs)" and d: "distinct (map g xs)"
    and g: "\<And>x. g (f x) = g x"
  obtains "e \<in> set xs" "g e \<noteq> k" | x where "x \<in> set xs" "g x = k" "e = f x"
proof (cases "g e = k")
  case True
  then obtain x where "x \<in> set xs" "g x = k" "e = f x"
    using update_first_hit [OF e d g] by blast
  then show thesis by (rule that(2))
next
  case False
  then have "e \<in> set xs" using update_first_keep [OF e d g] by blast
  then show thesis using False by (rule that(1))
qed

lemma map_filter_append: "List.map_filter f (xs @ ys) = List.map_filter f xs @ List.map_filter f ys"
  by (induction xs) (auto simp: map_filter_simps split: option.splits)

lemma set_map_filter: "set (List.map_filter f xs) = {y. \<exists>x \<in> set xs. f x = Some y}"
  by (induction xs) (auto simp: map_filter_simps split: option.splits)

lemma map_filter_take: "\<exists>ys. List.map_filter f xs = List.map_filter f (take n xs) @ ys"
  by (metis append_take_drop_id map_filter_append)

lemma map_filter_tl: "\<exists>ys. List.map_filter f xs = ys @ List.map_filter f (tl xs)"
  using map_filter_append [of f "take 1 xs" "tl xs"] by (cases xs) auto

lemma find_Some_iff2: "find P xs = Some x \<Longrightarrow> x \<in> set xs \<and> P x"
  by (metis find_Some_iff nth_mem)

lemma find_index_Some: "find_index P xs = Some i \<Longrightarrow> i < length xs \<and> P (xs ! i)"
  by (induction xs arbitrary: i) (auto split: if_splits)

section \<open>The ring\<close>

lemma ring_slots_distinct:
  assumes "ring_ok d t es" "int (length es) \<le> d"
  shows "distinct (map (\<lambda>e. slot (tag e)) es)"
proof (simp add: distinct_conv_nth, intro allI impI)
  fix i j assume ij: "i < length es" "j < length es" "i \<noteq> j"
  show "slot (tag (es ! i)) \<noteq> slot (tag (es ! j))"
  proof
    assume "slot (tag (es ! i)) = slot (tag (es ! j))"
    then have "(t - int (length es) + int i) mod d = (t - int (length es) + int j) mod d"
      using assms(1) ij by (simp add: ring_ok_def)
    then have "d dvd (int i - int j)"
      by (simp add: mod_eq_dvd_iff)
    then show False using ij assms(2) dvd_imp_le_int [of "int i - int j" d] by auto
  qed
qed

lemma ring_tags_distinct: "ring_ok d t es \<Longrightarrow> int (length es) \<le> d \<Longrightarrow> distinct (map tag es)"
  using ring_slots_distinct [of d t es] distinct_map [of slot "map tag es"] by (simp add: comp_def)

lemma ring_tail_free:
  assumes "ring_ok d t es" "int (length es) < d" "0 \<le> t" "t < d" "e \<in> set es"
  shows "slot (tag e) \<noteq> t"
proof
  assume eq: "slot (tag e) = t"
  obtain i where i: "i < length es" "e = es ! i" using assms(5) by (auto simp: in_set_conv_nth)
  then have "(t - int (length es) + int i) mod d = t mod d"
    using assms eq by (simp add: ring_ok_def)
  then have "d dvd (int i - int (length es))" by (simp add: mod_eq_dvd_iff algebra_simps)
  then show False using i assms(2) dvd_imp_le_int [of "int i - int (length es)" d] by auto
qed

lemma mod_shift: "((a::int) mod d - b + c) mod d = (a - b + c) mod d"
  by (metis mod_add_left_eq mod_diff_left_eq)

lemma ring_take:
  assumes "ring_ok d t es" "n \<le> length es" "1 \<le> d"
  shows "ring_ok d ((t - int (length es) + int n) mod d) (take n es)"
  using assms by (auto simp: ring_ok_def min_def mod_shift)

lemma ring_tl: "ring_ok d t es \<Longrightarrow> es \<noteq> [] \<Longrightarrow> ring_ok d t (tl es)"
  by (auto simp: ring_ok_def nth_tl algebra_simps of_nat_diff Suc_le_eq)

lemma ring_snoc:
  assumes "ring_ok d t es" "slot (tag e) = t" "0 \<le> t" "t < d"
  shows "ring_ok d ((t + 1) mod d) (es @ [e])"
  using assms mod_shift [of "t + 1" d "1 + int (length es)"]
  by (auto simp: ring_ok_def nth_append less_Suc_eq)

lemma ring_cong: "map tag es = map tag es' \<Longrightarrow> ring_ok d t es = ring_ok d t es'"
  unfolding ring_ok_def by (metis length_map nth_map)

lemma ring_last:
  assumes "ring_ok d t es" "es \<noteq> []" "0 \<le> t" "t < d"
  shows "(slot (tag (last es)) + 1) mod d = t"
proof -
  have "int (length es - 1) = int (length es) - 1" using assms(2) by (cases es) auto
  then show ?thesis using assms by (simp add: ring_ok_def last_conv_nth mod_simps)
qed

section \<open>The stages of a step keep the queue invariant\<close>

lemmas core_defs = core_ok_def dims_ok_def order_ok_def rename_ok_def token_ok_def

lemma core_tags_distinct: "core_ok m \<Longrightarrow> distinct (map tag (entries m))"
  by (auto simp: core_ok_def dims_ok_def intro: ring_tags_distinct)

text \<open>Redirect: the queue is cut, the tail moves back, local tokens of the killed go.\<close>

lemma drop_local_get:
  "dict_get (drop_local_tokens d ks) t =
   (if t \<in> set ks \<and> dict_get d t = Some ''local'' then None else dict_get d t)"
  unfolding drop_local_tokens_def
  by (induction ks arbitrary: d) (auto simp: dict_get_pop)

lemma drop_local_wf: "dict_wf d \<Longrightarrow> dict_wf (drop_local_tokens d ks)"
  unfolding drop_local_tokens_def by (rule dict_wf_fold_pop)

lemma take_tags_killed:
  assumes "distinct (map tag es)"
  shows "t \<in> set (filter (\<lambda>t. t \<notin> set (map tag (take n es))) (map tag es)) \<longleftrightarrow>
    t \<in> set (map tag es) \<and> t \<notin> set (map tag (take n es))"
  by auto

definition redirect_stage :: "RecoveryModel \<Rightarrow> nat \<Rightarrow> RecoveryModel" where
  "redirect_stage m n = m\<lparr>entries := take n (entries m),
     tail := redirect_tail m (entries m) (take n (entries m)),
     tokens := drop_local_tokens (tokens m)
       (filter (\<lambda>t. t \<notin> set (map tag (take n (entries m)))) (map tag (entries m)))\<rparr>"

lemma redirect_stage_tail:
  assumes "core_ok m" "n \<le> length (entries m)"
  shows "tail (redirect_stage m n) = (tail m - int (length (entries m)) + int n) mod depth m"
proof -
  let ?es = "entries m"
  have r: "ring_ok (depth m) (tail m) ?es" and d: "1 \<le> depth m" "0 \<le> tail m" "tail m < depth m"
    using assms(1) by (auto simp: core_ok_def dims_ok_def)
  show ?thesis
  proof (cases "take n ?es = []")
    case True
    then have "n = 0 \<or> ?es = []" by auto
    then show ?thesis
    proof
      assume "n = 0"
      then show ?thesis using r d assms(2) True
        by (cases "?es = []") (simp_all add: redirect_stage_def redirect_tail_def ring_ok_def hd_conv_nth)
    qed (use d assms(2) in \<open>simp add: redirect_stage_def redirect_tail_def\<close>)
  next
    case False
    have "ring_ok (depth m) ((tail m - int (length ?es) + int n) mod depth m) (take n ?es)"
      using ring_take [OF r assms(2) d(1)] .
    from ring_last [OF this False] show ?thesis
      using d False by (simp add: redirect_stage_def redirect_tail_def)
  qed
qed

lemma redirect_stage_ok:
  assumes ok: "core_ok m" and n: "n \<le> length (entries m)"
  shows "core_ok (redirect_stage m n)"
proof -
  let ?m = "redirect_stage m n" and ?es = "entries m"
  have d: "1 \<le> depth m" using ok by (auto simp: core_ok_def dims_ok_def)
  have sub: "set (take n ?es) \<subseteq> set ?es" by (rule set_take_subset)
  have t: "tail ?m = (tail m - int (length ?es) + int n) mod depth m"
    by (rule redirect_stage_tail [OF assms])
  have f: "entries ?m = take n ?es" "depth ?m = depth m" "generations ?m = generations m" "arch ?m = arch m"
    "rename_depth ?m = rename_depth m" "retired ?m = retired m" "next_serial ?m = next_serial m"
    by (simp_all add: redirect_stage_def)
  have "dims_ok ?m" using ok d unfolding core_ok_def dims_ok_def f t by auto
  moreover have "ring_ok (depth ?m) (tail ?m) (entries ?m)"
    unfolding t f using ok n d by (intro ring_take) (auto simp: core_ok_def)
  moreover have "order_ok ?m"
    using ok sub unfolding core_ok_def order_ok_def f
    by (auto simp: sorted_wrt_append take_map [symmetric] dest: sorted_wrt_take)
       (use sub in \<open>force simp: take_map\<close>)+
  moreover have "rename_ok ?m"
  proof -
    obtain ys where "List.map_filter rename ?es = List.map_filter rename (take n ?es) @ ys"
      using map_filter_take by blast
    then show ?thesis using ok sub unfolding core_ok_def rename_ok_def f by auto
  qed
  moreover have "token_ok ?m"
    using ok sub unfolding core_ok_def token_ok_def f
    by (auto simp: redirect_stage_def drop_local_get drop_local_wf dest: in_set_takeD split: if_splits)
  ultimately show ?thesis by (simp add: core_ok_def)
qed

text \<open>A result consumes its token, and marks its entry when it qualifies.\<close>

definition finish_entry :: "Tag \<Rightarrow> int \<Rightarrow> Entry list \<Rightarrow> Entry list" where
  "finish_entry t v = update_first (\<lambda>e. tag e = t) (\<lambda>e. e\<lparr>is_done := True, val := v AND 0xFFFFFFFF\<rparr>)"

lemma finish_entry_maps [simp]:
  "map tag (finish_entry t v es) = map tag es" "map serial (finish_entry t v es) = map serial es"
  "List.map_filter rename (finish_entry t v es) = List.map_filter rename es"
  "map dst (finish_entry t v es) = map dst es"
  "length (finish_entry t v es) = length es"
  by (simp_all add: finish_entry_def map_update_first map_filter_update_first)

lemma finish_entry_cases:
  assumes "e \<in> set (finish_entry t v es)" "distinct (map tag es)"
  obtains "e \<in> set es" "tag e \<noteq> t"
  | e0 where "e0 \<in> set es" "tag e0 = t" "e = e0\<lparr>is_done := True, val := v AND 0xFFFFFFFF\<rparr>"
  using assms unfolding finish_entry_def by (rule update_first_cases) auto

lemma core_ok_cong:
  assumes "core_ok m" "map tag es = map tag (entries m)" "map serial es = map serial (entries m)"
    and "List.map_filter rename es = List.map_filter rename (entries m)" "map dst es = map dst (entries m)"
    and "token_ok (m\<lparr>entries := es, tokens := toks\<rparr>)"
  shows "core_ok (m\<lparr>entries := es, tokens := toks\<rparr>)"
proof -
  have len: "length es = length (entries m)" using assms(2) by (metis length_map)
  have "\<exists>e' \<in> set (entries m). dst e' = dst e" if "e \<in> set es" for e
    using that assms(5) by (metis (no_types, lifting) image_iff list.set_map)
  then have "rename_ok (m\<lparr>entries := es, tokens := toks\<rparr>)"
    using assms(1,4) unfolding core_ok_def rename_ok_def by auto metis+
  then show ?thesis
    using assms len ring_cong [OF assms(2)] unfolding core_ok_def dims_ok_def order_ok_def by simp
qed

lemma pop_ok: "core_ok m \<Longrightarrow> core_ok (m\<lparr>tokens := dict_pop t (tokens m)\<rparr>)"
  by (auto simp: core_defs dict_get_pop)

lemma finish_stage_ok:
  assumes "core_ok m"
  shows "core_ok (m\<lparr>entries := finish_entry t v (entries m), tokens := dict_pop t (tokens m)\<rparr>)"
proof (rule core_ok_cong [OF assms])
  have dist: "distinct (map tag (entries m))" by (rule core_tags_distinct [OF assms])
  have tok: "token_ok m" using assms by (simp add: core_ok_def)
  have tags: "tag ` set (finish_entry t v (entries m)) = tag ` set (entries m)"
    by (metis finish_entry_maps(1) list.set_map)
  have "dict_get (dict_pop t (tokens m)) (tag e) \<noteq> None \<longrightarrow> issued e \<and> \<not> is_done e"
    if "e \<in> set (finish_entry t v (entries m))" for e
    using that dist
  proof (rule finish_entry_cases)
    assume "e \<in> set (entries m)" "tag e \<noteq> t"
    then show ?thesis using tok by (simp add: token_ok_def dict_get_pop)
  qed (simp add: dict_get_pop)
  then show "token_ok (m\<lparr>entries := finish_entry t v (entries m), tokens := dict_pop t (tokens m)\<rparr>)"
    using tok tags unfolding token_ok_def by (auto simp: dict_get_pop)
qed simp_all

text \<open>Commit removes a finished head and appends it to the retirement log.\<close>

definition commit_stage :: "RecoveryModel \<Rightarrow> RecoveryModel" where
  "commit_stage m = m\<lparr>entries := tl (entries m), arch := commit_head (arch m) (hd (entries m)),
     retired := retired m @ [committed_of (hd (entries m))]\<rparr>"

lemma commit_stage_ok:
  assumes ok: "core_ok m" and ne: "entries m \<noteq> []" and dn: "is_done (hd (entries m))"
  shows "core_ok (commit_stage m)"
proof -
  let ?m = "commit_stage m"
  obtain h es where es: "entries m = h # es" using ne by (cases "entries m") auto
  have f: "entries ?m = es" "depth ?m = depth m" "generations ?m = generations m" "tail ?m = tail m"
    "rename_depth ?m = rename_depth m" "retired ?m = retired m @ [(serial h, dst h, val h)]"
    "next_serial ?m = next_serial m" "tokens ?m = tokens m" "arch ?m = commit_head (arch m) h"
    by (simp_all add: commit_stage_def es committed_of_def)
  have "dims_ok ?m" using ok es unfolding core_ok_def dims_ok_def f
    by (auto simp: commit_head_def split: option.splits)
  moreover have "ring_ok (depth ?m) (tail ?m) (entries ?m)"
    using ok ring_tl [of "depth m" "tail m" "entries m"] es unfolding f by (simp add: core_ok_def)
  moreover have "order_ok ?m" using ok es unfolding core_ok_def order_ok_def f by (simp add: sorted_wrt_append)
  moreover have "rename_ok ?m"
    using ok es unfolding core_ok_def rename_ok_def f
    by (auto simp: map_filter_simps split: option.splits)
  moreover have "token_ok ?m"
  proof -
    have "dict_get (tokens m) (tag h) = None"
      using ok dn es by (auto simp: core_ok_def token_ok_def)
    then have "t \<noteq> tag h" if "dict_get (tokens m) t = Some k" for t k using that by auto
    then show ?thesis using ok es unfolding core_ok_def token_ok_def f by auto
  qed
  ultimately show ?thesis by (simp add: core_ok_def)
qed

text \<open>Issue marks an entry and gives it a token.\<close>

definition issue_entry :: "Tag \<Rightarrow> Entry list \<Rightarrow> Entry list" where
  "issue_entry t = update_first (\<lambda>e. tag e = t) (\<lambda>e. e\<lparr>issued := True\<rparr>)"

lemma issue_entry_maps [simp]:
  "map tag (issue_entry t es) = map tag es" "map serial (issue_entry t es) = map serial es"
  "List.map_filter rename (issue_entry t es) = List.map_filter rename es"
  "map dst (issue_entry t es) = map dst es" "length (issue_entry t es) = length es"
  by (simp_all add: issue_entry_def map_update_first map_filter_update_first)

lemma issue_entry_cases:
  assumes "e \<in> set (issue_entry t es)" "distinct (map tag es)"
  obtains "e \<in> set es" "tag e \<noteq> t" | e0 where "e0 \<in> set es" "tag e0 = t" "e = e0\<lparr>issued := True\<rparr>"
  using assms unfolding issue_entry_def by (rule update_first_cases) auto

lemma issue_stage_ok:
  assumes ok: "core_ok m" and e: "find (\<lambda>e. tag e = t) (entries m) = Some e" "\<not> is_done e"
    and k: "kind \<in> {''local'', ''external''}"
  shows "core_ok (m\<lparr>entries := issue_entry t (entries m), tokens := dict_set t kind (tokens m)\<rparr>)"
proof (rule core_ok_cong [OF ok])
  have dist: "distinct (map tag (entries m))" by (rule core_tags_distinct [OF ok])
  have tok: "token_ok m" using ok by (simp add: core_ok_def)
  have mem: "e \<in> set (entries m)" "tag e = t" using e(1) find_Some_iff2 by fastforce+
  have tags: "tag ` set (issue_entry t (entries m)) = tag ` set (entries m)"
    by (metis issue_entry_maps(1) list.set_map)
  have uniq: "e' = e" if "e' \<in> set (entries m)" "tag e' = t" for e'
    using dist mem that by (metis distinct_map inj_on_eq_iff)
  have "dict_get (dict_set t kind (tokens m)) (tag x) \<noteq> None \<longrightarrow> issued x \<and> \<not> is_done x"
    if "x \<in> set (issue_entry t (entries m))" for x
    using that dist
  proof (rule issue_entry_cases)
    assume "x \<in> set (entries m)" "tag x \<noteq> t"
    then show ?thesis using tok by (simp add: token_ok_def dict_get_set)
  qed (use uniq e(2) in auto)
  then show "token_ok (m\<lparr>entries := issue_entry t (entries m), tokens := dict_set t kind (tokens m)\<rparr>)"
    using tok tags k mem unfolding token_ok_def by (auto simp: dict_get_set split: if_splits)
qed simp_all

text \<open>Allocation appends an entry at the tail slot.\<close>

definition allocate_stage :: "RecoveryModel \<Rightarrow> Entry \<Rightarrow> RecoveryModel" where
  "allocate_stage m e = m\<lparr>entries := entries m @ [e],
     generations := (generations m)[nat (slot (tag e)) := generation (tag e)],
     tail := (tail m + 1) mod depth m, next_serial := next_serial m + 1\<rparr>"

lemma allocate_stage_ok:
  assumes ok: "core_ok m" and room: "int (length (entries m)) < depth m"
    and e: "slot (tag e) = tail m" "serial e = next_serial m" "dict_get (tokens m) (tag e) = None"
    and r: "rename e = Some i \<longrightarrow> 0 \<le> i \<and> i < rename_depth m \<and> i \<notin> set (List.map_filter rename (entries m))"
           "rename e = Some i \<or> rename e = None"
    and d: "\<forall>d. dst e = Some d \<longrightarrow> 0 \<le> d \<and> d < 32"
  shows "core_ok (allocate_stage m e)"
proof -
  let ?m = "allocate_stage m e"
  have f: "entries ?m = entries m @ [e]" "depth ?m = depth m" "arch ?m = arch m" "tail ?m = (tail m + 1) mod depth m"
    "rename_depth ?m = rename_depth m" "retired ?m = retired m" "next_serial ?m = next_serial m + 1"
    "tokens ?m = tokens m" "length (generations ?m) = length (generations m)"
    by (simp_all add: allocate_stage_def)
  have "dims_ok ?m" using ok room unfolding core_ok_def dims_ok_def f by auto
  moreover have "ring_ok (depth ?m) (tail ?m) (entries ?m)"
    unfolding f using ok e by (intro ring_snoc) (auto simp: core_ok_def dims_ok_def)
  moreover have "order_ok ?m" using ok e unfolding core_ok_def order_ok_def f
    by (auto simp: sorted_wrt_append ball_Un less_imp_le)
  moreover have "rename_ok ?m"
    using ok r d unfolding core_ok_def rename_ok_def f
    by (auto simp: map_filter_append map_filter_simps split: option.splits)
  moreover have "token_ok ?m" using ok e unfolding core_ok_def token_ok_def f by auto
  ultimately show ?thesis by (simp add: core_ok_def)
qed

section \<open>A step as the composition of its stages\<close>

definition stage1 :: "RecoveryModel \<Rightarrow> StepArgs \<Rightarrow> RecoveryModel" where
  "stage1 m x = (case redirect_decision (entries m) (sa_redirect x) of (accepted, rejected, survivors) \<Rightarrow>
     if accepted then redirect_stage m (length survivors) else m)"

definition stage2 :: "RecoveryModel \<Rightarrow> StepArgs \<Rightarrow> RecoveryModel" where
  "stage2 m x = (let m1 = stage1 m x in
     m1\<lparr>entries := fst (finish_result (tokens m) (entries m1) (sa_result x)),
        tokens := result_tokens (tokens m1) (sa_result x)\<rparr>)"

definition step_commits :: "RecoveryModel \<Rightarrow> StepArgs \<Rightarrow> bool" where
  "step_commits m x = can_commit (entries m) (set (map tag (entries (stage1 m x)))) (sa_retire_ready x)"

definition stage3 :: "RecoveryModel \<Rightarrow> StepArgs \<Rightarrow> RecoveryModel" where
  "stage3 m x = (if step_commits m x then commit_stage (stage2 m x) else stage2 m x)"

definition stage4 :: "RecoveryModel \<Rightarrow> StepArgs \<Rightarrow> RecoveryModel" where
  "stage4 m x = (let m3 = stage3 m x in
     if can_issue (entries m3) (sa_issue x)
     then m3\<lparr>entries := issue_entry (the (sa_issue x)) (entries m3),
             tokens := dict_set (the (sa_issue x)) (sa_producer_kind x) (tokens m3)\<rparr>
     else m3)"

definition step_allocates :: "RecoveryModel \<Rightarrow> StepArgs \<Rightarrow> bool" where
  "step_allocates m x = (sa_allocate x \<and> \<not> fst (redirect_decision (entries m) (sa_redirect x)) \<and>
     int (length (entries m)) < depth m \<and>
     (\<not> (sa_dst x \<noteq> None \<and> \<not> sa_fault x) \<or> free_rename m (entries m) \<noteq> None) \<and>
     dict_get (tokens m) (candidate m) = None)"

definition step_entry :: "RecoveryModel \<Rightarrow> StepArgs \<Rightarrow> Entry" where
  "step_entry m x = new_entry (candidate m) (next_serial m) (sa_dst x) (sa_fault x) (free_rename m (entries m))"

definition stage5 :: "RecoveryModel \<Rightarrow> StepArgs \<Rightarrow> RecoveryModel" where
  "stage5 m x = (if step_allocates m x then allocate_stage (stage4 m x) (step_entry m x) else stage4 m x)"

lemma redirect_decision_cases:
  obtains rej where "redirect_decision pre r = (False, rej, pre)"
  | n where "n \<le> length pre" "redirect_decision pre r = (True, None, take n pre)"
      "n = 0 \<Longrightarrow> pre \<noteq> [] \<Longrightarrow> \<not> is_done (hd pre)"
proof (cases r)
  case None
  then show thesis by (intro that(1)) (simp add: redirect_decision_def)
next
  case (Some rd)
  show thesis
  proof (cases "redirect_cut pre rd")
    case None
    then show thesis using Some by (intro that(1)) (simp add: redirect_decision_def)
  next
    case (Some n)
    have "n \<le> length pre"
      using Some by (auto simp: redirect_cut_def split: option.splits if_splits dest!: find_index_Some)
    then show thesis
      using that Some \<open>r = Some rd\<close> by (cases "n = 0 \<and> pre \<noteq> [] \<and> is_done (hd pre)")
        (auto simp: redirect_decision_def split: if_splits)
  qed
qed

lemma stage1_fields:
  "generations (stage1 m x) = generations m" "arch (stage1 m x) = arch m" "retired (stage1 m x) = retired m"
  "next_serial (stage1 m x) = next_serial m" "depth (stage1 m x) = depth m"
  "rename_depth (stage1 m x) = rename_depth m" "generation_mask (stage1 m x) = generation_mask m"
  "mapping (stage1 m x) = mapping m"
  by (auto simp: stage1_def redirect_stage_def split: prod.splits)

lemma stage1_entries: "\<exists>n. entries (stage1 m x) = take n (entries m)"
proof (rule redirect_decision_cases [of "entries m" "sa_redirect x"])
  fix rej assume "redirect_decision (entries m) (sa_redirect x) = (False, rej, entries m)"
  then have "entries (stage1 m x) = take (length (entries m)) (entries m)" by (simp add: stage1_def)
  then show ?thesis by blast
qed (auto simp: stage1_def redirect_stage_def)

lemma stage1_tokens: "dict_get (tokens (stage1 m x)) t = Some k \<Longrightarrow> dict_get (tokens m) t = Some k"
  by (auto simp: stage1_def redirect_stage_def drop_local_get split: prod.splits if_splits)

lemma issue_update_eq:
  "can_issue es i \<Longrightarrow> update_first (\<lambda>e. Some (tag e) = i) (\<lambda>e. e\<lparr>issued := True\<rparr>) es = issue_entry (the i) es"
  by (auto simp: issue_entry_def can_issue_def split: option.splits)

lemma can_issueE:
  assumes "can_issue es i"
  obtains t e where "i = Some t" "find (\<lambda>e. tag e = t) es = Some e" "\<not> issued e" "\<not> is_done e"
  using assms by (auto simp: can_issue_def split: option.splits)

lemma stage1_decision:
  assumes "redirect_decision (entries m) (sa_redirect x) = (acc, rej, surv)"
  shows "entries (stage1 m x) = surv"
    and "tail (stage1 m x) = (if acc then redirect_tail m (entries m) surv else tail m)"
    and "tokens (stage1 m x) = (if acc then drop_local_tokens (tokens m)
           (filter (\<lambda>t. t \<notin> set (map tag surv)) (map tag (entries m))) else tokens m)"
proof -
  have "acc \<Longrightarrow> surv = take (length surv) (entries m)" "\<not> acc \<Longrightarrow> surv = entries m"
    using assms redirect_decision_cases [of "entries m" "sa_redirect x"] by (metis append_take_drop_id prod.inject length_take min.absorb2)+
  then show "entries (stage1 m x) = surv"
    and "tail (stage1 m x) = (if acc then redirect_tail m (entries m) surv else tail m)"
    and "tokens (stage1 m x) = (if acc then drop_local_tokens (tokens m)
           (filter (\<lambda>t. t \<notin> set (map tag surv)) (map tag (entries m))) else tokens m)"
    using assms by (simp_all add: stage1_def redirect_stage_def)
qed

lemma candidate_same_tail: "candidate (m\<lparr>tail := tail m\<rparr>) = candidate m"
  by (simp add: candidate_def)

lemma step_body_stages:
  "snd (step_body m x) = (stage5 m x)\<lparr>mapping := dst_mapping (entries (stage5 m x))\<rparr>"
proof -
  obtain acc rej surv where d: "redirect_decision (entries m) (sa_redirect x) = (acc, rej, surv)"
    by (metis prod_cases3)
  note s1 = stage1_decision [OF d]
  obtain surv2 fin where f: "finish_result (tokens m) surv (sa_result x) = (surv2, fin)" by fastforce
  define m3 where "m3 = stage3 m x"
  have m3: "m3 = m\<lparr>entries := (if step_commits m x then tl surv2 else surv2),
      tail := (if acc then redirect_tail m (entries m) surv else tail m),
      tokens := result_tokens (tokens (stage1 m x)) (sa_result x),
      arch := (if step_commits m x then commit_head (arch m) (hd surv2) else arch m),
      retired := (if step_commits m x then retired m @ [committed_of (hd surv2)] else retired m)\<rparr>"
    using s1 f stage1_fields [of m x]
    by (simp add: m3_def stage3_def stage2_def commit_stage_def Let_def)
  have c: "step_commits m x = can_commit (entries m) (set (map tag surv)) (sa_retire_ready x)"
    by (simp add: step_commits_def s1)
  define es3 where "es3 = (if step_commits m x then tl surv2 else surv2)"
  define es4 where "es4 = (if can_issue es3 (sa_issue x) then issue_entry (the (sa_issue x)) es3 else es3)"
  define t1 where "t1 = (if acc then redirect_tail m (entries m) surv else tail m)"
  define k1 where "k1 = (if acc then drop_local_tokens (tokens m)
    (filter (\<lambda>t. t \<notin> set (map tag surv)) (map tag (entries m))) else tokens m)"
  define k4 where "k4 = (if can_issue es3 (sa_issue x)
    then dict_set (the (sa_issue x)) (sa_producer_kind x) (result_tokens k1 (sa_result x)) else result_tokens k1 (sa_result x))"
  define a3 where "a3 = (if step_commits m x then commit_head (arch m) (hd surv2) else arch m)"
  define r3 where "r3 = (if step_commits m x then retired m @ [committed_of (hd surv2)] else retired m)"
  have k1: "tokens (stage1 m x) = k1" by (simp only: s1 k1_def)
  have 4: "stage4 m x = m\<lparr>entries := es4, tail := t1, tokens := k4, arch := a3, retired := r3\<rparr>"
    unfolding stage4_def m3_def [symmetric] Let_def m3 k1 es3_def [symmetric] t1_def [symmetric]
      a3_def [symmetric] r3_def [symmetric]
    by (simp add: es4_def k4_def)
  have iss: "(if can_issue es3 (sa_issue x) then update_first (\<lambda>e. Some (tag e) = sa_issue x) (\<lambda>e. e\<lparr>issued := True\<rparr>) es3
      else es3) = es4"
    by (simp add: es4_def issue_update_eq)
  define al where "al = (sa_allocate x \<and> \<not> acc \<and> int (length (entries m)) < depth m \<and>
     (\<not> (sa_dst x \<noteq> None \<and> \<not> sa_fault x) \<or> free_rename m (entries m) \<noteq> None) \<and>
     dict_get (tokens m) (candidate (m\<lparr>tail := t1\<rparr>)) = None)"
  have t1: "m\<lparr>tail := t1\<rparr> = m" if al using that by (simp add: al_def t1_def)
  have al: "step_allocates m x = al"
    using d by (cases acc) (simp_all add: al_def step_allocates_def t1_def candidate_same_tail)
  show ?thesis
    unfolding step_body_def d f Let_def prod.case c [symmetric] snd_conv es3_def [symmetric] t1_def [symmetric]
      k1_def [symmetric] a3_def [symmetric] r3_def [symmetric] k4_def [symmetric] iss al_def [symmetric]
      stage5_def 4 al
    by (cases al) (simp_all add: t1 allocate_stage_def step_entry_def new_entry_def)
qed

lemma step_body_events:
  "ev_finished (fst (step_body m x)) = snd (finish_result (tokens m) (entries (stage1 m x)) (sa_result x))"
  "ev_committed (fst (step_body m x)) =
     (if step_commits m x then Some (committed_of (hd (entries (stage2 m x)))) else None)"
  "ev_killed (fst (step_body m x)) =
     filter (\<lambda>t. t \<notin> set (map tag (entries (stage1 m x)))) (map tag (entries m))"
  "ev_allocated (fst (step_body m x)) = (if step_allocates m x then Some (candidate m) else None)"
  "ev_redirect_accepted (fst (step_body m x)) = fst (redirect_decision (entries m) (sa_redirect x))"
proof -
  obtain acc rej surv where d: "redirect_decision (entries m) (sa_redirect x) = (acc, rej, surv)"
    by (metis prod_cases3)
  obtain surv2 fin where f: "finish_result (tokens m) surv (sa_result x) = (surv2, fin)" by fastforce
  have e2: "entries (stage2 m x) = surv2" using f stage1_decision [OF d] by (simp add: stage2_def Let_def)
  show "ev_finished (fst (step_body m x)) = snd (finish_result (tokens m) (entries (stage1 m x)) (sa_result x))"
    "ev_committed (fst (step_body m x)) =
     (if step_commits m x then Some (committed_of (hd (entries (stage2 m x)))) else None)"
    "ev_killed (fst (step_body m x)) =
     filter (\<lambda>t. t \<notin> set (map tag (entries (stage1 m x)))) (map tag (entries m))"
    "ev_redirect_accepted (fst (step_body m x)) = fst (redirect_decision (entries m) (sa_redirect x))"
    using d f e2 stage1_decision [OF d] by (simp_all add: step_body_def Let_def step_commits_def)
  show "ev_allocated (fst (step_body m x)) = (if step_allocates m x then Some (candidate m) else None)"
    using d f by (cases acc) (auto simp: step_body_def Let_def step_allocates_def candidate_same_tail)
qed

section \<open>Every step keeps the invariant\<close>

lemma stage1_ok: "core_ok m \<Longrightarrow> core_ok (stage1 m x)"
  using redirect_decision_cases [of "entries m" "sa_redirect x"]
  by (smt (verit, ccfv_threshold) case_prod_conv length_take min.absorb2 redirect_stage_ok stage1_def)

lemma finish_result_cases:
  obtains "fst (finish_result toks es r) = es" "snd (finish_result toks es r) = None"
  | t v e where "r = Some (t, v)" "find (\<lambda>e. tag e = t) es = Some e" "\<not> is_done e" "dict_get toks t \<noteq> None"
      "finish_result toks es r = (finish_entry t v es, Some t)"
proof (cases "\<exists>t v e. r = Some (t, v) \<and> find (\<lambda>e. tag e = t) es = Some e \<and> \<not> is_done e \<and> dict_get toks t \<noteq> None")
  case True
  then show thesis by (auto simp: finish_result_def finish_entry_def intro: that(2))
next
  case False
  then have "finish_result toks es r = (es, None)"
    by (auto simp: finish_result_def split: option.splits prod.splits)
  then show thesis by (intro that(1)) simp_all
qed

lemma stage2_ok:
  assumes "core_ok m"
  shows "core_ok (stage2 m x)"
proof -
  let ?m1 = "stage1 m x"
  have m1: "core_ok ?m1" by (rule stage1_ok [OF assms])
  have pop: "core_ok (?m1\<lparr>tokens := result_tokens (tokens ?m1) (sa_result x)\<rparr>)"
    using m1 pop_ok by (auto simp: result_tokens_def split: option.splits prod.splits)
  show ?thesis
  proof (rule finish_result_cases [of "tokens m" "entries ?m1" "sa_result x"])
    assume "fst (finish_result (tokens m) (entries ?m1) (sa_result x)) = entries ?m1"
    moreover have "?m1\<lparr>entries := entries ?m1, tokens := u\<rparr> = ?m1\<lparr>tokens := u\<rparr>" for u by simp
    ultimately show ?thesis using pop by (simp add: stage2_def Let_def)
  next
    fix t v assume "sa_result x = Some (t, v)"
      "finish_result (tokens m) (entries ?m1) (sa_result x) = (finish_entry t v (entries ?m1), Some t)"
    then show ?thesis using finish_stage_ok [OF m1, of t v] by (simp add: stage2_def Let_def result_tokens_def)
  qed
qed

lemma stage2_tags: "map tag (entries (stage2 m x)) = map tag (entries (stage1 m x))"
  by (rule finish_result_cases [of "tokens m" "entries (stage1 m x)" "sa_result x"])
     (simp_all add: stage2_def Let_def)

lemma finish_done_head:
  assumes "is_done (hd es)" "es \<noteq> []" "distinct (map tag es)"
  shows "hd (fst (finish_result toks es r)) = hd es"
proof (rule finish_result_cases [of toks es r])
  fix t v e assume f: "find (\<lambda>e. tag e = t) es = Some e" "\<not> is_done e"
    and r: "finish_result toks es r = (finish_entry t v es, Some t)"
  obtain h es' where es: "es = h # es'" using assms(2) by (cases es) auto
  have "tag h \<noteq> t" using f assms(1) es by (auto split: if_splits)
  then show ?thesis using r es by (simp add: finish_entry_def)
qed simp

lemma step_commits_head:
  assumes "core_ok m" "step_commits m x"
  shows "entries m \<noteq> []" "is_done (hd (entries m))" "entries (stage2 m x) \<noteq> []"
    "hd (entries (stage2 m x)) = hd (entries m)" "hd (entries (stage1 m x)) = hd (entries m)"
    "entries (stage1 m x) \<noteq> []"
proof -
  obtain h es where m: "entries m = h # es" and c: "is_done h" "tag h \<in> set (map tag (entries (stage1 m x)))"
    using assms(2) by (auto simp: step_commits_def can_commit_def split: list.splits)
  obtain n where n: "entries (stage1 m x) = take n (entries m)" using stage1_entries by blast
  then have "n \<noteq> 0" using c by (cases "n = 0") auto
  then show s1: "hd (entries (stage1 m x)) = hd (entries m)" "entries (stage1 m x) \<noteq> []"
    using n m by (auto simp: take_Cons split: nat.splits)
  show "entries m \<noteq> []" "is_done (hd (entries m))" using m c by auto
  show "entries (stage2 m x) \<noteq> []" using stage2_tags [of m x] s1 by auto
  have "distinct (map tag (entries (stage1 m x)))"
    by (rule core_tags_distinct [OF stage1_ok [OF assms(1)]])
  from finish_done_head [OF _ s1(2) this, of "tokens m" "sa_result x"]
  show "hd (entries (stage2 m x)) = hd (entries m)"
    using s1 m c by (simp add: stage2_def Let_def)
qed

lemma stage3_ok: "core_ok m \<Longrightarrow> core_ok (stage3 m x)"
  using stage2_ok [of m x] commit_stage_ok [of "stage2 m x"] step_commits_head [of m x]
  by (simp add: stage3_def)

definition kind_ok :: "StepArgs \<Rightarrow> bool" where
  "kind_ok x \<longleftrightarrow> sa_producer_kind x \<in> {''local'', ''external''}"

definition dst_ok :: "StepArgs \<Rightarrow> bool" where
  "dst_ok x \<longleftrightarrow> (case sa_dst x of None \<Rightarrow> True | Some d \<Rightarrow> 0 \<le> d \<and> d < 32)"

lemma stage4_ok:
  assumes "core_ok m" "kind_ok x"
  shows "core_ok (stage4 m x)"
proof (cases "can_issue (entries (stage3 m x)) (sa_issue x)")
  case True
  then obtain t e where "sa_issue x = Some t" "find (\<lambda>e. tag e = t) (entries (stage3 m x)) = Some e" "\<not> is_done e"
    by (rule can_issueE)
  then show ?thesis
    using issue_stage_ok [OF stage3_ok [OF assms(1)]] True assms(2)
    by (simp add: stage4_def Let_def kind_ok_def)
qed (simp add: stage4_def Let_def stage3_ok assms)

lemma stage4_frame:
  "next_serial (stage4 m x) = next_serial m" "depth (stage4 m x) = depth m"
  "rename_depth (stage4 m x) = rename_depth m" "generations (stage4 m x) = generations m"
  "tail (stage4 m x) = tail (stage1 m x)"
  by (simp_all add: stage4_def stage3_def stage2_def commit_stage_def stage1_fields Let_def)

lemma stage2_renames:
  "List.map_filter rename (entries (stage2 m x)) = List.map_filter rename (entries (stage1 m x))"
  by (rule finish_result_cases [of "tokens m" "entries (stage1 m x)" "sa_result x"])
     (simp_all add: stage2_def Let_def)

lemma stage4_shrinks:
  "set (map tag (entries (stage4 m x))) \<subseteq> set (map tag (entries m))"
  "length (entries (stage4 m x)) \<le> length (entries m)"
  "set (List.map_filter rename (entries (stage4 m x))) \<subseteq> set (List.map_filter rename (entries m))"
proof -
  obtain n where n: "entries (stage1 m x) = take n (entries m)" using stage1_entries by blast
  have t3: "\<exists>k. map tag (entries (stage3 m x)) = drop k (map tag (entries (stage2 m x)))"
    by (cases "step_commits m x")
       (auto simp: stage3_def commit_stage_def map_tl drop_Suc intro: exI [of _ 0] exI [of _ "Suc 0"])
  then obtain k where k: "map tag (entries (stage3 m x)) = drop k (map tag (take n (entries m)))"
    using stage2_tags [of m x] n by metis
  have t4: "map tag (entries (stage4 m x)) = map tag (entries (stage3 m x))"
    by (simp add: stage4_def Let_def)
  show "set (map tag (entries (stage4 m x))) \<subseteq> set (map tag (entries m))"
    unfolding t4 k by (metis order_trans set_drop_subset set_take_subset take_map)
  have "length (map tag (entries (stage4 m x))) \<le> length (map tag (entries m))" unfolding t4 k by simp
  then show "length (entries (stage4 m x)) \<le> length (entries m)" by simp
  have "List.map_filter rename (entries (stage4 m x)) = List.map_filter rename (entries (stage3 m x))"
    by (simp add: stage4_def Let_def)
  moreover have "set (List.map_filter rename (entries (stage3 m x))) \<subseteq> set (List.map_filter rename (entries (stage2 m x)))"
    by (auto simp: stage3_def commit_stage_def set_map_filter dest: list.set_sel(2) [rotated])
       (metis list.sel(2) list.set_sel(2))
  moreover have "set (List.map_filter rename (entries (stage1 m x))) \<subseteq> set (List.map_filter rename (entries m))"
    using n by (auto simp: set_map_filter dest: in_set_takeD)
  ultimately show "set (List.map_filter rename (entries (stage4 m x))) \<subseteq> set (List.map_filter rename (entries m))"
    using stage2_renames [of m x] by simp
qed

lemma stage4_tokens:
  assumes "dict_get (tokens (stage4 m x)) t \<noteq> None"
  shows "dict_get (tokens m) t \<noteq> None \<or> t \<in> set (map tag (entries (stage4 m x)))"
proof -
  have 2: "dict_get (tokens m) t \<noteq> None" if "dict_get (tokens (stage3 m x)) t \<noteq> None"
    using that stage1_tokens [of m x t]
    by (auto simp: stage3_def stage2_def commit_stage_def Let_def result_tokens_def dict_get_pop
        split: option.splits if_splits prod.splits)
  show ?thesis
  proof (cases "can_issue (entries (stage3 m x)) (sa_issue x)")
    case True
    then obtain u e where u: "sa_issue x = Some u" "find (\<lambda>e. tag e = u) (entries (stage3 m x)) = Some e"
      by (rule can_issueE)
    then have "u \<in> set (map tag (entries (stage3 m x)))" using find_Some_iff2 by fastforce
    moreover have "map tag (entries (stage4 m x)) = map tag (entries (stage3 m x))"
      by (simp add: stage4_def Let_def)
    ultimately show ?thesis using assms 2 True u
      by (auto simp: stage4_def Let_def dict_get_set split: if_splits)
  qed (use assms 2 in \<open>simp add: stage4_def Let_def\<close>)
qed

lemma free_rename_Some:
  assumes "free_rename m pre = Some i"
  shows "0 \<le> i \<and> i < rename_depth m \<and> i \<notin> set (List.map_filter rename pre)"
  using find_Some_iff2 [OF assms [unfolded free_rename_def]] by auto

lemma candidate_fresh:
  assumes "core_ok m" "int (length (entries m)) < depth m"
  shows "candidate m \<notin> set (map tag (entries m))"
proof -
  have "slot (candidate m) = tail m" by (simp add: candidate_def)
  moreover have "\<forall>e \<in> set (entries m). slot (tag e) \<noteq> tail m"
    using assms ring_tail_free [of "depth m" "tail m" "entries m"] by (simp add: core_ok_def dims_ok_def)
  ultimately show ?thesis by (metis imageE list.set_map)
qed

lemma stage5_ok:
  assumes ok: "core_ok m" and x: "kind_ok x" "dst_ok x"
  shows "core_ok (stage5 m x)"
proof (cases "step_allocates m x")
  case True
  let ?m = "stage4 m x" and ?e = "step_entry m x"
  have c4: "core_ok ?m" by (rule stage4_ok [OF ok x(1)])
  have tail: "tail ?m = tail m"
    using True by (auto simp: stage4_frame stage1_def step_allocates_def split: prod.splits)
  have room: "int (length (entries m)) < depth m" and tok: "dict_get (tokens m) (candidate m) = None"
    and fr: "sa_dst x \<noteq> None \<and> \<not> sa_fault x \<longrightarrow> free_rename m (entries m) \<noteq> None"
    using True by (auto simp: step_allocates_def)
  have slot_c: "slot (candidate m) = tail m" by (simp add: candidate_def)
  have fresh: "candidate m \<notin> set (map tag (entries m))" by (rule candidate_fresh [OF ok room])
  show ?thesis
  proof -
    have "core_ok (allocate_stage ?m ?e)"
    proof (rule allocate_stage_ok [OF c4, where i = "the (free_rename m (entries m))"])
      show "int (length (entries ?m)) < depth ?m"
        using room stage4_shrinks(2) [of m x] by (simp add: stage4_frame)
      show "slot (tag ?e) = tail ?m" by (simp add: step_entry_def new_entry_def slot_c tail)
      show "serial ?e = next_serial ?m" by (simp add: step_entry_def new_entry_def stage4_frame)
      show "dict_get (tokens ?m) (tag ?e) = None"
        using stage4_tokens [of m x "candidate m"] tok fresh stage4_shrinks(1) [of m x]
        by (simp add: step_entry_def new_entry_def) (metis not_None_eq subsetD)
      show "rename ?e = Some (the (free_rename m (entries m))) \<longrightarrow>
          0 \<le> the (free_rename m (entries m)) \<and> the (free_rename m (entries m)) < rename_depth ?m \<and>
          the (free_rename m (entries m)) \<notin> set (List.map_filter rename (entries ?m))"
        using fr free_rename_Some [of m "entries m"] stage4_shrinks(3) [of m x]
        by (auto simp: step_entry_def new_entry_def stage4_frame split: if_splits)
      show "rename ?e = Some (the (free_rename m (entries m))) \<or> rename ?e = None"
        using fr by (auto simp: step_entry_def new_entry_def)
      show "\<forall>d. dst ?e = Some d \<longrightarrow> 0 \<le> d \<and> d < 32"
        using x(2) by (auto simp: step_entry_def new_entry_def dst_ok_def)
    qed
    then show ?thesis using True by (simp add: stage5_def)
  qed
qed (simp add: stage5_def stage4_ok ok x)

section \<open>The assertions hold\<close>

lemma sorted_wrt_less_distinct: "sorted_wrt (<) (xs :: int list) \<Longrightarrow> sorted xs \<and> distinct xs"
  by (simp add: strict_sorted_iff)

lemma ring_zip:
  assumes "ring_ok d t es"
  shows "list_all (\<lambda>(older, younger). slot (tag younger) = (slot (tag older) + 1) mod d) (zip es (tl es))"
proof -
  have "slot (tag (es ! Suc i)) = (slot (tag (es ! i)) + 1) mod d" if "Suc i < length es" for i
    using assms that by (simp add: ring_ok_def mod_simps algebra_simps)
  then show ?thesis by (auto simp: list_all_length nth_tl)
qed

lemma renames_bounded:
  assumes "rename_ok m" "1 \<le> rename_depth m"
  shows "int (card (set (List.map_filter rename (entries m)))) \<le> rename_depth m"
proof -
  have "set (List.map_filter rename (entries m)) \<subseteq> {0..<rename_depth m}"
    using assms(1) by (auto simp: rename_ok_def)
  then have "card (set (List.map_filter rename (entries m))) \<le> card {0..<rename_depth m}"
    by (rule card_mono [rotated]) simp
  then show ?thesis using assms(2) by simp
qed

lemma check_invariants_ok:
  assumes "recovery_ok m"
  shows "check_invariants m = Inr ()"
proof -
  have ok: "dims_ok m" "ring_ok (depth m) (tail m) (entries m)" "order_ok m" "rename_ok m" "token_ok m"
    "mapping m = dst_mapping (entries m)"
    using assms by (auto simp: recovery_ok_def core_ok_def)
  have "distinct (map (\<lambda>e. slot (tag e)) (entries m))"
    using ring_slots_distinct [OF ok(2)] ok(1) by (simp add: dims_ok_def)
  note slots = distinct_card [OF this]
  have ser: "sorted (map serial (entries m))" "distinct (map serial (entries m))"
    using ok(3) sorted_wrt_less_distinct by (auto simp: order_ok_def sorted_wrt_append)
  have ren: "length (List.map_filter rename (entries m)) = card (set (List.map_filter rename (entries m)))"
    using ok(4) distinct_card by (fastforce simp: rename_ok_def)
  have last: "entries m \<noteq> [] \<longrightarrow> tail m = (slot (tag (last (entries m))) + 1) mod depth m"
    using ring_last [OF ok(2)] ok(1) by (auto simp: dims_ok_def)
  have tok: "list_all (\<lambda>(t, kind). t \<notin> set (map tag (entries m)) \<longrightarrow> kind = ''external'') (tokens m)"
    using ok(5) by (auto simp: token_ok_def list_all_iff dict_item_iff)
  have dn: "list_all (\<lambda>e. \<not> is_done e \<or> dict_get (tokens m) (tag e) = None) (entries m)"
    using ok(5) by (auto simp: token_ok_def list_all_iff)
  show ?thesis
    unfolding check_invariants_def Let_def
    using ok(1,6) slots distinct_card [OF ser(2)] sorted_sort_id [OF ser(1)] ren renames_bounded [OF ok(4)]
      ring_zip [OF ok(2)] last tok dn
    by (auto simp: dims_ok_def)
qed

lemma step_body_ok:
  assumes "recovery_ok m" "kind_ok x" "dst_ok x"
  shows "recovery_ok (snd (step_body m x))"
proof -
  have "core_ok (stage5 m x)" using assms stage5_ok by (simp add: recovery_ok_def)
  then show ?thesis unfolding step_body_stages by (simp add: recovery_ok_def core_defs)
qed

text \<open>A step with admissible arguments returns; otherwise it raises before touching the model.\<close>

lemma step_eq:
  assumes "recovery_ok m"
  shows "step m x = (if \<not> dst_ok x then (Inl (ValueError ''GPR index out of range''), m)
     else if \<not> kind_ok x then (Inl (ValueError ''unknown producer cancellation kind''), m)
     else (Inr (fst (step_body m x)), snd (step_body m x)))"
  using check_invariants_ok [OF step_body_ok [OF assms, of x]]
  unfolding step_def dst_ok_def [symmetric] kind_ok_def [symmetric] case_prod_beta by simp

definition step_model :: "RecoveryModel \<Rightarrow> StepArgs \<Rightarrow> RecoveryModel" where
  "step_model m x = snd (step m x)"

interpretation recovery: stepper step_model "\<lambda>_. True" recovery_ok
  by unfold_locales (simp add: step_model_def step_eq step_body_ok)

section \<open>Serial numbers\<close>

text \<open>A serial that was handed out and is neither queued nor retired.\<close>

definition dead :: "int \<Rightarrow> RecoveryModel \<Rightarrow> bool" where
  "dead s m \<longleftrightarrow> s < next_serial m \<and> s \<notin> set (map serial (entries m)) \<and> s \<notin> set (map fst (retired m))"

lemma stage2_serials: "map serial (entries (stage2 m x)) = map serial (entries (stage1 m x))"
  by (rule finish_result_cases [of "tokens m" "entries (stage1 m x)" "sa_result x"])
     (simp_all add: stage2_def Let_def)

lemma stage4_serials: "map serial (entries (stage4 m x)) = map serial (entries (stage3 m x))"
  by (simp add: stage4_def Let_def)

lemma stage3_log:
  "map serial (entries (stage1 m x)) = (if step_commits m x then [serial (hd (entries (stage2 m x)))] else []) @
     map serial (entries (stage3 m x))" if "step_commits m x \<Longrightarrow> entries (stage2 m x) \<noteq> []"
  using stage2_serials [of m x] that by (auto simp: stage3_def commit_stage_def) (metis list.collapse list.simps(9))

lemma stage4_retired:
  "retired (stage4 m x) = retired m @ (if step_commits m x then [committed_of (hd (entries (stage2 m x)))] else [])"
  by (simp add: stage4_def stage3_def stage2_def commit_stage_def stage1_fields Let_def)

lemma step_body_log:
  assumes "core_ok m"
  shows "map fst (retired (snd (step_body m x))) @ map serial (entries (snd (step_body m x))) =
    map fst (retired m) @ map serial (entries (stage1 m x)) @ (if step_allocates m x then [next_serial m] else [])"
    and "next_serial (snd (step_body m x)) = next_serial m + (if step_allocates m x then 1 else 0)"
    and "retired (snd (step_body m x)) =
           retired m @ (case ev_committed (fst (step_body m x)) of None \<Rightarrow> [] | Some c \<Rightarrow> [c])"
proof -
  have "step_commits m x \<Longrightarrow> entries (stage2 m x) \<noteq> []" using step_commits_head(3) [OF assms] .
  note log = stage3_log [OF this]
  show "map fst (retired (snd (step_body m x))) @ map serial (entries (snd (step_body m x))) =
      map fst (retired m) @ map serial (entries (stage1 m x)) @ (if step_allocates m x then [next_serial m] else [])"
    using log unfolding step_body_stages
    by (auto simp: stage5_def allocate_stage_def stage4_serials stage4_retired committed_of_def step_entry_def new_entry_def)
  show "next_serial (snd (step_body m x)) = next_serial m + (if step_allocates m x then 1 else 0)"
    unfolding step_body_stages by (simp add: stage5_def allocate_stage_def stage4_frame)
  show "retired (snd (step_body m x)) =
      retired m @ (case ev_committed (fst (step_body m x)) of None \<Rightarrow> [] | Some c \<Rightarrow> [c])"
    unfolding step_body_stages
    by (simp add: stage5_def allocate_stage_def stage4_retired step_body_events)
qed

lemma step_body_dead:
  assumes "core_ok m" "s < next_serial m" "s \<notin> set (map serial (entries (stage1 m x)))" "s \<notin> set (map fst (retired m))"
  shows "dead s (snd (step_body m x))"
proof -
  have "s \<notin> set (map fst (retired (snd (step_body m x))) @ map serial (entries (snd (step_body m x))))"
    unfolding step_body_log(1) [OF assms(1)] using assms by auto
  then show ?thesis using assms(2) step_body_log(2) [OF assms(1), of x] by (simp add: dead_def)
qed

lemma step_dead:
  assumes "recovery_ok m" "dead s m"
  shows "dead s (step_model m x)"
proof -
  have core: "core_ok m" using assms(1) by (simp add: recovery_ok_def)
  obtain n where "entries (stage1 m x) = take n (entries m)" using stage1_entries by blast
  then have "s \<notin> set (map serial (entries (stage1 m x)))"
    using assms(2) by (auto simp: dead_def dest: in_set_takeD)
  then show ?thesis
    using assms step_body_dead [OF core] by (auto simp: step_model_def step_eq dead_def)
qed

lemma killed_dead:
  assumes ok: "recovery_ok m" and e: "e \<in> set (entries m)" and k: "tag e \<in> set (ev_killed (fst (step_body m x)))"
  shows "dead (serial e) (snd (step_body m x))"
proof -
  have core: "core_ok m" using ok by (simp add: recovery_ok_def)
  have ord: "sorted_wrt (<) (map fst (retired m) @ map serial (entries m))"
    "\<forall>s \<in> set (map fst (retired m) @ map serial (entries m)). s < next_serial m"
    using core by (auto simp: core_ok_def order_ok_def)
  then have dist: "distinct (map fst (retired m) @ map serial (entries m))"
    using sorted_wrt_less_distinct by blast
  obtain n where n: "entries (stage1 m x) = take n (entries m)" using stage1_entries by blast
  have "e \<notin> set (take n (entries m))" using k n by (auto simp: step_body_events)
  moreover have "inj_on serial (set (entries m))" using dist by (simp add: distinct_map)
  ultimately have "serial e \<notin> set (map serial (entries (stage1 m x)))"
    using e n by (auto dest: in_set_takeD inj_onD)
  moreover have "serial e \<notin> set (map fst (retired m))" using dist e by auto
  ultimately show ?thesis using ord(2) e by (intro step_body_dead [OF core]) auto
qed

section \<open>What happens to one entry\<close>

lemma stage5_entry_cases:
  assumes "e \<in> set (entries (snd (step_body m x)))" "core_ok m"
  obtains "step_allocates m x" "e = step_entry m x"
  | e3 where "e3 \<in> set (entries (stage3 m x))" "e = e3 \<or> e = e3\<lparr>issued := True\<rparr>"
proof -
  have "e \<in> set (entries (stage4 m x)) \<or> step_allocates m x \<and> e = step_entry m x"
    using assms(1) unfolding step_body_stages
    by (auto simp: stage5_def allocate_stage_def split: if_splits)
  moreover have "\<exists>e3 \<in> set (entries (stage3 m x)). e = e3 \<or> e = e3\<lparr>issued := True\<rparr>" if "e \<in> set (entries (stage4 m x))"
    using that set_update_first [of e _ _ "entries (stage3 m x)"]
    by (auto simp: stage4_def Let_def issue_entry_def split: if_splits)
  ultimately show thesis using that by blast
qed

lemma stage3_entry_old:
  assumes "e \<in> set (entries (stage3 m x))" "core_ok m"
  obtains e0 where "e0 \<in> set (entries m)" "e0 \<in> set (entries (stage1 m x))"
    "e = (if ev_finished (fst (step_body m x)) = Some (tag e0)
          then e0\<lparr>is_done := True, val := snd (the (sa_result x)) AND 0xFFFFFFFF\<rparr> else e0)"
proof -
  let ?es = "entries (stage1 m x)"
  have e2: "e \<in> set (entries (stage2 m x))"
    using assms(1) by (auto simp: stage3_def commit_stage_def split: if_splits) (metis list.sel(2) list.set_sel(2))
  have sub: "set ?es \<subseteq> set (entries m)" using stage1_entries [of m x] by (auto dest: in_set_takeD)
  have fin: "ev_finished (fst (step_body m x)) = snd (finish_result (tokens m) ?es (sa_result x))"
    by (rule step_body_events)
  show thesis
  proof (rule finish_result_cases [of "tokens m" ?es "sa_result x"])
    assume "fst (finish_result (tokens m) ?es (sa_result x)) = ?es"
      "snd (finish_result (tokens m) ?es (sa_result x)) = None"
    then have "e \<in> set ?es" "ev_finished (fst (step_body m x)) = None"
      using e2 fin by (simp_all add: stage2_def Let_def)
    then show thesis using sub by (intro that [of e]) auto
  next
    fix t v e' assume r: "sa_result x = Some (t, v)"
      "finish_result (tokens m) ?es (sa_result x) = (finish_entry t v ?es, Some t)"
    then have "e \<in> set (finish_entry t v ?es)" "ev_finished (fst (step_body m x)) = Some t"
      using e2 fin by (simp_all add: stage2_def Let_def)
    moreover have "distinct (map tag ?es)" by (rule core_tags_distinct [OF stage1_ok [OF assms(2)]])
    ultimately show thesis
      using r sub by (elim finish_entry_cases) (auto intro: that)
  qed
qed

lemma finished_owner:
  assumes "core_ok m" "ev_finished (fst (step_body m x)) = Some t"
  obtains e v where "sa_result x = Some (t, v)" "e \<in> set (entries (stage1 m x))" "tag e = t" "issued e" "\<not> is_done e"
    "dict_get (tokens m) t \<noteq> None"
proof (rule finish_result_cases [of "tokens m" "entries (stage1 m x)" "sa_result x"])
  assume "snd (finish_result (tokens m) (entries (stage1 m x)) (sa_result x)) = None"
  then show thesis using assms(2) by (simp add: step_body_events)
next
  fix u v e
  assume r: "sa_result x = Some (u, v)" "find (\<lambda>e. tag e = u) (entries (stage1 m x)) = Some e" "\<not> is_done e"
    "dict_get (tokens m) u \<noteq> None"
    "finish_result (tokens m) (entries (stage1 m x)) (sa_result x) = (finish_entry u v (entries (stage1 m x)), Some u)"
  then have t: "u = t" using assms(2) by (simp add: step_body_events)
  have e: "e \<in> set (entries (stage1 m x))" "tag e = u" using find_Some_iff2 [OF r(2)] by auto
  then have "e \<in> set (entries m)" using stage1_entries [of m x] by (auto dest: in_set_takeD)
  then have "issued e" using assms(1) r(4) e(2) by (auto simp: core_ok_def token_ok_def)
  then show thesis using r e t by (intro that [of v e]) auto
qed

section \<open>Reading an operand\<close>

lemma map_of_dst_list:
  "map_of (List.map_filter (\<lambda>e. map_option (\<lambda>d. (d, tag e)) (dst e)) es) r =
   map_option tag (find (\<lambda>e. dst e = Some r) es)"
  by (induction es) (auto simp: map_filter_simps split: option.splits)

lemma map_filter_rev: "rev (List.map_filter f xs) = List.map_filter f (rev xs)"
  by (induction xs) (auto simp: map_filter_simps map_filter_append split: option.splits)

lemma dst_mapping_get: "dict_get (dst_mapping es) r = map_option tag (find (\<lambda>e. dst e = Some r) (rev es))"
  by (simp add: dst_mapping_def dict_get_of map_filter_rev map_of_dst_list)

lemma find_by_tag:
  assumes "distinct (map tag es)" "e \<in> set es"
  shows "find (\<lambda>e'. tag e' = tag e) es = Some e"
  using assms by (induction es) auto

section \<open>Properties\<close>

text \<open>
  C1: no sequence of steps ever fails an assertion.  From any constructed model
  and after any arguments (any tags, results, redirects, in any interleaving),
  \<open>check_invariants\<close> passes; the next step returns its events, or its arguments
  are refused with a \<open>ValueError\<close> and the model is untouched.
\<close>

theorem recovery_never_asserts:
  assumes "RecoveryModel_init d r g = Inr m"
  shows "let m' = foldl step_model m xs in
    recovery_ok m' \<and> check_invariants m' = Inr () \<and>
    (case step m' x of
       (Inr ev, m'') \<Rightarrow> dst_ok x \<and> kind_ok x \<and> recovery_ok m''
     | (Inl err, m'') \<Rightarrow> \<not> (dst_ok x \<and> kind_ok x) \<and> m'' = m' \<and>
         err \<in> {ValueError ''GPR index out of range'', ValueError ''unknown producer cancellation kind''})"
proof -
  have ok: "recovery_ok (foldl step_model m xs)"
    by (rule recovery.run_inv [OF init_recovery_ok [OF assms]]) (simp add: list_all_iff)
  then show ?thesis
    using check_invariants_ok [OF ok] step_body_ok [OF ok, of x] by (simp add: Let_def step_eq)
qed

definition idle_args :: StepArgs where
  "idle_args = \<lparr>sa_allocate = False, sa_dst = None, sa_fault = False, sa_issue = None,
     sa_producer_kind = ''local'', sa_result = None, sa_redirect = None, sa_retire_ready = False\<rparr>"

definition small_model :: RecoveryModel where
  "small_model = \<lparr>depth = 2, rename_depth = 1, generation_mask = 1, entries = [], generations = [0, 0],
     tail = 0, tokens = [], arch = replicate 32 0, mapping = [], next_serial = 0, retired = []\<rparr>"

lemma small_model_init: "RecoveryModel_init 2 1 1 = Inr small_model"
  by (simp add: RecoveryModel_init_def reset_def small_model_def numeral_eq_Suc)

theorem recovery_never_asserts_witness:
  "check_invariants (foldl step_model small_model
     [idle_args\<lparr>sa_allocate := True, sa_dst := Some 3\<rparr>, idle_args\<lparr>sa_issue := Some \<lparr>slot = 0, generation = 1\<rparr>\<rparr>]) = Inr ()"
  using recovery_never_asserts [OF small_model_init, of "[idle_args\<lparr>sa_allocate := True, sa_dst := Some 3\<rparr>,
      idle_args\<lparr>sa_issue := Some \<lparr>slot = 0, generation = 1\<rparr>\<rparr>]" idle_args]
  by (simp only: Let_def simp_thms)

text \<open>
  C10: instructions retire in program order and the log only grows.  The serial
  numbers of the retirement log are strictly increasing along every run, the
  earlier log is a prefix of the later one, and every retired serial is older than
  every one still queued.
\<close>

theorem retirement_in_order:
  assumes "recovery_ok m"
  shows "let m' = foldl step_model m xs in
    sorted_wrt (<) (map fst (retired m') @ map serial (entries m')) \<and>
    (\<exists>more. retired m' = retired m @ more)"
proof -
  have ok: "recovery_ok (foldl step_model m xs)"
    by (rule recovery.run_inv [OF assms]) (simp add: list_all_iff)
  have one: "\<exists>more. retired (step_model m x) = retired m @ more" if "recovery_ok m" for m x
    using that step_body_log(3) [of m x] by (auto simp: step_model_def step_eq recovery_ok_def)
  have "\<exists>more. retired (foldl step_model m xs) = retired m @ more"
    by (rule recovery.run_rel [OF assms, where R = "\<lambda>a b. \<exists>more. retired b = retired a @ more"])
       (auto simp: list_all_iff intro: one)
  then show ?thesis using ok by (simp add: Let_def recovery_ok_def core_ok_def order_ok_def)
qed

theorem retirement_in_order_witness:
  "sorted_wrt (<) (map fst (retired (foldl step_model small_model
     [idle_args\<lparr>sa_allocate := True, sa_fault := True\<rparr>, idle_args\<lparr>sa_retire_ready := True\<rparr>])))"
  using retirement_in_order [OF init_recovery_ok [OF small_model_init], of
     "[idle_args\<lparr>sa_allocate := True, sa_fault := True\<rparr>, idle_args\<lparr>sa_retire_ready := True\<rparr>]"]
  by (simp only: Let_def sorted_wrt_append)

text \<open>
  C11: a killed instruction never commits.  Once a redirect kills an entry, its
  serial is neither in the queue nor in the retirement log, on this step or after
  any further steps.
\<close>

theorem killed_never_retires:
  assumes "recovery_ok m" and "step m x = (Inr ev, m')"
    and "e \<in> set (entries m)" and "tag e \<in> set (ev_killed ev)"
  shows "serial e \<notin> set (map fst (retired (foldl step_model m' xs))) \<and>
    serial e \<notin> set (map serial (entries (foldl step_model m' xs)))"
proof -
  have m': "ev = fst (step_body m x)" "m' = snd (step_body m x)" "recovery_ok m'"
    using assms(1,2) step_body_ok [OF assms(1), of x] by (auto simp: step_eq split: if_splits)
  have "dead (serial e) m'" using killed_dead [OF assms(1,3)] assms(4) m' by simp
  moreover have "dead (serial e) m' \<longrightarrow> dead (serial e) (foldl step_model m' xs)"
    by (rule recovery.run_rel [OF m'(3), where R = "\<lambda>a b. dead (serial e) a \<longrightarrow> dead (serial e) b"])
       (auto simp: list_all_iff intro: step_dead)
  ultimately show ?thesis by (simp add: dead_def)
qed

definition one_entry :: RecoveryModel where
  "one_entry = step_model small_model (idle_args\<lparr>sa_allocate := True, sa_dst := Some 3\<rparr>)"

lemma one_entry_eq:
  "one_entry = small_model\<lparr>entries := [\<lparr>tag = \<lparr>slot = 0, generation = 1\<rparr>, serial = 0, dst = Some 3, rename = Some 0,
     is_done = False, val = 0, fault = False, issued = False\<rparr>], generations := [1, 0], tail := 1,
     mapping := [(3, \<lparr>slot = 0, generation = 1\<rparr>)], next_serial := 1\<rparr>"
  by (simp add: one_entry_def step_model_def step_def step_body_def redirect_decision_def idle_args_def
      small_model_def result_tokens_def finish_result_def can_commit_def can_issue_def free_rename_def
      candidate_def new_entry_def dst_mapping_def dict_of_def check_invariants_def map_filter_simps Let_def upto.simps)

lemma one_entry_ok: "recovery_ok one_entry"
  unfolding one_entry_def by (rule recovery.step_inv [OF init_recovery_ok [OF small_model_init]]) simp

theorem killed_never_retires_witness:
  "let x = idle_args\<lparr>sa_redirect := Some \<lparr>rd_target = 0x100, rd_pivot = None, rd_keep_pivot = False\<rparr>\<rparr>
   in 0 \<notin> set (map fst (retired (foldl step_model (step_model one_entry x) [idle_args\<lparr>sa_retire_ready := True\<rparr>])))"
proof -
  let ?x = "idle_args\<lparr>sa_redirect := Some \<lparr>rd_target = 0x100, rd_pivot = None, rd_keep_pivot = False\<rparr>\<rparr>"
  have dk: "dst_ok ?x" "kind_ok ?x" by (simp_all add: dst_ok_def kind_ok_def idle_args_def)
  have s: "step one_entry ?x = (Inr (fst (step_body one_entry ?x)), step_model one_entry ?x)"
    using step_eq [OF one_entry_ok, of ?x] dk by (simp add: step_model_def)
  have k: "\<lparr>slot = 0, generation = 1\<rparr> \<in> set (ev_killed (fst (step_body one_entry ?x)))"
    by (simp add: one_entry_eq step_body_def redirect_decision_def redirect_cut_def idle_args_def small_model_def
        Let_def case_prod_beta)
  show ?thesis
    using killed_never_retires [OF one_entry_ok s, of "hd (entries one_entry)"] k
    by (simp add: one_entry_eq Let_def del: foldl.simps)
qed

text \<open>
  C12: a response finishes exactly the instruction that issued it.  When a step
  reports a finish for tag \<open>t\<close>, the response carried \<open>t\<close>, a token for it was
  outstanding, and an issued, unfinished entry with that tag survives the step's
  redirect.  Every entry after the step is the newly allocated one, whose tag has
  no outstanding token and no queued owner (so no stale response can reach it), or
  an old entry whose completion state and value changed only by that finish.
\<close>

theorem response_reaches_owner:
  assumes "recovery_ok m" and "step m x = (Inr ev, m')"
  shows "(\<forall>t. ev_finished ev = Some t \<longrightarrow>
      (\<exists>e v. sa_result x = Some (t, v) \<and> e \<in> set (entries m) \<and> tag e = t \<and> issued e \<and> \<not> is_done e \<and>
             dict_get (tokens m) t \<noteq> None \<and> t \<notin> set (ev_killed ev))) \<and>
    (\<forall>e' \<in> set (entries m').
      (ev_allocated ev = Some (tag e') \<and> serial e' = next_serial m \<and> is_done e' = sa_fault x \<and> \<not> issued e' \<and>
       dict_get (tokens m) (tag e') = None \<and> tag e' \<notin> set (map tag (entries m))) \<or>
      (\<exists>e \<in> set (entries m). tag e' = tag e \<and> serial e' = serial e \<and> dst e' = dst e \<and> rename e' = rename e \<and>
        (if ev_finished ev = Some (tag e) then is_done e' \<and> val e' = snd (the (sa_result x)) AND 0xFFFFFFFF
         else is_done e' = is_done e \<and> val e' = val e)))"
proof -
  have core: "core_ok m" using assms(1) by (simp add: recovery_ok_def)
  have m': "ev = fst (step_body m x)" "m' = snd (step_body m x)"
    using assms by (auto simp: step_eq split: if_splits)
  have fin: "\<exists>e v. sa_result x = Some (t, v) \<and> e \<in> set (entries m) \<and> tag e = t \<and> issued e \<and> \<not> is_done e \<and>
      dict_get (tokens m) t \<noteq> None \<and> t \<notin> set (ev_killed ev)" if "ev_finished ev = Some t" for t
  proof -
    from that have "ev_finished (fst (step_body m x)) = Some t" by (simp add: m')
    from finished_owner [OF core this] obtain e v where
      "sa_result x = Some (t, v)" "e \<in> set (entries (stage1 m x))" "tag e = t" "issued e" "\<not> is_done e"
      "dict_get (tokens m) t \<noteq> None" by metis
    moreover have "set (entries (stage1 m x)) \<subseteq> set (entries m)"
      using stage1_entries [of m x] by (auto dest: in_set_takeD)
    ultimately show ?thesis by (auto simp: m' step_body_events)
  qed
  have ent: "(ev_allocated ev = Some (tag e') \<and> serial e' = next_serial m \<and> is_done e' = sa_fault x \<and> \<not> issued e' \<and>
       dict_get (tokens m) (tag e') = None \<and> tag e' \<notin> set (map tag (entries m))) \<or>
      (\<exists>e \<in> set (entries m). tag e' = tag e \<and> serial e' = serial e \<and> dst e' = dst e \<and> rename e' = rename e \<and>
        (if ev_finished ev = Some (tag e) then is_done e' \<and> val e' = snd (the (sa_result x)) AND 0xFFFFFFFF
         else is_done e' = is_done e \<and> val e' = val e))" if "e' \<in> set (entries m')" for e'
  proof (rule stage5_entry_cases [OF that [unfolded m'] core])
    assume a: "step_allocates m x" "e' = step_entry m x"
    have "candidate m \<notin> set (map tag (entries m))"
      using candidate_fresh [OF core] a(1) by (simp add: step_allocates_def)
    moreover have "ev_allocated ev = Some (candidate m)" using a(1) by (simp add: m' step_body_events)
    moreover have "tag e' = candidate m" "serial e' = next_serial m" "is_done e' = sa_fault x" "\<not> issued e'"
      using a(2) by (simp_all add: step_entry_def new_entry_def)
    moreover have "dict_get (tokens m) (candidate m) = None" using a(1) by (simp add: step_allocates_def)
    ultimately show ?thesis by (intro disjI1) simp
  next
    fix e3 assume e3: "e3 \<in> set (entries (stage3 m x))" "e' = e3 \<or> e' = e3\<lparr>issued := True\<rparr>"
    from stage3_entry_old [OF e3(1) core] obtain e0 where e0: "e0 \<in> set (entries m)"
      "e3 = (if ev_finished ev = Some (tag e0)
         then e0\<lparr>is_done := True, val := snd (the (sa_result x)) AND 0xFFFFFFFF\<rparr> else e0)"
      unfolding m'(1) by metis
    show ?thesis
      by (intro disjI2 bexI [OF _ e0(1)]) (use e0(2) e3(2) in auto)
  qed
  show ?thesis using fin ent by blast
qed

definition issued_model :: RecoveryModel where
  "issued_model = step_model one_entry (idle_args\<lparr>sa_issue := Some \<lparr>slot = 0, generation = 1\<rparr>\<rparr>)"

lemma issued_model_eq:
  "issued_model = one_entry\<lparr>entries := [\<lparr>tag = \<lparr>slot = 0, generation = 1\<rparr>, serial = 0, dst = Some 3, rename = Some 0,
     is_done = False, val = 0, fault = False, issued = True\<rparr>], tokens := [(\<lparr>slot = 0, generation = 1\<rparr>, ''local'')]\<rparr>"
  by (simp add: issued_model_def one_entry_eq step_model_def step_def step_body_def redirect_decision_def idle_args_def
      small_model_def result_tokens_def finish_result_def can_commit_def can_issue_def free_rename_def
      candidate_def new_entry_def dst_mapping_def dict_of_def check_invariants_def map_filter_simps Let_def upto.simps)

lemma issued_model_ok: "recovery_ok issued_model"
  unfolding issued_model_def by (rule recovery.step_inv [OF one_entry_ok]) simp

theorem response_reaches_owner_witness:
  "let x = idle_args\<lparr>sa_result := Some (\<lparr>slot = 0, generation = 1\<rparr>, 7)\<rparr> in
     ev_finished (fst (step_body issued_model x)) = Some \<lparr>slot = 0, generation = 1\<rparr> \<and>
     list_all (\<lambda>e'. is_done e' \<and> val e' = 7) (entries (step_model issued_model x))"
proof -
  let ?x = "idle_args\<lparr>sa_result := Some (\<lparr>slot = 0, generation = 1\<rparr>, 7)\<rparr>"
  have dk: "dst_ok ?x" "kind_ok ?x" by (simp_all add: dst_ok_def kind_ok_def idle_args_def)
  have s: "step issued_model ?x = (Inr (fst (step_body issued_model ?x)), step_model issued_model ?x)"
    using step_eq [OF issued_model_ok, of ?x] dk by (simp add: step_model_def)
  have f: "ev_finished (fst (step_body issued_model ?x)) = Some \<lparr>slot = 0, generation = 1\<rparr>"
    by (simp add: issued_model_eq one_entry_eq step_body_def redirect_decision_def finish_result_def idle_args_def
        small_model_def Let_def case_prod_beta)
  have a: "ev_allocated (fst (step_body issued_model ?x)) = None"
    by (simp add: step_body_events step_allocates_def idle_args_def)
  have t: "\<forall>e \<in> set (entries issued_model). tag e = \<lparr>slot = 0, generation = 1\<rparr>" by (simp add: issued_model_eq)
  have v: "snd (the (sa_result ?x)) AND 0xFFFFFFFF = (7::int)" by simp
  have "is_done e' \<and> val e' = 7" if mem: "e' \<in> set (entries (step_model issued_model ?x))" for e'
  proof -
    from bspec [OF conjunct2 [OF response_reaches_owner [OF issued_model_ok s]] mem] obtain e
      where "e \<in> set (entries issued_model)" "if ev_finished (fst (step_body issued_model ?x)) = Some (tag e)
        then is_done e' \<and> val e' = snd (the (sa_result ?x)) AND 0xFFFFFFFF
        else is_done e' = is_done e \<and> val e' = val e"
      unfolding a by blast
    then show ?thesis using f t v by simp
  qed
  then show ?thesis using f by (simp add: Let_def list_all_iff)
qed

text \<open>
  reading an operand never raises in a reachable state (no \<open>StopIteration\<close>),
  and gives the youngest queued writer of the register with its completion state,
  or the architectural value when no writer is queued.
\<close>

theorem operand_youngest_writer:
  assumes "recovery_ok m" and "0 \<le> reg" and "reg < 32"
  shows "operand m reg = Inr (case find (\<lambda>e. dst e = Some reg) (rev (entries m)) of
      None \<Rightarrow> (True, arch m ! nat reg, None)
    | Some e \<Rightarrow> (is_done e, val e, Some (tag e)))"
proof -
  have m: "mapping m = dst_mapping (entries m)" and d: "distinct (map tag (entries m))"
    using assms(1) core_tags_distinct by (auto simp: recovery_ok_def)
  show ?thesis
  proof (cases "find (\<lambda>e. dst e = Some reg) (rev (entries m))")
    case None
    then show ?thesis using assms m by (simp add: operand_def dst_mapping_get)
  next
    case (Some e)
    then have "e \<in> set (entries m)" using find_Some_iff2 [OF Some] by simp
    then show ?thesis using Some assms m find_by_tag [OF d] by (simp add: operand_def dst_mapping_get)
  qed
qed

theorem operand_youngest_writer_witness:
  "operand one_entry 3 = Inr (False, 0, Some \<lparr>slot = 0, generation = 1\<rparr>)"
  using operand_youngest_writer [OF one_entry_ok, of 3] by (simp add: one_entry_eq)

end
