(* ===== verification/Fetch_Drain.thy ===== *)
theory Fetch_Drain
  imports Prelude
begin

text \<open>
  \<open>sim/recovery/model.py\<close>, class \<open>FetchDrainModel\<close>: the fetch unit that keeps a
  valid/ready promise across redirects.  The abstract specification is a program
  counter: the address of the next packet to be delivered.  The lemmas show that
  the model, with its offer, pending and target registers, refines it.
\<close>

section \<open>Model\<close>

record FetchEvents =
  fe_request :: "int option"
  fe_request_accepted :: bool
  fe_response_consumed :: bool
  fe_packet :: "(int \<times> int) option"

record FetchDrainModel =
  fd_reset_pc :: int
  fd_pc :: int
  fd_offered :: "int option"
  fd_pending :: "int option"
  fd_target :: "int option"

definition fetch_reset :: "FetchDrainModel \<Rightarrow> FetchDrainModel" where
  "fetch_reset m = m\<lparr>fd_pc := fd_reset_pc m, fd_offered := None, fd_pending := None, fd_target := None\<rparr>"

definition FetchDrainModel_init :: "int \<Rightarrow> FetchDrainModel" where
  "FetchDrainModel_init reset_pc = fetch_reset
     \<lparr>fd_reset_pc = reset_pc, fd_pc = 0, fd_offered = None, fd_pending = None, fd_target = None\<rparr>"

text \<open>\<open>offer\<close> may capture the PC, so it returns the request and the model.\<close>

definition offer :: "FetchDrainModel \<Rightarrow> int option \<times> FetchDrainModel" where
  "offer m =
     (if fd_pending m \<noteq> None then (None, m)
      else let m = (if fd_offered m = None \<and> fd_target m = None then m\<lparr>fd_offered := Some (fd_pc m)\<rparr> else m)
           in (fd_offered m, m))"

record FetchArgs =
  fx_request_ready :: bool
  fx_response :: "int option"
  fx_packet_ready :: bool
  fx_redirect :: "int option"

definition redirect_legal :: "int \<Rightarrow> bool" where
  "redirect_legal t \<longleftrightarrow> \<not> (\<not> (0 \<le> t \<and> t \<le> 0xFFFFFFFF) \<or> t mod 4 \<noteq> 0)"

definition fetch_step :: "FetchDrainModel \<Rightarrow> FetchArgs \<Rightarrow> FetchEvents result \<times> FetchDrainModel" where
  "fetch_step m x =
     (if (case fx_redirect x of Some t \<Rightarrow> \<not> redirect_legal t | None \<Rightarrow> False)
      then (Inl (ValueError ''redirect target must be an aligned 32-bit PC''), m)
      else
        let (request, m) = offer m;
            was_pending = fd_pending m;
            m = (if fx_redirect x \<noteq> None then m\<lparr>fd_target := fx_redirect x\<rparr> else m);
            request_accepted = (request \<noteq> None \<and> fx_request_ready x);
            m = (if request_accepted then m\<lparr>fd_pending := request, fd_offered := None\<rparr> else m);
            consumed = (was_pending \<noteq> None \<and> fx_response x \<noteq> None \<and>
                        (fd_target m \<noteq> None \<or> fx_packet_ready x));
            packet = (if consumed \<and> fd_target m = None
                      then Some (the was_pending, the (fx_response x) AND 0xFFFFFFFF) else None);
            m = (if consumed \<and> fd_target m = None
                 then m\<lparr>fd_pc := (the was_pending + 4) AND 0xFFFFFFFF\<rparr> else m);
            m = (if consumed then m\<lparr>fd_pending := None\<rparr> else m);
            m = (if fd_pending m = None \<and> fd_offered m = None \<and> fd_target m \<noteq> None
                 then m\<lparr>fd_pc := the (fd_target m), fd_target := None\<rparr> else m)
        in (Inr \<lparr>fe_request = request, fe_request_accepted = request_accepted,
                 fe_response_consumed = consumed, fe_packet = packet\<rparr>, m))"

section \<open>The program counter it implements\<close>

text \<open>The address of the next packet: a waiting target first, then the request in flight or on offer.\<close>

definition next_pc :: "FetchDrainModel \<Rightarrow> int" where
  "next_pc m = (case fd_target m of Some t \<Rightarrow> t | None \<Rightarrow>
     case fd_pending m of Some p \<Rightarrow> p | None \<Rightarrow>
     case fd_offered m of Some a \<Rightarrow> a | None \<Rightarrow> fd_pc m)"

text \<open>The abstract step: a redirect replaces the PC and delivers nothing; a packet advances it.\<close>

definition pc_spec :: "int \<Rightarrow> int option \<Rightarrow> (int \<times> int) option \<Rightarrow> int" where
  "pc_spec pc redirect packet =
     (case redirect of Some t \<Rightarrow> t | None \<Rightarrow> (case packet of Some (a, _) \<Rightarrow> (a + 4) AND 0xFFFFFFFF | None \<Rightarrow> pc))"

definition aligned_pc :: "int \<Rightarrow> bool" where
  "aligned_pc a \<longleftrightarrow> in_field 32 a \<and> a mod 4 = 0"

definition opt_all :: "('a \<Rightarrow> bool) \<Rightarrow> 'a option \<Rightarrow> bool" where
  "opt_all P x = (case x of None \<Rightarrow> True | Some y \<Rightarrow> P y)"

definition fetch_ok :: "FetchDrainModel \<Rightarrow> bool" where
  "fetch_ok m \<longleftrightarrow> \<not> (fd_pending m \<noteq> None \<and> fd_offered m \<noteq> None) \<and>
     (fd_target m \<noteq> None \<longrightarrow> fd_pending m \<noteq> None \<or> fd_offered m \<noteq> None) \<and>
     aligned_pc (fd_pc m) \<and> opt_all aligned_pc (fd_pending m) \<and> opt_all aligned_pc (fd_offered m) \<and>
     opt_all aligned_pc (fd_target m)"

lemma redirect_legal_aligned: "redirect_legal t \<longleftrightarrow> aligned_pc t"
  by (auto simp: redirect_legal_def aligned_pc_def in_field_def)

lemma aligned_next: "aligned_pc a \<Longrightarrow> aligned_pc ((a + 4) AND 0xFFFFFFFF)"
proof -
  assume a: "aligned_pc a"
  have "(a + 4) mod 4294967296 mod 4 = (a + 4) mod 4" by (rule mod_mod_cancel) simp
  then show ?thesis using a by (simp add: aligned_pc_def and_mask32 take_bit_eq_mod in_field_def)
qed

definition fetch_legal :: "FetchArgs \<Rightarrow> bool" where
  "fetch_legal x \<longleftrightarrow> opt_all redirect_legal (fx_redirect x)"

text \<open>The effect of one step, by what the registers hold.\<close>

lemma fetch_step_facts:
  assumes ok: "fetch_ok m" and x: "fetch_legal x"
  shows "\<exists>ev m'. fetch_step m x = (Inr ev, m') \<and> fetch_ok m' \<and>
    next_pc m' = pc_spec (next_pc m) (fx_redirect x) (fe_packet ev) \<and>
    (fx_redirect x \<noteq> None \<longrightarrow> fe_packet ev = None) \<and>
    (\<forall>a w. fe_packet ev = Some (a, w) \<longrightarrow> a = next_pc m \<and> fd_pending m = Some a) \<and>
    (fe_request ev \<noteq> None \<and> \<not> fe_request_accepted ev \<longrightarrow> fd_offered m' = fe_request ev \<and> fd_pending m' = None) \<and>
    (fe_request_accepted ev \<longrightarrow> fd_pending m' = fe_request ev)"
proof (cases "fd_pending m")
  case (Some p)
  then have off: "fd_offered m = None" and p: "aligned_pc p" using ok by (auto simp: fetch_ok_def opt_all_def)
  show ?thesis
    using ok x Some off aligned_next [OF p]
    by (cases "fx_redirect x"; cases "fd_target m"; cases "fx_response x"; cases "fx_packet_ready x")
       (simp_all add: fetch_step_def offer_def fetch_ok_def opt_all_def fetch_legal_def next_pc_def
          pc_spec_def Let_def redirect_legal_aligned)
next
  case None
  show ?thesis
    using ok x None
    by (cases "fx_redirect x"; cases "fd_target m"; cases "fd_offered m"; cases "fx_request_ready x")
       (simp_all add: fetch_step_def offer_def fetch_ok_def opt_all_def fetch_legal_def next_pc_def
          pc_spec_def Let_def redirect_legal_aligned)
qed

definition fetch_model :: "FetchDrainModel \<Rightarrow> FetchArgs \<Rightarrow> FetchDrainModel" where
  "fetch_model m x = snd (fetch_step m x)"

interpretation fetch: stepper fetch_model fetch_legal fetch_ok
  by unfold_locales (use fetch_step_facts in \<open>fastforce simp: fetch_model_def\<close>)

section \<open>Properties\<close>

text \<open>
  C13: the fetch unit refines a program counter.  Every legal step returns; it
  delivers no packet on a redirect, and otherwise only the packet at the current
  program counter, after which the counter is the next word address; a redirect
  sets the counter to its target.  So between redirects the delivered addresses
  are consecutive from the last target, and no packet fetched on the old path is
  delivered.
\<close>

theorem fetch_refines_pc:
  assumes "fetch_ok m" and "fetch_legal x"
  shows "\<exists>ev m'. fetch_step m x = (Inr ev, m') \<and> fetch_ok m' \<and>
    next_pc m' = pc_spec (next_pc m) (fx_redirect x) (fe_packet ev) \<and>
    (case fe_packet ev of None \<Rightarrow> True
      | Some (a, w) \<Rightarrow> fx_redirect x = None \<and> a = next_pc m \<and>
          w = the (fx_response x) AND 0xFFFFFFFF \<and> aligned_pc a)"
proof -
  obtain ev m' where s: "fetch_step m x = (Inr ev, m')" "fetch_ok m'"
    "next_pc m' = pc_spec (next_pc m) (fx_redirect x) (fe_packet ev)"
    "fx_redirect x \<noteq> None \<longrightarrow> fe_packet ev = None"
    "\<forall>a w. fe_packet ev = Some (a, w) \<longrightarrow> a = next_pc m \<and> fd_pending m = Some a"
    using fetch_step_facts [OF assms] by blast
  have "w = the (fx_response x) AND 0xFFFFFFFF" if "fe_packet ev = Some (a, w)" for a w
    using s(1) that by (auto simp: fetch_step_def Let_def split: if_splits prod.splits)
  moreover have "aligned_pc a" if "fe_packet ev = Some (a, w)" for a w
    using s(5) that assms(1) by (auto simp: fetch_ok_def opt_all_def)
  ultimately show ?thesis using s by (auto split: option.splits)
qed

definition idle_fetch :: FetchArgs where
  "idle_fetch = \<lparr>fx_request_ready = False, fx_response = None, fx_packet_ready = False, fx_redirect = None\<rparr>"

lemma fetch_init_ok: "aligned_pc pc \<Longrightarrow> fetch_ok (FetchDrainModel_init pc)"
  by (simp add: FetchDrainModel_init_def fetch_reset_def fetch_ok_def opt_all_def)

lemma reset_vector_aligned: "aligned_pc 0xFFF00100"
  by (simp add: aligned_pc_def in_field_def)

theorem fetch_refines_pc_witness:
  "\<exists>ev m'. fetch_step (fetch_model (FetchDrainModel_init 0xFFF00100) (idle_fetch\<lparr>fx_request_ready := True\<rparr>))
      (idle_fetch\<lparr>fx_response := Some 0x60000000, fx_packet_ready := True\<rparr>) = (Inr ev, m') \<and>
    fe_packet ev = Some (0xFFF00100, 0x60000000) \<and> next_pc m' = 0xFFF00104"
proof -
  let ?m = "fetch_model (FetchDrainModel_init 0xFFF00100) (idle_fetch\<lparr>fx_request_ready := True\<rparr>)"
  let ?x = "idle_fetch\<lparr>fx_response := Some 0x60000000, fx_packet_ready := True\<rparr>"
  have x: "fetch_legal (idle_fetch\<lparr>fx_request_ready := True\<rparr>)" "fetch_legal ?x"
    by (simp_all add: fetch_legal_def opt_all_def idle_fetch_def)
  have ok: "fetch_ok ?m" by (rule fetch.step_inv [OF fetch_init_ok [OF reset_vector_aligned] x(1)])
  have p: "fe_packet (projr (fst (fetch_step ?m ?x))) = Some (0xFFF00100, 0x60000000)"
    by (simp add: fetch_model_def fetch_step_def offer_def FetchDrainModel_init_def fetch_reset_def idle_fetch_def Let_def)
  show ?thesis using fetch_refines_pc [OF ok x(2)] p by (auto simp: pc_spec_def idle_fetch_def)
qed

text \<open>
  An offered request is a promise.  A request that was offered and not
  accepted is offered again on the next step, unchanged, whatever redirects
  arrive on either edge; an accepted one is the pending request.
\<close>

theorem offer_is_stable:
  assumes "fetch_ok m" and "fetch_legal x" and "fetch_legal y"
    and "fetch_step m x = (Inr ev, m')" and "fetch_step m' y = (Inr ev', m'')"
  shows "(fe_request ev \<noteq> None \<and> \<not> fe_request_accepted ev \<longrightarrow> fe_request ev' = fe_request ev) \<and>
    (fe_request_accepted ev \<longrightarrow> fd_pending m' = fe_request ev \<and> fe_request ev' = None)"
proof -
  from fetch_step_facts [OF assms(1,2)] assms(4)
  have h: "fe_request ev \<noteq> None \<and> \<not> fe_request_accepted ev \<longrightarrow> fd_offered m' = fe_request ev \<and> fd_pending m' = None"
    "fe_request_accepted ev \<longrightarrow> fd_pending m' = fe_request ev" by auto
  have req: "fe_request ev' = fst (offer m')"
    using assms(5) by (auto simp: fetch_step_def Let_def split: if_splits prod.splits)
  have acc: "fe_request_accepted ev \<longrightarrow> fe_request ev \<noteq> None"
    using assms(4) by (auto simp: fetch_step_def Let_def split: if_splits prod.splits)
  show ?thesis using h req acc by (auto simp: offer_def)
qed

theorem offer_is_stable_witness:
  "let m = FetchDrainModel_init 0x1000; x = idle_fetch\<lparr>fx_redirect := Some 0x2000\<rparr>;
       m' = fetch_model m x
   in fe_request (projr (fst (fetch_step m' x))) = Some 0x1000"
proof -
  let ?m = "FetchDrainModel_init 0x1000" and ?x = "idle_fetch\<lparr>fx_redirect := Some 0x2000\<rparr>"
  have ok: "fetch_ok ?m" by (rule fetch_init_ok) (simp add: aligned_pc_def in_field_def)
  have x: "fetch_legal ?x" by (simp add: fetch_legal_def opt_all_def idle_fetch_def redirect_legal_def)
  obtain ev m' where s: "fetch_step ?m ?x = (Inr ev, m')" "fetch_ok m'"
    using fetch_step_facts [OF ok x] by blast
  obtain ev' m'' where s': "fetch_step m' ?x = (Inr ev', m'')" using fetch_step_facts [OF s(2) x] by blast
  have "fe_request ev = Some 0x1000" "\<not> fe_request_accepted ev"
    using s(1) by (auto simp: fetch_step_def offer_def FetchDrainModel_init_def fetch_reset_def idle_fetch_def Let_def
        redirect_legal_def)
  then show ?thesis using offer_is_stable [OF ok x x s(1) s'] s(1) s' by (simp add: Let_def fetch_model_def)
qed

text \<open>
  A redirect drains.  Whatever the fetch unit was doing, the redirect step and
  one further step in which the memory accepts and answers leave no target waiting
  and no offer standing for the old path, and the next packet is the target's.
\<close>

theorem redirect_drains:
  assumes "fetch_ok m" and "redirect_legal t"
  shows "let serve = \<lparr>fx_request_ready = True, fx_response = Some w, fx_packet_ready = r, fx_redirect = None\<rparr>;
             m1 = fetch_model m (serve\<lparr>fx_redirect := Some t\<rparr>);
             m2 = fetch_model m1 serve
         in fd_target m2 = None \<and> next_pc m2 = t \<and> fd_offered m2 = None"
proof (cases "fd_pending m")
  case None
  then show ?thesis using assms
    by (cases "fd_target m"; cases "fd_offered m")
       (simp_all add: fetch_model_def fetch_step_def offer_def next_pc_def fetch_ok_def Let_def)
next
  case (Some p)
  then have "fd_offered m = None" using assms(1) by (auto simp: fetch_ok_def)
  then show ?thesis using assms Some
    by (cases "fd_target m")
       (simp_all add: fetch_model_def fetch_step_def offer_def next_pc_def fetch_ok_def Let_def)
qed

theorem redirect_drains_witness:
  "fd_target (fetch_model (fetch_model (FetchDrainModel_init 0x1000)
     \<lparr>fx_request_ready = True, fx_response = Some 0, fx_packet_ready = False, fx_redirect = Some 0x2000\<rparr>)
     \<lparr>fx_request_ready = True, fx_response = Some 0, fx_packet_ready = False, fx_redirect = None\<rparr>) = None"
proof -
  have ok: "fetch_ok (FetchDrainModel_init 0x1000)" by (rule fetch_init_ok) (simp add: aligned_pc_def in_field_def)
  show ?thesis
    using redirect_drains [OF ok, of "0x2000" 0 False] by (simp add: Let_def redirect_legal_def)
qed

end
