(* ===== verification/Fp_Reference.thy ===== *)
theory Fp_Reference
  imports Prelude
begin

text \<open>
  \<open>sim/fpu/reference.py\<close>: the exact integer oracle for binary32 and binary64.  A
  finite value is a signed integer times a power of two and is rounded once, at
  the destination.  This theory holds the definitions; \<open>Fp_Rounding\<close> proves that
  the packers round correctly and \<open>Fp_Arithmetic\<close> that the operations do.

  The kinds \<open>'snan'\<close>, \<open>'qnan'\<close>, \<open>'inf'\<close>, \<open>'finite'\<close> are a datatype, the
  dictionary \<open>out\<close> is a record, and the truth values Python mixes with 0 and 1
  are \<^typ>\<open>bool\<close>: a sign is the top bit of a word of the format, hence 0 or 1.
\<close>

section \<open>Formats\<close>

record Format =
  fraction :: nat
  exponent :: nat
  bias :: int

definition signbit :: "Format \<Rightarrow> nat" where
  "signbit fmt = fraction fmt + exponent fmt"

definition infinity :: "Format \<Rightarrow> int" where
  "infinity fmt = push_bit (fraction fmt) (push_bit (exponent fmt) 1 - 1)"

definition B32 :: Format where "B32 = \<lparr>fraction = 23, exponent = 8, bias = 127\<rparr>"
definition B64 :: Format where "B64 = \<lparr>fraction = 52, exponent = 11, bias = 1023\<rparr>"

datatype fp_kind = SNaN | QNaN | Inf | Finite

definition is_nan :: "fp_kind \<Rightarrow> bool" where
  "is_nan k = (k = SNaN \<or> k = QNaN)"

definition decode :: "int \<Rightarrow> Format \<Rightarrow> fp_kind \<times> int \<times> int \<times> int" where
  "decode bits fmt =
     (let sign = drop_bit (signbit fmt) bits;
          expo = drop_bit (fraction fmt) bits AND (push_bit (exponent fmt) 1 - 1);
          frac = bits AND (push_bit (fraction fmt) 1 - 1)
      in if expo = push_bit (exponent fmt) 1 - 1
         then ((if frac \<noteq> 0 \<and> drop_bit (fraction fmt - 1) frac = 0 then SNaN else if frac \<noteq> 0 then QNaN else Inf),
               sign, frac, 0)
         else (Finite, sign, frac OR (if expo \<noteq> 0 then push_bit (fraction fmt) 1 else 0),
               (if expo \<noteq> 0 then expo else 1) - bias fmt - int (fraction fmt)))"

section \<open>Rounding and packing\<close>

text \<open>
  The increment of one rounding decision: \<open>rn\<close> 0 is to nearest even, 1 toward
  zero, 2 toward plus infinity, 3 toward minus infinity; \<open>rem\<close> out of \<open>unit\<close> is the
  discarded part.
\<close>

definition round_up :: "int \<Rightarrow> int \<Rightarrow> int \<Rightarrow> int \<Rightarrow> int \<Rightarrow> bool" where
  "round_up quot rem unit sign rn =
     (rem \<noteq> 0 \<and> ((rn = 0 \<and> (2 * rem > unit \<or> (2 * rem = unit \<and> quot AND 1 \<noteq> 0))) \<or>
                 (rn = 2 \<and> sign = 0) \<or> (rn = 3 \<and> sign \<noteq> 0)))"

definition rounded_integer :: "int \<Rightarrow> int \<Rightarrow> int \<Rightarrow> int \<Rightarrow> int \<times> bool \<times> bool" where
  "rounded_integer n shift sign rn =
     (if shift \<le> 0 then (push_bit (nat (- shift)) n, False, False)
      else let quot = n div push_bit (nat shift) 1;
               remainder = n mod push_bit (nat shift) 1;
               increment = round_up quot remainder (push_bit (nat shift) 1) sign rn
           in (quot + of_bool increment, remainder \<noteq> 0, increment))"

text \<open>The common tail of both packers: carry out of the significand, overflow, encoding.\<close>

definition to_inf :: "int \<Rightarrow> int \<Rightarrow> bool" where
  "to_inf rn sign = (rn = 0 \<or> (rn = 2 \<and> sign = 0) \<or> (rn = 3 \<and> sign \<noteq> 0))"

definition pack_tail :: "int \<Rightarrow> int \<Rightarrow> bool \<Rightarrow> bool \<Rightarrow> int \<Rightarrow> int \<Rightarrow> Format \<Rightarrow> int \<times> bool \<times> bool \<times> bool \<times> bool" where
  "pack_tail mantissa0 quantum0 nx increment sign rn fmt =
     (let carry = (bit_length mantissa0 > int (fraction fmt) + 1);
          mantissa = (if carry then drop_bit 1 mantissa0 else mantissa0);
          quantum = (if carry then quantum0 + 1 else quantum0);
          result_exp = quantum + int (fraction fmt) + bias fmt
      in if result_exp \<ge> push_bit (exponent fmt) 1 - 1
         then (push_bit (signbit fmt) sign OR (if to_inf rn sign then infinity fmt else infinity fmt - 1),
               True, False, True, to_inf rn sign)
         else let subnormal = (mantissa < push_bit (fraction fmt) 1);
                  encoded_exp = (if subnormal then 0 else result_exp)
              in ((push_bit (signbit fmt) sign OR push_bit (fraction fmt) encoded_exp) OR
                    (mantissa AND (push_bit (fraction fmt) 1 - 1)),
                  nx, nx \<and> subnormal, False, increment))"

definition pack :: "int \<Rightarrow> int \<Rightarrow> int \<Rightarrow> int \<Rightarrow> Format \<Rightarrow> int \<times> bool \<times> bool \<times> bool \<times> bool" where
  "pack n expo sign rn fmt =
     (if n = 0 then (push_bit (signbit fmt) sign, False, False, False, False)
      else let top = bit_length n - 1 + expo;
               quantum = max (top - int (fraction fmt)) (1 - bias fmt - int (fraction fmt));
               (mantissa, nx, increment) = rounded_integer n (quantum - expo) sign rn
           in pack_tail mantissa quantum nx increment sign rn fmt)"

text \<open>The position of the leading bit of \<open>n / d\<close>, before scaling.\<close>

definition ratio_top :: "int \<Rightarrow> int \<Rightarrow> int" where
  "ratio_top n d =
     (let top = bit_length n - bit_length d
      in if (if top \<ge> 0 then n < push_bit (nat top) d else push_bit (nat (- top)) n < d) then top - 1 else top)"

definition pack_ratio :: "int \<Rightarrow> int \<Rightarrow> int \<Rightarrow> int \<Rightarrow> int \<Rightarrow> Format \<Rightarrow> int \<times> bool \<times> bool \<times> bool \<times> bool" where
  "pack_ratio numerator denominator expo sign rn fmt =
     (if numerator = 0 then (push_bit (signbit fmt) sign, False, False, False, False)
      else let top = ratio_top numerator denominator + expo;
               quantum = max (top - int (fraction fmt)) (1 - bias fmt - int (fraction fmt));
               shift = expo - quantum;
               scaled_n = (if shift \<ge> 0 then push_bit (nat shift) numerator else numerator);
               scaled_d = (if shift \<ge> 0 then denominator else push_bit (nat (- shift)) denominator);
               mantissa = scaled_n div scaled_d;
               remainder = scaled_n mod scaled_d;
               nx = (remainder \<noteq> 0);
               increment = round_up mantissa remainder scaled_d sign rn
           in pack_tail (mantissa + of_bool increment) quantum nx increment sign rn fmt)"

section \<open>Operations\<close>

record FpOut =
  o_bits :: int
  o_nx :: bool
  o_uf :: bool
  o_of :: bool
  o_dz :: bool
  o_invalid :: bool
  o_increment :: bool

definition out_zero :: FpOut where
  "out_zero = \<lparr>o_bits = 0, o_nx = False, o_uf = False, o_of = False, o_dz = False, o_invalid = False, o_increment = False\<rparr>"

text \<open>\<open>out.update(zip(('bits', 'nx', 'uf', 'of', 'increment'), raw))\<close>\<close>

definition out_raw :: "FpOut \<Rightarrow> int \<times> bool \<times> bool \<times> bool \<times> bool \<Rightarrow> FpOut" where
  "out_raw out raw = (case raw of (bits, nx, uf, ov, inc) \<Rightarrow>
     out\<lparr>o_bits := bits, o_nx := nx, o_uf := uf, o_of := ov, o_increment := inc\<rparr>)"

definition quiet_bit :: "Format \<Rightarrow> int" where
  "quiet_bit fmt = push_bit (fraction fmt - 1) 1"

text \<open>\<open>-m if s else m\<close>, and the sign of a sum.\<close>

definition signed_mag :: "int \<Rightarrow> int \<Rightarrow> int" where
  "signed_mag s m = (if s \<noteq> 0 then - m else m)"

definition sum_sign :: "int \<Rightarrow> int \<Rightarrow> int \<Rightarrow> int \<Rightarrow> int" where
  "sum_sign value sa sb rn =
     (if value \<noteq> 0 then of_bool (value < 0) else if sa = sb then sa else of_bool (rn = 3))"

definition calc_i32tof :: "int \<Rightarrow> int \<Rightarrow> Format \<Rightarrow> FpOut" where
  "calc_i32tof a rn fmt =
     (let value = a AND 0xFFFFFFFF;
          value = (if drop_bit 31 value \<noteq> 0 then value - 2 ^ 32 else value)
      in out_raw out_zero (pack \<bar>value\<bar> 0 (of_bool (value < 0)) rn fmt))"

definition calc_cmp :: "fp_kind \<times> int \<times> int \<times> int \<Rightarrow> fp_kind \<times> int \<times> int \<times> int \<Rightarrow> FpOut" where
  "calc_cmp da db =
     (case (da, db) of ((ka, sa, ma, ea), (kb, sb, mb, eb)) \<Rightarrow>
      if is_nan ka \<or> is_nan kb
      then out_zero\<lparr>o_bits := 3, o_invalid := (ka = SNaN \<or> kb = SNaN)\<rparr>
      else let (va, vb) =
             (if ka = Inf \<or> kb = Inf
              then ((if ka = Inf then (if sa \<noteq> 0 then -2 else 2) else if ma \<noteq> 0 then (if sa \<noteq> 0 then -1 else 1) else 0),
                    (if kb = Inf then (if sb \<noteq> 0 then -2 else 2) else if mb \<noteq> 0 then (if sb \<noteq> 0 then -1 else 1) else 0))
              else let expo = min ea eb
                   in (push_bit (nat (ea - expo)) (signed_mag sa ma), push_bit (nat (eb - expo)) (signed_mag sb mb)))
           in out_zero\<lparr>o_bits := (if va < vb then 1 else if va > vb then 2 else 0)\<rparr>)"

definition calc_ftoi32 :: "fp_kind \<times> int \<times> int \<times> int \<Rightarrow> int \<Rightarrow> FpOut" where
  "calc_ftoi32 da rn =
     (case da of (ka, sa, ma, ea) \<Rightarrow>
      if ka \<noteq> Finite then out_zero\<lparr>o_bits := 0x80000000, o_invalid := True\<rparr>
      else case rounded_integer ma (- ea) sa rn of (v, nx, inc) \<Rightarrow>
        let value = signed_mag sa v
        in if \<not> (- (2 ^ 31) \<le> value \<and> value < 2 ^ 31)
           then out_zero\<lparr>o_bits := 0x80000000, o_invalid := True\<rparr>
           else out_zero\<lparr>o_bits := value AND 0xFFFFFFFF, o_nx := nx, o_increment := inc\<rparr>)"

definition calc_convert :: "fp_kind \<times> int \<times> int \<times> int \<Rightarrow> int \<Rightarrow> Format \<Rightarrow> Format \<Rightarrow> FpOut" where
  "calc_convert da rn fmt dest =
     (case da of (ka, sa, ma, ea) \<Rightarrow>
      if is_nan ka
      then let payload = (if fraction fmt \<ge> fraction dest then drop_bit (fraction fmt - fraction dest) ma
                          else push_bit (fraction dest - fraction fmt) ma)
           in out_zero\<lparr>o_bits := ((push_bit (signbit dest) sa OR infinity dest) OR payload) OR quiet_bit dest,
                       o_invalid := (ka = SNaN)\<rparr>
      else if ka = Inf then out_zero\<lparr>o_bits := push_bit (signbit dest) sa OR infinity dest\<rparr>
      else out_raw out_zero (pack ma ea sa rn dest))"

definition default_nan :: "Format \<Rightarrow> FpOut" where
  "default_nan fmt = out_zero\<lparr>o_bits := infinity fmt OR quiet_bit fmt, o_invalid := True\<rparr>"

definition calc_addsub :: "fp_kind \<times> int \<times> int \<times> int \<Rightarrow> fp_kind \<times> int \<times> int \<times> int \<Rightarrow> int \<Rightarrow> Format \<Rightarrow> FpOut" where
  "calc_addsub da db rn fmt =
     (case (da, db) of ((ka, sa, ma, ea), (kb, sb, mb, eb)) \<Rightarrow>
      if ka = Inf \<and> kb = Inf \<and> sa \<noteq> sb then default_nan fmt
      else if ka = Inf \<or> kb = Inf
      then out_zero\<lparr>o_bits := push_bit (signbit fmt) (if ka = Inf then sa else sb) OR infinity fmt\<rparr>
      else let expo = min ea eb;
               value = push_bit (nat (ea - expo)) (signed_mag sa ma) + push_bit (nat (eb - expo)) (signed_mag sb mb)
           in out_raw out_zero (pack \<bar>value\<bar> expo (sum_sign value sa sb rn) rn fmt))"

definition calc_mul :: "fp_kind \<times> int \<times> int \<times> int \<Rightarrow> fp_kind \<times> int \<times> int \<times> int \<Rightarrow> int \<Rightarrow> Format \<Rightarrow> FpOut" where
  "calc_mul da db rn fmt =
     (case (da, db) of ((ka, sa, ma, ea), (kb, sb, mb, eb)) \<Rightarrow>
      if (ka = Inf \<and> kb = Finite \<and> mb = 0) \<or> (kb = Inf \<and> ka = Finite \<and> ma = 0) then default_nan fmt
      else if ka = Inf \<or> kb = Inf
      then out_zero\<lparr>o_bits := push_bit (signbit fmt) (sa XOR sb) OR infinity fmt\<rparr>
      else out_raw out_zero (pack (ma * mb) (ea + eb) (sa XOR sb) rn fmt))"

definition calc_div :: "fp_kind \<times> int \<times> int \<times> int \<Rightarrow> fp_kind \<times> int \<times> int \<times> int \<Rightarrow> int \<Rightarrow> Format \<Rightarrow> FpOut" where
  "calc_div da db rn fmt =
     (case (da, db) of ((ka, sa, ma, ea), (kb, sb, mb, eb)) \<Rightarrow>
      if (ka = Inf \<and> kb = Inf) \<or> (ka = Finite \<and> ma = 0 \<and> kb = Finite \<and> mb = 0) then default_nan fmt
      else if ka = Finite \<and> ma \<noteq> 0 \<and> kb = Finite \<and> mb = 0
      then out_zero\<lparr>o_bits := push_bit (signbit fmt) (sa XOR sb) OR infinity fmt, o_dz := True\<rparr>
      else if ka = Inf \<or> kb = Inf
      then out_zero\<lparr>o_bits := push_bit (signbit fmt) (sa XOR sb) OR (if ka = Inf then infinity fmt else 0)\<rparr>
      else out_raw out_zero (pack_ratio ma mb (ea - eb) (sa XOR sb) rn fmt))"

definition negate_sign :: "fp_kind \<times> int \<times> int \<times> int \<Rightarrow> fp_kind \<times> int \<times> int \<times> int" where
  "negate_sign d = (case d of (k, s, m, e) \<Rightarrow> (k, s XOR 1, m, e))"

definition calculate :: "string \<Rightarrow> int \<Rightarrow> int \<Rightarrow> int \<Rightarrow> Format \<Rightarrow> FpOut result" where
  "calculate op a b rn fmt =
     (let da = decode a fmt; db = decode b fmt; ka = fst da; kb = fst db in
      if op = ''i32tof'' then Inr (calc_i32tof a rn fmt)
      else if op = ''cmp'' then Inr (calc_cmp da db)
      else if op = ''ftoi32'' then Inr (calc_ftoi32 da rn)
      else if op = ''to32'' then Inr (calc_convert da rn fmt B32)
      else if op = ''to64'' then Inr (calc_convert da rn fmt B64)
      else if is_nan ka \<or> is_nan kb
      then Inr (out_zero\<lparr>o_bits := (if is_nan ka then a else b) OR quiet_bit fmt,
                        o_invalid := (ka = SNaN \<or> kb = SNaN)\<rparr>)
      else if op = ''add'' then Inr (calc_addsub da db rn fmt)
      else if op = ''sub'' then Inr (calc_addsub da (negate_sign db) rn fmt)
      else if op = ''mul'' then Inr (calc_mul da db rn fmt)
      else if op = ''div'' then Inr (calc_div da db rn fmt)
      else Inl (ValueError op))"

definition calculate_fma :: "int \<Rightarrow> int \<Rightarrow> int \<Rightarrow> int \<Rightarrow> Format \<Rightarrow> bool \<Rightarrow> bool \<Rightarrow> FpOut" where
  "calculate_fma a b c rn fmt negate_product negate_addend =
     (let da = decode a fmt; db = decode b fmt; dc = decode c fmt;
          out = out_zero\<lparr>o_invalid := (fst da = SNaN \<or> fst db = SNaN \<or> fst dc = SNaN)\<rparr> in
      case find (\<lambda>(v, k). is_nan k) [(a, fst da), (b, fst db), (c, fst dc)] of
        Some (v, _) \<Rightarrow> out\<lparr>o_bits := v OR quiet_bit fmt\<rparr>
      | None \<Rightarrow>
          (case (da, db, dc) of ((ka, sa, ma, ea), (kb, sb, mb, eb), (kc, sc0, mc, ec)) \<Rightarrow>
           let sp = (sa XOR sb) XOR of_bool negate_product;
               sc = sc0 XOR of_bool negate_addend in
           if (ka = Inf \<and> kb = Finite \<and> mb = 0) \<or> (kb = Inf \<and> ka = Finite \<and> ma = 0)
           then out\<lparr>o_bits := infinity fmt OR quiet_bit fmt, o_invalid := True\<rparr>
           else if ka = Inf \<or> kb = Inf
           then (if kc = Inf \<and> sp \<noteq> sc then out\<lparr>o_bits := infinity fmt OR quiet_bit fmt, o_invalid := True\<rparr>
                 else out\<lparr>o_bits := push_bit (signbit fmt) sp OR infinity fmt\<rparr>)
           else if kc = Inf then out\<lparr>o_bits := push_bit (signbit fmt) sc OR infinity fmt\<rparr>
           else let expo = min (ea + eb) ec;
                    product = push_bit (nat (ea + eb - expo)) (ma * mb);
                    addend = push_bit (nat (ec - expo)) mc;
                    value = signed_mag sp product + signed_mag sc addend
                in out_raw out (pack \<bar>value\<bar> expo (sum_sign value sp sc rn) rn fmt)))"

end
