(* ===== verification/Fp_Rounding.thy ===== *)
theory Fp_Rounding
  imports Fp_Reference
begin

text \<open>
  Correct rounding of the packers \<open>pack\<close> and \<open>pack_ratio\<close> of
  \<open>sim/fpu/reference.py\<close>, against a specification over the reals: the result is
  the representable number the rounding direction asks for, ties go to an even
  significand, and the inexact, underflow, overflow and increment flags say how
  result and exact value are related.
\<close>

section \<open>The specification\<close>

text \<open>The value \<open>m * 2 ^ q\<close>, and the least quantum of a format.\<close>

definition mag :: "int \<Rightarrow> int \<Rightarrow> real" where
  "mag m q = real_of_int m * 2 powi q"

definition qmin :: "Format \<Rightarrow> int" where
  "qmin fmt = 1 - bias fmt - int (fraction fmt)"

text \<open>Magnitudes with the format's precision and least quantum, the exponent unbounded above.\<close>

definition representable :: "Format \<Rightarrow> real \<Rightarrow> bool" where
  "representable fmt y \<longleftrightarrow> (\<exists>m q. 0 \<le> m \<and> m < 2 ^ (fraction fmt + 1) \<and> qmin fmt \<le> q \<and> y = mag m q)"

text \<open>Rounding a magnitude: up, down or to nearest, by the mode and the sign.\<close>

definition away :: "int \<Rightarrow> int \<Rightarrow> bool" where
  "away rn sign \<longleftrightarrow> (rn = 2 \<and> sign = 0) \<or> (rn = 3 \<and> sign \<noteq> 0)"

definition rounds_mag :: "Format \<Rightarrow> int \<Rightarrow> int \<Rightarrow> real \<Rightarrow> real \<Rightarrow> bool" where
  "rounds_mag fmt rn sign v x \<longleftrightarrow> representable fmt x \<and>
     (if rn = 0 then \<forall>y. representable fmt y \<longrightarrow> \<bar>x - v\<bar> \<le> \<bar>y - v\<bar>
      else if away rn sign then v \<le> x \<and> (\<forall>y. representable fmt y \<and> v \<le> y \<longrightarrow> x \<le> y)
      else x \<le> v \<and> (\<forall>y. representable fmt y \<and> y \<le> v \<longrightarrow> y \<le> x))"

text \<open>The least magnitude beyond the format's range.\<close>

definition overflow_bound :: "Format \<Rightarrow> real" where
  "overflow_bound fmt = 2 powi (2 ^ exponent fmt - 1 - bias fmt)"

definition correctly_rounded :: "Format \<Rightarrow> int \<Rightarrow> int \<Rightarrow> real \<Rightarrow> int \<times> bool \<times> bool \<times> bool \<times> bool \<Rightarrow> bool" where
  "correctly_rounded fmt rn sign v raw \<longleftrightarrow>
     (case raw of (bits, nx, uf, ov, inc) \<Rightarrow>
      if ov then nx \<and> \<not> uf \<and> inc = to_inf rn sign \<and>
        (\<exists>x. rounds_mag fmt rn sign v x \<and> overflow_bound fmt \<le> x) \<and>
        bits = push_bit (signbit fmt) sign OR (if to_inf rn sign then infinity fmt else infinity fmt - 1)
      else in_field (signbit fmt + 1) bits \<and>
        (\<exists>m q. decode bits fmt = (Finite, sign, m, q) \<and> rounds_mag fmt rn sign v (mag m q) \<and>
           mag m q < overflow_bound fmt \<and>
           nx = (mag m q \<noteq> v) \<and> inc = (v < mag m q) \<and> uf = (nx \<and> mag m q < 2 powi (1 - bias fmt)) \<and>
           (rn = 0 \<and> (\<exists>y. representable fmt y \<and> y \<noteq> mag m q \<and> \<bar>y - v\<bar> = \<bar>mag m q - v\<bar>) \<longrightarrow> even m)))"

definition fmt_ok :: "Format \<Rightarrow> bool" where
  "fmt_ok fmt \<longleftrightarrow> 1 \<le> fraction fmt \<and> 2 \<le> exponent fmt"

lemma B32_ok [simp]: "fmt_ok B32" and B64_ok [simp]: "fmt_ok B64"
  by (simp_all add: fmt_ok_def B32_def B64_def)

section \<open>Powers of two and bit lengths\<close>

lemma p2_pos [simp]: "0 < (2::real) powi q"
  by (simp add: zero_less_power_int)

lemma p2_not_neg [simp]: "\<not> (2::real) powi q < 0"
  using p2_pos [of q] by linarith

lemma p2_add: "(2::real) powi (a + b) = 2 powi a * 2 powi b"
  by (simp add: power_int_add)

lemma p2_nat: "(2::real) powi int k = 2 ^ k"
  by simp

lemma p2_mono: "a \<le> b \<Longrightarrow> (2::real) powi a \<le> 2 powi b"
  by (rule power_int_increasing) auto

lemma p2_less: "a < b \<Longrightarrow> (2::real) powi a < 2 powi b"
  by (rule power_int_strict_increasing) auto

lemma mag_push: "0 \<le> s \<Longrightarrow> mag (push_bit (nat s) m) q = mag m (q + s)"
  by (simp add: mag_def push_bit_eq_mult p2_add flip: power_int_of_nat)

lemma mag_le_iff: "mag a q \<le> mag b q \<longleftrightarrow> a \<le> b"
  by (simp add: mag_def)

lemma mag_less_iff: "mag a q < mag b q \<longleftrightarrow> a < b"
  by (simp add: mag_def)

lemma bit_length_bounds:
  "0 < n \<Longrightarrow> 1 \<le> bit_length n \<and> 2 ^ nat (bit_length n - 1) \<le> n \<and> n < 2 ^ nat (bit_length n)"
proof (induction n rule: bit_length.induct)
  case (1 n)
  show ?case
  proof (cases "n = 1")
    case True
    then show ?thesis by (simp add: bit_length.simps [of 1] bit_length.simps [of 0])
  next
    case False
    then have h: "0 < n div 2" using 1 by simp
    let ?k = "bit_length (n div 2)"
    have ih: "1 \<le> ?k" "2 ^ nat (?k - 1) \<le> n div 2" "n div 2 < 2 ^ nat ?k" using 1 h by auto
    have b: "bit_length n = ?k + 1" using 1 by (subst bit_length.simps) simp
    have "nat (bit_length n) = Suc (nat ?k)" "nat (bit_length n - 1) = Suc (nat (?k - 1))" using ih b by linarith+
    then have "(2::int) ^ nat (bit_length n) = 2 * 2 ^ nat ?k" "(2::int) ^ nat (bit_length n - 1) = 2 * 2 ^ nat (?k - 1)"
      by simp_all
    then show ?thesis using ih b by linarith
  qed
qed

lemma bit_length_real:
  assumes "0 < n"
  shows "2 powi (bit_length n - 1) \<le> real_of_int n" "real_of_int n < 2 powi (bit_length n)"
proof -
  note b = bit_length_bounds [OF assms]
  have "real_of_int (2 ^ nat (bit_length n - 1)) \<le> real_of_int n" using b by linarith
  then show "2 powi (bit_length n - 1) \<le> real_of_int n" using b by (simp add: power_int_def)
  have "real_of_int n < real_of_int (2 ^ nat (bit_length n))" using b by linarith
  then show "real_of_int n < 2 powi (bit_length n)" using b by (simp add: power_int_def)
qed

lemma bit_length_gt:
  assumes "0 \<le> m"
  shows "bit_length m > int k \<longleftrightarrow> 2 ^ k \<le> m"
proof (cases "m = 0")
  case True
  then show ?thesis by (simp add: bit_length.simps)
next
  case False
  then have b: "1 \<le> bit_length m" "2 ^ nat (bit_length m - 1) \<le> m" "m < 2 ^ nat (bit_length m)"
    using bit_length_bounds [of m] assms by auto
  show ?thesis
  proof
    assume "bit_length m > int k"
    then have "k \<le> nat (bit_length m - 1)" by linarith
    then have "(2::int) ^ k \<le> 2 ^ nat (bit_length m - 1)" by simp
    then show "2 ^ k \<le> m" using b by linarith
  next
    assume "2 ^ k \<le> m"
    then have "(2::int) ^ k < 2 ^ nat (bit_length m)" using b by linarith
    then show "bit_length m > int k" using b by simp
  qed
qed

section \<open>The leading bit of a ratio\<close>

lemma ratio_top_bounds:
  assumes "0 < n" "0 < d"
  shows "2 powi (ratio_top n d) \<le> real_of_int n / real_of_int d"
    and "real_of_int n / real_of_int d < 2 powi (ratio_top n d + 1)"
proof -
  define t where "t = bit_length n - bit_length d"
  let ?q = "real_of_int n / real_of_int d"
  have d0: "0 < real_of_int d" using assms by simp
  have "real_of_int n < 2 powi (bit_length n - (bit_length d - 1)) * 2 powi (bit_length d - 1)"
    using bit_length_real(2) [OF assms(1)] by (simp flip: p2_add)
  also have "\<dots> \<le> 2 powi (t + 1) * real_of_int d"
    using bit_length_real(1) [OF assms(2)] by (simp add: t_def algebra_simps)
  finally have up: "?q < 2 powi (t + 1)" using d0 by (simp add: divide_less_eq)
  have "2 powi (t - 1) * real_of_int d \<le> 2 powi (t - 1) * 2 powi (bit_length d)"
    using bit_length_real(2) [OF assms(2)] by simp
  also have "\<dots> = 2 powi (bit_length n - 1)" by (simp add: t_def flip: p2_add)
  also have "\<dots> \<le> real_of_int n" by (rule bit_length_real(1) [OF assms(1)])
  finally have lo: "2 powi (t - 1) \<le> ?q" using d0 by (simp add: le_divide_eq)
  have test: "(if t \<ge> 0 then n < push_bit (nat t) d else push_bit (nat (- t)) n < d) \<longleftrightarrow> ?q < 2 powi t"
  proof (cases "t \<ge> 0")
    case True
    then have "real_of_int (push_bit (nat t) d) = real_of_int d * 2 powi t"
      by (simp add: push_bit_eq_mult power_int_def)
    then have "n < push_bit (nat t) d \<longleftrightarrow> real_of_int n < real_of_int d * 2 powi t"
      by (metis of_int_less_iff)
    then show ?thesis using True d0 by (simp add: divide_less_eq mult.commute)
  next
    case False
    then have "real_of_int (push_bit (nat (- t)) n) = real_of_int n / 2 powi t"
      by (simp add: push_bit_eq_mult power_int_def field_simps)
    then have "push_bit (nat (- t)) n < d \<longleftrightarrow> real_of_int n / 2 powi t < real_of_int d"
      by (metis of_int_less_iff)
    then show ?thesis using False d0 by (simp add: divide_less_eq mult.commute)
  qed
  have rt: "ratio_top n d = (if ?q < 2 powi t then t - 1 else t)"
    unfolding ratio_top_def Let_def t_def [symmetric] using test by simp
  show "2 powi (ratio_top n d) \<le> ?q" using lo rt by (auto split: if_splits)
  show "?q < 2 powi (ratio_top n d + 1)" using up rt by (auto split: if_splits)
qed

lemma ratio_top_one:
  assumes "0 < n"
  shows "ratio_top n 1 = bit_length n - 1"
proof -
  have one: "bit_length 1 = 1" by (simp add: bit_length.simps [of 1] bit_length.simps [of 0])
  have "\<not> n < 2 ^ nat (bit_length n - 1)" "0 \<le> bit_length n - 1" using bit_length_bounds [OF assms] by auto
  then show ?thesis by (simp add: ratio_top_def one Let_def)
qed

section \<open>Rounding a quotient of integers\<close>

text \<open>
  \<open>M\<close> is the integer the rounding direction asks for of the real number \<open>u\<close>; to
  nearest with ties to even.
\<close>

definition rounds_int :: "int \<Rightarrow> int \<Rightarrow> real \<Rightarrow> int \<Rightarrow> bool" where
  "rounds_int rn sign u M \<longleftrightarrow>
     (if rn = 0 then \<bar>of_int M - u\<bar> \<le> 1 / 2 \<and> (\<bar>of_int M - u\<bar> = 1 / 2 \<longrightarrow> even M)
      else if away rn sign then u \<le> of_int M \<and> of_int M < u + 1
      else of_int M \<le> u \<and> u < of_int M + 1)"

lemma rounds_int_near:
  assumes "rounds_int 0 sign u M"
  shows "\<bar>of_int M - u\<bar> \<le> \<bar>of_int j - u\<bar>" "\<bar>of_int j - u\<bar> = \<bar>of_int M - u\<bar> \<Longrightarrow> j \<noteq> M \<Longrightarrow> even M"
proof -
  have h: "\<bar>of_int M - u\<bar> \<le> 1 / 2" "\<bar>of_int M - u\<bar> = 1 / 2 \<longrightarrow> even M" using assms by (auto simp: rounds_int_def)
  have far: "1 / 2 \<le> \<bar>of_int j - u\<bar>" if "j \<noteq> M"
  proof -
    have "1 \<le> \<bar>real_of_int j - real_of_int M\<bar>" using that by linarith
    then show ?thesis using h(1) by linarith
  qed
  show "\<bar>of_int M - u\<bar> \<le> \<bar>of_int j - u\<bar>" using far h by (cases "j = M") auto
  show "even M" if "\<bar>of_int j - u\<bar> = \<bar>of_int M - u\<bar>" "j \<noteq> M" using far [OF that(2)] that(1) h by linarith
qed

lemma div_mod_real:
  assumes "0 < D"
  shows "real_of_int N / real_of_int D = of_int (N div D) + of_int (N mod D) / of_int D"
    and "0 \<le> real_of_int (N mod D) / of_int D" and "real_of_int (N mod D) / of_int D < 1"
proof -
  have "real_of_int N = of_int (N div D) * of_int D + of_int (N mod D)"
    by (metis div_mult_mod_eq of_int_add of_int_mult)
  then show "real_of_int N / real_of_int D = of_int (N div D) + of_int (N mod D) / of_int D"
    using assms by (simp add: add_divide_distrib)
  show "0 \<le> real_of_int (N mod D) / of_int D" "real_of_int (N mod D) / of_int D < 1"
    using assms by (simp_all add: divide_less_eq)
qed

lemma round_up_rounds:
  fixes N D rn sign :: int
  assumes D: "0 < D" and rn: "rn \<in> {0, 1, 2, 3}"
  defines "k \<equiv> N div D" and "r \<equiv> N mod D" and "u \<equiv> real_of_int N / real_of_int D"
  defines "inc \<equiv> round_up k r D sign rn"
  shows "rounds_int rn sign u (k + of_bool inc)"
    and "(r \<noteq> 0) = (of_int (k + of_bool inc) \<noteq> u)" and "inc = (u < of_int (k + of_bool inc))"
proof -
  define f where "f = real_of_int r / real_of_int D"
  have u: "u = of_int k + f" and f: "0 \<le> f" "f < 1"
    using div_mod_real [OF D, of N] by (simp_all add: u_def k_def r_def f_def)
  have r0: "r \<noteq> 0 \<longleftrightarrow> f \<noteq> 0" using D by (simp add: f_def)
  have half: "2 * r > D \<longleftrightarrow> 1 / 2 < f" "2 * r = D \<longleftrightarrow> f = 1 / 2"
  proof -
    have "2 * r > D \<longleftrightarrow> real_of_int D < 2 * real_of_int r" by linarith
    then show "2 * r > D \<longleftrightarrow> 1 / 2 < f" using D by (simp add: f_def less_divide_eq mult.commute)
    have "2 * r = D \<longleftrightarrow> 2 * real_of_int r = real_of_int D" by linarith
    moreover have "f = 1 / 2 \<longleftrightarrow> 2 * real_of_int r = real_of_int D" using D by (auto simp: f_def field_simps)
    ultimately show "2 * r = D \<longleftrightarrow> f = 1 / 2" by blast
  qed
  have odd: "k AND 1 \<noteq> 0 \<longleftrightarrow> odd k" by (simp add: and_one_eq odd_iff_mod_2_eq_one)
  have inc: "inc \<longleftrightarrow> f \<noteq> 0 \<and> (rn = 0 \<and> (1 / 2 < f \<or> f = 1 / 2 \<and> odd k) \<or> away rn sign)"
    unfolding inc_def round_up_def r0 half odd away_def by auto
  have aw: "away rn sign \<Longrightarrow> rn \<noteq> 0" by (auto simp: away_def)
  show "rounds_int rn sign u (k + of_bool inc)"
    using f inc aw unfolding rounds_int_def u by (cases inc) (auto simp: abs_if)
  show "(r \<noteq> 0) = (of_int (k + of_bool inc) \<noteq> u)"
    unfolding r0 u using f inc by (cases inc) auto
  show "inc = (u < of_int (k + of_bool inc))"
    unfolding u using f by (cases inc) auto
qed

section \<open>The lattice of representable numbers around a value\<close>

lemma mag_scale: "mag m q = mag 1 q * of_int m"
  by (simp add: mag_def)

lemma representable_multiple:
  assumes "representable fmt y" "qmin fmt \<le> Q" "Q = qmin fmt \<or> 2 powi (Q + int (fraction fmt)) \<le> y"
  shows "\<exists>j. y = mag j Q"
proof -
  obtain m q where m: "0 \<le> m" "m < 2 ^ (fraction fmt + 1)" and q: "qmin fmt \<le> q" and y: "y = mag m q"
    using assms(1) by (auto simp: representable_def)
  have "Q \<le> q"
  proof (rule ccontr)
    assume n: "\<not> Q \<le> q"
    then have "2 powi (Q + int (fraction fmt)) \<le> y" using assms q by auto
    moreover have "y < 2 powi (q + int (fraction fmt + 1))"
    proof -
      have "real_of_int m < of_int (2 ^ (fraction fmt + 1))" using m(2) by linarith
      then have "y < 2 ^ (fraction fmt + 1) * 2 powi q" unfolding y mag_def by simp
      also have "\<dots> = 2 powi (q + int (fraction fmt + 1))" unfolding p2_add p2_nat by simp
      finally show ?thesis .
    qed
    ultimately have "2 powi (Q + int (fraction fmt)) < (2::real) powi (q + int (fraction fmt + 1))" by linarith
    moreover have "(2::real) powi (q + int (fraction fmt + 1)) \<le> 2 powi (Q + int (fraction fmt))"
      using n by (intro p2_mono) simp
    ultimately show False by linarith
  qed
  then have "y = mag (push_bit (nat (q - Q)) m) Q" using mag_push [of "q - Q" m Q] y by simp
  then show ?thesis by blast
qed

text \<open>
  Rounding a magnitude \<open>v\<close> of leading exponent \<open>tp\<close> to the format is rounding
  \<open>v / 2 ^ Q\<close> to an integer, where \<open>Q\<close> is the quantum of that binade.
\<close>

lemma lattice_rounds:
  assumes Q: "Q = max (tp - int (fraction fmt)) (qmin fmt)"
    and v: "2 powi tp \<le> v" "v < 2 powi (tp + 1)"
    and M: "rounds_int rn sign (v / 2 powi Q) M" and rep: "representable fmt (mag M Q)"
  shows "rounds_mag fmt rn sign v (mag M Q)"
    and "rn = 0 \<Longrightarrow> representable fmt y \<Longrightarrow> y \<noteq> mag M Q \<Longrightarrow> \<bar>y - v\<bar> = \<bar>mag M Q - v\<bar> \<Longrightarrow> even M"
proof -
  define u where "u = v / 2 powi Q"
  have vu: "v = u * 2 powi Q" by (simp add: u_def)
  have diff: "\<bar>mag j Q - v\<bar> = \<bar>of_int j - u\<bar> * 2 powi Q" for j
    by (simp add: mag_def vu abs_mult left_diff_distrib [symmetric])
  have cmp: "mag j Q \<le> v \<longleftrightarrow> of_int j \<le> u" "v \<le> mag j Q \<longleftrightarrow> u \<le> of_int j" for j
    by (simp_all add: mag_def vu)
  define b where "b = (if Q = qmin fmt then 0 else 2 ^ fraction fmt :: int)"
  have bQ: "mag b Q = (if Q = qmin fmt then 0 else 2 powi (Q + int (fraction fmt)))"
    by (simp add: b_def mag_def p2_add)
  have tp: "Q \<noteq> qmin fmt \<Longrightarrow> Q + int (fraction fmt) = tp" using Q by (auto simp: max_def split: if_splits)
  have b_le: "mag b Q \<le> v"
  proof (cases "Q = qmin fmt")
    case True
    have "0 < (2::real) powi tp" by simp
    then have "0 \<le> v" using v(1) by linarith
    then show ?thesis using True unfolding bQ by simp
  qed (use v(1) tp in \<open>simp add: bQ\<close>)
  have low: "y < mag b Q" if "representable fmt y" "\<nexists>j. y = mag j Q" for y
  proof (rule ccontr)
    assume "\<not> y < mag b Q"
    then have "\<exists>j. y = mag j Q"
      using that(1) Q unfolding bQ by (intro representable_multiple [of fmt y Q]) (auto split: if_splits)
    then show False using that(2) by blast
  qed
  have near: "rn = 0 \<Longrightarrow> \<bar>mag M Q - v\<bar> \<le> \<bar>mag j Q - v\<bar>" for j
    using rounds_int_near(1) [of sign u M j] M unfolding diff by (simp add: u_def)
  show "rounds_mag fmt rn sign v (mag M Q)"
  proof -
    have "\<bar>mag M Q - v\<bar> \<le> \<bar>y - v\<bar>" if "rn = 0" "representable fmt y" for y
      using near [OF that(1)] low [OF that(2)] b_le by (cases "\<exists>j. y = mag j Q") (force, smt (verit))
    moreover have "v \<le> mag M Q \<and> (\<forall>y. representable fmt y \<and> v \<le> y \<longrightarrow> mag M Q \<le> y)" if "rn \<noteq> 0" "away rn sign"
    proof -
      have "u \<le> of_int M" "of_int M < u + 1" using M that by (auto simp: rounds_int_def u_def)
      moreover have "mag M Q \<le> y" if y: "representable fmt y" "v \<le> y" for y
      proof -
        obtain j where j: "y = mag j Q" using low [OF y(1)] y(2) b_le by force
        then have "u \<le> of_int j" using y(2) cmp by simp
        then have "M \<le> j" using \<open>of_int M < u + 1\<close> by linarith
        then show ?thesis using j by (simp add: mag_le_iff)
      qed
      ultimately show ?thesis using cmp by blast
    qed
    moreover have "mag M Q \<le> v \<and> (\<forall>y. representable fmt y \<and> y \<le> v \<longrightarrow> y \<le> mag M Q)" if "rn \<noteq> 0" "\<not> away rn sign"
    proof -
      have h: "of_int M \<le> u" "u < of_int M + 1" using M that by (auto simp: rounds_int_def u_def)
      have grid: "mag j Q \<le> mag M Q" if "mag j Q \<le> v" for j
        using that h cmp(1) [of j] by (simp add: mag_le_iff)
      have "y \<le> mag M Q" if "representable fmt y" "y \<le> v" for y
        using low [OF that(1)] grid [OF b_le] grid that(2) by (cases "\<exists>j. y = mag j Q") force+
      then show ?thesis using cmp h by blast
    qed
    ultimately show ?thesis using rep unfolding rounds_mag_def by simp
  qed
  show "even M" if t: "rn = 0" "representable fmt y" "y \<noteq> mag M Q" "\<bar>y - v\<bar> = \<bar>mag M Q - v\<bar>"
  proof (cases "\<exists>j. y = mag j Q")
    case True
    then obtain j where j: "y = mag j Q" by blast
    then have "\<bar>of_int j - u\<bar> = \<bar>of_int M - u\<bar>" using t(4) diff p2_pos [of Q] by simp
    then show ?thesis using rounds_int_near(2) [of sign u M j] M t j by (auto simp: u_def)
  next
    case False
    then have "y < mag b Q" using low [OF t(2)] by blast
    then have "\<bar>mag b Q - v\<bar> < \<bar>y - v\<bar>" using b_le by linarith
    then show ?thesis using near [OF t(1), of b] t(4) by linarith
  qed
qed

section \<open>Encoding\<close>

lemma pow2_mask: "(x::int) AND (push_bit k 1 - 1) = take_bit k x"
  by (simp add: take_bit_eq_mask mask_eq_exp_minus_1)

lemma in_field_pow: "0 \<le> E \<Longrightarrow> E < 2 ^ k \<Longrightarrow> in_field k E"
  by (simp add: in_field_def)

lemma encode_fields:
  assumes s: "is_bit sign" and E: "in_field ex E" and f: "in_field fr f"
  defines "w \<equiv> (push_bit (fr + ex) sign OR push_bit fr E) OR f"
  shows "drop_bit (fr + ex) w = sign" "take_bit ex (drop_bit fr w) = E" "take_bit fr w = f"
    "in_field (fr + ex + 1) w"
proof -
  have s1: "in_field 1 sign" using s by (simp only: in_field_is_bit)
  have w: "w = shl sign (fr + ex) OR shl E fr OR f" by (simp add: w_def shl_def or.assoc)
  show fld: "in_field (fr + ex + 1) w"
    unfolding w by (intro in_field_or in_field_shl [OF s1] in_field_shl [OF E] in_field_mono [OF f]) auto
  have "get_field (fr + ex) 1 w = sign"
    unfolding w get_field_or get_field_shl_self [OF s1]
    by (simp add: get_field_shl_above [OF E] get_field_past [OF f])
  moreover have "take_bit 1 (drop_bit (fr + ex) w) = drop_bit (fr + ex) w"
    using fld by (simp add: in_field_iff take_bit_drop_bit add.commute)
  ultimately show "drop_bit (fr + ex) w = sign" by (simp add: get_field_def)
  have "get_field fr ex w = E"
    unfolding w by (simp add: get_field_or get_field_shl_self [OF E] get_field_shl_below get_field_past [OF f])
  then show "take_bit ex (drop_bit fr w) = E" by (simp add: get_field_def)
  have "get_field 0 fr w = f"
    unfolding w by (simp add: get_field_or get_field_shl_below get_field_0 [OF f])
  then show "take_bit fr w = f" by (simp add: get_field_def)
qed

lemma decode_fields:
  "decode w fmt =
     (let E = take_bit (exponent fmt) (drop_bit (fraction fmt) w); f = take_bit (fraction fmt) w;
          s = drop_bit (signbit fmt) w
      in if E = 2 ^ exponent fmt - 1
         then ((if f \<noteq> 0 \<and> drop_bit (fraction fmt - 1) f = 0 then SNaN else if f \<noteq> 0 then QNaN else Inf), s, f, 0)
         else (Finite, s, f OR (if E \<noteq> 0 then push_bit (fraction fmt) 1 else 0),
               (if E \<noteq> 0 then E else 1) - bias fmt - int (fraction fmt)))"
  unfolding decode_def pow2_mask Let_def by simp

lemma decode_encode:
  assumes "is_bit sign" "0 \<le> E" "E < 2 ^ exponent fmt - 1" "in_field (fraction fmt) f"
  shows "decode ((push_bit (signbit fmt) sign OR push_bit (fraction fmt) E) OR f) fmt =
     (Finite, sign, f OR (if E \<noteq> 0 then push_bit (fraction fmt) 1 else 0),
      (if E \<noteq> 0 then E else 1) - bias fmt - int (fraction fmt))"
    and "in_field (signbit fmt + 1) ((push_bit (signbit fmt) sign OR push_bit (fraction fmt) E) OR f)"
proof -
  have E: "in_field (exponent fmt) E" using assms by (simp add: in_field_def)
  note enc = encode_fields [OF assms(1) E assms(4), folded signbit_def]
  show "decode ((push_bit (signbit fmt) sign OR push_bit (fraction fmt) E) OR f) fmt =
     (Finite, sign, f OR (if E \<noteq> 0 then push_bit (fraction fmt) 1 else 0),
      (if E \<noteq> 0 then E else 1) - bias fmt - int (fraction fmt))"
    unfolding decode_fields Let_def enc using assms(3) by simp
  show "in_field (signbit fmt + 1) ((push_bit (signbit fmt) sign OR push_bit (fraction fmt) E) OR f)" by (rule enc(4))
qed

lemma low_or_hidden:
  assumes "2 ^ k \<le> m" "m < 2 ^ (k + 1)"
  shows "take_bit k m OR push_bit k 1 = (m::int)"
proof -
  have "take_bit k m = m - 2 ^ k"
    using assms by (simp add: take_bit_eq_mod) (metis add_diff_cancel_left' diff_ge_0_iff_ge mod_add_self2 mod_pos_pos_trivial diff_add_cancel add.commute add_less_cancel_right mult_2)
  moreover have "(m - 2 ^ k) OR push_bit k 1 = (m - 2 ^ k) + push_bit k 1"
  proof (rule disjunctive_add [symmetric])
    fix n show "\<not> bit (m - 2 ^ k) n \<or> \<not> bit (push_bit k 1 :: int) n"
      using in_field_not_bit [of k "m - 2 ^ k" n] assms by (auto simp: in_field_def bit_exp_iff)
  qed
  ultimately show ?thesis by simp
qed

lemma overflow_mag:
  assumes "2 ^ fraction fmt \<le> m" "2 ^ exponent fmt - 1 \<le> q + int (fraction fmt) + bias fmt"
  shows "overflow_bound fmt \<le> mag m q"
proof -
  have "(2::real) powi (2 ^ exponent fmt - 1 - bias fmt) \<le> 2 powi (int (fraction fmt) + q)"
    using assms(2) by (intro p2_mono) simp
  also have "\<dots> = mag (2 ^ fraction fmt) q" by (simp add: mag_def p2_add)
  also have "\<dots> \<le> mag m q" using assms(1) by (simp add: mag_le_iff)
  finally show ?thesis by (simp add: overflow_bound_def)
qed

lemma mag_less_pow:
  assumes "m < 2 ^ k" "q + int k \<le> e"
  shows "mag m q < 2 powi e"
proof -
  have "mag m q < mag (2 ^ k) q" using assms(1) by (simp add: mag_less_iff)
  also have "\<dots> = 2 powi (q + int k)" by (simp add: mag_def p2_add)
  also have "\<dots> \<le> 2 powi e" using assms(2) by (rule p2_mono)
  finally show ?thesis .
qed

lemma mag_ge_pow:
  assumes "2 ^ k \<le> m" "e \<le> q + int k"
  shows "2 powi e \<le> mag m q"
proof -
  have "2 powi e \<le> (2::real) powi (q + int k)" using assms(2) by (rule p2_mono)
  also have "\<dots> = mag (2 ^ k) q" by (simp add: mag_def p2_add)
  also have "\<dots> \<le> mag m q" using assms(1) by (simp add: mag_le_iff)
  finally show ?thesis .
qed

section \<open>The packers round correctly\<close>

lemma pack_tail_exact:
  assumes fmt: "fmt_ok fmt" and s: "is_bit sign" and Q: "qmin fmt \<le> Q"
    and M: "0 \<le> M" "M \<le> 2 ^ (fraction fmt + 1)" "Q = qmin fmt \<or> 2 ^ fraction fmt \<le> M"
    and r: "pack_tail M Q nx inc sign rn fmt = (bits, nx', uf, ov, inc')"
  shows "if ov then overflow_bound fmt \<le> mag M Q \<and> nx' \<and> \<not> uf \<and> inc' = to_inf rn sign \<and>
        bits = push_bit (signbit fmt) sign OR (if to_inf rn sign then infinity fmt else infinity fmt - 1)
    else in_field (signbit fmt + 1) bits \<and>
      (\<exists>m q. decode bits fmt = (Finite, sign, m, q) \<and> mag m q = mag M Q \<and> (even M \<longrightarrow> even m) \<and>
        mag m q < overflow_bound fmt \<and> nx' = nx \<and> inc' = inc \<and> uf = (nx \<and> mag m q < 2 powi (1 - bias fmt)))"
proof -
  let ?fr = "fraction fmt"
  define carry where "carry = (bit_length M > int ?fr + 1)"
  define m where "m = (if carry then drop_bit 1 M else M)"
  define q where "q = (if carry then Q + 1 else Q)"
  define E where "E = q + int ?fr + bias fmt"
  have carry: "carry \<longleftrightarrow> M = 2 ^ (?fr + 1)"
    using bit_length_gt [OF M(1), of "?fr + 1"] M(2) by (auto simp: carry_def)
  have mq: "mag m q = mag M Q" "0 \<le> m" "m < 2 ^ (?fr + 1)" "q = qmin fmt \<or> 2 ^ ?fr \<le> m" "qmin fmt \<le> q"
    "even M \<longrightarrow> even m"
    using M Q fmt carry by (auto simp: m_def q_def drop_bit_eq_div mag_def p2_add fmt_ok_def)
  have E1: "1 \<le> E" using mq(5) by (simp add: E_def qmin_def)
  have t: "pack_tail M Q nx inc sign rn fmt =
     (if 2 ^ exponent fmt - 1 \<le> E
      then (push_bit (signbit fmt) sign OR (if to_inf rn sign then infinity fmt else infinity fmt - 1), True, False, True, to_inf rn sign)
      else ((push_bit (signbit fmt) sign OR push_bit ?fr (if m < 2 ^ ?fr then 0 else E)) OR take_bit ?fr m,
            nx, nx \<and> m < 2 ^ ?fr, False, inc))"
    unfolding pack_tail_def Let_def pow2_mask E_def m_def q_def carry_def by simp
  show ?thesis
  proof (cases "2 ^ exponent fmt - 1 \<le> E")
    case True
    have "2 ^ ?fr \<le> m"
    proof (rule ccontr)
      assume "\<not> 2 ^ ?fr \<le> m"
      then have "E = 1" using mq(4) by (simp add: E_def qmin_def)
      moreover have "(2::int) ^ 2 \<le> 2 ^ exponent fmt" using fmt by (intro power_increasing) (auto simp: fmt_ok_def)
      ultimately show False using True by simp
    qed
    then have "overflow_bound fmt \<le> mag m q" using True by (intro overflow_mag) (auto simp: E_def)
    then show ?thesis using r t True mq(1) by auto
  next
    case False
    let ?E = "if m < 2 ^ ?fr then 0 else E"
    have Er: "0 \<le> ?E" "?E < 2 ^ exponent fmt - 1"
    proof -
      show "0 \<le> ?E" using E1 by simp
      have "(2::int) ^ 2 \<le> 2 ^ exponent fmt" using fmt by (intro power_increasing) (auto simp: fmt_ok_def)
      then show "?E < 2 ^ exponent fmt - 1" using False by auto
    qed
    note dec = decode_encode [OF s Er in_field_take_bit_self [of ?fr m]]
    have sig: "take_bit ?fr m OR (if ?E \<noteq> 0 then push_bit ?fr 1 else 0) = m"
    proof (cases "m < 2 ^ ?fr")
      case True
      then show ?thesis using mq(2) by (simp add: take_bit_int_eq_self)
    next
      case False
      then have "?E \<noteq> 0" using E1 by simp
      moreover have "take_bit ?fr m OR push_bit ?fr 1 = m" using False mq(3) by (intro low_or_hidden) auto
      ultimately show ?thesis by presburger
    qed
    have ex: "(if ?E \<noteq> 0 then ?E else 1) - bias fmt - int ?fr = q"
      using mq(4) E1 by (auto simp: E_def qmin_def)
    have sub: "m < 2 ^ ?fr \<longleftrightarrow> mag m q < 2 powi (1 - bias fmt)"
    proof
      assume "m < 2 ^ ?fr"
      then show "mag m q < 2 powi (1 - bias fmt)" using mq(4) by (intro mag_less_pow [of m ?fr]) (auto simp: qmin_def)
    next
      assume "mag m q < 2 powi (1 - bias fmt)"
      moreover have "2 powi (1 - bias fmt) \<le> mag m q" if "2 ^ ?fr \<le> m"
        using that mq(5) by (intro mag_ge_pow [of ?fr]) (auto simp: qmin_def)
      ultimately show "m < 2 ^ ?fr" by linarith
    qed
    have "mag m q < overflow_bound fmt"
      unfolding overflow_bound_def using False mq(3) by (intro mag_less_pow [of m "?fr + 1"]) (auto simp: E_def)
    then show ?thesis
      using r t False dec sig ex mq(1,6) sub by auto
  qed
qed

lemma representable_carry:
  assumes "0 \<le> M" "M \<le> 2 ^ (fraction fmt + 1)" "qmin fmt \<le> Q"
  shows "representable fmt (mag M Q)"
proof (cases "M = 2 ^ (fraction fmt + 1)")
  case True
  then have "mag M Q = mag (2 ^ fraction fmt) (Q + 1)" by (simp add: mag_def p2_add)
  then show ?thesis unfolding representable_def using assms by (intro exI [of _ "2 ^ fraction fmt"] exI [of _ "Q + 1"]) auto
next
  case False
  then show ?thesis unfolding representable_def using assms by (intro exI [of _ M] exI [of _ Q]) auto
qed

lemma scaled_ratio:
  assumes "0 < d"
  shows "real_of_int (if shift \<ge> 0 then push_bit (nat shift) n else n) /
      real_of_int (if shift \<ge> 0 then d else push_bit (nat (- shift)) d) = real_of_int n / real_of_int d * 2 powi shift"
  using assms by (simp add: push_bit_eq_mult power_int_def field_simps)

lemma ratio_binade:
  assumes "0 < n" "0 < d"
  shows "2 powi (ratio_top n d + e) \<le> real_of_int n / real_of_int d * 2 powi e"
    "real_of_int n / real_of_int d * 2 powi e < 2 powi (ratio_top n d + e + 1)"
  using mult_right_mono [OF ratio_top_bounds(1) [OF assms], of "2 powi e"]
    mult_strict_right_mono [OF ratio_top_bounds(2) [OF assms], of "2 powi e"]
  by (simp_all add: less_imp_le flip: p2_add) (simp_all add: algebra_simps)

text \<open>
  The rounding step of both ratio rounders: \<open>N / D\<close> is the value scaled to the
  quantum \<open>Q\<close> of its binade, and \<open>M\<close> the rounded significand.
\<close>

lemma scaled_round:
  fixes n d e sign rn :: int and fmt :: Format
  assumes rn: "rn \<in> {0, 1, 2, 3}" and n: "0 < n" and d: "0 < d"
  defines "v \<equiv> real_of_int n / real_of_int d * 2 powi e" and "tp \<equiv> ratio_top n d + e"
  defines "Q \<equiv> max (tp - int (fraction fmt)) (qmin fmt)"
  defines "N \<equiv> (if e - Q \<ge> 0 then push_bit (nat (e - Q)) n else n)"
    and "D \<equiv> (if e - Q \<ge> 0 then d else push_bit (nat (- (e - Q))) d)"
  defines "inc \<equiv> round_up (N div D) (N mod D) D sign rn"
  defines "M \<equiv> N div D + of_bool inc"
  shows "0 \<le> M" "M \<le> 2 ^ (fraction fmt + 1)" "Q = qmin fmt \<or> 2 ^ fraction fmt \<le> M"
    and "rounds_mag fmt rn sign v (mag M Q)" "(N mod D \<noteq> 0) = (mag M Q \<noteq> v)" "inc = (v < mag M Q)"
    and "rn = 0 \<Longrightarrow> representable fmt y \<Longrightarrow> y \<noteq> mag M Q \<Longrightarrow> \<bar>y - v\<bar> = \<bar>mag M Q - v\<bar> \<Longrightarrow> even M"
proof -
  have D0: "0 < D" using d by (simp add: D_def push_bit_eq_mult)
  have u: "real_of_int N / real_of_int D = v / 2 powi Q"
    using scaled_ratio [OF d, of "e - Q" n] by (simp add: N_def D_def v_def power_int_diff)
  note v = ratio_binade [OF n d, of e, folded v_def, folded tp_def]
  have Qm: "qmin fmt \<le> Q" "tp \<le> Q + int (fraction fmt)" by (auto simp: Q_def)
  note R = round_up_rounds [OF D0 rn, where N = N and sign = sign, folded inc_def, folded M_def, unfolded u]
  have u_up: "v / 2 powi Q < 2 ^ (fraction fmt + 1)"
  proof -
    have "v < 2 powi (int (fraction fmt + 1) + Q)" using v(2) p2_mono [of "tp + 1" "int (fraction fmt + 1) + Q"] Qm by auto
    then show ?thesis unfolding p2_add p2_nat by (simp add: divide_less_eq)
  qed
  show M0: "0 \<le> M" using n D0 by (simp add: M_def N_def push_bit_eq_mult pos_imp_zdiv_nonneg_iff)
  have floor: "N div D = \<lfloor>v / 2 powi Q\<rfloor>" using u by (metis floor_divide_of_int_eq)
  show M1: "M \<le> 2 ^ (fraction fmt + 1)"
  proof -
    have "N div D < 2 ^ (fraction fmt + 1)" unfolding floor using u_up by (simp add: floor_less_iff)
    then show ?thesis by (cases inc) (auto simp: M_def)
  qed
  show "Q = qmin fmt \<or> 2 ^ fraction fmt \<le> M"
  proof (rule disjCI)
    assume "\<not> 2 ^ fraction fmt \<le> M"
    then have "\<lfloor>v / 2 powi Q\<rfloor> < 2 ^ fraction fmt"
      unfolding M_def floor by (cases inc) auto
    then have "v / 2 powi Q < 2 ^ fraction fmt" by (simp add: floor_less_iff)
    then have "v < 2 powi (int (fraction fmt) + Q)" unfolding p2_add p2_nat by (simp add: divide_less_eq)
    then have "tp < int (fraction fmt) + Q" using v(1) p2_mono [of "int (fraction fmt) + Q" tp] by linarith
    then show "Q = qmin fmt" by (auto simp: Q_def max_def split: if_splits)
  qed
  have rep: "representable fmt (mag M Q)" by (rule representable_carry [OF M0 M1 Qm(1)])
  note L = lattice_rounds [OF Q_def [THEN meta_eq_to_obj_eq] v R(1) rep]
  have val: "of_int M = v / 2 powi Q \<longleftrightarrow> mag M Q = v" "v / 2 powi Q < of_int M \<longleftrightarrow> v < mag M Q"
    by (auto simp: mag_def divide_less_eq)
  show "rounds_mag fmt rn sign v (mag M Q)" by (rule L(1))
  show "(N mod D \<noteq> 0) = (mag M Q \<noteq> v)" "inc = (v < mag M Q)" using R(2,3) val by simp_all
  show "rn = 0 \<Longrightarrow> representable fmt y \<Longrightarrow> y \<noteq> mag M Q \<Longrightarrow> \<bar>y - v\<bar> = \<bar>mag M Q - v\<bar> \<Longrightarrow> even M" by (rule L(2))
qed

lemma pack_ratio_rounds:
  assumes fmt: "fmt_ok fmt" and s: "is_bit sign" and rn: "rn \<in> {0, 1, 2, 3}" and n: "0 < n" and d: "0 < d"
  shows "correctly_rounded fmt rn sign (real_of_int n / real_of_int d * 2 powi e) (pack_ratio n d e sign rn fmt)"
proof -
  define v where "v = real_of_int n / real_of_int d * 2 powi e"
  define Q where "Q = max (ratio_top n d + e - int (fraction fmt)) (qmin fmt)"
  define N where "N = (if e - Q \<ge> 0 then push_bit (nat (e - Q)) n else n)"
  define D where "D = (if e - Q \<ge> 0 then d else push_bit (nat (- (e - Q))) d)"
  define inc where "inc = round_up (N div D) (N mod D) D sign rn"
  define M where "M = N div D + of_bool inc"
  note S = scaled_round [OF rn n d, where e = e and fmt = fmt and sign = sign, folded v_def, folded Q_def, folded N_def D_def, folded inc_def, folded M_def]
  have pr: "pack_ratio n d e sign rn fmt = pack_tail M Q (N mod D \<noteq> 0) inc sign rn fmt"
    using n by (simp add: pack_ratio_def Let_def M_def Q_def qmin_def N_def D_def inc_def)
  obtain bits nx uf ov inc' where raw: "pack_tail M Q (N mod D \<noteq> 0) inc sign rn fmt = (bits, nx, uf, ov, inc')"
    by (metis prod_cases5)
  have "qmin fmt \<le> Q" by (simp add: Q_def)
  note T = pack_tail_exact [OF fmt s this S(1-3) raw]
  show ?thesis
    unfolding v_def [symmetric] pr raw
  proof (cases ov)
    case True
    then have "nx" "\<not> uf" "inc' = to_inf rn sign" "overflow_bound fmt \<le> mag M Q"
      "bits = push_bit (signbit fmt) sign OR (if to_inf rn sign then infinity fmt else infinity fmt - 1)"
      using T by simp_all
    then show "correctly_rounded fmt rn sign v (bits, nx, uf, ov, inc')"
      unfolding correctly_rounded_def prod.case using True S(4) by (simp only: if_True) blast
  next
    case False
    then obtain m q where mq: "decode bits fmt = (Finite, sign, m, q)" "mag m q = mag M Q" "even M \<longrightarrow> even m"
      "mag m q < overflow_bound fmt" "nx = (N mod D \<noteq> 0)" "inc' = inc" "uf = (nx \<and> mag m q < 2 powi (1 - bias fmt))"
      "in_field (signbit fmt + 1) bits" using T by auto
    have "nx = (mag m q \<noteq> v)" "inc' = (v < mag m q)" using S(5,6) mq(2,5,6) by simp_all
    moreover have "rn = 0 \<and> (\<exists>y. representable fmt y \<and> y \<noteq> mag m q \<and> \<bar>y - v\<bar> = \<bar>mag m q - v\<bar>) \<longrightarrow> even m"
      using S(7) mq(2,3) by auto
    moreover have "rounds_mag fmt rn sign v (mag m q)" using S(4) mq(2) by simp
    ultimately show "correctly_rounded fmt rn sign v (bits, nx, uf, ov, inc')"
      unfolding correctly_rounded_def prod.case using False mq(1,4,7,8) by (simp only: if_False) blast
  qed
qed

lemma pack_ratio_one:
  assumes "0 \<le> n"
  shows "pack n e sign rn fmt = pack_ratio n 1 e sign rn fmt"
proof (cases "n = 0")
  case False
  then have top: "ratio_top n 1 = bit_length n - 1" using assms by (intro ratio_top_one) simp
  define Q where "Q = max (bit_length n - 1 + e - int (fraction fmt)) (1 - bias fmt - int (fraction fmt))"
  have p: "pack n e sign rn fmt = (case rounded_integer n (Q - e) sign rn of
      (mantissa, nx, increment) \<Rightarrow> pack_tail mantissa Q nx increment sign rn fmt)"
    using False by (simp add: pack_def Q_def Let_def)
  have r: "pack_ratio n 1 e sign rn fmt =
      (let N = (if e - Q \<ge> 0 then push_bit (nat (e - Q)) n else n);
           D = (if e - Q \<ge> 0 then 1 else push_bit (nat (- (e - Q))) 1);
           inc = round_up (N div D) (N mod D) D sign rn
       in pack_tail (N div D + of_bool inc) Q (N mod D \<noteq> 0) inc sign rn fmt)"
    using False by (simp add: pack_ratio_def top Q_def Let_def)
  show ?thesis
    unfolding p r by (cases "Q - e \<le> 0") (simp_all add: rounded_integer_def round_up_def Let_def)
qed (simp add: pack_def pack_ratio_def)

lemma pack_rounds:
  assumes "fmt_ok fmt" "is_bit sign" "rn \<in> {0, 1, 2, 3}" "0 < n"
  shows "correctly_rounded fmt rn sign (mag n e) (pack n e sign rn fmt)"
  using pack_ratio_rounds [OF assms, of 1 e] assms(4) by (simp add: mag_def pack_ratio_one)

section \<open>Properties\<close>

text \<open>
  The two packers agree.  Rounding an integer and rounding the ratio of that
  integer to one give the same word and the same flags in every format, mode and
  sign.
\<close>

theorem pack_eq_pack_ratio:
  assumes "0 \<le> n"
  shows "pack n e sign rn fmt = pack_ratio n 1 e sign rn fmt"
  using assms by (rule pack_ratio_one)

theorem pack_eq_pack_ratio_witness: "pack 3 (-1) 1 2 B32 = pack_ratio 3 1 (-1) 1 2 B32"
  by (rule pack_eq_pack_ratio) simp

text \<open>
  C4: \<open>pack_ratio\<close> rounds correctly.  For a positive ratio scaled by a power of
  two, in every rounding mode: without overflow the word decodes to a finite
  number of the given sign which is the nearest representable number (ties to an
  even significand), or the least above or greatest below, as the mode asks; the
  inexact flag says whether it differs from the exact value, the increment flag
  whether it is larger, underflow whether it is inexact and below the normal
  range.  Overflow is reported exactly when the correctly rounded number with
  unbounded exponent is beyond the format, and the word is then infinity or the
  largest finite number.
\<close>

theorem pack_ratio_correctly_rounded:
  assumes "fmt_ok fmt" and "is_bit sign" and "rn \<in> {0, 1, 2, 3}" and "0 < n" and "0 < d"
  shows "correctly_rounded fmt rn sign (real_of_int n / real_of_int d * 2 powi e) (pack_ratio n d e sign rn fmt)"
  using assms by (rule pack_ratio_rounds)

theorem pack_ratio_correctly_rounded_witness:
  "correctly_rounded B64 0 1 (real_of_int 1 / real_of_int 3 * 2 powi 0) (pack_ratio 1 3 0 1 0 B64)"
  by (rule pack_ratio_correctly_rounded) simp_all

end
