(* ===== verification/Fp_Arithmetic.thy ===== *)
theory Fp_Arithmetic
  imports Fp_Rounding
begin

text \<open>
  What \<open>calculate\<close> and \<open>calculate_fma\<close> of \<open>sim/fpu/reference.py\<close> compute, over the
  reals: the four operations and the fused multiply-add are the correctly rounded
  exact results, comparison is the order of the real values, and conversions to a
  wider format and back through \<open>decode\<close> lose nothing.
\<close>

section \<open>Decoded values\<close>

definition word_ok :: "Format \<Rightarrow> int \<Rightarrow> bool" where
  "word_ok fmt w = in_field (signbit fmt + 1) w"

definition sval :: "int \<Rightarrow> int \<Rightarrow> int \<Rightarrow> real" where
  "sval s m e = (if s \<noteq> 0 then - mag m e else mag m e)"

lemma sval_abs: "0 \<le> m \<Longrightarrow> \<bar>sval s m e\<bar> = mag m e"
  by (simp add: sval_def mag_def)

lemma mag_0 [simp]: "mag 0 e = 0"
  by (simp add: mag_def)

lemma mag_signed: "mag (signed_mag s m) e = sval s m e"
  by (simp add: signed_mag_def sval_def mag_def)

lemma mag_pos_iff [simp]: "0 < mag m e \<longleftrightarrow> 0 < m" "mag m e < 0 \<longleftrightarrow> m < 0" "mag m e = 0 \<longleftrightarrow> m = 0"
  by (simp_all add: mag_def zero_less_mult_iff mult_less_0_iff)

lemma decode_sign:
  assumes "word_ok fmt w" "decode w fmt = (k, s, m, e)"
  shows "is_bit s"
proof -
  have "s = drop_bit (signbit fmt) w"
    using assms(2) unfolding decode_fields Let_def by (auto split: if_splits)
  moreover have "take_bit 1 (drop_bit (signbit fmt) w) = drop_bit (signbit fmt) w"
    using assms(1) unfolding word_ok_def in_field_iff by (simp add: take_bit_drop_bit add.commute)
  ultimately have "in_field 1 s" by (metis in_field_take_bit_self)
  then show ?thesis by (simp only: in_field_is_bit)
qed

lemma hidden_or_bounds:
  assumes "in_field k f"
  shows "f OR push_bit k 1 = f + 2 ^ k" "2 ^ k \<le> f OR push_bit k 1" "f OR push_bit k 1 < 2 ^ (k + 1)"
proof -
  have r: "0 \<le> f" "f < 2 ^ k" using assms by (auto simp: in_field_def)
  have "take_bit k (f + 2 ^ k) OR push_bit k 1 = f + 2 ^ k" by (rule low_or_hidden) (use r in auto)
  moreover have "take_bit k (f + 2 ^ k) = f" using r by (simp add: take_bit_eq_mod)
  ultimately show e: "f OR push_bit k 1 = f + 2 ^ k" by simp
  show "2 ^ k \<le> f OR push_bit k 1" "f OR push_bit k 1 < 2 ^ (k + 1)" unfolding e using r by auto
qed

text \<open>A decoded finite number is canonical: full significand, or least quantum.\<close>

lemma decode_finite:
  assumes "decode w fmt = (Finite, s, m, e)" "fmt_ok fmt"
  defines "E \<equiv> take_bit (exponent fmt) (drop_bit (fraction fmt) w)" and "f \<equiv> take_bit (fraction fmt) w"
  shows "0 \<le> m" "m < 2 ^ (fraction fmt + 1)" "qmin fmt \<le> e" "e + int (fraction fmt) + bias fmt < 2 ^ exponent fmt - 1"
    "e = qmin fmt \<or> 2 ^ fraction fmt \<le> m" "take_bit (fraction fmt) m = f"
    "(if m < 2 ^ fraction fmt then 0 else e + int (fraction fmt) + bias fmt) = E"
    "s = drop_bit (signbit fmt) w"
proof -
  have E: "0 \<le> E" "E < 2 ^ exponent fmt" by (simp_all add: E_def)
  have f: "in_field (fraction fmt) f" by (simp add: f_def)
  have d: "E \<noteq> 2 ^ exponent fmt - 1" "s = drop_bit (signbit fmt) w"
    "m = f OR (if E \<noteq> 0 then push_bit (fraction fmt) 1 else 0)"
    "e = (if E \<noteq> 0 then E else 1) - bias fmt - int (fraction fmt)"
    using assms(1) unfolding decode_fields Let_def E_def f_def by (auto split: if_splits)
  have big: "(2::int) ^ 2 \<le> 2 ^ exponent fmt" using assms(2) by (intro power_increasing) (auto simp: fmt_ok_def)
  have fr: "0 \<le> f" "f < 2 ^ fraction fmt" using f by (auto simp: in_field_def)
  have tb: "take_bit (fraction fmt) (f + 2 ^ fraction fmt) = f" using fr by (simp add: take_bit_eq_mod)
  show "s = drop_bit (signbit fmt) w" by (rule d(2))
  show "0 \<le> m" "m < 2 ^ (fraction fmt + 1)" "qmin fmt \<le> e" "e + int (fraction fmt) + bias fmt < 2 ^ exponent fmt - 1"
    "e = qmin fmt \<or> 2 ^ fraction fmt \<le> m" "take_bit (fraction fmt) m = f"
    "(if m < 2 ^ fraction fmt then 0 else e + int (fraction fmt) + bias fmt) = E"
    using d E big fr tb hidden_or_bounds [OF f]
    by (cases "E = 0"; auto simp: qmin_def take_bit_int_eq_self)+
qed

lemma decode_finite_bound:
  assumes "decode w fmt = (Finite, s, m, e)" "fmt_ok fmt"
  shows "mag m e < overflow_bound fmt" "representable fmt (mag m e)"
proof -
  note d = decode_finite [OF assms]
  show "mag m e < overflow_bound fmt"
    unfolding overflow_bound_def using d(2,4) by (intro mag_less_pow [of m "fraction fmt + 1"]) auto
  show "representable fmt (mag m e)" unfolding representable_def using d by blast
qed

section \<open>Exact results are returned exactly\<close>

lemma correctly_rounded_exact:
  assumes c: "correctly_rounded fmt rn sign v (bits, nx, uf, ov, inc)"
    and v: "representable fmt v" "v < overflow_bound fmt"
  obtains m q where "decode bits fmt = (Finite, sign, m, q)" "mag m q = v" "\<not> nx" "\<not> uf" "\<not> ov" "\<not> inc"
    "in_field (signbit fmt + 1) bits"
proof -
  have exact: "x = v" if "rounds_mag fmt rn sign v x" for x
    using that v(1) unfolding rounds_mag_def by (cases "rn = 0"; cases "away rn sign") force+
  have "\<not> ov"
  proof
    assume ov
    then obtain x where "rounds_mag fmt rn sign v x" "overflow_bound fmt \<le> x"
      using c by (auto simp: correctly_rounded_def)
    then show False using exact v(2) by fastforce
  qed
  then obtain m q where mq: "decode bits fmt = (Finite, sign, m, q)" "rounds_mag fmt rn sign v (mag m q)"
    "nx = (mag m q \<noteq> v)" "inc = (v < mag m q)" "uf = (nx \<and> mag m q < 2 powi (1 - bias fmt))"
    "in_field (signbit fmt + 1) bits"
    using c by (auto simp: correctly_rounded_def)
  then show thesis using exact [OF mq(2)] \<open>\<not> ov\<close> by (intro that) auto
qed

section \<open>The specification of an operation\<close>

definition raw_of :: "FpOut \<Rightarrow> int \<times> bool \<times> bool \<times> bool \<times> bool" where
  "raw_of out = (o_bits out, o_nx out, o_uf out, o_of out, o_increment out)"

text \<open>The result for the exact real \<open>x\<close>; \<open>zs\<close> is the sign an exact zero gets.\<close>

definition result_for :: "Format \<Rightarrow> int \<Rightarrow> real \<Rightarrow> int \<Rightarrow> FpOut \<Rightarrow> bool" where
  "result_for fmt rn x zs out \<longleftrightarrow> \<not> o_dz out \<and> \<not> o_invalid out \<and>
     (if x = 0 then raw_of out = (push_bit (signbit fmt) zs, False, False, False, False)
      else correctly_rounded fmt rn (of_bool (x < 0)) \<bar>x\<bar> (raw_of out))"

lemma raw_of_out_raw [simp]: "raw_of (out_raw out raw) = raw"
  by (auto simp: raw_of_def out_raw_def split: prod.splits)

lemma out_raw_flags [simp]: "o_dz (out_raw out raw) = o_dz out" "o_invalid (out_raw out raw) = o_invalid out"
  by (auto simp: out_raw_def split: prod.splits)

lemma out_zero_flags [simp]: "\<not> o_dz out_zero" "\<not> o_invalid out_zero"
  by (simp_all add: out_zero_def)

lemma pack_result:
  assumes "fmt_ok fmt" "rn \<in> {0, 1, 2, 3}" "0 \<le> n" "mag n e = \<bar>x\<bar>"
    and "x \<noteq> 0 \<Longrightarrow> sign = of_bool (x < 0)" "x = 0 \<Longrightarrow> sign = zs" "\<not> o_dz out" "\<not> o_invalid out"
  shows "result_for fmt rn x zs (out_raw out (pack n e sign rn fmt))"
proof (cases "x = 0")
  case True
  then have "n = 0" using assms(4) by simp
  then show ?thesis using True assms by (simp add: result_for_def pack_def)
next
  case False
  then have "0 < n" using assms(3,4) by (metis mag_pos_iff(3) abs_eq_0 order_le_less)
  from pack_rounds [OF assms(1) is_bit_of_bool [of "x < 0"] assms(2) this, of e]
  show ?thesis using False assms by (simp add: result_for_def)
qed

lemma sum_sign_ok:
  assumes "real_of_int vsum * 2 powi e = x"
  shows "x \<noteq> 0 \<Longrightarrow> sum_sign vsum sa sb rn = of_bool (x < 0)"
    "x = 0 \<Longrightarrow> sum_sign vsum sa sb rn = (if sa = sb then sa else of_bool (rn = 3))"
  using assms by (auto simp: sum_sign_def mult_less_0_iff)

lemma aligned_sum:
  assumes "expo = min ea eb"
  shows "mag (push_bit (nat (ea - expo)) va + push_bit (nat (eb - expo)) vb) expo = mag va ea + mag vb eb"
proof -
  have "mag (x + y) expo = mag x expo + mag y expo" for x y by (simp add: mag_def algebra_simps)
  then show ?thesis using mag_push [of "ea - expo" va expo] mag_push [of "eb - expo" vb expo] assms by simp
qed

lemma mag_abs: "mag \<bar>v\<bar> e = \<bar>mag v e\<bar>"
  by (simp add: mag_def abs_mult)

lemma is_bit_xor: "is_bit a \<Longrightarrow> is_bit b \<Longrightarrow> is_bit (a XOR b) \<and> (a XOR b \<noteq> 0 \<longleftrightarrow> (a \<noteq> 0) \<noteq> (b \<noteq> 0))"
  by (auto simp: is_bit_def)

lemma is_bit_eq_of_bool: "is_bit s \<Longrightarrow> s = of_bool (s \<noteq> 0)"
  by (auto simp: is_bit_def)

lemma xor_sign:
  assumes "is_bit sa" "is_bit sb" "x * y \<noteq> 0" "0 \<le> \<bar>x\<bar>" "x < 0 \<longleftrightarrow> sa \<noteq> 0" "y < 0 \<longleftrightarrow> sb \<noteq> (0::int)"
  shows "sa XOR sb = of_bool (x * y < (0::real))"
  using assms by (auto simp: is_bit_def mult_less_0_iff not_less order_le_less)

lemma sval_neg_iff: "0 \<le> m \<Longrightarrow> sval s m e \<noteq> 0 \<Longrightarrow> sval s m e < 0 \<longleftrightarrow> s \<noteq> 0"
  by (auto simp: sval_def order_le_less)

lemma sval_0_iff: "sval s m e = 0 \<longleftrightarrow> m = 0"
  by (simp add: sval_def)

section \<open>The four operations\<close>

definition exact_op :: "string \<Rightarrow> real \<Rightarrow> real \<Rightarrow> real" where
  "exact_op op x y = (if op = ''add'' then x + y else if op = ''sub'' then x - y
     else if op = ''mul'' then x * y else x / y)"

definition zero_sign :: "string \<Rightarrow> int \<Rightarrow> int \<Rightarrow> int \<Rightarrow> int" where
  "zero_sign op sa sb rn =
     (if op = ''add'' then (if sa = sb then sa else of_bool (rn = 3))
      else if op = ''sub'' then (if sa = sb XOR 1 then sa else of_bool (rn = 3))
      else sa XOR sb)"

lemma calc_addsub_finite:
  assumes "fmt_ok fmt" "rn \<in> {0, 1, 2, 3}"
  shows "result_for fmt rn (sval sa ma ea + sval sb mb eb) (if sa = sb then sa else of_bool (rn = 3))
     (calc_addsub (Finite, sa, ma, ea) (Finite, sb, mb, eb) rn fmt)"
proof -
  define expo where "expo = min ea eb"
  define vsum where "vsum = push_bit (nat (ea - expo)) (signed_mag sa ma) + push_bit (nat (eb - expo)) (signed_mag sb mb)"
  have x: "mag vsum expo = sval sa ma ea + sval sb mb eb"
    unfolding vsum_def aligned_sum [OF expo_def] mag_signed ..
  have c: "calc_addsub (Finite, sa, ma, ea) (Finite, sb, mb, eb) rn fmt =
      out_raw out_zero (pack \<bar>vsum\<bar> expo (sum_sign vsum sa sb rn) rn fmt)"
    by (simp add: calc_addsub_def vsum_def expo_def Let_def)
  show ?thesis
    unfolding c
    by (rule pack_result [OF assms])
       (use x sum_sign_ok [of vsum expo, OF x [unfolded mag_def]] in \<open>simp_all add: mag_abs\<close>)
qed

lemma calc_mul_finite:
  assumes "fmt_ok fmt" "rn \<in> {0, 1, 2, 3}" "is_bit sa" "is_bit sb" "0 \<le> ma" "0 \<le> mb"
  shows "result_for fmt rn (sval sa ma ea * sval sb mb eb) (sa XOR sb)
     (calc_mul (Finite, sa, ma, ea) (Finite, sb, mb, eb) rn fmt)"
proof -
  have c: "calc_mul (Finite, sa, ma, ea) (Finite, sb, mb, eb) rn fmt =
      out_raw out_zero (pack (ma * mb) (ea + eb) (sa XOR sb) rn fmt)"
    by (simp add: calc_mul_def)
  have "mag (ma * mb) (ea + eb) = \<bar>sval sa ma ea * sval sb mb eb\<bar>"
    using assms(5,6) by (simp add: abs_mult sval_abs) (simp add: mag_def p2_add)
  moreover have "sa XOR sb = of_bool (sval sa ma ea * sval sb mb eb < 0)" if "sval sa ma ea * sval sb mb eb \<noteq> 0"
    using that assms sval_neg_iff [of ma sa ea] sval_neg_iff [of mb sb eb] by (intro xor_sign) auto
  ultimately show ?thesis
    unfolding c using assms by (intro pack_result) auto
qed

lemma calc_div_finite:
  assumes "fmt_ok fmt" "rn \<in> {0, 1, 2, 3}" "is_bit sa" "is_bit sb" "0 \<le> ma" "0 < mb"
  shows "result_for fmt rn (sval sa ma ea / sval sb mb eb) (sa XOR sb)
     (calc_div (Finite, sa, ma, ea) (Finite, sb, mb, eb) rn fmt)"
proof -
  define x where "x = sval sa ma ea / sval sb mb eb"
  have c: "calc_div (Finite, sa, ma, ea) (Finite, sb, mb, eb) rn fmt =
      out_raw out_zero (pack_ratio ma mb (ea - eb) (sa XOR sb) rn fmt)"
    using assms(6) by (simp add: calc_div_def)
  have ax: "real_of_int ma / real_of_int mb * 2 powi (ea - eb) = \<bar>x\<bar>"
    using assms(5,6) by (simp add: x_def abs_divide sval_abs) (simp add: mag_def power_int_diff)
  show ?thesis
  proof (cases "ma = 0")
    case True
    then show ?thesis unfolding c x_def [symmetric] by (simp add: result_for_def x_def sval_def pack_ratio_def)
  next
    case False
    then have ma: "0 < ma" and x0: "x \<noteq> 0" using assms by (auto simp: x_def sval_0_iff)
    have sg: "sa XOR sb = of_bool (x < 0)"
    proof -
      have "x < 0 \<longleftrightarrow> sval sa ma ea * sval sb mb eb < 0"
        by (auto simp: x_def divide_less_0_iff mult_less_0_iff)
      moreover have "sa XOR sb = of_bool (sval sa ma ea * sval sb mb eb < 0)"
        using ma assms sval_neg_iff [of ma sa ea] sval_neg_iff [of mb sb eb]
        by (intro xor_sign) (auto simp: sval_0_iff)
      ultimately show ?thesis by simp
    qed
    from pack_ratio_rounds [OF assms(1) _ assms(2) ma assms(6), of "sa XOR sb" "ea - eb"]
    show ?thesis unfolding c x_def [symmetric] using x0 sg ax by (simp add: result_for_def)
  qed
qed

lemma calculate_finite:
  assumes fmt: "fmt_ok fmt" and rn: "rn \<in> {0, 1, 2, 3}" and w: "word_ok fmt a" "word_ok fmt b"
    and da: "decode a fmt = (Finite, sa, ma, ea)" and db: "decode b fmt = (Finite, sb, mb, eb)"
    and op: "op \<in> {''add'', ''sub'', ''mul'', ''div''}" "op = ''div'' \<longrightarrow> mb \<noteq> 0"
  shows "\<exists>out. calculate op a b rn fmt = Inr out \<and>
    result_for fmt rn (exact_op op (sval sa ma ea) (sval sb mb eb)) (zero_sign op sa sb rn) out"
proof -
  have bits: "is_bit sa" "is_bit sb" using decode_sign w da db by blast+
  have nn: "0 \<le> ma" "0 \<le> mb" using decode_finite(1) [OF da fmt] decode_finite(1) [OF db fmt] by auto
  have neg: "sval (sb XOR 1) mb eb = - sval sb mb eb" using bits(2) by (auto simp: is_bit_def sval_def)
  consider "op = ''add''" | "op = ''sub''" | "op = ''mul''" | "op = ''div''" "0 < mb"
    using op nn by auto
  then show ?thesis
  proof cases
    case 1
    then show ?thesis using calc_addsub_finite [OF fmt rn, of sa ma ea sb mb eb] da db
      by (simp add: calculate_def is_nan_def exact_op_def zero_sign_def)
  next
    case 2
    then show ?thesis using calc_addsub_finite [OF fmt rn, of sa ma ea "sb XOR 1" mb eb] da db neg
      by (simp add: calculate_def is_nan_def exact_op_def zero_sign_def negate_sign_def)
  next
    case 3
    then show ?thesis using calc_mul_finite [OF fmt rn bits nn, of ea eb] da db
      by (simp add: calculate_def is_nan_def exact_op_def zero_sign_def)
  next
    case 4
    then show ?thesis using calc_div_finite [OF fmt rn bits nn(1), of mb ea eb] da db
      by (simp add: calculate_def is_nan_def exact_op_def zero_sign_def)
  qed
qed

section \<open>Rounding to an integer\<close>

lemma rounded_integer_rounds:
  assumes rn: "rn \<in> {0, 1, 2, 3}" and r: "rounded_integer n shift sign rn = (M, nx, inc)"
  shows "rounds_int rn sign (mag n (- shift)) M" "nx = (of_int M \<noteq> mag n (- shift))" "inc = (mag n (- shift) < of_int M)"
proof -
  have "rounds_int rn sign (mag n (- shift)) M \<and> nx = (of_int M \<noteq> mag n (- shift)) \<and> inc = (mag n (- shift) < of_int M)"
  proof (cases "shift \<le> 0")
    case True
    then have "M = push_bit (nat (- shift)) n" "\<not> nx" "\<not> inc" using r by (auto simp: rounded_integer_def)
    moreover have "real_of_int (push_bit (nat (- shift)) n) = mag n (- shift)"
      using mag_push [of "- shift" n 0] True by (simp add: mag_def)
    ultimately show ?thesis by (auto simp: rounds_int_def)
  next
    case False
    define D :: int where "D = push_bit (nat shift) 1"
    have D0: "0 < D" by (simp add: D_def)
    have u: "real_of_int n / real_of_int D = mag n (- shift)"
      using False by (simp add: D_def mag_def power_int_minus power_int_def field_simps)
    have M: "M = n div D + of_bool (round_up (n div D) (n mod D) D sign rn)" "nx = (n mod D \<noteq> 0)"
      "inc = round_up (n div D) (n mod D) D sign rn"
      using r False by (auto simp: rounded_integer_def D_def Let_def)
    show ?thesis
      using round_up_rounds [OF D0 rn, where N = n and sign = sign] unfolding M u by blast
  qed
  then show "rounds_int rn sign (mag n (- shift)) M" "nx = (of_int M \<noteq> mag n (- shift))" "inc = (mag n (- shift) < of_int M)"
    by auto
qed

section \<open>Comparison, infinities included\<close>

text \<open>Order of the extended reals: an infinity is placed at the overflow bound, beyond every finite number.\<close>

definition ext_val :: "Format \<Rightarrow> fp_kind \<times> int \<times> int \<times> int \<Rightarrow> real" where
  "ext_val fmt d = (case d of (k, s, m, e) \<Rightarrow>
     if k = Inf then (if s \<noteq> 0 then - overflow_bound fmt else overflow_bound fmt) else sval s m e)"

lemma overflow_bound_pos: "0 < overflow_bound fmt"
  by (simp add: overflow_bound_def)

lemma calc_cmp_order:
  assumes fmt: "fmt_ok fmt" and k: "\<not> is_nan ka" "\<not> is_nan kb"
    and da: "decode a fmt = (ka, sa, ma, ea)" and db: "decode b fmt = (kb, sb, mb, eb)"
  defines "x \<equiv> ext_val fmt (ka, sa, ma, ea)" and "y \<equiv> ext_val fmt (kb, sb, mb, eb)"
  shows "calc_cmp (ka, sa, ma, ea) (kb, sb, mb, eb) =
    out_zero\<lparr>o_bits := (if x < y then 1 else if x > y then 2 else 0)\<rparr>"
proof (cases "ka = Inf \<or> kb = Inf")
  case False
  then have fin: "ka = Finite" "kb = Finite" using k by (cases ka; cases kb; simp add: is_nan_def)+
  define expo where "expo = min ea eb"
  define va where "va = push_bit (nat (ea - expo)) (signed_mag sa ma)"
  define vb where "vb = push_bit (nat (eb - expo)) (signed_mag sb mb)"
  have v: "mag va expo = x" "mag vb expo = y"
    using mag_push [of "ea - expo" "signed_mag sa ma" expo] mag_push [of "eb - expo" "signed_mag sb mb" expo] fin
    by (simp_all add: va_def vb_def x_def y_def ext_val_def mag_signed expo_def)
  have "calc_cmp (ka, sa, ma, ea) (kb, sb, mb, eb) = out_zero\<lparr>o_bits := (if va < vb then 1 else if va > vb then 2 else 0)\<rparr>"
    using fin by (simp add: calc_cmp_def is_nan_def va_def vb_def expo_def Let_def)
  then show ?thesis unfolding v [symmetric] mag_less_iff by simp
next
  case True
  have fa: "0 \<le> ma \<and> \<bar>sval sa ma ea\<bar> < overflow_bound fmt" if "ka = Finite"
    using decode_finite(1) decode_finite_bound(1) da fmt that by (metis sval_abs)
  have fb: "0 \<le> mb \<and> \<bar>sval sb mb eb\<bar> < overflow_bound fmt" if "kb = Finite"
    using decode_finite(1) decode_finite_bound(1) db fmt that by (metis sval_abs)
  have pa: "(sval sa ma ea < 0 \<longleftrightarrow> ma \<noteq> 0 \<and> sa \<noteq> 0) \<and> (0 < sval sa ma ea \<longleftrightarrow> ma \<noteq> 0 \<and> sa = 0)" if "ka = Finite"
    using fa [OF that] by (auto simp: sval_def order_le_less)
  have pb: "(sval sb mb eb < 0 \<longleftrightarrow> mb \<noteq> 0 \<and> sb \<noteq> 0) \<and> (0 < sval sb mb eb \<longleftrightarrow> mb \<noteq> 0 \<and> sb = 0)" if "kb = Finite"
    using fb [OF that] by (auto simp: sval_def order_le_less)
  have ka: "ka = Inf \<or> ka = Finite" and kb: "kb = Inf \<or> kb = Finite"
    using k fp_kind.exhaust unfolding is_nan_def by metis+
  note op = overflow_bound_pos [of fmt]
  show ?thesis
    using True ka kb fa fb pa pb op
    unfolding x_def y_def ext_val_def calc_cmp_def
    by (elim disjE) (auto simp: is_nan_def)
qed

section \<open>Packing what was decoded\<close>

lemma bit_length_eq:
  assumes "2 ^ k \<le> m" "m < 2 ^ (k + 1)"
  shows "bit_length m = int k + 1"
proof -
  have "0 < m" using assms(1) zero_less_power [of "2::int" k] by linarith
  then have "bit_length m > int k" "\<not> bit_length m > int (k + 1)" using bit_length_gt [of m k] bit_length_gt [of m "k + 1"] assms by auto
  then show ?thesis by simp
qed

lemma bit_length_le:
  assumes "0 \<le> m" "m < 2 ^ k"
  shows "bit_length m \<le> int k"
  using bit_length_gt [OF assms(1), of k] assms(2) by linarith

lemma word_split:
  fixes w :: int
  shows "(push_bit (signbit fmt) (drop_bit (signbit fmt) w) OR
      push_bit (fraction fmt) (take_bit (exponent fmt) (drop_bit (fraction fmt) w))) OR take_bit (fraction fmt) w = w"
proof (rule bit_eqI)
  fix n
  have "fraction fmt \<le> n \<Longrightarrow> n - fraction fmt < exponent fmt \<longleftrightarrow> n < fraction fmt + exponent fmt" by arith
  then show "bit ((push_bit (signbit fmt) (drop_bit (signbit fmt) w) OR
      push_bit (fraction fmt) (take_bit (exponent fmt) (drop_bit (fraction fmt) w))) OR take_bit (fraction fmt) w) n = bit w n"
    by (cases "n < fraction fmt"; cases "n < fraction fmt + exponent fmt")
       (simp_all add: bit_or_iff bit_push_bit_iff bit_drop_bit_eq bit_take_bit_iff signbit_def)
qed

lemma pack_decode:
  assumes fmt: "fmt_ok fmt" and w: "word_ok fmt w" and d: "decode w fmt = (Finite, s, m, e)"
  shows "pack m e s rn fmt = (w, False, False, False, False)"
proof -
  note c = decode_finite [OF d fmt]
  let ?fr = "fraction fmt"
  have split: "(push_bit (signbit fmt) s OR push_bit ?fr (if m < 2 ^ ?fr then 0 else e + int ?fr + bias fmt)) OR take_bit ?fr m = w"
    using word_split [of fmt w] c(6,7,8) by simp
  show ?thesis
  proof (cases "m = 0")
    case True
    then show ?thesis using split by (simp add: pack_def)
  next
    case False
    then have m: "0 < m" using c(1) by simp
    define Q where "Q = max (bit_length m - 1 + e - int ?fr) (1 - bias fmt - int ?fr)"
    have Q: "Q = e"
      using c(3,5) bit_length_eq [of ?fr m] bit_length_le [of m ?fr] c(1,2)
      by (cases "2 ^ ?fr \<le> m") (auto simp: Q_def qmin_def)
    have nc: "\<not> bit_length m > int ?fr + 1" using bit_length_le [OF c(1,2)] by simp
    have "pack m e s rn fmt = pack_tail m e False False s rn fmt"
    proof -
      have "pack m e s rn fmt = (case rounded_integer m (Q - e) s rn of
          (mantissa, nx, increment) \<Rightarrow> pack_tail mantissa Q nx increment s rn fmt)"
        using False by (simp add: pack_def Q_def Let_def)
      then show ?thesis by (simp add: Q rounded_integer_def)
    qed
    also have "\<dots> = (w, False, False, False, False)"
      using nc c(4) split unfolding pack_tail_def Let_def pow2_mask by (simp split: if_splits)
    finally show ?thesis .
  qed
qed

section \<open>Properties\<close>

text \<open>
  C14: the oracle's add, sub, mul and div are correctly rounded.  For finite
  operands of any format with room for a hidden bit (division: with a nonzero
  divisor), \<open>calculate\<close> returns, raises neither invalid nor divide-by-zero, and
  its word and flags are the correct rounding of the exact real sum, difference,
  product or quotient; an exact zero gets the sign the architecture gives it.
\<close>

theorem calculate_correctly_rounded:
  assumes "fmt_ok fmt" and "rn \<in> {0, 1, 2, 3}" and "word_ok fmt a" and "word_ok fmt b"
    and "decode a fmt = (Finite, sa, ma, ea)" and "decode b fmt = (Finite, sb, mb, eb)"
    and "op \<in> {''add'', ''sub'', ''mul'', ''div''}" and "op = ''div'' \<longrightarrow> mb \<noteq> 0"
  shows "\<exists>out. calculate op a b rn fmt = Inr out \<and>
    result_for fmt rn (exact_op op (sval sa ma ea) (sval sb mb eb)) (zero_sign op sa sb rn) out"
  using assms by (rule calculate_finite)

lemma decode_three_b32: "decode 0x40400000 B32 = (Finite, 0, 0xC00000, -22)"
  and decode_minus_one_b32: "decode 0xBF800000 B32 = (Finite, 1, 0x800000, -23)"
  by (simp_all add: decode_def B32_def signbit_def)

lemma words_b32: "word_ok B32 0x40400000" "word_ok B32 0xBF800000"
  by (simp_all add: word_ok_def in_field_def B32_def signbit_def)

theorem calculate_correctly_rounded_witness:
  "\<exists>out. calculate ''div'' 0xBF800000 0x40400000 0 B32 = Inr out \<and>
     result_for B32 0 (exact_op ''div'' (sval 1 0x800000 (-23)) (sval 0 0xC00000 (-22))) 1 out"
  using calculate_correctly_rounded [OF B32_ok _ words_b32(2,1) decode_minus_one_b32 decode_three_b32, of 0 "''div''"]
  by (simp add: zero_sign_def)

text \<open>
  C15: the fused multiply-add rounds once.  For finite operands the result is the
  correct rounding of the exact real \<open>\<plusminus>(a * b) \<plusminus> c\<close>, with no intermediate rounding.
\<close>

theorem calculate_fma_correctly_rounded:
  assumes "fmt_ok fmt" and "rn \<in> {0, 1, 2, 3}" and "word_ok fmt a" and "word_ok fmt b" and "word_ok fmt c"
    and "decode a fmt = (Finite, sa, ma, ea)" and "decode b fmt = (Finite, sb, mb, eb)"
    and "decode c fmt = (Finite, sc, mc, ec)"
  shows "result_for fmt rn
    ((if np then - (sval sa ma ea * sval sb mb eb) else sval sa ma ea * sval sb mb eb) +
     (if na then - sval sc mc ec else sval sc mc ec))
    (let sp = (sa XOR sb) XOR of_bool np; sd = sc XOR of_bool na in if sp = sd then sp else of_bool (rn = 3))
    (calculate_fma a b c rn fmt np na)"
proof -
  have bits: "is_bit sa" "is_bit sb" "is_bit sc" using decode_sign assms by blast+
  define sp where "sp = (sa XOR sb) XOR of_bool np"
  define sd where "sd = sc XOR of_bool na"
  define expo where "expo = min (ea + eb) ec"
  define vsum where "vsum = signed_mag sp (push_bit (nat (ea + eb - expo)) (ma * mb)) + signed_mag sd (push_bit (nat (ec - expo)) mc)"
  have push: "signed_mag s (push_bit k v) = push_bit k (signed_mag s v)" for s k v
    by (simp add: signed_mag_def push_bit_minus)
  have "mag vsum expo = sval sp (ma * mb) (ea + eb) + sval sd mc ec"
    unfolding vsum_def push aligned_sum [OF expo_def] mag_signed ..
  also have "sval sp (ma * mb) (ea + eb) = (if np then - (sval sa ma ea * sval sb mb eb) else sval sa ma ea * sval sb mb eb)"
    using bits unfolding sp_def by (auto simp: is_bit_def sval_def mag_def p2_add)
  also have "sval sd mc ec = (if na then - sval sc mc ec else sval sc mc ec)"
    using bits unfolding sd_def by (auto simp: is_bit_def sval_def)
  finally have x: "mag vsum expo = (if np then - (sval sa ma ea * sval sb mb eb) else sval sa ma ea * sval sb mb eb) +
     (if na then - sval sc mc ec else sval sc mc ec)" .
  have c: "calculate_fma a b c rn fmt np na =
      out_raw (out_zero\<lparr>o_invalid := False\<rparr>) (pack \<bar>vsum\<bar> expo (sum_sign vsum sp sd rn) rn fmt)"
    using assms(6-8) by (simp add: calculate_fma_def is_nan_def vsum_def expo_def sp_def sd_def Let_def)
  show ?thesis
    unfolding c Let_def sp_def [symmetric] sd_def [symmetric]
    by (rule pack_result [OF assms(1,2)])
       (use x sum_sign_ok [of vsum expo, OF x [unfolded mag_def]] in \<open>simp_all add: mag_abs out_zero_def\<close>)
qed

theorem calculate_fma_correctly_rounded_witness:
  "result_for B32 3 (- (sval 0 0xC00000 (-22) * sval 1 0x800000 (-23)) + sval 1 0x800000 (-23)) 1
     (calculate_fma 0x40400000 0xBF800000 0xBF800000 3 B32 True False)"
  using calculate_fma_correctly_rounded [OF B32_ok _ words_b32(1,2,2) decode_three_b32 decode_minus_one_b32
      decode_minus_one_b32, of 3 True False]
  by simp

text \<open>
  \<open>cmp\<close> orders the operands as extended reals.  With no NaN the code is 1 for
  less, 2 for greater and 0 for equal (so the two zeros are equal and an infinity is
  beyond every finite number of its side) and no flag is set; with a NaN it is 3,
  invalid exactly when one of them is signalling.
\<close>

theorem calculate_cmp_order:
  assumes "fmt_ok fmt" and "decode a fmt = (ka, sa, ma, ea)" and "decode b fmt = (kb, sb, mb, eb)"
  shows "calculate ''cmp'' a b rn fmt = Inr (
    if is_nan ka \<or> is_nan kb then out_zero\<lparr>o_bits := 3, o_invalid := (ka = SNaN \<or> kb = SNaN)\<rparr>
    else let x = ext_val fmt (ka, sa, ma, ea); y = ext_val fmt (kb, sb, mb, eb)
         in out_zero\<lparr>o_bits := (if x < y then 1 else if x > y then 2 else 0)\<rparr>)"
proof (cases "is_nan ka \<or> is_nan kb")
  case True
  then show ?thesis using assms by (simp add: calculate_def calc_cmp_def)
next
  case False
  then show ?thesis using calc_cmp_order [OF assms(1) _ _ assms(2,3)] assms by (simp add: calculate_def Let_def)
qed

theorem calculate_cmp_order_witness:
  "calculate ''cmp'' 0xBF800000 0x40400000 0 B32 = Inr (out_zero\<lparr>o_bits := 1\<rparr>)"
proof -
  have "0 < mag 0x800000 (-23)" "0 < mag 0xC00000 (-22)" by simp_all
  then have "ext_val B32 (Finite, 1, 0x800000, -23) < ext_val B32 (Finite, 0, 0xC00000, -22)"
    unfolding ext_val_def sval_def by (simp del: mag_pos_iff)
  then show ?thesis
    using calculate_cmp_order [OF B32_ok decode_minus_one_b32 decode_three_b32, of 0] by (simp add: is_nan_def Let_def)
qed

text \<open>
  conversion to a 32-bit integer.  A finite operand is rounded to an integer in
  the requested direction, ties to even; in range, the result is its two's
  complement word and the inexact and increment flags compare it with the operand;
  out of range, and for infinities and NaNs, it is the invalid word.
\<close>

theorem calculate_ftoi32:
  assumes "fmt_ok fmt" and "rn \<in> {0, 1, 2, 3}" and "decode a fmt = (k, s, m, e)"
  shows "if k = Finite
    then \<exists>M. rounds_int rn s (mag m e) M \<and>
      calculate ''ftoi32'' a b rn fmt = Inr (
        if - (2 ^ 31) \<le> signed_mag s M \<and> signed_mag s M < 2 ^ 31
        then out_zero\<lparr>o_bits := signed_mag s M mod 2 ^ 32, o_nx := (of_int M \<noteq> mag m e), o_increment := (mag m e < of_int M)\<rparr>
        else out_zero\<lparr>o_bits := 0x80000000, o_invalid := True\<rparr>)
    else calculate ''ftoi32'' a b rn fmt = Inr (out_zero\<lparr>o_bits := 0x80000000, o_invalid := True\<rparr>)"
proof (cases "k = Finite")
  case True
  obtain M nx inc where r: "rounded_integer m (- e) s rn = (M, nx, inc)" by (metis prod_cases3)
  note R = rounded_integer_rounds [OF assms(2) r]
  have "calculate ''ftoi32'' a b rn fmt = Inr (
        if - (2 ^ 31) \<le> signed_mag s M \<and> signed_mag s M < 2 ^ 31
        then out_zero\<lparr>o_bits := signed_mag s M mod 2 ^ 32, o_nx := (of_int M \<noteq> mag m e), o_increment := (mag m e < of_int M)\<rparr>
        else out_zero\<lparr>o_bits := 0x80000000, o_invalid := True\<rparr>)"
    using assms(3) True r R(2,3)
    by (simp add: calculate_def calc_ftoi32_def Let_def and_mask32 take_bit_eq_mod)
  then show ?thesis using True R(1) by auto
next
  case False
  then show ?thesis using assms(3) by (simp add: calculate_def calc_ftoi32_def)
qed

theorem calculate_ftoi32_witness:
  "\<exists>M. rounds_int 1 1 (mag 0x800000 (-23)) M \<and>
     calculate ''ftoi32'' 0xBF800000 0 1 B32 = Inr (
        if - (2 ^ 31) \<le> signed_mag 1 M \<and> signed_mag 1 M < 2 ^ 31
        then out_zero\<lparr>o_bits := signed_mag 1 M mod 2 ^ 32, o_nx := (of_int M \<noteq> mag 0x800000 (-23)),
          o_increment := (mag 0x800000 (-23) < of_int M)\<rparr>
        else out_zero\<lparr>o_bits := 0x80000000, o_invalid := True\<rparr>)"
  using calculate_ftoi32 [OF B32_ok _ decode_minus_one_b32, of 1 0] by simp

text \<open>
  C16: packing inverts decoding.  A finite word decoded and packed again in the same
  format is the same word with no flag raised, in every rounding mode.
\<close>

theorem pack_decode_roundtrip:
  assumes "fmt_ok fmt" and "word_ok fmt w" and "decode w fmt = (Finite, s, m, e)"
  shows "pack m e s rn fmt = (w, False, False, False, False)"
  using assms by (rule pack_decode)

theorem pack_decode_roundtrip_witness: "pack 0xC00000 (-22) 0 2 B32 = (0x40400000, False, False, False, False)"
  by (rule pack_decode_roundtrip [OF B32_ok words_b32(1) decode_three_b32])

lemma representable_widen: "representable B32 y \<Longrightarrow> representable B64 y"
proof -
  assume "representable B32 y"
  then obtain m q where "0 \<le> m" "m < 2 ^ 24" "- 149 \<le> q" "y = mag m q"
    by (auto simp: representable_def B32_def qmin_def)
  then show "representable B64 y"
    unfolding representable_def by (intro exI [of _ m] exI [of _ q]) (auto simp: B64_def qmin_def)
qed

lemma overflow_widen: "overflow_bound B32 \<le> overflow_bound B64"
  unfolding overflow_bound_def by (rule p2_mono) (simp add: B32_def B64_def)

lemma to64_exact:
  assumes "word_ok B32 a" and "decode a B32 = (Finite, s, m, e)" and "rn \<in> {0, 1, 2, 3}"
  shows "\<exists>out m' e'. calculate ''to64'' a b rn B32 = Inr out \<and> decode (o_bits out) B64 = (Finite, s, m', e') \<and>
    sval s m' e' = sval s m e \<and> raw_of out = (o_bits out, False, False, False, False) \<and> \<not> o_invalid out \<and> \<not> o_dz out"
proof -
  have s: "is_bit s" by (rule decode_sign [OF assms(1,2)])
  have c: "calculate ''to64'' a b rn B32 = Inr (out_raw out_zero (pack m e s rn B64))"
    using assms(2) by (simp add: calculate_def calc_convert_def is_nan_def)
  note d = decode_finite_bound [OF assms(2) B32_ok]
  obtain bits nx uf ov inc where raw: "pack m e s rn B64 = (bits, nx, uf, ov, inc)" by (metis prod_cases5)
  have "\<exists>m' e'. decode bits B64 = (Finite, s, m', e') \<and> mag m' e' = mag m e \<and> \<not> nx \<and> \<not> uf \<and> \<not> ov \<and> \<not> inc"
  proof (cases "m = 0")
    case True
    then have "bits = push_bit (signbit B64) s" "\<not> nx" "\<not> uf" "\<not> ov" "\<not> inc" using raw by (auto simp: pack_def)
    moreover have "decode (push_bit (signbit B64) s) B64 = (Finite, s, 0, 1 - bias B64 - int (fraction B64))"
      using decode_encode(1) [OF s, of 0 B64 0] by (simp add: B64_def)
    ultimately show ?thesis using True by simp
  next
    case False
    then have "0 < m" using decode_finite(1) [OF assms(2) B32_ok] by simp
    from pack_rounds [OF B64_ok s assms(3) this, of e]
    have "correctly_rounded B64 rn s (mag m e) (bits, nx, uf, ov, inc)" by (simp add: raw)
    then show ?thesis
      by (rule correctly_rounded_exact)
         (use d representable_widen overflow_widen in \<open>auto intro: order_less_le_trans\<close>)
  qed
  then show ?thesis using c raw by (auto simp: raw_of_def out_raw_def out_zero_def sval_def)
qed

text \<open>
  Widening is exact.  A finite binary32 word converted to binary64 decodes to
  the same real number with the same sign, and no flag is raised.
\<close>

theorem widening_exact:
  assumes "word_ok B32 a" and "decode a B32 = (Finite, s, m, e)" and "rn \<in> {0, 1, 2, 3}"
  shows "\<exists>out m' e'. calculate ''to64'' a b rn B32 = Inr out \<and> decode (o_bits out) B64 = (Finite, s, m', e') \<and>
    sval s m' e' = sval s m e \<and> raw_of out = (o_bits out, False, False, False, False) \<and> \<not> o_invalid out \<and> \<not> o_dz out"
  using assms by (rule to64_exact)

theorem widening_exact_witness:
  "\<exists>out m' e'. calculate ''to64'' 0xBF800000 0 0 B32 = Inr out \<and> decode (o_bits out) B64 = (Finite, 1, m', e') \<and>
     sval 1 m' e' = sval 1 0x800000 (-23)"
  using widening_exact [OF words_b32(2) decode_minus_one_b32, of 0 0] by auto

end
