(* ===== verification/Ppc_Fp.thy ===== *)
theory Ppc_Fp
  imports Fp_Arithmetic
begin

text \<open>
  \<open>sim/fpu/ppc_reference.py\<close>: the PowerPC floating-point result model layered over
  the exact oracle of \<open>Fp_Reference\<close>, and the FPSCR update of
  \<open>sim/fpu/enabled_vectors.py\<close>.  The enable bits, \<open>single\<close> and \<open>ni\<close> are only tested
  for truth by the code and are \<^typ>\<open>bool\<close> here; the dictionary \<open>out\<close> is the record
  \<open>PpcOut\<close>.  \<open>arithmetic\<close> is cut at its early returns into \<open>arith_compare\<close>,
  \<open>arith_invalid\<close>, \<open>arith_fcti\<close>, \<open>arith_nan\<close>, \<open>arith_special\<close> and \<open>arith_round\<close>.
\<close>

section \<open>Classification and unbounded rounding\<close>

definition DEFAULT_NAN :: int where "DEFAULT_NAN = 0x7FF8000000000000"

text \<open>The invalid causes, one bit each.\<close>

definition SNAN :: int where "SNAN = 1"
definition ISI :: int where "ISI = 2"
definition IDI :: int where "IDI = 4"
definition ZDZ :: int where "ZDZ = 8"
definition IMZ :: int where "IMZ = 16"
definition VC :: int where "VC = 32"
definition SQRT :: int where "SQRT = 128"
definition CVI :: int where "CVI = 256"

lemmas cause_defs = SNAN_def ISI_def IDI_def ZDZ_def IMZ_def VC_def SQRT_def CVI_def

definition classify :: "int \<Rightarrow> Format \<Rightarrow> int" where
  "classify bits fmt =
     (case decode bits fmt of (kind, sign, significand, _) \<Rightarrow>
      if is_nan kind then 17
      else if kind = Inf then (if sign \<noteq> 0 then 9 else 5)
      else if significand = 0 then (if sign \<noteq> 0 then 18 else 2)
      else if drop_bit (fraction fmt) bits AND (push_bit (exponent fmt) 1 - 1) = 0
      then (if sign \<noteq> 0 then 24 else 20)
      else (if sign \<noteq> 0 then 8 else 4))"

definition ppc_top :: "int \<Rightarrow> int \<Rightarrow> int \<Rightarrow> int" where
  "ppc_top n d expo =
     (let b = bit_length n - bit_length d;
          b = (if (if b \<ge> 0 then n < push_bit (nat b) d else push_bit (nat (- b)) n < d) then b - 1 else b)
      in b + expo)"

definition unbounded_round :: "int \<Rightarrow> int \<Rightarrow> int \<Rightarrow> int \<Rightarrow> int \<Rightarrow> int \<Rightarrow> int \<times> int \<times> bool \<times> bool" where
  "unbounded_round n d expo sign rn precision =
     (let quantum = ppc_top n d expo - precision + 1;
          shift = expo - quantum;
          scaled_n = (if shift \<ge> 0 then push_bit (nat shift) n else n);
          scaled_d = (if shift \<ge> 0 then d else push_bit (nat (- shift)) d);
          mantissa = scaled_n div scaled_d;
          remainder = scaled_n mod scaled_d;
          inexact = (remainder \<noteq> 0);
          increment = (inexact \<and> ((rn = 0 \<and> (2 * remainder > scaled_d \<or>
                          (2 * remainder = scaled_d \<and> mantissa AND 1 \<noteq> 0))) \<or>
                        (rn = 2 \<and> sign = 0) \<or> (rn = 3 \<and> sign \<noteq> 0)));
          mantissa = mantissa + of_bool increment
      in if bit_length mantissa > precision
         then (drop_bit 1 mantissa, quantum + 1, inexact, increment)
         else (mantissa, quantum, inexact, increment))"

definition finite_value :: "string \<Rightarrow> int \<Rightarrow> int \<Rightarrow> int \<Rightarrow> int \<Rightarrow> int \<times> int \<times> int \<times> int" where
  "finite_value op a b c rn =
     (case (decode a B64, decode b B64, decode c B64) of
        ((ka, sa, ma, ea), (kb, sb0, mb, eb), (kc, sc, mc, ec)) \<Rightarrow>
      if op = ''add'' \<or> op = ''sub''
      then let sb = (if op = ''sub'' then sb0 XOR 1 else sb0);
               expo = min ea eb;
               v = push_bit (nat (ea - expo)) (signed_mag sa ma) + push_bit (nat (eb - expo)) (signed_mag sb mb)
           in (\<bar>v\<bar>, 1, expo, sum_sign v sa sb rn)
      else if op = ''mul'' then (ma * mc, 1, ea + ec, sa XOR sc)
      else if op = ''div'' then (ma, mb, ea - eb, sa XOR sb0)
      else let sb = sb0 XOR of_bool (op = ''msub'' \<or> op = ''nmsub'');
               sp = sa XOR sc;
               expo = min (ea + ec) eb;
               product = push_bit (nat (ea + ec - expo)) (ma * mc);
               addend = push_bit (nat (eb - expo)) mb;
               v = signed_mag sp product + signed_mag sb addend
           in (\<bar>v\<bar>, 1, expo, sum_sign v sp sb rn))"

section \<open>The arithmetic operations\<close>

record PpcOut =
  p_result :: int
  p_write :: bool
  p_invalid :: int
  p_ox :: bool
  p_ux :: bool
  p_zx :: bool
  p_xx :: bool
  p_fr :: bool
  p_fi :: bool
  p_frfi_valid :: bool
  p_fprf :: int
  p_fprf_valid :: bool
  p_fpcc :: int
  p_compare :: bool
  p_tiny :: bool

definition ppc_out :: PpcOut where
  "ppc_out = \<lparr>p_result = 0, p_write = True, p_invalid = 0, p_ox = False, p_ux = False, p_zx = False, p_xx = False,
     p_fr = False, p_fi = False, p_frfi_valid = True, p_fprf = 0, p_fprf_valid = False, p_fpcc = 0,
     p_compare = False, p_tiny = False\<rparr>"

definition is_fma :: "string \<Rightarrow> bool" where
  "is_fma op = (op \<in> {''madd'', ''msub'', ''nmadd'', ''nmsub''})"

definition is_negated :: "string \<Rightarrow> bool" where
  "is_negated op = (op \<in> {''nmadd'', ''nmsub''})"

text \<open>The operands an operation reads.\<close>

definition relevant :: "string \<Rightarrow> int \<Rightarrow> int \<Rightarrow> int \<Rightarrow> int list" where
  "relevant op a b c =
     (if is_fma op then [a, b, c] else if op = ''mul'' then [a, c]
      else if op \<in> {''frsp'', ''fctiw'', ''fctiwz''} then [b] else [a, b])"

definition arith_compare :: "string \<Rightarrow> int \<Rightarrow> int \<Rightarrow> bool \<Rightarrow> PpcOut result" where
  "arith_compare op a b ve =
     (let ka = fst (decode a B64); kb = fst (decode b B64);
          fin = (\<lambda>out. out\<lparr>p_compare := True, p_write := False, p_frfi_valid := False\<rparr>)
      in if is_nan ka \<or> is_nan kb
         then let has_snan = (ka = SNaN \<or> kb = SNaN);
                  inv0 = (if has_snan then SNAN else 0);
                  vx_causes = (if op = ''cmpo'' \<and> (\<not> has_snan \<or> \<not> ve) then inv0 OR VC else inv0)
              in Inr (fin (ppc_out\<lparr>p_fpcc := 1, p_invalid := vx_causes\<rparr>))
         else bindR (calculate ''cmp'' a b 0 B64) (\<lambda>r.
              if 0 \<le> o_bits r \<and> o_bits r < 3
              then Inr (fin (ppc_out\<lparr>p_fpcc := [2, 8, 4] ! nat (o_bits r)\<rparr>)) else Inl IndexError))"

text \<open>The invalid causes found before any special case returns.\<close>

definition arith_invalid :: "string \<Rightarrow> int \<Rightarrow> int \<Rightarrow> int \<Rightarrow> int" where
  "arith_invalid op a b c =
     (case (decode a B64, decode b B64, decode c B64) of
        ((ka, sa, ma, _), (kb, sb, mb, _), (kc, sc, mc, _)) \<Rightarrow>
      let i0 = (if (\<exists>v \<in> set (relevant op a b c). fst (decode v B64) = SNaN) then SNAN else 0);
          i1 = (if (op = ''mul'' \<or> is_fma op) \<and>
                   ((ka = Inf \<and> kc = Finite \<and> mc = 0) \<or> (kc = Inf \<and> ka = Finite \<and> ma = 0))
                then i0 OR IMZ else i0);
          i2 = (if (op = ''add'' \<or> op = ''sub'') \<and> ka = Inf \<and> kb = Inf \<and> (if op = ''add'' then sa \<noteq> sb else sa = sb)
                then i1 OR ISI else i1);
          i3 = (if is_fma op \<and> (ka = Inf \<or> kc = Inf) \<and> kb = Inf \<and> \<not> is_nan ka \<and> \<not> is_nan kc \<and> i2 AND IMZ = 0 \<and>
                   sa XOR sc \<noteq> sb XOR of_bool (op = ''msub'' \<or> op = ''nmsub'')
                then i2 OR ISI else i2);
          i4 = (if op = ''div'' \<and> ka = Inf \<and> kb = Inf then i3 OR IDI else i3)
      in if op = ''div'' \<and> ka = Finite \<and> kb = Finite \<and> ma = 0 \<and> mb = 0 then i4 OR ZDZ else i4)"

definition arith_fcti :: "string \<Rightarrow> int \<Rightarrow> int \<Rightarrow> int \<Rightarrow> bool \<Rightarrow> PpcOut result" where
  "arith_fcti op b rn vx_causes ve =
     (case decode b B64 of (kind, sign, _, _) \<Rightarrow>
      bindR (calculate ''ftoi32'' b 0 (if op = ''fctiwz'' then 1 else rn) B64) (\<lambda>r.
        let out = (if o_invalid r
                   then ppc_out\<lparr>p_invalid := vx_causes OR CVI,
                                p_result := (if is_nan kind \<or> sign \<noteq> 0 then 0x80000000 else 0x7FFFFFFF)\<rparr>
                   else ppc_out\<lparr>p_invalid := vx_causes, p_result := o_bits r, p_xx := o_nx r, p_fi := o_nx r,
                                p_fr := o_increment r\<rparr>)
        in Inr (out\<lparr>p_write := \<not> (ve \<and> p_invalid out \<noteq> 0)\<rparr>)))"

definition arith_nan :: "string \<Rightarrow> int \<Rightarrow> int \<Rightarrow> bool \<Rightarrow> PpcOut" where
  "arith_nan op nan vx_causes ve =
     (let r0 = nan OR push_bit 51 1;
          r = (if op = ''frsp'' then r0 AND NOT (push_bit 29 1 - 1) else r0);
          w = (\<not> (ve \<and> vx_causes \<noteq> 0))
      in ppc_out\<lparr>p_invalid := vx_causes, p_result := r, p_write := w, p_fprf := classify r B64, p_fprf_valid := w\<rparr>)"

text \<open>
  The operations with an infinite operand, a zero divisor or an invalid
  combination; \<open>None\<close> when the exact finite path applies.
\<close>

definition arith_special :: "string \<Rightarrow> int \<Rightarrow> int \<Rightarrow> int \<Rightarrow> int \<Rightarrow> int \<Rightarrow> bool \<Rightarrow> bool \<Rightarrow> PpcOut option result" where
  "arith_special op a b c rn vx_causes ve ze =
     (case (decode a B64, decode b B64, decode c B64) of
        ((ka, sa, ma, _), (kb, sb, mb, _), (kc, sc, mc, _)) \<Rightarrow>
      if op = ''div'' \<and> ka = Finite \<and> ma \<noteq> 0 \<and> kb = Finite \<and> mb = 0
      then let r = push_bit 63 (sa XOR sb) OR infinity B64
           in Inr (Some (ppc_out\<lparr>p_invalid := vx_causes, p_zx := True, p_result := r, p_write := \<not> ze,
                                 p_fprf := classify r B64, p_fprf_valid := \<not> ze\<rparr>))
      else if vx_causes \<noteq> 0
      then Inr (Some (ppc_out\<lparr>p_invalid := vx_causes, p_result := DEFAULT_NAN, p_write := \<not> ve,
                              p_fprf := classify DEFAULT_NAN B64, p_fprf_valid := \<not> ve\<rparr>))
      else if (\<exists>v \<in> set (relevant op a b c). fst (decode v B64) = Inf)
      then bindR (if is_fma op then Inr (calculate_fma a c b rn B64 False (op = ''msub'' \<or> op = ''nmsub''))
                  else calculate op a (if op = ''mul'' then c else b) rn B64) (\<lambda>res.
           let r = (if is_negated op \<and> \<not> is_nan (fst (decode (o_bits res) B64))
                    then o_bits res XOR push_bit 63 1 else o_bits res)
           in Inr (Some (ppc_out\<lparr>p_result := r, p_fprf := classify r B64, p_fprf_valid := True\<rparr>)))
      else Inr None)"

text \<open>The exact finite value \<open>n / d * 2 ^ expo\<close>, rounded once to the destination.\<close>

definition arith_round ::
  "string \<Rightarrow> int \<times> int \<times> int \<times> int \<Rightarrow> int \<Rightarrow> bool \<Rightarrow> bool \<Rightarrow> bool \<Rightarrow> bool \<Rightarrow> PpcOut result" where
  "arith_round op val rn single ni oe ue =
     (case val of (n, d, expo, sign) \<Rightarrow>
      let fmt = (if single \<or> op = ''frsp'' then B32 else B64) in
      case pack_ratio n d expo sign rn fmt of (bits0, nx, uf_after, overflow, increment) \<Rightarrow>
      let tiny = (n \<noteq> 0 \<and> ppc_top n d expo < 1 - bias fmt);
          out = ppc_out\<lparr>p_tiny := tiny, p_ux := tiny \<and> (ue \<or> nx), p_ox := overflow,
                        p_xx := nx \<or> (overflow \<and> \<not> oe), p_fi := nx \<or> (overflow \<and> \<not> oe), p_fr := increment\<rparr>
      in if (overflow \<and> oe) \<or> (tiny \<and> ue)
         then (case unbounded_round n d expo sign rn (int (fraction fmt) + 1) of (mantissa, quantum, inexact, incr) \<Rightarrow>
               let adjustment = (if single \<or> op = ''frsp'' then 192 else 1536) * (if overflow then -1 else 1);
                   adj0 = fst (pack_ratio mantissa 1 (quantum + adjustment) sign 0 B64);
                   adjusted = (if is_negated op then adj0 XOR push_bit 63 1 else adj0)
               in Inr (out\<lparr>p_xx := inexact, p_fi := inexact, p_fr := incr, p_result := adjusted,
                           p_fprf := classify adjusted B64, p_fprf_valid := True\<rparr>))
         else let flush = (ni \<and> bits0 AND infinity fmt = 0 \<and> bits0 AND (push_bit (fraction fmt) 1 - 1) \<noteq> 0);
                  bits1 = (if flush then bits0 AND push_bit (signbit fmt) 1 else bits0);
                  bits2 = (if is_negated op then bits1 XOR push_bit (signbit fmt) 1 else bits1);
                  out2 = out\<lparr>p_fprf := classify bits2 fmt, p_fprf_valid := True\<rparr>
              in if single \<or> op = ''frsp''
                 then bindR (calculate ''to64'' bits2 0 0 B32) (\<lambda>r. Inr (out2\<lparr>p_result := o_bits r\<rparr>))
                 else Inr (out2\<lparr>p_result := bits2\<rparr>))"

definition arithmetic ::
  "string \<Rightarrow> int \<Rightarrow> int \<Rightarrow> int \<Rightarrow> int \<Rightarrow> bool \<Rightarrow> bool \<Rightarrow> bool \<Rightarrow> bool \<Rightarrow> bool \<Rightarrow> bool \<Rightarrow> PpcOut result" where
  "arithmetic op a b c rn single ni ve oe ue ze =
     (if op = ''cmpu'' \<or> op = ''cmpo'' then arith_compare op a b ve
      else let vx_causes = arith_invalid op a b c in
      if op = ''fctiw'' \<or> op = ''fctiwz'' then arith_fcti op b rn vx_causes ve
      else case find (\<lambda>v. is_nan (fst (decode v B64))) (relevant op a b c) of
        Some nan \<Rightarrow> Inr (arith_nan op nan vx_causes ve)
      | None \<Rightarrow>
          if op = ''frsp'' \<and> fst (decode b B64) = Inf
          then Inr (ppc_out\<lparr>p_invalid := vx_causes, p_result := b, p_fprf := classify b B64, p_fprf_valid := True\<rparr>)
          else if op = ''frsp''
          then arith_round op (finite_value ''mul'' b 0 0x3FF0000000000000 rn) rn single ni oe ue
          else if op \<in> {''add'', ''sub'', ''mul'', ''div''} \<or> is_fma op
          then bindR (arith_special op a b c rn vx_causes ve ze) (\<lambda>sp. case sp of
               Some out \<Rightarrow> Inr out
             | None \<Rightarrow> arith_round op (finite_value op a b c rn) rn single ni oe ue)
          else Inl (ValueError op))"

section \<open>The FPSCR after an operation\<close>

definition INVALID_BITS :: "nat list" where
  "INVALID_BITS = [24, 23, 22, 21, 20, 19, 10, 9, 8]"

text \<open>\<open>any(v >> b & 1 for b in INVALID_BITS)\<close>\<close>

definition any_invalid :: "int \<Rightarrow> bool" where
  "any_invalid v = (\<exists>b \<in> set INVALID_BITS. drop_bit b v AND 1 \<noteq> 0)"

definition set_causes :: "int \<Rightarrow> int \<Rightarrow> int" where
  "set_causes old vx_causes =
     foldl (\<lambda>new (cause, b). if drop_bit cause vx_causes AND 1 \<noteq> 0 then new OR push_bit b 1 else new) old
       (zip [0..<length INVALID_BITS] INVALID_BITS)"

definition exception_bits :: int where
  "exception_bits = sum_list (map (\<lambda>b. push_bit b 1) (INVALID_BITS @ [28, 27, 26, 25]))"

definition enabled_exception :: "int \<Rightarrow> bool" where
  "enabled_exception v =
     ((any_invalid v \<and> drop_bit 7 v AND 1 \<noteq> 0) \<or> drop_bit 28 v AND (drop_bit 6 v AND 1) \<noteq> 0 \<or>
      drop_bit 27 v AND (drop_bit 5 v AND 1) \<noteq> 0 \<or> drop_bit 26 v AND (drop_bit 4 v AND 1) \<noteq> 0 \<or>
      drop_bit 25 v AND (drop_bit 3 v AND 1) \<noteq> 0)"

definition fpscr_after :: "int \<Rightarrow> PpcOut \<Rightarrow> int" where
  "fpscr_after old e =
     (let n0 = set_causes old (p_invalid e);
          n1 = foldl (\<lambda>new (flag, b). if flag then new OR push_bit b 1 else new) n0
                 [(p_ox e, 28), (p_ux e, 27), (p_zx e, 26), (p_xx e, 25)];
          n2 = (if p_frfi_valid e
                then (n1 AND NOT (push_bit 17 3)) OR push_bit 18 (of_bool (p_fr e)) OR push_bit 17 (of_bool (p_fi e))
                else n1);
          n3 = (if p_fprf_valid e then (n2 AND NOT (push_bit 12 0x1F)) OR push_bit 12 (p_fprf e) else n2);
          n4 = (if (n3 AND NOT old) AND exception_bits \<noteq> 0 then n3 OR push_bit 31 1 else n3);
          vx = any_invalid n4;
          n5 = (n4 AND NOT (push_bit 29 1)) OR push_bit 29 (of_bool vx);
          fex = ((vx \<and> drop_bit 7 n5 AND 1 \<noteq> 0) \<or> drop_bit 28 n5 AND (drop_bit 6 n5 AND 1) \<noteq> 0 \<or>
            drop_bit 27 n5 AND (drop_bit 5 n5 AND 1) \<noteq> 0 \<or> drop_bit 26 n5 AND (drop_bit 4 n5 AND 1) \<noteq> 0 \<or>
            drop_bit 25 n5 AND (drop_bit 3 n5 AND 1) \<noteq> 0)
      in (n5 AND NOT (push_bit 30 1)) OR push_bit 30 (of_bool fex))"

definition fpscr_mask :: "PpcOut \<Rightarrow> bool \<Rightarrow> int" where
  "fpscr_mask e oe = (if p_ox e \<and> \<not> oe then 0xFFFFFFFF AND NOT (push_bit 18 1) else 0xFFFFFFFF)"

end
