(* ===== verification/Ppc_Fp_Results.thy ===== *)
theory Ppc_Fp_Results
  imports Ppc_Fp
begin

text \<open>
  What the PowerPC result model of \<open>Ppc_Fp\<close> guarantees on finite operands: its
  single-precision results round the exact value once, the results of enabled overflow and underflow are the exactly
  scaled rounding with unbounded exponent, and the FPSCR update is determined bit
  by bit.
\<close>

section \<open>The finite path\<close>

lemma ppc_top_eq: "ppc_top n d e = ratio_top n d + e"
  by (simp add: ppc_top_def ratio_top_def Let_def)

lemma finite_value_raw:
  assumes da: "decode a B64 = (Finite, sa, ma, ea)" and db: "decode b B64 = (Finite, sb, mb, eb)"
    and dc: "decode c B64 = (Finite, sc, mc, ec)"
    and op: "op \<in> {''add'', ''sub'', ''mul'', ''div''}" and nz: "op = ''div'' \<longrightarrow> mb \<noteq> 0"
  shows "\<exists>r. calculate op a (if op = ''mul'' then c else b) rn B64 = Inr r \<and>
    raw_of r = (case finite_value op a b c rn of (n, d, e, s) \<Rightarrow> pack_ratio n d e s rn B64)"
proof -
  have nn: "0 \<le> ma" "0 \<le> mc" using decode_finite(1) [OF da] decode_finite(1) [OF dc] by auto
  consider "op = ''add''" | "op = ''sub''" | "op = ''mul''" | "op = ''div''" using op by auto
  then show ?thesis
  proof cases
    case 1 then show ?thesis
      by (simp add: calculate_def is_nan_def da db dc finite_value_def calc_addsub_def Let_def flip: pack_ratio_one)
  next
    case 2 then show ?thesis
      by (simp add: calculate_def is_nan_def da db dc finite_value_def calc_addsub_def negate_sign_def Let_def flip: pack_ratio_one)
  next
    case 3 then show ?thesis using nn
      by (simp add: calculate_def is_nan_def da db dc finite_value_def calc_mul_def Let_def flip: pack_ratio_one)
  next
    case 4 then show ?thesis using nz
      by (simp add: calculate_def is_nan_def da db dc finite_value_def calc_div_def Let_def)
  qed
qed

lemma finite_value_fma_raw:
  assumes da: "decode a B64 = (Finite, sa, ma, ea)" and db: "decode b B64 = (Finite, sb, mb, eb)"
    and dc: "decode c B64 = (Finite, sc, mc, ec)" and op: "is_fma op"
  shows "raw_of (calculate_fma a c b rn B64 False (op = ''msub'' \<or> op = ''nmsub'')) =
    (case finite_value op a b c rn of (n, d, e, s) \<Rightarrow> pack_ratio n d e s rn B64)"
proof -
  have ops: "op \<noteq> ''add''" "op \<noteq> ''sub''" "op \<noteq> ''mul''" "op \<noteq> ''div''" using op by (auto simp: is_fma_def)
  show ?thesis
    by (simp add: calculate_fma_def is_nan_def da db dc finite_value_def ops Let_def flip: pack_ratio_one)
qed

lemma finite_relevant:
  assumes "fst (decode a B64) = Finite" "fst (decode b B64) = Finite" "fst (decode c B64) = Finite"
    and "v \<in> set (relevant op a b c)"
  shows "fst (decode v B64) = Finite"
  using assms by (auto simp: relevant_def split: if_splits)

lemma arith_finite:
  assumes fin: "fst (decode a B64) = Finite" "fst (decode b B64) = Finite" "fst (decode c B64) = Finite"
    and op: "op \<in> {''add'', ''sub'', ''mul'', ''div''} \<or> is_fma op"
    and nz: "op = ''div'' \<longrightarrow> fst (snd (snd (decode b B64))) \<noteq> 0"
  shows "arithmetic op a b c rn single ni ve oe ue ze =
    arith_round op (finite_value op a b c rn) rn single ni oe ue"
proof -
  obtain sa ma ea sb mb eb sc mc ec where
    d: "decode a B64 = (Finite, sa, ma, ea)" "decode b B64 = (Finite, sb, mb, eb)" "decode c B64 = (Finite, sc, mc, ec)"
    using fin by (metis prod.collapse)
  have fn: "find (\<lambda>v. is_nan (fst (decode v B64))) (relevant op a b c) = None"
    using finite_relevant [OF fin] by (auto simp: find_None_iff is_nan_def)
  have i0: "\<not> (\<exists>v \<in> set (relevant op a b c). fst (decode v B64) = SNaN)"
    "\<not> (\<exists>v \<in> set (relevant op a b c). fst (decode v B64) = Inf)"
    using finite_relevant [OF fin] by auto
  have inv: "arith_invalid op a b c = 0"
    unfolding arith_invalid_def using nz i0 by (auto simp: d)
  have sp: "arith_special op a b c rn 0 ve ze = Inr None"
    unfolding arith_special_def using nz i0 by (auto simp: d)
  have ops: "op \<noteq> ''cmpu''" "op \<noteq> ''cmpo''" "op \<noteq> ''fctiw''" "op \<noteq> ''fctiwz''" "op \<noteq> ''frsp''"
    using op by (auto simp: is_fma_def)
  show ?thesis
    using op by (simp add: arithmetic_def ops inv fn sp)
qed


text \<open>The exact real an operation means; the negated forms negate after rounding.\<close>

definition exact_ppc :: "string \<Rightarrow> real \<Rightarrow> real \<Rightarrow> real \<Rightarrow> real" where
  "exact_ppc op x y z =
     (if op = ''add'' then x + y else if op = ''sub'' then x - y else if op = ''mul'' then x * z
      else if op = ''div'' then x / y else if op = ''msub'' \<or> op = ''nmsub'' then x * z - y else x * z + y)"

definition value_of :: "int \<times> int \<times> int \<times> int \<Rightarrow> real \<Rightarrow> bool" where
  "value_of v x \<longleftrightarrow> (case v of (n, d, e, s) \<Rightarrow> 0 \<le> n \<and> 0 < d \<and> is_bit s \<and>
     real_of_int n / real_of_int d * 2 powi e = \<bar>x\<bar> \<and> (x \<noteq> 0 \<longrightarrow> s = of_bool (x < 0)))"

lemma value_of_sum:
  assumes "mag v e = x" "is_bit sa" "is_bit sb"
  shows "value_of (\<bar>v\<bar>, 1, e, sum_sign v sa sb rn) x"
proof -
  have "is_bit (sum_sign v sa sb rn)" using assms(2,3) by (auto simp: sum_sign_def)
  moreover have "real_of_int \<bar>v\<bar> * 2 powi e = \<bar>x\<bar>" using assms(1) by (simp add: mag_def abs_mult flip: assms(1))
  ultimately show ?thesis
    using sum_sign_ok(1) [of v e x sa sb rn] assms(1) by (simp add: value_of_def mag_def)
qed

lemma sval_xor_mult:
  assumes "is_bit s" "is_bit t"
  shows "sval (s XOR t) (m * n) (e + f) = sval s m e * sval t n f"
  using assms by (auto simp: is_bit_def sval_def mag_def p2_add)

lemma finite_value_exact:
  assumes w: "word_ok B64 a" "word_ok B64 b" "word_ok B64 c"
    and da: "decode a B64 = (Finite, sa, ma, ea)" and db: "decode b B64 = (Finite, sb, mb, eb)"
    and dc: "decode c B64 = (Finite, sc, mc, ec)"
    and op: "op \<in> {''add'', ''sub'', ''mul'', ''div''} \<or> is_fma op" and nz: "op = ''div'' \<longrightarrow> mb \<noteq> 0"
  shows "value_of (finite_value op a b c rn) (exact_ppc op (sval sa ma ea) (sval sb mb eb) (sval sc mc ec))"
proof -
  have bits: "is_bit sa" "is_bit sb" "is_bit sc" using decode_sign w da db dc by blast+
  have nn: "0 \<le> ma" "0 \<le> mb" "0 \<le> mc"
    using decode_finite(1) [OF da] decode_finite(1) [OF db] decode_finite(1) [OF dc] by auto
  have neg: "sval (sb XOR 1) mb eb = - sval sb mb eb" "is_bit (sb XOR 1)" using bits(2) by (auto simp: is_bit_def sval_def)
  have push: "signed_mag s (push_bit k v) = push_bit k (signed_mag s v)" for s k v
    by (simp add: signed_mag_def push_bit_minus)
  have xb: "is_bit (sa XOR sc)" "is_bit (sa XOR sb)" using bits by (auto simp: is_bit_def)
  consider "op = ''add''" | "op = ''sub''" | "op = ''mul''" | "op = ''div''" | "is_fma op" using op by auto
  then show ?thesis
  proof cases
    case 1 then show ?thesis using bits
      by (simp add: finite_value_def da db dc exact_ppc_def Let_def value_of_sum aligned_sum mag_signed)
  next
    case 2 then show ?thesis using bits neg
      by (simp add: finite_value_def da db dc exact_ppc_def Let_def value_of_sum aligned_sum mag_signed)
  next
    case 3
    have x: "sval sa ma ea * sval sc mc ec = sval (sa XOR sc) (ma * mc) (ea + ec)"
      by (simp add: sval_xor_mult bits)
    show ?thesis using 3 bits nn sval_neg_iff [of "ma * mc" "sa XOR sc" "ea + ec"] sval_abs [of "ma * mc" "sa XOR sc" "ea + ec"]
        is_bit_eq_of_bool [OF xb(1)]
      by (simp add: finite_value_def da db dc exact_ppc_def value_of_def x mag_def xb)
  next
    case 4
    then have "0 < mb" using nz nn by simp
    have x: "sval sa ma ea / sval sb mb eb = sval (sa XOR sb) ma ea / mag mb eb"
      using bits by (auto simp: is_bit_def sval_def)
    have "sval (sa XOR sb) ma ea / mag mb eb < 0 \<longleftrightarrow> sa XOR sb \<noteq> 0" if "sval (sa XOR sb) ma ea \<noteq> 0"
      using sval_neg_iff [of ma "sa XOR sb" ea] that nn \<open>0 < mb\<close> by (simp add: divide_less_0_iff)
    moreover have "\<bar>sval (sa XOR sb) ma ea / mag mb eb\<bar> = real_of_int ma / real_of_int mb * 2 powi (ea - eb)"
      using nn \<open>0 < mb\<close> by (simp add: abs_divide sval_abs) (simp add: mag_def power_int_diff)
    ultimately show ?thesis using 4 nn \<open>0 < mb\<close> is_bit_eq_of_bool [OF xb(2)]
      by (simp add: finite_value_def da db dc exact_ppc_def value_of_def x xb)
  next
    case 5
    then have ops: "op \<noteq> ''add''" "op \<noteq> ''sub''" "op \<noteq> ''mul''" "op \<noteq> ''div''" by (auto simp: is_fma_def)
    show ?thesis
    proof (cases "op = ''msub'' \<or> op = ''nmsub''")
      case True
      then show ?thesis using bits neg xb
        by (simp add: finite_value_def da db dc exact_ppc_def ops Let_def value_of_sum push aligned_sum mag_signed sval_xor_mult)
    next
      case False
      then show ?thesis using bits xb
        by (simp add: finite_value_def da db dc exact_ppc_def ops Let_def value_of_sum push aligned_sum mag_signed sval_xor_mult)
    qed
  qed
qed


lemma pack_tail_overflow_nx: "pack_tail m q nx inc s rn fmt = (bits, nx', uf, ov, inc') \<Longrightarrow> ov \<Longrightarrow> nx'"
  unfolding pack_tail_def Let_def by (simp split: if_splits)

lemma pack_ratio_overflow_nx:
  assumes "pack_ratio n d e s rn fmt = (bits, nx, uf, ov, inc)" "ov"
  shows "nx"
proof (cases "n = 0")
  case False
  show ?thesis
    by (rule pack_tail_overflow_nx [OF assms(1) [unfolded pack_ratio_def Let_def if_not_P [OF False]] assms(2)])
qed (use assms in \<open>simp add: pack_ratio_def\<close>)

lemma unbounded_round_rounds:
  assumes rn: "rn \<in> {0, 1, 2, 3}" and n: "0 < n" and d: "0 < d"
    and q: "qmin fmt \<le> ppc_top n d e - int (fraction fmt)"
    and r: "unbounded_round n d e sign rn (int (fraction fmt) + 1) = (m, q, nx, inc)"
  defines "v \<equiv> real_of_int n / real_of_int d * 2 powi e"
  shows "rounds_mag fmt rn sign v (mag m q)" "nx = (mag m q \<noteq> v)" "inc = (v < mag m q)"
    "2 ^ fraction fmt \<le> m" "m < 2 ^ (fraction fmt + 1)"
    "ppc_top n d e - int (fraction fmt) \<le> q" "q \<le> ppc_top n d e - int (fraction fmt) + 1"
proof -
  let ?fr = "fraction fmt"
  define Q where "Q = max (ratio_top n d + e - int ?fr) (qmin fmt)"
  define N where "N = (if e - Q \<ge> 0 then push_bit (nat (e - Q)) n else n)"
  define D where "D = (if e - Q \<ge> 0 then d else push_bit (nat (- (e - Q))) d)"
  define inc' where "inc' = round_up (N div D) (N mod D) D sign rn"
  define M where "M = N div D + of_bool inc'"
  note S = scaled_round [OF rn n d, where e = e and fmt = fmt and sign = sign, folded v_def, folded Q_def,
      folded N_def D_def, folded inc'_def, folded M_def]
  have Q: "Q = ppc_top n d e - int ?fr" using q by (simp add: Q_def ppc_top_eq)
  have Q': "ppc_top n d e - (int ?fr + 1) + 1 = Q" by (simp add: Q)
  have carry: "bit_length M > int ?fr + 1 \<longleftrightarrow> M = 2 ^ (?fr + 1)"
    using bit_length_gt [OF S(1), of "?fr + 1"] S(2) by auto
  have u: "unbounded_round n d e sign rn (int ?fr + 1) =
     (if M = 2 ^ (?fr + 1) then (drop_bit 1 M, Q + 1, N mod D \<noteq> 0, inc') else (M, Q, N mod D \<noteq> 0, inc'))"
  proof -
    have "unbounded_round n d e sign rn (int ?fr + 1) =
       (if bit_length M > int ?fr + 1 then (drop_bit 1 M, Q + 1, N mod D \<noteq> 0, inc') else (M, Q, N mod D \<noteq> 0, inc'))"
      unfolding unbounded_round_def Let_def Q' by (simp only: M_def inc'_def N_def D_def round_up_def)
    then show ?thesis unfolding carry .
  qed
  have low: "2 ^ ?fr \<le> M"
  proof (rule ccontr)
    assume "\<not> 2 ^ ?fr \<le> M"
    then have "mag M Q < 2 powi (Q + int ?fr)" by (intro mag_less_pow [of M ?fr]) auto
    also have "\<dots> \<le> v" using ratio_binade(1) [OF n d, of e] by (simp add: v_def Q ppc_top_eq)
    finally have "mag M Q < v" .
    moreover have "representable fmt (2 powi (Q + int ?fr))"
    proof -
      have "mag (2 ^ ?fr) Q = 2 powi (Q + int ?fr)" by (simp add: mag_def p2_add)
      then show ?thesis using representable_carry [of "2 ^ ?fr" fmt Q] Q q by simp
    qed
    ultimately show False using S(4) \<open>mag M Q < 2 powi (Q + int ?fr)\<close> \<open>2 powi (Q + int ?fr) \<le> v\<close>
      unfolding rounds_mag_def by (smt (verit))
  qed
  have mM: "mag m q = mag M Q" "2 ^ ?fr \<le> m" "m < 2 ^ (?fr + 1)" "nx = (N mod D \<noteq> 0)" "inc = inc'" "Q \<le> q" "q \<le> Q + 1"
    using r [unfolded u] low S(2) by (auto simp: drop_bit_eq_div mag_def p2_add split: if_splits)
  show "rounds_mag fmt rn sign v (mag m q)" "nx = (mag m q \<noteq> v)" "inc = (v < mag m q)"
    using S(4-6) mM by simp_all
  show "2 ^ ?fr \<le> m" "m < 2 ^ (?fr + 1)" "ppc_top n d e - int ?fr \<le> q" "q \<le> ppc_top n d e - int ?fr + 1"
    using mM Q by simp_all
qed


lemma arith_round_double:
  assumes "pack_ratio n d e s rn B64 = (bits, nx, uf, ov, inc)" "op \<noteq> ''frsp''"
  shows "arith_round op (n, d, e, s) rn False False False False =
    (let w = (if is_negated op then bits XOR push_bit 63 1 else bits); tiny = (n \<noteq> 0 \<and> ppc_top n d e < - 1022)
     in Inr (ppc_out\<lparr>p_tiny := tiny, p_ux := tiny \<and> nx, p_ox := ov, p_xx := nx, p_fi := nx, p_fr := inc,
        p_fprf := classify w B64, p_fprf_valid := True, p_result := w\<rparr>))"
proof -
  have "nx \<or> ov \<longleftrightarrow> nx" using pack_ratio_overflow_nx [OF assms(1)] by blast
  then show ?thesis
    using assms by (simp add: arith_round_def Let_def signbit_def B64_def ppc_out_def)
qed

definition reference_op :: "string \<Rightarrow> int \<Rightarrow> int \<Rightarrow> int \<Rightarrow> int \<Rightarrow> FpOut result" where
  "reference_op op a b c rn =
     (if is_fma op then Inr (calculate_fma a c b rn B64 False (op = ''msub'' \<or> op = ''nmsub''))
      else calculate op a (if op = ''mul'' then c else b) rn B64)"



lemma tiny_iff:
  assumes "0 < n" "0 < d"
  shows "ppc_top n d e < k \<longleftrightarrow> real_of_int n / real_of_int d * 2 powi e < 2 powi k"
proof -
  note b = ratio_binade [OF assms, of e]
  show ?thesis
    using p2_mono [of "ratio_top n d + e + 1" k] p2_mono [of k "ratio_top n d + e"] b
    by (cases "ppc_top n d e < k") (simp_all add: ppc_top_eq)
qed

lemma decode_flip:
  assumes "word_ok fmt w" "decode w fmt = (k, s, m, e)"
  shows "decode (w XOR push_bit (signbit fmt) 1) fmt = (k, s XOR 1, m, e)" "word_ok fmt (w XOR push_bit (signbit fmt) 1)"
proof -
  let ?w = "w XOR push_bit (signbit fmt) 1"
  have "take_bit (exponent fmt) (drop_bit (fraction fmt) ?w) = take_bit (exponent fmt) (drop_bit (fraction fmt) w)"
    by (rule bit_eqI) (auto simp: bit_take_bit_iff bit_drop_bit_eq bit_xor_iff bit_exp_iff signbit_def)
  moreover have "take_bit (fraction fmt) ?w = take_bit (fraction fmt) w"
    by (rule bit_eqI) (auto simp: bit_take_bit_iff bit_xor_iff bit_exp_iff signbit_def)
  moreover have "drop_bit (signbit fmt) ?w = drop_bit (signbit fmt) w XOR 1"
    by (simp add: drop_bit_xor drop_bit_push_bit flip: push_bit_of_1)
  ultimately show "decode ?w fmt = (k, s XOR 1, m, e)"
    using assms(2) unfolding decode_fields Let_def by (auto split: if_splits)
  show "word_ok fmt ?w"
    using assms(1) unfolding word_ok_def in_field_iff by (simp add: take_bit_xor)
qed

lemma arith_round_single:
  assumes "pack_ratio n d e s rn B32 = (bits, nx, uf, ov, inc)"
  shows "arith_round op (n, d, e, s) rn True False False False =
    (let w = (if is_negated op then bits XOR push_bit 31 1 else bits); tiny = (n \<noteq> 0 \<and> ppc_top n d e < - 126)
     in bindR (calculate ''to64'' w 0 0 B32) (\<lambda>r. Inr (ppc_out\<lparr>p_tiny := tiny, p_ux := tiny \<and> nx, p_ox := ov,
        p_xx := nx, p_fi := nx, p_fr := inc, p_fprf := classify w B32, p_fprf_valid := True, p_result := o_bits r\<rparr>)))"
proof -
  have "nx \<or> ov \<longleftrightarrow> nx" using pack_ratio_overflow_nx [OF assms(1)] by blast
  then show ?thesis
    using assms by (simp add: arith_round_def Let_def signbit_def B32_def ppc_out_def)
qed



lemma pack_exact_b64:
  assumes s: "is_bit s" and m: "0 < m" "m < 2 ^ (k + 1)" "k \<le> 52"
    and q: "- 1022 - int k \<le> q" "q + int k + 1 \<le> 1024"
  shows "\<exists>m' q'. decode (fst (pack_ratio m 1 q s 0 B64)) B64 = (Finite, s, m', q') \<and> mag m' q' = mag m q \<and>
    word_ok B64 (fst (pack_ratio m 1 q s 0 B64))"
proof -
  obtain bits nx uf ov inc where raw: "pack_ratio m 1 q s 0 B64 = (bits, nx, uf, ov, inc)" by (metis prod_cases5)
  have "(2::int) ^ (k + 1) \<le> 2 ^ 53" using m(3) by (intro power_increasing) auto
  then have "m < 2 ^ 53" using m(2) by linarith
  then have rep: "representable B64 (mag m q)"
  proof -
    have "representable B64 (mag m q)" if "- 1074 \<le> q"
      using that m(1) \<open>m < 2 ^ 53\<close> unfolding representable_def
      by (intro exI [of _ m] exI [of _ q]) (simp add: B64_def qmin_def)
    then show ?thesis using q(1) m(3) by linarith
  qed
  have "mag m q < 2 powi 1024" using m(2) q(2) by (intro mag_less_pow [of m "k + 1"]) auto
  then have "mag m q < overflow_bound B64" by (simp add: overflow_bound_def B64_def)
  moreover have "correctly_rounded B64 0 s (mag m q) (bits, nx, uf, ov, inc)"
    using pack_ratio_rounds [OF B64_ok s _ m(1), of 0 1 q] by (simp add: raw mag_def)
  ultimately show ?thesis
    using rep raw by (elim correctly_rounded_exact) (auto simp: word_ok_def)
qed


lemma arith_round_flags:
  assumes "pack_ratio n d e s rn fmt = (bits, nx, uf, ov, inc)"
    and "fmt = (if single \<or> op = ''frsp'' then B32 else B64)"
    and "arith_round op (n, d, e, s) rn single ni oe ue = Inr out"
  shows "p_ox out = ov" "p_tiny out = (n \<noteq> 0 \<and> ppc_top n d e < 1 - bias fmt)"
proof -
  define tiny where "tiny = (n \<noteq> 0 \<and> ppc_top n d e < 1 - bias fmt)"
  obtain m q ix inc' where ub: "unbounded_round n d e s rn (int (fraction fmt) + 1) = (m, q, ix, inc')"
    by (metis prod_cases4)
  have "p_ox out = ov \<and> p_tiny out = tiny"
    using assms(3) unfolding arith_round_def prod.case Let_def assms(2) [symmetric] assms(1) ub tiny_def [symmetric]
    by (cases "(ov \<and> oe) \<or> (tiny \<and> ue)"; cases "single \<or> op = ''frsp''") (auto simp: bindR_eq_Inr)
  then show "p_ox out = ov" "p_tiny out = (n \<noteq> 0 \<and> ppc_top n d e < 1 - bias fmt)" by (simp_all add: tiny_def)
qed

lemma arith_round_wrapped:
  assumes "pack_ratio n d e s rn fmt = (bits, nx, uf, ov, inc)"
    and "fmt = (if single \<or> op = ''frsp'' then B32 else B64)"
    and "unbounded_round n d e s rn (int (fraction fmt) + 1) = (m, q, ix, inc')"
    and "(ov \<and> oe) \<or> (n \<noteq> 0 \<and> ppc_top n d e < 1 - bias fmt \<and> ue)"
  defines "adj \<equiv> (if single \<or> op = ''frsp'' then 192 else 1536) * (if ov then - 1 else 1)"
  shows "\<exists>out. arith_round op (n, d, e, s) rn single ni oe ue = Inr out \<and> p_ox out = ov \<and>
    p_tiny out = (n \<noteq> 0 \<and> ppc_top n d e < 1 - bias fmt) \<and> p_xx out = ix \<and> p_fr out = inc' \<and> p_write out \<and>
    p_result out = (let r = fst (pack_ratio m 1 (q + adj) s 0 B64) in if is_negated op then r XOR push_bit 63 1 else r)"
  using assms(4) unfolding arith_round_def prod.case Let_def assms(2) [symmetric] assms(1) assms(3) adj_def
  by (simp add: ppc_out_def)

section \<open>The FPSCR, bit by bit\<close>

lemma drop_and_1: "(drop_bit b v AND (1::int) \<noteq> 0) = bit v b"
  by (simp add: and_one_eq bit_iff_odd_drop_bit odd_iff_mod_2_eq_one)

lemma drop_and_drop: "(drop_bit a v AND (drop_bit b v AND (1::int)) \<noteq> 0) = (bit v a \<and> bit v b)"
proof -
  have "drop_bit a v AND (drop_bit b v AND (1::int)) = of_bool (bit v a \<and> bit v b)"
    by (rule bit_eqI) (auto simp: bit_and_iff bit_drop_bit_eq bit_1_iff intro!: gr0I)
  then show ?thesis by simp
qed

lemma bit_fold_flags:
  "bit (foldl (\<lambda>new (c, b). if P c then new OR push_bit b 1 else new) v xs) n =
   (bit v n \<or> (\<exists>(c, b) \<in> set xs. P c \<and> b = n))" for v :: int
  by (induction xs arbitrary: v) (auto simp: bit_or_iff bit_exp_iff split: if_splits)

definition exceptions :: "nat set" where
  "exceptions = set INVALID_BITS \<union> {25, 26, 27, 28}"

lemma exception_bits_or:
  "exception_bits = push_bit 24 1 OR (push_bit 23 1 OR (push_bit 22 1 OR (push_bit 21 1 OR (push_bit 20 1 OR (push_bit 19 1 OR
     (push_bit 10 1 OR (push_bit 9 1 OR (push_bit 8 1 OR (push_bit 28 1 OR (push_bit 27 1 OR (push_bit 26 1 OR push_bit 25 1)))))))))))"
  by (simp add: exception_bits_def INVALID_BITS_def)

lemma bit_one_push: "bit (push_bit p (1::int)) n = (n = p)"
  by (auto simp: bit_exp_iff)

lemma bit_exception_bits: "bit exception_bits n = (n \<in> exceptions)"
  unfolding exception_bits_or bit_or_iff bit_one_push exceptions_def INVALID_BITS_def by auto

lemma new_exception:
  "((v AND NOT old) AND exception_bits \<noteq> 0) = (\<exists>n \<in> exceptions. bit v n \<and> \<not> bit old n)"
proof -
  have "((v AND NOT old) AND exception_bits \<noteq> 0) = (\<exists>n. bit ((v AND NOT old) AND exception_bits) n)"
    by (metis bit_0_eq bit_eqI bot_apply bot_bool_def)
  then show ?thesis by (auto simp: bit_and_iff bit_not_iff bit_exception_bits)
qed

lemma bit_set_one: "bit (v OR push_bit p 1) n = (bit v n \<or> n = p)" for v :: int
  by (auto simp: bit_or_iff bit_exp_iff)

lemma bit_field_update:
  "bit ((v AND NOT (push_bit p m)) OR push_bit p x) n =
     (if p \<le> n then (bit v n \<and> \<not> bit m (n - p)) \<or> bit x (n - p) else bit v n)" for v m x :: int
  by (auto simp: bit_or_iff bit_and_iff bit_not_iff bit_push_bit_iff)

lemma bit_put:
  "bit ((v AND NOT (push_bit p 1)) OR push_bit p (of_bool P)) n = (if n = p then P else bit v n)" for v :: int
  unfolding bit_field_update by (auto simp: bit_1_iff)

lemma bit_field_update2:
  "bit ((v AND NOT (push_bit p m)) OR push_bit q x OR push_bit p y) n =
     ((bit v n \<and> \<not> (p \<le> n \<and> bit m (n - p))) \<or> (q \<le> n \<and> bit x (n - q)) \<or> (p \<le> n \<and> bit y (n - p)))" for v m x y :: int
  by (auto simp: bit_or_iff bit_and_iff bit_not_iff bit_push_bit_iff)

text \<open>The exception an operation raises at an FPSCR bit.\<close>

definition raises :: "PpcOut \<Rightarrow> nat \<Rightarrow> bool" where
  "raises e n \<longleftrightarrow> (\<exists>i < 9. INVALID_BITS ! i = n \<and> bit (p_invalid e) i) \<or>
     (n = 28 \<and> p_ox e) \<or> (n = 27 \<and> p_ux e) \<or> (n = 26 \<and> p_zx e) \<or> (n = 25 \<and> p_xx e)"

lemma len_INVALID_BITS: "length INVALID_BITS = 9"
  by (simp add: INVALID_BITS_def)

lemma bit_set_causes: "bit (set_causes old i) n = (bit old n \<or> (\<exists>k < 9. INVALID_BITS ! k = n \<and> bit i k))"
  unfolding set_causes_def bit_fold_flags drop_and_1 set_zip len_INVALID_BITS by auto

section \<open>Properties\<close>

text \<open>
  C18: single-precision operations round once.  For finite double operands with a
  nonzero exact value \<open>x\<close> of the operation, \<open>arithmetic\<close> in single precision
  returns, and unless it overflows the double word it delivers is the binary32
  rounding of \<open>x\<close> itself, in the rounding mode, exactly widened; XX says whether it
  is inexact, FR whether the magnitude grew, and UX is set exactly when it is
  inexact and \<open>x\<close> is below the normal range before rounding.
\<close>

theorem arithmetic_single_rounds_once:
  assumes "word_ok B64 a" and "word_ok B64 b" and "word_ok B64 c"
    and "decode a B64 = (Finite, sa, ma, ea)" and "decode b B64 = (Finite, sb, mb, eb)"
    and "decode c B64 = (Finite, sc, mc, ec)" and "rn \<in> {0, 1, 2, 3}"
    and "op \<in> {''add'', ''sub'', ''mul'', ''div''} \<or> is_fma op" and "op = ''div'' \<longrightarrow> mb \<noteq> 0"
    and "x = exact_ppc op (sval sa ma ea) (sval sb mb eb) (sval sc mc ec)" and "x \<noteq> 0"
  shows "\<exists>out. arithmetic op a b c rn True False ve False False ze = Inr out \<and> (\<not> p_ox out \<longrightarrow> (\<exists>s m q. decode (p_result out) B64 = (Finite, s, m, q) \<and>
    s = of_bool (x < 0) XOR of_bool (is_negated op) \<and> rounds_mag B32 rn (of_bool (x < 0)) \<bar>x\<bar> (mag m q) \<and>
    p_xx out = (mag m q \<noteq> \<bar>x\<bar>) \<and> p_fr out = (\<bar>x\<bar> < mag m q) \<and> p_ux out = (p_xx out \<and> \<bar>x\<bar> < 2 powi (- 126))))"
proof -
  obtain n d e s where v: "finite_value op a b c rn = (n, d, e, s)" by (metis prod_cases4)
  have val: "0 \<le> n" "0 < d" "s = of_bool (x < 0)" "real_of_int n / real_of_int d * 2 powi e = \<bar>x\<bar>"
    using finite_value_exact [OF assms(1-6,8,9), of rn, folded assms(10)] assms(11) by (auto simp: v value_of_def)
  then have n: "0 < n" using assms(11) by (metis abs_eq_0 div_0 mult_zero_left of_int_0 order_le_less)
  obtain bits nx uf ov inc where raw: "pack_ratio n d e s rn B32 = (bits, nx, uf, ov, inc)" by (metis prod_cases5)
  define w where "w = (if is_negated op then bits XOR push_bit 31 1 else bits)"
  have a: "arithmetic op a b c rn True False ve False False ze = arith_round op (n, d, e, s) rn True False False False"
    using arith_finite [of a b c op rn True False ve False False ze] assms(4-6,8,9) v by simp
  obtain r where cr: "calculate ''to64'' w 0 0 B32 = Inr r" by (simp add: calculate_def)
  then obtain out where out: "arithmetic op a b c rn True False ve False False ze = Inr out"
    unfolding a arith_round_single [OF raw] Let_def w_def [symmetric] by simp
  have r: "calculate ''to64'' w 0 0 B32 = Inr r" "p_result out = o_bits r" "p_ox out = ov" "p_xx out = nx"
    "p_fr out = inc" "p_ux out = (ppc_top n d e < -126 \<and> nx)"
    using out n cr unfolding a arith_round_single [OF raw] Let_def w_def [symmetric]
    by (auto simp: ppc_out_def)
  show ?thesis
  proof (rule exI [of _ out], rule conjI [OF out], rule impI)
    assume nov: "\<not> p_ox out"
    have sb: "is_bit s" by (simp add: val(3))
    from pack_ratio_rounds [OF B32_ok sb assms(7) n val(2), of e, unfolded val(4) raw] r(3) nov
    obtain m q where mq: "decode bits B32 = (Finite, s, m, q)" "word_ok B32 bits" "rounds_mag B32 rn s \<bar>x\<bar> (mag m q)"
      "nx = (mag m q \<noteq> \<bar>x\<bar>)" "inc = (\<bar>x\<bar> < mag m q)"
      by (auto simp: correctly_rounded_def word_ok_def)
    let ?s = "s XOR of_bool (is_negated op)"
    have w: "decode w B32 = (Finite, ?s, m, q)" "word_ok B32 w"
      using mq(1,2) decode_flip [OF mq(2,1)] by (auto simp: w_def B32_def signbit_def)
    from to64_exact [OF w(2,1), of 0 0] r(1)
    obtain m' q' where m': "decode (o_bits r) B64 = (Finite, ?s, m', q')" "sval ?s m' q' = sval ?s m q" by auto
    have eq: "mag m' q' = mag m q" using m'(2) by (cases "?s = 0") (simp_all add: sval_def)
    have ux: "p_ux out = (p_xx out \<and> \<bar>x\<bar> < 2 powi (- 126))"
      unfolding r(4,6) tiny_iff [OF n val(2)] val(4) by blast
    show "\<exists>s m q. decode (p_result out) B64 = (Finite, s, m, q) \<and>
      s = of_bool (x < 0) XOR of_bool (is_negated op) \<and> rounds_mag B32 rn (of_bool (x < 0)) \<bar>x\<bar> (mag m q) \<and>
      p_xx out = (mag m q \<noteq> \<bar>x\<bar>) \<and> p_fr out = (\<bar>x\<bar> < mag m q) \<and> p_ux out = (p_xx out \<and> \<bar>x\<bar> < 2 powi (- 126))"
      using m'(1) mq(3-5) ux unfolding r(2) eq [symmetric] val(3) r(4,5) by blast
  qed
qed

lemma decode_one_three:
  "decode 0x3FF0000000000000 B64 = (Finite, 0, 0x10000000000000, -52)"
  "decode 0x4008000000000000 B64 = (Finite, 0, 0x18000000000000, -51)"
  by code_simp+

lemma word_one_three: "word_ok B64 0x3FF0000000000000" "word_ok B64 0x4008000000000000"
  by (simp_all add: word_ok_def in_field_def B64_def signbit_def)

theorem arithmetic_single_rounds_once_witness:
  "\<exists>out. arithmetic ''div'' 0x3FF0000000000000 0x4008000000000000 0x4008000000000000 0 True False False False False False = Inr out \<and>
     \<not> p_ox out \<and> (\<exists>m q. decode (p_result out) B64 = (Finite, 0, m, q) \<and> rounds_mag B32 0 0 (1 / 3) (mag m q))"
proof -
  have x: "exact_ppc ''div'' (sval 0 0x10000000000000 (-52)) (sval 0 0x18000000000000 (-51)) (sval 0 0x18000000000000 (-51)) = 1 / 3"
    by (simp add: exact_ppc_def sval_def mag_def power_int_minus)
  have ox: "case arithmetic ''div'' 0x3FF0000000000000 0x4008000000000000 0x4008000000000000 0 True False False False False False of
      Inl _ \<Rightarrow> False | Inr out \<Rightarrow> \<not> p_ox out" by code_simp
  have neg: "\<not> is_negated ''div''" by code_simp
  from arithmetic_single_rounds_once [OF word_one_three(1,2,2) decode_one_three(1,2,2), where rn = 0 and op = "''div''" and
      x = "1 / 3" and ve = False and ze = False]
  show ?thesis using x ox neg by auto
qed

text \<open>
  An enabled overflow or underflow delivers the exponent-adjusted result.  When
  \<open>arith_round\<close> meets an overflow with OE set, or a tiny value with UE set, the
  double word it returns is a finite number which, scaled back by \<open>2 ^ 192\<close> (single)
  or \<open>2 ^ 1536\<close> (double) in the direction of the exception, is exactly the value
  rounded at the destination's precision with an exponent range \<open>B\<close> wide enough to
  hold it; XX and FR compare that number with the exact value.  The two range
  premises say that the adjusted exponent fits a double.
\<close>

theorem wrapped_result_exact:
  assumes "rn \<in> {0, 1, 2, 3}" and "0 < n" and "0 < d" and "is_bit s"
    and "fmt = (if single \<or> op = ''frsp'' then B32 else B64)"
    and "arith_round op (n, d, e, s) rn single ni oe ue = Inr out"
    and "(p_ox out \<and> oe) \<or> (p_tiny out \<and> ue)"
    and "adj = (if single \<or> op = ''frsp'' then 192 else 1536) * (if p_ox out then - 1 else 1)"
    and "- 1022 \<le> ppc_top n d e + adj" and "ppc_top n d e + adj < 1023"
    and "- ppc_top n d e < B"
    and "v = real_of_int n / real_of_int d * 2 powi e"
  shows "\<exists>m q. decode (p_result out) B64 = (Finite, s XOR of_bool (is_negated op), m, q) \<and>
    rounds_mag (fmt\<lparr>bias := B\<rparr>) rn s v (mag m (q - adj)) \<and>
    p_xx out = (mag m (q - adj) \<noteq> v) \<and> p_fr out = (v < mag m (q - adj))"
proof -
  obtain bits nx uf ov inc where raw: "pack_ratio n d e s rn fmt = (bits, nx, uf, ov, inc)" by (metis prod_cases5)
  obtain m0 q0 ix inc' where ub: "unbounded_round n d e s rn (int (fraction fmt) + 1) = (m0, q0, ix, inc')"
    by (metis prod_cases4)
  have flags: "p_ox out = ov" "p_tiny out = (n \<noteq> 0 \<and> ppc_top n d e < 1 - bias fmt)"
    using arith_round_flags [OF raw assms(5,6)] by simp_all
  define R where "R = fst (pack_ratio m0 1 (q0 + adj) s 0 B64)"
  have cond: "(ov \<and> oe) \<or> (n \<noteq> 0 \<and> ppc_top n d e < 1 - bias fmt \<and> ue)" using assms(7) flags by blast
  have out: "p_xx out = ix" "p_fr out = inc'" "p_result out = (if is_negated op then R XOR push_bit 63 1 else R)"
    using arith_round_wrapped [OF raw assms(5) ub cond, of ni, unfolded assms(6), folded flags(1), folded assms(8)]
    by (simp_all add: R_def Let_def)
  have fr: "fraction fmt \<le> 52" "fraction (fmt\<lparr>bias := B\<rparr>) = fraction fmt" by (simp_all add: assms(5) B32_def B64_def)
  have "qmin (fmt\<lparr>bias := B\<rparr>) \<le> ppc_top n d e - int (fraction (fmt\<lparr>bias := B\<rparr>))" using assms(11) by (simp add: qmin_def)
  note U = unbounded_round_rounds [OF assms(1-3) this, unfolded fr(2), OF ub, folded assms(12)]
  have m0: "0 < m0" using U(4) by (smt (verit) zero_less_power)
  have "\<exists>m q. decode R B64 = (Finite, s, m, q) \<and> mag m q = mag m0 (q0 + adj) \<and> word_ok B64 R"
    unfolding R_def by (rule pack_exact_b64 [OF assms(4) m0 U(5) fr(1)]) (use U(6,7) assms(9,10) in auto)
  then obtain m q where R: "decode R B64 = (Finite, s, m, q)" "mag m q = mag m0 (q0 + adj)" "word_ok B64 R" by blast
  have eq: "mag m (q - adj) = mag m0 q0" using R(2) by (simp add: mag_def power_int_diff p2_add)
  have "decode (p_result out) B64 = (Finite, s XOR of_bool (is_negated op), m, q)"
    unfolding out(3) using R(1) decode_flip(1) [OF R(3,1)] by (simp add: B64_def signbit_def)
  then show ?thesis using U(1-3) unfolding out(1,2) eq [symmetric] by blast
qed

theorem wrapped_result_exact_witness:
  "\<exists>out m q. arith_round ''mul'' (3, 1, 2000, 0) 0 False False True False = Inr out \<and>
     decode (p_result out) B64 = (Finite, 0, m, q) \<and> rounds_mag (B64\<lparr>bias := 0\<rparr>) 0 0 (3 * 2 powi 2000) (mag m (q + 1536))"
proof -
  obtain out where out: "arith_round ''mul'' (3, 1, 2000, 0) 0 False False True False = Inr out" "p_ox out"
  proof -
    have "case arith_round ''mul'' (3, 1, 2000, 0) 0 False False True False of Inl _ \<Rightarrow> False | Inr out \<Rightarrow> p_ox out"
      by code_simp
    then show ?thesis using that by (auto split: sum.splits)
  qed
  have "ppc_top 3 1 2000 = 2001" "\<not> is_negated ''mul''" by code_simp+
  then show ?thesis
    using wrapped_result_exact [of 0 3 1 0 B64 False "''mul''" 2000 False True False out "- 1536" 0 "3 * 2 powi 2000"] out by auto
qed

text \<open>
  C19: the FPSCR after an operation, bit by bit.  Every exception bit is sticky and
  set exactly by its cause; FX records a newly set exception, VX and FEX are
  recomputed from the exception and enable bits, FR, FI and FPRF are replaced only
  when the operation defines them, and every other bit (the enables, NI, RN) is
  unchanged.
\<close>

theorem fpscr_after_bits:
  assumes "in_field 5 (p_fprf e)"
  shows "bit (fpscr_after old e) n =
    (if n \<in> exceptions then bit old n \<or> raises e n
     else if n = 31 then bit old 31 \<or> (\<exists>k \<in> exceptions. raises e k \<and> \<not> bit old k)
     else if n = 30 then
       ((\<exists>k \<in> set INVALID_BITS. bit old k \<or> raises e k) \<and> bit old 7) \<or>
       (\<exists>(k, en) \<in> {(28, 6), (27, 5), (26, 4), (25, 3)}. (bit old k \<or> raises e k) \<and> bit old en)
     else if n = 29 then (\<exists>k \<in> set INVALID_BITS. bit old k \<or> raises e k)
     else if n = 18 then (if p_frfi_valid e then p_fr e else bit old 18)
     else if n = 17 then (if p_frfi_valid e then p_fi e else bit old 17)
     else if 12 \<le> n \<and> n \<le> 16 then (if p_fprf_valid e then bit (p_fprf e) (n - 12) else bit old n)
     else bit old n)"
proof -
  define n1 where "n1 = foldl (\<lambda>new (flag, b). if flag then new OR push_bit b 1 else new) (set_causes old (p_invalid e))
                 [(p_ox e, 28), (p_ux e, 27), (p_zx e, 26), (p_xx e, 25)]"
  define n2 where "n2 = (if p_frfi_valid e
                then (n1 AND NOT (push_bit 17 3)) OR push_bit 18 (of_bool (p_fr e)) OR push_bit 17 (of_bool (p_fi e))
                else n1)"
  define n3 where "n3 = (if p_fprf_valid e then (n2 AND NOT (push_bit 12 0x1F)) OR push_bit 12 (p_fprf e) else n2)"
  define n4 where "n4 = (if (n3 AND NOT old) AND exception_bits \<noteq> 0 then n3 OR push_bit 31 1 else n3)"
  define n5 where "n5 = (n4 AND NOT (push_bit 29 1)) OR push_bit 29 (of_bool (any_invalid n4))"
  have b1: "bit n1 n = (bit old n \<or> raises e n)" for n
    unfolding n1_def bit_fold_flags [where P = "\<lambda>x. x"] bit_set_causes raises_def by auto
  have b31: "bit (31 :: int) k = (k < 5)" for k
    using bit_mask_iff [of 5 k, where 'a = int] by (simp add: mask_eq_exp_minus_1)
  have b3': "bit (3 :: int) k = (k < 2)" for k
    using bit_mask_iff [of 2 k, where 'a = int] by (simp add: mask_eq_exp_minus_1)
  have b2: "bit n2 n = (if n = 18 \<and> p_frfi_valid e then p_fr e else if n = 17 \<and> p_frfi_valid e then p_fi e else bit n1 n)" for n
    unfolding n2_def if_distrib [of "\<lambda>v. bit v n"] bit_field_update2 b3' by (auto simp: bit_1_iff)
  have b3: "bit n3 n = (if 12 \<le> n \<and> n \<le> 16 \<and> p_fprf_valid e then bit (p_fprf e) (n - 12) else bit n2 n)" for n
    using in_field_not_bit [OF assms, of "n - 12"]
    unfolding n3_def if_distrib [of "\<lambda>v. bit v n"] bit_field_update b31
    by (cases "12 \<le> n"; cases "n \<le> 16") auto
  have exc: "k \<in> exceptions \<Longrightarrow> k \<noteq> 17 \<and> k \<noteq> 18 \<and> \<not> (12 \<le> k \<and> k \<le> 16) \<and> k < 29 \<and> 8 \<le> k" for k
    by (auto simp: exceptions_def INVALID_BITS_def)
  have b3e: "k \<in> exceptions \<Longrightarrow> bit n3 k = (bit old k \<or> raises e k)" for k
    using exc [of k] by (auto simp: b3 b2 b1)
  have b4: "bit n4 n = (if n = 31 then bit n3 31 \<or> (\<exists>k \<in> exceptions. raises e k \<and> \<not> bit old k) else bit n3 n)" for n
    unfolding n4_def new_exception if_distrib [of "\<lambda>v. bit v n"] bit_set_one using b3e by auto
  have inv: "any_invalid n4 = (\<exists>k \<in> set INVALID_BITS. bit old k \<or> raises e k)"
  proof -
    have "bit n4 k = (bit old k \<or> raises e k)" if "k \<in> set INVALID_BITS" for k
      using that exc [of k] b3e [of k] by (simp add: b4 exceptions_def)
    then show ?thesis unfolding any_invalid_def drop_and_1 by blast
  qed
  have b5: "bit n5 n = (if n = 29 then any_invalid n4 else bit n4 n)" for n
    unfolding n5_def by (rule bit_put)
  have nr: "n \<notin> exceptions \<Longrightarrow> \<not> raises e n" for n
    using nth_mem [of _ INVALID_BITS] by (auto simp: raises_def exceptions_def len_INVALID_BITS)
  have lo: "bit n5 k = bit old k" if "k < 8" for k
    using that nr [of k] exc [of k] by (auto simp: b5 b4 b3 b2 b1)
  have hi: "bit n5 k = (bit old k \<or> raises e k)" if "k \<in> {25, 26, 27, 28}" for k
    using that b3e [of k] by (auto simp: b5 b4 exceptions_def)
  have f: "fpscr_after old e = (n5 AND NOT (push_bit 30 1)) OR push_bit 30 (of_bool ((any_invalid n4 \<and> bit n5 7) \<or>
      (bit n5 28 \<and> bit n5 6) \<or> (bit n5 27 \<and> bit n5 5) \<or> (bit n5 26 \<and> bit n5 4) \<or> (bit n5 25 \<and> bit n5 3)))"
    unfolding fpscr_after_def Let_def n1_def [symmetric] n2_def [symmetric] n3_def [symmetric] n4_def [symmetric]
      n5_def [symmetric] drop_and_drop drop_and_1 ..
  have b6: "bit (fpscr_after old e) n = (if n = 30 then (any_invalid n4 \<and> bit n5 7) \<or>
      (bit n5 28 \<and> bit n5 6) \<or> (bit n5 27 \<and> bit n5 5) \<or> (bit n5 26 \<and> bit n5 4) \<or> (bit n5 25 \<and> bit n5 3) else bit n5 n)" for n
    unfolding f by (rule bit_put)
  show ?thesis
  proof (cases "n \<in> exceptions")
    case True
    then show ?thesis using exc [OF True] b3e [OF True] by (simp add: b6 b5 b4)
  next
    case False
    show ?thesis
    proof (cases "n = 30")
      case True
      then show ?thesis using False by (simp add: b6 inv lo hi)
    next
      case n30: False
      have r31: "\<not> raises e 31" by (rule nr) (use exc [of 31] in auto)
      consider "n = 31" | "n = 29" | "n = 18" | "n = 17" | "12 \<le> n" "n \<le> 16"
        | "n \<noteq> 31" "n \<noteq> 29" "n \<noteq> 18" "n \<noteq> 17" "\<not> (12 \<le> n \<and> n \<le> 16)" by blast
      then show ?thesis
        using False nr [OF False] n30 by cases ((simp add: b6 b5 b4 b3 b2 b1 r31 inv; fail) | (auto simp: b6 b5 b4 b3 b2 b1; fail))+
    qed
  qed
qed

theorem fpscr_after_bits_witness:
  "bit (fpscr_after 0xB0 (ppc_out\<lparr>p_zx := True, p_fprf := 5\<rparr>)) 30 \<and> bit (fpscr_after 0xB0 (ppc_out\<lparr>p_zx := True, p_fprf := 5\<rparr>)) 26"
proof -
  let ?e = "ppc_out\<lparr>p_zx := True, p_fprf := 5\<rparr>"
  have f: "in_field 5 (p_fprf ?e)" by (simp add: in_field_def)
  have "raises ?e 26" by (simp add: raises_def)
  moreover have "bit (0xB0 :: int) 4" by simp
  ultimately show ?thesis
    unfolding fpscr_after_bits [OF f] by (auto simp: exceptions_def INVALID_BITS_def)
qed

end
