(* ===== verification/Ppc_Fp_Oracle.thy ===== *)
theory Ppc_Fp_Oracle
  imports Ppc_Fp_Results
begin

text \<open>
  The PowerPC result model of \<open>sim/fpu/ppc_reference.py\<close> against the exact oracle of
  \<open>sim/fpu/reference.py\<close>, on every operand: NaNs, infinities, zero divisors and finite values.
\<close>

section \<open>Agreement\<close>

text \<open>The result, the causes, the flags and the write permissions of an outcome are those of the oracle.\<close>

definition agrees_with :: "string \<Rightarrow> bool \<Rightarrow> bool \<Rightarrow> PpcOut \<Rightarrow> FpOut \<Rightarrow> bool" where
  "agrees_with op ve ze out r \<longleftrightarrow>
     p_result out = (if is_negated op \<and> \<not> is_nan (fst (decode (o_bits r) B64)) then o_bits r XOR push_bit 63 1 else o_bits r) \<and>
     p_write out = (\<not> (ve \<and> o_invalid r) \<and> \<not> (ze \<and> o_dz r)) \<and> (p_invalid out \<noteq> 0) = o_invalid r \<and> p_zx out = o_dz r \<and>
     p_ox out = o_of r \<and> p_xx out = o_nx r \<and> p_fi out = o_nx r \<and> p_fr out = o_increment r \<and> p_frfi_valid out \<and>
     p_ux out = (p_tiny out \<and> o_nx r) \<and>
     p_fprf out = classify (p_result out) B64 \<and> p_fprf_valid out = p_write out"

text \<open>Only the operands an operation reads matter.\<close>

lemma finite_zero: "decode 0 B64 = (Finite, 0, 0, -1074)"
  by code_simp

lemma arithmetic_irrelevant:
  assumes "op \<in> {''add'', ''sub'', ''div''}"
  shows "arithmetic op a b c rn single ni ve oe ue ze = arithmetic op a b 0 rn single ni ve oe ue ze"
    and "reference_op op a b c rn = reference_op op a b 0 rn"
proof -
  have r: "relevant op a b c = relevant op a b 0" and n: "\<not> is_fma op" "op \<noteq> ''mul''" "op \<noteq> ''frsp''"
    using assms by (auto simp: relevant_def is_fma_def)
  have i: "arith_invalid op a b c = arith_invalid op a b 0"
    unfolding arith_invalid_def r by (cases "decode c B64") (auto simp: n finite_zero Let_def split: prod.splits)
  have s: "arith_special op a b c rn v ve ze = arith_special op a b 0 rn v ve ze" for v
    unfolding arith_special_def r by (cases "decode c B64") (auto simp: n finite_zero Let_def split: prod.splits)
  have f: "finite_value op a b c rn = finite_value op a b 0 rn"
    using assms unfolding finite_value_def by (cases "decode c B64") (auto simp: finite_zero Let_def split: prod.splits)
  show "arithmetic op a b c rn single ni ve oe ue ze = arithmetic op a b 0 rn single ni ve oe ue ze"
    unfolding arithmetic_def r i s f by (simp only: n if_False)
  show "reference_op op a b c rn = reference_op op a b 0 rn"
    using n by (simp add: reference_op_def)
qed

lemma arithmetic_irrelevant_mul:
  shows "arithmetic ''mul'' a b c rn single ni ve oe ue ze = arithmetic ''mul'' a 0 c rn single ni ve oe ue ze"
    and "reference_op ''mul'' a b c rn = reference_op ''mul'' a 0 c rn"
proof -
  have r: "relevant ''mul'' a b c = relevant ''mul'' a 0 c" and n: "\<not> is_fma ''mul''"
    by (auto simp: relevant_def is_fma_def)
  have i: "arith_invalid ''mul'' a b c = arith_invalid ''mul'' a 0 c"
    unfolding arith_invalid_def r by (cases "decode b B64") (auto simp: n finite_zero Let_def split: prod.splits)
  have s: "arith_special ''mul'' a b c rn v ve ze = arith_special ''mul'' a 0 c rn v ve ze" for v
    unfolding arith_special_def r by (cases "decode b B64") (auto simp: n finite_zero Let_def split: prod.splits)
  have f: "finite_value ''mul'' a b c rn = finite_value ''mul'' a 0 c rn"
    unfolding finite_value_def by (cases "decode b B64") (auto simp: finite_zero Let_def split: prod.splits)
  show "arithmetic ''mul'' a b c rn single ni ve oe ue ze = arithmetic ''mul'' a 0 c rn single ni ve oe ue ze"
    unfolding arithmetic_def r i s f by (simp add: Let_def split: option.split)
  show "reference_op ''mul'' a b c rn = reference_op ''mul'' a 0 c rn"
    by (simp add: reference_op_def n)
qed

text \<open>A NaN operand of a two-operand operation.\<close>

lemma quiet_B64: "quiet_bit B64 = push_bit 51 1"
  by code_simp

lemma nan_agrees:
  assumes op: "op \<in> {''add'', ''sub'', ''mul'', ''div''}" and y: "y = (if op = ''mul'' then c else b)"
    and nan: "is_nan (fst (decode a B64)) \<or> is_nan (fst (decode y B64))"
  shows "\<exists>out r. arithmetic op a b c rn False False ve False False ze = Inr out \<and> reference_op op a b c rn = Inr r \<and>
    agrees_with op ve ze out r \<and> \<not> p_tiny out"
proof -
  have rel: "relevant op a b c = [a, y]" and n: "\<not> is_fma op" "\<not> is_negated op"
    using op y by (auto simp: relevant_def is_fma_def is_negated_def)
  define v where "v = (if is_nan (fst (decode a B64)) then a else y)"
  have fn: "find (\<lambda>v. is_nan (fst (decode v B64))) (relevant op a b c) = Some v"
    unfolding rel v_def using nan by auto
  have inv: "arith_invalid op a b c \<noteq> 0 \<longleftrightarrow> fst (decode a B64) = SNaN \<or> fst (decode y B64) = SNaN"
    using op nan unfolding arith_invalid_def rel y
    by (cases "decode a B64"; cases "decode b B64"; cases "decode c B64") (auto simp: n is_nan_def cause_defs split: if_splits)
  have "arithmetic op a b c rn False False ve False False ze = Inr (arith_nan op v (arith_invalid op a b c) ve)"
    using op by (auto simp: arithmetic_def fn Let_def)
  moreover have "reference_op op a b c rn = Inr (out_zero\<lparr>o_bits := v OR quiet_bit B64,
      o_invalid := (fst (decode a B64) = SNaN \<or> fst (decode y B64) = SNaN)\<rparr>)"
    using op nan by (auto simp: reference_op_def n calculate_def Let_def v_def y)
  moreover have "op \<noteq> ''frsp''" using op by auto
  ultimately show ?thesis
    using inv by (auto simp: agrees_with_def arith_nan_def Let_def n out_zero_def ppc_out_def quiet_B64)
qed

text \<open>An infinite operand or a zero divisor, with no NaN.\<close>

lemma default_nan_B64: "DEFAULT_NAN = infinity B64 OR quiet_bit B64" "is_nan (fst (decode DEFAULT_NAN B64))"
  by code_simp+

lemma signbit_B64: "signbit B64 = 63"
  by (simp add: signbit_def B64_def)

lemma infinity_word: "is_bit s \<Longrightarrow> push_bit (signbit B64) s OR infinity B64 = (if s = 0 then infinity B64 else 0xFFF0000000000000)"
  by (auto simp: is_bit_def B64_def signbit_def infinity_def)

lemma infinity_not_nan: "is_bit s \<Longrightarrow> \<not> is_nan (fst (decode (push_bit (signbit B64) s OR infinity B64) B64))"
proof -
  have "\<not> is_nan (fst (decode (infinity B64) B64)) \<and> \<not> is_nan (fst (decode 0xFFF0000000000000 B64))"
    by code_simp
  then show "is_bit s \<Longrightarrow> ?thesis" by (simp add: infinity_word)
qed

lemma packed_not_nan:
  assumes "is_bit s" and "rn \<in> {0, 1, 2, 3}" and "0 \<le> n" and "0 < d"
  shows "\<not> is_nan (fst (decode (fst (pack_ratio n d e s rn B64)) B64))"
proof (cases "n = 0")
  case True
  have "\<not> is_nan (fst (decode 0 B64)) \<and> \<not> is_nan (fst (decode (push_bit 63 1) B64))"
    by code_simp
  with True assms(1) show ?thesis
    by (auto simp: pack_ratio_def signbit_B64 is_bit_def)
next
  case False
  obtain bits nx uf ov inc where raw: "pack_ratio n d e s rn B64 = (bits, nx, uf, ov, inc)" by (metis prod_cases5)
  from False assms have c: "correctly_rounded B64 rn s (real_of_int n / real_of_int d * 2 powi e) (bits, nx, uf, ov, inc)"
    using pack_ratio_rounds [OF B64_ok assms(1,2) _ assms(4), of n e] raw by simp
  have "\<not> is_nan (fst (decode (infinity B64 - 1) B64)) \<and> \<not> is_nan (fst (decode (push_bit 63 1 OR infinity B64 - 1) B64))"
    by code_simp
  then have "\<not> is_nan (fst (decode (push_bit (signbit B64) s OR (if to_inf rn s then infinity B64 else infinity B64 - 1)) B64))"
    using infinity_not_nan [OF assms(1)] assms(1) by (auto simp: signbit_B64 is_bit_def)
  with c show ?thesis
    unfolding raw by (auto simp: correctly_rounded_def is_nan_def split: if_splits)
qed

text \<open>Without a NaN the invalid causes are those of the operation, and then the oracle delivers the default NaN.\<close>

lemma invalid_reference_two:
  assumes op: "op \<in> {''add'', ''sub'', ''mul'', ''div''}" and y: "y = (if op = ''mul'' then c else b)"
    and w: "word_ok B64 a" "word_ok B64 b" "word_ok B64 c"
    and nan: "\<not> is_nan (fst (decode a B64))" "\<not> is_nan (fst (decode y B64))"
  shows "arith_invalid op a b c \<noteq> 0 \<Longrightarrow> reference_op op a b c rn = Inr (default_nan B64)"
    and "arith_invalid op a b c = 0 \<Longrightarrow> fst (decode a B64) = Inf \<or> fst (decode y B64) = Inf \<Longrightarrow>
      \<exists>v. reference_op op a b c rn = Inr (out_zero\<lparr>o_bits := v\<rparr>)"
proof -
  obtain ka sa ma ea where da: "decode a B64 = (ka, sa, ma, ea)" by (metis prod_cases4)
  obtain kb sb mb eb where db: "decode b B64 = (kb, sb, mb, eb)" by (metis prod_cases4)
  obtain kc sc mc ec where dc: "decode c B64 = (kc, sc, mc, ec)" by (metis prod_cases4)
  have bits: "is_bit sa" "is_bit sb" using decode_sign w da db by blast+
  have flip: "sa \<noteq> sb XOR 1 \<longleftrightarrow> sa = sb" using bits by (auto simp: is_bit_def)
  have n: "\<not> is_fma op" and rel: "relevant op a b c = [a, y]"
    using op y by (auto simp: relevant_def is_fma_def)
  have sn: "\<not> (\<exists>v \<in> set [a, y]. fst (decode v B64) = SNaN)"
    using nan by (auto simp: is_nan_def)
  consider "op = ''add''" | "op = ''sub''" | "op = ''mul''" | "op = ''div''" using op by auto
  then have "(arith_invalid op a b c \<noteq> 0 \<longrightarrow> reference_op op a b c rn = Inr (default_nan B64)) \<and>
    (arith_invalid op a b c = 0 \<longrightarrow> fst (decode a B64) = Inf \<or> fst (decode y B64) = Inf \<longrightarrow>
      (\<exists>v. reference_op op a b c rn = Inr (out_zero\<lparr>o_bits := v\<rparr>)))"
  proof cases
    case 1
    with n nan y have "reference_op op a b c rn = Inr (calc_addsub (decode a B64) (decode b B64) rn B64)"
      by (simp add: reference_op_def calculate_def Let_def)
    moreover from 1 n y have "arith_invalid op a b c = (if ka = Inf \<and> kb = Inf \<and> sa \<noteq> sb then ISI else 0)"
      unfolding arith_invalid_def rel if_not_P [OF sn] da db dc by simp
    ultimately show ?thesis
      using 1 y by (auto simp: calc_addsub_def da db cause_defs)
  next
    case 2
    with n nan y have "reference_op op a b c rn = Inr (calc_addsub (decode a B64) (negate_sign (decode b B64)) rn B64)"
      by (simp add: reference_op_def calculate_def Let_def)
    moreover from 2 n y have "arith_invalid op a b c = (if ka = Inf \<and> kb = Inf \<and> sa = sb then ISI else 0)"
      unfolding arith_invalid_def rel if_not_P [OF sn] da db dc by simp
    ultimately show ?thesis
      using 2 y flip by (auto simp: calc_addsub_def negate_sign_def da db cause_defs)
  next
    case 3
    with n nan y have "reference_op op a b c rn = Inr (calc_mul (decode a B64) (decode c B64) rn B64)"
      by (simp add: reference_op_def calculate_def Let_def)
    moreover from 3 n y have "arith_invalid op a b c = (if (ka = Inf \<and> kc = Finite \<and> mc = 0) \<or> (kc = Inf \<and> ka = Finite \<and> ma = 0) then IMZ else 0)"
      unfolding arith_invalid_def rel if_not_P [OF sn] da db dc by simp
    ultimately show ?thesis
      using 3 y by (auto simp: calc_mul_def da dc cause_defs)
  next
    case 4
    with n nan y have "reference_op op a b c rn = Inr (calc_div (decode a B64) (decode b B64) rn B64)"
      by (simp add: reference_op_def calculate_def Let_def)
    moreover from 4 n y have "arith_invalid op a b c =
        (if ka = Inf \<and> kb = Inf then IDI else if ka = Finite \<and> kb = Finite \<and> ma = 0 \<and> mb = 0 then ZDZ else 0)"
      unfolding arith_invalid_def rel if_not_P [OF sn] da db dc by simp
    ultimately show ?thesis
      using 4 y by (auto simp: calc_div_def da db cause_defs)
  qed
  then show "arith_invalid op a b c \<noteq> 0 \<Longrightarrow> reference_op op a b c rn = Inr (default_nan B64)"
    and "arith_invalid op a b c = 0 \<Longrightarrow> fst (decode a B64) = Inf \<or> fst (decode y B64) = Inf \<Longrightarrow>
      \<exists>v. reference_op op a b c rn = Inr (out_zero\<lparr>o_bits := v\<rparr>)"
    by blast+
qed

lemma imz_shape:
  "(let i1 = (if P then 0 OR IMZ else 0) in if A \<and> B \<and> i1 AND IMZ = 0 \<and> Q then i1 OR ISI else i1) =
   (if P then IMZ else if A \<and> B \<and> Q then ISI else 0)"
  by (cases P) (simp_all add: cause_defs)

lemma imz_zero: "(if P then IMZ else if A \<and> B \<and> Q then ISI else 0) = 0 \<longleftrightarrow> \<not> (P \<or> A \<and> B \<and> Q)"
  by (simp add: cause_defs)

lemma fma_pick_nan: "\<not> \<not> (P \<or> A \<and> B \<and> Q) \<Longrightarrow> Inr (if P then d else if A then (if B \<and> Q then d else x) else y) = Inr d"
  by auto

lemma fma_pick_inf:
  "\<not> (P \<or> A \<and> B \<and> Q) \<Longrightarrow> A \<or> B \<Longrightarrow>
     \<exists>v. Inr (if P then d else if A then (if B \<and> Q then d else out_zero\<lparr>o_bits := x\<rparr>) else if B then out_zero\<lparr>o_bits := y\<rparr> else z) =
       Inr (out_zero\<lparr>o_bits := v\<rparr>)"
  by auto

lemma invalid_reference_fma:
  assumes op: "is_fma op" and w: "word_ok B64 a" "word_ok B64 b" "word_ok B64 c"
    and nan: "\<not> is_nan (fst (decode a B64))" "\<not> is_nan (fst (decode b B64))" "\<not> is_nan (fst (decode c B64))"
  shows "arith_invalid op a b c \<noteq> 0 \<Longrightarrow> reference_op op a b c rn = Inr (default_nan B64)"
    and "arith_invalid op a b c = 0 \<Longrightarrow> Inf \<in> {fst (decode a B64), fst (decode b B64), fst (decode c B64)} \<Longrightarrow>
      \<exists>v. reference_op op a b c rn = Inr (out_zero\<lparr>o_bits := v\<rparr>)"
proof -
  obtain ka sa ma ea where da: "decode a B64 = (ka, sa, ma, ea)" by (metis prod_cases4)
  obtain kb sb mb eb where db: "decode b B64 = (kb, sb, mb, eb)" by (metis prod_cases4)
  obtain kc sc mc ec where dc: "decode c B64 = (kc, sc, mc, ec)" by (metis prod_cases4)
  have ops: "op \<noteq> ''add''" "op \<noteq> ''sub''" "op \<noteq> ''mul''" "op \<noteq> ''div''" and rel: "relevant op a b c = [a, b, c]"
    using op by (auto simp: is_fma_def relevant_def)
  have sn: "\<not> (\<exists>v \<in> set [a, b, c]. fst (decode v B64) = SNaN)"
    using nan by (auto simp: is_nan_def)
  have k: "\<not> is_nan ka" "\<not> is_nan kb" "\<not> is_nan kc" "ka \<noteq> SNaN" "kb \<noteq> SNaN" "kc \<noteq> SNaN"
    using nan da db dc by (auto simp: is_nan_def)
  let ?imz = "(ka = Inf \<and> kc = Finite \<and> mc = 0) \<or> (kc = Inf \<and> ka = Finite \<and> ma = 0)"
  let ?sp = "sa XOR sc" and ?sb = "sb XOR of_bool (op = ''msub'' \<or> op = ''nmsub'')"
  have inv: "arith_invalid op a b c = (if ?imz then IMZ else if (ka = Inf \<or> kc = Inf) \<and> kb = Inf \<and> ?sp \<noteq> ?sb then ISI else 0)"
  proof -
    have "arith_invalid op a b c =
      (let i1 = (if ?imz then 0 OR IMZ else 0)
       in if (ka = Inf \<or> kc = Inf) \<and> kb = Inf \<and> i1 AND IMZ = 0 \<and> ?sp \<noteq> ?sb then i1 OR ISI else i1)"
      unfolding arith_invalid_def rel if_not_P [OF sn] da db dc prod.case Let_def
      by (simp only: op ops k simp_thms if_True if_False)
    then show ?thesis unfolding imz_shape .
  qed
  have ref: "reference_op op a b c rn = Inr (let out = out_zero in
      if ?imz then default_nan B64
      else if ka = Inf \<or> kc = Inf then
        (if kb = Inf \<and> ?sp \<noteq> ?sb then default_nan B64 else out\<lparr>o_bits := push_bit (signbit B64) ?sp OR infinity B64\<rparr>)
      else if kb = Inf then out\<lparr>o_bits := push_bit (signbit B64) ?sb OR infinity B64\<rparr>
      else calculate_fma a c b rn B64 False (op = ''msub'' \<or> op = ''nmsub''))"
    using op k by (simp add: reference_op_def calculate_fma_def da db dc Let_def default_nan_def out_zero_def)
  show "arith_invalid op a b c \<noteq> 0 \<Longrightarrow> reference_op op a b c rn = Inr (default_nan B64)"
    unfolding inv ref Let_def imz_zero by (rule fma_pick_nan)
  show "arith_invalid op a b c = 0 \<Longrightarrow> Inf \<in> {fst (decode a B64), fst (decode b B64), fst (decode c B64)} \<Longrightarrow>
      \<exists>v. reference_op op a b c rn = Inr (out_zero\<lparr>o_bits := v\<rparr>)"
    unfolding inv ref Let_def imz_zero da db dc by (rule fma_pick_inf) auto
qed

lemma agrees_default_nan:
  assumes "p_invalid out = v" and "v \<noteq> 0" and "out = ppc_out\<lparr>p_invalid := v, p_result := DEFAULT_NAN, p_write := \<not> ve,
      p_fprf := classify DEFAULT_NAN B64, p_fprf_valid := \<not> ve\<rparr>"
  shows "agrees_with op ve ze out (default_nan B64) \<and> \<not> p_tiny out"
proof -
  have "is_nan (fst (decode (infinity B64 OR quiet_bit B64) B64))"
    using default_nan_B64 by simp
  then show ?thesis
    using assms(2) unfolding assms(3) agrees_with_def
    by (simp add: ppc_out_def default_nan_def out_zero_def default_nan_B64(1))
qed

lemma special_agrees:
  assumes op: "op \<in> {''add'', ''sub'', ''mul'', ''div''} \<or> is_fma op"
    and w: "word_ok B64 a" "word_ok B64 b" "word_ok B64 c"
    and nan: "\<forall>v \<in> set (relevant op a b c). \<not> is_nan (fst (decode v B64))"
    and special: "(\<exists>v \<in> set (relevant op a b c). fst (decode v B64) = Inf) \<or>
      op = ''div'' \<and> fst (snd (snd (decode b B64))) = 0 \<and> fst (decode b B64) = Finite"
  shows "\<exists>out r. arithmetic op a b c rn False False ve False False ze = Inr out \<and> reference_op op a b c rn = Inr r \<and>
    agrees_with op ve ze out r \<and> \<not> p_tiny out"
proof -
  obtain ka sa ma ea where da: "decode a B64 = (ka, sa, ma, ea)" by (metis prod_cases4)
  obtain kb sb mb eb where db: "decode b B64 = (kb, sb, mb, eb)" by (metis prod_cases4)
  obtain kc sc mc ec where dc: "decode c B64 = (kc, sc, mc, ec)" by (metis prod_cases4)
  have bits: "is_bit sa" "is_bit sb" using decode_sign w da db by blast+
  let ?inv = "arith_invalid op a b c"
  have fn: "find (\<lambda>v. is_nan (fst (decode v B64))) (relevant op a b c) = None"
    using nan by (simp add: find_None_iff)
  have ops: "op \<notin> {''cmpu'', ''cmpo'', ''fctiw'', ''fctiwz'', ''frsp''}"
    using op by (auto simp: is_fma_def)
  then have step: "arithmetic op a b c rn False False ve False False ze = bindR (arith_special op a b c rn ?inv ve ze) (\<lambda>sp. case sp of
      Some out \<Rightarrow> Inr out | None \<Rightarrow> arith_round op (finite_value op a b c rn) rn False False False False)"
    using op by (auto simp: arithmetic_def fn Let_def)
  have nan_ref: "?inv \<noteq> 0 \<Longrightarrow> reference_op op a b c rn = Inr (default_nan B64)"
    and inf_ref: "?inv = 0 \<Longrightarrow> \<exists>v \<in> set (relevant op a b c). fst (decode v B64) = Inf \<Longrightarrow>
      \<exists>v. reference_op op a b c rn = Inr (out_zero\<lparr>o_bits := v\<rparr>)"
  proof -
    have "(?inv \<noteq> 0 \<longrightarrow> reference_op op a b c rn = Inr (default_nan B64)) \<and>
      (?inv = 0 \<longrightarrow> (\<exists>v \<in> set (relevant op a b c). fst (decode v B64) = Inf) \<longrightarrow>
        (\<exists>v. reference_op op a b c rn = Inr (out_zero\<lparr>o_bits := v\<rparr>)))"
    proof (cases "is_fma op")
      case True
      with nan invalid_reference_fma [OF True w, of rn] show ?thesis by (auto simp: relevant_def)
    next
      case False
      with op have two: "op \<in> {''add'', ''sub'', ''mul'', ''div''}" by blast
      then have rel: "relevant op a b c = [a, if op = ''mul'' then c else b]"
        using False by (auto simp: relevant_def)
      from nan invalid_reference_two [OF two refl w, of rn] show ?thesis
        unfolding rel by (auto simp del: insert_iff)
    qed
    then show "?inv \<noteq> 0 \<Longrightarrow> reference_op op a b c rn = Inr (default_nan B64)"
      "?inv = 0 \<Longrightarrow> \<exists>v \<in> set (relevant op a b c). fst (decode v B64) = Inf \<Longrightarrow>
        \<exists>v. reference_op op a b c rn = Inr (out_zero\<lparr>o_bits := v\<rparr>)"
      by blast+
  qed
  show ?thesis
  proof (cases "op = ''div'' \<and> ka = Finite \<and> ma \<noteq> 0 \<and> kb = Finite \<and> mb = 0")
    case True
    let ?r = "push_bit 63 (sa XOR sb) OR infinity B64"
    have o: "op = ''div''" and n: "\<not> is_fma ''div''" "\<not> is_negated ''div''" and rel: "relevant ''div'' a b c = [a, b]"
      using True by (simp_all add: is_fma_def is_negated_def relevant_def)
    have inv0: "?inv = 0"
      using True nan unfolding o arith_invalid_def rel by (simp add: da db dc n)
    have "arith_special op a b c rn 0 ve ze = Inr (Some (ppc_out\<lparr>p_invalid := 0, p_zx := True, p_result := ?r, p_write := \<not> ze,
        p_fprf := classify ?r B64, p_fprf_valid := \<not> ze\<rparr>))"
      using True unfolding arith_special_def da db dc prod.case by (simp only: simp_thms if_True Let_def)
    moreover have "reference_op op a b c rn = Inr (out_zero\<lparr>o_bits := ?r, o_dz := True\<rparr>)"
      using True by (simp add: o reference_op_def n calculate_def da db is_nan_def calc_div_def Let_def signbit_B64)
    ultimately show ?thesis
      unfolding step inv0 by (simp add: agrees_with_def ppc_out_def out_zero_def n o)
  next
    case nz: False
    show ?thesis
    proof (cases "?inv = 0")
      case False
      have "arith_special op a b c rn ?inv ve ze = Inr (Some (ppc_out\<lparr>p_invalid := ?inv, p_result := DEFAULT_NAN, p_write := \<not> ve,
          p_fprf := classify DEFAULT_NAN B64, p_fprf_valid := \<not> ve\<rparr>))"
        using nz False unfolding arith_special_def da db dc prod.case by (simp only: simp_thms if_True if_False)
      then show ?thesis
        unfolding step nan_ref [OF False] using agrees_default_nan [OF _ False refl] by (simp add: ppc_out_def)
    next
      case True
      have inf: "\<exists>v \<in> set (relevant op a b c). fst (decode v B64) = Inf"
      proof (rule ccontr)
        assume no: "\<not> ?thesis"
        with special have o: "op = ''div''" "mb = 0" "kb = Finite" by (simp_all add: db)
        then have rel: "relevant op a b c = [a, b]" and n: "\<not> is_fma ''div''" by (simp_all add: relevant_def is_fma_def)
        with no nan have "ka = Finite" by (cases ka) (simp_all add: da is_nan_def)
        with nz o have "ma = 0" by simp
        then have "?inv \<noteq> 0"
          using o \<open>ka = Finite\<close> by (simp add: arith_invalid_def da db dc n Let_def cause_defs rel)
        with True show False by simp
      qed
      obtain v where ref: "reference_op op a b c rn = Inr (out_zero\<lparr>o_bits := v\<rparr>)"
        using inf_ref [OF True inf] by blast
      let ?r = "if is_negated op \<and> \<not> is_nan (fst (decode v B64)) then v XOR push_bit 63 1 else v"
      have "(if is_fma op then Inr (calculate_fma a c b rn B64 False (op = ''msub'' \<or> op = ''nmsub''))
          else calculate op a (if op = ''mul'' then c else b) rn B64) = Inr (out_zero\<lparr>o_bits := v\<rparr>)"
        using ref by (simp only: reference_op_def)
      then have "arith_special op a b c rn 0 ve ze = Inr (Some (ppc_out\<lparr>p_result := ?r, p_fprf := classify ?r B64, p_fprf_valid := True\<rparr>))"
        unfolding arith_special_def da db dc prod.case if_not_P [OF nz] if_P [OF inf]
        by (simp add: Let_def)
      then show ?thesis
        unfolding step True ref by (simp add: agrees_with_def ppc_out_def out_zero_def)
    qed
  qed
qed

text \<open>Finite operands: the exact value of the operation decides what is tiny.\<close>

lemma finite_reference_flags:
  assumes "decode a B64 = (Finite, sa, ma, ea)" and "decode b B64 = (Finite, sb, mb, eb)" and "decode c B64 = (Finite, sc, mc, ec)"
    and op: "op \<in> {''add'', ''sub'', ''mul'', ''div''} \<or> is_fma op" and "op = ''div'' \<longrightarrow> mb \<noteq> 0"
    and "reference_op op a b c rn = Inr r"
  shows "\<not> o_invalid r \<and> \<not> o_dz r"
proof (cases "is_fma op")
  case True
  then show ?thesis
    using assms by (auto simp: reference_op_def calculate_fma_def is_nan_def Let_def out_raw_def out_zero_def split: prod.splits)
next
  case False
  with op have "op \<in> {''add'', ''sub'', ''mul'', ''div''}" by blast
  then show ?thesis
    using assms False by (elim insertE emptyE)
      (auto simp: reference_op_def calculate_def calc_addsub_def calc_mul_def calc_div_def negate_sign_def is_nan_def Let_def out_raw_def
        out_zero_def split: prod.splits)
qed

definition word_value :: "int \<Rightarrow> real" where
  "word_value w = (case decode w B64 of (_, s, m, e) \<Rightarrow> sval s m e)"

lemma finite_agrees:
  assumes w: "word_ok B64 a" "word_ok B64 b" "word_ok B64 c" and rn: "rn \<in> {0, 1, 2, 3}"
    and fin: "fst (decode a B64) = Finite" "fst (decode b B64) = Finite" "fst (decode c B64) = Finite"
    and op: "op \<in> {''add'', ''sub'', ''mul'', ''div''} \<or> is_fma op"
    and nz: "op = ''div'' \<longrightarrow> fst (snd (snd (decode b B64))) \<noteq> 0"
    and x: "x = exact_ppc op (word_value a) (word_value b) (word_value c)"
  shows "\<exists>out r. arithmetic op a b c rn False False ve False False ze = Inr out \<and> reference_op op a b c rn = Inr r \<and>
    agrees_with op ve ze out r \<and> p_tiny out = (x \<noteq> 0 \<and> \<bar>x\<bar> < 2 powi (- 1022))"
proof -
  obtain sa ma ea sb mb eb sc mc ec where
    d: "decode a B64 = (Finite, sa, ma, ea)" "decode b B64 = (Finite, sb, mb, eb)" "decode c B64 = (Finite, sc, mc, ec)"
    using fin by (metis prod.collapse)
  obtain n dn e s where v: "finite_value op a b c rn = (n, dn, e, s)" by (metis prod_cases4)
  have val: "0 \<le> n" "0 < dn" "is_bit s" "real_of_int n / real_of_int dn * 2 powi e = \<bar>x\<bar>"
    using finite_value_exact [OF w d op, of rn] nz by (auto simp: v value_of_def x word_value_def d)
  then have n0: "n = 0 \<longleftrightarrow> x = 0"
    by (metis abs_zero abs_eq_0 div_by_0 divide_eq_0_iff less_irrefl mult_eq_0_iff of_int_eq_0_iff power_int_eq_0_iff zero_neq_numeral)
  have tiny: "n \<noteq> 0 \<and> ppc_top n dn e < - 1022 \<longleftrightarrow> x \<noteq> 0 \<and> \<bar>x\<bar> < 2 powi (- 1022)"
    using n0 val tiny_iff [of n dn e "- 1022"] by (cases "n = 0") auto
  have "\<exists>r. reference_op op a b c rn = Inr r \<and> raw_of r = pack_ratio n dn e s rn B64"
  proof (cases "is_fma op")
    case True
    then show ?thesis using finite_value_fma_raw [OF d, of op rn] v by (simp add: reference_op_def)
  next
    case False
    then show ?thesis using finite_value_raw [OF d, of op rn] v op nz d by (simp add: reference_op_def)
  qed
  then obtain r where r: "reference_op op a b c rn = Inr r" "pack_ratio n dn e s rn B64 = raw_of r" by auto
  have flags: "\<not> o_invalid r" "\<not> o_dz r"
    using finite_reference_flags [OF d op _ r(1)] nz d by auto
  have frsp: "op \<noteq> ''frsp''" using op by (auto simp: is_fma_def)
  have nan: "\<not> is_nan (fst (decode (o_bits r) B64))"
    using packed_not_nan [OF val(3) rn val(1,2), of e] by (simp add: r(2) raw_of_def)
  show ?thesis
    unfolding arith_finite [OF fin op nz] v using r(1) flags nan tiny
    by (simp add: arith_round_double [OF r(2) [unfolded raw_of_def] frsp] Let_def ppc_out_def agrees_with_def)
qed

section \<open>Properties\<close>

text \<open>
  C17: in double precision, with overflow and underflow disabled and non-IEEE mode off, the
  PowerPC model agrees with the exact oracle on all words, NaNs, infinities and zero divisors
  included (for the fused forms on all words that are not NaNs: with several NaN operands the
  two pick them in a different order).  \<open>arithmetic\<close> returns the word of \<open>calculate\<close> or
  \<open>calculate_fma\<close>, with the sign flipped after rounding for the negated forms unless it is a
  NaN; some invalid cause is set exactly when the oracle is invalid, ZX exactly on its division by
  zero, OX, XX, FI and FR are its overflow, inexact and increment flags, and UX is set exactly when
  it is inexact and the exact value of finite operands is nonzero and below the normal range.  The
  result is withheld, with FPRF, exactly by an enabled invalid operation or zero divide,
  and FPRF classifies it.
\<close>

theorem arithmetic_matches_reference:
  assumes w: "word_ok B64 a" "word_ok B64 b" "word_ok B64 c" and rn: "rn \<in> {0, 1, 2, 3}"
    and op: "op \<in> {''add'', ''sub'', ''mul'', ''div''} \<or> is_fma op"
    and fma: "is_fma op \<Longrightarrow> \<forall>v \<in> {a, b, c}. \<not> is_nan (fst (decode v B64))"
    and x: "x = exact_ppc op (word_value a) (word_value b) (word_value c)"
  shows "\<exists>out r. arithmetic op a b c rn False False ve False False ze = Inr out \<and> reference_op op a b c rn = Inr r \<and>
    p_result out = (if is_negated op \<and> \<not> is_nan (fst (decode (o_bits r) B64)) then o_bits r XOR push_bit 63 1 else o_bits r) \<and>
    (p_invalid out \<noteq> 0) = o_invalid r \<and> p_zx out = o_dz r \<and> p_ox out = o_of r \<and> p_xx out = o_nx r \<and>
    p_fi out = o_nx r \<and> p_fr out = o_increment r \<and> p_frfi_valid out \<and>
    p_ux out = (o_nx r \<and> (\<forall>v \<in> set (relevant op a b c). fst (decode v B64) = Finite) \<and> x \<noteq> 0 \<and> \<bar>x\<bar> < 2 powi (- 1022)) \<and>
    p_write out = (\<not> (ve \<and> o_invalid r) \<and> \<not> (ze \<and> o_dz r)) \<and> p_fprf_valid out = p_write out \<and>
    p_fprf out = classify (p_result out) B64"
proof -
  let ?fin = "\<forall>v \<in> set (relevant op a b c). fst (decode v B64) = Finite"
  have "\<exists>out r. arithmetic op a b c rn False False ve False False ze = Inr out \<and> reference_op op a b c rn = Inr r \<and>
    agrees_with op ve ze out r \<and> p_tiny out = (?fin \<and> x \<noteq> 0 \<and> \<bar>x\<bar> < 2 powi (- 1022))"
  proof (cases "\<exists>v \<in> set (relevant op a b c). is_nan (fst (decode v B64))")
    case True
    with fma have two: "op \<in> {''add'', ''sub'', ''mul'', ''div''}" and nf: "\<not> is_fma op"
      using op by (auto simp: relevant_def split: if_splits)
    then have rel: "relevant op a b c = [a, if op = ''mul'' then c else b]"
      by (auto simp: relevant_def)
    with True have "is_nan (fst (decode a B64)) \<or> is_nan (fst (decode (if op = ''mul'' then c else b) B64))"
      by auto
    from nan_agrees [OF two refl this, of rn ve ze] True show ?thesis
      by (fastforce simp: is_nan_def)
  next
    case nan: False
    show ?thesis
    proof (cases "?fin \<and> (op = ''div'' \<longrightarrow> fst (snd (snd (decode b B64))) \<noteq> 0)")
      case False
      have kinds: "fst (decode v B64) = Inf \<or> fst (decode v B64) = Finite" if "v \<in> set (relevant op a b c)" for v
        using nan that by (cases "fst (decode v B64)") (auto simp: is_nan_def)
      have b: "op = ''div'' \<Longrightarrow> b \<in> set (relevant op a b c)" by (simp add: relevant_def is_fma_def)
      have special: "(\<exists>v \<in> set (relevant op a b c). fst (decode v B64) = Inf) \<or>
          op = ''div'' \<and> fst (snd (snd (decode b B64))) = 0 \<and> fst (decode b B64) = Finite"
        using False kinds b by blast
      have "\<not> (?fin \<and> x \<noteq> 0)"
      proof
        assume f: "?fin \<and> x \<noteq> 0"
        with False have o: "op = ''div''" and "fst (snd (snd (decode b B64))) = 0" by auto
        then have "word_value b = 0"
          by (auto simp: word_value_def sval_def mag_def split: prod.splits)
        with f o show False by (simp add: x exact_ppc_def)
      qed
      then show ?thesis
        using special_agrees [OF op w _ special, of rn ve ze] nan by blast
    next
      case True
      define b' where "b' = (if op = ''mul'' then 0 else b)"
      define c' where "c' = (if op \<in> {''add'', ''sub'', ''div''} then 0 else c)"
      have same: "arithmetic op a b c rn False False ve False False ze = arithmetic op a b' c' rn False False ve False False ze"
        "reference_op op a b c rn = reference_op op a b' c' rn"
        using arithmetic_irrelevant(1) [of op a b c rn False False ve False False ze] arithmetic_irrelevant(2) [of op a b c rn]
          arithmetic_irrelevant_mul(1) [of a b c rn False False ve False False ze] arithmetic_irrelevant_mul(2) [of a b c rn]
        by (cases "op = ''mul''"; cases "op \<in> {''add'', ''sub'', ''div''}"; simp add: b'_def c'_def)+
      have x': "x = exact_ppc op (word_value a) (word_value b') (word_value c')"
        by (auto simp: x exact_ppc_def b'_def c'_def)
      have "fst (decode a B64) = Finite" "fst (decode b' B64) = Finite" "fst (decode c' B64) = Finite"
        using True op finite_zero by (auto simp: b'_def c'_def relevant_def is_fma_def split: if_splits)
      moreover have "word_ok B64 b'" "word_ok B64 c'"
        using w by (auto simp: b'_def c'_def word_ok_def in_field_def)
      moreover have "op = ''div'' \<longrightarrow> fst (snd (snd (decode b' B64))) \<noteq> 0"
        using True by (simp add: b'_def)
      ultimately show ?thesis
        using finite_agrees [OF w(1) _ _ rn _ _ _ op _ x', of ve ze] True unfolding same by auto
    qed
  qed
  then obtain out r where run: "arithmetic op a b c rn False False ve False False ze = Inr out" "reference_op op a b c rn = Inr r"
    and agree: "agrees_with op ve ze out r" and tiny: "p_tiny out = (?fin \<and> x \<noteq> 0 \<and> \<bar>x\<bar> < 2 powi (- 1022))"
    by (elim exE conjE)
  have ux: "p_ux out = (o_nx r \<and> ?fin \<and> x \<noteq> 0 \<and> \<bar>x\<bar> < 2 powi (- 1022))"
    using agree tiny unfolding agrees_with_def by (simp only: conj_ac)
  show ?thesis
    using run ux agree unfolding agrees_with_def by (intro exI [of _ out] exI [of _ r]) (simp only: simp_thms)
qed

text \<open>Infinity minus infinity with the invalid exception enabled.\<close>

theorem arithmetic_matches_reference_witness:
  "\<exists>out r. arithmetic ''nmadd'' 0x7FF0000000000000 0xFFF0000000000000 0x3FF0000000000000 0 False False True False False True = Inr out \<and>
    reference_op ''nmadd'' 0x7FF0000000000000 0xFFF0000000000000 0x3FF0000000000000 0 = Inr r \<and>
    p_result out = o_bits r \<and> p_invalid out \<noteq> 0 \<and> \<not> p_write out"
proof -
  have kinds: "\<forall>v \<in> {0x7FF0000000000000, 0xFFF0000000000000, 0x3FF0000000000000}. \<not> is_nan (fst (decode v B64))" "is_fma ''nmadd''"
    by code_simp+
  have words: "word_ok B64 0x7FF0000000000000" "word_ok B64 0xFFF0000000000000" "word_ok B64 0x3FF0000000000000"
    by (simp_all add: word_ok_def in_field_def B64_def signbit_def)
  have ref: "case reference_op ''nmadd'' 0x7FF0000000000000 0xFFF0000000000000 0x3FF0000000000000 0 of Inl _ \<Rightarrow> False
      | Inr r \<Rightarrow> o_invalid r \<and> is_nan (fst (decode (o_bits r) B64))"
    by code_simp
  have "(0 :: int) \<in> {0, 1, 2, 3}" by simp
  from arithmetic_matches_reference [OF words this disjI2 [OF kinds(2)] kinds(1) refl, of True True] ref show ?thesis
    by auto
qed

end
