(* ===== verification/Selftest_State.thy ===== *)
theory Selftest_State
  imports Dict Family_Contract Ppc_Fp
begin

text \<open>
  The machine state of \<open>toolchain/demo/selftest/gen.py\<close>, the instruction-set model
  that produces the expected results of the opcode self-test, and the effects of
  its methods.  The state is a Python dictionary that the methods mutate; here it
  is the record \<open>mstate\<close>, threaded through a small monad whose computations end in
  one of four ways: they return (\<open>Ret\<close>), they raise the class \<open>Trap\<close>, which keeps the
  state as mutated so far because the caller goes on using it (\<open>Raise\<close>), they raise
  any other exception, which ends the program (\<open>Fail\<close>), or a loop never ends (\<open>Hang\<close>).

  A register holds an integer, \<open>None\<close> (not predicted) or a tagged tuple: the code
  writes \<open>("rel", n)\<close>, \<open>("abs", n)\<close>, \<open>("abs", name)\<close> and \<open>("mask", v, m)\<close>.  Arithmetic
  on anything but an integer raises \<open>TypeError\<close>.
\<close>

section \<open>Values, state, traps\<close>

datatype pval = PNone | PInt int | PRel int | PAbs int | PSym string | PMask int int

definition as_int :: "pval \<Rightarrow> int result" where
  "as_int v = (case v of PInt x \<Rightarrow> Inr x | _ \<Rightarrow> Inl TypeError)"

record mstate =
  s_gpr :: "pval list"
  s_cr :: int
  s_xer :: int
  s_lr :: pval
  s_ctr :: pval
  s_msr :: int
  s_srr0 :: pval
  s_srr1 :: pval
  s_dar :: pval
  s_dsisr :: pval
  s_sprg :: "pval list"
  s_sr :: "pval list"
  s_ear :: int
  s_mem :: "int list"
  s_fpr :: "int list"
  s_fpscr :: int
  s_vec :: int
  s_resv :: "int option"
  s_icbi :: "int option"
  s_dontcare :: "(string, int) dict"
  s_backing :: "(int, int list) dict"

record Trap =
  t_vec :: int
  t_flags :: int
  t_dar :: "int option"
  t_dsisr :: "int option"
  t_dsisr_mask :: int
  t_next_pc :: bool
  t_target :: "pval option"
  t_srr1_mask :: int

definition M32 :: int where "M32 = 0xFFFFFFFF"

definition mk_Trap :: "int \<Rightarrow> Trap" where
  "mk_Trap vec = \<lparr>t_vec = vec, t_flags = 0, t_dar = None, t_dsisr = None, t_dsisr_mask = M32, t_next_pc = False,
     t_target = None, t_srr1_mask = M32\<rparr>"

section \<open>Effects\<close>

datatype 'a outcome = Ret 'a mstate | Raise Trap mstate | Fail py_error | Hang

type_synonym 'a M = "mstate \<Rightarrow> 'a outcome"

definition retM :: "'a \<Rightarrow> 'a M" where "retM x st = Ret x st"
definition raiseM :: "Trap \<Rightarrow> 'a M" where "raiseM t st = Raise t st"
definition failM :: "py_error \<Rightarrow> 'a M" where "failM e st = Fail e"
definition hangM :: "'a M" where "hangM st = Hang"

definition bindM :: "'a M \<Rightarrow> ('a \<Rightarrow> 'b M) \<Rightarrow> 'b M" where
  "bindM c f st = (case c st of Ret x st' \<Rightarrow> f x st' | Raise t st' \<Rightarrow> Raise t st' | Fail e \<Rightarrow> Fail e | Hang \<Rightarrow> Hang)"

definition seqM :: "unit M \<Rightarrow> 'b M \<Rightarrow> 'b M" where
  "seqM c d = bindM c (\<lambda>_. d)"

definition getM :: "(mstate \<Rightarrow> 'a) \<Rightarrow> 'a M" where "getM f st = Ret (f st) st"
definition modM :: "(mstate \<Rightarrow> mstate) \<Rightarrow> unit M" where "modM f st = Ret () (f st)"
definition liftM :: "'a result \<Rightarrow> 'a M" where
  "liftM r st = (case r of Inl e \<Rightarrow> Fail e | Inr x \<Rightarrow> Ret x st)"

text \<open>A \<open>for\<close> loop over a list.\<close>

fun forM :: "'a list \<Rightarrow> ('a \<Rightarrow> unit M) \<Rightarrow> unit M" where
  "forM [] body = retM ()"
| "forM (x # xs) body = seqM (body x) (forM xs body)"

named_theorems effect_simps \<open>running the effects\<close>

lemma run_effects [effect_simps]:
  "retM x st = Ret x st" "raiseM t st = Raise t st" "failM e st = Fail e" "hangM st = Hang"
  "getM f st = Ret (f st) st" "modM g st = Ret () (g st)"
  "liftM (Inr x) st = Ret x st" "liftM (Inl e) st = Fail e"
  by (simp_all add: retM_def raiseM_def failM_def hangM_def getM_def modM_def liftM_def)

lemma run_bind [effect_simps]:
  "bindM c f st = (case c st of Ret x st' \<Rightarrow> f x st' | Raise t st' \<Rightarrow> Raise t st' | Fail e \<Rightarrow> Fail e | Hang \<Rightarrow> Hang)"
  "seqM d f' st = (case d st of Ret _ st' \<Rightarrow> f' st' | Raise t st' \<Rightarrow> Raise t st' | Fail e \<Rightarrow> Fail e | Hang \<Rightarrow> Hang)"
  by (simp_all add: bindM_def seqM_def)

lemma run_if [effect_simps]: "(if b then c else d) st = (if b then c st else d st)"
  by simp

section \<open>What every computation keeps\<close>

text \<open>
  \<open>keeps I c\<close>: from a state of the invariant \<open>I\<close>, wherever the computation stops with
  a state (on return or in a trap) the state is again in \<open>I\<close>; \<open>keepsV I P c\<close> adds
  that a returned value satisfies \<open>P\<close>.  The rules follow the structure of the code.
\<close>

definition keepsV :: "(mstate \<Rightarrow> bool) \<Rightarrow> ('a \<Rightarrow> bool) \<Rightarrow> 'a M \<Rightarrow> bool" where
  "keepsV I P c \<longleftrightarrow> (\<forall>st. I st \<longrightarrow>
     (case c st of Ret x st' \<Rightarrow> P x \<and> I st' | Raise t st' \<Rightarrow> I st' | Fail e \<Rightarrow> True | Hang \<Rightarrow> True))"

abbreviation keeps :: "(mstate \<Rightarrow> bool) \<Rightarrow> 'a M \<Rightarrow> bool" where
  "keeps I c \<equiv> keepsV I (\<lambda>_. True) c"

named_theorems keeps_intros \<open>structural rules for \<open>keeps\<close>\<close>

lemma keepsV_ret: "P x \<Longrightarrow> keepsV I P (retM x)"
  by (simp add: keepsV_def effect_simps)

lemma keeps_ret [keeps_intros]: "keeps I (retM x)"
  by (simp add: keepsV_ret)

lemma keeps_raise [keeps_intros]: "keepsV I P (raiseM t)"
  and keeps_fail [keeps_intros]: "keepsV I P (failM e)"
  and keeps_hang [keeps_intros]: "keepsV I P hangM"
  by (simp_all add: keepsV_def effect_simps)

lemma keepsVD: "keepsV I P c \<Longrightarrow> I st \<Longrightarrow>
    (case c st of Ret x st' \<Rightarrow> P x \<and> I st' | Raise t st' \<Rightarrow> I st' | Fail e \<Rightarrow> True | Hang \<Rightarrow> True)"
  unfolding keepsV_def by blast

lemma keepsVI: "(\<And>st. I st \<Longrightarrow>
    case c st of Ret x st' \<Rightarrow> P x \<and> I st' | Raise t st' \<Rightarrow> I st' | Fail e \<Rightarrow> True | Hang \<Rightarrow> True) \<Longrightarrow> keepsV I P c"
  unfolding keepsV_def by blast

lemma keepsV_bind:
  assumes "keepsV I Q c" "\<And>x. Q x \<Longrightarrow> keepsV I P (f x)"
  shows "keepsV I P (bindM c f)"
proof (rule keepsVI)
  fix st assume "I st"
  note c = keepsVD [OF assms(1) this]
  show "case bindM c f st of Ret x st' \<Rightarrow> P x \<and> I st' | Raise t st' \<Rightarrow> I st' | Fail e \<Rightarrow> True | Hang \<Rightarrow> True"
  proof (cases "c st")
    case (Ret x st')
    then show ?thesis using c keepsVD [OF assms(2), of x st'] by (simp add: run_bind)
  qed (use c in \<open>simp_all add: run_bind\<close>)
qed

lemma keepsV_weaken:
  assumes "keepsV I Q c" "\<And>x. Q x \<Longrightarrow> P x"
  shows "keepsV I P c"
proof (rule keepsVI)
  fix st assume "I st"
  from keepsVD [OF assms(1) this]
  show "case c st of Ret x st' \<Rightarrow> P x \<and> I st' | Raise t st' \<Rightarrow> I st' | Fail e \<Rightarrow> True | Hang \<Rightarrow> True"
    using assms(2) by (cases "c st") simp_all
qed

lemma keeps_seq [keeps_intros]: "keeps I c \<Longrightarrow> keepsV I P d \<Longrightarrow> keepsV I P (seqM c d)"
  unfolding seqM_def by (rule keepsV_bind)

lemma keeps_if [keeps_intros]: "(b \<Longrightarrow> keepsV I P c) \<Longrightarrow> (\<not> b \<Longrightarrow> keepsV I P d) \<Longrightarrow> keepsV I P (if b then c else d)"
  by simp

lemma keepsV_get: "(\<And>st. I st \<Longrightarrow> P (f st)) \<Longrightarrow> keepsV I P (getM f)"
  by (simp add: keepsV_def effect_simps)

lemma keeps_mod: "(\<And>st. I st \<Longrightarrow> I (f st)) \<Longrightarrow> keeps I (modM f)"
  by (simp add: keepsV_def effect_simps)

lemma keepsV_lift: "(\<And>x. r = Inr x \<Longrightarrow> P x) \<Longrightarrow> keepsV I P (liftM r)"
  by (cases r) (simp_all add: keepsV_def effect_simps)

lemma keeps_for [keeps_intros]: "(\<And>x. keeps I (body x)) \<Longrightarrow> keeps I (forM xs body)"
  by (induction xs) (simp_all add: keeps_ret keeps_seq)

end
