(* ===== verification/Selftest_Insn.thy ===== *)
theory Selftest_Insn
  imports Selftest_State
begin

text \<open>
  The instructions of \<open>toolchain/demo/selftest/gen.py\<close>: the class \<open>Insn\<close>, with the
  word, the assembler text, the mnemonic and the keyword fields, and one function
  per encoder, in the order of the source.  The integer fields of an instruction
  are an association list keyed by the attribute names; \<open>__getattr__\<close> on a missing
  one raises.  The words are built with \<open>shl\<close> and \<open>OR\<close> exactly as the source does, and
  cut to 32 bits by the constructor.
\<close>

section \<open>Words and text\<close>

definition s32 :: "int \<Rightarrow> int" where
  "s32 x = (let x = x AND M32 in if x AND 0x80000000 \<noteq> 0 then x - push_bit 32 1 else x)"

definition rotl :: "int \<Rightarrow> int \<Rightarrow> int" where
  "rotl x n =
     (let n = n AND 31; x = x AND M32
      in if n \<noteq> 0 then (push_bit (nat n) x OR drop_bit (nat (32 - n)) x) AND M32 else x)"

text \<open>\<open>while True\<close>: set bit \<open>31 - i\<close>, stop at \<open>me\<close>, else step \<open>i\<close> modulo 32.\<close>

partial_function (option) mask_loop :: "int \<Rightarrow> int \<Rightarrow> int \<Rightarrow> int option" where
  "mask_loop me i m =
     (let m = m OR push_bit (nat (31 - i)) 1
      in if i = me then Some m else mask_loop me ((i + 1) AND 31) m)"

text \<open>A shift by a negative count raises; only the first index can be above 31.\<close>

definition gen_mask :: "int \<Rightarrow> int \<Rightarrow> int option result" where
  "gen_mask mb me = (if 31 < mb then Inl (ValueError ''negative shift count'') else Inr (mask_loop me mb 0))"

text \<open>\<open>s32(imm << 16) >> 16\<close>, the sign-extended 16-bit immediate.\<close>

definition simm16 :: "int \<Rightarrow> int" where
  "simm16 imm = drop_bit 16 (s32 (push_bit 16 imm))"

text \<open>Decimal digits, for the f-strings of the assembler text.\<close>

fun nat_str :: "nat \<Rightarrow> string" where
  "nat_str n = (if n < 10 then [char_of (48 + n)] else nat_str (n div 10) @ [char_of (48 + n mod 10)])"

declare nat_str.simps [simp del]

definition int_str :: "int \<Rightarrow> string" where
  "int_str i = (if i < 0 then ''-'' @ nat_str (nat (- i)) else nat_str (nat i))"

fun commas :: "int list \<Rightarrow> string" where
  "commas [] = []"
| "commas [i] = int_str i"
| "commas (i # j # is) = int_str i @ '','' @ commas (j # is)"

definition dot :: "int \<Rightarrow> string" where "dot rc = (if rc \<noteq> 0 then ''.'' else [])"

definition sfx :: "int \<Rightarrow> int \<Rightarrow> string" where
  "sfx oe rc = (if oe \<noteq> 0 then ''o'' else []) @ dot rc"

section \<open>Instructions\<close>

datatype fname = A_rt | A_ra | A_rb | A_rc | A_xo | A_oe | A_rs | A_imm | A_op | A_sh | A_mb | A_me | A_bf | A_bfa
  | A_a | A_b | A_c | A_lk | A_spr | A_fxm | A_sr | A_bo | A_bi | A_aa | A_n | A_nb

record Insn =
  i_word :: int
  i_text :: string
  i_m :: string
  i_f :: "(fname \<times> int) list"
  i_kind :: "string option"
  i_xform :: bool
  i_priv :: bool
  i_fp :: bool
  i_fpop :: bool
  i_status :: "(string \<times> string) list option"
  i_target :: "pval option"
  i_sem :: "(mstate \<Rightarrow> mstate) option"
  i_asm :: "string option"

definition mk_Insn :: "int \<Rightarrow> string \<Rightarrow> string \<Rightarrow> (fname \<times> int) list \<Rightarrow> Insn" where
  "mk_Insn w text m f = \<lparr>i_word = w AND M32, i_text = text, i_m = m, i_f = f, i_kind = None, i_xform = False,
     i_priv = False, i_fp = False, i_fpop = False, i_status = None, i_target = None, i_sem = None, i_asm = None\<rparr>"

definition attr :: "Insn \<Rightarrow> fname \<Rightarrow> int result" where
  "attr ins k = (case map_of (i_f ins) k of None \<Rightarrow> Inl AttributeError | Some v \<Rightarrow> Inr v)"

definition keyed :: "(string \<times> 'a) list \<Rightarrow> string \<Rightarrow> 'a result" where
  "keyed tbl m = (case map_of tbl m of None \<Rightarrow> Inl KeyError | Some v \<Rightarrow> Inr v)"

section \<open>Encoders\<close>

definition d_form :: "string \<Rightarrow> int \<Rightarrow> int \<Rightarrow> int \<Rightarrow> int \<Rightarrow> Insn" where
  "d_form m op rt ra imm =
     mk_Insn (shl op 26 OR shl rt 21 OR shl ra 16 OR (imm AND 0xFFFF))
       (m @ '' '' @ commas [rt, ra, simm16 imm]) m
       [(A_rt, rt), (A_ra, ra), (A_imm, imm AND 0xFFFF), (A_op, op)]"

definition d_mem :: "string \<Rightarrow> int \<Rightarrow> int \<Rightarrow> int \<Rightarrow> int \<Rightarrow> Insn" where
  "d_mem m op rt d ra =
     mk_Insn (shl op 26 OR shl rt 21 OR shl ra 16 OR (d AND 0xFFFF))
       (m @ '' '' @ int_str rt @ '','' @ int_str d @ ''('' @ int_str ra @ '')'') m
       [(A_rt, rt), (A_ra, ra), (A_imm, d AND 0xFFFF), (A_op, op)]"

definition x_form :: "string \<Rightarrow> int \<Rightarrow> int \<Rightarrow> int \<Rightarrow> int \<Rightarrow> int \<Rightarrow> string option \<Rightarrow> Insn" where
  "x_form m xo rt ra rb rc text =
     mk_Insn (shl 31 26 OR shl rt 21 OR shl ra 16 OR shl rb 11 OR shl xo 1 OR rc)
       (case text of Some t \<Rightarrow> t | None \<Rightarrow> m @ dot rc @ '' '' @ commas [rt, ra, rb]) m
       [(A_rt, rt), (A_ra, ra), (A_rb, rb), (A_rc, rc), (A_xo, xo), (A_oe, 0)]"

definition UNARY :: "string list" where
  "UNARY = [''addme'', ''addze'', ''subfme'', ''subfze'', ''neg'']"

definition xo_form :: "string \<Rightarrow> int \<Rightarrow> int \<Rightarrow> int \<Rightarrow> int \<Rightarrow> int \<Rightarrow> int \<Rightarrow> Insn" where
  "xo_form m xo rt ra rb oe rc =
     mk_Insn (shl 31 26 OR shl rt 21 OR shl ra 16 OR shl rb 11 OR shl oe 10 OR shl xo 1 OR rc)
       (m @ sfx oe rc @ '' '' @ (if m \<in> set UNARY then commas [rt, ra] else commas [rt, ra, rb])) m
       [(A_rt, rt), (A_ra, ra), (A_rb, rb), (A_oe, oe), (A_rc, rc), (A_xo, xo)]"

definition XO_OPS :: "(string \<times> int) list" where
  "XO_OPS = [(''add'', 266), (''addc'', 10), (''adde'', 138), (''addme'', 234), (''addze'', 202), (''subf'', 40),
     (''subfc'', 8), (''subfe'', 136), (''subfme'', 232), (''subfze'', 200), (''neg'', 104), (''mullw'', 235),
     (''mulhw'', 75), (''mulhwu'', 11), (''divw'', 491), (''divwu'', 459)]"

definition LOG_OPS :: "(string \<times> int) list" where
  "LOG_OPS = [(''and'', 28), (''andc'', 60), (''or'', 444), (''orc'', 412), (''xor'', 316), (''nand'', 476), (''nor'', 124),
     (''eqv'', 284), (''slw'', 24), (''srw'', 536), (''sraw'', 792)]"

definition UN_OPS :: "(string \<times> int) list" where
  "UN_OPS = [(''extsb'', 954), (''extsh'', 922), (''cntlzw'', 26)]"

definition xo :: "string \<Rightarrow> int \<Rightarrow> int \<Rightarrow> int \<Rightarrow> int \<Rightarrow> int \<Rightarrow> Insn result" where
  "xo m rt ra rb oe rc = bindR (keyed XO_OPS m) (\<lambda>x. Inr (xo_form m x rt ra rb oe rc))"

definition logx :: "string \<Rightarrow> int \<Rightarrow> int \<Rightarrow> int \<Rightarrow> int \<Rightarrow> Insn result" where
  "logx m ra rs rb rc = bindR (keyed LOG_OPS m) (\<lambda>x. Inr
     (mk_Insn (shl 31 26 OR shl rs 21 OR shl ra 16 OR shl rb 11 OR shl x 1 OR rc)
       (m @ dot rc @ '' '' @ commas [ra, rs, rb]) m [(A_rs, rs), (A_ra, ra), (A_rb, rb), (A_rc, rc), (A_oe, 0)]))"

definition unx :: "string \<Rightarrow> int \<Rightarrow> int \<Rightarrow> int \<Rightarrow> Insn result" where
  "unx m ra rs rc = bindR (keyed UN_OPS m) (\<lambda>x. Inr
     (mk_Insn (shl 31 26 OR shl rs 21 OR shl ra 16 OR shl x 1 OR rc)
       (m @ dot rc @ '' '' @ commas [ra, rs]) m [(A_rs, rs), (A_ra, ra), (A_rc, rc), (A_oe, 0)]))"

definition srawi :: "int \<Rightarrow> int \<Rightarrow> int \<Rightarrow> int \<Rightarrow> Insn" where
  "srawi ra rs sh rc =
     mk_Insn (shl 31 26 OR shl rs 21 OR shl ra 16 OR shl sh 11 OR shl 824 1 OR rc)
       (''srawi'' @ dot rc @ '' '' @ commas [ra, rs, sh]) ''srawi''
       [(A_rs, rs), (A_ra, ra), (A_sh, sh), (A_rc, rc), (A_oe, 0)]"

definition dimm :: "string \<Rightarrow> int \<Rightarrow> int \<Rightarrow> int \<Rightarrow> int \<Rightarrow> Insn" where
  "dimm m op rt ra imm = d_form m op rt ra imm"

definition dlog :: "string \<Rightarrow> int \<Rightarrow> int \<Rightarrow> int \<Rightarrow> int \<Rightarrow> Insn" where
  "dlog m op ra rs uimm =
     mk_Insn (shl op 26 OR shl rs 21 OR shl ra 16 OR (uimm AND 0xFFFF))
       (m @ '' '' @ commas [ra, rs, uimm AND 0xFFFF]) m
       [(A_rs, rs), (A_ra, ra), (A_imm, uimm AND 0xFFFF), (A_rc, 0)]"

definition mform :: "string \<Rightarrow> int \<Rightarrow> int \<Rightarrow> int \<Rightarrow> int \<Rightarrow> int \<Rightarrow> int \<Rightarrow> int \<Rightarrow> Insn" where
  "mform m op rs ra sh_rb mb me rc =
     mk_Insn (shl op 26 OR shl rs 21 OR shl ra 16 OR shl sh_rb 11 OR shl mb 6 OR shl me 1 OR rc)
       (m @ dot rc @ '' '' @ commas [ra, rs, sh_rb, mb, me]) m
       [(A_rs, rs), (A_ra, ra), (A_sh, sh_rb), (A_mb, mb), (A_me, me), (A_rc, rc)]"

definition cmp_insn :: "string \<Rightarrow> int \<Rightarrow> int \<Rightarrow> int \<Rightarrow> Insn" where
  "cmp_insn m bf ra rb_imm =
     (if m = ''cmp'' \<or> m = ''cmpl''
      then mk_Insn (shl 31 26 OR shl bf 23 OR shl ra 16 OR shl rb_imm 11 OR shl (if m = ''cmp'' then 0 else 32) 1)
             (m @ '' '' @ commas [bf, 0, ra, rb_imm]) m [(A_bf, bf), (A_ra, ra), (A_rb, rb_imm)]
      else mk_Insn (shl (if m = ''cmpi'' then 11 else 10) 26 OR shl bf 23 OR shl ra 16 OR (rb_imm AND 0xFFFF))
             (m @ '' '' @ commas [bf, 0, ra, (if m = ''cmpi'' then simm16 rb_imm else rb_imm AND 0xFFFF)]) m
             [(A_bf, bf), (A_ra, ra), (A_imm, rb_imm AND 0xFFFF)])"

definition CR_OPS :: "(string \<times> int) list" where
  "CR_OPS = [(''crand'', 257), (''crandc'', 129), (''creqv'', 289), (''crnand'', 225), (''crnor'', 33), (''cror'', 449),
     (''crorc'', 417), (''crxor'', 193)]"

definition xl :: "string \<Rightarrow> int \<Rightarrow> int \<Rightarrow> int \<Rightarrow> int \<Rightarrow> int \<Rightarrow> string option \<Rightarrow> Insn" where
  "xl m xop a b c lk text =
     mk_Insn (shl 19 26 OR shl a 21 OR shl b 16 OR shl c 11 OR shl xop 1 OR lk)
       (case text of Some t \<Rightarrow> t | None \<Rightarrow> m @ '' '' @ commas [a, b, c]) m [(A_a, a), (A_b, b), (A_c, c), (A_lk, lk)]"

definition spr_field :: "int \<Rightarrow> int" where
  "spr_field spr = shl (spr AND 0x1F) 5 OR drop_bit 5 spr"

definition mfspr :: "int \<Rightarrow> int \<Rightarrow> Insn" where
  "mfspr rt spr = mk_Insn (shl 31 26 OR shl rt 21 OR shl (spr_field spr) 11 OR shl 339 1)
     (''mfspr '' @ commas [rt, spr]) ''mfspr'' [(A_rt, rt), (A_spr, spr)]"

definition mtspr :: "int \<Rightarrow> int \<Rightarrow> Insn" where
  "mtspr spr rs = mk_Insn (shl 31 26 OR shl rs 21 OR shl (spr_field spr) 11 OR shl 467 1)
     (''mtspr '' @ commas [spr, rs]) ''mtspr'' [(A_rs, rs), (A_spr, spr)]"

definition mftb :: "int \<Rightarrow> int \<Rightarrow> Insn" where
  "mftb rt tbr = mk_Insn (shl 31 26 OR shl rt 21 OR shl (spr_field tbr) 11 OR shl 371 1)
     (''mftb '' @ commas [rt, tbr]) ''mftb'' [(A_rt, rt), (A_spr, tbr)]"

definition raw :: "string \<Rightarrow> int \<Rightarrow> string option \<Rightarrow> (fname \<times> int) list \<Rightarrow> Insn" where
  "raw m word text f = mk_Insn word (case text of Some t \<Rightarrow> t | None \<Rightarrow> m) m f"

section \<open>Loads, stores, cache operations\<close>

definition LS_D :: "(string \<times> int \<times> int \<times> string) list" where
  "LS_D = [(''lwz'', 32, 4, ''l''), (''lwzu'', 33, 4, ''lu''), (''lbz'', 34, 1, ''l''), (''lbzu'', 35, 1, ''lu''),
     (''stw'', 36, 4, ''s''), (''stwu'', 37, 4, ''su''), (''stb'', 38, 1, ''s''), (''stbu'', 39, 1, ''su''),
     (''lhz'', 40, 2, ''l''), (''lhzu'', 41, 2, ''lu''), (''lha'', 42, 2, ''la''), (''lhau'', 43, 2, ''lau''),
     (''sth'', 44, 2, ''s''), (''sthu'', 45, 2, ''su''), (''lmw'', 46, 4, ''lm''), (''stmw'', 47, 4, ''sm'')]"

definition LS_X :: "(string \<times> int \<times> int \<times> string) list" where
  "LS_X = [(''lwzx'', 23, 4, ''l''), (''lwzux'', 55, 4, ''lu''), (''lbzx'', 87, 1, ''l''),
     (''lbzux'', 119, 1, ''lu''), (''stwx'', 151, 4, ''s''), (''stwux'', 183, 4, ''su''),
     (''stbx'', 215, 1, ''s''), (''stbux'', 247, 1, ''su''), (''lhzx'', 279, 2, ''l''),
     (''lhzux'', 311, 2, ''lu''), (''lhax'', 343, 2, ''la''), (''lhaux'', 375, 2, ''lau''),
     (''sthx'', 407, 2, ''s''), (''sthux'', 439, 2, ''su''), (''lhbrx'', 790, 2, ''lbr''),
     (''lwbrx'', 534, 4, ''lbr''), (''sthbrx'', 918, 2, ''sbr''), (''stwbrx'', 662, 4, ''sbr''),
     (''lwarx'', 20, 4, ''larx''), (''stwcx.'', 150, 4, ''stcx''), (''lswx'', 533, 0, ''lsx''),
     (''stswx'', 661, 0, ''ssx''), (''eciwx'', 310, 4, ''eci''), (''ecowx'', 438, 4, ''eco'')]"

text \<open>\<open>i.f.update(n=n, kind=kind, xform=...)\<close>\<close>

definition with_kind :: "Insn \<Rightarrow> (fname \<times> int) list \<Rightarrow> string \<Rightarrow> bool \<Rightarrow> Insn" where
  "with_kind i f kind xform = i\<lparr>i_f := f @ i_f i, i_kind := Some kind, i_xform := xform\<rparr>"

definition ldst :: "string \<Rightarrow> int \<Rightarrow> int \<Rightarrow> int \<Rightarrow> Insn result" where
  "ldst m rt d ra = bindR (keyed LS_D m) (\<lambda>(op, n, kind). Inr (with_kind (d_mem m op rt d ra) [(A_n, n)] kind False))"

definition ldstx :: "string \<Rightarrow> int \<Rightarrow> int \<Rightarrow> int \<Rightarrow> Insn result" where
  "ldstx m rt ra rb = bindR (keyed LS_X m) (\<lambda>(xop, n, kind).
     Inr (with_kind (x_form m xop rt ra rb (if m = ''stwcx.'' then 1 else 0) (Some (m @ '' '' @ commas [rt, ra, rb])))
       [(A_n, n)] kind True))"

definition lswi :: "int \<Rightarrow> int \<Rightarrow> int \<Rightarrow> Insn" where
  "lswi rt ra nb = with_kind (x_form ''lswi'' 597 rt ra (nb AND 31) 0 (Some (''lswi '' @ commas [rt, ra, nb])))
     [(A_nb, if nb \<noteq> 0 then nb else 32)] ''lsi'' True"

definition stswi :: "int \<Rightarrow> int \<Rightarrow> int \<Rightarrow> Insn" where
  "stswi rs ra nb = with_kind (x_form ''stswi'' 725 rs ra (nb AND 31) 0 (Some (''stswi '' @ commas [rs, ra, nb])))
     [(A_nb, if nb \<noteq> 0 then nb else 32)] ''ssi'' True"

definition CACHE_OPS :: "(string \<times> int) list" where
  "CACHE_OPS = [(''dcbf'', 86), (''dcbi'', 470), (''dcbst'', 54), (''dcbt'', 278), (''dcbtst'', 246), (''dcbz'', 1014),
     (''icbi'', 982)]"

definition cache :: "string \<Rightarrow> int \<Rightarrow> int \<Rightarrow> Insn result" where
  "cache m ra rb = bindR (keyed CACHE_OPS m) (\<lambda>x.
     Inr ((x_form m x 0 ra rb 0 (Some (m @ '' '' @ commas [ra, rb])))\<lparr>i_xform := True\<rparr>))"

section \<open>Branches, traps, system instructions\<close>

definition b_insn :: "pval \<Rightarrow> int \<Rightarrow> Insn" where
  "b_insn off lk = (mk_Insn 0 [] ''b'' [(A_lk, lk), (A_aa, 0)])\<lparr>i_target := Some off\<rparr>"

definition bc :: "int \<Rightarrow> int \<Rightarrow> pval \<Rightarrow> int \<Rightarrow> Insn" where
  "bc bo bi off lk = (mk_Insn 0 [] ''bc'' [(A_bo, bo), (A_bi, bi), (A_lk, lk), (A_aa, 0)])\<lparr>i_target := Some off\<rparr>"

definition with_cond :: "Insn \<Rightarrow> int \<Rightarrow> int \<Rightarrow> Insn" where
  "with_cond i bo bi = i\<lparr>i_f := [(A_bo, bo), (A_bi, bi)] @ i_f i\<rparr>"

definition bclr :: "int \<Rightarrow> int \<Rightarrow> int \<Rightarrow> Insn" where
  "bclr bo bi lk = with_cond (xl ''bclr'' 16 bo bi 0 lk
     (Some (''bclr'' @ (if lk \<noteq> 0 then ''l'' else []) @ '' '' @ commas [bo, bi, 0]))) bo bi"

definition bcctr :: "int \<Rightarrow> int \<Rightarrow> int \<Rightarrow> Insn" where
  "bcctr bo bi lk = with_cond (xl ''bcctr'' 528 bo bi 0 lk
     (Some (''bcctr'' @ (if lk \<noteq> 0 then ''l'' else []) @ '' '' @ commas [bo, bi, 0]))) bo bi"

definition tw :: "int \<Rightarrow> int \<Rightarrow> int \<Rightarrow> Insn" where
  "tw to ra rb = x_form ''tw'' 4 to ra rb 0 (Some (''tw '' @ commas [to, ra, rb]))"

definition twi :: "int \<Rightarrow> int \<Rightarrow> int \<Rightarrow> Insn" where
  "twi to ra simm = mk_Insn (shl 3 26 OR shl to 21 OR shl ra 16 OR (simm AND 0xFFFF))
     (''twi '' @ commas [to, ra, simm]) ''twi'' [(A_rt, to), (A_ra, ra), (A_imm, simm AND 0xFFFF)]"

definition SC :: Insn where "SC = raw ''sc'' 0x44000002 None []"
definition RFI :: Insn where "RFI = raw ''rfi'' 0x4C000064 None []"
definition ISYNC :: Insn where "ISYNC = raw ''isync'' 0x4C00012C None []"
definition SYNC :: Insn where "SYNC = raw ''sync'' 0x7C0004AC None []"
definition EIEIO :: Insn where "EIEIO = raw ''eieio'' 0x7C0006AC None []"
definition TLBSYNC :: Insn where "TLBSYNC = raw ''tlbsync'' 0x7C00046C None []"

definition mfmsr :: "int \<Rightarrow> Insn" where
  "mfmsr rt = raw ''mfmsr'' (shl 31 26 OR shl rt 21 OR shl 83 1) (Some (''mfmsr '' @ commas [rt])) [(A_rt, rt)]"

definition mtmsr :: "int \<Rightarrow> Insn" where
  "mtmsr rs = raw ''mtmsr'' (shl 31 26 OR shl rs 21 OR shl 146 1) (Some (''mtmsr '' @ commas [rs])) [(A_rs, rs)]"

definition mfcr :: "int \<Rightarrow> Insn" where
  "mfcr rt = raw ''mfcr'' (shl 31 26 OR shl rt 21 OR shl 19 1) (Some (''mfcr '' @ commas [rt])) [(A_rt, rt)]"

definition mtcrf :: "int \<Rightarrow> int \<Rightarrow> Insn" where
  "mtcrf fxm rs = raw ''mtcrf'' (shl 31 26 OR shl rs 21 OR shl fxm 12 OR shl 144 1)
     (Some (''mtcrf '' @ commas [fxm, rs])) [(A_rs, rs), (A_fxm, fxm)]"

definition mcrxr :: "int \<Rightarrow> Insn" where
  "mcrxr bf = raw ''mcrxr'' (shl 31 26 OR shl bf 23 OR shl 512 1) (Some (''mcrxr '' @ commas [bf])) [(A_bf, bf)]"

definition mcrf :: "int \<Rightarrow> int \<Rightarrow> Insn" where
  "mcrf bf bfa = raw ''mcrf'' (shl 19 26 OR shl bf 23 OR shl bfa 18) (Some (''mcrf '' @ commas [bf, bfa]))
     [(A_bf, bf), (A_bfa, bfa)]"

definition mfsr :: "int \<Rightarrow> int \<Rightarrow> Insn" where
  "mfsr rt sr = raw ''mfsr'' (shl 31 26 OR shl rt 21 OR shl sr 16 OR shl 595 1) (Some (''mfsr '' @ commas [rt, sr]))
     [(A_rt, rt), (A_sr, sr)]"

definition mtsr :: "int \<Rightarrow> int \<Rightarrow> Insn" where
  "mtsr sr rs = raw ''mtsr'' (shl 31 26 OR shl rs 21 OR shl sr 16 OR shl 210 1) (Some (''mtsr '' @ commas [sr, rs]))
     [(A_rs, rs), (A_sr, sr)]"

definition mfsrin :: "int \<Rightarrow> int \<Rightarrow> Insn" where
  "mfsrin rt rb = raw ''mfsrin'' (shl 31 26 OR shl rt 21 OR shl rb 11 OR shl 659 1) (Some (''mfsrin '' @ commas [rt, rb]))
     [(A_rt, rt), (A_rb, rb)]"

definition mtsrin :: "int \<Rightarrow> int \<Rightarrow> Insn" where
  "mtsrin rs rb = raw ''mtsrin'' (shl 31 26 OR shl rs 21 OR shl rb 11 OR shl 242 1) (Some (''mtsrin '' @ commas [rs, rb]))
     [(A_rs, rs), (A_rb, rb)]"

definition tlbie :: "int \<Rightarrow> Insn" where
  "tlbie rb = raw ''tlbie'' (shl 31 26 OR shl rb 11 OR shl 306 1) (Some (''tlbie '' @ commas [rb])) [(A_rb, rb)]"

definition tlbld :: "int \<Rightarrow> Insn" where
  "tlbld rb = raw ''tlbld'' (shl 31 26 OR shl rb 11 OR shl 978 1) (Some (''tlbld '' @ commas [rb])) [(A_rb, rb)]"

definition tlbli :: "int \<Rightarrow> Insn" where
  "tlbli rb = raw ''tlbli'' (shl 31 26 OR shl rb 11 OR shl 1010 1) (Some (''tlbli '' @ commas [rb])) [(A_rb, rb)]"

end
