(* ===== verification/Selftest_Machine.thy ===== *)
theory Selftest_Machine
  imports Selftest_Insn
begin

text \<open>
  The integer side of the class \<open>Machine\<close> of \<open>toolchain/demo/selftest/gen.py\<close>:
  condition register and XER helpers, data translation, byte memory, the legality
  checks, and the execution of arithmetic, compare, branch, special-register,
  load/store and cache instructions.  Each method is a computation of the monad of
  \<open>Selftest_State\<close>; \<open>step\<close> itself, which also dispatches to the floating-point unit, is in
  \<open>Selftest_Step\<close>.
\<close>

section \<open>Memory map and variants\<close>

definition BUF :: int where "BUF = 0xFFF3C000"
definition BUF_WORDS :: int where "BUF_WORDS = 64"
definition STUB :: int where "STUB = BUF + 0x800"
definition RO_EA :: int where "RO_EA = 0x10020000"
definition RO_PA :: int where "RO_PA = 0xFFF20000"
definition BAT_BYTES :: int where "BAT_BYTES = 0x20000"
definition NX_EA :: int where "NX_EA = 0x20020000"
definition DIRECT_EA :: int where "DIRECT_EA = 0x30000000"
definition MISS_EA :: int where "MISS_EA = 0x40000000"

definition MSR_EE :: int where "MSR_EE = 0x8000"
definition MSR_PR :: int where "MSR_PR = 0x4000"
definition MSR_FP :: int where "MSR_FP = 0x2000"
definition MSR_ME :: int where "MSR_ME = 0x1000"
definition MSR_IP :: int where "MSR_IP = 0x40"
definition MSR_IR :: int where "MSR_IR = 0x20"
definition MSR_DR :: int where "MSR_DR = 0x10"
definition MSR_TGPR :: int where "MSR_TGPR = 0x20000"
definition MSR_FE0 :: int where "MSR_FE0 = 0x800"
definition MSR_FE1 :: int where "MSR_FE1 = 0x100"
definition MSR_SUP :: int where "MSR_SUP = MSR_ME OR MSR_IP OR MSR_IR OR MSR_DR"

definition P_ILLEGAL :: int where "P_ILLEGAL = 0x00080000"
definition P_PRIV :: int where "P_PRIV = 0x00040000"
definition P_TRAP :: int where "P_TRAP = 0x00020000"
definition P_FPE :: int where "P_FPE = 0x00100000"

lemmas map_defs = BUF_def BUF_WORDS_def STUB_def RO_EA_def RO_PA_def BAT_BYTES_def NX_EA_def DIRECT_EA_def MISS_EA_def
lemmas msr_defs = MSR_EE_def MSR_PR_def MSR_FP_def MSR_ME_def MSR_IP_def MSR_IR_def MSR_DR_def MSR_TGPR_def MSR_FE0_def
  MSR_FE1_def MSR_SUP_def

record Variant =
  v_isa :: string
  v_pvr :: int
  v_ear :: bool
  v_multiple_dar_plus4 :: bool

definition VARIANTS :: "(string \<times> Variant) list" where
  "VARIANTS = [(''603e'', \<lparr>v_isa = ''PID7v-603e'', v_pvr = 0x00070000, v_ear = True, v_multiple_dar_plus4 = True\<rparr>),
     (''602'', \<lparr>v_isa = ''602'', v_pvr = 0x00050000, v_ear = False, v_multiple_dar_plus4 = False\<rparr>)]"

section \<open>Registers\<close>

definition fld :: "Insn \<Rightarrow> fname \<Rightarrow> int M" where "fld ins k = liftM (attr ins k)"

definition gval :: "int \<Rightarrow> pval M" where
  "gval i = bindM (getM s_gpr) (\<lambda>g. liftM (py_get g i))"

definition gint :: "int \<Rightarrow> int M" where
  "gint i = bindM (gval i) (\<lambda>v. liftM (as_int v))"

definition setg :: "int \<Rightarrow> pval \<Rightarrow> unit M" where
  "setg i v = bindM (getM s_gpr) (\<lambda>g. bindM (liftM (py_set g i v)) (\<lambda>g'. modM (\<lambda>st. st\<lparr>s_gpr := g'\<rparr>)))"

text \<open>Python's shifts raise on a negative count.\<close>

definition neg_check :: "int \<Rightarrow> nat result" where
  "neg_check k = (if k < 0 then Inl (ValueError ''negative shift count'') else Inr (nat k))"

definition so :: "mstate \<Rightarrow> int" where
  "so st = drop_bit 31 (s_xer st) AND 1"

definition setcrf :: "int \<Rightarrow> int \<Rightarrow> unit M" where
  "setcrf bf v4 = bindM (liftM (neg_check (28 - 4 * bf))) (\<lambda>sh.
     modM (\<lambda>st. st\<lparr>s_cr := (s_cr st AND NOT (push_bit sh 0xF) AND M32) OR push_bit sh (v4 AND 0xF)\<rparr>))"

definition cr0 :: "int \<Rightarrow> unit M" where
  "cr0 val = (let v = s32 val; c = (if v < 0 then 8 else if v > 0 then 4 else 2)
     in bindM (getM so) (\<lambda>s. setcrf 0 (c OR s)))"

definition crbit :: "int \<Rightarrow> int M" where
  "crbit i = bindM (liftM (neg_check (31 - i))) (\<lambda>sh. getM (\<lambda>st. drop_bit sh (s_cr st) AND 1))"

definition setcrbit :: "int \<Rightarrow> int \<Rightarrow> unit M" where
  "setcrbit i b = bindM (liftM (neg_check (31 - i))) (\<lambda>sh.
     modM (\<lambda>st. st\<lparr>s_cr := (s_cr st AND NOT (push_bit sh 1) AND M32) OR push_bit sh b\<rparr>))"

definition set_ov :: "bool \<Rightarrow> unit M" where
  "set_ov ov = modM (\<lambda>st. let x = s_xer st AND NOT 0x40000000 AND M32 in st\<lparr>s_xer := if ov then x OR 0xC0000000 else x\<rparr>)"

definition set_ca :: "bool \<Rightarrow> unit M" where
  "set_ca c = modM (\<lambda>st. st\<lparr>s_xer := (s_xer st AND NOT 0x20000000 AND M32) OR (if c then 0x20000000 else 0)\<rparr>)"

definition carry :: "mstate \<Rightarrow> int" where
  "carry st = drop_bit 29 (s_xer st) AND 1"

definition ra0 :: "int \<Rightarrow> int M" where
  "ra0 ra = (if ra = 0 then retM 0 else gint ra)"

text \<open>\<open>if ins.rc: self.cr0(st, r)\<close>\<close>

definition record_cr0 :: "int \<Rightarrow> int \<Rightarrow> unit M" where
  "record_cr0 rc r = (if rc \<noteq> 0 then cr0 r else retM ())"

section \<open>Data access\<close>

definition msr_has :: "int \<Rightarrow> bool M" where
  "msr_has mk = getM (\<lambda>st. s_msr st AND mk \<noteq> 0)"

definition dsi :: "int \<Rightarrow> int \<Rightarrow> Trap" where
  "dsi dar dsisr = (mk_Trap 0x300)\<lparr>t_dar := Some dar, t_dsisr := Some dsisr\<rparr>"

definition xlate_data :: "int \<Rightarrow> bool \<Rightarrow> int M" where
  "xlate_data ea0 store =
     (let ea = ea0 AND M32 in
      bindM (msr_has MSR_DR) (\<lambda>dr.
      if ea - RO_EA < BAT_BYTES \<and> dr
      then (if store then raiseM (dsi ea 0x0A000000) else retM (RO_PA + (ea - RO_EA)))
      else if drop_bit 28 ea = drop_bit 28 DIRECT_EA \<and> dr
      then raiseM (dsi ea (0x04000000 OR (if store then 0x02000000 else 0)))
      else if drop_bit 28 ea = drop_bit 28 MISS_EA \<and> dr
      then raiseM (mk_Trap (if store then 0x1200 else 0x1100))
      else retM ea))"

definition mem_ok :: "int \<Rightarrow> int \<Rightarrow> unit M" where
  "mem_ok pa n = (if BUF \<le> pa \<and> pa + n \<le> BUF + BUF_WORDS * 4 then retM ()
     else failM (RuntimeError ''model access outside the buffer''))"

fun load_bytes :: "int list \<Rightarrow> int \<Rightarrow> nat list \<Rightarrow> int \<Rightarrow> int result" where
  "load_bytes mem base [] v = Inr v"
| "load_bytes mem base (k # ks) v =
     bindR (py_get mem (base + int k)) (\<lambda>b. load_bytes mem base ks (push_bit 8 v OR b))"

definition load :: "int \<Rightarrow> int \<Rightarrow> int M" where
  "load ea n = bindM (xlate_data ea False) (\<lambda>pa. seqM (mem_ok pa n)
     (bindM (getM s_mem) (\<lambda>mem. liftM (load_bytes mem (pa - BUF) [0..<nat n] 0))))"

definition set_byte :: "int \<Rightarrow> int \<Rightarrow> unit M" where
  "set_byte i v = bindM (getM s_mem) (\<lambda>mem. bindM (liftM (py_set mem i v)) (\<lambda>mem'. modM (\<lambda>st. st\<lparr>s_mem := mem'\<rparr>)))"

definition store :: "int \<Rightarrow> int \<Rightarrow> int \<Rightarrow> unit M" where
  "store ea n v = bindM (xlate_data ea True) (\<lambda>pa.
     if 0 \<le> pa - STUB \<and> pa - STUB < 8 then retM ()
     else seqM (mem_ok pa n) (forM [0..<nat n] (\<lambda>k.
       set_byte (pa - BUF + int k) (drop_bit (nat (8 * (n - 1 - int k))) v AND 0xFF))))"

definition ends_with :: "string \<Rightarrow> string \<Rightarrow> bool" where
  "ends_with s t = (length t \<le> length s \<and> drop (length s - length t) s = t)"

definition starts_with :: "string \<Rightarrow> string \<Rightarrow> bool" where
  "starts_with s t = (take (length t) s = t)"

definition align_trap :: "Variant \<Rightarrow> int \<Rightarrow> Insn \<Rightarrow> Trap" where
  "align_trap v ea0 ins =
     (let w = i_word ins;
          ds0 = (if i_xform ins
                 then shl (drop_bit 1 w AND 3) 15 OR shl (drop_bit 6 w AND 1) 14 OR shl (drop_bit 7 w AND 0xF) 10
                 else shl (drop_bit 26 w AND 1) 14 OR shl (drop_bit 27 w AND 0xF) 10);
          ds = (ds0 OR shl (drop_bit 21 w AND 0x1F) 5) OR (drop_bit 16 w AND 0x1F);
          m0 = (if ends_with (i_m ins) ''u'' \<or> ends_with (i_m ins) ''ux'' then M32 else M32 AND NOT 0x1F);
          m = (if i_m ins = ''dcbz'' then m0 AND NOT 0x3E0 else m0);
          ea = (if (i_m ins = ''lmw'' \<or> i_m ins = ''stmw'') \<and> v_multiple_dar_plus4 v then ea0 + 4 else ea0)
      in (mk_Trap 0x600)\<lparr>t_dar := Some (ea AND M32), t_dsisr := Some ds, t_dsisr_mask := m\<rparr>)"

definition cross_page :: "int \<Rightarrow> int \<Rightarrow> bool M" where
  "cross_page ea n = bindM (msr_has MSR_DR) (\<lambda>dr. retM (dr \<and> (ea AND 0xFFF) + n > 0x1000))"

section \<open>Legality\<close>

definition is_spr :: "Insn \<Rightarrow> bool" where
  "is_spr ins = (i_m ins = ''mfspr'' \<or> i_m ins = ''mtspr'')"

definition program_trap :: "int \<Rightarrow> Trap" where
  "program_trap flags = (mk_Trap 0x700)\<lparr>t_flags := flags\<rparr>"

definition legal_status :: "Variant \<Rightarrow> Insn \<Rightarrow> string M" where
  "legal_status v ins =
     (let s0 = (case map_of (case i_status ins of None \<Rightarrow> [] | Some d \<Rightarrow> d) (v_isa v) of None \<Rightarrow> ''legal'' | Some s \<Rightarrow> s);
          s1 = (if (i_m ins = ''eciwx'' \<or> i_m ins = ''ecowx'') \<and> \<not> v_ear v then ''illegal'' else s0)
      in if is_spr ins
         then bindM (fld ins A_spr) (\<lambda>spr. retM (if spr = 282 \<and> \<not> v_ear v then ''illegal'' else s1))
         else retM s1)"

definition privileged :: "Insn \<Rightarrow> bool M" where
  "privileged ins =
     (if i_priv ins then retM True
      else if is_spr ins then bindM (fld ins A_spr) (\<lambda>spr. retM (spr AND 0x10 \<noteq> 0))
      else retM False)"

definition legal :: "Variant \<Rightarrow> Insn \<Rightarrow> unit M" where
  "legal v ins = bindM (legal_status v ins) (\<lambda>status.
     if status = ''illegal'' then raiseM (program_trap P_ILLEGAL)
     else bindM (privileged ins) (\<lambda>priv. bindM (msr_has MSR_PR) (\<lambda>pr.
     if priv \<and> pr then raiseM (program_trap P_PRIV)
     else bindM (msr_has MSR_FP) (\<lambda>fp.
     if i_fp ins \<and> \<not> fp then raiseM (mk_Trap 0x800)
     else if status = ''emulation_trap'' then raiseM (mk_Trap 0x1600)
     else retM ()))))"

section \<open>Integer arithmetic\<close>

text \<open>The sum of the add and subtract forms: the operands of the adder and its carry in.\<close>

definition adder_inputs :: "string \<Rightarrow> int \<Rightarrow> int M \<Rightarrow> int \<Rightarrow> (int \<times> int \<times> int) M" where
  "adder_inputs m a b ca =
     (if m \<in> {''add'', ''addc'', ''adde'', ''addme'', ''addze''}
      then bindM (if m = ''addme'' then retM M32 else if m = ''addze'' then retM 0 else b) (\<lambda>y.
           retM (a, y, if m = ''add'' \<or> m = ''addc'' then 0 else ca))
      else bindM (if m = ''subfme'' then retM M32 else if m = ''subfze'' \<or> m = ''neg'' then retM 0 else b) (\<lambda>y.
           retM (NOT a AND M32, y, if m \<in> {''subf'', ''subfc'', ''neg''} then 1 else ca)))"

definition is_adder :: "string \<Rightarrow> bool" where
  "is_adder m = (m \<in> {''add'', ''addc'', ''adde'', ''addme'', ''addze'', ''subf'', ''subfc'', ''subfe'', ''subfme'', ''subfze'', ''neg''})"

text \<open>The quotient of \<open>divw\<close>, truncated toward zero.\<close>

definition divw_value :: "int \<Rightarrow> int \<Rightarrow> int" where
  "divw_value a b = (let q = \<bar>s32 a\<bar> div \<bar>s32 b\<bar> in (if (s32 a < 0) = (s32 b < 0) then q else - q) AND M32)"

text \<open>The result (\<open>None\<close> when undefined) and the overflow of an XO-form instruction.\<close>

definition xo_result :: "string \<Rightarrow> pval \<Rightarrow> pval \<Rightarrow> (int option \<times> bool) M" where
  "xo_result m av bv =
     (let ai = liftM (as_int av); bi = liftM (as_int bv) in
      if is_adder m
      then bindM ai (\<lambda>a. bindM (getM carry) (\<lambda>ca. bindM (adder_inputs m a bi ca) (\<lambda>(x, y, cin).
           let t = x + y + cin; r = t AND M32; ov = (s32 x + s32 y + cin \<noteq> s32 r) in
           seqM (if m \<in> {''add'', ''subf'', ''neg''} then retM () else set_ca (drop_bit 32 t \<noteq> 0))
             (retM (Some r, ov)))))
      else if m = ''mullw''
      then bindM ai (\<lambda>a. bindM bi (\<lambda>b. let p = s32 a * s32 b; r = p AND M32 in retM (Some r, p \<noteq> s32 r)))
      else if m = ''mulhw''
      then bindM ai (\<lambda>a. bindM bi (\<lambda>b. retM (Some (drop_bit 32 (s32 a * s32 b) AND M32), False)))
      else if m = ''mulhwu''
      then bindM ai (\<lambda>a. bindM bi (\<lambda>b. retM (Some (drop_bit 32 (a * b) AND M32), False)))
      else if m = ''divw''
      then (if bv = PInt 0 \<or> (av = PInt 0x80000000 \<and> bv = PInt M32) then retM (None, True)
            else bindM ai (\<lambda>a. bindM bi (\<lambda>b.
              if s32 b = 0 then failM ZeroDivisionError
              else retM (Some (divw_value a b), False))))
      else if bv = PInt 0 then retM (None, True)
      else bindM ai (\<lambda>a. bindM bi (\<lambda>b. retM (Some (a div b), False))))"

definition xo_op :: "Insn \<Rightarrow> pval M" where
  "xo_op ins =
     bindM (fld ins A_ra) (\<lambda>ra. bindM (gval ra) (\<lambda>a.
     bindM (fld ins A_rb) (\<lambda>rb. bindM (gval rb) (\<lambda>b.
     bindM (xo_result (i_m ins) a b) (\<lambda>(r, ov).
     bindM (fld ins A_oe) (\<lambda>oe. seqM (if oe \<noteq> 0 then set_ov ov else retM ())
     (bindM (fld ins A_rt) (\<lambda>rt. seqM (setg rt (case r of None \<Rightarrow> PNone | Some x \<Rightarrow> PInt x))
     (bindM (fld ins A_rc) (\<lambda>rc. seqM
       (if rc = 0 then retM ()
        else case r of
          None \<Rightarrow> bindM (getM so) (\<lambda>s. seqM (setcrf 0 s)
            (modM (\<lambda>st. st\<lparr>s_dontcare := dict_set ''cr'' (0x0FFFFFFF OR 0x10000000) (s_dontcare st)\<rparr>)))
        | Some x \<Rightarrow> cr0 x)
       (retM PNone)))))))))))"

definition gen_logical :: "string \<Rightarrow> int \<Rightarrow> int \<Rightarrow> int" where
  "gen_logical m a b =
     (if m = ''and'' then a AND b else if m = ''andc'' then a AND NOT b else if m = ''or'' then a OR b
      else if m = ''orc'' then a OR NOT b else if m = ''xor'' then a XOR b else if m = ''nand'' then NOT (a AND b)
      else if m = ''nor'' then NOT (a OR b) else NOT (a XOR b)) AND M32"

text \<open>The result of a logical or shift instruction; \<open>sraw\<close> also sets CA.\<close>

definition log_result :: "string \<Rightarrow> int \<Rightarrow> int \<Rightarrow> int M" where
  "log_result m a b =
     (let n = b AND 0x3F in
      if m = ''slw'' then retM (if n > 31 then 0 else push_bit (nat n) a AND M32)
      else if m = ''srw'' then retM (if n > 31 then 0 else drop_bit (nat n) a)
      else if m = ''sraw''
      then let r = drop_bit (nat (min n 32)) (s32 a) AND M32;
               out = a AND (push_bit (nat (min n 32)) 1 - 1)
           in seqM (set_ca (s32 a < 0 \<and> out \<noteq> 0)) (retM r)
      else retM (gen_logical m a b))"

definition log_op :: "Insn \<Rightarrow> pval M" where
  "log_op ins =
     bindM (fld ins A_rs) (\<lambda>rs. bindM (gint rs) (\<lambda>a. bindM (fld ins A_rb) (\<lambda>rb. bindM (gint rb) (\<lambda>b.
     bindM (log_result (i_m ins) a b) (\<lambda>r.
     bindM (fld ins A_ra) (\<lambda>ra. seqM (setg ra (PInt r))
     (bindM (fld ins A_rc) (\<lambda>rc. seqM (record_cr0 rc r) (retM PNone)))))))))"

definition un_value :: "string \<Rightarrow> int \<Rightarrow> int" where
  "un_value m a =
     (if m = ''extsb'' then drop_bit 24 (s32 (push_bit 24 a)) AND M32
      else if m = ''extsh'' then drop_bit 16 (s32 (push_bit 16 a)) AND M32
      else 32 - bit_length \<bar>a\<bar>)"

definition un_op :: "Insn \<Rightarrow> pval M" where
  "un_op ins =
     bindM (fld ins A_rs) (\<lambda>rs. bindM (gint rs) (\<lambda>a. let r = un_value (i_m ins) a in
     bindM (fld ins A_ra) (\<lambda>ra. seqM (setg ra (PInt r))
     (bindM (fld ins A_rc) (\<lambda>rc. seqM (record_cr0 rc r) (retM PNone))))))"

definition srawi_op :: "Insn \<Rightarrow> pval M" where
  "srawi_op ins =
     bindM (fld ins A_rs) (\<lambda>rs. bindM (gint rs) (\<lambda>a. bindM (fld ins A_sh) (\<lambda>sh.
     bindM (liftM (neg_check sh)) (\<lambda>n. let r = drop_bit n (s32 a) AND M32 in
     seqM (set_ca (s32 a < 0 \<and> a AND (push_bit n 1 - 1) \<noteq> 0))
     (bindM (fld ins A_ra) (\<lambda>ra. seqM (setg ra (PInt r))
     (bindM (fld ins A_rc) (\<lambda>rc. seqM (record_cr0 rc r) (retM PNone)))))))))"

definition addi_op :: "Insn \<Rightarrow> pval M" where
  "addi_op ins =
     bindM (fld ins A_imm) (\<lambda>i. let imm = simm16 i in bindM (fld ins A_rt) (\<lambda>rt.
     bindM (fld ins A_ra) (\<lambda>ra. bindM (ra0 ra) (\<lambda>a.
     seqM (setg rt (PInt ((a + (if i_m ins = ''addis'' then push_bit 16 imm else imm)) AND M32))) (retM PNone)))))"

definition addic_op :: "Insn \<Rightarrow> pval M" where
  "addic_op ins =
     bindM (fld ins A_imm) (\<lambda>i. let imm = simm16 i AND M32 in bindM (fld ins A_ra) (\<lambda>ra. bindM (gint ra) (\<lambda>a.
     let t = (if i_m ins = ''subfic'' then (NOT a AND M32) + imm + 1 else a + imm) in
     bindM (fld ins A_rt) (\<lambda>rt. seqM (setg rt (PInt (t AND M32))) (seqM (set_ca (drop_bit 32 t \<noteq> 0))
     (seqM (if i_m ins = ''addic.'' then cr0 t else retM ()) (retM PNone)))))))"

definition mulli_op :: "Insn \<Rightarrow> pval M" where
  "mulli_op ins =
     bindM (fld ins A_rt) (\<lambda>rt. bindM (fld ins A_ra) (\<lambda>ra. bindM (gint ra) (\<lambda>a. bindM (fld ins A_imm) (\<lambda>i.
     seqM (setg rt (PInt ((s32 a * simm16 i) AND M32))) (retM PNone)))))"

definition dlog_op :: "Insn \<Rightarrow> pval M" where
  "dlog_op ins =
     (let m = i_m ins in
      bindM (fld ins A_imm) (\<lambda>i. let u = (if ends_with m ''is'' \<or> ends_with m ''is.'' then push_bit 16 i else i) in
      bindM (fld ins A_rs) (\<lambda>rs. bindM (gint rs) (\<lambda>a.
      let r = (if starts_with m ''and'' then a AND u else if starts_with m ''or'' then a OR u else a XOR u) in
      bindM (fld ins A_ra) (\<lambda>ra. seqM (setg ra (PInt (r AND M32)))
      (seqM (if starts_with m ''and'' then cr0 r else retM ()) (retM PNone)))))))"

definition rot_op :: "Insn \<Rightarrow> pval M" where
  "rot_op ins =
     bindM (fld ins A_sh) (\<lambda>sh. bindM (if i_m ins \<noteq> ''rlwnm'' then retM sh else bindM (gint sh) (\<lambda>x. retM (x AND 31))) (\<lambda>n.
     bindM (fld ins A_rs) (\<lambda>rs. bindM (gint rs) (\<lambda>s. let r0 = rotl s n in
     bindM (fld ins A_mb) (\<lambda>mb. bindM (fld ins A_me) (\<lambda>me. bindM (liftM (gen_mask mb me)) (\<lambda>mo.
     case mo of None \<Rightarrow> hangM | Some mk \<Rightarrow>
     bindM (fld ins A_ra) (\<lambda>ra.
     bindM (if i_m ins = ''rlwimi'' then bindM (gint ra) (\<lambda>old. retM ((r0 AND mk) OR (old AND NOT mk AND M32)))
            else retM (r0 AND mk)) (\<lambda>r.
     seqM (setg ra (PInt r)) (bindM (fld ins A_rc) (\<lambda>rc. seqM (record_cr0 rc r) (retM PNone))))))))))))"

section \<open>Compare and condition register\<close>

definition cmp_operands :: "Insn \<Rightarrow> (int \<times> int) M" where
  "cmp_operands ins =
     bindM (fld ins A_ra) (\<lambda>ra. bindM (gint ra) (\<lambda>a.
     if i_m ins = ''cmp'' then bindM (fld ins A_rb) (\<lambda>rb. bindM (gint rb) (\<lambda>b. retM (s32 a, s32 b)))
     else if i_m ins = ''cmpl'' then bindM (fld ins A_rb) (\<lambda>rb. bindM (gint rb) (\<lambda>b. retM (a, b)))
     else if i_m ins = ''cmpi'' then bindM (fld ins A_imm) (\<lambda>i. retM (s32 a, simm16 i))
     else bindM (fld ins A_imm) (\<lambda>i. retM (a, i))))"

definition cmp_op :: "Insn \<Rightarrow> pval M" where
  "cmp_op ins = bindM (cmp_operands ins) (\<lambda>(x, y).
     let c = (if x < y then 8 else if x > y then 4 else 2) in
     bindM (fld ins A_bf) (\<lambda>bf. bindM (getM so) (\<lambda>s. seqM (setcrf bf (c OR s)) (retM PNone))))"

definition cr_value :: "string \<Rightarrow> int \<Rightarrow> int \<Rightarrow> int" where
  "cr_value m a b =
     (if m = ''crand'' then a AND b else if m = ''crandc'' then a AND (1 - b) else if m = ''creqv'' then 1 - (a XOR b)
      else if m = ''crnand'' then 1 - (a AND b) else if m = ''crnor'' then 1 - (a OR b) else if m = ''cror'' then a OR b
      else if m = ''crorc'' then a OR (1 - b) else a XOR b)"

definition cr_op :: "Insn \<Rightarrow> pval M" where
  "cr_op ins =
     bindM (fld ins A_b) (\<lambda>bi. bindM (crbit bi) (\<lambda>a. bindM (fld ins A_c) (\<lambda>ci. bindM (crbit ci) (\<lambda>b.
     bindM (fld ins A_a) (\<lambda>ai. seqM (setcrbit ai (cr_value (i_m ins) a b)) (retM PNone))))))"

definition mcrf_op :: "Insn \<Rightarrow> pval M" where
  "mcrf_op ins = bindM (fld ins A_bf) (\<lambda>bf. bindM (fld ins A_bfa) (\<lambda>bfa. bindM (liftM (neg_check (28 - 4 * bfa))) (\<lambda>sh.
     bindM (getM s_cr) (\<lambda>c. seqM (setcrf bf (drop_bit sh c AND 0xF)) (retM PNone)))))"

definition mcrxr_op :: "Insn \<Rightarrow> pval M" where
  "mcrxr_op ins = bindM (fld ins A_bf) (\<lambda>bf. bindM (getM s_xer) (\<lambda>x. seqM (setcrf bf (drop_bit 28 x))
     (seqM (modM (\<lambda>st. st\<lparr>s_xer := s_xer st AND 0x0FFFFFFF\<rparr>)) (retM PNone))))"

text \<open>The nibble mask of an eight-bit field mask (also used by \<open>mtfsf\<close>).\<close>

definition nibble_mask :: "int \<Rightarrow> int" where
  "nibble_mask fxm = foldl (\<lambda>mk i. if fxm AND drop_bit i 0x80 \<noteq> 0 then mk OR push_bit (28 - 4 * i) 0xF else mk) 0 [0..<8]"

definition mtcrf_op :: "Insn \<Rightarrow> pval M" where
  "mtcrf_op ins = bindM (fld ins A_fxm) (\<lambda>fxm. let mk = nibble_mask fxm in
     bindM (fld ins A_rs) (\<lambda>rs. bindM (gint rs) (\<lambda>v.
     seqM (modM (\<lambda>st. st\<lparr>s_cr := (v AND mk) OR (s_cr st AND NOT mk AND M32)\<rparr>)) (retM PNone))))"

section \<open>Branches and special registers\<close>

definition relval :: "pval \<Rightarrow> pval result" where
  "relval v = (if v = PNone \<or> is_ok (as_int v) then Inr v else Inl (RuntimeError ''CTR compare with a relative value''))"

definition relsub :: "pval \<Rightarrow> int \<Rightarrow> pval result" where
  "relsub v n = bindR (as_int v) (\<lambda>x. Inr (PInt ((x - n) AND M32)))"

definition set_link :: "Insn \<Rightarrow> int \<Rightarrow> unit M" where
  "set_link ins pc = bindM (fld ins A_lk) (\<lambda>lk. if lk \<noteq> 0 then modM (\<lambda>st. st\<lparr>s_lr := PRel (pc + 4)\<rparr>) else retM ())"

definition target :: "Insn \<Rightarrow> pval M" where
  "target ins = (case i_target ins of None \<Rightarrow> failM AttributeError | Some t \<Rightarrow> retM t)"

text \<open>The CTR decrement and test, and the condition test.\<close>

definition ctr_step :: "string \<Rightarrow> int \<Rightarrow> bool M" where
  "ctr_step m bo =
     (if bo AND 4 \<noteq> 0 then retM True
      else if m = ''bcctr'' then failM (RuntimeError ''bcctr with decrement is an invalid form'')
      else bindM (getM s_ctr) (\<lambda>c. bindM (liftM (relsub c 1)) (\<lambda>c'. seqM (modM (\<lambda>st. st\<lparr>s_ctr := c'\<rparr>))
           (bindM (liftM (relval c')) (\<lambda>x. retM ((x \<noteq> PInt 0) \<noteq> (bo AND 2 \<noteq> 0)))))))"

definition cond_ok :: "int \<Rightarrow> int \<Rightarrow> bool M" where
  "cond_ok bo bi = (if bo AND 16 \<noteq> 0 then retM True
     else bindM (crbit bi) (\<lambda>b. retM (b = drop_bit 3 bo AND 1)))"

text \<open>Where a taken branch to LR or CTR goes.\<close>

definition landing :: "pval \<Rightarrow> pval result" where
  "landing tgt = (case tgt of PRel n \<Rightarrow> Inr (PInt (n AND NOT 3)) | PInt n \<Rightarrow> Inr (PAbs (n AND NOT 3))
     | PNone \<Rightarrow> Inl TypeError | t \<Rightarrow> Inr t)"

definition branch :: "Insn \<Rightarrow> int \<Rightarrow> pval M" where
  "branch ins pc =
     (if i_m ins = ''b'' then bindM (target ins) (\<lambda>tgt. seqM (set_link ins pc) (retM tgt))
      else bindM (fld ins A_bo) (\<lambda>bo. bindM (fld ins A_bi) (\<lambda>bi.
      bindM (ctr_step (i_m ins) bo) (\<lambda>ctr_ok. bindM (cond_ok bo bi) (\<lambda>cond.
      bindM (if i_m ins = ''bc'' then target ins else if i_m ins = ''bclr'' then getM s_lr else getM s_ctr) (\<lambda>tgt.
      seqM (set_link ins pc)
      (if \<not> (ctr_ok \<and> cond) then retM PNone
       else if i_m ins = ''bc'' then retM tgt
       else liftM (landing tgt))))))))"

definition SPRS :: "(int \<times> string) list" where
  "SPRS = [(1, ''xer''), (8, ''lr''), (9, ''ctr''), (18, ''dsisr''), (19, ''dar''), (26, ''srr0''), (27, ''srr1''),
     (272, ''sprg0''), (273, ''sprg1''), (274, ''sprg2''), (275, ''sprg3''), (282, ''ear''), (287, ''pvr'')]"

text \<open>\<open>st[name]\<close>, for the names of the table.\<close>

definition spr_get :: "string \<Rightarrow> mstate \<Rightarrow> pval" where
  "spr_get name st =
     (if name = ''xer'' then PInt (s_xer st) else if name = ''lr'' then s_lr st else if name = ''ctr'' then s_ctr st
      else if name = ''dsisr'' then s_dsisr st else if name = ''dar'' then s_dar st else if name = ''srr0'' then s_srr0 st
      else s_srr1 st)"

definition spr_set :: "string \<Rightarrow> pval \<Rightarrow> mstate \<Rightarrow> mstate" where
  "spr_set name v st =
     (if name = ''lr'' then st\<lparr>s_lr := v\<rparr> else if name = ''ctr'' then st\<lparr>s_ctr := v\<rparr>
      else if name = ''dsisr'' then st\<lparr>s_dsisr := v\<rparr> else if name = ''dar'' then st\<lparr>s_dar := v\<rparr>
      else if name = ''srr0'' then st\<lparr>s_srr0 := v\<rparr> else st\<lparr>s_srr1 := v\<rparr>)"

text \<open>\<open>int(name[4])\<close>\<close>

definition sprg_index :: "string \<Rightarrow> nat" where
  "sprg_index name = of_char (name ! 4) - 48"

definition mfspr_value :: "Variant \<Rightarrow> string \<Rightarrow> pval M" where
  "mfspr_value v name =
     (if name = ''pvr'' then retM (PMask (v_pvr v) 0xFFFF0000)
      else if starts_with name ''sprg'' then bindM (getM s_sprg) (\<lambda>g. liftM (py_get g (int (sprg_index name))))
      else if name = ''ear'' then getM (\<lambda>st. PInt (s_ear st))
      else getM (spr_get name))"

definition mtspr_effect :: "string \<Rightarrow> pval \<Rightarrow> unit M" where
  "mtspr_effect name x =
     (if name = ''pvr'' then raiseM (program_trap P_ILLEGAL)
      else if starts_with name ''sprg''
      then bindM (getM s_sprg) (\<lambda>g. bindM (liftM (py_set g (int (sprg_index name)) x)) (\<lambda>g'. modM (\<lambda>st. st\<lparr>s_sprg := g'\<rparr>)))
      else if name = ''ear'' then bindM (liftM (as_int x)) (\<lambda>n. modM (\<lambda>st. st\<lparr>s_ear := n AND 0x8000003F\<rparr>))
      else if name = ''xer'' then bindM (liftM (as_int x)) (\<lambda>n. modM (\<lambda>st. st\<lparr>s_xer := n AND 0xE000007F\<rparr>))
      else modM (spr_set name x))"

definition spr :: "Variant \<Rightarrow> Insn \<Rightarrow> pval M" where
  "spr v ins = bindM (fld ins A_spr) (\<lambda>n.
     case map_of SPRS n of
       None \<Rightarrow> raiseM (program_trap P_ILLEGAL)
     | Some name \<Rightarrow>
         if i_m ins = ''mfspr''
         then bindM (mfspr_value v name) (\<lambda>x. bindM (fld ins A_rt) (\<lambda>rt. seqM (setg rt x) (retM PNone)))
         else bindM (fld ins A_rs) (\<lambda>rs. bindM (gval rs) (\<lambda>x. seqM (mtspr_effect name x) (retM PNone))))"

end
