(* ===== verification/Selftest_Step.thy ===== *)
theory Selftest_Step
  imports Selftest_Machine
begin

text \<open>
  The rest of the class \<open>Machine\<close> of \<open>toolchain/demo/selftest/gen.py\<close>: loads and
  stores with update, byte reversal, reservation, multiple and string forms; cache
  operations; the floating-point unit, whose arithmetic results come from
  \<open>ppc_reference.arithmetic\<close>; and \<open>step\<close>, which dispatches on the mnemonic in the order
  of the source.
\<close>

section \<open>Loads and stores\<close>

definition mem_ea :: "Insn \<Rightarrow> string \<Rightarrow> int M" where
  "mem_ea ins kind =
     bindM (fld ins A_ra) (\<lambda>ra. bindM (ra0 ra) (\<lambda>a.
     bindM (if i_xform ins
            then (if kind = ''lsi'' \<or> kind = ''ssi'' then retM 0 else bindM (fld ins A_rb) gint)
            else bindM (fld ins A_imm) (\<lambda>i. retM (simm16 i))) (\<lambda>d.
     retM ((a + d) AND M32))))"

text \<open>\<open>int.from_bytes(v.to_bytes(n, "big"), "little")\<close>; \<open>to_bytes\<close> raises when \<open>v\<close> does not fit.\<close>

fun swap_bytes :: "nat \<Rightarrow> int \<Rightarrow> int" where
  "swap_bytes 0 v = 0"
| "swap_bytes (Suc n) v = push_bit (8 * n) (v AND 0xFF) OR swap_bytes n (drop_bit 8 v)"

definition byte_reverse :: "int \<Rightarrow> int \<Rightarrow> int result" where
  "byte_reverse n v = (if 0 \<le> v \<and> v < push_bit (nat (8 * n)) 1 then Inr (swap_bytes (nat n) v) else Inl (ValueError ''int too big to convert''))"

definition load_op :: "Insn \<Rightarrow> string \<Rightarrow> int \<Rightarrow> int \<Rightarrow> unit M" where
  "load_op ins kind ea n =
     bindM (load ea n) (\<lambda>v0. bindM (if kind = ''lbr'' then liftM (byte_reverse n v0) else retM v0) (\<lambda>v1.
     let v = (if kind = ''la'' \<or> kind = ''lau'' then simm16 v1 AND M32 else v1) in
     seqM (if kind = ''larx'' then modM (\<lambda>st. st\<lparr>s_resv := Some ea\<rparr>) else retM ())
     (bindM (fld ins A_rt) (\<lambda>rt. seqM (setg rt (PInt v))
     (if kind = ''lu'' \<or> kind = ''lau'' then bindM (fld ins A_ra) (\<lambda>ra. setg ra (PInt ea)) else retM ())))))"

definition store_op :: "Insn \<Rightarrow> string \<Rightarrow> int \<Rightarrow> int \<Rightarrow> unit M" where
  "store_op ins kind ea n =
     bindM (fld ins A_rt) (\<lambda>rt. bindM (gint rt) (\<lambda>g. bindM (liftM (neg_check (8 * n))) (\<lambda>w.
     let v0 = g AND (push_bit w 1 - 1) in
     bindM (if kind = ''sbr'' then liftM (byte_reverse n v0) else retM v0) (\<lambda>v.
     seqM (store ea n v) (if kind = ''su'' then bindM (fld ins A_ra) (\<lambda>ra. setg ra (PInt ea)) else retM ())))))"

definition stcx_op :: "Insn \<Rightarrow> int \<Rightarrow> unit M" where
  "stcx_op ins ea = bindM (getM s_resv) (\<lambda>resv.
     seqM (if resv \<noteq> None then bindM (fld ins A_rt) (\<lambda>rt. bindM (gint rt) (store ea 4)) else retM ())
     (seqM (modM (\<lambda>st. st\<lparr>s_resv := None\<rparr>))
     (bindM (getM so) (\<lambda>s. setcrf 0 ((if resv \<noteq> None then 2 else 0) OR s)))))"

text \<open>\<open>range(rt, 32)\<close>\<close>

definition regs_from :: "int \<Rightarrow> int list" where "regs_from rt = [rt..31]"

definition load_multiple :: "Insn \<Rightarrow> int \<Rightarrow> unit M" where
  "load_multiple ins ea = bindM (fld ins A_rt) (\<lambda>rt.
     forM (regs_from rt) (\<lambda>r. bindM (load (ea + 4 * (r - rt)) 4) (\<lambda>v. setg r (PInt v))))"

definition store_multiple :: "Insn \<Rightarrow> int \<Rightarrow> unit M" where
  "store_multiple ins ea = bindM (fld ins A_rt) (\<lambda>rt.
     forM (regs_from rt) (\<lambda>r. bindM (gint r) (store (ea + 4 * (r - rt)) 4)))"

text \<open>\<open>nb\<close> and the starting register of a string instruction.\<close>

definition string_count :: "Insn \<Rightarrow> string \<Rightarrow> int M" where
  "string_count ins kind =
     (if kind = ''lsi'' \<or> kind = ''ssi'' then fld ins A_nb else getM (\<lambda>st. s_xer st AND 0x7F))"

fun lsw_loop :: "int \<Rightarrow> nat list \<Rightarrow> int \<Rightarrow> unit M" where
  "lsw_loop ea [] r = retM ()"
| "lsw_loop ea (k # ks) r =
     (let r' = (if k mod 4 = 0 then (r + 1) AND 31 else r) in
      seqM (if k mod 4 = 0 then setg r' (PInt 0) else retM ())
      (bindM (gint r') (\<lambda>old. bindM (load (ea + int k) 1) (\<lambda>b.
       seqM (setg r' (PInt (old OR push_bit (24 - 8 * (k mod 4)) b))) (lsw_loop ea ks r')))))"

fun stsw_loop :: "int \<Rightarrow> nat list \<Rightarrow> int \<Rightarrow> unit M" where
  "stsw_loop ea [] r = retM ()"
| "stsw_loop ea (k # ks) r =
     (let r' = (if k mod 4 = 0 then (r + 1) AND 31 else r) in
      bindM (gint r') (\<lambda>g. seqM (store (ea + int k) 1 (drop_bit (24 - 8 * (k mod 4)) g AND 0xFF)) (stsw_loop ea ks r')))"

definition mem_op :: "Variant \<Rightarrow> Insn \<Rightarrow> string \<Rightarrow> pval M" where
  "mem_op v ins kind =
     bindM (mem_ea ins kind) (\<lambda>ea.
     let n = (case map_of (i_f ins) A_n of None \<Rightarrow> 0 | Some n \<Rightarrow> n) in
     if kind \<in> {''lm'', ''sm'', ''larx'', ''stcx'', ''eci'', ''eco''} \<and> ea AND 3 \<noteq> 0 then raiseM (align_trap v ea ins)
     else bindM (if kind \<in> {''l'', ''lu'', ''la'', ''lau'', ''s'', ''su'', ''lbr'', ''sbr''} \<and> n > 1 then cross_page ea n
                 else retM False) (\<lambda>crossing.
     if crossing then raiseM (align_trap v ea ins)
     else seqM
       (if kind \<in> {''l'', ''lu'', ''la'', ''lau'', ''lbr'', ''larx''} then load_op ins kind ea n
        else if kind \<in> {''s'', ''su'', ''sbr''} then store_op ins kind ea n
        else if kind = ''stcx'' then stcx_op ins ea
        else if kind = ''lm'' then load_multiple ins ea
        else if kind = ''sm'' then store_multiple ins ea
        else if kind = ''lsi'' \<or> kind = ''lsx''
        then bindM (string_count ins kind) (\<lambda>nb. bindM (fld ins A_rt) (\<lambda>rt. lsw_loop ea [0..<nat nb] (rt - 1)))
        else if kind = ''ssi'' \<or> kind = ''ssx''
        then bindM (string_count ins kind) (\<lambda>nb. bindM (fld ins A_rt) (\<lambda>rt. stsw_loop ea [0..<nat nb] (rt - 1)))
        else if kind = ''eci'' \<or> kind = ''eco''
        then bindM (getM s_ear) (\<lambda>e. if e AND 0x80000000 = 0
             then raiseM (dsi ea (0x00100000 OR (if kind = ''eco'' then 0x02000000 else 0)))
             else failM (RuntimeError ''enabled external control transfer is not modelled''))
        else failM (RuntimeError kind))
       (retM PNone)))"

section \<open>Cache operations\<close>

definition line :: "int \<Rightarrow> int" where "line pa = pa AND NOT 31"

definition dcbz_op :: "Variant \<Rightarrow> Insn \<Rightarrow> int \<Rightarrow> unit M" where
  "dcbz_op v ins ea = bindM (msr_has MSR_DR) (\<lambda>dr.
     if drop_bit 28 ea = 0xF \<and> ea - 0xF0000000 < 0x400000 \<and> dr then raiseM (align_trap v ea ins)
     else bindM (xlate_data ea True) (\<lambda>pa. seqM (mem_ok (line pa) 32)
          (forM [0..<32] (\<lambda>k. set_byte (line pa - BUF + int k) 0))))"

definition dcbf_op :: "int \<Rightarrow> unit M" where
  "dcbf_op ea = bindM (xlate_data ea False) (\<lambda>pa.
     if \<not> (BUF \<le> pa \<and> pa < BUF + BUF_WORDS * 4) then retM ()
     else modM (\<lambda>st. st\<lparr>s_backing := dict_set (line pa)
            (py_slice (s_mem st) (line pa - BUF) (line pa - BUF + 32)) (s_backing st)\<rparr>))"

definition dcbi_op :: "int \<Rightarrow> unit M" where
  "dcbi_op ea = bindM (xlate_data ea True) (\<lambda>pa. bindM (getM s_backing) (\<lambda>bk.
     case dict_get bk (line pa) of
       None \<Rightarrow> failM (RuntimeError ''dcbi of a block with unknown memory contents'')
     | Some back \<Rightarrow> modM (\<lambda>st. st\<lparr>s_mem := py_slice_set (s_mem st) (line pa - BUF) (line pa - BUF + 32) back\<rparr>)))"

definition cache_op :: "Variant \<Rightarrow> Insn \<Rightarrow> pval M" where
  "cache_op v ins =
     bindM (fld ins A_ra) (\<lambda>ra. bindM (ra0 ra) (\<lambda>a. bindM (fld ins A_rb) (\<lambda>rb. bindM (gint rb) (\<lambda>b.
     let ea = (a + b) AND M32; m = i_m ins in
     seqM (if m = ''dcbz'' then dcbz_op v ins ea
           else if m = ''dcbf'' \<or> m = ''dcbst'' then dcbf_op ea
           else if m = ''dcbi'' then dcbi_op ea
           else if m = ''icbi'' then modM (\<lambda>st. st\<lparr>s_icbi := Some (line ea AND M32)\<rparr>)
           else retM ())
       (retM PNone)))))"

section \<open>Floating point\<close>

text \<open>\<open>while not frc & 0x800000: frc, x = frc << 1, x - 1\<close>\<close>

partial_function (option) normalize :: "int \<Rightarrow> int \<Rightarrow> (int \<times> int) option" where
  "normalize frc x = (if frc AND 0x800000 \<noteq> 0 then Some (frc, x) else normalize (push_bit 1 frc) (x - 1))"

definition single_to_double :: "int \<Rightarrow> int option" where
  "single_to_double w =
     (let s = drop_bit 31 w; e = drop_bit 23 w AND 0xFF; frc = w AND 0x7FFFFF in
      if e = 0xFF then Some (push_bit 63 s OR push_bit 52 0x7FF OR push_bit 29 frc)
      else if e = 0
      then (if frc = 0 then Some (push_bit 63 s)
            else case normalize frc (- 126) of None \<Rightarrow> None
              | Some (frc, x) \<Rightarrow> Some (push_bit 63 s OR push_bit 52 (x + 1023) OR push_bit 29 (frc AND 0x7FFFFF)))
      else Some (push_bit 63 s OR push_bit 52 (e - 127 + 1023) OR push_bit 29 frc))"

text \<open>\<open>while x < -126: frc, x = frc >> 1, x + 1\<close>\<close>

function denormalize :: "int \<Rightarrow> int \<Rightarrow> int" where
  "denormalize frc x = (if x < - 126 then denormalize (drop_bit 1 frc) (x + 1) else frc)"
  by auto
termination by (relation "measure (\<lambda>(frc, x). nat (- 126 - x))") auto

declare denormalize.simps [simp del]

definition double_to_single :: "int \<Rightarrow> int" where
  "double_to_single v =
     (let e = drop_bit 52 v AND 0x7FF in
      if 874 \<le> e \<and> e \<le> 896
      then let frc = denormalize (push_bit 52 1 OR (v AND (push_bit 52 1 - 1))) (e - 1023)
           in push_bit 31 (drop_bit 63 v) OR (drop_bit 29 frc AND 0x7FFFFF)
      else push_bit 30 (drop_bit 62 v) OR (drop_bit 29 v AND 0x3FFFFFFF))"

definition FP_EXC_BITS :: int where
  "FP_EXC_BITS = push_bit 31 1 OR push_bit 25 0xF OR sum_list (map (\<lambda>b. push_bit b 1) INVALID_BITS)"

definition fp_summary :: "int \<Rightarrow> int" where
  "fp_summary v0 =
     (let v = (v0 AND NOT (push_bit 29 1)) OR push_bit 29 (of_bool (any_invalid v0));
          fex = (\<exists>(s, e) \<in> set [(29, 7), (28, 6), (27, 5), (26, 4), (25, 3)]. drop_bit s v AND (drop_bit e v AND 1) \<noteq> 0)
      in (v AND NOT (push_bit 30 1)) OR push_bit 30 (of_bool fex))"

definition FP_ORACLE :: "(string \<times> string \<times> bool) list" where
  "FP_ORACLE = [(''fadd'', ''add'', False), (''fsub'', ''sub'', False), (''fmul'', ''mul'', False), (''fdiv'', ''div'', False),
     (''fmadd'', ''madd'', False), (''fmsub'', ''msub'', False), (''fnmadd'', ''nmadd'', False), (''fnmsub'', ''nmsub'', False),
     (''frsp'', ''frsp'', False), (''fctiw'', ''fctiw'', False), (''fctiwz'', ''fctiwz'', False),
     (''fadds'', ''add'', True), (''fsubs'', ''sub'', True), (''fmuls'', ''mul'', True), (''fdivs'', ''div'', True),
     (''fmadds'', ''madd'', True), (''fmsubs'', ''msub'', True), (''fnmadds'', ''nmadd'', True), (''fnmsubs'', ''nmsub'', True)]"

definition rstrip_dot :: "string \<Rightarrow> string" where
  "rstrip_dot s = rev (dropWhile (\<lambda>c. c = CHR ''.'') (rev s))"

definition fget :: "int \<Rightarrow> int M" where
  "fget i = bindM (getM s_fpr) (\<lambda>f. liftM (py_get f i))"

definition setf :: "int \<Rightarrow> int \<Rightarrow> unit M" where
  "setf i v = bindM (getM s_fpr) (\<lambda>f. bindM (liftM (py_set f i v)) (\<lambda>f'. modM (\<lambda>st. st\<lparr>s_fpr := f'\<rparr>)))"

definition set_dc :: "string \<Rightarrow> int \<Rightarrow> unit M" where
  "set_dc k v = modM (\<lambda>st. st\<lparr>s_dontcare := dict_set k v (s_dontcare st)\<rparr>)"

text \<open>\<open>f"f{t}h"\<close>\<close>

definition high_name :: "int \<Rightarrow> string" where "high_name t = ''f'' @ int_str t @ ''h''"

definition fp_bit :: "int \<Rightarrow> nat \<Rightarrow> bool" where "fp_bit old k = (drop_bit k old AND 1 \<noteq> 0)"

definition move_op :: "string \<Rightarrow> int \<Rightarrow> int" where
  "move_op base v = (if base = ''fmr'' then v else if base = ''fneg'' then v XOR push_bit 63 1
     else if base = ''fabs'' then v AND NOT (push_bit 63 1) else v OR push_bit 63 1)"

definition fp_arith :: "string \<Rightarrow> string \<Rightarrow> bool \<Rightarrow> int \<Rightarrow> int \<Rightarrow> int \<Rightarrow> int \<Rightarrow> int \<Rightarrow> (int \<times> int) M" where
  "fp_arith base name single t a b c old =
     bindM (fget a) (\<lambda>fa. bindM (fget b) (\<lambda>fb. bindM (fget c) (\<lambda>fc.
     bindM (liftM (arithmetic name fa fb fc (old AND 3) single (fp_bit old 2) (fp_bit old 7) (fp_bit old 6) (fp_bit old 5) (fp_bit old 4))) (\<lambda>e.
     let int_conv = (base = ''fctiw'' \<or> base = ''fctiwz'');
         fm = fpscr_mask e (fp_bit old 6) in
     seqM (if p_write e then seqM (setf t (p_result e)) (if int_conv then set_dc (high_name t) 0 else retM ()) else retM ())
     (retM (fpscr_after old e, if int_conv then fm AND NOT 0x1F000 else fm))))))"

definition fp_estimate :: "string \<Rightarrow> int \<Rightarrow> int \<Rightarrow> int \<Rightarrow> bool \<Rightarrow> bool \<Rightarrow> (int \<times> int) M" where
  "fp_estimate base t b old ve ze = bindM (fget b) (\<lambda>fb.
     case decode fb B64 of (kb, sb, mb, _) \<Rightarrow>
     let zero = (kb = Finite \<and> mb = 0) in
     bindM (if kb = SNaN then retM (ppc_out\<lparr>p_invalid := SNAN\<rparr>, fb OR push_bit 51 1)
            else if kb = QNaN then retM (ppc_out\<lparr>p_frfi_valid := False\<rparr>, fb)
            else if base = ''frsqrte'' \<and> sb \<noteq> 0 \<and> \<not> zero then retM (ppc_out\<lparr>p_invalid := SQRT\<rparr>, DEFAULT_NAN)
            else if zero then retM (ppc_out\<lparr>p_zx := True\<rparr>, push_bit 63 sb OR 0x7FF0000000000000)
            else if kb = Inf then retM (ppc_out\<lparr>p_frfi_valid := False\<rparr>, push_bit 63 sb)
            else failM (RuntimeError ''estimate of a finite nonzero value'')) (\<lambda>(e0, res).
     let w = (\<not> ((ve \<and> p_invalid e0 \<noteq> 0) \<or> (ze \<and> p_zx e0)));
         e = e0\<lparr>p_write := w, p_fprf_valid := w, p_fprf := classify res B64\<rparr> in
     seqM (if w then setf t res else retM ())
     (retM (fpscr_after old e, if p_frfi_valid e then M32 else M32 AND NOT 0x60000))))"

definition fp_compare :: "string \<Rightarrow> int \<Rightarrow> int \<Rightarrow> int \<Rightarrow> int \<Rightarrow> (int \<times> int) M" where
  "fp_compare base t a b old =
     bindM (fget a) (\<lambda>fa. bindM (fget b) (\<lambda>fb.
     bindM (liftM (arithmetic (tl base) fa fb 0 0 False False (fp_bit old 7) False False False)) (\<lambda>e.
     seqM (setcrf (drop_bit 2 t) (p_fpcc e)) (retM ((fpscr_after old e AND NOT 0xF000) OR push_bit 12 (p_fpcc e), M32)))))"

text \<open>The instructions that write the FPSCR: the new value.\<close>

definition mtfsf_value :: "string \<Rightarrow> int \<Rightarrow> int \<Rightarrow> int \<Rightarrow> int \<Rightarrow> int" where
  "mtfsf_value base w t fb old =
     (let fm = (if base = ''mtfsf'' then drop_bit 17 w AND 0xFF else drop_bit (nat (drop_bit 2 t)) 0x80);
          src = (if base = ''mtfsf'' then fb AND M32 else push_bit (nat (28 - 4 * drop_bit 2 t)) (drop_bit 12 w AND 15));
          m = nibble_mask fm
      in fp_summary ((old AND NOT m) OR (src AND m)))"

definition mtfsb_value :: "string \<Rightarrow> int \<Rightarrow> int \<Rightarrow> int" where
  "mtfsb_value base t old =
     (let b = push_bit (nat (31 - t)) 1;
          new = (if t = 1 \<or> t = 2 then old
                 else let n = (if base = ''mtfsb0'' then old AND NOT b else old OR b)
                      in if base = ''mtfsb1'' \<and> b AND FP_EXC_BITS \<noteq> 0 \<and> old AND b = 0 then n OR push_bit 31 1 else n)
      in fp_summary new)"

definition fp_mem :: "Variant \<Rightarrow> Insn \<Rightarrow> string \<Rightarrow> int \<Rightarrow> int \<Rightarrow> int \<Rightarrow> pval M" where
  "fp_mem v ins base t a b =
     (let w = i_word ins; d = simm16 w in
      bindM (ra0 a) (\<lambda>ra. bindM (if drop_bit 26 w = 31 then gint b else retM d) (\<lambda>x.
      let ea = (ra + x) AND M32 in
      if ea AND 3 \<noteq> 0 then raiseM (align_trap v ea ins)
      else seqM
        (if starts_with base ''lfs'' then bindM (load ea 4) (\<lambda>x. case single_to_double x of None \<Rightarrow> hangM | Some y \<Rightarrow> setf t y)
         else if starts_with base ''lfd'' then bindM (load ea 8) (setf t)
         else if starts_with base ''stfs'' then bindM (fget t) (\<lambda>x. store ea 4 (double_to_single x))
         else if starts_with base ''stfd'' then bindM (fget t) (store ea 8)
         else if base = ''stfiwx'' then bindM (fget t) (\<lambda>x. store ea 4 (x AND M32))
         else retM ())
        (seqM (if ends_with base ''u'' \<or> ends_with base ''ux'' then setg a (PInt ea) else retM ()) (retM PNone)))))"

text \<open>One FPU instruction: its results, the new FPSCR and the mask of its defined bits.\<close>

definition fp_effect :: "Insn \<Rightarrow> string \<Rightarrow> int \<Rightarrow> int \<Rightarrow> int \<Rightarrow> int \<Rightarrow> int \<Rightarrow> (int \<times> int) M" where
  "fp_effect ins base t a b c old =
     (if base \<in> {''fmr'', ''fneg'', ''fabs'', ''fnabs''}
      then bindM (fget b) (\<lambda>x. seqM (setf t (move_op base x)) (retM (old, M32)))
      else if base = ''fsel''
      then bindM (fget a) (\<lambda>fa. case decode fa B64 of (ka, sa, ma, _) \<Rightarrow>
           let ge = (\<not> is_nan ka \<and> (sa = 0 \<or> (ka = Finite \<and> ma = 0))) in
           bindM (if ge then fget c else fget b) (\<lambda>x. seqM (setf t x) (retM (old, M32))))
      else case map_of FP_ORACLE base of
        Some (name, single) \<Rightarrow> fp_arith base name single t a b c old
      | None \<Rightarrow>
          if base = ''fcmpu'' \<or> base = ''fcmpo'' then fp_compare base t a b old
          else if base = ''fres'' \<or> base = ''frsqrte'' then fp_estimate base t b old (fp_bit old 7) (fp_bit old 4)
          else if base = ''mffs'' then seqM (setf t old) (seqM (set_dc (high_name t) 0) (retM (old, M32)))
          else if base = ''mtfsf'' \<or> base = ''mtfsfi''
          then bindM (if base = ''mtfsf'' then fget b else retM 0) (\<lambda>fb. retM (mtfsf_value base (i_word ins) t fb old, M32))
          else if base = ''mtfsb0'' \<or> base = ''mtfsb1'' then retM (mtfsb_value base t old, M32)
          else if base = ''mcrfs''
          then let sh = nat (28 - 4 * drop_bit 2 a) in
               seqM (setcrf (drop_bit 2 t) (drop_bit sh old)) (retM (fp_summary (old AND NOT (FP_EXC_BITS AND push_bit sh 0xF)), M32))
          else failM (RuntimeError ''no FP model''))"

definition fp_op :: "Variant \<Rightarrow> Insn \<Rightarrow> pval M" where
  "fp_op v ins =
     (let w = i_word ins; op = drop_bit 26 w;
          t = drop_bit 21 w AND 31; a = drop_bit 16 w AND 31; b = drop_bit 11 w AND 31; c = drop_bit 6 w AND 31;
          base = rstrip_dot (i_m ins) in
      if op \<noteq> 59 \<and> op \<noteq> 63 then fp_mem v ins base t a b
      else bindM (getM s_fpscr) (\<lambda>old. bindM (fp_effect ins base t a b c old) (\<lambda>(new, fmask).
        seqM (modM (\<lambda>st. st\<lparr>s_fpscr := new\<rparr>))
        (seqM (if fmask \<noteq> M32 then set_dc ''fpscr'' fmask else retM ())
        (seqM (if w AND 1 \<noteq> 0 then setcrf 1 (drop_bit 28 new) else retM ())
        (bindM (msr_has (MSR_FE0 OR MSR_FE1)) (\<lambda>fe.
         if fe \<and> drop_bit 30 new AND 1 \<noteq> 0 then raiseM (program_trap P_FPE) else retM PNone)))))))"

section \<open>One instruction\<close>

text \<open>Python's \<open>a < b\<close>: integers by value, tuples lexicographically, anything else raises.\<close>

fun str_less :: "string \<Rightarrow> string \<Rightarrow> bool" where
  "str_less [] ys = (ys \<noteq> [])"
| "str_less (x # xs) [] = False"
| "str_less (x # xs) (y # ys) = (if x = y then str_less xs ys else (of_char x :: nat) < of_char y)"

definition tag_rank :: "pval \<Rightarrow> nat" where
  "tag_rank v = (case v of PAbs _ \<Rightarrow> 1 | PSym _ \<Rightarrow> 1 | PMask _ _ \<Rightarrow> 2 | PRel _ \<Rightarrow> 3 | _ \<Rightarrow> 0)"

definition py_less :: "pval \<Rightarrow> pval \<Rightarrow> bool result" where
  "py_less a b =
     (case (a, b) of
        (PInt x, PInt y) \<Rightarrow> Inr (x < y)
      | (PRel x, PRel y) \<Rightarrow> Inr (x < y)
      | (PAbs x, PAbs y) \<Rightarrow> Inr (x < y)
      | (PSym x, PSym y) \<Rightarrow> Inr (str_less x y)
      | (PMask x m, PMask y k) \<Rightarrow> Inr (x < y \<or> (x = y \<and> m < k))
      | _ \<Rightarrow> if tag_rank a = 0 \<or> tag_rank b = 0 \<or> tag_rank a = tag_rank b then Inl TypeError
             else Inr (tag_rank a < tag_rank b))"

definition signed_less :: "pval \<Rightarrow> pval \<Rightarrow> bool result" where
  "signed_less a b = bindR (as_int a) (\<lambda>x. bindR (as_int b) (\<lambda>y. Inr (s32 x < s32 y)))"

text \<open>\<open>or\<close> of guarded tests, left to right.\<close>

fun first_true :: "(bool \<times> bool result) list \<Rightarrow> bool result" where
  "first_true [] = Inr False"
| "first_true ((g, r) # ts) =
     (if g then bindR r (\<lambda>b. if b then Inr True else first_true ts) else first_true ts)"

definition tw_op :: "Insn \<Rightarrow> pval M" where
  "tw_op ins =
     bindM (fld ins A_ra) (\<lambda>ra. bindM (gval ra) (\<lambda>a.
     bindM (if i_m ins = ''tw'' then bindM (fld ins A_rb) gval
            else bindM (fld ins A_imm) (\<lambda>i. retM (PInt (simm16 i AND M32)))) (\<lambda>b.
     bindM (fld ins A_rt) (\<lambda>to.
     bindM (liftM (first_true [(to AND 16 \<noteq> 0, signed_less a b), (to AND 8 \<noteq> 0, signed_less b a),
       (to AND 4 \<noteq> 0, Inr (a = b)), (to AND 2 \<noteq> 0, py_less a b), (to AND 1 \<noteq> 0, py_less b a)])) (\<lambda>t.
     if t then raiseM (program_trap P_TRAP) else retM PNone)))))"

definition MSR_BITS :: int where "MSR_BITS = 0x0007FF73"

definition rfi_op :: "pval M" where
  "rfi_op = bindM (getM s_srr1) (\<lambda>x. bindM (liftM (as_int x)) (\<lambda>s.
     seqM (modM (\<lambda>st. st\<lparr>s_msr := s AND MSR_BITS\<rparr>)) (bindM (getM s_srr0) (\<lambda>t.
     case t of PInt n \<Rightarrow> retM (PAbs (n AND NOT 3 AND M32)) | PRel n \<Rightarrow> retM (PInt (n AND NOT 3))
       | PAbs n \<Rightarrow> retM (PInt (n AND NOT 3)) | PMask n _ \<Rightarrow> retM (PInt (n AND NOT 3)) | _ \<Rightarrow> failM TypeError))))"

definition mtmsr_op :: "Insn \<Rightarrow> pval M" where
  "mtmsr_op ins = bindM (fld ins A_rs) (\<lambda>rs. bindM (gint rs) (\<lambda>x.
     seqM (modM (\<lambda>st. st\<lparr>s_msr := x AND MSR_BITS\<rparr>)) (retM PNone)))"

text \<open>The segment register an instruction names, directly or through \<open>rB\<close>.\<close>

definition sr_index :: "Insn \<Rightarrow> bool \<Rightarrow> int M" where
  "sr_index ins direct =
     (if direct then fld ins A_sr else bindM (fld ins A_rb) (\<lambda>rb. bindM (gint rb) (\<lambda>x. retM (drop_bit 28 x))))"

definition mfsr_op :: "Insn \<Rightarrow> pval M" where
  "mfsr_op ins = bindM (sr_index ins (i_m ins = ''mfsr'')) (\<lambda>i. bindM (getM s_sr) (\<lambda>s. bindM (liftM (py_get s i)) (\<lambda>x.
     bindM (fld ins A_rt) (\<lambda>rt. seqM (setg rt x) (retM PNone)))))"

definition mtsr_op :: "Insn \<Rightarrow> pval M" where
  "mtsr_op ins = bindM (fld ins A_rs) (\<lambda>rs. bindM (gval rs) (\<lambda>x. bindM (sr_index ins (i_m ins = ''mtsr'')) (\<lambda>i.
     bindM (getM s_sr) (\<lambda>s. bindM (liftM (py_set s i x)) (\<lambda>s'. seqM (modM (\<lambda>st. st\<lparr>s_sr := s'\<rparr>)) (retM PNone))))))"

definition set_rt :: "Insn \<Rightarrow> pval M \<Rightarrow> pval M" where
  "set_rt ins c = bindM c (\<lambda>x. bindM (fld ins A_rt) (\<lambda>rt. seqM (setg rt x) (retM PNone)))"

definition has_op :: "(string \<times> 'a) list \<Rightarrow> string \<Rightarrow> bool" where
  "has_op tbl m = (m \<in> set (map fst tbl))"

definition machine_step :: "Variant \<Rightarrow> Insn \<Rightarrow> int \<Rightarrow> pval M" where
  "machine_step v ins pc =
     (let m = i_m ins in
      if m = ''external''
      then (case i_sem ins of None \<Rightarrow> failM KeyError | Some f \<Rightarrow> seqM (modM f) (retM PNone))
      else seqM (legal v ins)
      (if i_fpop ins then fp_op v ins
       else if has_op XO_OPS m then xo_op ins
       else if has_op LOG_OPS m then log_op ins
       else if has_op UN_OPS m then un_op ins
       else if m = ''srawi'' then srawi_op ins
       else if m \<in> {''addi'', ''addis''} then addi_op ins
       else if m \<in> {''addic'', ''addic.'', ''subfic''} then addic_op ins
       else if m = ''mulli'' then mulli_op ins
       else if m \<in> {''andi.'', ''andis.'', ''ori'', ''oris'', ''xori'', ''xoris''} then dlog_op ins
       else if m \<in> {''rlwinm'', ''rlwnm'', ''rlwimi''} then rot_op ins
       else if m \<in> {''cmp'', ''cmpi'', ''cmpl'', ''cmpli''} then cmp_op ins
       else if has_op CR_OPS m then cr_op ins
       else if m = ''mcrf'' then mcrf_op ins
       else if m = ''mcrxr'' then mcrxr_op ins
       else if m = ''mfcr'' then set_rt ins (getM (\<lambda>st. PInt (s_cr st)))
       else if m = ''mtcrf'' then mtcrf_op ins
       else if m \<in> {''b'', ''bc'', ''bclr'', ''bcctr''} then branch ins pc
       else if m \<in> {''mfspr'', ''mtspr''} then spr v ins
       else if m = ''mftb'' then set_rt ins (retM PNone)
       else if m = ''mfmsr'' then set_rt ins (getM (\<lambda>st. PInt (s_msr st)))
       else if m = ''mtmsr'' then mtmsr_op ins
       else if m \<in> {''mfsr'', ''mfsrin''} then mfsr_op ins
       else if m \<in> {''mtsr'', ''mtsrin''} then mtsr_op ins
       else if m \<in> {''sync'', ''isync'', ''eieio'', ''tlbsync'', ''tlbie'', ''dcbt'', ''dcbtst''} then retM PNone
       else if m = ''sc'' then raiseM ((mk_Trap 0xC00)\<lparr>t_next_pc := True\<rparr>)
       else if m = ''rfi'' then rfi_op
       else if m \<in> {''tw'', ''twi''} then tw_op ins
       else if has_op CACHE_OPS m then cache_op v ins
       else case i_kind ins of Some kind \<Rightarrow> mem_op v ins kind
         | None \<Rightarrow> failM (RuntimeError ''no model'')))"

end
