(* ===== verification/Selftest_Run.thy ===== *)
theory Selftest_Run
  imports Selftest_Step
begin

text \<open>
  Running a self-test case of \<open>toolchain/demo/selftest/gen.py\<close>: the default state, the
  flat list of fields the runner compares, the floating-point encoders, the case
  evaluation \<open>evaluate\<close> with its 400-step loop \<open>run_case\<close>, and the branch
  resolution and case-table entries that \<open>main\<close> writes out.  The ISA matrix is an
  input file; it is the argument \<open>isa\<close>.
\<close>

section \<open>Default state and flattening\<close>

text \<open>
  \<open>dbits\<close> packs a float into its 64 bits.  The model gives the float as the exact
  number \<open>n * 2 ^ e\<close>; packing a representable number does not round.
\<close>

definition dbits :: "int \<Rightarrow> int \<Rightarrow> int" where
  "dbits n e = fst (pack \<bar>n\<bar> e (of_bool (n < 0)) 0 B64)"

definition default_gpr :: "int \<Rightarrow> int" where
  "default_gpr i = (if i = 0 then 0x0BADF00D
     else (push_bit 24 (0x11 * i) OR push_bit 16 i OR (0xC0DE XOR (i * 0x0101))) AND M32)"

definition default_state :: mstate where
  "default_state = \<lparr>s_gpr = map (\<lambda>i. PInt (default_gpr (int i))) [0..<32], s_cr = 0, s_xer = 0, s_lr = PInt 0, s_ctr = PInt 0,
     s_msr = MSR_SUP, s_srr0 = PInt 0, s_srr1 = PInt 0, s_dar = PInt 0, s_dsisr = PInt 0,
     s_sprg = [PInt 0, PInt 0, PInt 0, PInt 0],
     s_sr = map (\<lambda>i. PInt (if i = 3 then 0x80000000 else 0)) [0..<16], s_ear = 0,
     s_mem = map (\<lambda>i. ((int i * 29 + 0x5B) XOR drop_bit 3 (int i)) AND 0xFF) [0..<256],
     s_fpr = map (\<lambda>i. dbits (12 * int i + 1) (- 3)) [0..<32], s_fpscr = 0, s_vec = 0, s_resv = None, s_icbi = None,
     s_dontcare = [], s_backing = []\<rparr>"

definition put :: "pval \<Rightarrow> int \<Rightarrow> (int \<times> int \<times> int) result" where
  "put v mk = (case v of
       PNone \<Rightarrow> Inr (0, 0, 0)
     | PRel n \<Rightarrow> Inr (n AND M32, mk, 1)
     | PMask x m \<Rightarrow> Inr (x AND m, m, 0)
     | PAbs n \<Rightarrow> Inr (n AND M32, mk, 0)
     | PSym _ \<Rightarrow> Inl TypeError
     | PInt n \<Rightarrow> Inr (n AND M32, mk, 0))"

fun put_all :: "(pval \<times> int) list \<Rightarrow> (int \<times> int \<times> int) list result" where
  "put_all [] = Inr []"
| "put_all ((v, mk) # xs) = bindR (put v mk) (\<lambda>t. bindR (put_all xs) (\<lambda>ts. Inr (t # ts)))"

definition dc_get :: "mstate \<Rightarrow> string \<Rightarrow> int" where
  "dc_get st k = (case dict_get (s_dontcare st) k of None \<Rightarrow> M32 | Some m \<Rightarrow> m)"

text \<open>\<open>int.from_bytes(..., "big")\<close>\<close>

definition from_bytes_big :: "int list \<Rightarrow> int" where
  "from_bytes_big bs = foldl (\<lambda>v b. push_bit 8 v OR b) 0 bs"

definition flatten :: "mstate \<Rightarrow> (int \<times> int \<times> int) list result" where
  "flatten st = put_all
     (map (\<lambda>r. (r, M32)) (s_gpr st) @
      [(PInt (s_cr st), dc_get st ''cr''), (PInt (s_xer st), dc_get st ''xer''), (s_lr st, dc_get st ''lr''),
       (s_ctr st, dc_get st ''ctr''), (PInt (s_vec st), dc_get st ''vec''), (s_srr0 st, dc_get st ''srr0''),
       (s_srr1 st, dc_get st ''srr1''), (PInt (s_msr st), dc_get st ''msr''), (s_dar st, dc_get st ''dar''),
       (s_dsisr st, dc_get st ''dsisr'')] @
      map (\<lambda>i. (PInt (from_bytes_big (py_slice (s_mem st) (4 * int i) (4 * int i + 4))), M32)) [0..<64] @
      concat (map (\<lambda>(i, v). [(PInt (drop_bit 32 v), dc_get st (''f'' @ nat_str i @ ''h'')),
                              (PInt (v AND M32), dc_get st (''f'' @ nat_str i @ ''l''))])
        (zip [0..<length (s_fpr st)] (s_fpr st))) @
      [(PInt (s_fpscr st), dc_get st ''fpscr'')])"

section \<open>Floating-point encoders\<close>

definition FP_ONE :: "string list" where
  "FP_ONE = [''fres'', ''frsqrte'', ''frsp'', ''fctiw'', ''fctiwz'', ''fneg'', ''fmr'', ''fnabs'', ''fabs'', ''fsqrt'', ''fsqrts'']"

definition FP_FMA :: "string list" where
  "FP_FMA = [''fmadd'', ''fmsub'', ''fnmadd'', ''fnmsub'', ''fmadds'', ''fmsubs'', ''fnmadds'', ''fnmsubs'', ''fsel'']"

definition is_fp_mem :: "string \<Rightarrow> bool" where
  "is_fp_mem base = (starts_with base ''lf'' \<or> starts_with base ''stf'')"

definition fp_word :: "string \<Rightarrow> int \<Rightarrow> int" where
  "fp_word m w =
     (let base = rstrip_dot m in
      if is_fp_mem base then w OR shl 1 21 OR shl 3 16 OR (if drop_bit 26 w \<noteq> 31 then 8 else shl 4 11)
      else if base \<in> set FP_ONE then w OR shl 1 21 OR shl 4 11
      else if base \<in> set FP_FMA then w OR shl 1 21 OR shl 2 16 OR shl 4 11 OR shl 5 6
      else if base = ''fmul'' \<or> base = ''fmuls'' then w OR shl 1 21 OR shl 2 16 OR shl 5 6
      else if base = ''fcmpu'' \<or> base = ''fcmpo'' then w OR shl 1 23 OR shl 2 16 OR shl 4 11
      else if base = ''mffs'' \<or> base = ''mtfsb0'' \<or> base = ''mtfsb1'' then w OR shl 1 21
      else if base = ''mcrfs'' then w OR shl 1 23 OR shl 2 18
      else if base = ''mtfsfi'' then w OR shl 1 23 OR shl 6 12
      else if base = ''mtfsf'' then w OR shl 0x0F 17 OR shl 4 11
      else w OR shl 1 21 OR shl 2 16 OR shl 4 11)"

definition fp_text :: "string \<Rightarrow> int \<Rightarrow> string" where
  "fp_text m w =
     (let t = drop_bit 21 w AND 31; a = drop_bit 16 w AND 31; b = drop_bit 11 w AND 31; c = drop_bit 6 w AND 31;
          base = rstrip_dot m in
      m @ '' '' @
      (if is_fp_mem base
       then (if drop_bit 26 w = 31 then commas [t, a, b] else int_str t @ '','' @ int_str (w AND 0xFFFF) @ ''('' @ int_str a @ '')'')
       else if base \<in> set FP_ONE then commas [t, b]
       else if base \<in> set FP_FMA then commas [t, a, c, b]
       else if base = ''fmul'' \<or> base = ''fmuls'' then commas [t, a, c]
       else if base = ''fcmpu'' \<or> base = ''fcmpo'' then commas [drop_bit 2 t, a, b]
       else if base = ''mffs'' \<or> base = ''mtfsb0'' \<or> base = ''mtfsb1'' then commas [t]
       else if base = ''mcrfs'' then commas [drop_bit 2 t, drop_bit 2 a]
       else if base = ''mtfsfi'' then commas [drop_bit 2 t, drop_bit 12 w AND 15]
       else if base = ''mtfsf'' then commas [drop_bit 17 w AND 0xFF, b]
       else commas [t, a, b]))"

definition FP_A_XO :: "(string \<times> int) list" where
  "FP_A_XO = [(''fdiv'', 18), (''fsub'', 20), (''fadd'', 21), (''fsel'', 23), (''fres'', 24), (''fmul'', 25),
     (''frsqrte'', 26), (''fmsub'', 28), (''fmadd'', 29), (''fnmsub'', 30), (''fnmadd'', 31)]"

definition FP_X_XO :: "(string \<times> int) list" where
  "FP_X_XO = [(''fcmpu'', 0), (''frsp'', 12), (''fctiw'', 14), (''fctiwz'', 15), (''fcmpo'', 32), (''mtfsb1'', 38),
     (''fneg'', 40), (''mcrfs'', 64), (''mtfsb0'', 70), (''fmr'', 72), (''mtfsfi'', 134), (''fnabs'', 136),
     (''fabs'', 264), (''mffs'', 583), (''mtfsf'', 711)]"

definition FP_MEM_D :: "(string \<times> int) list" where
  "FP_MEM_D = [(''lfs'', 48), (''lfsu'', 49), (''lfd'', 50), (''lfdu'', 51), (''stfs'', 52), (''stfsu'', 53),
     (''stfd'', 54), (''stfdu'', 55)]"

definition FP_MEM_X :: "(string \<times> int) list" where
  "FP_MEM_X = [(''lfsx'', 535), (''lfsux'', 567), (''lfdx'', 599), (''lfdux'', 631), (''stfsx'', 663),
     (''stfsux'', 695), (''stfdx'', 727), (''stfdux'', 759), (''stfiwx'', 983)]"

text \<open>Python's \<open>base in FP_ORACLE and FP_ORACLE[base][1] or base == "fres"\<close>\<close>

definition fp_is_single :: "string \<Rightarrow> bool" where
  "fp_is_single base = ((case map_of FP_ORACLE base of Some (_, s) \<Rightarrow> s | None \<Rightarrow> False) \<or> base = ''fres'')"

definition fpi_word :: "string \<Rightarrow> int \<Rightarrow> int \<Rightarrow> int \<Rightarrow> int \<Rightarrow> int \<Rightarrow> int \<Rightarrow> int result" where
  "fpi_word base rc t a b c d =
     (case map_of FP_MEM_D base of
        Some op \<Rightarrow> Inr (shl op 26 OR shl t 21 OR shl a 16 OR (d AND 0xFFFF))
      | None \<Rightarrow> (case map_of FP_MEM_X base of
        Some x \<Rightarrow> Inr (shl 31 26 OR shl t 21 OR shl a 16 OR shl b 11 OR shl x 1)
      | None \<Rightarrow> (case map_of FP_X_XO base of
        Some x \<Rightarrow> Inr (shl 63 26 OR shl t 21 OR shl a 16 OR shl b 11 OR shl x 1 OR rc)
      | None \<Rightarrow>
          let single = fp_is_single base in
          bindR (keyed FP_A_XO (if single \<and> base \<noteq> ''fres'' then butlast base else base)) (\<lambda>x.
          Inr (shl (if single then 59 else 63) 26 OR shl t 21 OR shl a 16 OR shl b 11 OR shl c 6 OR shl x 1 OR rc)))))"

definition fpi :: "string \<Rightarrow> int \<Rightarrow> int \<Rightarrow> int \<Rightarrow> int \<Rightarrow> int \<Rightarrow> int \<Rightarrow> Insn result" where
  "fpi m t a b c d w =
     (let base = rstrip_dot m; rc = of_bool (ends_with m ''.'') in
      bindR (fpi_word base rc t a b c d) (\<lambda>word0. let word = word0 OR w in
      Inr ((mk_Insn word (fp_text m word) m [])\<lparr>i_fp := True, i_fpop := True, i_xform := has_op FP_MEM_X base\<rparr>)))"

section \<open>Cases\<close>

text \<open>An input names a register, or a field of the state.\<close>

datatype in_key = Kr int | Kf int | Kfield string

record Case =
  c_group :: string
  c_name :: string
  c_code :: "Insn list"
  c_inp :: "(in_key \<times> int) list"
  c_msr :: int
  c_need :: "Insn option"
  c_fpu :: bool

record IsaEntry =
  e_mask :: int
  e_value :: int
  e_variants :: "(string \<times> string) list"
  e_supervisor :: bool

definition lookup_status :: "IsaEntry list \<Rightarrow> Insn \<Rightarrow> IsaEntry option" where
  "lookup_status isa ins = find (\<lambda>e. i_word ins AND e_mask e = e_value e) isa"

definition put_field :: "string \<Rightarrow> int \<Rightarrow> mstate \<Rightarrow> mstate" where
  "put_field k x st =
     (if k = ''cr'' then st\<lparr>s_cr := x\<rparr> else if k = ''xer'' then st\<lparr>s_xer := x\<rparr> else if k = ''msr'' then st\<lparr>s_msr := x\<rparr>
      else if k = ''ear'' then st\<lparr>s_ear := x\<rparr> else if k = ''fpscr'' then st\<lparr>s_fpscr := x\<rparr>
      else if k \<in> {''lr'', ''ctr'', ''dsisr'', ''dar'', ''srr0'', ''srr1''} then spr_set k (PInt x) st else st)"

fun put_inputs :: "(in_key \<times> int) list \<Rightarrow> unit M" where
  "put_inputs [] = retM ()"
| "put_inputs ((k, x) # xs) =
     seqM (case k of Kf i \<Rightarrow> setf i x | Kr i \<Rightarrow> setg i (PInt x) | Kfield f \<Rightarrow> modM (put_field f x)) (put_inputs xs)"

definition annotate :: "IsaEntry list \<Rightarrow> Insn \<Rightarrow> Insn" where
  "annotate isa ins =
     (if i_m ins \<in> {''b'', ''bc'', ''babs'', ''external''} then ins
      else case lookup_status isa ins of None \<Rightarrow> ins
        | Some e \<Rightarrow> ins\<lparr>i_status := (if i_status ins = None then Some (e_variants e) else i_status ins),
                        i_priv := (e_supervisor e \<or> i_priv ins)\<rparr>)"

text \<open>The first \<open>babs\<close> becomes an absolute branch to the routine \<open>st_abs\<close>.\<close>

fun fix_babs :: "Insn list \<Rightarrow> Insn list" where
  "fix_babs [] = []"
| "fix_babs (i # is) =
     (if i_m i = ''babs''
      then i\<lparr>i_m := ''b'', i_target := Some (PSym ''st_abs''),
             i_asm := Some (''b'' @ (case map_of (i_f i) A_lk of Some lk \<Rightarrow> if lk \<noteq> 0 then ''l'' else [] | None \<Rightarrow> []) @ ''a st_abs'')\<rparr> # is
      else i # fix_babs is)"

section \<open>Running a case\<close>

text \<open>The second component of a tuple, when it is a number.\<close>

definition where_of :: "pval \<Rightarrow> int result" where
  "where_of pc = (case pc of PRel n \<Rightarrow> Inr n | PAbs n \<Rightarrow> Inr n | PMask n _ \<Rightarrow> Inr n | _ \<Rightarrow> Inl TypeError)"

definition stub_return :: "pval \<Rightarrow> pval result" where
  "stub_return r = (case r of PInt _ \<Rightarrow> Inl (RuntimeError ''stub return'') | PNone \<Rightarrow> Inl (RuntimeError ''stub return'')
     | _ \<Rightarrow> bindR (where_of r) (\<lambda>n. Inr (PInt (n AND NOT 3))))"

definition run_stub :: "Insn option \<Rightarrow> pval M" where
  "run_stub need = (case need of None \<Rightarrow> failM TypeError
     | Some stub \<Rightarrow> (case i_sem stub of None \<Rightarrow> failM KeyError
        | Some f \<Rightarrow> seqM (modM f) (bindM (getM s_lr) (\<lambda>r. liftM (stub_return r)))))"

definition fetch_trap :: "int \<Rightarrow> pval \<Rightarrow> Trap" where
  "fetch_trap vec w = (mk_Trap vec)\<lparr>t_target := Some w\<rparr>"

definition case_pc :: "int \<Rightarrow> pval \<Rightarrow> pval" where
  "case_pc pc nxt = (case nxt of PAbs n \<Rightarrow> PAbs (n AND M32) | PNone \<Rightarrow> PInt (pc + 4) | t \<Rightarrow> t)"

fun run_loop :: "nat \<Rightarrow> Variant \<Rightarrow> Insn list \<Rightarrow> Insn option \<Rightarrow> pval \<Rightarrow> (Trap option \<times> pval) M" where
  "run_loop 0 v code need pc = failM (RuntimeError ''case does not end'')"
| "run_loop (Suc k) v code need pc =
     (case pc of
        PNone \<Rightarrow> failM TypeError
      | PInt n \<Rightarrow>
          if n = int (length code) * 4 then retM (None, PNone)
          else bindM (liftM (py_get code (n div 4))) (\<lambda>ins. \<lambda>st.
            case machine_step v ins n st of
              Ret nxt st' \<Rightarrow> run_loop k v code need (case_pc n nxt) st'
            | Raise t st' \<Rightarrow> Ret (Some t, PInt n) st'
            | Fail e \<Rightarrow> Fail e
            | Hang \<Rightarrow> Hang)
      | _ \<Rightarrow>
          if pc = PSym ''st_abs''
          then bindM (gint 3) (\<lambda>x. seqM (setg 3 (PInt ((x + 1) AND M32))) (retM (None, PNone)))
          else bindM (liftM (where_of pc)) (\<lambda>w.
            if w = STUB then bindM (run_stub need) (\<lambda>pc'. run_loop k v code need pc')
            else if 0 \<le> w - NX_EA \<and> w - NX_EA < BAT_BYTES then retM (Some (fetch_trap 0x400 (PAbs w)), pc)
            else if drop_bit 28 w = drop_bit 28 MISS_EA then retM (Some (fetch_trap 0x1000 (PAbs w)), pc)
            else failM (RuntimeError ''branch out of the case'')))"

definition run_case :: "Variant \<Rightarrow> Insn list \<Rightarrow> int \<Rightarrow> Insn option \<Rightarrow> (Trap option \<times> pval) M" where
  "run_case v code msr need = seqM (modM (\<lambda>st. st\<lparr>s_msr := msr\<rparr>)) (run_loop 400 v code need (PInt 0))"

definition is_tlb_miss :: "int \<Rightarrow> bool" where
  "is_tlb_miss vec = (vec \<in> {0x1000, 0x1100, 0x1200})"

text \<open>The machine state after a trap: SRR0, SRR1, DAR, DSISR, MSR and the vector.\<close>

definition take_trap :: "Trap \<Rightarrow> pval \<Rightarrow> mstate \<Rightarrow> mstate result" where
  "take_trap t pc st =
     (let exp_msr = s_msr st;
          srr1 = (if is_tlb_miss (t_vec t)
                  then (s_cr st AND 0xF0000000) OR (exp_msr AND 0xFFFF) OR
                       (if t_vec t = 0x1000 then 0x40000 else 0) OR (if t_vec t = 0x1200 then 0x10000 else 0)
                  else let s = (exp_msr AND 0xFFFF) OR t_flags t in if t_vec t = 0x400 then s OR 0x08000000 else s);
          srr1_mask = (if is_tlb_miss (t_vec t) then M32 AND NOT 0x20000 else t_srr1_mask t) in
      bindR (case t_target t of Some w \<Rightarrow> Inr w
        | None \<Rightarrow> (case pc of PInt n \<Rightarrow> Inr (PRel (n + (if t_next_pc t then 4 else 0))) | PNone \<Rightarrow> Inl TypeError | _ \<Rightarrow> Inr pc)) (\<lambda>srr0.
      let st1 = st\<lparr>s_vec := t_vec t, s_srr1 := PInt srr1, s_dontcare := dict_set ''srr1'' srr1_mask (s_dontcare st), s_srr0 := srr0\<rparr>;
          st2 = (case t_dar t of None \<Rightarrow> st1
            | Some d \<Rightarrow> st1\<lparr>s_dar := PInt d, s_dsisr := (case t_dsisr t of None \<Rightarrow> PNone | Some x \<Rightarrow> PInt x),
                s_dontcare := dict_set ''dsisr'' (t_dsisr_mask t) (s_dontcare st1)\<rparr>)
      in Inr (st2\<lparr>s_msr := (exp_msr AND (MSR_ME OR MSR_IP)) OR (if is_tlb_miss (t_vec t) then MSR_TGPR else 0)\<rparr>)))"

definition F_MSR :: nat where "F_MSR = 39"

definition finish_case :: "Trap option \<Rightarrow> pval \<Rightarrow> mstate \<Rightarrow> mstate result" where
  "finish_case trap pc st =
     (case trap of Some t \<Rightarrow> take_trap t pc st | None \<Rightarrow> Inr (st\<lparr>s_vec := 0, s_srr0 := PInt 0, s_srr1 := PInt 0\<rparr>))"

definition evaluate :: "Variant \<Rightarrow> Case \<Rightarrow> IsaEntry list \<Rightarrow>
    ((int \<times> int \<times> int) list \<times> (int \<times> int \<times> int) list) outcome" where
  "evaluate v c isa =
     (bindM (put_inputs (c_inp c)) (\<lambda>_. bindM (getM flatten) (\<lambda>inp0. bindM (liftM inp0) (\<lambda>inp.
      bindM (run_case v (fix_babs (map (annotate isa) (c_code c))) (c_msr c) (c_need c)) (\<lambda>(trap, pc).
      bindM (getM (finish_case trap pc)) (\<lambda>r. bindM (liftM r) (\<lambda>st'.
      bindM (liftM (flatten st')) (\<lambda>out.
      retM (inp[F_MSR := (c_msr c, M32, 0)], out[F_MSR := (s_msr st' AND M32, M32, 0)])))))))) default_state)"

section \<open>Branch words and the case table\<close>

definition signed_text :: "int \<Rightarrow> string" where
  "signed_text d = ''.'' @ (if d \<ge> 0 then ''+'' else []) @ int_str d"

definition resolve_one :: "int \<Rightarrow> Insn \<Rightarrow> (int option \<times> string) result" where
  "resolve_one here ins =
     (if i_m ins = ''b''
      then (case i_asm ins of Some a \<Rightarrow> Inr (None, a)
        | None \<Rightarrow> bindR (case i_target ins of Some t \<Rightarrow> as_int t | None \<Rightarrow> Inl AttributeError) (\<lambda>t. let d = t - here in
            bindR (attr ins A_lk) (\<lambda>lk. Inr (Some (shl 18 26 OR (d AND 0x03FFFFFC) OR lk),
              ''b'' @ (if lk \<noteq> 0 then ''l'' else []) @ '' '' @ signed_text d))))
      else if i_m ins = ''bc''
      then bindR (case i_target ins of Some t \<Rightarrow> as_int t | None \<Rightarrow> Inl AttributeError) (\<lambda>t. let d = t - here in
           bindR (attr ins A_bo) (\<lambda>bo. bindR (attr ins A_bi) (\<lambda>bi. bindR (attr ins A_lk) (\<lambda>lk.
           Inr (Some (shl 16 26 OR shl bo 21 OR shl bi 16 OR (d AND 0xFFFC) OR lk),
             ''bc'' @ (if lk \<noteq> 0 then ''l'' else []) @ '' '' @ commas [bo, bi] @ '','' @ signed_text d)))))
      else Inr (Some (i_word ins), i_text ins))"

fun resolve_from :: "int \<Rightarrow> Insn list \<Rightarrow> (int option \<times> string) list result" where
  "resolve_from i [] = Inr []"
| "resolve_from i (ins # is) =
     bindR (resolve_one (4 * i) ins) (\<lambda>x. bindR (resolve_from (i + 1) is) (\<lambda>xs. Inr (x # xs)))"

definition resolve :: "Insn list \<Rightarrow> (int option list \<times> string list) result" where
  "resolve code = bindR (resolve_from 0 code) (\<lambda>xs. Inr (map fst xs, map snd xs))"

definition REL :: int where "REL = 0x100"
definition F_VEC :: nat where "F_VEC = 36"
definition N_FIELDS :: nat where "N_FIELDS = 171"

text \<open>The table entries of a case: inputs that differ from the default, expected fields that differ or are masked.\<close>

definition kv_inputs :: "(int \<times> int \<times> int) list \<Rightarrow> (int \<times> int \<times> int) list \<Rightarrow> (int \<times> int \<times> int) list" where
  "kv_inputs inp base = map (\<lambda>f. (int f OR (if snd (snd (inp ! f)) \<noteq> 0 then REL else 0), fst (inp ! f), M32))
     (filter (\<lambda>f. inp ! f \<noteq> base ! f \<or> f = F_MSR) [0..<N_FIELDS])"

definition kv_expected :: "(int \<times> int \<times> int) list \<Rightarrow> (int \<times> int \<times> int) list \<Rightarrow> (int \<times> int \<times> int) list" where
  "kv_expected inp outp =
     map (\<lambda>f. (int f OR (if snd (snd (outp ! f)) \<noteq> 0 then REL else 0), fst (outp ! f), fst (snd (outp ! f))))
     (filter (\<lambda>f. (outp ! f \<noteq> (fst (inp ! f), M32, snd (snd (inp ! f))) \<or> f = F_VEC) \<and> \<not> (f = F_VEC \<and> fst (outp ! f) = 0))
       [0..<N_FIELDS])"

end
