(* ===== verification/Selftest_Families.thy ===== *)
theory Selftest_Families
  imports Selftest_Run Add_Family Logical_Family Shift_Family Rotate_Family Compare_Family
begin

text \<open>
  The instruction-set model of \<open>toolchain/demo/selftest/gen.py\<close> against the evaluators of
  \<open>sim/tools/*_family.py\<close>.  The two were written independently: one mutates a machine
  state, the other returns a value and flags.  \<open>write_back\<close> says how a family result lands
  in the state; the lemmas run each instruction of the model and compare.
\<close>

section \<open>Registers\<close>

lemma s32_signed32: "s32 x = signed32 x"
  by (simp add: s32_def signed32_def M32_def Let_def)

lemma M32_take: "x AND M32 = take_bit 32 x"
  by (simp add: M32_def and_mask32)

text \<open>A general register that holds a 32-bit number.\<close>

definition holds :: "mstate \<Rightarrow> int \<Rightarrow> int \<Rightarrow> bool" where
  "holds st r x \<longleftrightarrow> in_field 5 r \<and> s_gpr st ! nat r = PInt x \<and> in_field 32 x"

definition regs_ok :: "mstate \<Rightarrow> bool" where
  "regs_ok st \<longleftrightarrow> length (s_gpr st) = 32 \<and> in_field 32 (s_xer st) \<and> in_field 32 (s_cr st)"

lemma in5: "in_field 5 r \<Longrightarrow> 0 \<le> r \<and> r < 32"
  by (simp add: in_field_def)

lemma gint_holds [effect_simps]: "regs_ok st \<Longrightarrow> holds st r x \<Longrightarrow> gint r st = Ret x st"
  by (simp add: gint_def gval_def effect_simps regs_ok_def holds_def in_field_def as_int_def)

lemma gval_holds [effect_simps]: "regs_ok st \<Longrightarrow> holds st r x \<Longrightarrow> gval r st = Ret (PInt x) st"
  by (simp add: gval_def effect_simps regs_ok_def holds_def in_field_def)

lemma setg_run [effect_simps]:
  "length (s_gpr st) = 32 \<Longrightarrow> in_field 5 r \<Longrightarrow> setg r v st = Ret () (st\<lparr>s_gpr := (s_gpr st)[nat r := v]\<rparr>)"
  by (simp add: setg_def effect_simps in_field_def)

section \<open>XER and CR0\<close>

definition xer_with :: "int \<Rightarrow> int \<Rightarrow> int \<Rightarrow> int \<Rightarrow> int" where
  "xer_with x ca ov s = take_bit 29 x OR push_bit 29 ca OR push_bit 30 ov OR push_bit 31 s"

definition cr0_with :: "int \<Rightarrow> int \<Rightarrow> int" where
  "cr0_with cr n = take_bit 28 cr OR push_bit 28 n"

definition ov_of :: "mstate \<Rightarrow> int" where "ov_of st = drop_bit 30 (s_xer st) AND 1"

lemma bit_const:
  "bit (0x20000000 :: int) n = (n = 29)" "bit (0x40000000 :: int) n = (n = 30)" "bit (0xC0000000 :: int) n = (n = 30 \<or> n = 31)"
proof -
  show "bit (0x20000000 :: int) n = (n = 29)" using bit_exp_iff [of 29 n, where 'a = int] by auto
  show "bit (0x40000000 :: int) n = (n = 30)" using bit_exp_iff [of 30 n, where 'a = int] by auto
  have "(0xC0000000 :: int) = push_bit 30 1 OR push_bit 31 1" by simp
  then show "bit (0xC0000000 :: int) n = (n = 30 \<or> n = 31)" by (simp only: bit_or_iff bit_push_bit_iff bit_1_iff) auto
qed

lemma is_bit_at: "is_bit b \<Longrightarrow> bit b k = (k = 0 \<and> b = 1)"
  by (auto simp: is_bit_def bit_1_iff)

lemma drop_and_one: "drop_bit k x AND 1 = (of_bool (bit x k) :: int)"
  by (rule bit_eqI) (auto simp: bit_and_iff bit_drop_bit_eq bit_1_iff intro!: gr0I)

lemma xer_bits:
  assumes "in_field 32 x" "is_bit ca" "is_bit ov" "is_bit s"
  shows "bit (xer_with x ca ov s) n =
    (if n < 29 then bit x n else if n = 29 then ca = 1 else if n = 30 then ov = 1 else if n = 31 then s = 1 else False)"
  unfolding xer_with_def bit_or_iff bit_push_bit_iff bit_take_bit_iff
    is_bit_at [OF assms(2)] is_bit_at [OF assms(3)] is_bit_at [OF assms(4)]
  by (auto; presburger)

lemma xer_with_same:
  assumes "in_field 32 x"
  shows "xer_with x (drop_bit 29 x AND 1) (drop_bit 30 x AND 1) (drop_bit 31 x AND 1) = x"
proof (rule bit_eqI)
  fix n :: nat
  have "n = 29 \<or> n = 30 \<or> n = 31 \<or> n < 29 \<or> 32 \<le> n" by arith
  then show "bit (xer_with x (drop_bit 29 x AND 1) (drop_bit 30 x AND 1) (drop_bit 31 x AND 1)) n = bit x n"
    unfolding drop_and_one xer_bits [OF assms is_bit_of_bool is_bit_of_bool is_bit_of_bool]
    using in_field_not_bit [OF assms, of n] by auto
qed

lemma xer_set_ca:
  assumes "in_field 32 x" "is_bit ca" "is_bit ov" "is_bit s"
  shows "(xer_with x ca ov s AND NOT 0x20000000 AND M32) OR (if c then 0x20000000 else 0) = xer_with x (of_bool c) ov s"
proof (rule bit_eqI)
  fix n
  show "bit ((xer_with x ca ov s AND NOT 0x20000000 AND M32) OR (if c then 0x20000000 else 0)) n = bit (xer_with x (of_bool c) ov s) n"
    using in_field_not_bit [OF assms(1), of n]
    unfolding M32_take bit_or_iff bit_and_iff bit_not_iff bit_const xer_bits [OF assms] if_distrib [of "\<lambda>z. bit z n"]
      xer_bits [OF assms(1) is_bit_of_bool assms(3,4)] bit_take_bit_iff by auto
qed

lemma xer_set_ov:
  assumes "in_field 32 x" "is_bit ca" "is_bit ov" "is_bit s"
  shows "(let y = xer_with x ca ov s AND NOT 0x40000000 AND M32 in if c then y OR 0xC0000000 else y) =
    xer_with x ca (of_bool c) (s OR of_bool c)"
proof (rule bit_eqI)
  fix n
  have s: "is_bit (s OR of_bool c)" using assms(4) by simp
  have s1: "(s OR of_bool c = 1) = (s = 1 \<or> c)" using assms(4) by (auto simp: is_bit_def)
  show "bit (let y = xer_with x ca ov s AND NOT 0x40000000 AND M32 in if c then y OR 0xC0000000 else y) n =
      bit (xer_with x ca (of_bool c) (s OR of_bool c)) n"
    using in_field_not_bit [OF assms(1), of n]
    unfolding M32_take Let_def if_distrib [of "\<lambda>z. bit z n"] bit_or_iff bit_and_iff bit_not_iff bit_const xer_bits [OF assms]
      xer_bits [OF assms(1,2) is_bit_of_bool s] s1 bit_take_bit_iff by auto
qed


lemma in_field_xer_with [simp]:
  assumes "in_field 32 x" "is_bit ca" "is_bit ov" "is_bit s"
  shows "in_field 32 (xer_with x ca ov s)"
proof -
  have "take_bit 32 (xer_with x ca ov s) = xer_with x ca ov s"
    by (rule bit_eqI) (auto simp: bit_take_bit_iff xer_bits [OF assms])
  then show ?thesis by (rule in_fieldI_take_bit)
qed

lemma xer_with_twice [simp]:
  "xer_with (xer_with x ca ov s) ca' ov' s' = xer_with x ca' ov' s'"
  by (simp add: xer_with_def take_bit_push_bit)

lemma xer_fields:
  assumes "in_field 32 x" "is_bit ca" "is_bit ov" "is_bit s"
  shows "drop_bit 29 (xer_with x ca ov s) AND 1 = ca" "drop_bit 30 (xer_with x ca ov s) AND 1 = ov"
    "drop_bit 31 (xer_with x ca ov s) AND 1 = s"
  unfolding drop_and_one xer_bits [OF assms] using assms(2-4) by (auto simp: is_bit_def)

lemma flag_bits [simp]: "is_bit (carry st)" "is_bit (ov_of st)" "is_bit (so st)"
  by (simp_all add: carry_def ov_of_def so_def drop_and_one)

lemma flags_upd:
  assumes "in_field 32 x" "is_bit ca" "is_bit ov" "is_bit s"
  shows "carry (st\<lparr>s_xer := xer_with x ca ov s\<rparr>) = ca" "ov_of (st\<lparr>s_xer := xer_with x ca ov s\<rparr>) = ov"
    "so (st\<lparr>s_xer := xer_with x ca ov s\<rparr>) = s"
  using xer_fields [OF assms] by (simp_all add: carry_def ov_of_def so_def)

lemma set_ca_run [effect_simps]:
  assumes "in_field 32 (s_xer st)"
  shows "set_ca c st = Ret () (st\<lparr>s_xer := xer_with (s_xer st) (of_bool c) (ov_of st) (so st)\<rparr>)"
  using xer_set_ca [OF assms flag_bits, of st st st c] xer_with_same [OF assms]
  by (simp add: set_ca_def run_effects carry_def ov_of_def so_def)

lemma set_ov_run [effect_simps]:
  assumes "in_field 32 (s_xer st)"
  shows "set_ov c st = Ret () (st\<lparr>s_xer := xer_with (s_xer st) (carry st) (of_bool c) (so st OR of_bool c)\<rparr>)"
  using xer_set_ov [OF assms flag_bits, of st st st c] xer_with_same [OF assms]
  by (simp add: set_ov_def run_effects carry_def ov_of_def so_def Let_def)

lemma setcrf0_run:
  assumes "in_field 32 (s_cr st)"
  shows "setcrf 0 v st = Ret () (st\<lparr>s_cr := cr0_with (s_cr st) (v AND 0xF)\<rparr>)"
proof -
  have "(s_cr st AND NOT (push_bit 28 0xF) AND M32) = take_bit 28 (s_cr st)"
  proof (rule bit_eqI)
    fix n
    have b15: "bit (15 :: int) k = (k < 4)" for k
      using bit_mask_iff [of 4 k, where 'a = int] by (simp add: mask_eq_exp_minus_1)
    show "bit (s_cr st AND NOT (push_bit 28 0xF) AND M32) n = bit (take_bit 28 (s_cr st)) n"
      unfolding M32_take bit_and_iff bit_not_iff bit_push_bit_iff bit_take_bit_iff b15
      using in_field_not_bit [OF assms, of n] by auto
  qed
  then show ?thesis by (simp add: setcrf_def neg_check_def run_effects run_bind cr0_with_def)
qed

lemma cr0_relation_s32:
  "(if s32 v < 0 then 8 else if s32 v > 0 then 4 else 2) = cr0_relation (v AND M32)"
proof -
  have "s32 v < 0 \<longleftrightarrow> bit v 31"
    using take_bit_int_less_exp [of 32 v] bit31_iff_ge [of "take_bit 32 v"]
    by (auto simp: s32_def M32_take Let_def and_sign32 bit_take_bit_iff)
  moreover have "s32 v = 0 \<longleftrightarrow> v AND M32 = 0"
    using take_bit_int_less_exp [of 32 v] bit_of_take_bit32 [of v] by (auto simp: s32_def M32_take Let_def and_sign32)
  ultimately show ?thesis
    using bit_of_take_bit32 [of v] by (auto simp: cr0_relation_def M32_take and_sign32)
qed

lemma relation_nibble: "is_bit s \<Longrightarrow> (cr0_relation w OR s) AND 0xF = cr0_relation w OR s"
  by (auto simp: cr0_relation_def is_bit_def)

lemma cr0_run [effect_simps]:
  assumes "in_field 32 (s_cr st)"
  shows "cr0 v st = Ret () (st\<lparr>s_cr := cr0_with (s_cr st) (cr0_relation (v AND M32) OR so st)\<rparr>)"
  unfolding cr0_def Let_def cr0_relation_s32
  by (simp add: run_effects run_bind setcrf0_run [OF assms] relation_nibble)

definition write_back :: "int \<Rightarrow> family_result \<Rightarrow> mstate \<Rightarrow> mstate" where
  "write_back rd r st = st\<lparr>s_gpr := (s_gpr st)[nat rd := PInt (r_value r)],
     s_xer := xer_with (s_xer st) (r_ca r) (r_ov r) (r_so r), s_cr := cr0_with (s_cr st) (r_cr0 r)\<rparr>"

definition cr0_of :: "mstate \<Rightarrow> int" where "cr0_of st = drop_bit 28 (s_cr st)"

lemma cr0_with_same: "cr0_with cr (drop_bit 28 cr) = cr"
proof (rule bit_eqI)
  fix n show "bit (cr0_with cr (drop_bit 28 cr)) n = bit cr n"
    by (cases "n < 28") (simp_all add: cr0_with_def bit_or_iff bit_take_bit_iff bit_push_bit_iff bit_drop_bit_eq)
qed

lemma cr0_nibble: "regs_ok st \<Longrightarrow> in_field 4 (cr0_of st)"
  by (simp add: regs_ok_def cr0_of_def in_field_iff take_bit_drop_bit)

lemma legal_plain [effect_simps]:
  assumes "i_status ins = None" "\<not> i_priv ins" "\<not> i_fp ins" "\<not> is_spr ins" "i_m ins \<noteq> ''eciwx''" "i_m ins \<noteq> ''ecowx''"
  shows "legal v ins st = Ret () st"
  using assms by (simp add: legal_def legal_status_def privileged_def msr_has_def effect_simps)


section \<open>The adder\<close>

lemma overflow_iff:
  assumes "S = s32 x + s32 y + c" "r = take_bit 32 (x + y + c)"
  shows "S \<noteq> s32 r \<longleftrightarrow> S < - (2 ^ 31) \<or> S > 2 ^ 31 - 1"
proof -
  have w: "(word_of_int (s32 z) :: 32 word) = word_of_int z" for z
    unfolding s32_signed32 signed32_eq_sint by simp
  have "(word_of_int r :: 32 word) = word_of_int (x + y + c)" unfolding assms(2) word_of_int_eq_iff by simp
  also have "\<dots> = word_of_int S" unfolding assms(1) by (simp only: of_int_add w)
  finally have "s32 r = sint (word_of_int S :: 32 word)" unfolding s32_signed32 signed32_eq_sint by simp
  then show ?thesis using sint_word_of_int_eq_iff [of S] by auto
qed

lemma carry_out_iff: "0 \<le> t \<Longrightarrow> drop_bit 32 t \<noteq> (0::int) \<longleftrightarrow> t > 0xFFFFFFFF"
  by (simp add: drop_bit_eq_div) linarith

text \<open>What \<open>xo_op\<close> leaves behind for an adder instruction.\<close>

lemma xo_op_adder:
  assumes ok: "regs_ok st" and a: "holds st ra a" and b: "holds st rb b" and rt: "in_field 5 rt" and m: "is_adder m"
    and bits: "is_bit oe" "is_bit rc"
    and inp: "adder_inputs m a (retM b) (carry st) st = Ret (x, y, cin) st"
    and f: "i_m ins = m" "attr ins A_ra = Inr ra" "attr ins A_rb = Inr rb" "attr ins A_rt = Inr rt" "attr ins A_oe = Inr oe" "attr ins A_rc = Inr rc"
  defines "t \<equiv> x + y + cin" and "ov \<equiv> s32 x + s32 y + cin \<noteq> s32 ((x + y + cin) AND M32)"
  defines "nca \<equiv> (if m \<in> {''add'', ''subf'', ''neg''} then carry st else of_bool (drop_bit 32 t \<noteq> 0))"
    and "nov \<equiv> (if oe = 1 then of_bool ov else ov_of st)" and "nso \<equiv> (if oe = 1 then so st OR of_bool ov else so st)"
  shows "xo_op ins st = Ret PNone (write_back rt \<lparr>r_value = t AND M32, r_ca = nca, r_ov = nov, r_so = nso,
     r_cr0 = (if rc = 1 then cr0_relation (t AND M32) OR nso else cr0_of st)\<rparr> st)"
proof -
  have x32: "in_field 32 (s_xer st)" and c32: "in_field 32 (s_cr st)" and len: "length (s_gpr st) = 32" using ok by (auto simp: regs_ok_def)
  have lift: "liftM (as_int (PInt z)) = retM z" for z by (rule ext) (simp add: as_int_def effect_simps)
  let ?st1 = "st\<lparr>s_xer := xer_with (s_xer st) nca (ov_of st) (so st)\<rparr>"
  have same: "xer_with (s_xer st) (carry st) (ov_of st) (so st) = s_xer st"
    using xer_with_same [OF x32] by (simp add: carry_def ov_of_def so_def)
  have res: "xo_result m (PInt a) (PInt b) st = Ret (Some (t AND M32), ov) ?st1"
    unfolding xo_result_def Let_def lift using m inp x32
    by (simp add: effect_simps t_def ov_def nca_def same)
  let ?st2 = "st\<lparr>s_xer := xer_with (s_xer st) nca nov nso\<rparr>"
  have nca: "is_bit nca" by (simp add: nca_def)
  have ovstep: "(if oe \<noteq> 0 then set_ov ov else retM ()) ?st1 = Ret () ?st2"
    using bits(1) by (rule is_bit_cases) (simp_all add: effect_simps nov_def nso_def flags_upd x32 nca)
  have nso: "is_bit nso" "is_bit nov" by (simp_all add: nso_def nov_def)
  have so2: "so (?st2\<lparr>s_gpr := g\<rparr>) = nso" for g using x32 nca nso by (simp add: so_def xer_fields)
  have tt: "t AND M32 AND M32 = t AND M32" by (simp add: M32_take)
  show ?thesis
    unfolding xo_op_def using f a b ok res ovstep bits(2) c32 len rt
    by (auto simp: effect_simps fld_def is_bit_def write_back_def so2 tt cr0_of_def cr0_with_same)
qed


definition add_ops :: "string list" where "add_ops = [''add'', ''addc'', ''adde'', ''addme'', ''addze'']"

lemma in_take: "in_field 32 a \<Longrightarrow> a AND 0xFFFFFFFF = a"
  by (simp add: and_mask32 in_field_iff)

lemma add_ops_facts:
  assumes "m \<in> set add_ops"
  shows "is_adder m" "has_op XO_OPS m" "m \<noteq> ''external''" "m \<noteq> ''eciwx''" "m \<noteq> ''ecowx''" "m \<noteq> ''mfspr''" "m \<noteq> ''mtspr''"
    "\<exists>k. keyed XO_OPS m = Inr k" "add_XO m \<noteq> None"
  using assms unfolding add_ops_def
  by (auto simp: is_adder_def has_op_def XO_OPS_def keyed_def add_XO_def)

lemma add_totals_adder:
  assumes m: "m \<in> set add_ops" and a: "in_field 32 a" and b: "in_field 32 b" and c: "is_bit ca"
  shows "\<exists>y cin. adder_inputs m a (retM b) ca st = Ret (a, y, cin) st \<and> add_totals m a b ca = (a + y + cin, s32 a + s32 y + cin) \<and>
    0 \<le> y \<and> 0 \<le> cin"
proof -
  have neg: "s32 M32 = - 1" by (simp add: s32_def M32_def)
  have z: "s32 0 = 0" by (simp add: s32_def)
  have "0 \<le> b" "0 \<le> ca" using b c by (auto simp: in_field_def is_bit_def)
  then show ?thesis
    using m unfolding add_ops_def
    by (auto simp: adder_inputs_def effect_simps add_totals_def neg z s32_signed32 [symmetric]) (simp_all add: M32_def)
qed

lemma add_family_step:
  assumes ok: "regs_ok st" and a: "holds st ra a" and b: "holds st rb b" and rt: "in_field 5 rt" and m: "m \<in> set add_ops"
    and bits: "is_bit oe" "is_bit rc"
  shows "\<exists>i r. xo m rt ra rb oe rc = Inr i \<and> add_evaluate m a b (carry st) oe rc (ov_of st) (so st) (cr0_of st) = Inr r \<and>
    machine_step v i pc st = Ret PNone (write_back rt r st)"
proof -
  note F = add_ops_facts [OF m]
  have a32: "in_field 32 a" "in_field 32 b" using a b by (auto simp: holds_def)
  obtain k where k: "keyed XO_OPS m = Inr k" using F(8) by blast
  define i where "i = xo_form m k rt ra rb oe rc"
  have i: "xo m rt ra rb oe rc = Inr i" by (simp add: xo_def k i_def)
  have f: "i_m i = m" "attr i A_ra = Inr ra" "attr i A_rb = Inr rb" "attr i A_rt = Inr rt" "attr i A_oe = Inr oe" "attr i A_rc = Inr rc"
    by (simp_all add: i_def xo_form_def mk_Insn_def attr_def)
  have plain: "legal v i st = Ret () st" "\<not> i_fpop i"
    using F by (auto intro!: legal_plain simp: i_def xo_form_def mk_Insn_def is_spr_def)
  have step: "machine_step v i pc st = xo_op i st"
    unfolding machine_step_def Let_def f(1) using F(2,3) plain by (simp add: effect_simps)
  obtain y cin where y: "adder_inputs m a (retM b) (carry st) st = Ret (a, y, cin) st"
    "add_totals m a b (carry st) = (a + y + cin, s32 a + s32 y + cin)" "0 \<le> y" "0 \<le> cin"
    using add_totals_adder [OF m a32, of "carry st" st] by auto
  have tot: "0 \<le> a + y + cin" using y a32 by (simp add: in_field_def)
  have nn: "m \<noteq> ''subf''" "m \<noteq> ''neg''" using m by (auto simp: add_ops_def)
  have nz: "(oe \<noteq> 0) = (oe = 1)" "(rc \<noteq> 0) = (rc = 1)" using bits by (auto simp: is_bit_def)
  let ?t = "a + y + cin"
  have ovf: "(s32 a + s32 y + cin \<noteq> s32 (?t AND M32)) = (s32 a + s32 y + cin < - (2 ^ 31) \<or> s32 a + s32 y + cin > 2 ^ 31 - 1)"
    by (rule overflow_iff) (simp_all add: M32_take)
  have ev: "add_evaluate m a b (carry st) oe rc (ov_of st) (so st) (cr0_of st) = Inr \<lparr>r_value = ?t AND M32,
      r_ca = (if m \<in> {''add'', ''subf'', ''neg''} then carry st else of_bool (drop_bit 32 ?t \<noteq> 0)),
      r_ov = (if oe = 1 then of_bool (s32 a + s32 y + cin \<noteq> s32 (?t AND M32)) else ov_of st),
      r_so = (if oe = 1 then so st OR of_bool (s32 a + s32 y + cin \<noteq> s32 (?t AND M32)) else so st),
      r_cr0 = (if rc = 1 then cr0_relation (?t AND M32) OR (if oe = 1 then so st OR of_bool (s32 a + s32 y + cin \<noteq> s32 (?t AND M32)) else so st) else cr0_of st)\<rparr>"
    unfolding ovf carry_out_iff [OF tot] add_evaluate_eq
    using F(9) bits cr0_nibble [OF ok] nn y(2) a32 nz
    by (simp only: add_result_def Let_def in_take M32_take fst_conv snd_conv flag_bits simp_thms insert_iff empty_iff)
  show ?thesis
    by (rule exI, rule exI, intro conjI, rule i, rule ev) (simp only: step xo_op_adder [OF ok a b rt F(1) bits y(1) f])
qed


section \<open>Logical, shift and rotate instructions\<close>

text \<open>The common end of these instructions: write \<open>rA\<close>, then CR0 if the record bit is set.\<close>

lemma finish_run:
  assumes ok: "regs_ok st" and ra: "in_field 5 ra" and rc: "is_bit rc" and c: "is_bit nca" and r: "in_field 32 r"
  shows "seqM (setg ra (PInt r)) (seqM (record_cr0 rc r) (retM PNone)) (st\<lparr>s_xer := xer_with (s_xer st) nca (ov_of st) (so st)\<rparr>) =
    Ret PNone (write_back ra \<lparr>r_value = r, r_ca = nca, r_ov = ov_of st, r_so = so st,
      r_cr0 = (if rc \<noteq> 0 then cr0_relation r OR so st else cr0_of st)\<rparr> st)"
proof -
  have x32: "in_field 32 (s_xer st)" and c32: "in_field 32 (s_cr st)" and len: "length (s_gpr st) = 32" using ok by (auto simp: regs_ok_def)
  have so2: "so (st\<lparr>s_xer := xer_with (s_xer st) nca (ov_of st) (so st), s_gpr := g\<rparr>) = so st" for g
    using xer_fields(3) [OF x32 c flag_bits(2,3)] by (simp add: so_def)
  have "r AND M32 = r" using r by (simp add: M32_take in_field_iff)
  then show ?thesis using rc c32 len ra
    by (auto simp: effect_simps record_cr0_def is_bit_def write_back_def so2 cr0_of_def cr0_with_same)
qed

lemma xer_same: "regs_ok st \<Longrightarrow> st\<lparr>s_xer := xer_with (s_xer st) (carry st) (ov_of st) (so st)\<rparr> = st"
  using xer_with_same [of "s_xer st"] by (simp add: regs_ok_def carry_def ov_of_def so_def)

lemma log_op_run:
  assumes ok: "regs_ok st" and a: "holds st rs a" and b: "holds st rb b" and ra: "in_field 5 ra" and rc: "is_bit rc"
    and f: "attr ins A_rs = Inr rs" "attr ins A_rb = Inr rb" "attr ins A_ra = Inr ra" "attr ins A_rc = Inr rc"
    and res: "log_result (i_m ins) a b st = Ret r (st\<lparr>s_xer := xer_with (s_xer st) nca (ov_of st) (so st)\<rparr>)"
    and r: "in_field 32 r" and c: "is_bit nca"
  shows "log_op ins st = Ret PNone (write_back ra \<lparr>r_value = r, r_ca = nca, r_ov = ov_of st, r_so = so st,
      r_cr0 = (if rc \<noteq> 0 then cr0_relation r OR so st else cr0_of st)\<rparr> st)"
proof -
  have lifts: "fld ins A_rs st' = Ret rs st'" "fld ins A_rb st' = Ret rb st'" "fld ins A_ra st' = Ret ra st'" "fld ins A_rc = retM rc" for st'
    using f by (auto simp: fld_def effect_simps)
  have ret: "bindM (retM rc) g = g rc" for g :: "int \<Rightarrow> pval M" by (rule ext) (simp add: effect_simps)
  show ?thesis
    unfolding log_op_def using ok a b res finish_run [OF ok ra rc c r]
    by (simp add: run_bind(1) lifts gint_holds ret)
qed

definition log_ops :: "string list" where
  "log_ops = [''and'', ''andc'', ''or'', ''orc'', ''xor'', ''nand'', ''nor'', ''eqv'']"

definition shift_ops :: "string list" where
  "shift_ops = [''slw'', ''srw'', ''sraw'']"

lemma log_ops_facts:
  assumes "m \<in> set log_ops \<or> m \<in> set shift_ops"
  shows "has_op LOG_OPS m" "\<not> has_op XO_OPS m" "m \<noteq> ''external''" "m \<noteq> ''eciwx''" "m \<noteq> ''ecowx''" "m \<noteq> ''mfspr''" "m \<noteq> ''mtspr''"
    "\<exists>k. keyed LOG_OPS m = Inr k"
  using assms unfolding log_ops_def shift_ops_def
  by (auto simp: has_op_def XO_OPS_def LOG_OPS_def keyed_def)

lemma step_log:
  assumes "m \<in> set log_ops \<or> m \<in> set shift_ops" and "logx m ra rs rb rc = Inr i"
  shows "machine_step v i pc st = log_op i st" "i_m i = m" "attr i A_rs = Inr rs" "attr i A_rb = Inr rb" "attr i A_ra = Inr ra"
    "attr i A_rc = Inr rc"
proof -
  note F = log_ops_facts [OF assms(1)]
  obtain k where k: "keyed LOG_OPS m = Inr k" using F(8) by blast
  show f: "i_m i = m" "attr i A_rs = Inr rs" "attr i A_rb = Inr rb" "attr i A_ra = Inr ra" "attr i A_rc = Inr rc"
    using assms(2) by (auto simp: logx_def k mk_Insn_def attr_def)
  have "legal v i st = Ret () st" "\<not> i_fpop i"
    using F assms(2) by (auto intro!: legal_plain simp: logx_def k mk_Insn_def is_spr_def)
  then show "machine_step v i pc st = log_op i st"
    unfolding machine_step_def Let_def f(1) using F(1-3) by (simp add: effect_simps)
qed

lemma log_ops_known: "m \<in> set log_ops \<Longrightarrow> logical_XO m \<noteq> None"
  by (auto simp: log_ops_def logical_XO_def)

lemma gen_logical_value: "m \<in> set log_ops \<Longrightarrow> gen_logical m a b = take_bit 32 (logical_value m a b)"
  unfolding log_ops_def by (auto simp only: gen_logical_def logical_value_def M32_take set_simps insert_iff)

lemma log_result_logical:
  assumes "m \<in> set log_ops"
  shows "log_result m a b st = Ret (take_bit 32 (logical_value m a b)) st"
proof -
  have "m \<noteq> ''slw''" "m \<noteq> ''srw''" "m \<noteq> ''sraw''" using assms by (auto simp: log_ops_def)
  then show ?thesis by (simp add: log_result_def effect_simps gen_logical_value [OF assms])
qed

lemma logical_family_step:
  assumes ok: "regs_ok st" and a: "holds st rs a" and b: "holds st rb b" and ra: "in_field 5 ra" and m: "m \<in> set log_ops"
    and rc: "is_bit rc"
  shows "\<exists>i r. logx m ra rs rb rc = Inr i \<and> logical_evaluate m a b rc (carry st) (ov_of st) (so st) (cr0_of st) = Inr r \<and>
    machine_step v i pc st = Ret PNone (write_back ra r st)"
proof -
  have a32: "take_bit 32 a = a" "take_bit 32 b = b" using a b by (auto simp: holds_def in_field_iff)
  obtain i where i: "logx m ra rs rb rc = Inr i" using log_ops_facts(8) [of m] m by (auto simp: logx_def)
  note S = step_log [OF disjI1 [OF m] i]
  let ?r = "take_bit 32 (logical_value m a b)"
  have "log_result m a b st = Ret ?r st" by (rule log_result_logical [OF m])
  then have res: "log_result (i_m i) a b st = Ret ?r (st\<lparr>s_xer := xer_with (s_xer st) (carry st) (ov_of st) (so st)\<rparr>)"
    by (simp add: S(2) xer_same [OF ok])
  have ev: "logical_evaluate m a b rc (carry st) (ov_of st) (so st) (cr0_of st) = Inr \<lparr>r_value = ?r, r_ca = carry st, r_ov = ov_of st,
      r_so = so st, r_cr0 = (if rc \<noteq> 0 then cr0_relation ?r OR so st else cr0_of st)\<rparr>"
    unfolding logical_evaluate_eq using log_ops_known [OF m] rc cr0_nibble [OF ok] by (simp add: a32 Let_def)
  show ?thesis
    by (rule exI, rule exI, intro conjI, rule i, rule ev) (simp only: S(1) log_op_run [OF ok a b ra rc S(3-6) res in_field_take_bit_self flag_bits(1)])
qed


subsection \<open>Shifts\<close>

lemma s32_negative: "in_field 32 a \<Longrightarrow> s32 a < 0 \<longleftrightarrow> a AND 0x80000000 \<noteq> 0"
  and s32_field: "in_field 32 a \<Longrightarrow> s32 a = (if a AND 0x80000000 \<noteq> 0 then a - 2 ^ 32 else a)"
  by (auto simp: s32_def Let_def M32_take in_field_take_bit in_field_def)

lemma sraw_value:
  assumes a: "in_field 32 a" and n: "0 \<le> n"
  shows "(drop_bit (nat (min n 32)) (s32 a) AND M32, of_bool (s32 a < 0 \<and> a AND (push_bit (nat (min n 32)) 1 - 1) \<noteq> 0)) =
    shift_value ''sraw'' a n ca"
proof (cases "n < 32")
  case True
  then have "a AND (push_bit (nat n) 1 - 1) \<noteq> 0 \<longleftrightarrow> n > 0 \<and> a AND (push_bit (nat n) 1 - 1) \<noteq> 0"
    using n by (cases "n = 0") auto
  then show ?thesis
    using True unfolding s32_negative [OF a] by (simp add: shift_value_def Let_def s32_field [OF a] M32_def)
next
  case False
  have "drop_bit 32 (s32 a) = (if s32 a < 0 then - 1 else 0)"
    using a unfolding s32_negative [OF a] by (auto simp: drop_bit_eq_div s32_field [OF a] in_field_def div_pos_pos_trivial)
  moreover have "s32 a < 0 \<Longrightarrow> a \<noteq> 0" by (auto simp: s32_def Let_def)
  moreover have "a AND (push_bit 32 1 - 1) = a" using a by (simp add: push_bit_eq_mult and_mask32 in_field_iff)
  ultimately show ?thesis
    using False s32_negative [OF a] by (auto simp: shift_value_def Let_def M32_def)
qed

lemma log_result_shift:
  assumes ok: "regs_ok st" and a: "in_field 32 a" and m: "m \<in> set shift_ops"
  shows "log_result m a b st = (case shift_value m a (b AND 0x3F) (carry st) of (v, c) \<Rightarrow>
    Ret v (st\<lparr>s_xer := xer_with (s_xer st) c (ov_of st) (so st)\<rparr>))"
proof -
  have n: "0 \<le> b AND 0x3F" by simp
  have x: "in_field 32 (s_xer st)" using ok by (simp add: regs_ok_def)
  consider "m = ''slw''" | "m = ''srw''" | "m = ''sraw''" using m by (auto simp: shift_ops_def)
  then show ?thesis
  proof cases
    case 3
    show ?thesis
      unfolding 3 sraw_value [OF a n, symmetric] log_result_def Let_def prod.case
      by (simp add: run_effects run_bind set_ca_run [OF x])
  qed (auto simp: log_result_def shift_value_def effect_simps xer_same [OF ok] M32_def)
qed

lemma shift_family_step:
  assumes ok: "regs_ok st" and a: "holds st rs a" and b: "holds st rb b" and ra: "in_field 5 ra" and m: "m \<in> set shift_ops"
    and rc: "is_bit rc"
  shows "\<exists>i r. logx m ra rs rb rc = Inr i \<and> shift_evaluate m a b rc (carry st) (ov_of st) (so st) (cr0_of st) = Inr r \<and>
    machine_step v i pc st = Ret PNone (write_back ra r st)"
proof -
  have a32: "in_field 32 a" using a by (simp add: holds_def)
  obtain i where i: "logx m ra rs rb rc = Inr i" using log_ops_facts(8) [of m] m by (auto simp: logx_def)
  note S = step_log [OF disjI2 [OF m] i]
  obtain r c where rc': "shift_value m a (b AND 0x3F) (carry st) = (r, c)" by (cases "shift_value m a (b AND 0x3F) (carry st)")
  have res: "log_result (i_m i) a b st = Ret r (st\<lparr>s_xer := xer_with (s_xer st) c (ov_of st) (so st)\<rparr>)"
    using log_result_shift [OF ok a32 m] by (simp add: S(2) rc')
  have fields: "in_field 32 r" "is_bit c" using shift_value_ok [OF a32 flag_bits(1), of m "b AND 0x3F" st] by (simp_all add: rc')
  have known: "shift_XO m \<noteq> None" "shift_count m b = Inr (b AND 0x3F)" using m by (auto simp: shift_ops_def shift_XO_def shift_count_def)
  have ev: "shift_evaluate m a b rc (carry st) (ov_of st) (so st) (cr0_of st) = Inr \<lparr>r_value = r, r_ca = c, r_ov = ov_of st,
      r_so = so st, r_cr0 = (if rc \<noteq> 0 then cr0_relation r OR so st else cr0_of st)\<rparr>"
    unfolding shift_evaluate_eq using known rc cr0_nibble [OF ok] by (simp add: in_field_take_bit [OF a32] rc')
  show ?thesis
    by (rule exI, rule exI, intro conjI, rule i, rule ev) (simp only: S(1) log_op_run [OF ok a b ra rc S(3-6) res fields])
qed

text \<open>srawi: its count is the SH field and it has an operation of its own.\<close>

lemma shift_value_srawi: "shift_value ''srawi'' a n ca = shift_value ''sraw'' a n ca"
  by (simp add: shift_value_def)

lemma step_srawi: "machine_step v (srawi ra rs sh rc) pc st = srawi_op (srawi ra rs sh rc) st"
proof -
  have mi: "i_m (srawi ra rs sh rc) = ''srawi''" by (simp add: srawi_def mk_Insn_def)
  have "legal v (srawi ra rs sh rc) st = Ret () st" "\<not> i_fpop (srawi ra rs sh rc)"
    by (auto intro!: legal_plain simp: srawi_def mk_Insn_def is_spr_def)
  moreover have "\<not> has_op XO_OPS ''srawi''" "\<not> has_op LOG_OPS ''srawi''" "\<not> has_op UN_OPS ''srawi''"
    by (simp_all add: has_op_def XO_OPS_def LOG_OPS_def UN_OPS_def)
  ultimately show ?thesis unfolding machine_step_def Let_def mi by (simp add: effect_simps)
qed

lemma srawi_family_step:
  assumes ok: "regs_ok st" and a: "holds st rs a" and ra: "in_field 5 ra" and sh: "in_field 5 sh" and rc: "is_bit rc"
  shows "\<exists>r. shift_evaluate ''srawi'' a sh rc (carry st) (ov_of st) (so st) (cr0_of st) = Inr r \<and>
    machine_step v (srawi ra rs sh rc) pc st = Ret PNone (write_back ra r st)"
proof -
  have a32: "in_field 32 a" using a by (simp add: holds_def)
  have x: "in_field 32 (s_xer st)" using ok by (simp add: regs_ok_def)
  have n: "0 \<le> sh" "sh < 32" "min sh 32 = sh" using sh by (auto simp: in_field_def)
  obtain r c where v: "shift_value ''srawi'' a sh (carry st) = (r, c)" by (cases "shift_value ''srawi'' a sh (carry st)")
  have sv: "drop_bit (nat sh) (s32 a) AND M32 = r" "of_bool (s32 a < 0 \<and> a AND (push_bit (nat sh) 1 - 1) \<noteq> 0) = c"
    using sraw_value [OF a32 n(1), of "carry st"] v by (simp_all add: n(3) shift_value_srawi)
  have fields: "in_field 32 r" "is_bit c"
    using shift_value_ok [OF a32 flag_bits(1), of "''srawi''" sh st] by (simp_all add: v)
  have fl: "fld (srawi ra rs sh rc) A_rs = retM rs" "fld (srawi ra rs sh rc) A_ra = retM ra" "fld (srawi ra rs sh rc) A_sh = retM sh"
    "fld (srawi ra rs sh rc) A_rc = retM rc"
    by (auto simp: fld_def srawi_def mk_Insn_def attr_def effect_simps intro!: ext)
  have ret: "bindM (retM x) g = g x" for x and g :: "'q \<Rightarrow> 'p M" by (rule ext) (simp add: effect_simps)
  have lift: "liftM (neg_check sh) = retM (nat sh)" using n by (auto simp: neg_check_def effect_simps intro!: ext)
  have run: "srawi_op (srawi ra rs sh rc) st = Ret PNone (write_back ra \<lparr>r_value = r, r_ca = c, r_ov = ov_of st, r_so = so st,
      r_cr0 = (if rc \<noteq> 0 then cr0_relation r OR so st else cr0_of st)\<rparr> st)"
    unfolding srawi_op_def run_bind fl ret lift Let_def gint_holds [OF ok a] outcome.case sv(1) set_ca_run [OF x] sv(2)
    by (rule finish_run [OF ok ra rc fields(2,1), unfolded run_bind])
  have ev: "shift_evaluate ''srawi'' a sh rc (carry st) (ov_of st) (so st) (cr0_of st) = Inr \<lparr>r_value = r, r_ca = c, r_ov = ov_of st,
      r_so = so st, r_cr0 = (if rc \<noteq> 0 then cr0_relation r OR so st else cr0_of st)\<rparr>"
    unfolding shift_evaluate_eq using rc cr0_nibble [OF ok] n by (simp add: shift_XO_def shift_count_def in_field_take_bit [OF a32] v)
  show ?thesis by (rule exI, rule conjI, rule ev) (simp only: step_srawi run)
qed

subsection \<open>Rotates\<close>

lemma and_not_M32:
  assumes "in_field 32 x"
  shows "x AND NOT k AND M32 = x AND NOT k"
proof -
  have "x AND NOT k AND M32 = take_bit 32 (x AND NOT k)" by (simp only: M32_take [symmetric] and.assoc)
  then show ?thesis using in_field_take_bit [OF in_field_and [OF assms]] by simp
qed

lemma and_mask16: "x AND 0xFFFF = take_bit 16 (x :: int)"
  by (simp add: take_bit_eq_mask mask_eq_exp_minus_1)

lemma mask_loop_ppc:
  assumes "in_field 5 me" "in_field 5 i"
  shows "mask_loop me i acc = ppc_mask_loop me i acc"
  using assms(2)
proof (induction "nat ((me - i) mod 32)" arbitrary: i acc rule: less_induct)
  case less
  show ?case
  proof (cases "i = me")
    case False
    let ?j = "(i + 1) AND 31"
    have j: "in_field 5 ?j" by (simp add: and_mask5)
    have "nat ((me - ?j) mod 32) < nat ((me - i) mod 32)"
      using False assms(1) less.prems unfolding next_index [OF less.prems] in_field_def by (simp add: mod32_near)
    from less.hyps [OF this j] show ?thesis
      using False by (simp add: mask_loop.simps [of me i] ppc_mask_loop.simps [of me i] Let_def)
  qed (simp add: mask_loop.simps ppc_mask_loop.simps)
qed

lemma gen_mask_ppc: "in_field 5 mb \<Longrightarrow> in_field 5 me \<Longrightarrow> gen_mask mb me = ppc_mask mb me"
  by (auto simp: gen_mask_def ppc_mask_def mask_loop_ppc check_five_bits_def in_field_def)

lemma rotl_rotate_left: "rotl x n = rotate_left x n"
  by (simp add: rotl_def rotate_left_def Let_def M32_def)


definition rot_ops :: "string list" where
  "rot_ops = [''rlwinm'', ''rlwnm'', ''rlwimi'']"

lemma rot_ops_facts:
  assumes "m \<in> set rot_ops"
  shows "\<not> has_op XO_OPS m" "\<not> has_op LOG_OPS m" "\<not> has_op UN_OPS m" "m \<in> {''rlwinm'', ''rlwnm'', ''rlwimi''}" "m \<noteq> ''external''"
    "m \<notin> {''srawi'', ''addi'', ''addis'', ''addic'', ''addic.'', ''subfic'', ''mulli'', ''andi.'', ''andis.'', ''ori'', ''oris'', ''xori'', ''xoris'',
      ''eciwx'', ''ecowx'', ''mfspr'', ''mtspr''}" "PRIMARY_OPCODE m \<noteq> None"
  using assms unfolding rot_ops_def
  by (auto simp: has_op_def XO_OPS_def LOG_OPS_def UN_OPS_def PRIMARY_OPCODE_def)

lemma step_rot:
  assumes m: "m \<in> set rot_ops" and i: "i = mform m opc rs ra sh mb me rc"
  shows "machine_step v i pc st = rot_op i st"
proof -
  note F = rot_ops_facts [OF m]
  have mi: "i_m i = m" by (simp add: i mform_def mk_Insn_def)
  have "legal v i st = Ret () st" "\<not> i_fpop i"
    using F(6) by (auto intro!: legal_plain simp: i mform_def mk_Insn_def is_spr_def)
  then show ?thesis
    using F unfolding machine_step_def Let_def mi by (simp only: run_bind outcome.case if_False if_True insert_iff empty_iff simp_thms) simp
qed

lemma rotate_family_step:
  assumes ok: "regs_ok st" and s: "holds st rs s" and old: "holds st ra old" and m: "m \<in> set rot_ops"
    and sh: "if m = ''rlwnm'' then holds st sh n else in_field 5 sh \<and> n = sh"
    and f: "in_field 5 mb" "in_field 5 me" and rc: "is_bit rc"
  shows "\<exists>r. rotate_evaluate m s n mb me old rc (carry st) (ov_of st) (so st) (cr0_of st) = Inr (Some r) \<and>
    machine_step v (mform m opc rs ra sh mb me rc) pc st = Ret PNone (write_back ra r st)"
proof -
  define i where "i = mform m opc rs ra sh mb me rc"
  have mi: "i_m i = m" by (simp add: i_def mform_def mk_Insn_def)
  have fl: "fld i A_rs = retM rs" "fld i A_ra = retM ra" "fld i A_sh = retM sh" "fld i A_mb = retM mb" "fld i A_me = retM me" "fld i A_rc = retM rc"
    by (auto simp: fld_def i_def mform_def mk_Insn_def attr_def effect_simps intro!: ext)
  have ret: "bindM (retM x) g = g x" for x and g :: "'q \<Rightarrow> 'p M" by (rule ext) (simp add: effect_simps)
  obtain mk where mk: "ppc_mask mb me = Inr (Some mk)" "in_field 32 mk" using ppc_mask_returns [OF f] by blast
  have lift: "liftM (Inr x) = retM x" for x :: "int option" by (rule ext) (simp add: effect_simps)
  have gm: "liftM (gen_mask mb me) = retM (Some mk)" by (simp add: gen_mask_ppc [OF f] mk(1) lift)
  have fields: "in_field 32 s" "in_field 32 old" "in_field 5 ra" using s old by (auto simp: holds_def)
  have am: "rotate_left s (n AND 31) = rotate_left s n" by (simp add: rotate_left_def Let_def and_mask5)
  have rl: "in_field 32 (rotate_left s n)" by (simp add: rotate_left_def Let_def and_mask32)
  define r where "r = (if m = ''rlwimi'' then (rotate_left s n AND mk) OR (old AND NOT mk) else rotate_left s n AND mk)"
  have om: "old AND NOT mk AND M32 = old AND NOT mk"
    by (rule and_not_M32 [OF fields(2)])
  have r32: "in_field 32 r" using mk(2) rl fields(2) unfolding r_def by (auto intro: in_field_or in_field_and)
  have cnt: "(if m \<noteq> ''rlwnm'' then retM sh else bindM (gint sh) (\<lambda>x. retM (x AND 31))) st = Ret (if m = ''rlwnm'' then n AND 31 else n) st"
    using sh by (auto simp: effect_simps gint_holds [OF ok])
  have old_step: "(if m = ''rlwimi'' then bindM (gint ra) (\<lambda>old. retM ((rotate_left s n AND mk) OR (old AND NOT mk AND M32))) else retM (rotate_left s n AND mk)) st = Ret r st"
    using gint_holds [OF ok old] by (simp add: effect_simps om r_def)
  have run: "rot_op i st = Ret PNone (write_back ra \<lparr>r_value = r, r_ca = carry st, r_ov = ov_of st, r_so = so st,
      r_cr0 = (if rc \<noteq> 0 then cr0_relation r OR so st else cr0_of st)\<rparr> st)"
    using finish_run [OF ok fields(3) rc flag_bits(1) [of st] r32, unfolded xer_same [OF ok]]
    unfolding rot_op_def fl ret mi gm Let_def rotl_rotate_left option.case
    by (simp add: run_bind(1) cnt gint_holds [OF ok s] am old_step if_distrib [of "rotate_left s"] cong: if_cong)
  have ev: "rotate_evaluate m s n mb me old rc (carry st) (ov_of st) (so st) (cr0_of st) = Inr (Some \<lparr>r_value = r, r_ca = carry st,
      r_ov = ov_of st, r_so = so st, r_cr0 = (if rc \<noteq> 0 then cr0_relation r OR so st else cr0_of st)\<rparr>)"
  proof -
    have t: "take_bit 32 (if m = ''rlwimi'' then (rotate_left s n AND mk) OR (take_bit 32 old AND NOT mk) else rotate_left s n AND mk) = r"
      using in_field_take_bit [OF r32] unfolding in_field_take_bit [OF fields(2)] r_def .
    have shc: "(if m \<noteq> ''rlwnm'' then check_five_bits n ''sh'' ''value'' else Inr n) = Inr n" using sh by simp
    show ?thesis
      unfolding rotate_evaluate_def Let_def and_mask32 shc mk(1) if_not_P [OF rot_ops_facts(7) [OF m]] using rc cr0_nibble [OF ok]
      by (simp add: t del: take_bit_and take_bit_or split del: if_split cong: if_cong)
  qed
  show ?thesis
    unfolding i_def [symmetric] step_rot [OF m i_def] run ev by blast
qed


section \<open>Compares\<close>

definition cmp_ops :: "string list" where
  "cmp_ops = [''cmp'', ''cmpi'', ''cmpl'', ''cmpli'']"

lemma cmp_ops_facts:
  assumes "m \<in> set cmp_ops"
  shows "\<not> has_op XO_OPS m" "\<not> has_op LOG_OPS m" "\<not> has_op UN_OPS m" "m \<in> {''cmp'', ''cmpi'', ''cmpl'', ''cmpli''}" "m \<noteq> ''external''"
    "m \<notin> {''srawi'', ''addi'', ''addis'', ''addic'', ''addic.'', ''subfic'', ''mulli'', ''andi.'', ''andis.'', ''ori'', ''oris'', ''xori'', ''xoris'',
      ''rlwinm'', ''rlwnm'', ''rlwimi'', ''eciwx'', ''ecowx'', ''mfspr'', ''mtspr''}" "ENCODINGS m \<noteq> None"
  using assms unfolding cmp_ops_def
  by (auto simp: has_op_def XO_OPS_def LOG_OPS_def UN_OPS_def ENCODINGS_def)

lemma step_cmp:
  assumes m: "m \<in> set cmp_ops" and i: "i = cmp_insn m bf ra x"
  shows "machine_step v i pc st = cmp_op i st"
proof -
  note F = cmp_ops_facts [OF m]
  have mi: "i_m i = m" by (simp add: i cmp_insn_def mk_Insn_def)
  have "legal v i st = Ret () st" "\<not> i_fpop i"
    using F(6) by (simp_all add: legal_plain i cmp_insn_def mk_Insn_def is_spr_def)
  then show ?thesis
    using F unfolding machine_step_def Let_def mi by (simp only: run_bind outcome.case if_False if_True insert_iff empty_iff simp_thms) simp
qed

lemma simm16_field:
  assumes "0 \<le> i" "i < 2 ^ 16"
  shows "simm16 i = (if i AND 0x8000 \<noteq> 0 then i - 2 ^ 16 else i)"
proof -
  have p: "push_bit 16 i AND M32 = push_bit 16 i"
    using assms by (simp add: M32_take take_bit_push_bit take_bit_int_eq_self push_bit_eq_mult)
  have b: "push_bit 16 i AND 0x80000000 \<noteq> 0 \<longleftrightarrow> i AND 0x8000 \<noteq> 0"
    using and_sign32 [of "push_bit 16 i"] bit_iff_and_push_bit_not_eq_0 [of i 15] by (simp add: bit_push_bit_iff)
  show ?thesis
    unfolding simm16_def s32_def Let_def p using b by (simp add: drop_bit_eq_div push_bit_eq_mult)
qed

lemma cmp_operands_run:
  assumes ok: "regs_ok st" and m: "m \<in> set cmp_ops" and a: "holds st ra a"
    and x: "if m \<in> {''cmp'', ''cmpl''} then holds st x b else in_field 16 x \<and> b = x"
  obtains b' where "compare_rhs m b = Inr b'"
    "cmp_operands (cmp_insn m bf ra x) st = Ret (if m = ''cmp'' \<or> m = ''cmpi'' then (signed32 a, signed32 b') else (a, b')) st"
proof (cases "m \<in> {''cmp'', ''cmpl''}")
  case True
  then have b: "holds st x b" "b AND 0xFFFFFFFF = b" using x in_take [of b] by (auto simp: holds_def)
  have f: "fld (cmp_insn m bf ra x) A_ra = retM ra" "fld (cmp_insn m bf ra x) A_rb = retM x" "i_m (cmp_insn m bf ra x) = m"
    using True by (auto simp: fld_def cmp_insn_def mk_Insn_def attr_def effect_simps intro!: ext)
  show ?thesis
  proof (rule that [of b])
    show "compare_rhs m b = Inr b" using True b(2) by (auto simp: compare_rhs_def)
    show "cmp_operands (cmp_insn m bf ra x) st = Ret (if m = ''cmp'' \<or> m = ''cmpi'' then (signed32 a, signed32 b) else (a, b)) st"
      using True unfolding cmp_operands_def f
      by (auto simp: run_bind run_effects gint_holds [OF ok a] gint_holds [OF ok b(1)] s32_signed32)
  qed
next
  case False
  then have b: "in_field 16 x" "b = x" and m': "m = ''cmpi'' \<or> m = ''cmpli''" using x m by (auto simp: cmp_ops_def)
  have x16: "0 \<le> x" "x < 2 ^ 16" "x AND 0xFFFF = x" using b(1) by (auto simp: in_field_def and_mask16 take_bit_int_eq_self)
  have f: "fld (cmp_insn m bf ra x) A_ra = retM ra" "fld (cmp_insn m bf ra x) A_imm = retM x" "i_m (cmp_insn m bf ra x) = m"
    using m' x16(3) by (auto simp: fld_def cmp_insn_def mk_Insn_def attr_def effect_simps intro!: ext)
  let ?b = "if m = ''cmpi'' then simm16 x else x"
  have sm: "simm16 x = signed32 (simm16 x)"
    unfolding simm16_field [OF x16(1,2)] using x16 by (subst signed32_small) auto
  show ?thesis
  proof (rule that [of ?b])
    show "compare_rhs m b = Inr ?b" using m' x16 b(2) simm16_field [OF x16(1,2)] by (auto simp: compare_rhs_def)
    show "cmp_operands (cmp_insn m bf ra x) st = Ret (if m = ''cmp'' \<or> m = ''cmpi'' then (signed32 a, signed32 ?b) else (a, ?b)) st"
      using m' sm unfolding cmp_operands_def f by (auto simp: run_bind run_effects gint_holds [OF ok a] s32_signed32)
  qed
qed

lemma compare_family_step:
  assumes ok: "regs_ok st" and m: "m \<in> set cmp_ops" and a: "holds st ra a"
    and x: "if m \<in> {''cmp'', ''cmpl''} then holds st x b else in_field 16 x \<and> b = x"
    and bf: "0 \<le> bf" "bf < 8"
  shows "\<exists>r. compare_evaluate m a b bf 0 (carry st) (ov_of st) (so st) (s_cr st) = Inr r \<and>
    machine_step v (cmp_insn m bf ra x) pc st = Ret PNone (st\<lparr>s_cr := cmp_cr r\<rparr>)"
proof -
  obtain b' where b: "compare_rhs m b = Inr b'"
    and ops: "cmp_operands (cmp_insn m bf ra x) st = Ret (if m = ''cmp'' \<or> m = ''cmpi'' then (signed32 a, signed32 b') else (a, b')) st"
    using cmp_operands_run [OF ok m a x, of bf] by metis
  have a32: "in_field 32 a" using a by (simp add: holds_def)
  have cr32: "in_field 32 (s_cr st)" using ok by (simp add: regs_ok_def)
  obtain l r where lr: "(if m = ''cmp'' \<or> m = ''cmpi'' then (signed32 a, signed32 b') else (a, b')) = (l, r)" by fastforce
  let ?c = "(if l < r then 8 else if l > r then 4 else 2) OR so st"
  let ?p = "nat (28 - 4 * bf)"
  have nib: "in_field 4 ?c" by (rule in_field_nibbles) auto
  have cr: "(s_cr st AND NOT (push_bit ?p 0xF) AND M32) OR push_bit ?p (?c AND 0xF) = (s_cr st AND NOT (push_bit ?p 0xF)) OR push_bit ?p ?c"
  proof -
    have "?c AND 0xF = ?c" using nib by (simp add: in_field_iff take_bit_eq_mask mask_eq_exp_minus_1)
    moreover have "s_cr st AND NOT (push_bit ?p 0xF) AND M32 = s_cr st AND NOT (push_bit ?p 0xF)"
      by (rule and_not_M32 [OF cr32])
    ultimately show ?thesis by simp
  qed
  have f: "fld (cmp_insn m bf ra x) A_bf = retM bf"
    by (rule ext) (simp add: fld_def cmp_insn_def mk_Insn_def attr_def effect_simps)
  have "cmp_op (cmp_insn m bf ra x) st = Ret PNone (st\<lparr>s_cr := (s_cr st AND NOT (push_bit ?p 0xF)) OR push_bit ?p ?c\<rparr>)"
    unfolding cmp_op_def f using bf cr by (simp add: run_bind run_effects ops lr setcrf_def neg_check_def Let_def)
  moreover have "compare_evaluate m a b bf 0 (carry st) (ov_of st) (so st) (s_cr st) = Inr \<lparr>cmp_cr = (s_cr st AND NOT (push_bit ?p 0xF)) OR push_bit ?p ?c,
      cmp_field = ?c, cmp_ca = carry st, cmp_ov = ov_of st, cmp_so = so st\<rparr>"
  proof -
    have sc: "0 \<le> s_cr st" "s_cr st \<le> 0xFFFFFFFF" using cr32 by (auto simp: in_field_def)
    have am: "a AND 0xFFFFFFFF = a" by (rule in_take [OF a32])
    show ?thesis
      unfolding compare_evaluate_def Let_def am b using cmp_ops_facts(7) [OF m] bf sc by (simp add: lr)
  qed
  ultimately show ?thesis unfolding step_cmp [OF m refl] by (intro exI conjI) (assumption, simp only: CompareResult.simps)
qed


section \<open>Properties\<close>

text \<open>
  C20: the instruction-set model of the self-test and the family evaluators are two
  programs for the same instructions, and they agree.  From a state whose operand
  registers hold 32-bit numbers, executing any instruction of the add, logical or
  shift family (add, addc, adde, addme, addze; and, andc, or, orc, xor, nand, nor, eqv;
  slw, srw, sraw and srawi) returns, and the state it leaves is the old one with the
  target register, XER[CA, OV, SO] and CR0 replaced by what \<open>evaluate\<close> of the family gives
  for the same operands and flags; nothing else changes.
\<close>

theorem machine_matches_families:
  assumes ok: "regs_ok st" and a: "holds st ra a" and b: "holds st rb b" and d: "in_field 5 rd"
    and bits: "is_bit oe" "is_bit rc" and sh: "in_field 5 sh"
  shows "list_all (\<lambda>m. \<exists>i r. xo m rd ra rb oe rc = Inr i \<and>
      add_evaluate m a b (carry st) oe rc (ov_of st) (so st) (cr0_of st) = Inr r \<and>
      machine_step v i pc st = Ret PNone (write_back rd r st)) add_ops \<and>
    list_all (\<lambda>m. \<exists>i r. logx m rd ra rb rc = Inr i \<and>
      logical_evaluate m a b rc (carry st) (ov_of st) (so st) (cr0_of st) = Inr r \<and>
      machine_step v i pc st = Ret PNone (write_back rd r st)) log_ops \<and>
    list_all (\<lambda>m. \<exists>i r. logx m rd ra rb rc = Inr i \<and>
      shift_evaluate m a b rc (carry st) (ov_of st) (so st) (cr0_of st) = Inr r \<and>
      machine_step v i pc st = Ret PNone (write_back rd r st)) shift_ops \<and>
    (\<exists>r. shift_evaluate ''srawi'' a sh rc (carry st) (ov_of st) (so st) (cr0_of st) = Inr r \<and>
      machine_step v (srawi rd ra sh rc) pc st = Ret PNone (write_back rd r st))"
  unfolding list_all_iff
  using srawi_family_step [OF ok a d sh bits(2)] add_family_step [OF ok a b d _ bits] logical_family_step [OF ok a b d _ bits(2)]
    shift_family_step [OF ok a b d _ bits(2)] by blast

definition sample_state :: mstate where
  "sample_state = default_state\<lparr>s_gpr := (s_gpr default_state)[3 := PInt 0x7FFFFFFF, 4 := PInt 0x80000001], s_xer := 0x80000000\<rparr>"

lemma sample_ok: "regs_ok sample_state" "holds sample_state 3 0x7FFFFFFF" "holds sample_state 4 0x80000001"
  by (simp_all add: regs_ok_def holds_def sample_state_def default_state_def in_field_def)

theorem machine_matches_families_witness:
  "\<exists>i r. xo ''adde'' 5 3 4 1 1 = Inr i \<and> add_evaluate ''adde'' 0x7FFFFFFF 0x80000001 0 1 1 0 1 0 = Inr r \<and> r_cr0 r = 3 \<and> r_ca r = 1 \<and>
     (\<forall>v pc. machine_step v i pc sample_state = Ret PNone (write_back 5 r sample_state))"
proof -
  have st: "carry sample_state = 0" "ov_of sample_state = 0" "so sample_state = 1" "cr0_of sample_state = 0"
    by (simp_all add: carry_def ov_of_def so_def cr0_of_def sample_state_def default_state_def)
  have m: "list_all P add_ops \<Longrightarrow> P ''adde''" for P by (simp add: add_ops_def)
  obtain i where i: "xo ''adde'' 5 3 4 1 1 = Inr i" by (simp add: xo_def keyed_def XO_OPS_def)
  have ev: "add_evaluate ''adde'' 0x7FFFFFFF 0x80000001 0 1 1 0 1 0 = Inr \<lparr>r_value = 0, r_ca = 1, r_ov = 0, r_so = 1, r_cr0 = 3\<rparr>"
    by code_simp
  have "\<exists>i r. xo ''adde'' 5 3 4 1 1 = Inr i \<and> add_evaluate ''adde'' 0x7FFFFFFF 0x80000001 0 1 1 0 1 0 = Inr r \<and>
      machine_step v i pc sample_state = Ret PNone (write_back 5 r sample_state)" for v pc
    using m [OF conjunct1 [OF machine_matches_families [OF sample_ok, of 5 1 1 5 v pc]]] by (simp add: st in_field_def)
  then show ?thesis using i ev by fastforce
qed

text \<open>
  C21: likewise for the rotate and compare instructions.  A rotate (whose mask loop
  returns for every MB and ME) leaves what \<open>rotate_family.evaluate\<close> gives, a compare only
  replaces CR by what \<open>compare_family.evaluate\<close> gives; the second operand is a register
  or an immediate field according to the form.
\<close>

theorem machine_matches_rotate_compare:
  assumes ok: "regs_ok st" and a: "holds st ra a" and s: "holds st rs s" and n: "holds st rb n" and imm: "in_field 5 sh" "in_field 16 i"
    and f: "in_field 5 mb" "in_field 5 me" "in_field 3 bf" and rc: "is_bit rc"
  shows "list_all (\<lambda>(m, field, amount). \<exists>r.
      rotate_evaluate m s amount mb me a rc (carry st) (ov_of st) (so st) (cr0_of st) = Inr (Some r) \<and>
      machine_step v (mform m opc rs ra field mb me rc) pc st = Ret PNone (write_back ra r st))
    [(''rlwinm'', sh, sh), (''rlwnm'', rb, n), (''rlwimi'', sh, sh)] \<and>
   list_all (\<lambda>(m, field, rhs). \<exists>r.
      compare_evaluate m a rhs bf 0 (carry st) (ov_of st) (so st) (s_cr st) = Inr r \<and>
      machine_step v (cmp_insn m bf ra field) pc st = Ret PNone (st\<lparr>s_cr := cmp_cr r\<rparr>))
    [(''cmp'', rb, n), (''cmpi'', i, i), (''cmpl'', rb, n), (''cmpli'', i, i)]"
proof -
  have rot: "\<exists>r. rotate_evaluate m s amount mb me a rc (carry st) (ov_of st) (so st) (cr0_of st) = Inr (Some r) \<and>
      machine_step v (mform m opc rs ra field mb me rc) pc st = Ret PNone (write_back ra r st)"
    if "m \<in> set rot_ops" "if m = ''rlwnm'' then holds st field amount else in_field 5 field \<and> amount = field" for m field amount
    using rotate_family_step [OF ok s a that f(1,2) rc] .
  have bf: "0 \<le> bf" "bf < 8" using f(3) by (simp_all add: in_field_def)
  have cmp: "\<exists>r. compare_evaluate m a rhs bf 0 (carry st) (ov_of st) (so st) (s_cr st) = Inr r \<and>
      machine_step v (cmp_insn m bf ra field) pc st = Ret PNone (st\<lparr>s_cr := cmp_cr r\<rparr>)"
    if "m \<in> set cmp_ops" "if m \<in> {''cmp'', ''cmpl''} then holds st field rhs else in_field 16 field \<and> rhs = field" for m field rhs
    using compare_family_step [OF ok that(1) a that(2) bf] .
  show ?thesis
        using rot [of "''rlwinm''" sh sh] rot [of "''rlwnm''" rb n] rot [of "''rlwimi''" sh sh]
      cmp [of "''cmp''" rb n] cmp [of "''cmpi''" i i] cmp [of "''cmpl''" rb n] cmp [of "''cmpli''" i i] n imm
    by (simp add: rot_ops_def cmp_ops_def)
qed

theorem machine_matches_rotate_compare_witness:
  "\<exists>r. compare_evaluate ''cmpi'' 0x7FFFFFFF 0xFFFF 2 0 0 0 1 0 = Inr r \<and> cmp_cr r = 0x00500000 \<and>
     (\<forall>v pc. machine_step v (cmp_insn ''cmpi'' 2 3 0xFFFF) pc sample_state = Ret PNone (sample_state\<lparr>s_cr := cmp_cr r\<rparr>))"
proof -
  have st: "carry sample_state = 0" "ov_of sample_state = 0" "so sample_state = 1" "s_cr sample_state = 0"
    by (simp_all add: carry_def ov_of_def so_def sample_state_def default_state_def)
  have ev: "compare_evaluate ''cmpi'' 0x7FFFFFFF 0xFFFF 2 0 0 0 1 0 = Inr \<lparr>cmp_cr = 0x00500000, cmp_field = 5, cmp_ca = 0, cmp_ov = 0, cmp_so = 1\<rparr>"
    by code_simp
  have "list_all (\<lambda>(m, field, rhs). \<exists>r.
      compare_evaluate m 0x7FFFFFFF rhs 2 0 0 0 1 0 = Inr r \<and>
      machine_step v (cmp_insn m 2 3 field) pc sample_state = Ret PNone (sample_state\<lparr>s_cr := cmp_cr r\<rparr>))
    [(''cmp'', 4, 0x80000001), (''cmpi'', 0xFFFF, 0xFFFF), (''cmpl'', 4, 0x80000001), (''cmpli'', 0xFFFF, 0xFFFF)]" for v pc
    using conjunct2 [OF machine_matches_rotate_compare [OF sample_ok(1,2,3,3), where sh = 5 and i = 65535 and mb = 1 and me = 2 and bf = 2 and rc = 1 and v = v and opc = 20 and pc = pc]]
    by (simp only: st) (simp add: in_field_def)
  then have "\<exists>r. compare_evaluate ''cmpi'' 0x7FFFFFFF 0xFFFF 2 0 0 0 1 0 = Inr r \<and>
      machine_step v (cmp_insn ''cmpi'' 2 3 0xFFFF) pc sample_state = Ret PNone (sample_state\<lparr>s_cr := cmp_cr r\<rparr>)" for v pc by simp
  then show ?thesis unfolding ev by auto
qed

section \<open>Addresses below the read-only window\<close>

text \<open>
  \<open>xlate_data\<close> tests only the upper end of the read-only window, so with data translation
  on every store below the window is reported as a protection fault.
\<close>

lemma xlate_below_window:
  assumes "0 \<le> ea" "ea < RO_EA" "s_msr st AND MSR_DR \<noteq> 0"
  shows "xlate_data ea True st = raiseM (dsi ea 0x0A000000) st"
proof -
  have "ea AND M32 = ea" using assms(1,2) by (simp add: M32_def RO_EA_def and_mask32 take_bit_int_eq_self)
  then show ?thesis using assms by (simp add: xlate_data_def msr_has_def getM_def bindM_def RO_EA_def BAT_BYTES_def)
qed

end
