(* ===== verification/Bat.thy ===== *)
theory Bat
  imports Dict
begin

text \<open>
  Block address translation.  \<open>sim/tools/bat_vectors.py\<close> holds two oracles for one
  access against a bank of BAT pairs: \<open>expected\<close> works with intervals and first
  diagnoses the bank (malformed entries, overlaps), \<open>expected_stored\<close> works with bit
  masks on a bank that nobody has checked, as the BAT service stores it.
  \<open>sim/tools/bat_service_vectors.py\<close> puts a register service in front of the second
  oracle.  The theory shows that the two oracles agree on every bank the first one
  accepts, that the stored oracle picks the lowest-numbered match, and that the
  service is a register file with write masks.
\<close>

section \<open>The oracles\<close>

record bat_controls =
  ct_valid :: bool
  ct_instruction :: bool
  ct_write :: bool
  ct_ir :: bool
  ct_dr :: bool
  ct_user :: bool

definition bat_controls_of :: "int \<Rightarrow> bat_controls" where
  "bat_controls_of controls = (let b = (\<lambda>n. drop_bit n controls AND 1 \<noteq> 0)
     in \<lparr>ct_valid = b 5, ct_instruction = b 4, ct_write = b 3, ct_ir = b 2, ct_dr = b 1, ct_user = b 0\<rparr>)"

text \<open>The tuple \<open>entries\<close> collects for one pair.\<close>

record bat_entry =
  be_enabled :: int
  be_base :: int
  be_limit :: int
  be_physical :: int
  be_malformed :: bool
  be_wimg :: int
  be_pp :: int

definition bat_length :: "int \<Rightarrow> int" where
  "bat_length upper = (upper div 4) mod 2048"

definition bat_decode :: "bool \<Rightarrow> int \<times> int \<Rightarrow> bat_entry" where
  "bat_decode instruction = (\<lambda>(upper, lower).
     let enabled = upper mod 4;
         size = 131072 * (bat_length upper + 1);
         base = (upper div 131072) * 131072;
         physical = (lower div 131072) * 131072;
         legal = ((bat_length upper + 1) AND bat_length upper = 0);
         reserved = ((upper div 8192) mod 16 \<noteq> 0 \<or> (lower div 128) mod 1024 \<noteq> 0 \<or> (lower div 4) mod 2 \<noteq> 0);
         malformed = (enabled \<noteq> 0 \<and> (\<not> legal \<or> reserved \<or> base mod size \<noteq> 0 \<or> physical mod size \<noteq> 0 \<or>
                        (instruction \<and> (lower div 64) mod 2 \<noteq> 0)))
     in \<lparr>be_enabled = enabled, be_base = base, be_limit = base + size, be_physical = physical,
         be_malformed = malformed, be_wimg = (lower div 8) mod 16, be_pp = lower mod 4\<rparr>)"

text \<open>\<open>m |= 1 << index\<close> for every element that satisfies the test.\<close>

definition flag_where :: "('a \<Rightarrow> bool) \<Rightarrow> 'a list \<Rightarrow> int" where
  "flag_where P xs = foldl (\<lambda>m (index, x). if P x then m OR push_bit index 1 else m) 0 (enumerate 0 xs)"

definition bat_clash :: "bat_entry \<Rightarrow> bat_entry \<Rightarrow> bool" where
  "bat_clash a b = (be_enabled a AND be_enabled b \<noteq> 0 \<and> \<not> be_malformed a \<and> \<not> be_malformed b \<and>
     max (be_base a) (be_base b) < min (be_limit a) (be_limit b))"

fun bat_overlap :: "bat_entry list \<Rightarrow> bool" where
  "bat_overlap [] = False"
| "bat_overlap (a # es) = (list_ex (bat_clash a) es \<or> bat_overlap es)"

text \<open>Translation off: the effective address is the physical one.\<close>

definition bat_bypass :: "bool \<Rightarrow> int \<Rightarrow> int" where
  "bat_bypass instruction ea =
     push_bit 56 1 OR push_bit 55 1 OR push_bit 6 ea OR push_bit 2 (if instruction then 1 else 3)"

text \<open>The response of a hit; \<open>matched\<close> is the mask of matching entries.\<close>

definition bat_hit :: "bool \<Rightarrow> bool \<Rightarrow> int \<Rightarrow> int \<Rightarrow> int \<Rightarrow> int \<Rightarrow> int \<Rightarrow> int" where
  "bat_hit instruction write matched index pa wimg0 pp =
     (let denied = (pp = 0 \<or> (write \<and> pp \<noteq> 2));
          wimg = (if instruction then wimg0 AND NOT 1 else wimg0);
          guarded = False;
          allow = (\<not> denied \<and> \<not> guarded);
          pa = (if allow then pa else 0)
      in push_bit 56 (of_bool allow) OR push_bit 54 1 OR push_bit 52 (of_bool denied) OR push_bit 51 (of_bool guarded) OR
         push_bit 40 matched OR push_bit 38 index OR push_bit 6 pa OR push_bit 2 wimg OR pp)"

definition bat_select :: "bool \<Rightarrow> int" where
  "bat_select user = (if user then 1 else 2)"

definition bat_expected :: "int \<Rightarrow> int \<Rightarrow> (int \<times> int) list \<Rightarrow> int result" where
  "bat_expected controls ea pairs =
     (let c = bat_controls_of controls; instruction = ct_instruction c; write = ct_write c in
      if \<not> ct_valid c then Inr 0
      else
        let entries = map (bat_decode instruction) pairs;
            bad = flag_where be_malformed entries;
            overlap = bat_overlap entries;
            invalid = (instruction \<and> write) in
        if bad \<noteq> 0 \<or> overlap \<or> invalid
        then Inr (push_bit 50 1 OR push_bit 49 (of_bool invalid) OR push_bit 48 (of_bool overlap) OR push_bit 44 bad)
        else if \<not> (if instruction then ct_ir c else ct_dr c) then Inr (bat_bypass instruction ea)
        else
          case filter (\<lambda>(i, e). be_enabled e AND bat_select (ct_user c) \<noteq> 0 \<and> be_base e \<le> ea \<and> ea < be_limit e) (enumerate 0 entries) of
            [] \<Rightarrow> Inr (push_bit 53 1)
          | [(index, e)] \<Rightarrow> Inr (bat_hit instruction write (push_bit index 1) (int index) (be_physical e + (ea - be_base e)) (be_wimg e) (be_pp e))
          | _ \<Rightarrow> Inl (AssertionError ''len(matches) == 1''))"

definition bat_offset :: "int \<Rightarrow> int" where
  "bat_offset upper = bat_length upper * 131072 + 131071"

definition bat_stored_match :: "bool \<Rightarrow> int \<Rightarrow> int \<times> int \<Rightarrow> bool" where
  "bat_stored_match user ea = (\<lambda>(upper, lower).
     upper AND bat_select user \<noteq> 0 \<and> ea AND NOT (bat_offset upper) = upper AND 0xFFFE0000)"

definition bat_expected_stored :: "int \<Rightarrow> int \<Rightarrow> (int \<times> int) list \<Rightarrow> int result" where
  "bat_expected_stored controls ea pairs =
     (let c = bat_controls_of controls; instruction = ct_instruction c; write = ct_write c in
      if \<not> ct_valid c then Inr 0
      else if instruction \<and> write then Inr (push_bit 50 1 OR push_bit 49 1)
      else if \<not> (if instruction then ct_ir c else ct_dr c) then Inr (bat_bypass instruction ea)
      else
        let matched = flag_where (bat_stored_match (ct_user c) ea) pairs in
        if matched = 0 then Inr (push_bit 53 1)
        else let index = bit_length (matched AND - matched) - 1 in
          bindR (py_get pairs index) (\<lambda>(upper, lower).
            Inr (bat_hit instruction write matched index
              ((lower AND 0xFFFE0000) OR (ea AND bat_offset upper)) ((lower div 8) mod 16) (lower mod 4))))"

section \<open>Masks of matching entries\<close>

lemma bit_push_one: "bit (push_bit n (1::int)) k \<longleftrightarrow> k = n"
  by (auto simp: bit_push_bit_iff bit_1_iff simp del: push_bit_of_1)

lemma bit_flag_fold:
  "bit (foldl (\<lambda>m (i, x). if P x then m OR push_bit i 1 else m) acc (enumerate n xs)) k \<longleftrightarrow>
     bit acc k \<or> (n \<le> k \<and> k < n + length xs \<and> P (xs ! (k - n)))" for acc :: int
proof (induction xs arbitrary: n acc)
  case (Cons x xs)
  have "bit (push_bit n (1::int)) k \<longleftrightarrow> k = n" by (rule bit_push_one)
  moreover have "(x # xs) ! (k - n) = (if k = n then x else xs ! (k - Suc n))" if "n \<le> k"
    using that by (auto simp: nth_Cons' )
  ultimately show ?case
    by (auto simp: Cons.IH bit_or_iff split: if_splits simp del: push_bit_of_1)
qed auto

lemma bit_flag_where: "bit (flag_where P xs) k \<longleftrightarrow> k < length xs \<and> P (xs ! k)"
  unfolding flag_where_def by (subst bit_flag_fold) simp

lemma flag_where_0: "flag_where P xs = 0 \<longleftrightarrow> (\<forall>x \<in> set xs. \<not> P x)"
proof -
  have "flag_where P xs = 0 \<longleftrightarrow> (\<forall>k. \<not> bit (flag_where P xs) k)" by (metis bit_0_eq bit_eqI bot_apply bot_bool_def)
  then show ?thesis unfolding bit_flag_where by (metis in_set_conv_nth)
qed

lemma flag_where_single:
  assumes "k < length xs" "P (xs ! k)" "\<And>j. j < length xs \<Longrightarrow> P (xs ! j) \<Longrightarrow> j = k"
  shows "flag_where P xs = push_bit k 1"
proof (rule bit_eqI)
  fix n show "bit (flag_where P xs) n = bit (push_bit k (1::int)) n"
    unfolding bit_flag_where bit_push_one using assms(1,2) assms(3) [of n] by blast
qed

text \<open>\<open>m & -m\<close> isolates the lowest set bit.\<close>

lemma lowest_bit:
  fixes m :: int
  assumes "bit m k" "\<And>j. j < k \<Longrightarrow> \<not> bit m j"
  shows "m AND - m = 2 ^ k"
proof -
  define y where "y = drop_bit k m"
  have m: "m = push_bit k y"
  proof (rule bit_eqI)
    fix n show "bit m n = bit (push_bit k y) n"
      using assms(2) [of n] by (cases "n < k") (simp_all add: y_def bit_push_bit_iff bit_drop_bit_eq)
  qed
  have odd: "odd y" using assms(1) by (simp add: y_def bit_iff_odd_drop_bit)
  then obtain z where z: "y = 2 * z + 1" by (rule oddE)
  have "- y = 2 * (NOT z) + 1" by (simp add: z not_int_def)
  then have "y AND - y = 1 + 2 * (z AND NOT z)" using and_int_rec [of y "- y"] by (simp add: z)
  then have "y AND - y = 1" by simp
  moreover have "- m = push_bit k (- y)" by (simp add: m push_bit_minus)
  ultimately show ?thesis by (simp add: m flip: push_bit_and)
qed

lemma bit_length_power: "bit_length (2 ^ k) = int k + 1"
  by (induction k) (simp_all add: bit_length.simps [of 1] bit_length.simps [of 0] bit_length.simps [of "2 * 2 ^ _"])

lemma lowest_index:
  assumes "k < length xs" "P (xs ! k)" "\<And>j. j < k \<Longrightarrow> \<not> P (xs ! j)"
  shows "bit_length (flag_where P xs AND - flag_where P xs) - 1 = int k"
proof -
  have "flag_where P xs AND - flag_where P xs = 2 ^ k"
    by (rule lowest_bit) (use assms in \<open>auto simp: bit_flag_where\<close>)
  then show ?thesis by (simp only: bit_length_power)
qed


section \<open>Well-formed entries\<close>

lemma power_of_two:
  fixes n :: int
  assumes "0 < n" "n AND (n - 1) = 0"
  shows "\<exists>p. n = 2 ^ p"
  using assms
proof (induction "nat n" arbitrary: n rule: less_induct)
  case less
  show ?case
  proof (cases "even n")
    case True
    then obtain z where z: "n = 2 * z" by (rule evenE)
    have "(n - 1) div 2 = z - 1" using z by linarith
    then have "n AND (n - 1) = 2 * (z AND (z - 1))" using and_int_rec [of n "n - 1"] by (simp add: z)
    then obtain p where "z = 2 ^ p" using less.hyps [of z] less.prems z by auto
    then show ?thesis using z by (intro exI [of _ "Suc p"]) simp
  next
    case False
    then obtain z where z: "n = 2 * z + 1" by (rule oddE)
    have "n AND (n - 1) = 2 * z" using and_int_rec [of n "n - 1"] by (simp add: z)
    then show ?thesis using less.prems z by (intro exI [of _ 0]) simp
  qed
qed

lemma and_not_mask_int: "x AND NOT (2 ^ q - 1) = (x div 2 ^ q) * 2 ^ q" for x :: int
proof -
  have "x AND NOT (mask q) = push_bit q (drop_bit q x)"
    by (rule bit_eqI) (auto simp: bit_and_iff bit_not_iff bit_mask_iff bit_push_bit_iff bit_drop_bit_eq linorder_not_less)
  then show ?thesis by (simp add: mask_eq_exp_minus_1 push_bit_eq_mult drop_bit_eq_div)
qed

lemma high_field:
  assumes "in_field 32 x"
  shows "x AND 0xFFFE0000 = (x div 131072) * 131072"
proof -
  have "(0xFFFE0000 :: int) = NOT (mask 17) AND mask 32" by (simp add: mask_eq_exp_minus_1)
  then have "x AND 0xFFFE0000 = (x AND mask 32) AND NOT (mask 17)" by (simp only: ac_simps)
  also have "x AND mask 32 = x" using assms by (simp add: in_field_iff take_bit_eq_mask)
  finally show ?thesis using and_not_mask_int [of x 17] by (simp add: mask_eq_exp_minus_1)
qed

lemma or_low_eq_add:
  fixes x y :: int
  assumes "y mod 2 ^ q = 0"
  shows "y OR (x AND (2 ^ q - 1)) = y + x mod 2 ^ q"
proof -
  have x: "x AND (2 ^ q - 1) = x mod 2 ^ q" by (simp add: take_bit_eq_mod flip: mask_eq_exp_minus_1 take_bit_eq_mask)
  have "y AND (x mod 2 ^ q) = 0"
  proof (rule bit_eqI)
    fix n
    have "\<not> bit y n" if "n < q"
      using that assms bit_take_bit_iff [of q y n] by (simp add: take_bit_eq_mod)
    then show "bit (y AND (x mod 2 ^ q)) n = bit 0 n"
      by (auto simp: bit_and_iff bit_take_bit_iff simp flip: take_bit_eq_mod)
  qed
  then show ?thesis unfolding x by (simp add: disjunctive_add_eq_or)
qed

text \<open>An enabled entry that is not malformed covers an aligned block of a power-of-two size.\<close>

lemma bat_malformed_iff:
  "be_malformed (bat_decode instr (u, l)) \<longleftrightarrow> u mod 4 \<noteq> 0 \<and>
     ((bat_length u + 1) AND bat_length u \<noteq> 0 \<or> (u div 8192) mod 16 \<noteq> 0 \<or> (l div 128) mod 1024 \<noteq> 0 \<or> (l div 4) mod 2 \<noteq> 0 \<or>
      (u div 131072) * 131072 mod (131072 * (bat_length u + 1)) \<noteq> 0 \<or>
      (l div 131072) * 131072 mod (131072 * (bat_length u + 1)) \<noteq> 0 \<or> (instr \<and> (l div 64) mod 2 \<noteq> 0))"
  unfolding bat_decode_def Let_def prod.case bat_entry.simps by (simp only: disj_assoc not_not)

lemma entry_block:
  assumes "in_field 32 u" "in_field 32 l" "u mod 4 \<noteq> 0" "\<not> be_malformed (bat_decode instr (u, l))"
  obtains q where "bat_offset u = 2 ^ q - 1" "131072 * (bat_length u + 1) = 2 ^ q"
    "(u AND 0xFFFE0000) mod 2 ^ q = 0" "(l AND 0xFFFE0000) mod 2 ^ q = 0"
proof -
  note wf = assms(3) assms(4) [unfolded bat_malformed_iff]
  have "0 \<le> bat_length u" unfolding bat_length_def by (rule pos_mod_sign) simp
  then have len: "0 < bat_length u + 1" by linarith
  have "(bat_length u + 1) AND (bat_length u + 1 - 1) = 0" using wf unfolding add_diff_cancel_right' by blast
  from power_of_two [OF len this] obtain p where p: "bat_length u + 1 = 2 ^ p" by blast
  define q where "q = 17 + p"
  have size: "131072 * (bat_length u + 1) = 2 ^ q" by (simp add: p q_def power_add)
  have off: "bat_offset u = 2 ^ q - 1" unfolding size [symmetric] by (simp add: bat_offset_def)
  show ?thesis
    by (rule that [OF off size]) (use wf in \<open>unfold high_field [OF assms(1)] high_field [OF assms(2)] size, blast+\<close>)
qed

lemma aligned_block:
  fixes b ea :: int
  assumes "b mod 2 ^ q = 0"
  shows "(ea div 2 ^ q) * 2 ^ q = b \<longleftrightarrow> b \<le> ea \<and> ea < b + 2 ^ q"
proof -
  obtain k where k: "b = k * 2 ^ q" using assms by (metis mod_0_imp_dvd dvd_def mult.commute)
  have "(ea div 2 ^ q) * 2 ^ q = b \<longleftrightarrow> ea div 2 ^ q = k" by (simp add: k)
  also have "\<dots> \<longleftrightarrow> k * 2 ^ q \<le> ea \<and> ea < (k + 1) * 2 ^ q"
  proof
    assume "ea div 2 ^ q = k"
    then have "ea = k * 2 ^ q + ea mod 2 ^ q" using div_mult_mod_eq [of ea "2 ^ q"] by simp
    then show "k * 2 ^ q \<le> ea \<and> ea < (k + 1) * 2 ^ q"
      using pos_mod_bound [of "2 ^ q" ea] pos_mod_sign [of "2 ^ q" ea] zero_less_power [of "2 :: int" q]
      unfolding distrib_right by linarith
  next
    assume "k * 2 ^ q \<le> ea \<and> ea < (k + 1) * 2 ^ q"
    then show "ea div 2 ^ q = k"
      using int_div_pos_eq [of ea "2 ^ q" k "ea - k * 2 ^ q"] by (simp add: algebra_simps)
  qed
  finally show ?thesis by (simp add: k algebra_simps)
qed


lemma enabled_select: "(u mod 4) AND bat_select user = u AND bat_select user"
proof -
  have "u mod 4 = take_bit 2 u" by (simp add: take_bit_eq_mod)
  moreover have "take_bit 2 u AND bat_select user = u AND bat_select user"
  proof (rule bit_eqI)
    fix n
    have "bit (bat_select user) n \<Longrightarrow> n < 2"
      using bit_push_one [of 1 n] by (auto simp: bat_select_def bit_1_iff split: if_splits)
    then show "bit (take_bit 2 u AND bat_select user) n = bit (u AND bat_select user) n" by (auto simp: bit_and_iff bit_take_bit_iff)
  qed
  ultimately show ?thesis by simp
qed

text \<open>On a good entry the interval test and the mask test are the same, and so are the addresses.\<close>

lemma entry_match:
  assumes "in_field 32 u" "in_field 32 l" "\<not> be_malformed (bat_decode instr (u, l))"
  defines "e \<equiv> bat_decode instr (u, l)"
  shows "be_enabled e AND bat_select user \<noteq> 0 \<and> be_base e \<le> ea \<and> ea < be_limit e \<longleftrightarrow> bat_stored_match user ea (u, l)"
    and "bat_stored_match user ea (u, l) \<Longrightarrow> be_physical e + (ea - be_base e) = (l AND 0xFFFE0000) OR (ea AND bat_offset u)"
proof -
  have e: "be_enabled e = u mod 4" "be_base e = u AND 0xFFFE0000" "be_physical e = l AND 0xFFFE0000"
    "be_limit e = (u AND 0xFFFE0000) + 131072 * (bat_length u + 1)"
    unfolding e_def bat_decode_def Let_def prod.case bat_entry.simps high_field [OF assms(1)] high_field [OF assms(2)] by (rule refl)+
  have en: "u mod 4 \<noteq> 0" if "u AND bat_select user \<noteq> 0" using that enabled_select [of u user] by auto
  have blk: "(ea AND NOT (bat_offset u) = u AND 0xFFFE0000 \<longleftrightarrow> be_base e \<le> ea \<and> ea < be_limit e) \<and>
      (ea AND NOT (bat_offset u) = u AND 0xFFFE0000 \<longrightarrow>
        be_physical e + (ea - be_base e) = (l AND 0xFFFE0000) OR (ea AND bat_offset u))" if "u AND bat_select user \<noteq> 0"
  proof -
    note sel = that
    obtain q where q: "bat_offset u = 2 ^ q - 1" "131072 * (bat_length u + 1) = 2 ^ q"
      "(u AND 0xFFFE0000) mod 2 ^ q = 0" "(l AND 0xFFFE0000) mod 2 ^ q = 0"
      using entry_block [OF assms(1,2) en [OF sel] assms(3)] .
    have "ea - (ea div 2 ^ q) * 2 ^ q = ea mod 2 ^ q" by (simp add: minus_div_mult_eq_mod)
    then show ?thesis
      unfolding e q(1,2) and_not_mask_int aligned_block [OF q(3)] or_low_eq_add [OF q(4)]
      using aligned_block [OF q(3), of ea] by auto
  qed
  then show "be_enabled e AND bat_select user \<noteq> 0 \<and> be_base e \<le> ea \<and> ea < be_limit e \<longleftrightarrow> bat_stored_match user ea (u, l)"
    and "bat_stored_match user ea (u, l) \<Longrightarrow> be_physical e + (ea - be_base e) = (l AND 0xFFFE0000) OR (ea AND bat_offset u)"
    unfolding e(1) bat_stored_match_def prod.case enabled_select by blast+
qed

lemma no_overlap_nth:
  assumes "\<not> bat_overlap es" "i < j" "j < length es"
  shows "\<not> bat_clash (es ! i) (es ! j)"
  using assms
proof (induction es arbitrary: i j)
  case (Cons a es)
  then show ?case by (cases i; cases j) (auto simp: list_ex_iff)
qed simp


section \<open>Both oracles on a bank without diagnostics\<close>

definition bank_ok :: "bool \<Rightarrow> (int \<times> int) list \<Rightarrow> bool" where
  "bank_ok instruction pairs = (let es = map (bat_decode instruction) pairs
     in list_all (\<lambda>e. \<not> be_malformed e) es \<and> \<not> bat_overlap es)"

definition pairs32 :: "(int \<times> int) list \<Rightarrow> bool" where
  "pairs32 pairs = list_all (\<lambda>(u, l). in_field 32 u \<and> in_field 32 l) pairs"

lemma bank_ok_iff: "bank_ok instr pairs \<longleftrightarrow>
    flag_where be_malformed (map (bat_decode instr) pairs) = 0 \<and> \<not> bat_overlap (map (bat_decode instr) pairs)"
  by (simp add: bank_ok_def flag_where_0 list_all_iff Let_def)

lemma distinct_singleton: "distinct ys \<Longrightarrow> set ys = {a} \<Longrightarrow> ys = [a]"
  by (cases ys; cases "tl ys") auto

lemma filter_enumerate_unique:
  assumes "k < length xs" "P (k, xs ! k)" "\<And>j. j < length xs \<Longrightarrow> P (j, xs ! j) \<Longrightarrow> j = k"
  shows "filter P (enumerate 0 xs) = [(k, xs ! k)]"
proof -
  have "set (filter P (enumerate 0 xs)) = {(k, xs ! k)}"
  proof (rule set_eqI)
    fix z :: "nat \<times> 'a"
    obtain j x where z: "z = (j, x)" by fastforce
    show "z \<in> set (filter P (enumerate 0 xs)) \<longleftrightarrow> z \<in> {(k, xs ! k)}"
      using assms(1,2) assms(3) [of j] unfolding z set_filter mem_Collect_eq in_set_enumerate_eq by auto
  qed
  moreover have "distinct (filter P (enumerate 0 xs))" by (simp add: distinct_enumerate)
  ultimately show ?thesis by (rule distinct_singleton [rotated])
qed

lemma unique_match:
  assumes "pairs32 pairs" "bank_ok instr pairs" "i < length pairs" "j < length pairs"
    and "bat_stored_match user ea (pairs ! i)" "bat_stored_match user ea (pairs ! j)"
  shows "i = j"
proof (rule ccontr)
  assume "i \<noteq> j"
  define a b where "a = min i j" and "b = max i j"
  have ab: "a < b" "b < length pairs" "bat_stored_match user ea (pairs ! a)" "bat_stored_match user ea (pairs ! b)"
    using assms(3-6) \<open>i \<noteq> j\<close> by (auto simp: a_def b_def min_def max_def)
  let ?e = "\<lambda>k. bat_decode instr (pairs ! k)"
  have ok: "\<not> be_malformed (?e k)" "in_field 32 (fst (pairs ! k))" "in_field 32 (snd (pairs ! k))" if "k < length pairs" for k
    using assms(1,2) that by (auto simp: bank_ok_def pairs32_def list_all_length Let_def case_prod_beta)
  have m: "be_enabled (?e k) AND bat_select user \<noteq> 0" "be_base (?e k) \<le> ea" "ea < be_limit (?e k)"
    if "k < length pairs" "bat_stored_match user ea (pairs ! k)" for k
    using entry_match(1) [of "fst (pairs ! k)" "snd (pairs ! k)" instr user ea] ok [OF that(1)] that(2) by simp_all
  have sel: "x AND y \<noteq> 0" if "x AND bat_select user \<noteq> 0" "y AND bat_select user \<noteq> 0" for x y :: int
  proof -
    have "bit x (if user then 0 else 1)" "bit y (if user then 0 else 1)"
      using that by (auto simp: bat_select_def bit_iff_and_push_bit_not_eq_0 split: if_splits)
    then show ?thesis by (metis bit_0_eq bit_and_iff bot_apply bot_bool_def)
  qed
  have "bat_clash (?e a) (?e b)"
    unfolding bat_clash_def using ab m [of a] m [of b] ok(1) [of a] ok(1) [of b] sel by auto
  then show False
    using no_overlap_nth [of "map (bat_decode instr) pairs" a b] ab(1,2) assms(2) by (simp add: bank_ok_def Let_def)
qed

lemma if_simps_ok: "is_ok (if b then r else s) = (if b then is_ok r else is_ok s)" "is_ok (Inr x) = True" "(if b then True else True) = True"
  "(r = r) = True" "(True \<and> True) = True"
  by simp_all

lemma bat_decode_fields: "be_wimg (bat_decode i (u, l)) = (l div 8) mod 16" "be_pp (bat_decode i (u, l)) = l mod 4"
  unfolding bat_decode_def Let_def prod.case bat_entry.simps by (rule refl)+

lemma oracles_agree:
  assumes p: "pairs32 pairs" and ok: "bank_ok (ct_instruction (bat_controls_of controls)) pairs"
  shows "bat_expected controls ea pairs = bat_expected_stored controls ea pairs \<and> is_ok (bat_expected controls ea pairs)"
proof -
  define c where "c = bat_controls_of controls"
  let ?I = "ct_instruction c" and ?es = "map (bat_decode (ct_instruction c)) pairs"
  let ?m = "bat_stored_match (ct_user c) ea"
  let ?t = "\<lambda>(i :: nat, e). be_enabled e AND bat_select (ct_user c) \<noteq> 0 \<and> be_base e \<le> ea \<and> ea < be_limit e"
  have ok': "bank_ok ?I pairs" using ok by (simp add: c_def)
  have ent: "\<not> be_malformed (bat_decode ?I (pairs ! k))" "in_field 32 (fst (pairs ! k))" "in_field 32 (snd (pairs ! k))" if "k < length pairs" for k
    using p ok' that by (auto simp: bank_ok_def pairs32_def list_all_length Let_def case_prod_beta)
  have t: "?t (k, ?es ! k) \<longleftrightarrow> ?m (pairs ! k)" if "k < length pairs" for k
    using entry_match(1) [of "fst (pairs ! k)" "snd (pairs ! k)" ?I "ct_user c" ea] ent [OF that] that by simp
  have E: "bat_expected controls ea pairs =
      (if \<not> ct_valid c then Inr 0 else if ?I \<and> ct_write c then Inr (push_bit 50 1 OR push_bit 49 1)
       else if \<not> (if ?I then ct_ir c else ct_dr c) then Inr (bat_bypass ?I ea)
       else case filter ?t (enumerate 0 ?es) of
            [] \<Rightarrow> Inr (push_bit 53 1)
          | [(index, e)] \<Rightarrow> Inr (bat_hit ?I (ct_write c) (push_bit index 1) (int index) (be_physical e + (ea - be_base e)) (be_wimg e) (be_pp e))
          | _ \<Rightarrow> Inl (AssertionError ''len(matches) == 1''))"
  proof -
    have bad: "flag_where be_malformed ?es = 0" and ov: "bat_overlap ?es = False" using ok' by (auto simp: bank_ok_iff)
    show ?thesis unfolding bat_expected_def Let_def c_def [symmetric] bad ov
      by (simp only: simp_thms of_bool_eq push_bit_0_id id_apply or.right_neutral push_bit_of_0 if_True if_False cong: if_cong)
  qed
  show ?thesis
  proof (cases "\<exists>k < length pairs. ?m (pairs ! k)")
    case True
    then obtain k where k: "k < length pairs" "?m (pairs ! k)" by blast
    have uniq: "j < length pairs \<Longrightarrow> ?m (pairs ! j) \<Longrightarrow> j = k" for j using unique_match [OF p ok' _ k(1) _ k(2)] by blast
    have f: "filter ?t (enumerate 0 ?es) = [(k, ?es ! k)]"
    proof (rule filter_enumerate_unique)
      show "k < length ?es" using k(1) by simp
      show "?t (k, ?es ! k)" using t [OF k(1)] k(2) by blast
      fix j assume "j < length ?es" and j: "?t (j, ?es ! j)"
      then have "j < length pairs" by simp
      then show "j = k" using j t [of j] uniq by blast
    qed
    have w: "flag_where ?m pairs = push_bit k 1" using flag_where_single [of k pairs ?m] k uniq by blast
    have nz: "flag_where ?m pairs \<noteq> 0" using k nth_mem [of k pairs] unfolding flag_where_0 by blast
    have idx: "bit_length (flag_where ?m pairs AND - flag_where ?m pairs) - 1 = int k"
    proof (rule lowest_index [where P = ?m, OF k])
      fix j assume "j < k" then show "\<not> ?m (pairs ! j)" using uniq [of j] k(1) by auto
    qed
    obtain u l where ul: "pairs ! k = (u, l)" by fastforce
    have ek: "?es ! k = bat_decode ?I (u, l)" using k(1) ul by simp
    have pa: "be_physical (?es ! k) + (ea - be_base (?es ! k)) = (l AND 0xFFFE0000) OR (ea AND bat_offset u)"
      unfolding ek using entry_match(2) [of u l ?I "ct_user c" ea] ent [OF k(1)] k(2) unfolding ul fst_conv snd_conv by blast
    have a: "be_wimg (?es ! k) = (l div 8) mod 16" "be_pp (?es ! k) = l mod 4"
      unfolding ek by (rule bat_decode_fields)+
    have S: "bat_expected_stored controls ea pairs =
      (if \<not> ct_valid c then Inr 0 else if ?I \<and> ct_write c then Inr (push_bit 50 1 OR push_bit 49 1)
       else if \<not> (if ?I then ct_ir c else ct_dr c) then Inr (bat_bypass ?I ea)
       else Inr (bat_hit ?I (ct_write c) (push_bit k 1) (int k) ((l AND 0xFFFE0000) OR (ea AND bat_offset u)) ((l div 8) mod 16) (l mod 4)))"
    proof -
      have "py_get pairs (int k) = Inr (u, l)" using k(1) ul by simp
      then show ?thesis
        unfolding bat_expected_stored_def Let_def c_def [symmetric] idx if_not_P [OF nz] by (simp only: w bindR_Inr prod.case)
    qed
    show ?thesis unfolding E S f list.case prod.case pa a by (simp only: if_simps_ok)
  next
    case False
    have "\<not> ?t (j, x)" if "(j, x) \<in> set (enumerate 0 ?es)" for j x
    proof -
      have "j < length pairs" "x = ?es ! j" using that by (auto simp: in_set_enumerate_eq)
      then show ?thesis using t [of j] False by blast
    qed
    then have f: "filter ?t (enumerate 0 ?es) = []" unfolding filter_empty_conv by blast
    have "flag_where ?m pairs = 0" using False unfolding flag_where_0 by (metis in_set_conv_nth)
    then show ?thesis unfolding E f bat_expected_stored_def Let_def c_def [symmetric] list.case by (simp only: if_simps_ok if_True refl cong: if_cong)
  qed
qed


section \<open>The register service\<close>

text \<open>\<open>Model\<close>: two banks (instruction, data) of four pairs, and the counters.\<close>

record bat_model =
  bm_banks :: "(int \<times> int) list list"
  bm_translation :: int
  bm_write :: int
  bm_read :: int
  bm_privileged :: int
  bm_unsupported :: int

definition bat_reset :: bat_model where
  "bat_reset = \<lparr>bm_banks = replicate 2 (replicate 4 (0, 0)), bm_translation = 0, bm_write = 0, bm_read = 0,
     bm_privileged = 0, bm_unsupported = 0\<rparr>"

record bat_request =
  bq_kind :: int
  bq_ea :: int
  bq_spr :: int
  bq_data :: int
  bq_ir :: int
  bq_dr :: int
  bq_pr :: int

text \<open>Bank, entry and half (upper or lower register) that an SPR number selects.\<close>

definition bat_place :: "int \<Rightarrow> nat \<times> nat \<times> bool" where
  "bat_place spr = (let bank = (spr - 528) div 8; half = (spr - 528) mod 8
     in (nat bank, nat (half div 2), half mod 2 \<noteq> 0))"

definition write_mask :: "bool \<Rightarrow> int" where
  "write_mask lower = (if lower then 0xFFFE007B else 0xFFFE1FFF)"

definition get_half :: "bool \<Rightarrow> int \<times> int \<Rightarrow> int" where
  "get_half lower p = (if lower then snd p else fst p)"

definition set_half :: "bool \<Rightarrow> int \<Rightarrow> int \<times> int \<Rightarrow> int \<times> int" where
  "set_half lower v p = (if lower then (fst p, v) else (v, snd p))"

definition bat_response :: "bat_request \<Rightarrow> int" where
  "bat_response q = bq_kind q * 2 ^ 134 + bq_ea q * 2 ^ 102 + bq_spr q * 2 ^ 92"

definition bat_accept :: "bat_model \<Rightarrow> bat_request \<Rightarrow> (int \<times> bat_model) result" where
  "bat_accept m q =
     (let response = bat_response q; kind = bq_kind q in
      if kind \<le> 2
      then let controls = 32 + of_bool (kind = 0) * 16 + of_bool (kind = 2) * 8 + bq_ir q * 4 + bq_dr q * 2 + bq_pr q in
           bindR (bat_expected_stored controls (bq_ea q) (bm_banks m ! (if kind \<noteq> 0 then 1 else 0))) (\<lambda>t.
           Inr (response + t, m\<lparr>bm_translation := bm_translation m + 1\<rparr>))
      else if kind \<notin> {3, 4} \<or> \<not> (528 \<le> bq_spr q \<and> bq_spr q \<le> 543)
      then Inr (response + 2 ^ 58, m\<lparr>bm_unsupported := bm_unsupported m + 1\<rparr>)
      else if bq_pr q \<noteq> 0
      then Inr (response + 2 ^ 59, m\<lparr>bm_privileged := bm_privileged m + 1\<rparr>)
      else case bat_place (bq_spr q) of (bank, entry, lower) \<Rightarrow>
        if kind = 3
        then Inr (response + get_half lower (bm_banks m ! bank ! entry) * 2 ^ 60, m\<lparr>bm_read := bm_read m + 1\<rparr>)
        else let data = bq_data q AND write_mask lower;
                 candidate = (bm_banks m ! bank)[entry := set_half lower data (bm_banks m ! bank ! entry)]
             in Inr (response, m\<lparr>bm_write := bm_write m + 1, bm_banks := (bm_banks m)[bank := candidate]\<rparr>))"

text \<open>Two banks of four pairs of 32-bit values.\<close>

definition bat_wf :: "bat_model \<Rightarrow> bool" where
  "bat_wf m \<longleftrightarrow> length (bm_banks m) = 2 \<and> list_all (\<lambda>b. length b = 4 \<and> pairs32 b) (bm_banks m)"

definition bat_register :: "bat_model \<Rightarrow> int \<Rightarrow> int" where
  "bat_register m spr = (case bat_place spr of (bank, entry, lower) \<Rightarrow> get_half lower (bm_banks m ! bank ! entry))"

definition is_bat_spr :: "int \<Rightarrow> bool" where
  "is_bat_spr spr \<longleftrightarrow> 528 \<le> spr \<and> spr \<le> 543"

lemma bat_place_range:
  assumes "is_bat_spr spr" "bat_place spr = (b, e, l)"
  shows "b < 2" "e < 4" "spr = 528 + 8 * int b + 2 * int e + of_bool l"
proof -
  have r: "0 \<le> spr - 528" "spr - 528 < 16" using assms(1) by (auto simp: is_bat_spr_def)
  have d: "b = nat ((spr - 528) div 8)" "e = nat ((spr - 528) mod 8 div 2)" "l = ((spr - 528) mod 8 mod 2 \<noteq> 0)"
    using assms(2) by (auto simp: bat_place_def Let_def)
  show "b < 2" using r unfolding d by (simp add: nat_less_iff; presburger)
  have "(spr - 528) mod 8 div 2 < 4" by presburger
  then show "e < 4" unfolding d by (simp add: nat_less_iff)
  show "spr = 528 + 8 * int b + 2 * int e + of_bool l"
    using r unfolding d by (simp add: pos_imp_zdiv_nonneg_iff of_bool_def; presburger)
qed

lemma bat_place_inj: "is_bat_spr s \<Longrightarrow> is_bat_spr t \<Longrightarrow> bat_place s = bat_place t \<Longrightarrow> s = t"
  using bat_place_range(3) by (metis prod_cases3)

lemma stored_returns:
  "\<exists>t. bat_expected_stored controls ea pairs = Inr t"
proof (cases "\<exists>k < length pairs. bat_stored_match (ct_user (bat_controls_of controls)) ea (pairs ! k)")
  case True
  let ?m = "bat_stored_match (ct_user (bat_controls_of controls)) ea"
  define k where "k = (LEAST k. k < length pairs \<and> ?m (pairs ! k))"
  have k: "k < length pairs" "?m (pairs ! k)" using LeastI_ex [OF True] by (auto simp: k_def)
  have low: "\<not> ?m (pairs ! j)" if "j < k" for j using not_less_Least [of j "\<lambda>k. k < length pairs \<and> ?m (pairs ! k)"] that k(1) unfolding k_def by auto
  have "bit_length (flag_where ?m pairs AND - flag_where ?m pairs) - 1 = int k" by (rule lowest_index [OF k(1)]) (use k low in auto)
  then show ?thesis using k(1) by (simp add: bat_expected_stored_def Let_def case_prod_beta)
next
  case False
  then have "flag_where (bat_stored_match (ct_user (bat_controls_of controls)) ea) pairs = 0" unfolding flag_where_0 by (metis in_set_conv_nth)
  then show ?thesis by (simp add: bat_expected_stored_def Let_def)
qed


lemma place_nth:
  assumes "bat_wf m" "is_bat_spr spr" "bat_place spr = (b, e, l)"
  shows "b < length (bm_banks m)" "e < length (bm_banks m ! b)" "pairs32 (bm_banks m ! b)"
proof -
  note r = bat_place_range [OF assms(2,3)]
  have "b < length (bm_banks m)" using r(1) assms(1) by (simp add: bat_wf_def)
  moreover from this have "length (bm_banks m ! b) = 4 \<and> pairs32 (bm_banks m ! b)"
    using assms(1) by (simp add: bat_wf_def list_all_length)
  ultimately show "b < length (bm_banks m)" "e < length (bm_banks m ! b)" "pairs32 (bm_banks m ! b)" using r(2) by auto
qed

lemma half_simps [simp]:
  "get_half l (set_half l v p) = v" "l \<noteq> l' \<Longrightarrow> get_half l' (set_half l v p) = get_half l' p"
  by (auto simp: get_half_def set_half_def)

lemma register_write:
  assumes "bat_wf m" "is_bat_spr s" "is_bat_spr t" "bat_place s = (b, e, l)"
  shows "bat_register (m\<lparr>bm_write := n, bm_banks := (bm_banks m)[b := (bm_banks m ! b)[e := set_half l v (bm_banks m ! b ! e)]]\<rparr>) t =
    (if t = s then v else bat_register m t)"
proof -
  obtain b' e' l' where t: "bat_place t = (b', e', l')" using prod_cases3 by blast
  note r = place_nth [OF assms(1,2,4)]
  have "t = s \<longleftrightarrow> b' = b \<and> e' = e \<and> l' = l"
    using bat_place_inj [OF assms(2,3)] t assms(4) by auto
  then show ?thesis using r(1,2)
    by (cases "b' = b"; cases "e' = e"; cases "l' = l") (auto simp: bat_register_def t assms(4) nth_list_update)
qed

lemma pairs32_update: "pairs32 ps \<Longrightarrow> in_field 32 u \<Longrightarrow> in_field 32 l \<Longrightarrow> pairs32 (ps[e := (u, l)])"
  by (auto simp: pairs32_def list_all_iff dest!: set_update_subset_insert [THEN subsetD])

lemma write_mask_field: "in_field 32 (d AND write_mask l)"
proof -
  have "in_field 32 (write_mask l)" by (simp add: write_mask_def in_field_def)
  then have "in_field 32 (write_mask l AND d)" by (rule in_field_and)
  then show ?thesis by (simp add: and.commute)
qed

lemma accept_cases:
  assumes "bat_wf m"
  obtains (tr) t where "bq_kind q \<le> 2" "bat_accept m q = Inr (bat_response q + t, m\<lparr>bm_translation := bm_translation m + 1\<rparr>)"
  | (unsup) "bat_accept m q = Inr (bat_response q + 2 ^ 58, m\<lparr>bm_unsupported := bm_unsupported m + 1\<rparr>)"
      "bq_kind q \<notin> {3, 4} \<or> \<not> is_bat_spr (bq_spr q)"
  | (priv) "bat_accept m q = Inr (bat_response q + 2 ^ 59, m\<lparr>bm_privileged := bm_privileged m + 1\<rparr>)" "bq_pr q \<noteq> 0"
  | (rd) "bq_kind q = 3" "is_bat_spr (bq_spr q)" "bq_pr q = 0"
      "bat_accept m q = Inr (bat_response q + bat_register m (bq_spr q) * 2 ^ 60, m\<lparr>bm_read := bm_read m + 1\<rparr>)"
  | (wr) b e l where "bq_kind q = 4" "is_bat_spr (bq_spr q)" "bq_pr q = 0" "bat_place (bq_spr q) = (b, e, l)"
      "bat_accept m q = Inr (bat_response q, m\<lparr>bm_write := bm_write m + 1, bm_banks := (bm_banks m)[b :=
         (bm_banks m ! b)[e := set_half l (bq_data q AND write_mask l) (bm_banks m ! b ! e)]]\<rparr>)"
proof -
  obtain b e l where p: "bat_place (bq_spr q) = (b, e, l)" using prod_cases3 by blast
  consider "bq_kind q \<le> 2" | "2 < bq_kind q" "bq_kind q \<notin> {3, 4} \<or> \<not> is_bat_spr (bq_spr q)"
    | "bq_kind q \<in> {3, 4}" "is_bat_spr (bq_spr q)" "bq_pr q \<noteq> 0" | "bq_kind q = 3" "is_bat_spr (bq_spr q)" "bq_pr q = 0"
    | "bq_kind q = 4" "is_bat_spr (bq_spr q)" "bq_pr q = 0" by fastforce
  then show ?thesis
  proof cases
    case 1
    let ?c = "32 + of_bool (bq_kind q = 0) * 16 + of_bool (bq_kind q = 2) * 8 + bq_ir q * 4 + bq_dr q * 2 + bq_pr q"
    obtain t where "bat_expected_stored ?c (bq_ea q) (bm_banks m ! (if bq_kind q \<noteq> 0 then 1 else 0)) = Inr t"
      using stored_returns by blast
    then show ?thesis using 1 tr by (simp add: bat_accept_def Let_def)
  next
    case 2
    then show ?thesis using unsup by (simp add: bat_accept_def Let_def is_bat_spr_def)
  next
    case 3
    then show ?thesis using priv by (auto simp: bat_accept_def Let_def is_bat_spr_def)
  next
    case 4
    then show ?thesis using rd p by (simp add: bat_accept_def Let_def is_bat_spr_def bat_register_def)
  next
    case 5
    then show ?thesis using wr p by (simp add: bat_accept_def Let_def is_bat_spr_def)
  qed
qed

definition bat_step :: "bat_model \<Rightarrow> bat_request \<Rightarrow> bat_model" where
  "bat_step m q = (case bat_accept m q of Inl _ \<Rightarrow> m | Inr (_, m') \<Rightarrow> m')"

lemma bat_step_wf: "bat_wf m \<Longrightarrow> bat_wf (bat_step m q)"
proof -
  assume wf: "bat_wf m"
  from wf show ?thesis
  proof (cases rule: accept_cases [of m q])
    case (wr b e l)
    let ?p = "set_half l (bq_data q AND write_mask l) (bm_banks m ! b ! e)"
    note n = place_nth [OF wf wr(2,4)]
    obtain x y where xy: "bm_banks m ! b ! e = (x, y)" by fastforce
    have "in_field 32 x \<and> in_field 32 y" using n(3) nth_mem [OF n(2)] xy by (auto simp: pairs32_def list_all_iff)
    then have "pairs32 ((bm_banks m ! b)[e := ?p])"
      using pairs32_update [OF n(3)] write_mask_field [of "bq_data q" l] by (cases l) (simp_all add: set_half_def xy)
    then show ?thesis
      using wf n(1,2) by (auto simp: bat_step_def wr(5) bat_wf_def list_all_length nth_list_update)
  qed (use wf in \<open>simp_all add: bat_step_def bat_wf_def\<close>)
qed

lemma bat_reset_wf: "bat_wf bat_reset"
  by (simp add: bat_wf_def bat_reset_def pairs32_def numeral_nat)

interpretation bat_service: stepper bat_step "\<lambda>_. True" bat_wf
  by unfold_locales (rule bat_step_wf)


section \<open>Properties\<close>

text \<open>
  C3: the two BAT oracles agree.  The interval oracle \<open>expected\<close> and the bit-mask
  oracle \<open>expected_stored\<close> give the same response for every access to a bank of 32-bit
  pairs that has no malformed entry and no overlap, whatever the controls and the address,
  and the \<open>assert len(matches) == 1\<close> never fails; on any other bank \<open>expected\<close>
  still returns (its diagnostic).
\<close>

theorem bat_oracles_agree:
  assumes "pairs32 pairs"
  shows "is_ok (bat_expected controls ea pairs) \<and>
    (bank_ok (ct_instruction (bat_controls_of controls)) pairs \<longrightarrow>
       bat_expected controls ea pairs = bat_expected_stored controls ea pairs)"
proof (cases "bank_ok (ct_instruction (bat_controls_of controls)) pairs")
  case True
  then show ?thesis using oracles_agree [OF assms True, of ea] by metis
next
  case False
  then show ?thesis unfolding bank_ok_iff by (auto simp: bat_expected_def Let_def)
qed

theorem bat_oracles_agree_witness:
  "bat_expected 38 0x20012345 [(0x20000003, 0x6000000A), (0, 0), (0, 0), (0, 0)] =
   bat_expected_stored 38 0x20012345 [(0x20000003, 0x6000000A), (0, 0), (0, 0), (0, 0)]"
proof -
  let ?p = "[(0x20000003, 0x6000000A), (0, 0), (0, 0), (0, 0)] :: (int \<times> int) list"
  have "pairs32 ?p" "bank_ok (ct_instruction (bat_controls_of 38)) ?p" by code_simp+
  then show ?thesis using bat_oracles_agree [of ?p 38 536945477] by simp
qed

text \<open>
  In the stored oracle, with translation on and no instruction write, the
  lowest-numbered matching entry decides: the response is the hit on that entry, with its
  block number, the offset under its length mask, its attributes and protection.
\<close>

theorem lowest_match_wins:
  assumes "ct_valid c" "\<not> (ct_instruction c \<and> ct_write c)" "if ct_instruction c then ct_ir c else ct_dr c"
    and "c = bat_controls_of controls" "k < length pairs" "bat_stored_match (ct_user c) ea (u, l)" "pairs ! k = (u, l)"
    and "\<forall>j < k. \<not> bat_stored_match (ct_user c) ea (pairs ! j)"
  shows "bat_expected_stored controls ea pairs = Inr (bat_hit (ct_instruction c) (ct_write c)
    (flag_where (bat_stored_match (ct_user c) ea) pairs) (int k)
    ((l AND 0xFFFE0000) OR (ea AND bat_offset u)) ((l div 8) mod 16) (l mod 4))"
proof -
  let ?m = "bat_stored_match (ct_user c) ea"
  have m: "?m (pairs ! k)" using assms(6,7) by simp
  have idx: "bit_length (flag_where ?m pairs AND - flag_where ?m pairs) - 1 = int k"
    by (rule lowest_index [OF assms(5)]) (use m assms(8) in auto)
  have "flag_where ?m pairs \<noteq> 0" using m nth_mem [OF assms(5)] unfolding flag_where_0 by blast
  then show ?thesis
    unfolding bat_expected_stored_def Let_def assms(4) [symmetric] idx using assms(1-3,5) by (simp add: assms(7))
qed

theorem lowest_match_wins_witness:
  "bat_expected_stored 38 0x20000010 [(0, 0), (0x20000003, 0x80000002), (0x20000003, 0x60000002), (0, 0)] =
   Inr (bat_hit False False 6 1 0x80000010 0 2)"
proof -
  let ?p = "[(0, 0), (0x20000003, 0x80000002), (0x20000003, 0x60000002), (0, 0)] :: (int \<times> int) list"
  let ?c = "bat_controls_of 38"
  have "ct_valid ?c" "\<not> (ct_instruction ?c \<and> ct_write ?c)" "if ct_instruction ?c then ct_ir ?c else ct_dr ?c"
    "bat_stored_match (ct_user ?c) 0x20000010 (0x20000003, 0x80000002)" "\<forall>j < 1. \<not> bat_stored_match (ct_user ?c) 0x20000010 (?p ! j)"
    by code_simp+
  note r = lowest_match_wins [OF this(1-3) refl _ this(4) _ this(5)]
  have v: "ct_instruction ?c = False" "ct_write ?c = False" "flag_where (bat_stored_match (ct_user ?c) 0x20000010) ?p = 6"
    "(0x80000002 :: int) AND 0xFFFE0000 OR (0x20000010 AND bat_offset 0x20000003) = 0x80000010" by code_simp+
  show ?thesis using r unfolding v by simp
qed

text \<open>
  The BAT service is a register file.  After any sequence of requests from reset,
  a supervisor write to a BAT register followed by a read of register \<open>t\<close> reports, for
  \<open>t\<close> the register written, the data with its reserved bits cleared, and for any other
  what it held before; the privileged, unsupported, read and translation requests change
  no register.
\<close>

theorem bat_write_then_read:
  assumes "m = foldl bat_step bat_reset qs" and "is_bat_spr s" "is_bat_spr t"
    and "bq_kind w = 4" "bq_spr w = s" "bq_pr w = 0" and "bq_kind r = 3" "bq_spr r = t" "bq_pr r = 0"
  shows "\<exists>m' m''. bat_accept m w = Inr (bat_response w, m') \<and>
    bat_accept m' r = Inr (bat_response r + (if t = s then bq_data w AND write_mask (odd s) else bat_register m t) * 2 ^ 60, m'') \<and>
    bm_banks m'' = bm_banks m' \<and>
    (\<forall>q. bq_kind q = 4 \<and> bq_pr q = 0 \<and> is_bat_spr (bq_spr q) \<or> bm_banks (bat_step m q) = bm_banks m)"
proof -
  have wf: "bat_wf m" unfolding assms(1) by (rule bat_service.run_inv [OF bat_reset_wf]) (simp add: list_all_iff)
  obtain b e l where p: "bat_place s = (b, e, l)" using prod_cases3 by blast
  let ?m' = "bat_step m w"
  have wr: "bat_accept m w = Inr (bat_response w, ?m')" "?m' = m\<lparr>bm_write := bm_write m + 1, bm_banks := (bm_banks m)[b :=
      (bm_banks m ! b)[e := set_half l (bq_data w AND write_mask l) (bm_banks m ! b ! e)]]\<rparr>"
    using assms(2,4-6) p by (simp_all add: bat_accept_def bat_step_def Let_def is_bat_spr_def)
  have rd: "bat_accept ?m' r = Inr (bat_response r + bat_register ?m' t * 2 ^ 60, ?m'\<lparr>bm_read := bm_read ?m' + 1\<rparr>)"
    using assms(3,7-9) by (simp add: bat_accept_def Let_def is_bat_spr_def bat_register_def split: prod.split)
  have odd: "odd s = l" using bat_place_range(3) [OF assms(2) p] by (cases l) simp_all
  have reg: "bat_register ?m' t = (if t = s then bq_data w AND write_mask (odd s) else bat_register m t)"
    unfolding wr(2) odd by (rule register_write [OF wf assms(2,3) p])
  have frame: "bq_kind q = 4 \<and> bq_pr q = 0 \<and> is_bat_spr (bq_spr q) \<or> bm_banks (bat_step m q) = bm_banks m" for q
    using wf by (cases rule: accept_cases [of m q]) (auto simp: bat_step_def)
  show ?thesis
    by (intro exI conjI, rule wr(1), rule rd [unfolded reg]) (simp, use frame in blast)
qed

definition bat_q :: "int \<Rightarrow> int \<Rightarrow> int \<Rightarrow> bat_request" where
  "bat_q kind spr data = \<lparr>bq_kind = kind, bq_ea = 0, bq_spr = spr, bq_data = data, bq_ir = 0, bq_dr = 0, bq_pr = 0\<rparr>"

theorem bat_write_then_read_witness:
  "\<exists>m' m''. bat_accept bat_reset (bat_q 4 537 0xFFFFFFFF) = Inr (bat_response (bat_q 4 537 0xFFFFFFFF), m') \<and>
     bat_accept m' (bat_q 3 537 0) = Inr (bat_response (bat_q 3 537 0) + 0xFFFE007B * 2 ^ 60, m'')"
proof -
  have "(0xFFFFFFFF :: int) AND write_mask True = 0xFFFE007B" by code_simp
  then show ?thesis
    using bat_write_then_read [of bat_reset "[]" 537 537 "bat_q 4 537 4294967295" "bat_q 3 537 0"]
    by (auto simp: is_bat_spr_def bat_q_def)
qed

end
