(* ===== verification/Tlb.thy ===== *)
theory Tlb
  imports Dict
begin

text \<open>
  \<open>sim/tools/tlb_vectors.py\<close>: the page-TLB oracle.  The TLB is a dictionary from slots
  (bank, set, way) to entries and a dictionary of the way to replace next in each set.
  Requests load an entry, invalidate a set, or translate.  The theory shows that the
  oracle never raises and that its responses fit their fields, and that the slots
  implement a map from bank and virtual page to a page-table entry.
\<close>

section \<open>Requests and responses\<close>

record tlb_request =
  tq_kind :: int
  tq_bank :: int
  tq_ea :: int
  tq_vsid :: int
  tq_pr :: int
  tq_ks :: int
  tq_kp :: int
  tq_n :: int
  tq_t :: int
  tq_write :: int
  tq_way :: int
  tq_rpn :: int
  tq_c :: int
  tq_wimg :: int
  tq_pp :: int

record tlb_response =
  ts_kind :: int
  ts_bank :: int
  ts_ea :: int
  ts_allow :: int
  ts_hit :: int
  ts_miss :: int
  ts_pp_fault :: int
  ts_g_fault :: int
  ts_n_fault :: int
  ts_t_unsupported :: int
  ts_needs_c :: int
  ts_privileged :: int
  ts_refill_rejected :: int
  ts_unsupported :: int
  ts_invalid_input :: int
  ts_matched :: int
  ts_way :: int
  ts_pa :: int
  ts_wimg :: int
  ts_pp :: int
  ts_c :: int
  ts_r :: int

definition REQUEST :: "(string \<times> nat) list" where
  "REQUEST = [(''kind'', 2), (''bank'', 1), (''ea'', 32), (''vsid'', 24), (''pr'', 1), (''ks'', 1), (''kp'', 1), (''n'', 1),
     (''t'', 1), (''write'', 1), (''way'', 1), (''rpn'', 20), (''c'', 1), (''wimg'', 4), (''pp'', 2)]"

definition RESPONSE :: "(string \<times> nat) list" where
  "RESPONSE = [(''kind'', 2), (''bank'', 1), (''ea'', 32), (''allow'', 1), (''hit'', 1), (''miss'', 1), (''pp_fault'', 1),
     (''g_fault'', 1), (''n_fault'', 1), (''t_unsupported'', 1), (''needs_c'', 1), (''privileged'', 1),
     (''refill_rejected'', 1), (''unsupported'', 1), (''invalid_input'', 1), (''matched'', 2),
     (''way'', 1), (''pa'', 32), (''wimg'', 4), (''pp'', 2), (''c'', 1), (''r'', 1)]"

text \<open>The dictionaries behind the two records.\<close>

definition request_dict :: "tlb_request \<Rightarrow> (string, int) dict" where
  "request_dict q = [(''kind'', tq_kind q), (''bank'', tq_bank q), (''ea'', tq_ea q), (''vsid'', tq_vsid q), (''pr'', tq_pr q),
     (''ks'', tq_ks q), (''kp'', tq_kp q), (''n'', tq_n q), (''t'', tq_t q), (''write'', tq_write q), (''way'', tq_way q),
     (''rpn'', tq_rpn q), (''c'', tq_c q), (''wimg'', tq_wimg q), (''pp'', tq_pp q)]"

definition response_dict :: "tlb_response \<Rightarrow> (string, int) dict" where
  "response_dict s = [(''kind'', ts_kind s), (''bank'', ts_bank s), (''ea'', ts_ea s), (''allow'', ts_allow s), (''hit'', ts_hit s),
     (''miss'', ts_miss s), (''pp_fault'', ts_pp_fault s), (''g_fault'', ts_g_fault s), (''n_fault'', ts_n_fault s),
     (''t_unsupported'', ts_t_unsupported s), (''needs_c'', ts_needs_c s), (''privileged'', ts_privileged s),
     (''refill_rejected'', ts_refill_rejected s), (''unsupported'', ts_unsupported s), (''invalid_input'', ts_invalid_input s),
     (''matched'', ts_matched s), (''way'', ts_way s), (''pa'', ts_pa s), (''wimg'', ts_wimg s), (''pp'', ts_pp s),
     (''c'', ts_c s), (''r'', ts_r s)]"

text \<open>\<open>pack\<close>: the fields, most significant first; a value too wide for its field raises.\<close>

fun pack_fields :: "(string \<times> nat) list \<Rightarrow> (string, int) dict \<Rightarrow> int \<Rightarrow> int result" where
  "pack_fields [] fs result = Inr result"
| "pack_fields ((name, width) # layout) fs result =
     (let v = (case dict_get fs name of None \<Rightarrow> 0 | Some v \<Rightarrow> v) in
      if \<not> (0 \<le> v \<and> v < 2 ^ width) then Inl (ValueError name)
      else pack_fields layout fs (result * 2 ^ width + v))"

definition tlb_pack :: "(string \<times> nat) list \<Rightarrow> (string, int) dict \<Rightarrow> int result" where
  "tlb_pack layout fs = pack_fields layout fs 0"

section \<open>The model\<close>

record tlb_entry =
  te_key :: "int \<times> int"
  te_rpn :: int
  te_c :: int
  te_wimg :: int
  te_pp :: int

type_synonym tlb_slot = "int \<times> int \<times> int"

record tlb_model =
  tm_sets :: int
  tm_slots :: "(tlb_slot, tlb_entry) dict"
  tm_lru :: "(int \<times> int, int) dict"

definition tlb_init :: "int \<Rightarrow> tlb_model" where
  "tlb_init sets = \<lparr>tm_sets = sets, tm_slots = [], tm_lru = []\<rparr>"

definition PERMISSIONS :: "int list list list" where
  "PERMISSIONS = [[[1, 1], [1, 1], [1, 1], [1, 0]], [[0, 0], [1, 0], [1, 1], [1, 0]]]"

definition permission :: "int \<Rightarrow> int \<Rightarrow> int \<Rightarrow> int result" where
  "permission key_bit pp write =
     bindR (py_get PERMISSIONS key_bit) (\<lambda>t. bindR (py_get t pp) (\<lambda>row. py_get row write))"

definition tlb_page :: "tlb_request \<Rightarrow> int" where
  "tlb_page q = (tq_ea q mod 0x10000000) div 4096"

definition tlb_key :: "tlb_request \<Rightarrow> int \<times> int" where
  "tlb_key q = (tq_vsid q, tlb_page q)"

definition empty_response :: "tlb_request \<Rightarrow> tlb_response" where
  "empty_response q = \<lparr>ts_kind = tq_kind q, ts_bank = tq_bank q, ts_ea = tq_ea q, ts_allow = 0, ts_hit = 0, ts_miss = 0,
     ts_pp_fault = 0, ts_g_fault = 0, ts_n_fault = 0, ts_t_unsupported = 0, ts_needs_c = 0, ts_privileged = 0,
     ts_refill_rejected = 0, ts_unsupported = 0, ts_invalid_input = 0, ts_matched = 0, ts_way = 0, ts_pa = 0,
     ts_wimg = 0, ts_pp = 0, ts_c = 0, ts_r = 0\<rparr>"

definition tlb_matches :: "tlb_model \<Rightarrow> tlb_request \<Rightarrow> (tlb_slot \<times> tlb_entry) list" where
  "tlb_matches m q = filter (\<lambda>(slot, e). fst slot = tq_bank q \<and> te_key e = tlb_key q) (tm_slots m)"

text \<open>A load: a matching entry in the other way goes, the slot is written.\<close>

definition tlb_load :: "tlb_model \<Rightarrow> tlb_request \<Rightarrow> tlb_model" where
  "tlb_load m q =
     (let index = tlb_page q mod tm_sets m;
          kept = foldl (\<lambda>d (slot, _). if snd (snd slot) \<noteq> tq_way q then dict_pop slot d else d) (tm_slots m) (tlb_matches m q);
          e = \<lparr>te_key = tlb_key q, te_rpn = tq_rpn q, te_c = tq_c q, te_wimg = tq_wimg q, te_pp = tq_pp q\<rparr>
      in m\<lparr>tm_lru := dict_set (tq_bank q, index) (1 - tq_way q) (tm_lru m),
           tm_slots := dict_set (tq_bank q, index, tq_way q) e kept\<rparr>)"

text \<open>The response to a hit.\<close>

definition tlb_hit :: "tlb_request \<Rightarrow> int \<Rightarrow> tlb_entry \<Rightarrow> tlb_response result" where
  "tlb_hit q way e =
     (let s = (empty_response q)\<lparr>ts_hit := 1, ts_matched := 2 ^ nat way, ts_way := way, ts_r := 1,
                ts_c := te_c e, ts_wimg := te_wimg e, ts_pp := te_pp e\<rparr>;
          key_bit = (if tq_pr q \<noteq> 0 then tq_kp q else tq_ks q)
      in bindR (permission key_bit (te_pp e) (tq_write q)) (\<lambda>p. Inr (
         if p = 0 then s\<lparr>ts_pp_fault := 1\<rparr>
         else if tq_bank q = 0 \<and> te_wimg e mod 2 \<noteq> 0 then s\<lparr>ts_g_fault := 1\<rparr>
         else if tq_write q \<noteq> 0 \<and> te_c e = 0 then s\<lparr>ts_needs_c := 1\<rparr>
         else s\<lparr>ts_allow := 1, ts_pa := 4096 * te_rpn e + tq_ea q mod 4096\<rparr>)))"

definition tlb_translate :: "tlb_model \<Rightarrow> tlb_request \<Rightarrow> (tlb_response \<times> tlb_model) result" where
  "tlb_translate m q =
     (let s = empty_response q; index = tlb_page q mod tm_sets m in
      if tq_bank q = 0 \<and> tq_write q \<noteq> 0 then Inr (s\<lparr>ts_invalid_input := 1\<rparr>, m)
      else if tq_t q \<noteq> 0 then Inr (s\<lparr>ts_t_unsupported := 1\<rparr>, m)
      else if tq_bank q = 0 \<and> tq_n q \<noteq> 0 then Inr (s\<lparr>ts_n_fault := 1\<rparr>, m)
      else case tlb_matches m q of
        [] \<Rightarrow> Inr (s\<lparr>ts_miss := 1, ts_way := (case dict_get (tm_lru m) (tq_bank q, index) of None \<Rightarrow> 0 | Some w \<Rightarrow> w)\<rparr>, m)
      | [(slot, e)] \<Rightarrow>
          bindR (tlb_hit q (snd (snd slot)) e) (\<lambda>s.
          Inr (s, m\<lparr>tm_lru := dict_set (tq_bank q, index) (1 - snd (snd slot)) (tm_lru m)\<rparr>))
      | _ \<Rightarrow> Inl (AssertionError ''len(matches) == 1''))"

definition tlb_accept :: "tlb_model \<Rightarrow> tlb_request \<Rightarrow> (tlb_response \<times> tlb_model) result" where
  "tlb_accept m q =
     (let s = empty_response q; index = tlb_page q mod tm_sets m in
      if tm_sets m = 0 then Inl ZeroDivisionError
      else if tq_kind q = 1
      then (if tq_pr q \<noteq> 0 then Inr (s\<lparr>ts_privileged := 1\<rparr>, m) else Inr (s, tlb_load m q))
      else if tq_kind q = 2
      then (if tq_pr q \<noteq> 0 then Inr (s\<lparr>ts_privileged := 1\<rparr>, m)
            else Inr (s, m\<lparr>tm_slots := filter (\<lambda>(slot, _). fst (snd slot) \<noteq> index) (tm_slots m)\<rparr>))
      else if tq_kind q = 3 then Inr (s\<lparr>ts_unsupported := 1\<rparr>, m)
      else tlb_translate m q)"

section \<open>Field ranges\<close>

definition request_ok :: "tlb_request \<Rightarrow> bool" where
  "request_ok q = is_ok (tlb_pack REQUEST (request_dict q))"

lemma pack_fields_ok:
  "is_ok (pack_fields layout fs result) \<longleftrightarrow>
     list_all (\<lambda>(name, width). case dict_get fs name of None \<Rightarrow> True | Some v \<Rightarrow> in_field width v) layout"
  by (induction layout fs result rule: pack_fields.induct) (auto simp: Let_def in_field_def split: option.splits)

lemma request_ok_iff:
  "request_ok q \<longleftrightarrow> in_field 2 (tq_kind q) \<and> is_bit (tq_bank q) \<and> in_field 32 (tq_ea q) \<and> in_field 24 (tq_vsid q) \<and>
     is_bit (tq_pr q) \<and> is_bit (tq_ks q) \<and> is_bit (tq_kp q) \<and> is_bit (tq_n q) \<and> is_bit (tq_t q) \<and> is_bit (tq_write q) \<and>
     is_bit (tq_way q) \<and> in_field 20 (tq_rpn q) \<and> is_bit (tq_c q) \<and> in_field 4 (tq_wimg q) \<and> in_field 2 (tq_pp q)"
  unfolding request_ok_def tlb_pack_def pack_fields_ok
  by (simp add: REQUEST_def request_dict_def in_field_is_bit [unfolded One_nat_def])

definition response_ok :: "tlb_response \<Rightarrow> bool" where
  "response_ok s = is_ok (tlb_pack RESPONSE (response_dict s))"

lemma response_ok_iff:
  "response_ok s \<longleftrightarrow> in_field 2 (ts_kind s) \<and> is_bit (ts_bank s) \<and> in_field 32 (ts_ea s) \<and> is_bit (ts_allow s) \<and> is_bit (ts_hit s) \<and>
     is_bit (ts_miss s) \<and> is_bit (ts_pp_fault s) \<and> is_bit (ts_g_fault s) \<and> is_bit (ts_n_fault s) \<and> is_bit (ts_t_unsupported s) \<and>
     is_bit (ts_needs_c s) \<and> is_bit (ts_privileged s) \<and> is_bit (ts_refill_rejected s) \<and> is_bit (ts_unsupported s) \<and>
     is_bit (ts_invalid_input s) \<and> in_field 2 (ts_matched s) \<and> is_bit (ts_way s) \<and> in_field 32 (ts_pa s) \<and> in_field 4 (ts_wimg s) \<and>
     in_field 2 (ts_pp s) \<and> is_bit (ts_c s) \<and> is_bit (ts_r s)"
  unfolding response_ok_def tlb_pack_def pack_fields_ok
  by (simp add: RESPONSE_def response_dict_def in_field_is_bit [unfolded One_nat_def])

lemma empty_response_ok: "request_ok q \<Longrightarrow> response_ok (empty_response q)"
  by (simp add: request_ok_iff response_ok_iff empty_response_def)

lemma tlb_page_field: "in_field 16 (tlb_page q)"
proof -
  have "0 \<le> tq_ea q mod 0x10000000" "tq_ea q mod 0x10000000 < 0x10000000" by simp_all
  then show ?thesis unfolding tlb_page_def in_field_def by (simp; linarith)
qed


section \<open>Well-formed models\<close>

definition slot_ok :: "int \<Rightarrow> tlb_slot \<Rightarrow> tlb_entry \<Rightarrow> bool" where
  "slot_ok sets slot e \<longleftrightarrow> fst (snd slot) = snd (te_key e) mod sets \<and> is_bit (snd (snd slot)) \<and>
     in_field 20 (te_rpn e) \<and> is_bit (te_c e) \<and> in_field 4 (te_wimg e) \<and> in_field 2 (te_pp e)"

definition same_page :: "tlb_slot \<times> tlb_entry \<Rightarrow> tlb_slot \<times> tlb_entry \<Rightarrow> bool" where
  "same_page x y \<longleftrightarrow> fst (fst x) = fst (fst y) \<and> te_key (snd x) = te_key (snd y)"

definition tlb_wf :: "tlb_model \<Rightarrow> bool" where
  "tlb_wf m \<longleftrightarrow> 0 < tm_sets m \<and> dict_wf (tm_slots m) \<and> (\<forall>(slot, e) \<in> set (tm_slots m). slot_ok (tm_sets m) slot e) \<and>
     (\<forall>x \<in> set (tm_slots m). \<forall>y \<in> set (tm_slots m). same_page x y \<longrightarrow> x = y) \<and> (\<forall>(_, w) \<in> set (tm_lru m). is_bit w)"

lemma tlb_wfD:
  assumes "tlb_wf m"
  shows "0 < tm_sets m" "dict_wf (tm_slots m)" "(slot, e) \<in> set (tm_slots m) \<Longrightarrow> slot_ok (tm_sets m) slot e"
    "x \<in> set (tm_slots m) \<Longrightarrow> y \<in> set (tm_slots m) \<Longrightarrow> same_page x y \<Longrightarrow> x = y"
    "dict_get (tm_lru m) k = Some w \<Longrightarrow> is_bit w"
  using assms by (auto simp: tlb_wf_def dest: map_of_SomeD)

lemma tlb_init_wf: "0 < sets \<Longrightarrow> tlb_wf (tlb_init sets)"
  by (simp add: tlb_wf_def tlb_init_def)

lemma set_dict_pop: "x \<in> set (dict_pop k d) \<longleftrightarrow> x \<in> set d \<and> fst x \<noteq> k"
  by (auto simp: AList.delete_eq)

lemma set_dict_set: "dict_wf d \<Longrightarrow> x \<in> set (dict_set k v d) \<longleftrightarrow> x = (k, v) \<or> x \<in> set d \<and> fst x \<noteq> k"
  using dict_item_iff [of "dict_set k v d" "fst x" "snd x"] dict_item_iff [of d "fst x" "snd x"]
  by (cases x) (auto simp: dict_get_set)

lemma in_set_dict_set: "x \<in> set (dict_set k v d) \<Longrightarrow> x = (k, v) \<or> x \<in> set d"
  by (induction d) (auto split: if_splits)

lemma set_pop_others:
  "x \<in> set (foldl (\<lambda>d (slot, _). if P slot then dict_pop slot d else d) d ms) \<longleftrightarrow>
     x \<in> set d \<and> \<not> (P (fst x) \<and> fst x \<in> fst ` set ms)"
proof (induction ms arbitrary: d)
  case (Cons y ms)
  obtain a b where y: "y = (a, b)" by fastforce
  show ?case by (cases "P a") (auto simp: y Cons.IH set_dict_pop)
qed simp

lemma dict_wf_pop_others: "dict_wf d \<Longrightarrow> dict_wf (foldl (\<lambda>d (slot, _). if P slot then dict_pop slot d else d) d ms)"
  by (induction ms arbitrary: d) auto

definition new_entry_of :: "tlb_request \<Rightarrow> tlb_entry" where
  "new_entry_of q = \<lparr>te_key = tlb_key q, te_rpn = tq_rpn q, te_c = tq_c q, te_wimg = tq_wimg q, te_pp = tq_pp q\<rparr>"

definition slot_of :: "tlb_model \<Rightarrow> tlb_request \<Rightarrow> tlb_slot" where
  "slot_of m q = (tq_bank q, tlb_page q mod tm_sets m, tq_way q)"

text \<open>The slots after a load: the new one, and the old ones of other pages in other slots.\<close>

lemma load_slots:
  assumes wf: "tlb_wf m"
  shows "x \<in> set (tm_slots (tlb_load m q)) \<longleftrightarrow>
    x = (slot_of m q, new_entry_of q) \<or> x \<in> set (tm_slots m) \<and> fst x \<noteq> slot_of m q \<and> \<not> same_page x (slot_of m q, new_entry_of q)"
    and "dict_wf (tm_slots (tlb_load m q))"
proof -
  note w = tlb_wfD [OF wf]
  let ?kept = "foldl (\<lambda>d (slot, _). if snd (snd slot) \<noteq> tq_way q then dict_pop slot d else d) (tm_slots m) (tlb_matches m q)"
  have kw: "dict_wf ?kept" by (rule dict_wf_pop_others [OF w(2)])
  have t: "tm_slots (tlb_load m q) = dict_set (slot_of m q) (new_entry_of q) ?kept"
    by (simp add: tlb_load_def Let_def slot_of_def new_entry_of_def)
  have kept: "x \<in> set ?kept \<longleftrightarrow> x \<in> set (tm_slots m) \<and> \<not> (snd (snd (fst x)) \<noteq> tq_way q \<and> fst x \<in> fst ` set (tlb_matches m q))" for x
    by (rule set_pop_others)
  have match: "fst x \<in> fst ` set (tlb_matches m q) \<longleftrightarrow> same_page x (slot_of m q, new_entry_of q)" if "x \<in> set (tm_slots m)" for x
  proof -
    have "fst y = fst x \<Longrightarrow> y \<in> set (tm_slots m) \<Longrightarrow> y = x" for y
      using that w(2) dict_item_iff [OF w(2)] by (metis option.inject prod.collapse)
    note inj = this
    have "fst x \<in> fst ` set (tlb_matches m q) \<longleftrightarrow> x \<in> set (tlb_matches m q)"
    proof
      assume "fst x \<in> fst ` set (tlb_matches m q)"
      then obtain y where y: "y \<in> set (tlb_matches m q)" "fst y = fst x" by (rule imageE) simp
      then have "y \<in> set (tm_slots m)" by (simp add: tlb_matches_def)
      then show "x \<in> set (tlb_matches m q)" using inj [OF y(2)] y(1) by simp
    qed simp
    then show ?thesis
      using that by (simp add: tlb_matches_def same_page_def slot_of_def new_entry_of_def case_prod_beta)
  qed
  have same: "fst x \<noteq> slot_of m q \<Longrightarrow> snd (snd (fst x)) \<noteq> tq_way q" if "x \<in> set (tm_slots m)" "same_page x (slot_of m q, new_entry_of q)" for x
  proof -
    obtain b i wy e where x: "x = ((b, i, wy), e)" by (metis prod.collapse)
    show "fst x \<noteq> slot_of m q \<Longrightarrow> snd (snd (fst x)) \<noteq> tq_way q"
      using that w(3) [of "(b, i, wy)" e] by (simp add: x same_page_def slot_ok_def slot_of_def new_entry_of_def tlb_key_def)
  qed
  show "x \<in> set (tm_slots (tlb_load m q)) \<longleftrightarrow>
    x = (slot_of m q, new_entry_of q) \<or> x \<in> set (tm_slots m) \<and> fst x \<noteq> slot_of m q \<and> \<not> same_page x (slot_of m q, new_entry_of q)"
    unfolding t set_dict_set [OF kw] kept using match same by blast
  show "dict_wf (tm_slots (tlb_load m q))" unfolding t using kw by simp
qed

lemma load_wf:
  assumes wf: "tlb_wf m" and q: "request_ok q"
  shows "tlb_wf (tlb_load m q)"
proof -
  note w = tlb_wfD [OF wf] and l = load_slots(1) [OF wf, of _ q] load_slots(2) [OF wf, of q] and q' = q [unfolded request_ok_iff]
  have f: "tm_sets (tlb_load m q) = tm_sets m"
    "tm_lru (tlb_load m q) = dict_set (tq_bank q, tlb_page q mod tm_sets m) (1 - tq_way q) (tm_lru m)"
    by (simp_all add: tlb_load_def Let_def)
  have new: "slot_ok (tm_sets m) (slot_of m q) (new_entry_of q)"
    using q' by (simp add: slot_ok_def slot_of_def new_entry_of_def tlb_key_def)
  have bit: "is_bit (1 - tq_way q)" using q' by (auto simp: is_bit_def)
  have slots: "slot_ok (tm_sets m) slot e" if "(slot, e) \<in> set (tm_slots (tlb_load m q))" for slot e
    using that w(3) [of slot e] new unfolding l(1) by blast
  have uniq: "x = y" if "x \<in> set (tm_slots (tlb_load m q))" "y \<in> set (tm_slots (tlb_load m q))" "same_page x y" for x y
    using that w(4) [of x y] unfolding l(1) by (auto simp: same_page_def)
  have lru: "is_bit v" if "(k, v) \<in> set (tm_lru (tlb_load m q))" for k v
    using in_set_dict_set [OF that [unfolded f]] bit wf by (auto simp: tlb_wf_def)
  show ?thesis
    unfolding tlb_wf_def f(1) using w(1) l(2) slots uniq lru by blast
qed


section \<open>The map the slots implement\<close>

type_synonym tlb_map = "int \<Rightarrow> int \<times> int \<Rightarrow> tlb_entry option"

definition tlb_abs :: "tlb_model \<Rightarrow> tlb_map" where
  "tlb_abs m bank key = map_of (map (\<lambda>(slot, e). ((fst slot, te_key e), e)) (tm_slots m)) (bank, key)"

lemma tlb_abs_iff:
  assumes "tlb_wf m"
  shows "tlb_abs m bank key = Some e \<longleftrightarrow> (\<exists>slot. (slot, e) \<in> set (tm_slots m) \<and> fst slot = bank \<and> te_key e = key)"
proof -
  let ?k = "\<lambda>(slot, e). (fst slot, te_key e)"
  have "distinct (tm_slots m)" using tlb_wfD(2) [OF assms] by (simp add: dict_wf_def distinct_map)
  moreover have "inj_on ?k (set (tm_slots m))"
    using tlb_wfD(4) [OF assms] by (intro inj_onI) (auto simp: same_page_def)
  ultimately have "distinct (map ?k (tm_slots m))" by (simp add: distinct_map)
  moreover have "map fst (map (\<lambda>(slot, e). ((fst slot, te_key e), e)) (tm_slots m)) = map ?k (tm_slots m)" by auto
  ultimately have "tlb_abs m bank key = Some e \<longleftrightarrow> ((bank, key), e) \<in> set (map (\<lambda>(slot, e). ((fst slot, te_key e), e)) (tm_slots m))"
    unfolding tlb_abs_def by (simp only: map_of_eq_Some_iff)
  also have "\<dots> \<longleftrightarrow> (\<exists>slot. (slot, e) \<in> set (tm_slots m) \<and> fst slot = bank \<and> te_key e = key)"
    unfolding set_map image_iff by (simp add: Bex_def split_paired_Ex) blast
  finally show ?thesis .
qed

lemma matches_cases:
  assumes wf: "tlb_wf m"
  obtains (miss) "tlb_matches m q = []" "tlb_abs m (tq_bank q) (tlb_key q) = None"
  | (hit) slot e where "tlb_matches m q = [(slot, e)]" "(slot, e) \<in> set (tm_slots m)" "fst slot = tq_bank q" "te_key e = tlb_key q"
      "tlb_abs m (tq_bank q) (tlb_key q) = Some e" "slot_ok (tm_sets m) slot e"
proof -
  have d: "distinct (tlb_matches m q)" using tlb_wfD(2) [OF wf] by (simp add: tlb_matches_def dict_wf_def distinct_map)
  have mem: "(slot, e) \<in> set (tlb_matches m q) \<longleftrightarrow> (slot, e) \<in> set (tm_slots m) \<and> fst slot = tq_bank q \<and> te_key e = tlb_key q" for slot e
    by (auto simp: tlb_matches_def)
  show thesis
  proof (cases "tlb_matches m q")
    case Nil
    have "tlb_abs m (tq_bank q) (tlb_key q) \<noteq> Some e" for e
      using mem [of _ e] Nil unfolding tlb_abs_iff [OF wf] by auto
    then show thesis using miss Nil by (cases "tlb_abs m (tq_bank q) (tlb_key q)") auto
  next
    case (Cons x xs)
    obtain slot e where x: "x = (slot, e)" by fastforce
    have se: "(slot, e) \<in> set (tm_slots m)" "fst slot = tq_bank q" "te_key e = tlb_key q" using mem [of slot e] Cons x by auto
    have "y = x" if "y \<in> set xs" for y
    proof -
      obtain s' e' where y: "y = (s', e')" by fastforce
      have "(s', e') \<in> set (tm_slots m) \<and> fst s' = tq_bank q \<and> te_key e' = tlb_key q" using mem [of s' e'] that Cons y by auto
      then show ?thesis using tlb_wfD(4) [OF wf, of y x] se by (simp add: x y same_page_def)
    qed
    then have "xs = []" using d Cons by (cases xs) auto
    then show thesis
      using hit [of slot e] Cons x se tlb_wfD(3) [OF wf se(1)] tlb_abs_iff [OF wf, of "tq_bank q" "tlb_key q" e] by blast
  qed
qed

text \<open>The specification of one request on the map; \<open>old\<close> is the entry in the slot a load overwrites.\<close>

definition spec_map :: "int \<Rightarrow> tlb_entry option \<Rightarrow> tlb_request \<Rightarrow> tlb_map \<Rightarrow> tlb_map" where
  "spec_map sets old q f bank key =
     (if tq_pr q \<noteq> 0 then f bank key
      else if tq_kind q = 1
      then (if bank = tq_bank q \<and> key = tlb_key q then Some (new_entry_of q)
            else if bank = tq_bank q \<and> map_option te_key old = Some key then None else f bank key)
      else if tq_kind q = 2 then (if snd key mod sets = tlb_page q mod sets then None else f bank key)
      else f bank key)"

text \<open>When the PowerPC page protection lets an access through (PEM Table 7-21).\<close>

definition page_allows :: "tlb_request \<Rightarrow> tlb_entry \<Rightarrow> bool" where
  "page_allows q e =
     (let key = (if tq_pr q \<noteq> 0 then tq_kp q else tq_ks q); write = (tq_write q \<noteq> 0) in
      (if key = 0 then te_pp e \<le> 2 \<or> \<not> write else te_pp e = 2 \<or> (te_pp e \<noteq> 0 \<and> \<not> write)) \<and>
      \<not> (tq_bank q = 0 \<and> odd (te_wimg e)) \<and> (write \<longrightarrow> te_c e \<noteq> 0))"

definition access_ok :: "tlb_request \<Rightarrow> bool" where
  "access_ok q \<longleftrightarrow> tq_kind q = 0 \<and> \<not> (tq_bank q = 0 \<and> tq_write q \<noteq> 0) \<and> tq_t q = 0 \<and> \<not> (tq_bank q = 0 \<and> tq_n q \<noteq> 0)"

lemma permission_eq:
  assumes "is_bit k" "in_field 2 pp" "is_bit w"
  shows "permission k pp w = Inr (of_bool (if k = 0 then pp \<le> 2 \<or> w = 0 else pp = 2 \<or> (pp \<noteq> 0 \<and> w = 0)))"
proof -
  have "pp = 0 \<or> pp = 1 \<or> pp = 2 \<or> pp = 3" using assms(2) by (auto simp: in_field_def)
  then show ?thesis
    using assms(1,3) by (auto simp: is_bit_def permission_def PERMISSIONS_def)
qed

lemma physical_field: "in_field 20 rpn \<Longrightarrow> in_field 32 (4096 * rpn + ea mod 4096)"
  using pos_mod_bound [of 4096 ea] pos_mod_sign [of 4096 ea] unfolding in_field_def by simp linarith

lemma tlb_hit_eq:
  assumes q: "request_ok q" and s: "slot_ok sets slot e" and way: "way = snd (snd slot)"
  shows "\<exists>s. tlb_hit q way e = Inr s \<and> response_ok s \<and> ts_hit s = 1 \<and> ts_way s = way \<and> ts_miss s = 0 \<and>
    ts_allow s = of_bool (page_allows q e) \<and> (page_allows q e \<longrightarrow> ts_pa s = 4096 * te_rpn e + tq_ea q mod 4096)"
proof -
  note q' = q [unfolded request_ok_iff] and s' = s [unfolded slot_ok_def, folded way]
  let ?k = "if tq_pr q \<noteq> 0 then tq_kp q else tq_ks q"
  have p: "permission ?k (te_pp e) (tq_write q) = Inr (of_bool (if ?k = 0 then te_pp e \<le> 2 \<or> tq_write q = 0
      else te_pp e = 2 \<or> (te_pp e \<noteq> 0 \<and> tq_write q = 0)))"
    by (rule permission_eq) (use q' s' in auto)
  have "in_field 2 (2 ^ nat way)" using s' by (auto simp: is_bit_def in_field_def)
  then show ?thesis
    using empty_response_ok [OF q] s' physical_field [of "te_rpn e" "tq_ea q"] q'
    unfolding tlb_hit_def Let_def p bindR_Inr response_ok_iff
    by (auto simp: page_allows_def Let_def empty_response_def odd_iff_mod_2_eq_one)
qed


lemma load_abs:
  assumes wf: "tlb_wf m" and q: "request_ok q"
  shows "tlb_abs (tlb_load m q) bank key =
    (if bank = tq_bank q \<and> key = tlb_key q then Some (new_entry_of q)
     else if bank = tq_bank q \<and> map_option te_key (dict_get (tm_slots m) (slot_of m q)) = Some key then None
     else tlb_abs m bank key)"
proof -
  note wf' = load_wf [OF wf q] and l = load_slots(1) [OF wf, of _ q]
  have new: "(slot_of m q, new_entry_of q) \<in> set (tm_slots (tlb_load m q))" unfolding l by blast
  have nk: "te_key (new_entry_of q) = tlb_key q" "fst (slot_of m q) = tq_bank q" by (simp_all add: new_entry_of_def slot_of_def)
  have old: "dict_get (tm_slots m) (slot_of m q) = Some e \<longleftrightarrow> (slot_of m q, e) \<in> set (tm_slots m)" for e
    using dict_item_iff [OF tlb_wfD(2) [OF wf]] by blast
  consider "bank = tq_bank q" "key = tlb_key q"
    | (gone) e where "\<not> (bank = tq_bank q \<and> key = tlb_key q)" "bank = tq_bank q" "(slot_of m q, e) \<in> set (tm_slots m)" "te_key e = key"
    | (kept) "\<not> (bank = tq_bank q \<and> key = tlb_key q)" "\<And>e. bank = tq_bank q \<Longrightarrow> (slot_of m q, e) \<in> set (tm_slots m) \<Longrightarrow> te_key e \<noteq> key"
    by blast
  then show ?thesis
  proof cases
    case 1
    then have "tlb_abs (tlb_load m q) bank key = Some (new_entry_of q)" unfolding tlb_abs_iff [OF wf'] using new nk by blast
    then show ?thesis using 1 by simp
  next
    case gone
    have "tlb_abs (tlb_load m q) bank key \<noteq> Some e'" for e'
    proof
      assume "tlb_abs (tlb_load m q) bank key = Some e'"
      then obtain slot where s: "(slot, e') \<in> set (tm_slots (tlb_load m q))" "fst slot = bank" "te_key e' = key"
        unfolding tlb_abs_iff [OF wf'] by blast
      then have "(slot, e') \<in> set (tm_slots m)" "slot \<noteq> slot_of m q" using gone(1) nk unfolding l by auto
      moreover have "same_page (slot, e') (slot_of m q, e)" using s gone(2,4) nk by (simp add: same_page_def)
      ultimately show False using tlb_wfD(4) [OF wf _ gone(3)] by blast
    qed
    then have "tlb_abs (tlb_load m q) bank key = None" by (cases "tlb_abs (tlb_load m q) bank key") auto
    then show ?thesis using gone old [of e] by auto
  next
    case kept
    have "tlb_abs (tlb_load m q) bank key = Some e \<longleftrightarrow> tlb_abs m bank key = Some e" for e
      unfolding tlb_abs_iff [OF wf'] tlb_abs_iff [OF wf] l using kept nk by (fastforce simp: same_page_def)
    then have "tlb_abs (tlb_load m q) bank key = tlb_abs m bank key" by (metis option.exhaust)
    then show ?thesis using kept old by (cases "dict_get (tm_slots m) (slot_of m q)") auto
  qed
qed

lemma invalidate:
  fixes i :: int
  assumes wf: "tlb_wf m"
  defines "m' \<equiv> m\<lparr>tm_slots := filter (\<lambda>(slot, _). fst (snd slot) \<noteq> i) (tm_slots m)\<rparr>"
  shows "tlb_wf m'" "tlb_abs m' bank key = (if snd key mod tm_sets m = i then None else tlb_abs m bank key)"
proof -
  note w = tlb_wfD [OF wf]
  have d: "dict_wf (filter P (tm_slots m))" for P
    using w(2) by (simp add: dict_wf_def distinct_map inj_on_def)
  show wf': "tlb_wf m'" unfolding m'_def tlb_wf_def using w(1) d wf by (auto simp: tlb_wf_def)
  have mem: "(slot, e) \<in> set (tm_slots m') \<longleftrightarrow> (slot, e) \<in> set (tm_slots m) \<and> snd (te_key e) mod tm_sets m \<noteq> i" for slot e
    using w(3) [of slot e] by (auto simp: m'_def slot_ok_def)
  have "tlb_abs m' bank key = Some e \<longleftrightarrow> snd key mod tm_sets m \<noteq> i \<and> tlb_abs m bank key = Some e" for e
    unfolding tlb_abs_iff [OF wf'] tlb_abs_iff [OF wf] mem by auto
  then show "tlb_abs m' bank key = (if snd key mod tm_sets m = i then None else tlb_abs m bank key)"
    by (cases "snd key mod tm_sets m = i") (metis option.exhaust)+
qed

lemma lru_update:
  assumes "tlb_wf m" "is_bit w"
  shows "tlb_wf (m\<lparr>tm_lru := dict_set k w (tm_lru m)\<rparr>)" "tlb_abs (m\<lparr>tm_lru := dict_set k w (tm_lru m)\<rparr>) = tlb_abs m"
  using assms by (auto simp: tlb_wf_def tlb_abs_def fun_eq_iff dest!: in_set_dict_set)

lemma translate_step:
  assumes wf: "tlb_wf m" and q: "request_ok q" and k: "tq_kind q = 0"
  shows "\<exists>s m'. tlb_translate m q = Inr (s, m') \<and> tlb_wf m' \<and> tm_sets m' = tm_sets m \<and> tlb_abs m' = tlb_abs m \<and> response_ok s \<and>
    ts_allow s = of_bool (access_ok q \<and> (case tlb_abs m (tq_bank q) (tlb_key q) of None \<Rightarrow> False | Some e \<Rightarrow> page_allows q e)) \<and>
    ts_miss s = of_bool (access_ok q \<and> tlb_abs m (tq_bank q) (tlb_key q) = None) \<and>
    (ts_allow s = 1 \<longrightarrow> (case tlb_abs m (tq_bank q) (tlb_key q) of None \<Rightarrow> False | Some e \<Rightarrow> ts_pa s = 4096 * te_rpn e + tq_ea q mod 4096))"
proof (cases "access_ok q")
  case False
  then show ?thesis
    using empty_response_ok [OF q] wf k unfolding tlb_translate_def Let_def
    by (auto simp: access_ok_def response_ok_iff empty_response_def)
next
  case True
  then have T: "tlb_translate m q = (case tlb_matches m q of
        [] \<Rightarrow> Inr ((empty_response q)\<lparr>ts_miss := 1, ts_way := (case dict_get (tm_lru m) (tq_bank q, tlb_page q mod tm_sets m) of None \<Rightarrow> 0 | Some w \<Rightarrow> w)\<rparr>, m)
      | [(slot, e)] \<Rightarrow> bindR (tlb_hit q (snd (snd slot)) e) (\<lambda>s.
          Inr (s, m\<lparr>tm_lru := dict_set (tq_bank q, tlb_page q mod tm_sets m) (1 - snd (snd slot)) (tm_lru m)\<rparr>))
      | _ \<Rightarrow> Inl (AssertionError ''len(matches) == 1''))"
    unfolding tlb_translate_def Let_def by (auto simp: access_ok_def)
  from wf show ?thesis
  proof (cases rule: matches_cases [of m q])
    case miss
    have "is_bit (case dict_get (tm_lru m) (tq_bank q, tlb_page q mod tm_sets m) of None \<Rightarrow> 0 | Some w \<Rightarrow> w)"
      using tlb_wfD(5) [OF wf] by (auto split: option.splits)
    then show ?thesis
      using empty_response_ok [OF q] wf True miss unfolding T by (simp add: response_ok_iff empty_response_def)
  next
    case (hit slot e)
    obtain s where s: "tlb_hit q (snd (snd slot)) e = Inr s" "response_ok s" "ts_miss s = 0" "ts_allow s = of_bool (page_allows q e)"
      "page_allows q e \<longrightarrow> ts_pa s = 4096 * te_rpn e + tq_ea q mod 4096"
      using tlb_hit_eq [OF q hit(6) refl] by blast
    have "is_bit (1 - snd (snd slot))" using hit(6) by (auto simp: slot_ok_def is_bit_def)
    note lru = lru_update [OF wf this, of "(tq_bank q, tlb_page q mod tm_sets m)"]
    show ?thesis
      unfolding T hit(1) list.case prod.case s(1) bindR_Inr
      by (intro exI conjI, rule refl, rule lru(1)) (use lru(2) s(2-5) hit(5) True in \<open>auto split: if_splits\<close>)
  qed
qed


lemma accept_step:
  assumes wf: "tlb_wf m" and q: "request_ok q"
  shows "\<exists>s m'. tlb_accept m q = Inr (s, m') \<and> tlb_wf m' \<and> tm_sets m' = tm_sets m \<and> response_ok s \<and>
    tlb_abs m' = spec_map (tm_sets m) (dict_get (tm_slots m) (slot_of m q)) q (tlb_abs m) \<and>
    (tq_kind q = 0 \<longrightarrow>
      ts_allow s = of_bool (access_ok q \<and> (case tlb_abs m (tq_bank q) (tlb_key q) of None \<Rightarrow> False | Some e \<Rightarrow> page_allows q e)) \<and>
      ts_miss s = of_bool (access_ok q \<and> tlb_abs m (tq_bank q) (tlb_key q) = None) \<and>
      (ts_allow s = 1 \<longrightarrow> (case tlb_abs m (tq_bank q) (tlb_key q) of None \<Rightarrow> False | Some e \<Rightarrow> ts_pa s = 4096 * te_rpn e + tq_ea q mod 4096)))"
proof -
  have sets: "tm_sets m \<noteq> 0" using tlb_wfD(1) [OF wf] by simp
  have "tq_kind q \<in> {0, 1, 2, 3}" using q by (auto simp: request_ok_iff in_field_def)
  then consider (tr) "tq_kind q = 0" | (priv) "tq_kind q \<in> {1, 2}" "tq_pr q \<noteq> 0" | (load) "tq_kind q = 1" "tq_pr q = 0"
    | (clear) "tq_kind q = 2" "tq_pr q = 0" | (other) "tq_kind q = 3" by blast
  then show ?thesis
  proof cases
    case tr
    have "spec_map n old q f = f" for n old f by (intro ext) (simp add: spec_map_def tr)
    moreover have "tlb_accept m q = tlb_translate m q" using sets tr by (simp add: tlb_accept_def Let_def)
    ultimately show ?thesis using translate_step [OF wf q tr] by metis
  next
    case priv
    have "spec_map n old q f = f" for n old f by (intro ext) (simp add: spec_map_def priv)
    then show ?thesis
      using priv sets wf empty_response_ok [OF q] by (auto simp: tlb_accept_def Let_def response_ok_iff empty_response_def)
  next
    case load
    have "tlb_abs (tlb_load m q) = spec_map (tm_sets m) (dict_get (tm_slots m) (slot_of m q)) q (tlb_abs m)"
      by (intro ext) (simp add: spec_map_def load load_abs [OF wf q])
    moreover have "tm_sets (tlb_load m q) = tm_sets m" by (simp add: tlb_load_def Let_def)
    ultimately show ?thesis
      using load sets load_wf [OF wf q] empty_response_ok [OF q] by (simp add: tlb_accept_def Let_def)
  next
    case clear
    note inv = invalidate [OF wf, of "tlb_page q mod tm_sets m"]
    have "tlb_abs (m\<lparr>tm_slots := filter (\<lambda>(slot, _). fst (snd slot) \<noteq> tlb_page q mod tm_sets m) (tm_slots m)\<rparr>) =
        spec_map (tm_sets m) (dict_get (tm_slots m) (slot_of m q)) q (tlb_abs m)"
      by (intro ext) (simp add: spec_map_def clear inv(2))
    then show ?thesis
      using clear sets inv(1) empty_response_ok [OF q] by (simp add: tlb_accept_def Let_def)
  next
    case other
    have "spec_map n old q f = f" for n old f by (intro ext) (simp add: spec_map_def other)
    then show ?thesis
      using other sets wf empty_response_ok [OF q] by (auto simp: tlb_accept_def Let_def response_ok_iff empty_response_def)
  qed
qed

definition tlb_step :: "tlb_model \<Rightarrow> tlb_request \<Rightarrow> tlb_model" where
  "tlb_step m q = (case tlb_accept m q of Inl _ \<Rightarrow> m | Inr (_, m') \<Rightarrow> m')"

interpretation tlb: stepper tlb_step request_ok tlb_wf
  by unfold_locales (use accept_step in \<open>fastforce simp: tlb_step_def\<close>)

section \<open>Properties\<close>

text \<open>
  C22: the page-TLB oracle is total on well-formed traffic.  After any sequence of
  requests whose fields fit their widths, the next such request returns: the
  \<open>assert len(matches) == 1\<close> holds, no table is indexed out of range, and every field of
  the response fits its width, so \<open>pack\<close> of the response does not raise.
\<close>

theorem tlb_never_raises:
  assumes "0 < sets" and "list_all request_ok qs" and "request_ok q"
  shows "\<exists>s m'. tlb_accept (foldl tlb_step (tlb_init sets) qs) q = Inr (s, m') \<and> is_ok (tlb_pack RESPONSE (response_dict s))"
proof -
  have "tlb_wf (foldl tlb_step (tlb_init sets) qs)" using tlb.run_inv [OF tlb_init_wf [OF assms(1)] assms(2)] .
  from accept_step [OF this assms(3)] show ?thesis unfolding response_ok_def by blast
qed

text \<open>A request: kind, bank, address, VSID, way, RPN, write; supervisor, changed, read-write.\<close>

definition tlb_q :: "int \<Rightarrow> int \<Rightarrow> int \<Rightarrow> int \<Rightarrow> int \<Rightarrow> int \<Rightarrow> int \<Rightarrow> tlb_request" where
  "tlb_q kind bank ea vsid way rpn write = \<lparr>tq_kind = kind, tq_bank = bank, tq_ea = ea, tq_vsid = vsid, tq_pr = 0, tq_ks = 0, tq_kp = 0,
     tq_n = 0, tq_t = 0, tq_write = write, tq_way = way, tq_rpn = rpn, tq_c = 1, tq_wimg = 0, tq_pp = 2\<rparr>"

theorem tlb_never_raises_witness:
  "\<exists>s m'. tlb_accept (foldl tlb_step (tlb_init 32) [tlb_q 1 1 0x55000 7 0 1 0, tlb_q 1 1 0x55000 7 1 2 0]) (tlb_q 0 1 0x55123 7 0 0 1) = Inr (s, m') \<and>
     is_ok (tlb_pack RESPONSE (response_dict s))"
  by (rule tlb_never_raises) (simp_all add: request_ok_iff tlb_q_def in_field_def)

text \<open>
  C23: the slots implement a map from bank, VSID and page to a page-table entry.  From
  a well-formed model, each request acts on the map as specified: a supervisor load binds
  its page (and forgets the page its slot held), a supervisor invalidation forgets every
  page of the set, anything else changes nothing.  A translation is allowed exactly when
  the segment checks pass, the map has the page and the page protection permits, the
  physical address is then the mapped page with the offset, and it misses exactly when
  the map does not have the page.
\<close>

theorem tlb_refines_map:
  assumes "tlb_wf m" and "request_ok q"
  shows "\<exists>s m'. tlb_accept m q = Inr (s, m') \<and> tlb_wf m' \<and>
    tlb_abs m' = spec_map (tm_sets m) (dict_get (tm_slots m) (slot_of m q)) q (tlb_abs m) \<and>
    (tq_kind q = 0 \<longrightarrow>
      ts_allow s = of_bool (access_ok q \<and> (case tlb_abs m (tq_bank q) (tlb_key q) of None \<Rightarrow> False | Some e \<Rightarrow> page_allows q e)) \<and>
      ts_miss s = of_bool (access_ok q \<and> tlb_abs m (tq_bank q) (tlb_key q) = None) \<and>
      (ts_allow s = 1 \<longrightarrow> (case tlb_abs m (tq_bank q) (tlb_key q) of None \<Rightarrow> False | Some e \<Rightarrow> ts_pa s = 4096 * te_rpn e + tq_ea q mod 4096)))"
  using accept_step [OF assms] by blast

theorem tlb_refines_map_witness:
  "\<exists>s m'. tlb_accept (tlb_load (tlb_init 32) (tlb_q 1 1 0x55000 7 0 3 0)) (tlb_q 0 1 0x55123 7 0 0 1) = Inr (s, m') \<and>
     ts_allow s = 1 \<and> ts_pa s = 0x3123"
proof -
  let ?l = "tlb_q 1 1 0x55000 7 0 3 0" and ?q = "tlb_q 0 1 0x55123 7 0 0 1"
  let ?m = "tlb_load (tlb_init 32) ?l"
  have ok: "request_ok ?l" "request_ok ?q" by (simp_all add: request_ok_iff tlb_q_def in_field_def)
  have wf: "tlb_wf ?m" by (rule load_wf [OF tlb_init_wf ok(1)]) simp
  have k: "tlb_abs ?m (tq_bank ?q) (tlb_key ?q) = Some (new_entry_of ?l)" "page_allows ?q (new_entry_of ?l)" "access_ok ?q" "tq_kind ?q = 0"
    "te_rpn (new_entry_of ?l) = 3" "tq_ea ?q mod 4096 = 0x123" by code_simp+
  from tlb_refines_map [OF wf ok(2)] show ?thesis unfolding k(1) by (auto simp: k(2-6))
qed

text \<open>
  Replacement.  After a load into way \<open>w\<close>, or a hit in way \<open>w\<close>, of a set, a
  translation in the same bank and set that misses reports the other way as the one to
  replace, so reloading there keeps the entry used last.
\<close>

theorem miss_reports_other_way:
  assumes "tlb_wf m" "request_ok q" "request_ok r" and "tlb_accept m q = Inr (s, m')" "tlb_accept m' r = Inr (t, m'')"
    and "tq_kind q = 1 \<and> tq_pr q = 0 \<and> w = tq_way q \<or> tq_kind q = 0 \<and> ts_hit s = 1 \<and> w = ts_way s"
    and "tq_bank r = tq_bank q" "tlb_page r mod tm_sets m = tlb_page q mod tm_sets m" "ts_miss t = 1"
  shows "ts_way t = 1 - w"
proof -
  let ?k = "(tq_bank q, tlb_page q mod tm_sets m)"
  have sets: "tm_sets m \<noteq> 0" "tm_sets m' = tm_sets m" using tlb_wfD(1) [OF assms(1)] accept_step [OF assms(1,2)] assms(4) by auto
  have lru: "dict_get (tm_lru m') ?k = Some (1 - w)"
  proof (cases "tq_kind q = 1")
    case True
    then show ?thesis using assms(4,6) sets(1) by (auto simp: tlb_accept_def tlb_load_def Let_def dict_get_set)
  next
    case False
    then have q: "tq_kind q = 0" "ts_hit s = 1" "w = ts_way s" using assms(6) by auto
    have tr: "tlb_translate m q = Inr (s, m')" using assms(4) sets(1) q(1) by (simp add: tlb_accept_def Let_def)
    from assms(1) show ?thesis
    proof (cases rule: matches_cases [of m q])
      case miss
      then show ?thesis using tr q(2) by (auto simp: tlb_translate_def Let_def empty_response_def split: if_splits)
    next
      case (hit slot e)
      obtain u where u: "tlb_hit q (snd (snd slot)) e = Inr u" "ts_way u = snd (snd slot)" using tlb_hit_eq [OF assms(2) hit(6) refl] by blast
      show ?thesis using tr q(2,3) u by (auto simp: tlb_translate_def Let_def empty_response_def hit(1) dict_get_set split: if_splits)
    qed
  qed
  have r: "tlb_translate m' r = Inr (t, m'')" "tq_kind r \<notin> {1, 2, 3}"
    using assms(5,9) sets by (auto simp: tlb_accept_def Let_def empty_response_def split: if_splits)
  have "tlb_wf m'" using accept_step [OF assms(1,2)] assms(4) by auto
  then show ?thesis
  proof (cases rule: matches_cases [of m' r])
    case miss
    then show ?thesis using r(1) assms(7-9) sets(2) lru by (auto simp: tlb_translate_def Let_def empty_response_def split: if_splits)
  next
    case (hit slot e)
    obtain u where u: "tlb_hit r (snd (snd slot)) e = Inr u" "ts_miss u = 0" using tlb_hit_eq [OF assms(3) hit(6) refl] by blast
    then show ?thesis using r(1) assms(9) by (auto simp: tlb_translate_def Let_def empty_response_def hit(1) split: if_splits)
  qed
qed

theorem miss_reports_other_way_witness:
  "\<exists>s m' t m''. tlb_accept (tlb_init 32) (tlb_q 1 1 0x55000 7 0 3 0) = Inr (s, m') \<and>
     tlb_accept m' (tlb_q 0 1 0x75000 7 0 0 0) = Inr (t, m'') \<and> ts_miss t = 1 \<and> ts_way t = 1"
proof -
  let ?q = "tlb_q 1 1 0x55000 7 0 3 0" and ?r = "tlb_q 0 1 0x75000 7 0 0 0"
  have ok: "request_ok ?q" "request_ok ?r" by (simp_all add: request_ok_iff tlb_q_def in_field_def)
  have wf: "tlb_wf (tlb_init 32)" by (rule tlb_init_wf) simp
  have q: "tlb_accept (tlb_init 32) ?q = Inr (empty_response ?q, tlb_load (tlb_init 32) ?q)"
    by (simp add: tlb_accept_def tlb_init_def tlb_q_def Let_def)
  obtain t m'' where r: "tlb_accept (tlb_load (tlb_init 32) ?q) ?r = Inr (t, m'')" "ts_miss t = 1"
  proof -
    have "case tlb_accept (tlb_load (tlb_init 32) ?q) ?r of Inl _ \<Rightarrow> False | Inr (t, _) \<Rightarrow> ts_miss t = 1" by code_simp
    then show thesis using that by (auto split: sum.splits)
  qed
  have "tlb_page ?r mod tm_sets (tlb_init 32) = tlb_page ?q mod tm_sets (tlb_init 32)" "tq_bank ?r = tq_bank ?q"
    "tq_kind ?q = 1 \<and> tq_pr ?q = 0 \<and> 0 = tq_way ?q" by (simp_all add: tlb_page_def tlb_q_def tlb_init_def)
  then have "ts_way t = 1 - 0" using miss_reports_other_way [OF wf ok q r(1), of 0] r(2) by blast
  then show ?thesis using q r by auto
qed

end
