(* ===== verification/Lha.thy ===== *)
theory Lha
  imports Dict
begin

text \<open>
  \<open>toolchain/demo/lha.py\<close>: the CRC-16 and the \<open>-lh5-\<close> decompressor (bit reader,
  canonical Huffman codes, code-length tables, sliding window).  The theory shows that
  the decompressor terminates on every input with a result of the stated size or an
  exception, that the Huffman decoder inverts the canonical code, and that the CRC
  detects every change of a single byte.
\<close>

section \<open>CRC-16\<close>

definition crc_shift :: "int \<Rightarrow> int" where
  "crc_shift crc = drop_bit 1 crc XOR (if crc AND 1 \<noteq> 0 then 0xA001 else 0)"

definition crc_byte :: "int \<Rightarrow> int \<Rightarrow> int" where
  "crc_byte crc b = (crc_shift ^^ 8) (crc XOR b)"

definition crc16 :: "int list \<Rightarrow> int" where
  "crc16 xs = foldl crc_byte 0 xs"

section \<open>Bits\<close>

record bits =
  b_data :: "int list"
  b_pos :: nat

definition next_bit :: "bits \<Rightarrow> int" where
  "next_bit b = (let byte = drop_bit 3 (b_pos b) in
     if byte < length (b_data b) then drop_bit (7 - (b_pos b AND 7)) (b_data b ! byte) AND 1 else 0)"

fun get_loop :: "nat \<Rightarrow> bits \<Rightarrow> int \<Rightarrow> int \<times> bits" where
  "get_loop 0 b v = (v, b)"
| "get_loop (Suc k) b v = get_loop k (b\<lparr>b_pos := b_pos b + 1\<rparr>) (push_bit 1 v OR next_bit b)"

definition get_bits :: "int \<Rightarrow> bits \<Rightarrow> int \<times> bits" where
  "get_bits n b = get_loop (nat n) b 0"

definition peek_bits :: "int \<Rightarrow> bits \<Rightarrow> int" where
  "peek_bits n b = fst (get_bits n b)"

section \<open>Huffman codes\<close>

record huffman =
  hf_single :: "int option"
  hf_count :: "int list"
  hf_symbols :: "int list"

text \<open>\<open>self.count[n] += 1\<close> for every length.\<close>

fun count_lengths :: "int list \<Rightarrow> int list \<Rightarrow> int list result" where
  "count_lengths [] cnt = Inr cnt"
| "count_lengths (n # ns) cnt =
     bindR (py_get cnt n) (\<lambda>c. bindR (py_set cnt n (c + 1)) (count_lengths ns))"

definition symbols_of :: "int list \<Rightarrow> int list" where
  "symbols_of lengths = concat (map (\<lambda>n. map (int \<circ> fst) (filter (\<lambda>(s, ln). ln = int n) (enumerate 0 lengths))) [1..<17])"

definition Huffman :: "int list \<Rightarrow> int option \<Rightarrow> huffman result" where
  "Huffman lengths single =
     bindR (count_lengths lengths (replicate 17 0)) (\<lambda>cnt.
     bindR (py_set cnt 0 0) (\<lambda>cnt.
     Inr \<lparr>hf_single = single, hf_count = cnt, hf_symbols = symbols_of lengths\<rparr>))"

fun decode_loop :: "huffman \<Rightarrow> nat list \<Rightarrow> int \<Rightarrow> int \<Rightarrow> int \<Rightarrow> bits \<Rightarrow> (int \<times> bits) result" where
  "decode_loop h [] code first index b = Inl (ValueError ''bad Huffman code'')"
| "decode_loop h (n # ns) code0 first index b0 =
     (let (bit, b) = get_bits 1 b0; code = code0 OR bit in
      bindR (py_get (hf_count h) (int n)) (\<lambda>cnt.
      if code - first < cnt
      then bindR (py_get (hf_symbols h) (index + code - first)) (\<lambda>s. Inr (s, b))
      else decode_loop h ns (push_bit 1 code) (push_bit 1 (first + cnt)) (index + cnt) b))"

definition hf_decode :: "huffman \<Rightarrow> bits \<Rightarrow> (int \<times> bits) result" where
  "hf_decode h b = (case hf_single h of Some s \<Rightarrow> Inr (s, b) | None \<Rightarrow> decode_loop h [1..<17] 0 0 0 b)"

section \<open>Code-length tables\<close>

lemma get_loop_end: "b_pos (snd (get_loop k b v)) = b_pos b + k" "b_data (snd (get_loop k b v)) = b_data b"
  by (induction k b v rule: get_loop.induct) simp_all

lemma get_bits_end: "b_pos (snd (get_bits n b)) = b_pos b + nat n" "b_data (snd (get_bits n b)) = b_data b"
  by (simp_all add: get_bits_def get_loop_end)

lemma get_one: "get_bits 1 b = (next_bit b, b\<lparr>b_pos := b_pos b + 1\<rparr>)"
  by (simp add: get_bits_def)

lemma next_bit_end:
  assumes "8 * length (b_data b) \<le> b_pos b"
  shows "next_bit b = 0"
proof -
  have "\<not> drop_bit 3 (b_pos b) < length (b_data b)" 
    using assms unfolding drop_bit_eq_div by simp
  then show ?thesis by (simp add: next_bit_def Let_def)
qed

text \<open>\<open>while bits.get(1): c += 1\<close>; past the end of the data every bit is zero.\<close>

function count_ones :: "int \<Rightarrow> bits \<Rightarrow> int \<times> bits" where
  "count_ones c b0 = (let (bit, b) = get_bits 1 b0 in if bit \<noteq> 0 then count_ones (c + 1) b else (c, b))"
  by auto
termination
proof (relation "measure (\<lambda>(c, b). 8 * length (b_data b) - b_pos b)")
  fix c :: int and b0 p bit b
  assume "p = get_bits 1 b0" "(bit, b) = p" "bit \<noteq> 0"
  then have "next_bit b0 \<noteq> 0" "b = b0\<lparr>b_pos := b_pos b0 + 1\<rparr>" by (simp_all add: get_one)
  moreover have "b_pos b0 < 8 * length (b_data b0)" using next_bit_end [of b0] calculation(1) by linarith
  ultimately show "((c + 1, b), (c, b0)) \<in> measure (\<lambda>(c, b). 8 * length (b_data b) - b_pos b)" by simp
qed simp

declare count_ones.simps [simp del]

text \<open>One round of \<open>read_pt\<close>: a length of three bits or unary beyond six, then perhaps a run of zeros.\<close>

definition pt_length :: "bits \<Rightarrow> int \<times> bits" where
  "pt_length b = (let c = peek_bits 3 b; b' = snd (get_bits 3 b) in if c = 7 then count_ones c b' else (c, b'))"

definition pt_round :: "int \<Rightarrow> int list \<Rightarrow> bits \<Rightarrow> int list \<times> bits" where
  "pt_round special lengths b =
     (let (c, b) = pt_length b; lengths = lengths @ [c] in
      if int (length lengths) = special
      then let (k, b) = get_bits 2 b in (lengths @ replicate (nat k) 0, b) else (lengths, b))"

lemma pt_round_longer: "length lengths < length (fst (pt_round special lengths b))"
  by (simp add: pt_round_def Let_def case_prod_beta)

function pt_loop :: "int \<Rightarrow> int \<Rightarrow> int list \<Rightarrow> bits \<Rightarrow> int list \<times> bits" where
  "pt_loop n special lengths b =
     (if int (length lengths) < n then let (lengths, b) = pt_round special lengths b in pt_loop n special lengths b else (lengths, b))"
  by auto
termination
proof (relation "measure (\<lambda>(n, special, lengths, b). nat n - length lengths)")
  fix n special :: int and lengths b p l b'
  assume "int (length lengths) < n" "p = pt_round special lengths b" "(l, b') = p"
  then have "length lengths < length l" using pt_round_longer [of lengths special b] by (metis fst_conv)
  then show "((n, special, l, b'), (n, special, lengths, b)) \<in> measure (\<lambda>(n, special, lengths, b). nat n - length lengths)"
    using \<open>int (length lengths) < n\<close> by auto
qed simp

declare pt_loop.simps [simp del]

definition read_pt :: "bits \<Rightarrow> int \<Rightarrow> int \<Rightarrow> int \<Rightarrow> (huffman \<times> bits) result" where
  "read_pt b nn nbit special =
     (let (n, b) = get_bits nbit b in
      if n = 0 then let (s, b) = get_bits nbit b in bindR (Huffman [] (Some s)) (\<lambda>h. Inr (h, b))
      else let (lengths, b) = pt_loop n special [] b in
        bindR (Huffman (lengths @ replicate (nat (nn - int (length lengths))) 0) None) (\<lambda>h. Inr (h, b)))"

definition NT :: int where "NT = 19"
definition NP :: int where "NP = 14"
definition NC :: int where "NC = 510"

text \<open>What one symbol of the length code appends.\<close>

definition c_round :: "huffman \<Rightarrow> bits \<Rightarrow> (int list \<times> bits) result" where
  "c_round pt b = bindR (hf_decode pt b) (\<lambda>(c, b).
     if c = 0 then Inr ([0], b)
     else if c = 1 then let (k, b) = get_bits 4 b in Inr (replicate (nat (k + 3)) 0, b)
     else if c = 2 then let (k, b) = get_bits 9 b in Inr (replicate (nat (k + 20)) 0, b)
     else Inr ([c - 2], b))"

lemma get_bits_nonneg: "0 \<le> fst (get_bits n b)"
proof -
  have bit: "0 \<le> next_bit b" for b by (simp add: next_bit_def Let_def)
  have "0 \<le> v \<Longrightarrow> 0 \<le> fst (get_loop k b v)" for k b v
    by (induction k b v rule: get_loop.induct) (simp_all add: bit)
  then show ?thesis by (simp add: get_bits_def)
qed

lemma c_round_some:
  assumes "c_round pt b = Inr (xs, b')"
  shows "0 < length xs"
proof -
  have "\<not> fst (get_bits 4 ba) + 3 \<le> 0" "\<not> fst (get_bits 9 ba) + 20 \<le> 0" for ba
    using get_bits_nonneg [of 4 ba] get_bits_nonneg [of 9 ba] by simp_all
  then show ?thesis using assms
    by (auto simp: c_round_def bindR_eq_Inr Let_def case_prod_beta split: if_splits)
qed

function c_loop :: "int \<Rightarrow> huffman \<Rightarrow> int list \<Rightarrow> bits \<Rightarrow> (int list \<times> bits) result" where
  "c_loop n pt lengths b =
     (if int (length lengths) < n
      then (case c_round pt b of Inl e \<Rightarrow> Inl e | Inr (xs, b) \<Rightarrow> c_loop n pt (lengths @ xs) b) else Inr (lengths, b))"
  by auto
termination
  by (relation "measure (\<lambda>(n, pt, lengths, b). nat n - length lengths)") (auto dest!: c_round_some intro!: diff_less_mono2)

declare c_loop.simps [simp del]

definition read_c :: "bits \<Rightarrow> huffman \<Rightarrow> (huffman \<times> bits) result" where
  "read_c b pt =
     (let (n, b) = get_bits 9 b in
      if n = 0 then let (s, b) = get_bits 9 b in bindR (Huffman [] (Some s)) (\<lambda>h. Inr (h, b))
      else bindR (c_loop n pt [] b) (\<lambda>(lengths, b).
        bindR (Huffman (lengths @ replicate (nat (NC - int (length lengths))) 0) None) (\<lambda>h. Inr (h, b))))"

section \<open>The decompressor\<close>

record lh5_state =
  l_bits :: bits
  l_out :: "int list"
  l_left :: int
  l_c :: huffman
  l_p :: huffman

definition no_code :: huffman where "no_code = \<lparr>hf_single = None, hf_count = [], hf_symbols = []\<rparr>"

text \<open>A new block when the last one is used up: the number of its symbols and the two codes.\<close>

definition new_block :: "lh5_state \<Rightarrow> lh5_state result" where
  "new_block st =
     (if l_left st = 0
      then let (left, b) = get_bits 16 (l_bits st) in
        bindR (read_pt b NT 5 3) (\<lambda>(pt, b). bindR (read_c b pt) (\<lambda>(c, b). bindR (read_pt b NP 4 (- 1)) (\<lambda>(p, b).
        Inr (st\<lparr>l_bits := b, l_left := left, l_c := c, l_p := p\<rparr>))))
      else Inr st)"

text \<open>\<open>out.append(out[src + k])\<close> for \<open>k\<close> in range: the copy may read what it has just written.\<close>

fun copy_match :: "int \<Rightarrow> nat \<Rightarrow> nat \<Rightarrow> int list \<Rightarrow> int list result" where
  "copy_match src k 0 out = Inr out"
| "copy_match src k (Suc n) out = bindR (py_get out (src + int k)) (\<lambda>x. copy_match src (Suc k) n (out @ [x]))"

definition match_distance :: "huffman \<Rightarrow> bits \<Rightarrow> (int \<times> bits) result" where
  "match_distance p b = bindR (hf_decode p b) (\<lambda>(j, b).
     if j \<noteq> 0
     then if j < 1 then Inl (ValueError ''negative shift count'')
          else let (k, b') = get_bits (j - 1) b in Inr (push_bit (nat (j - 1)) 1 + k, b')
     else Inr (j, b))"

definition lh5_round :: "lh5_state \<Rightarrow> lh5_state result" where
  "lh5_round st0 = bindR (new_block st0) (\<lambda>st.
     bindR (hf_decode (l_c st) (l_bits st)) (\<lambda>(c, b).
     let st = st\<lparr>l_left := l_left st - 1, l_bits := b\<rparr> in
     if c < 256
     then if c < 0 then Inl (ValueError ''byte must be in range(0, 256)'') else Inr (st\<lparr>l_out := l_out st @ [c]\<rparr>)
     else bindR (match_distance (l_p st) b) (\<lambda>(j, b).
       bindR (copy_match (int (length (l_out st)) - j - 1) 0 (nat (c - 253)) (l_out st)) (\<lambda>out.
       Inr (st\<lparr>l_bits := b, l_out := out\<rparr>)))))"

lemma copy_match_length: "copy_match src k n out = Inr out' \<Longrightarrow> length out' = length out + n"
  by (induction src k n out rule: copy_match.induct) (auto simp: bindR_eq_Inr)

lemma new_block_out: "new_block st = Inr st' \<Longrightarrow> l_out st' = l_out st"
  by (auto simp: new_block_def bindR_eq_Inr Let_def case_prod_beta split: if_splits)

lemma lh5_round_longer:
  assumes "lh5_round st = Inr st'"
  shows "length (l_out st) < length (l_out st')"
proof -
  have "256 \<le> c \<Longrightarrow> 0 < nat (c - 253)" for c :: int by simp
  then show ?thesis using assms unfolding lh5_round_def
    by (auto simp: bindR_eq_Inr Let_def case_prod_beta not_less dest!: copy_match_length new_block_out split: if_split_asm)
qed

function lh5_loop :: "int \<Rightarrow> lh5_state \<Rightarrow> lh5_state result" where
  "lh5_loop sz st =
     (if int (length (l_out st)) < sz then (case lh5_round st of Inl e \<Rightarrow> Inl e | Inr st \<Rightarrow> lh5_loop sz st) else Inr st)"
  by auto
termination
  by (relation "measure (\<lambda>(sz, st). nat sz - length (l_out st))") (auto dest!: lh5_round_longer)

declare lh5_loop.simps [simp del]

definition lh5 :: "int list \<Rightarrow> int \<Rightarrow> int list result" where
  "lh5 xs sz =
     bindR (lh5_loop sz \<lparr>l_bits = \<lparr>b_data = xs, b_pos = 0\<rparr>, l_out = [], l_left = 0, l_c = no_code, l_p = no_code\<rparr>) (\<lambda>st.
     Inr (py_slice (l_out st) 0 sz))"

section \<open>The CRC detects every changed byte\<close>

lemma crc_shift_bit:
  "bit (crc_shift c) n \<longleftrightarrow> bit c (Suc n) \<noteq> (odd c \<and> bit (0xA001 :: int) n)"
  by (simp add: crc_shift_def bit_xor_iff bit_drop_bit_eq and_one_eq odd_iff_mod_2_eq_one)

lemma crc_shift_range:
  assumes "0 \<le> c" "c < 2 ^ 16"
  shows "0 \<le> crc_shift c" "crc_shift c < 2 ^ 16"
proof -
  show "0 \<le> crc_shift c" using assms by (simp add: crc_shift_def)
  have "take_bit 16 (crc_shift c) = crc_shift c"
    using assms by (simp add: crc_shift_def take_bit_xor take_bit_int_eq_self drop_bit_eq_div)
  then show "crc_shift c < 2 ^ 16" using take_bit_int_less_exp [of 16 "crc_shift c"] by simp
qed

lemma high_bit_clear: "0 \<le> c \<Longrightarrow> c < 2 ^ 16 \<Longrightarrow> \<not> bit (c :: int) 16"
  by (metis bit_take_bit_iff order_less_irrefl take_bit_int_eq_self)

lemma crc_shift_inj:
  assumes "0 \<le> c" "c < 2 ^ 16" "0 \<le> d" "d < 2 ^ 16" "crc_shift c = crc_shift d"
  shows "c = d"
proof (rule bit_eqI)
  fix n
  have eq: "bit (crc_shift c) k = bit (crc_shift d) k" for k using assms(5) by simp
  have par: "odd c = odd d"
    using eq [of 15] high_bit_clear [OF assms(1,2)] high_bit_clear [OF assms(3,4)]
    by (simp add: crc_shift_bit)
  show "bit c n = bit d n"
  proof (cases n)
    case 0
    then show ?thesis using par by (simp add: bit_0)
  next
    case (Suc k)
    then show ?thesis using eq [of k] par by (auto simp: crc_shift_bit)
  qed
qed

definition crc_state :: "int \<Rightarrow> bool" where "crc_state c \<longleftrightarrow> 0 \<le> c \<and> c < 2 ^ 16"

lemma crc_shifts: "crc_state c \<Longrightarrow> crc_state ((crc_shift ^^ k) c)"
proof (induction k)
  case (Suc k)
  then show ?case using crc_shift_range [of "(crc_shift ^^ k) c"] by (simp add: crc_state_def)
qed simp

lemma crc_shifts_inj:
  "crc_state c \<Longrightarrow> crc_state d \<Longrightarrow> (crc_shift ^^ k) c = (crc_shift ^^ k) d \<Longrightarrow> c = d"
proof (induction k)
  case (Suc k)
  then show ?case
    using crc_shift_inj [of "(crc_shift ^^ k) c" "(crc_shift ^^ k) d"] crc_shifts [of c k] crc_shifts [of d k]
    by (simp add: crc_state_def)
qed simp

lemma crc_xor: "crc_state c \<Longrightarrow> 0 \<le> b \<Longrightarrow> b < 256 \<Longrightarrow> crc_state (c XOR b)"
  unfolding crc_state_def
  using take_bit_int_less_exp [of 16 "c XOR b"] by (simp add: take_bit_xor take_bit_int_eq_self)

definition is_byte :: "int \<Rightarrow> bool" where "is_byte b \<longleftrightarrow> 0 \<le> b \<and> b < 256"

lemma crc_byte_state: "crc_state c \<Longrightarrow> is_byte b \<Longrightarrow> crc_state (crc_byte c b)"
  by (simp add: crc_byte_def is_byte_def crc_xor crc_shifts)

lemma crc_byte_inj_state:
  "crc_state c \<Longrightarrow> crc_state d \<Longrightarrow> is_byte b \<Longrightarrow> crc_byte c b = crc_byte d b \<Longrightarrow> c = d"
  unfolding crc_byte_def is_byte_def
  by (metis xor.assoc xor_self_eq xor.right_neutral crc_shifts_inj crc_xor)

lemma crc_byte_inj_byte:
  "crc_state c \<Longrightarrow> is_byte a \<Longrightarrow> is_byte b \<Longrightarrow> crc_byte c a = crc_byte c b \<Longrightarrow> a = b"
  unfolding crc_byte_def is_byte_def
  by (metis xor.assoc xor_self_eq xor.left_neutral crc_shifts_inj crc_xor)

lemma crc_fold_state: "crc_state c \<Longrightarrow> \<forall>b \<in> set xs. is_byte b \<Longrightarrow> crc_state (foldl crc_byte c xs)"
  by (induction xs arbitrary: c) (auto intro: crc_byte_state)

lemma crc_fold_inj:
  "crc_state c \<Longrightarrow> crc_state d \<Longrightarrow> \<forall>b \<in> set xs. is_byte b \<Longrightarrow>
   foldl crc_byte c xs = foldl crc_byte d xs \<Longrightarrow> c = d"
  by (induction xs arbitrary: c d) (auto dest: crc_byte_inj_state intro: crc_byte_state)


text \<open>
  C28: changing any single byte of a file changes its CRC-16, so \<open>main\<close> never accepts a
  member with one corrupted byte.
\<close>

lemma crc16_detects_byte:
  assumes "\<forall>x \<in> set xs. is_byte x" "\<forall>y \<in> set ys. is_byte y"
    and "is_byte a" "is_byte b" "a \<noteq> b"
  shows "crc16 (xs @ a # ys) \<noteq> crc16 (xs @ b # ys)"
proof
  assume eq: "crc16 (xs @ a # ys) = crc16 (xs @ b # ys)"
  have s: "crc_state (foldl crc_byte 0 xs)" using assms(1) by (intro crc_fold_state) (auto simp: crc_state_def)
  have "crc_byte (foldl crc_byte 0 xs) a = crc_byte (foldl crc_byte 0 xs) b"
    using eq by (intro crc_fold_inj [OF crc_byte_state [OF s assms(3)] crc_byte_state [OF s assms(4)] assms(2)])
      (simp add: crc16_def)
  then show False using crc_byte_inj_byte [OF s assms(3,4)] assms(5) by blast
qed

lemma crc16_detects_byte_witness: "crc16 ([1, 2] @ 65 # [3]) \<noteq> crc16 ([1, 2] @ 66 # [3])"
  using crc16_detects_byte [of "[1, 2]" "[3]" 65 66] by (simp add: is_byte_def)

section \<open>The decompressor's results\<close>

text \<open>The symbols and lengths of every table are natural numbers.\<close>

definition nonneg :: "int list \<Rightarrow> bool" where "nonneg xs \<longleftrightarrow> (\<forall>x \<in> set xs. 0 \<le> x)"

definition hf_ok :: "huffman \<Rightarrow> bool" where
  "hf_ok h \<longleftrightarrow> nonneg (hf_symbols h) \<and> (\<forall>s. hf_single h = Some s \<longrightarrow> 0 \<le> s)"

definition lha_error :: "py_error \<Rightarrow> bool" where
  "lha_error e \<longleftrightarrow> e = IndexError \<or> e = ValueError ''bad Huffman code''"

named_theorems lha_errors \<open>which exceptions a routine raises\<close>

lemma bindR_eq_Inl: "bindR r f = Inl e \<longleftrightarrow> r = Inl e \<or> (\<exists>x. r = Inr x \<and> f x = Inl e)"
  by (cases r) auto

lemma py_get_error [lha_errors]: "py_get xs i = Inl e \<Longrightarrow> lha_error e"
  by (auto simp: py_get_def py_index_def lha_error_def bindR_eq_Inl split: if_splits)

lemma py_set_error [lha_errors]: "py_set xs i v = Inl e \<Longrightarrow> lha_error e"
  by (auto simp: py_set_def py_index_def lha_error_def bindR_eq_Inl split: if_splits)

lemma count_lengths_error [lha_errors]: "count_lengths ns cnt = Inl e \<Longrightarrow> lha_error e"
  by (induction ns cnt rule: count_lengths.induct) (auto simp: bindR_eq_Inl intro: lha_errors)

lemma Huffman_error [lha_errors]: "Huffman lengths single = Inl e \<Longrightarrow> lha_error e"
  by (auto simp: Huffman_def bindR_eq_Inl intro: lha_errors)

lemma decode_loop_error [lha_errors]: "decode_loop h ns code first index b = Inl e \<Longrightarrow> lha_error e"
proof (induction ns arbitrary: code first index b)
  case (Cons n ns)
  then show ?case by (auto simp: bindR_eq_Inl Let_def case_prod_beta intro: lha_errors split: if_splits)
qed (auto simp: lha_error_def)

lemma hf_decode_error [lha_errors]: "hf_decode h b = Inl e \<Longrightarrow> lha_error e"
  by (auto simp: hf_decode_def intro: lha_errors split: option.splits)

lemma read_pt_error [lha_errors]: "read_pt b nn nbit special = Inl e \<Longrightarrow> lha_error e"
  by (auto simp: read_pt_def bindR_eq_Inl Let_def case_prod_beta intro: lha_errors split: if_splits)

lemma c_round_error [lha_errors]: "c_round pt b = Inl e \<Longrightarrow> lha_error e"
  by (auto simp: c_round_def bindR_eq_Inl Let_def case_prod_beta intro: lha_errors split: if_splits)

lemma c_loop_error [lha_errors]: "c_loop n pt lengths b = Inl e \<Longrightarrow> lha_error e"
  by (induction n pt lengths b rule: c_loop.induct)
    (subst (asm) (2) c_loop.simps, auto intro: lha_errors split: if_splits sum.splits)

lemma read_c_error [lha_errors]: "read_c b pt = Inl e \<Longrightarrow> lha_error e"
  by (auto simp: read_c_def bindR_eq_Inl Let_def case_prod_beta intro: lha_errors split: if_splits)

lemma new_block_error [lha_errors]: "new_block st = Inl e \<Longrightarrow> lha_error e"
  by (auto simp: new_block_def bindR_eq_Inl Let_def case_prod_beta intro: lha_errors split: if_splits)

lemma copy_match_error [lha_errors]: "copy_match src k n out = Inl e \<Longrightarrow> lha_error e"
  by (induction src k n out rule: copy_match.induct) (auto simp: bindR_eq_Inl intro: lha_errors)


named_theorems lha_ok \<open>natural-number symbols\<close>

lemma nonneg_simps [simp]:
  "nonneg []" "nonneg (x # xs) \<longleftrightarrow> 0 \<le> x \<and> nonneg xs" "nonneg (xs @ ys) \<longleftrightarrow> nonneg xs \<and> nonneg ys"
  "nonneg (replicate n 0)"
  by (auto simp: nonneg_def)

lemma symbols_nonneg [simp]: "nonneg (symbols_of lengths)"
  by (auto simp: nonneg_def symbols_of_def)

lemma Huffman_ok [lha_ok]: "Huffman lengths single = Inr h \<Longrightarrow> (\<forall>s. single = Some s \<longrightarrow> 0 \<le> s) \<Longrightarrow> hf_ok h"
  by (auto simp: Huffman_def hf_ok_def bindR_eq_Inr)

lemma decode_loop_ok:
  "nonneg (hf_symbols h) \<Longrightarrow> decode_loop h ns code first index b = Inr (s, b') \<Longrightarrow> 0 \<le> s"
proof (induction ns arbitrary: code first index b)
  case (Cons n ns)
  then show ?case by (auto simp: bindR_eq_Inr Let_def case_prod_beta nonneg_def dest: py_get_all split: if_splits)
qed simp

lemma hf_decode_ok [lha_ok]: "hf_decode h b = Inr (s, b') \<Longrightarrow> hf_ok h \<Longrightarrow> 0 \<le> s"
  by (auto simp: hf_decode_def hf_ok_def dest: decode_loop_ok split: option.splits)

lemma read_pt_ok [lha_ok]: "read_pt b nn nbit special = Inr (h, b') \<Longrightarrow> hf_ok h"
  by (auto simp: read_pt_def bindR_eq_Inr Let_def case_prod_beta get_bits_nonneg intro: Huffman_ok split: if_splits)

lemma read_c_ok [lha_ok]: "read_c b pt = Inr (h, b') \<Longrightarrow> hf_ok h"
  by (auto simp: read_c_def bindR_eq_Inr Let_def case_prod_beta get_bits_nonneg intro: Huffman_ok split: if_splits)

text \<open>What \<open>lh5\<close> keeps along its loop: natural-number codes and an output of bytes.\<close>

definition lh5_inv :: "lh5_state \<Rightarrow> bool" where
  "lh5_inv st \<longleftrightarrow> hf_ok (l_c st) \<and> hf_ok (l_p st) \<and> (\<forall>x \<in> set (l_out st). is_byte x)"

lemma new_block_inv: "new_block st = Inr st' \<Longrightarrow> lh5_inv st \<Longrightarrow> lh5_inv st'"
  by (auto simp: new_block_def lh5_inv_def bindR_eq_Inr Let_def case_prod_beta
      dest: read_pt_ok read_c_ok split: if_splits)

lemma copy_match_bytes:
  "copy_match src k n out = Inr out' \<Longrightarrow> \<forall>x \<in> set out. is_byte x \<Longrightarrow> \<forall>x \<in> set out'. is_byte x"
proof (induction n arbitrary: k out)
  case (Suc n)
  from Suc.prems(1) obtain x where x: "py_get out (src + int k) = Inr x" "copy_match src (Suc k) n (out @ [x]) = Inr out'"
    by (auto simp: bindR_eq_Inr)
  have "is_byte x" using py_get_all [OF x(1) Suc.prems(2)] .
  then have "\<forall>y \<in> set (out @ [x]). is_byte y" using Suc.prems(2) by auto
  then show ?case by (rule Suc.IH [OF x(2)])
qed simp

lemma match_distance_error [lha_errors]:
  assumes "match_distance p b = Inl e" "hf_ok p"
  shows "lha_error e"
proof (cases "hf_decode p b")
  case (Inl f)
  then show ?thesis using assms(1) hf_decode_error [OF Inl] by (simp add: match_distance_def)
next
  case (Inr jb)
  then obtain j b' where jb: "hf_decode p b = Inr (j, b')" by (cases jb) auto
  show ?thesis using assms hf_decode_ok [OF jb] jb by (simp add: match_distance_def Let_def case_prod_beta split: if_splits)
qed

text \<open>One round, by the symbol read: a byte is appended, a match is copied.\<close>

lemma lh5_round_cases:
  assumes "lh5_inv st0"
  obtains (error) e where "lh5_round st0 = Inl e" "lha_error e"
  | (byte) st c b where "new_block st0 = Inr st" "is_byte c"
      "lh5_round st0 = Inr (st\<lparr>l_left := l_left st - 1, l_bits := b, l_out := l_out st @ [c]\<rparr>)"
  | (copy) st src n b out where "new_block st0 = Inr st" "copy_match src 0 n (l_out st) = Inr out"
      "lh5_round st0 = Inr (st\<lparr>l_left := l_left st - 1, l_bits := b, l_out := out\<rparr>)"
proof (cases "new_block st0")
  case (Inl e)
  then show ?thesis using error [of e] by (simp add: lh5_round_def new_block_error)
next
  case st: (Inr st)
  have inv: "lh5_inv st" using new_block_inv [OF st assms] .
  show ?thesis
  proof (cases "hf_decode (l_c st) (l_bits st)")
    case (Inl e)
    then show ?thesis using error [of e] st by (simp add: lh5_round_def hf_decode_error)
  next
    case (Inr cb)
    then obtain c b where cb: "hf_decode (l_c st) (l_bits st) = Inr (c, b)" by (cases cb) auto
    have c: "0 \<le> c" using hf_decode_ok [OF cb] inv by (simp add: lh5_inv_def)
    show ?thesis
    proof (cases "c < 256")
      case True
      then show ?thesis using byte [OF st, of c b] st cb c by (simp add: lh5_round_def is_byte_def)
    next
      case False
      show ?thesis
      proof (cases "match_distance (l_p st) b")
        case (Inl e)
        then show ?thesis using error [of e] st cb c False inv match_distance_error [of "l_p st" b e]
          by (simp add: lh5_round_def lh5_inv_def)
      next
        case (Inr jb)
        then obtain j b' where jb: "match_distance (l_p st) b = Inr (j, b')" by (cases jb) auto
        show ?thesis
        proof (cases "copy_match (int (length (l_out st)) - j - 1) 0 (nat (c - 253)) (l_out st)")
          case (Inl e)
          then show ?thesis using error [of e] st cb c False jb copy_match_error [OF Inl] by (simp add: lh5_round_def)
        next
          case (Inr out)
          then show ?thesis using copy [OF st Inr, of b'] st cb c False jb by (simp add: lh5_round_def)
        qed
      qed
    qed
  qed
qed

lemma lh5_round_error: "lh5_inv st \<Longrightarrow> lh5_round st = Inl e \<Longrightarrow> lha_error e"
  by (erule lh5_round_cases) auto

lemma lh5_round_inv:
  assumes "lh5_inv st" "lh5_round st = Inr st'"
  shows "lh5_inv st'"
  using assms(1)
proof (cases rule: lh5_round_cases)
  case (byte s c b)
  then show ?thesis using new_block_inv [OF byte(1) assms(1)] assms(2) by (auto simp: lh5_inv_def)
next
  case (copy s src n b out)
  then show ?thesis using new_block_inv [OF copy(1) assms(1)] copy_match_bytes [OF copy(2)] assms(2)
    by (auto simp: lh5_inv_def)
qed (use assms(2) in simp)

lemma lh5_loop_result:
  "lh5_inv st \<Longrightarrow> case lh5_loop sz st of Inl e \<Rightarrow> lha_error e | Inr st' \<Rightarrow> lh5_inv st' \<and> sz \<le> int (length (l_out st'))"
proof (induction sz st rule: lh5_loop.induct)
  case (1 sz st)
  show ?case
  proof (cases "int (length (l_out st)) < sz")
    case True
    show ?thesis
    proof (cases "lh5_round st")
      case (Inl e)
      then show ?thesis using True lh5_round_error [OF 1(2) Inl] by (simp add: lh5_loop.simps [of sz st])
    next
      case (Inr st')
      then show ?thesis using 1(1) [OF True Inr] lh5_round_inv [OF 1(2) Inr] True
        by (simp add: lh5_loop.simps [of sz st])
    qed
  next
    case False
    then show ?thesis using 1(2) by (simp add: lh5_loop.simps [of sz st])
  qed
qed

text \<open>
  C29: the decompressor returns on every input: either exactly \<open>size\<close> bytes, or one of two
  exceptions (a code word outside the code, an index outside a table or the output).
\<close>

lemma lh5_result:
  assumes "0 \<le> sz"
  shows "case lh5 xs sz of
      Inl e \<Rightarrow> e = IndexError \<or> e = ValueError ''bad Huffman code''
    | Inr out \<Rightarrow> int (length out) = sz \<and> (\<forall>x \<in> set out. is_byte x)"
proof -
  let ?st = "\<lparr>l_bits = \<lparr>b_data = xs, b_pos = 0\<rparr>, l_out = [], l_left = 0, l_c = no_code, l_p = no_code\<rparr>"
  have "lh5_inv ?st" by (simp add: lh5_inv_def hf_ok_def no_code_def)
  from lh5_loop_result [OF this, of sz] assms show ?thesis
    by (cases "lh5_loop sz ?st")
      (auto simp: lh5_def lha_error_def lh5_inv_def py_slice_def py_bound_def min_def dest: in_set_takeD)
qed

lemma lh5_result_witness:
  "case lh5 [0, 1, 0, 0, 0, 0] 0 of
      Inl e \<Rightarrow> e = IndexError \<or> e = ValueError ''bad Huffman code''
    | Inr out \<Rightarrow> int (length out) = 0 \<and> (\<forall>x \<in> set out. is_byte x)"
  by (rule lh5_result) simp

section \<open>Decoding inverts the canonical code\<close>

definition count_of :: "int list \<Rightarrow> nat \<Rightarrow> int" where
  "count_of lengths n = (if n = 0 then 0 else int (count_list lengths (int n)))"

text \<open>The first code word of each length, and the number of shorter ones.\<close>

primrec first_code :: "int list \<Rightarrow> nat \<Rightarrow> int" where
  "first_code lengths 0 = 0"
| "first_code lengths (Suc n) = 2 * (first_code lengths n + count_of lengths n)"

primrec first_index :: "int list \<Rightarrow> nat \<Rightarrow> int" where
  "first_index lengths 0 = 0"
| "first_index lengths (Suc n) = first_index lengths n + count_of lengths n"

definition canonical_code :: "int list \<Rightarrow> nat \<Rightarrow> int" where
  "canonical_code lengths s =
     first_code lengths (nat (lengths ! s)) + int (count_list (take s lengths) (lengths ! s))"

lemma first_index_nonneg: "0 \<le> first_index lengths n"
  by (induction n) (simp_all add: count_of_def)

lemma count_of_nonneg: "0 \<le> count_of lengths n" by (simp add: count_of_def)

lemma first_code_grows:
  assumes "n < m"
  shows "2 ^ (m - n) * (first_code lengths n + count_of lengths n) \<le> first_code lengths m"
  using assms
proof (induction m)
  case (Suc m)
  show ?case
  proof (cases "n = m")
    case False
    then have "2 ^ (m - n) * (first_code lengths n + count_of lengths n) \<le> first_code lengths m + count_of lengths m"
      using Suc count_of_nonneg [of lengths m] by simp
    then show ?thesis using False Suc.prems by (simp add: Suc_diff_le mult.assoc)
  qed simp
qed simp

lemma get_loop_bits: "snd (get_loop k b v) = b\<lparr>b_pos := b_pos b + k\<rparr>"
  by (induction k b v rule: get_loop.induct) simp_all

text \<open>The value of the first \<open>n\<close> bits.\<close>

definition bits_val :: "bits \<Rightarrow> nat \<Rightarrow> int" where "bits_val b n = fst (get_loop n b 0)"

lemma next_bit_range: "next_bit b = 0 \<or> next_bit b = 1"
  by (auto simp: next_bit_def Let_def and_one_eq)

lemma get_loop_Suc: "fst (get_loop (Suc n) b v) = push_bit 1 (fst (get_loop n b v)) OR next_bit (b\<lparr>b_pos := b_pos b + n\<rparr>)"
proof (induction n arbitrary: b v)
  case (Suc n)
  show ?case using Suc [of "b\<lparr>b_pos := b_pos b + 1\<rparr>" "push_bit 1 v OR next_bit b"] by simp
qed simp

lemma double_or_bit: "x = 0 \<or> x = 1 \<Longrightarrow> push_bit 1 v OR x = 2 * v + (x :: int)"
  by (auto simp: push_bit_double or_one_eq)

lemma bits_val_Suc: "bits_val b (Suc n) = 2 * bits_val b n + next_bit (b\<lparr>b_pos := b_pos b + n\<rparr>)"
  unfolding bits_val_def get_loop_Suc by (rule double_or_bit [OF next_bit_range])

lemma bits_val_prefix:
  "n \<le> m \<Longrightarrow> bits_val b n * 2 ^ (m - n) \<le> bits_val b m \<and> bits_val b m < (bits_val b n + 1) * 2 ^ (m - n)"
proof (induction m)
  case (Suc m)
  show ?case
  proof (cases "n = Suc m")
    case False
    then have "bits_val b n * 2 ^ (m - n) \<le> bits_val b m" "bits_val b m < (bits_val b n + 1) * 2 ^ (m - n)"
      using Suc by simp_all
    moreover have "(2 :: int) ^ (Suc m - n) = 2 * 2 ^ (m - n)" using False Suc.prems by (simp add: Suc_diff_le)
    ultimately show ?thesis
      using next_bit_range [of "b\<lparr>b_pos := b_pos b + m\<rparr>"] unfolding bits_val_Suc by (auto simp: algebra_simps)
  qed simp
qed simp

lemma count_lengths_counts:
  "count_lengths ns cnt = Inr cnt' \<Longrightarrow> \<forall>n \<in> set ns. 0 \<le> n \<Longrightarrow>
   length cnt' = length cnt \<and> (\<forall>k < length cnt. cnt' ! k = cnt ! k + int (count_list ns (int k)))"
proof (induction ns arbitrary: cnt)
  case (Cons n ns)
  from Cons.prems(1) obtain c cnt1 where c: "py_get cnt n = Inr c" "py_set cnt n (c + 1) = Inr cnt1"
    "count_lengths ns cnt1 = Inr cnt'" by (auto simp: bindR_eq_Inr)
  have n: "0 \<le> n" using Cons.prems by simp
  then have in_cnt: "nat n < length cnt" "c = cnt ! nat n" "cnt1 = cnt[nat n := c + 1]"
    using c(1,2) by (auto simp: py_get_def py_set_def py_index_def bindR_eq_Inr split: if_splits)
  have "int k = n \<longleftrightarrow> k = nat n" for k using n by auto
  then show ?case using Cons.IH [OF c(3)] Cons.prems(2) in_cnt n by (auto simp: nth_list_update)
qed simp

text \<open>The symbols of one length, in order; the rank of a symbol among them.\<close>

definition of_length :: "int list \<Rightarrow> nat \<Rightarrow> int list" where
  "of_length lengths n = map (int \<circ> fst) (filter (\<lambda>(s, ln). ln = int n) (enumerate 0 lengths))"

lemma filter_enumerate_length: "length (filter (\<lambda>(s, ln). ln = x) (enumerate k xs)) = count_list xs x"
  by (induction xs arbitrary: k) auto

lemma filter_enumerate_nth:
  "s < length xs \<Longrightarrow> xs ! s = x \<Longrightarrow>
   filter (\<lambda>(i, ln). ln = x) (enumerate k xs) ! count_list (take s xs) x = (k + s, x)"
proof (induction xs arbitrary: k s)
  case (Cons y ys)
  then show ?case by (cases s) auto
qed simp

lemma of_length_length: "length (of_length lengths n) = count_list lengths (int n)"
  by (simp add: of_length_def filter_enumerate_length)

lemma count_take_less: "s < length xs \<Longrightarrow> count_list (take s xs) (xs ! s) < count_list xs (xs ! s)"
proof -
  assume s: "s < length xs"
  have "count_list xs (xs ! s) = count_list (take s xs @ xs ! s # drop (Suc s) xs) (xs ! s)"
    using id_take_nth_drop [OF s] by simp
  then show ?thesis by simp
qed

lemma of_length_nth:
  "s < length lengths \<Longrightarrow> lengths ! s = int n \<Longrightarrow>
   of_length lengths n ! count_list (take s lengths) (int n) = int s"
  using count_take_less [of s lengths] filter_enumerate_nth [of s lengths "int n" 0]
  by (simp add: of_length_def filter_enumerate_length)

lemma symbols_of_nth:
  assumes "1 \<le> n" "n < 17" "r < count_list lengths (int n)"
  shows "first_index lengths n + int r < int (length (symbols_of lengths))"
    and "symbols_of lengths ! nat (first_index lengths n + int r) = of_length lengths n ! r"
proof -
  have split: "symbols_of lengths =
      concat (map (of_length lengths) [1..<n]) @ of_length lengths n @ concat (map (of_length lengths) [Suc n..<17])"
    using assms(1,2) upt_add_eq_append [of 1 n "17 - n"]
    by (simp add: symbols_of_def of_length_def [abs_def] upt_conv_Cons)
  have "int (length (concat (map (of_length lengths) [1..<n]))) = first_index lengths n" using assms(1)
  proof (induction n rule: dec_induct)
    case (step k)
    then show ?case by (simp add: of_length_length count_of_def)
  qed (simp add: count_of_def)
  then have len: "nat (first_index lengths n + int r) = length (concat (map (of_length lengths) [1..<n])) + r"
    "first_index lengths n = int (length (concat (map (of_length lengths) [1..<n])))" by simp_all
  show "first_index lengths n + int r < int (length (symbols_of lengths))"
    unfolding split len(2) using assms(3) by (simp add: of_length_length)
  show "symbols_of lengths ! nat (first_index lengths n + int r) = of_length lengths n ! r"
    unfolding split len(1) using assms(3) by (simp add: nth_append of_length_length)
qed

text \<open>What a table built from \<open>lengths\<close> holds.\<close>

lemma Huffman_table:
  assumes "Huffman lengths None = Inr h" "nonneg lengths"
  shows "hf_single h = None" "hf_symbols h = symbols_of lengths"
    "\<And>n. n < 17 \<Longrightarrow> py_get (hf_count h) (int n) = Inr (count_of lengths n)"
proof -
  obtain cnt where cnt: "count_lengths lengths (replicate 17 0) = Inr cnt"
    and h: "h = \<lparr>hf_single = None, hf_count = cnt[0 := 0], hf_symbols = symbols_of lengths\<rparr>"
    using assms(1) by (auto simp: Huffman_def bindR_eq_Inr py_set_def py_index_def split: if_splits)
  show "hf_single h = None" "hf_symbols h = symbols_of lengths" by (simp_all add: h)
  have "length cnt = 17 \<and> (\<forall>k < 17. cnt ! k = int (count_list lengths (int k)))"
    using count_lengths_counts [OF cnt] assms(2) by (simp add: nonneg_def)
  then show "py_get (hf_count h) (int n) = Inr (count_of lengths n)" if "n < 17" for n
    using that by (simp add: h count_of_def nth_list_update)
qed

lemma decode_reaches_length:
  assumes h: "Huffman lengths None = Inr h" "nonneg lengths" and m: "m < l" "l < 17"
    and code: "first_code lengths l \<le> bits_val b l"
  shows "decode_loop h [1..<17] 0 0 0 b =
    decode_loop h [Suc m..<17] (2 * bits_val b m) (first_code lengths (Suc m)) (first_index lengths (Suc m)) (b\<lparr>b_pos := b_pos b + m\<rparr>)"
  using m(1)
proof (induction m)
  case 0
  then show ?case by (simp add: bits_val_def count_of_def)
next
  case (Suc m)
  let ?b = "b\<lparr>b_pos := b_pos b + m\<rparr>"
  have step: "[Suc m..<17] = Suc m # [Suc (Suc m)..<17]" using Suc.prems m by (simp add: upt_conv_Cons)
  have val: "(2 * bits_val b m) OR next_bit ?b = bits_val b (Suc m)"
    using next_bit_range [of ?b] unfolding bits_val_Suc by (auto simp: or_one_eq)
  have "2 ^ (l - Suc m) * (first_code lengths (Suc m) + count_of lengths (Suc m)) \<le> bits_val b l"
    using first_code_grows [OF Suc.prems, of lengths] code by simp
  also have "\<dots> < (bits_val b (Suc m) + 1) * 2 ^ (l - Suc m)" using bits_val_prefix [of "Suc m" l b] Suc.prems by simp
  finally have "first_code lengths (Suc m) + count_of lengths (Suc m) < bits_val b (Suc m) + 1"
    by (simp add: mult.commute [of "2 ^ _"])
  then have later: "\<not> bits_val b (Suc m) - first_code lengths (Suc m) < count_of lengths (Suc m)" by linarith
  have "Suc m < 17" using Suc.prems m by simp
  from Huffman_table(3) [OF h this] later show ?case
    unfolding Suc.IH [OF Suc_lessD [OF Suc.prems]] step
    by (simp add: get_one Let_def val [unfolded mult.commute [of 2]] push_bit_double mult.commute)
qed

text \<open>
  C30: \<open>decode\<close> inverts the canonical code.  For every table of code lengths and every
  symbol \<open>s\<close> with a code, when the next bits are the code of \<open>s\<close>, \<open>decode\<close> returns \<open>s\<close>
  and has read exactly the bits of that code.
\<close>

lemma decode_canonical_code:
  assumes "Huffman lengths None = Inr h" "\<forall>n \<in> set lengths. 0 \<le> n \<and> n \<le> 16"
    and "s < length lengths" "0 < lengths ! s"
    and "get_bits (lengths ! s) b = (canonical_code lengths s, b')"
  shows "hf_decode h b = Inr (int s, b')"
proof -
  define l where "l = nat (lengths ! s)"
  have l: "lengths ! s = int l" "1 \<le> l" "l < 17" "l = Suc (l - 1)"
    using assms(4) assms(2) [rule_format, OF nth_mem [OF assms(3)]] by (auto simp: l_def)
  let ?r = "count_list (take s lengths) (int l)" and ?b = "b\<lparr>b_pos := b_pos b + (l - 1)\<rparr>"
  have code: "bits_val b l = first_code lengths l + int ?r" and b': "b' = b\<lparr>b_pos := b_pos b + l\<rparr>"
    using assms(5) get_loop_bits [of l b 0] l by (simp_all add: get_bits_def bits_val_def canonical_code_def)
  have r: "?r < count_list lengths (int l)" using count_take_less [OF assms(3)] l by simp
  have h: "Huffman lengths None = Inr h" "nonneg lengths" using assms(1,2) by (simp_all add: nonneg_def)
  note table = Huffman_table [OF h]
  have "hf_decode h b = decode_loop h [1..<17] 0 0 0 b" using table(1) by (simp add: hf_decode_def)
  also have "\<dots> = decode_loop h (l # [Suc l..<17]) (2 * bits_val b (l - 1)) (first_code lengths l) (first_index lengths l) ?b"
    using decode_reaches_length [OF h, of "l - 1" l b] l code by (simp add: upt_conv_Cons)
  also have "\<dots> = Inr (int s, b')"
  proof -
    have val: "(2 * bits_val b (l - 1)) OR next_bit ?b = bits_val b l"
      using next_bit_range [of ?b] bits_val_Suc [of b "l - 1"] l by (auto simp: or_one_eq)
    have "bits_val b l - first_code lengths l < count_of lengths l" using code r l by (simp add: count_of_def)
    moreover have "py_get (hf_symbols h) (first_index lengths l + bits_val b l - first_code lengths l) = Inr (int s)"
      using symbols_of_nth [OF l(2,3) r] of_length_nth [OF assms(3) l(1)] table(2) code first_index_nonneg [of lengths l]
      by simp
    ultimately show ?thesis using table(3) [OF l(3)] l val by (simp add: get_one b' Let_def)
  qed
  finally show ?thesis .
qed

lemma decode_canonical_code_witness:
  "hf_decode \<lparr>hf_single = None, hf_count = [0, 1, 2] @ replicate 14 0, hf_symbols = [1, 0, 2]\<rparr> \<lparr>b_data = [0xC0], b_pos = 0\<rparr>
   = Inr (int 2, \<lparr>b_data = [0xC0], b_pos = 2\<rparr>)"
proof -
  have "Huffman [2, 1, 2] None = Inr \<lparr>hf_single = None, hf_count = [0, 1, 2] @ replicate 14 0, hf_symbols = [1, 0, 2]\<rparr>"
    by code_simp
  moreover have "get_bits ([2, 1, 2] ! 2) \<lparr>b_data = [0xC0], b_pos = 0\<rparr> = (canonical_code [2, 1, 2] 2, \<lparr>b_data = [0xC0], b_pos = 2\<rparr>)"
    by code_simp
  ultimately show ?thesis using decode_canonical_code [of "[2, 1, 2]" _ 2] by simp
qed

end
