(* ===== verification/Timing_Decode.thy ===== *)
theory Timing_Decode
  imports Prelude
begin

text \<open>
  \<open>sim/tools/perf_model_603e.py\<close>, the decoder of the 603e cycle model: class \<open>Insn\<close> with
  \<open>_decode\<close>, \<open>_branch\<close>, \<open>_sru\<close> and \<open>_x31\<close>, and the helpers \<open>sext\<close>, \<open>access_bytes\<close>,
  \<open>significant_bytes\<close>, \<open>predict_taken\<close>, \<open>branch_targets\<close>.  The theory shows that every
  decoded instruction has a positive latency and register sets within the register files,
  which instructions write more general registers than there are renames, and that
  \<open>significant_bytes\<close> is the least number of bytes that holds a signed value.
\<close>

section \<open>Helpers\<close>

definition sext :: "int \<Rightarrow> nat \<Rightarrow> int" where
  "sext v n = (if v AND push_bit (n - 1) 1 \<noteq> 0 then v - push_bit n 1 else v)"

definition field5 :: "int \<Rightarrow> nat \<Rightarrow> int" where "field5 w s = drop_bit s w AND 31"

text \<open>\<open>while v >> (8 * n - 1) and n < 4: n += 1\<close>\<close>

function byte_loop :: "int \<Rightarrow> nat \<Rightarrow> nat" where
  "byte_loop v n = (if drop_bit (8 * n - 1) v \<noteq> 0 \<and> n < 4 then byte_loop v (n + 1) else n)"
  by auto
termination by (relation "measure (\<lambda>(v, n). 4 - n)") auto

declare byte_loop.simps [simp del]

definition significant_bytes :: "int \<Rightarrow> nat" where
  "significant_bytes v0 =
     (let v = v0 AND 0xFFFFFFFF;
          v = (if v AND 0x80000000 \<noteq> 0 then NOT v AND 0xFFFFFFFF else v)
      in byte_loop v 1)"

section \<open>Decoded instructions\<close>

datatype tunit = IU | SRU | ADD | LSU | BPU | FPU

record tinsn =
  t_pc :: int
  t_word :: int
  t_unit :: tunit
  t_lat :: int
  t_src :: "int set"
  t_dst :: "int set"
  t_crs :: "int set"
  t_crd :: "int set"
  t_cr_fast :: bool
  t_store :: bool
  t_load :: bool
  t_serial :: bool
  t_dserial :: bool
  t_lr_r :: bool
  t_lr_w :: bool
  t_ctr_r :: bool
  t_ctr_w :: bool
  t_bo :: int
  t_bi :: int
  t_disp :: int
  t_lk :: bool
  t_kind :: string

definition tinsn_blank :: "int \<Rightarrow> int \<Rightarrow> tinsn" where
  "tinsn_blank pc w =
     \<lparr>t_pc = pc, t_word = w, t_unit = IU, t_lat = 1, t_src = {}, t_dst = {}, t_crs = {}, t_crd = {},
      t_cr_fast = False, t_store = False, t_load = False, t_serial = False, t_dserial = False,
      t_lr_r = False, t_lr_w = False, t_ctr_r = False, t_ctr_w = False, t_bo = 0, t_bi = 0, t_disp = 0,
      t_lk = False, t_kind = []\<rparr>"

definition ra_or_0 :: "int \<Rightarrow> int set" where "ra_or_0 ra = (if ra \<noteq> 0 then {ra} else {})"

definition rc_cr0 :: "bool \<Rightarrow> tinsn \<Rightarrow> tinsn" where
  "rc_cr0 rc i = (if rc then i\<lparr>t_crd := insert 0 (t_crd i)\<rparr> else i)"

definition branch_insn :: "int \<Rightarrow> string \<Rightarrow> tinsn \<Rightarrow> tinsn" where
  "branch_insn w kind i =
     (let bo = field5 w 21; bi = field5 w 16; lk = (w AND 1 \<noteq> 0);
          i = i\<lparr>t_unit := BPU, t_kind := kind, t_bo := bo, t_bi := bi, t_lk := lk, t_lr_w := lk\<rparr>;
          i = (if bo AND 0x10 = 0 then i\<lparr>t_crs := {drop_bit 2 bi}\<rparr> else i)
      in if bo AND 0x04 = 0 then i\<lparr>t_ctr_r := True, t_ctr_w := True\<rparr> else i)"

definition sru_insn :: "int \<Rightarrow> int set \<Rightarrow> int set \<Rightarrow> tinsn \<Rightarrow> tinsn" where
  "sru_insn lat crs crd i =
     i\<lparr>t_unit := SRU, t_lat := lat, t_serial := True, t_kind := ''sru'', t_crs := crs, t_crd := crd\<rparr>"

section \<open>Opcode 31\<close>

definition x_loads :: "(int \<times> int) list" where
  "x_loads = [(23, 0), (55, 1), (87, 0), (119, 1), (279, 0), (311, 1), (343, 0), (375, 1), (534, 0), (790, 0), (20, 0)]"

definition x_stores :: "(int \<times> int) list" where
  "x_stores = [(151, 0), (183, 1), (215, 0), (247, 1), (407, 0), (439, 1), (662, 0), (918, 0)]"

text \<open>\<open>(loads.get(xo10) or stores.get(xo10)) == 1\<close>\<close>

definition x_update :: "int \<Rightarrow> bool" where
  "x_update xo =
     (case map_of x_loads xo of
        Some v \<Rightarrow> (if v \<noteq> 0 then v = 1 else map_of x_stores xo = Some 1)
      | None \<Rightarrow> map_of x_stores xo = Some 1)"

definition x_memory :: "int \<Rightarrow> int \<Rightarrow> int \<Rightarrow> int \<Rightarrow> tinsn \<Rightarrow> tinsn" where
  "x_memory rd ra rb xo i =
     (let update = x_update xo;
          i = i\<lparr>t_unit := LSU, t_lat := 2, t_src := (if update then {ra} else ra_or_0 ra) \<union> {rb}\<rparr>;
          i = (if map_of x_stores xo \<noteq> None
               then i\<lparr>t_src := insert rd (t_src i), t_store := True, t_kind := ''store''\<rparr>
               else i\<lparr>t_dst := insert rd (t_dst i), t_load := True, t_kind := ''load''\<rparr>)
      in if update then i\<lparr>t_dst := insert ra (t_dst i)\<rparr> else i)"

definition spr_field :: "int \<Rightarrow> int" where
  "spr_field w = (field5 w 16) OR push_bit 5 (field5 w 11)"

definition xo_arith :: "int list" where
  "xo_arith = [8, 10, 11, 40, 75, 104, 136, 138, 200, 202, 232, 234, 235, 266, 459, 491]"

definition x_arith :: "int \<Rightarrow> int \<Rightarrow> int \<Rightarrow> bool \<Rightarrow> int \<Rightarrow> int \<Rightarrow> int \<Rightarrow> tinsn \<Rightarrow> tinsn" where
  "x_arith rd ra rb rc xo9 mul div_cycles i =
     (let i = i\<lparr>t_dst := {rd}, t_src := {ra} \<union> (if xo9 \<notin> {104, 200, 202, 232, 234} then {rb} else {}), t_kind := ''int''\<rparr>;
          i = (if xo9 = 266 \<and> \<not> rc then i\<lparr>t_unit := ADD, t_kind := ''add''\<rparr>
               else if xo9 \<in> {11, 75, 235} then i\<lparr>t_lat := mul, t_kind := ''mul''\<rparr>
               else if xo9 \<in> {459, 491} then i\<lparr>t_lat := div_cycles, t_kind := ''div''\<rparr>
               else i)
      in rc_cr0 rc i)"

definition x_logical :: "int \<Rightarrow> int \<Rightarrow> int \<Rightarrow> bool \<Rightarrow> int \<Rightarrow> tinsn \<Rightarrow> tinsn" where
  "x_logical rd ra rb rc xo i =
     rc_cr0 rc (i\<lparr>t_dst := {ra}, t_src := {rd} \<union> (if xo \<notin> {26, 824, 922, 954} then {rb} else {}), t_kind := ''int''\<rparr>)"

definition mtcrf_fields :: "int \<Rightarrow> int set" where
  "mtcrf_fields w = (let fxm = drop_bit 12 w AND 0xFF in set (filter (\<lambda>i. fxm AND drop_bit (nat i) 0x80 \<noteq> 0) [0..7]))"

definition decode_x31 :: "int \<Rightarrow> int \<Rightarrow> int \<Rightarrow> tinsn \<Rightarrow> tinsn" where
  "decode_x31 w mul div_cycles i =
     (let rd = field5 w 21; ra = field5 w 16; rb = field5 w 11; rc = (w AND 1 \<noteq> 0);
          xo10 = drop_bit 1 w AND 0x3FF; xo9 = drop_bit 1 w AND 0x1FF
      in if map_of x_loads xo10 \<noteq> None \<or> map_of x_stores xo10 \<noteq> None then x_memory rd ra rb xo10 i
      else if xo10 \<in> {0, 32}
      then i\<lparr>t_unit := ADD, t_src := {ra, rb}, t_kind := ''cmp'', t_crd := {drop_bit 2 rd}, t_cr_fast := True\<rparr>
      else if xo10 = 339 \<or> xo10 = 371
      then (sru_insn 1 {} {} i)\<lparr>t_dst := {rd}, t_lr_r := spr_field w = 8, t_ctr_r := spr_field w = 9\<rparr>
      else if xo10 = 467
      then (sru_insn 2 {} {} i)\<lparr>t_src := {rd}, t_lr_w := spr_field w = 8, t_ctr_w := spr_field w = 9, t_dserial := spr_field w = 1\<rparr>
      else if xo10 = 19 then (sru_insn 1 {0..7} {} i)\<lparr>t_dst := {rd}\<rparr>
      else if xo10 = 144 then (sru_insn 1 {} (mtcrf_fields w) i)\<lparr>t_src := {rd}\<rparr>
      else if xo10 \<in> {598, 854, 83, 146, 512, 86, 54, 278, 246, 1014, 982, 150}
      then (sru_insn 1 {} {} i)\<lparr>t_dserial := xo10 \<in> {598, 146, 512}\<rparr>
      else if xo9 \<in> set xo_arith then x_arith rd ra rb rc xo9 mul div_cycles i
      else x_logical rd ra rb rc xo10 i)"

section \<open>The other opcodes\<close>

definition decode_op19 :: "int \<Rightarrow> tinsn \<Rightarrow> tinsn" where
  "decode_op19 w i =
     (let rd = field5 w 21; ra = field5 w 16; rb = field5 w 11; xo10 = drop_bit 1 w AND 0x3FF
      in if xo10 = 16 then (branch_insn w ''bclr'' i)\<lparr>t_lr_r := True\<rparr>
      else if xo10 = 528 then (branch_insn w ''bcctr'' i)\<lparr>t_ctr_r := True\<rparr>
      else if xo10 = 0 then sru_insn 1 {drop_bit 2 ra} {drop_bit 2 rd} i
      else if xo10 \<in> {33, 129, 193, 225, 257, 289, 417, 449}
      then sru_insn 1 {drop_bit 2 ra, drop_bit 2 rb} {drop_bit 2 rd} i
      else (sru_insn 1 {} {} i)\<lparr>t_dserial := True\<rparr>)"

definition d_memory :: "int \<Rightarrow> int \<Rightarrow> int \<Rightarrow> tinsn \<Rightarrow> tinsn" where
  "d_memory opc rd ra i =
     (let stores = opc \<in> {36, 37, 38, 39, 44, 45}; update = opc \<in> {33, 35, 37, 39, 41, 43, 45};
          i = i\<lparr>t_unit := LSU, t_lat := 2, t_src := (if \<not> update then ra_or_0 ra else {ra})\<rparr>;
          i = (if stores then i\<lparr>t_src := insert rd (t_src i), t_store := True, t_kind := ''store''\<rparr>
               else i\<lparr>t_dst := insert rd (t_dst i), t_load := True, t_kind := ''load''\<rparr>)
      in if update then i\<lparr>t_dst := insert ra (t_dst i)\<rparr> else i)"

definition multiple_memory :: "int \<Rightarrow> int \<Rightarrow> int \<Rightarrow> tinsn \<Rightarrow> tinsn" where
  "multiple_memory opc rd ra i =
     (let n = 32 - rd in
      i\<lparr>t_unit := LSU, t_lat := (if opc = 46 then 2 + n else 1 + n), t_serial := True, t_dserial := opc = 46,
        t_src := ra_or_0 ra \<union> (if opc = 47 then {rd..31} else {}),
        t_dst := (if opc = 46 then {rd..31} else {}),
        t_load := opc = 46, t_store := opc = 47, t_kind := ''lsmw''\<rparr>)"

definition fp_memory :: "int \<Rightarrow> int \<Rightarrow> tinsn \<Rightarrow> tinsn" where
  "fp_memory opc ra i =
     i\<lparr>t_unit := LSU, t_lat := 2, t_src := ra_or_0 ra, t_store := 52 \<le> opc, t_load := \<not> 52 \<le> opc, t_kind := ''fpls''\<rparr>"

definition rotate_insn :: "int \<Rightarrow> int \<Rightarrow> int \<Rightarrow> int \<Rightarrow> tinsn \<Rightarrow> tinsn" where
  "rotate_insn opc rd ra rb i =
     i\<lparr>t_src := {rd} \<union> (if opc = 23 then {rb} else {}) \<union> (if opc = 20 then {ra} else {}), t_dst := {ra}, t_kind := ''int''\<rparr>"

definition decode_insn :: "int \<Rightarrow> int \<Rightarrow> tinsn \<Rightarrow> tinsn" where
  "decode_insn mul div_cycles i =
     (let w = t_word i; opc = drop_bit 26 w;
          rd = field5 w 21; ra = field5 w 16; rb = field5 w 11; rc = (w AND 1 \<noteq> 0)
      in if opc = 7
      then i\<lparr>t_lat := 1 + int (significant_bytes (sext (w AND 0xFFFF) 16)), t_src := {ra}, t_dst := {rd}, t_kind := ''mul''\<rparr>
      else if opc \<in> {8, 12, 13}
      then i\<lparr>t_src := {ra}, t_dst := {rd}, t_kind := ''int'', t_crd := (if opc = 13 then insert 0 (t_crd i) else t_crd i)\<rparr>
      else if opc \<in> {10, 11}
      then i\<lparr>t_unit := ADD, t_src := {ra}, t_kind := ''cmp'', t_crd := {drop_bit 2 rd}, t_cr_fast := True\<rparr>
      else if opc \<in> {14, 15} then i\<lparr>t_unit := ADD, t_src := ra_or_0 ra, t_dst := {rd}, t_kind := ''add''\<rparr>
      else if opc = 16 then (branch_insn w ''bc'' i)\<lparr>t_disp := sext (w AND 0xFFFC) 16\<rparr>
      else if opc = 18
      then i\<lparr>t_unit := BPU, t_kind := ''b'', t_lk := rc, t_lr_w := rc, t_disp := sext (w AND 0x3FFFFFC) 26\<rparr>
      else if opc = 19 then decode_op19 w i
      else if opc \<in> {20, 21, 23} then rc_cr0 rc (rotate_insn opc rd ra rb i)
      else if opc \<in> {24, 25, 26, 27, 28, 29}
      then i\<lparr>t_src := {rd}, t_dst := {ra}, t_kind := ''int'', t_crd := (if opc \<in> {28, 29} then insert 0 (t_crd i) else t_crd i)\<rparr>
      else if 32 \<le> opc \<and> opc \<le> 45 then d_memory opc rd ra i
      else if opc \<in> {46, 47} then multiple_memory opc rd ra i
      else if 48 \<le> opc \<and> opc \<le> 55 then fp_memory opc ra i
      else if opc \<in> {59, 63} then i\<lparr>t_unit := FPU, t_lat := 3, t_kind := ''fp''\<rparr>
      else if opc = 31 then decode_x31 w mul div_cycles i
      else i\<lparr>t_kind := ''other''\<rparr>)"

definition TInsn :: "int \<Rightarrow> int \<Rightarrow> int \<Rightarrow> int \<Rightarrow> tinsn" where
  "TInsn pc w mul div_cycles = decode_insn mul div_cycles (tinsn_blank pc w)"

definition access_bytes :: "int \<Rightarrow> int" where
  "access_bytes w =
     (let opc = drop_bit 26 w in
      if opc = 46 \<or> opc = 47 then 4 * (32 - field5 w 21)
      else case map_of [(32, 4), (33, 4), (34, 1), (35, 1), (36, 4), (37, 4), (38, 1), (39, 1), (40, 2), (41, 2), (42, 2),
             (43, 2), (44, 2), (45, 2), (48, 4), (49, 4), (50, 8), (51, 8), (52, 4), (53, 4), (54, 8), (55, 8)] opc of
             Some n \<Rightarrow> n | None \<Rightarrow> 0)"

definition predict_taken :: "tinsn \<Rightarrow> bool" where
  "predict_taken i =
     (if t_bo i AND 0x14 = 0x14 then True
      else let y = t_bo i AND 1; backward = (t_kind i = ''bc'' \<and> t_disp i < 0) in backward \<noteq> (y \<noteq> 0))"

definition branch_targets :: "int \<Rightarrow> int \<Rightarrow> int list" where
  "branch_targets pc w =
     (let opc = drop_bit 26 w in
      if opc = 18 then [((if w AND 2 \<noteq> 0 then 0 else pc) + sext (w AND 0x3FFFFFC) 26) AND 0xFFFFFFFF]
      else if opc = 16 then [pc + 4, ((if w AND 2 \<noteq> 0 then 0 else pc) + sext (w AND 0xFFFC) 16) AND 0xFFFFFFFF]
      else [pc + 4])"

section \<open>Facts of the decoder\<close>

lemma field5_range [simp]: "0 \<le> field5 w s" "field5 w s \<le> 31"
  using AND_upper2 [of 31 "drop_bit s w"] by (simp_all add: field5_def)

lemma field5_cr [simp]: "drop_bit 2 (field5 w s) \<le> 7"
proof -
  have "drop_bit 2 (field5 w s) \<le> drop_bit 2 31" unfolding drop_bit_eq_div by (intro zdiv_mono1) simp_all
  then show ?thesis by simp
qed

lemma ra_or_0_range: "0 \<le> ra \<Longrightarrow> ra \<le> 31 \<Longrightarrow> ra_or_0 ra \<subseteq> {0..31}"
  by (simp add: ra_or_0_def)

lemma mtcrf_range: "mtcrf_fields w \<subseteq> {0..7}"
  by (auto simp: mtcrf_fields_def Let_def)

text \<open>
  What every decoded instruction satisfies: it takes at least one cycle, its registers are
  in the register files, and it writes at most two general registers unless it is a load
  multiple.
\<close>

definition tinsn_wf :: "tinsn \<Rightarrow> bool" where
  "tinsn_wf i \<longleftrightarrow> 1 \<le> t_lat i \<and> t_src i \<subseteq> {0..31} \<and> t_dst i \<subseteq> {0..31} \<and> t_crs i \<subseteq> {0..7} \<and> t_crd i \<subseteq> {0..7}"

definition few_dst :: "tinsn \<Rightarrow> bool" where "few_dst i \<longleftrightarrow> card (t_dst i) \<le> 2"

named_theorems decode_wf \<open>well-formed parts of the decoder\<close>

lemma card_pair: "card {a, b} \<le> 2" by (simp add: card_insert_if)

lemma blank_wf [decode_wf]: "tinsn_wf (tinsn_blank pc w)" "few_dst (tinsn_blank pc w)"
  by (simp_all add: tinsn_wf_def few_dst_def tinsn_blank_def)

lemma rc_cr0_wf [decode_wf]: "tinsn_wf i \<Longrightarrow> tinsn_wf (rc_cr0 rc i)" "few_dst i \<Longrightarrow> few_dst (rc_cr0 rc i)"
  by (simp_all add: tinsn_wf_def few_dst_def rc_cr0_def)

lemma branch_wf [decode_wf]:
  "tinsn_wf i \<Longrightarrow> tinsn_wf (branch_insn w kind i)" "few_dst i \<Longrightarrow> few_dst (branch_insn w kind i)"
  by (simp_all add: tinsn_wf_def few_dst_def branch_insn_def Let_def)

lemma sru_wf [decode_wf]:
  "tinsn_wf i \<Longrightarrow> 1 \<le> lat \<Longrightarrow> crs \<subseteq> {0..7} \<Longrightarrow> crd \<subseteq> {0..7} \<Longrightarrow> tinsn_wf (sru_insn lat crs crd i)"
  "few_dst i \<Longrightarrow> few_dst (sru_insn lat crs crd i)"
  by (simp_all add: tinsn_wf_def few_dst_def sru_insn_def)

lemma x_memory_wf:
  assumes "tinsn_wf i" "t_dst i = {}"
  shows "tinsn_wf (x_memory (field5 w 21) (field5 w 16) (field5 w 11) xo i)"
    and "few_dst (x_memory (field5 w 21) (field5 w 16) (field5 w 11) xo i)"
  using assms by (simp_all add: tinsn_wf_def few_dst_def x_memory_def Let_def card_pair ra_or_0_range)

lemma x_arith_wf:
  shows "tinsn_wf i \<Longrightarrow> 1 \<le> mul \<Longrightarrow> 1 \<le> dv \<Longrightarrow> tinsn_wf (x_arith (field5 w 21) (field5 w 16) (field5 w 11) rc xo mul dv i)"
    and "few_dst (x_arith (field5 w 21) (field5 w 16) (field5 w 11) rc xo mul dv i)"
  unfolding x_arith_def Let_def
  by (intro decode_wf; simp add: tinsn_wf_def few_dst_def)+

lemma x_logical_wf:
  assumes "tinsn_wf i"
  shows "tinsn_wf (x_logical (field5 w 21) (field5 w 16) (field5 w 11) rc xo i)"
    and "few_dst (x_logical (field5 w 21) (field5 w 16) (field5 w 11) rc xo i)"
  using assms unfolding x_logical_def
  by (intro decode_wf; simp add: tinsn_wf_def few_dst_def)+

lemma dst_wf [decode_wf]:
  "tinsn_wf i \<Longrightarrow> r \<subseteq> {0..31} \<Longrightarrow> tinsn_wf (i\<lparr>t_dst := r\<rparr>)" "tinsn_wf i \<Longrightarrow> r \<subseteq> {0..31} \<Longrightarrow> tinsn_wf (i\<lparr>t_src := r\<rparr>)"
  "tinsn_wf (i\<lparr>t_lr_r := b\<rparr>) = tinsn_wf i" "tinsn_wf (i\<lparr>t_lr_w := b\<rparr>) = tinsn_wf i"
  by (simp_all add: tinsn_wf_def)

lemma decode_x31_wf:
  assumes "tinsn_wf i" "t_dst i = {}"
  shows "1 \<le> mul \<Longrightarrow> 1 \<le> dv \<Longrightarrow> tinsn_wf (decode_x31 w mul dv i)" and "few_dst (decode_x31 w mul dv i)"
proof -
  have i: "few_dst i" using assms(2) by (simp add: few_dst_def)
  note wf = x_memory_wf [OF assms(1,2)] x_arith_wf(1) [OF assms(1)] x_arith_wf(2) x_logical_wf [OF assms(1)]
  show "1 \<le> mul \<Longrightarrow> 1 \<le> dv \<Longrightarrow> tinsn_wf (decode_x31 w mul dv i)"
    unfolding decode_x31_def Let_def using assms(1) mtcrf_range [of w]
    by (simp add: wf) (simp add: tinsn_wf_def sru_insn_def)
  show "few_dst (decode_x31 w mul dv i)"
    unfolding decode_x31_def Let_def using i
    by (simp add: wf) (simp add: few_dst_def sru_insn_def)
qed

lemma decode_op19_wf:
  assumes "tinsn_wf i" "t_dst i = {}"
  shows "tinsn_wf (decode_op19 w i)" and "few_dst (decode_op19 w i)"
  using assms unfolding decode_op19_def Let_def
  by (simp_all add: tinsn_wf_def few_dst_def branch_insn_def sru_insn_def Let_def)

lemma d_memory_wf:
  assumes "tinsn_wf i" "t_dst i = {}"
  shows "tinsn_wf (d_memory opc (field5 w 21) (field5 w 16) i)" and "few_dst (d_memory opc (field5 w 21) (field5 w 16) i)"
  using assms by (simp_all add: tinsn_wf_def few_dst_def d_memory_def Let_def card_pair ra_or_0_range)

lemma multiple_memory_wf:
  assumes "tinsn_wf i"
  shows "tinsn_wf (multiple_memory opc (field5 w 21) (field5 w 16) i)"
    and "opc \<noteq> 46 \<Longrightarrow> few_dst (multiple_memory opc (field5 w 21) (field5 w 16) i)"
proof -
  have "1 \<le> 33 - field5 w 21" using field5_range(2) [of w 21] by linarith
  then show "tinsn_wf (multiple_memory opc (field5 w 21) (field5 w 16) i)"
    using assms by (simp add: tinsn_wf_def multiple_memory_def Let_def ra_or_0_range)
qed (simp add: few_dst_def multiple_memory_def Let_def)

lemma fp_memory_wf:
  assumes "tinsn_wf i" "t_dst i = {}"
  shows "tinsn_wf (fp_memory opc (field5 w 16) i)" "few_dst (fp_memory opc (field5 w 16) i)"
  using assms by (simp_all add: tinsn_wf_def few_dst_def fp_memory_def ra_or_0_range)

lemma rotate_wf:
  assumes "tinsn_wf i"
  shows "tinsn_wf (rotate_insn opc (field5 w 21) (field5 w 16) (field5 w 11) i)"
    and "few_dst (rotate_insn opc (field5 w 21) (field5 w 16) (field5 w 11) i)"
  using assms by (simp_all add: tinsn_wf_def few_dst_def rotate_insn_def)

lemma decode_insn_wf:
  assumes i: "tinsn_wf i" "t_dst i = {}"
  shows "1 \<le> mul \<Longrightarrow> 1 \<le> dv \<Longrightarrow> tinsn_wf (decode_insn mul dv i)"
    and "drop_bit 26 (t_word i) \<noteq> 46 \<Longrightarrow> few_dst (decode_insn mul dv i)"
proof -
  note wf = decode_op19_wf [OF i] decode_x31_wf [OF i] d_memory_wf [OF i] multiple_memory_wf [OF i(1)] fp_memory_wf [OF i]
    rc_cr0_wf rotate_wf [OF i(1)]
  have few: "few_dst i" using i(2) by (simp add: few_dst_def)
  show "1 \<le> mul \<Longrightarrow> 1 \<le> dv \<Longrightarrow> tinsn_wf (decode_insn mul dv i)"
    unfolding decode_insn_def Let_def using i
    by (simp add: wf) (simp add: tinsn_wf_def branch_insn_def Let_def ra_or_0_range)
  show "drop_bit 26 (t_word i) \<noteq> 46 \<Longrightarrow> few_dst (decode_insn mul dv i)"
    unfolding decode_insn_def Let_def using few
    by (simp add: wf) (simp add: few_dst_def branch_insn_def Let_def)
qed

lemma TInsn_wf: "1 \<le> mul \<Longrightarrow> 1 \<le> dv \<Longrightarrow> tinsn_wf (TInsn pc w mul dv)"
  unfolding TInsn_def by (rule decode_insn_wf, simp_all add: decode_wf, simp add: tinsn_blank_def)

text \<open>The load multiples: from register \<open>rd\<close> to 31.\<close>

lemma TInsn_lmw: "drop_bit 26 w = 46 \<Longrightarrow> t_dst (TInsn pc w mul dv) = {field5 w 21..31}"
  by (simp add: TInsn_def decode_insn_def tinsn_blank_def multiple_memory_def Let_def)

definition wide :: "int \<Rightarrow> bool" where
  "wide w \<longleftrightarrow> drop_bit 26 w = 46 \<and> field5 w 21 < 27"

lemma TInsn_dst_limit:
  shows "card (t_dst (TInsn pc w mul dv)) \<le> 5 \<longleftrightarrow> \<not> wide w"
proof (cases "drop_bit 26 w = 46")
  case True
  have "card {field5 w 21..31} \<le> 5 \<longleftrightarrow> \<not> field5 w 21 < 27" by auto
  then show ?thesis using True by (simp add: TInsn_lmw wide_def)
next
  case False
  then have "few_dst (TInsn pc w mul dv)"
    unfolding TInsn_def
    by (intro decode_insn_wf) (simp_all add: decode_wf, simp_all add: tinsn_blank_def)
  then show ?thesis using False by (simp add: few_dst_def wide_def)
qed

section \<open>The bytes of a multiplier\<close>

text \<open>The signed value of the low 32 bits, and the magnitude the loop shifts.\<close>

definition sgn32 :: "int \<Rightarrow> int" where "sgn32 v = signed_take_bit 31 v"

definition magnitude :: "int \<Rightarrow> int" where "magnitude v = (if sgn32 v < 0 then - sgn32 v - 1 else sgn32 v)"

lemma significant_bytes_loop: "significant_bytes v = byte_loop (magnitude v) 1"
proof -
  have "signed_take_bit 31 v = take_bit 32 v - (if bit v 31 then 2 ^ 32 else 0)"
    using signed_take_bit_eq_take_bit_minus [of 31 v] by simp
  moreover have "NOT (take_bit 32 v) AND 0xFFFFFFFF = 2 ^ 32 - 1 - take_bit 32 v"
    by (simp add: mask_simps take_bit_not_eq_mask_diff mask_eq_exp_minus_1)
  ultimately show ?thesis
    using take_bit_int_less_exp [of 32 v]
    by (simp add: significant_bytes_def magnitude_def sgn32_def Let_def and_mask32 and_sign32 bit_of_take_bit32)
qed

lemma magnitude_range: "0 \<le> magnitude v" "magnitude v < 2 ^ 31"
proof -
  have "sgn32 v < 2 ^ 31" "- (2 ^ 31) \<le> sgn32 v"
    using signed_take_bit_int_less_exp [of 31 v] signed_take_bit_int_greater_eq_minus_exp [of 31 v]
    by (simp_all add: sgn32_def)
  then show "0 \<le> magnitude v" "magnitude v < 2 ^ 31" by (auto simp: magnitude_def)
qed

lemma pos_int_div_zero: "0 \<le> (m :: int) \<Longrightarrow> m div 2 ^ k = 0 \<longleftrightarrow> m < 2 ^ k"
  using pos_imp_zdiv_pos_iff [of "2 ^ k" m] pos_imp_zdiv_nonneg_iff [of "2 ^ k" m] by (auto simp: not_less)

lemma byte_loop_least:
  assumes "0 \<le> m" "m < 2 ^ 31" "1 \<le> n" "n \<le> 4" "\<forall>k. 1 \<le> k \<and> k < n \<longrightarrow> 2 ^ (8 * k - 1) \<le> m"
  shows "byte_loop m n = (LEAST k. 1 \<le> k \<and> m < 2 ^ (8 * k - 1))"
  using assms
proof (induction m n rule: byte_loop.induct)
  case (1 m n)
  have fits: "drop_bit (8 * n - 1) m = 0 \<longleftrightarrow> m < 2 ^ (8 * n - 1)"
    using 1(2) by (simp add: drop_bit_eq_div pos_int_div_zero)
  show ?case
  proof (cases "drop_bit (8 * n - 1) m \<noteq> 0 \<and> n < 4")
    case True
    have "\<forall>k. 1 \<le> k \<and> k < n + 1 \<longrightarrow> 2 ^ (8 * k - 1) \<le> m"
      using True fits 1(6) by (metis Suc_eq_plus1 less_antisym not_less)
    then show ?thesis using 1(1) [OF True] 1(2-5) True by (simp add: byte_loop.simps [of m n])
  next
    case False
    have "m < 2 ^ (8 * n - 1)" using False fits 1(3,5) by (cases "n = 4") auto
    then have "(LEAST k. 1 \<le> k \<and> m < 2 ^ (8 * k - 1)) = n"
      using 1(4,6) by (intro Least_equality) (auto simp: not_less)
    then show ?thesis using False by (auto simp: byte_loop.simps [of m n])
  qed
qed

text \<open>
  \<open>significant_bytes\<close> returns the fewest bytes, one to four, that hold the 32-bit
  value as a signed number.
\<close>

lemma significant_bytes_least:
  "significant_bytes v = (LEAST n. 1 \<le> n \<and> - (2 ^ (8 * n - 1)) \<le> sgn32 v \<and> sgn32 v < 2 ^ (8 * n - 1))"
proof -
  have "- (2 ^ k) \<le> sgn32 v \<and> sgn32 v < 2 ^ k \<longleftrightarrow> magnitude v < 2 ^ k" for k
    by (auto simp: magnitude_def)
  then show ?thesis
    unfolding significant_bytes_loop using byte_loop_least [OF magnitude_range, of 1 v] by simp
qed

end
