(* ===== verification/Timing_Schedule.thy ===== *)
theory Timing_Schedule
  imports Timing_Decode
begin

text \<open>
  \<open>sim/tools/perf_model_603e.py\<close>, the greedy scheduler \<open>schedule\<close>: fetch, dispatch,
  execution and completion cycles of a retired-instruction stream under the 603e rules,
  with its local functions \<open>gpr_sym\<close>, \<open>track\<close>, \<open>written\<close>, \<open>dispatch_cycle\<close> and
  \<open>next_unit\<close>.  The local variables of \<open>schedule\<close> are the fields of \<open>tstate\<close>; a loop that
  waits for a cycle is a recursion over the cycle.  The dispatch loop may wait for ever, so
  it is an option.
\<close>

section \<open>State\<close>

definition GPR_LIMIT :: nat where "GPR_LIMIT = 5"
definition CQ_LIMIT :: nat where "CQ_LIMIT = 5"
definition IQ_LIMIT :: nat where "IQ_LIMIT = 6"

text \<open>\<open>ARGS\<close>, \<open>Insn.div_cycles\<close> and the two options of \<open>schedule\<close>.\<close>

record tcfg =
  c_mul :: int
  c_div :: int
  c_sru_add :: bool
  c_fetch_any :: bool
  c_core :: "string set"

definition decode_cfg :: "tcfg \<Rightarrow> int \<Rightarrow> int \<Rightarrow> tinsn" where
  "decode_cfg cfg pc w = TInsn pc w (c_mul cfg) (c_div cfg)"

text \<open>The record of an instruction that takes a dispatch slot.\<close>

record slot =
  q_pc :: int
  q_ins :: tinsn
  q_F :: int
  q_D :: int
  q_S :: int
  q_E :: int
  q_C :: int
  q_unit :: tunit

record branch_info =
  b_X :: int
  b_R :: int
  b_mispredict :: "bool option"

text \<open>A result: a non-branch, a branch without a slot (program counter, instruction, F, C), a branch with one.\<close>

datatype row =
    Plain slot
  | Folded int tinsn int int branch_info
  | Slotted slot branch_info

fun row_C :: "row \<Rightarrow> int" where
  "row_C (Plain q) = q_C q"
| "row_C (Folded pc ins f c b) = c"
| "row_C (Slotted q b) = q_C q"

record tstate =
  s_out :: "row list"
  s_nb :: "slot list"
  s_gpr :: "int \<rightharpoonup> int"
  s_cr :: "int \<rightharpoonup> int"
  s_lr :: int
  s_ctr :: int
  s_start :: "tunit \<Rightarrow> int"
  s_free :: "tunit \<Rightarrow> int"
  s_last_x :: int
  s_pending :: int
  s_redirect :: int
  s_fetch :: "(int \<times> int) list"
  s_ser :: int
  s_cr_free :: int
  s_stop_f :: int
  s_stop_until :: int
  s_branch_x :: int
  s_sym :: "int \<rightharpoonup> int \<times> int"
  s_fresh :: int
  s_stores :: "(int \<times> int \<times> int \<times> int) list"

definition tstate_init :: tstate where
  "tstate_init =
     \<lparr>s_out = [], s_nb = [], s_gpr = Map.empty, s_cr = Map.empty, s_lr = 0, s_ctr = 0,
      s_start = (\<lambda>_. - 1), s_free = (\<lambda>_. 0), s_last_x = - 1, s_pending = - 1, s_redirect = 0, s_fetch = [],
      s_ser = 0, s_cr_free = 0, s_stop_f = - 1, s_stop_until = 0, s_branch_x = 0, s_sym = Map.empty,
      s_fresh = 0, s_stores = []\<rparr>"

text \<open>\<open>xs[-k:]\<close>, \<open>d.get(k, 0)\<close>, \<open>max(xs, default=0)\<close>, and the last record's cycles, 0 without one.\<close>

definition lastn :: "nat \<Rightarrow> 'a list \<Rightarrow> 'a list" where "lastn k xs = drop (length xs - k) xs"

definition get0 :: "(int \<rightharpoonup> int) \<Rightarrow> int \<Rightarrow> int" where "get0 m k = (case m k of Some v \<Rightarrow> v | None \<Rightarrow> 0)"

definition max_default :: "int set \<Rightarrow> int" where "max_default S = (if S = {} then 0 else Max S)"

definition prev_D :: "tstate \<Rightarrow> int" where "prev_D st = (if s_nb st = [] then 0 else q_D (last (s_nb st)))"
definition prev_C :: "tstate \<Rightarrow> int" where "prev_C st = (if s_nb st = [] then 0 else q_C (last (s_nb st)))"

section \<open>Symbolic addresses\<close>

definition gpr_sym :: "int \<Rightarrow> tstate \<Rightarrow> (int \<times> int) \<times> tstate" where
  "gpr_sym g st =
     (case s_sym st g of
        Some v \<Rightarrow> (v, st)
      | None \<Rightarrow> let n = s_fresh st + 1 in ((n, 0), st\<lparr>s_fresh := n, s_sym := (s_sym st)(g \<mapsto> (n, 0))\<rparr>))"

definition store_wait :: "tstate \<Rightarrow> int \<times> int \<Rightarrow> int \<Rightarrow> int" where
  "store_wait st ea n =
     max_default (set (map (\<lambda>(_, _, _, sc). sc + 1)
       (filter (\<lambda>(r, slo, shi, sc). r = fst ea \<and> slo < snd ea + n \<and> snd ea < shi) (s_stores st))))"

definition track :: "tinsn \<Rightarrow> int \<Rightarrow> tstate \<Rightarrow> (int \<times> int) option \<times> int \<times> tstate" where
  "track ins w st =
     (let ra = field5 w 16; n = access_bytes w in
      if n \<noteq> 0
      then let ((rt, off), st) = (if ra \<noteq> 0 then gpr_sym ra st else ((0, 0), st));
               ea = (rt, (off + sext (w AND 0xFFFF) 16) AND 0xFFFFFFFF)
           in (Some ea, if t_load ins then store_wait st ea n else 0, st)
      else (None, 0, st))"

definition written_gpr :: "int \<Rightarrow> (int \<times> int) option \<Rightarrow> int \<Rightarrow> tstate \<Rightarrow> tstate" where
  "written_gpr w ea g st =
     (let opc = drop_bit 26 w; rd = field5 w 21; ra = field5 w 16; rb = field5 w 11 in
      if opc = 14 \<and> ra \<noteq> 0 \<and> g = rd
      then let ((rt, off), st) = gpr_sym ra st
           in st\<lparr>s_sym := (s_sym st)(g \<mapsto> (rt, (off + sext (w AND 0xFFFF) 16) AND 0xFFFFFFFF))\<rparr>
      else if opc = 31 \<and> drop_bit 1 w AND 0x3FF = 444 \<and> rd = rb \<and> g = ra
      then let (v, st) = gpr_sym rd st in st\<lparr>s_sym := (s_sym st)(g \<mapsto> v)\<rparr>
      else if ea \<noteq> None \<and> g = ra \<and> ra \<noteq> rd
      then st\<lparr>s_sym := (s_sym st)(g \<mapsto> the ea)\<rparr>
      else let n = s_fresh st + 1 in st\<lparr>s_fresh := n, s_sym := (s_sym st)(g \<mapsto> (n, 0))\<rparr>)"

text \<open>
  The order of a Python set is not fixed; here it is ascending.  The order only decides which
  fresh root a register gets, and roots are only compared for equality.
\<close>

definition written :: "tinsn \<Rightarrow> int \<Rightarrow> (int \<times> int) option \<Rightarrow> int \<Rightarrow> tstate \<Rightarrow> tstate" where
  "written ins w ea c st =
     (let st = (case ea of
          Some (rt, off) \<Rightarrow>
            if t_store ins then st\<lparr>s_stores := lastn 8 (s_stores st @ [(rt, off, off + access_bytes w, c)])\<rparr> else st
        | None \<Rightarrow> st)
      in fold (written_gpr w ea) (sorted_list_of_set (t_dst ins)) st)"

section \<open>Dispatch\<close>

definition pairs :: "tstate \<Rightarrow> int \<Rightarrow> bool" where
  "pairs st d \<longleftrightarrow> s_nb st \<noteq> [] \<and> q_D (last (s_nb st)) = d"

definition pair_refused :: "tstate \<Rightarrow> tinsn \<Rightarrow> int \<Rightarrow> bool" where
  "pair_refused st ins d \<longleftrightarrow>
     pairs st d \<and> (2 \<le> length (filter (\<lambda>q. q_D q = d) (lastn 2 (s_nb st)))
       \<or> t_dserial (q_ins (last (s_nb st))) \<or> t_dserial ins)"

definition free_units :: "tcfg \<Rightarrow> tstate \<Rightarrow> tinsn \<Rightarrow> int \<Rightarrow> tunit list \<Rightarrow> tunit list" where
  "free_units cfg st ins d units =
     (let us = (if ''dq0-iu'' \<in> c_core cfg \<and> t_unit ins = ADD
                then if pairs st d \<and> q_unit (last (s_nb st)) = IU then [SRU] else [IU] else units)
      in filter (\<lambda>u. s_start st u \<le> d \<and> \<not> (pairs st d \<and> q_unit (last (s_nb st)) = u)) us)"

definition cq_late :: "tcfg \<Rightarrow> int" where "cq_late cfg = (if ''cq-same'' \<in> c_core cfg then 0 else 1)"

definition queue_busy :: "tcfg \<Rightarrow> slot list \<Rightarrow> int \<Rightarrow> nat" where
  "queue_busy cfg qs d = length (filter (\<lambda>q. d < q_C q + cq_late cfg) qs)"

definition renames_busy :: "slot list \<Rightarrow> int \<Rightarrow> nat" where
  "renames_busy qs d = sum_list (map (\<lambda>q. card (t_dst (q_ins q))) (filter (\<lambda>q. d \<le> q_C q) qs))"

definition no_room :: "tcfg \<Rightarrow> tstate \<Rightarrow> tinsn \<Rightarrow> int \<Rightarrow> bool" where
  "no_room cfg st ins d \<longleftrightarrow>
     CQ_LIMIT < queue_busy cfg (lastn (CQ_LIMIT + 2) (s_nb st)) d + 1 \<or>
     GPR_LIMIT < renames_busy (lastn (GPR_LIMIT + 2) (s_nb st)) d + card (t_dst ins)"

partial_function (option) dispatch_cycle ::
  "tcfg \<Rightarrow> tstate \<Rightarrow> tinsn \<Rightarrow> tunit list \<Rightarrow> int \<Rightarrow> (int \<times> tunit list) option" where
  "dispatch_cycle cfg st ins units d =
     (if pair_refused st ins d then dispatch_cycle cfg st ins units (d + 1)
      else if free_units cfg st ins d units = [] then dispatch_cycle cfg st ins units (d + 1)
      else if no_room cfg st ins d then dispatch_cycle cfg st ins units (d + 1)
      else Some (d, free_units cfg st ins d units))"

declare dispatch_cycle.simps [code]

text \<open>The unit of the next non-branch among the following six.\<close>

fun next_unit :: "tcfg \<Rightarrow> (int \<times> int \<times> int) list \<Rightarrow> tunit option" where
  "next_unit cfg [] = None"
| "next_unit cfg ((p, w, _) # rest) =
     (let u = t_unit (decode_cfg cfg p w) in if u \<noteq> BPU then Some u else next_unit cfg rest)"

section \<open>Fetch\<close>

definition fetch_restart :: "tstate \<Rightarrow> int \<Rightarrow> int" where
  "fetch_restart st f = (if f \<noteq> s_stop_f st \<and> f < s_stop_until st then s_stop_until st else f)"

definition fetch_pair_ok :: "tcfg \<Rightarrow> tstate \<Rightarrow> int \<Rightarrow> int \<Rightarrow> bool" where
  "fetch_pair_ok cfg st pc f \<longleftrightarrow>
     (let h = s_fetch st in
      h \<noteq> [] \<and> fst (last h) = f \<longrightarrow>
        (length h < 2 \<or> fst (h ! (length h - 2)) \<noteq> f) \<and>
        snd (last h) + 4 = pc \<and> (c_fetch_any cfg \<or> pc mod 8 = 4))"

definition queue_occupancy :: "tstate \<Rightarrow> int \<Rightarrow> nat" where
  "queue_occupancy st f =
     length (filter (\<lambda>q. q_F q < f \<and> f \<le> q_D q) (lastn (IQ_LIMIT + 2) (s_nb st))) +
     length (filter (\<lambda>q. q_F q = f) (lastn 2 (s_nb st)))"

definition fetch_ok :: "tcfg \<Rightarrow> tstate \<Rightarrow> tinsn \<Rightarrow> int \<Rightarrow> bool" where
  "fetch_ok cfg st ins f \<longleftrightarrow>
     fetch_pair_ok cfg st (t_pc ins) f \<and> \<not> (t_unit ins \<noteq> BPU \<and> IQ_LIMIT < queue_occupancy st f + 1)"

text \<open>Past every fetch and dispatch cycle so far, a fetch succeeds.\<close>

definition fetch_bound :: "tstate \<Rightarrow> int" where
  "fetch_bound st = Max (insert 0 (fst ` set (s_fetch st) \<union> q_D ` set (s_nb st) \<union> q_F ` set (s_nb st)))"

lemma in_lastn: "x \<in> set (lastn k xs) \<Longrightarrow> x \<in> set xs"
  unfolding lastn_def by (rule in_set_dropD)

lemma fetch_ok_late:
  assumes "fetch_bound st < f"
  shows "fetch_ok cfg st ins f"
proof -
  let ?S = "insert 0 (fst ` set (s_fetch st) \<union> q_D ` set (s_nb st) \<union> q_F ` set (s_nb st))"
  have le: "x < f" if "x \<in> ?S" for x
    using Max_ge [of ?S x] that assms unfolding fetch_bound_def by (meson finite.intros finite_Un finite_imageI finite_set finite_insert order_le_less_trans)
  have "fst (last (s_fetch st)) \<noteq> f" if "s_fetch st \<noteq> []"
    using le [of "fst (last (s_fetch st))"] last_in_set [OF that] by auto
  then have "fetch_pair_ok cfg st (t_pc ins) f" by (auto simp: fetch_pair_ok_def Let_def)
  moreover have "queue_occupancy st f = 0"
  proof -
    have "q_D q < f" "q_F q < f" if "q \<in> set (s_nb st)" for q using le [of "q_D q"] le [of "q_F q"] that by auto
    then have "\<not> (q_F q < f \<and> f \<le> q_D q)" "q_F q \<noteq> f" if "q \<in> set (lastn k (s_nb st))" for q k
      using in_lastn [OF that] by force+
    then show ?thesis by (simp add: queue_occupancy_def filter_empty_conv)
  qed
  ultimately show ?thesis by (simp add: fetch_ok_def IQ_LIMIT_def)
qed

function fetch_cycle :: "tcfg \<Rightarrow> tstate \<Rightarrow> tinsn \<Rightarrow> int \<Rightarrow> int" where
  "fetch_cycle cfg st ins f =
     (let f = fetch_restart st f in if fetch_ok cfg st ins f then f else fetch_cycle cfg st ins (f + 1))"
  by auto
termination
proof (relation "measure (\<lambda>(cfg, st, ins, f). nat (fetch_bound st + 1 - f))")
  fix cfg st ins and f f' :: int
  assume f: "f' = fetch_restart st f" and "\<not> fetch_ok cfg st ins f'"
  then have "f' \<le> fetch_bound st" using fetch_ok_late [of st f' cfg ins] by linarith
  moreover have "f \<le> f'" using f by (simp add: fetch_restart_def)
  ultimately show "((cfg, st, ins, f' + 1), (cfg, st, ins, f)) \<in> measure (\<lambda>(cfg, st, ins, f). nat (fetch_bound st + 1 - f))"
    by simp
qed simp

declare fetch_cycle.simps [simp del]

definition fetch_start :: "tstate \<Rightarrow> int" where
  "fetch_start st = max (s_redirect st) (if s_fetch st = [] then 0 else fst (last (s_fetch st)))"

section \<open>Branches\<close>

definition branch_slot :: "tcfg \<Rightarrow> bool" where "branch_slot cfg \<longleftrightarrow> ''branch-slot'' \<in> c_core cfg"

text \<open>The first cycle the branch unit has for the branch, and with a dispatch slot the dispatch cycle.\<close>

definition branch_first :: "tstate \<Rightarrow> int \<Rightarrow> int" where "branch_first st f = max (f + 1) (s_last_x st + 1)"

definition branch_dispatch :: "tcfg \<Rightarrow> tstate \<Rightarrow> tinsn \<Rightarrow> int \<Rightarrow> int option" where
  "branch_dispatch cfg st ins f =
     (if branch_slot cfg
      then map_option fst (dispatch_cycle cfg st ins [BPU] (max (f + 1) (max (prev_D st) (s_ser st))))
      else Some (branch_first st f))"

text \<open>The cycle its link or count register operands are there.\<close>

definition branch_operands :: "tstate \<Rightarrow> tinsn \<Rightarrow> int \<Rightarrow> int \<Rightarrow> int" where
  "branch_operands st ins f d =
     (let x = max (branch_first st f) d; need = x;
          need = (if t_lr_r ins then max need (s_lr st) else need);
          need = (if t_ctr_r ins then max need (s_ctr st) else need)
      in max x need)"

definition cr_ready :: "tstate \<Rightarrow> tinsn \<Rightarrow> int" where
  "cr_ready st ins = max_default (get0 (s_cr st) ` t_crs ins)"

text \<open>Execute and resolve cycles, in the code's order: the resolve cycle is set before the wait on a prediction.\<close>

definition branch_times :: "tstate \<Rightarrow> tinsn \<Rightarrow> int \<Rightarrow> int \<Rightarrow> int \<times> int" where
  "branch_times st ins f d =
     (let x = branch_operands st ins f d; resolve = x;
          x = (if t_crs ins \<noteq> {} \<and> x < s_pending st then s_pending st else x);
          resolve = (if t_crs ins \<noteq> {} \<and> x < cr_ready st ins then cr_ready st ins else resolve)
      in (x, resolve))"

text \<open>\<open>while prev and prev["C"] == c and (two completions there, or the pair is refused): c += 1\<close>\<close>

function complete_cycle :: "tstate \<Rightarrow> bool \<Rightarrow> int \<Rightarrow> int" where
  "complete_cycle st refused c =
     (if s_nb st \<noteq> [] \<and> q_C (last (s_nb st)) = c \<and>
         (2 \<le> length (filter (\<lambda>q. q_C q = c) (lastn 2 (s_nb st))) \<or> refused)
      then complete_cycle st refused (c + 1) else c)"
  by auto
termination by (relation "measure (\<lambda>(st, refused, c). nat (prev_C st + 1 - c))") (auto simp: prev_C_def)

declare complete_cycle.simps [simp del]

definition branch_redirect :: "tcfg \<Rightarrow> tinsn \<Rightarrow> bool \<Rightarrow> int \<Rightarrow> int \<Rightarrow> int" where
  "branch_redirect cfg ins taken x resolve =
     (if resolve > x \<and> predict_taken ins \<noteq> taken
      then resolve + 1 + (if ''miss-late'' \<in> c_core cfg then 2 else 0)
      else if taken then x + 1 else 0)"

definition branch_state :: "tcfg \<Rightarrow> tinsn \<Rightarrow> bool \<Rightarrow> int \<Rightarrow> int \<times> int \<Rightarrow> tstate \<Rightarrow> tstate" where
  "branch_state cfg ins taken f xr st =
     (let (x, resolve) = xr;
          st1 = st\<lparr>s_last_x := x, s_branch_x := x\<rparr>;
          st1 = (if branch_first st f < x then st1\<lparr>s_stop_f := f, s_stop_until := x + 1\<rparr> else st1);
          st1 = (if resolve > x then st1\<lparr>s_pending := resolve\<rparr> else st1);
          st1 = st1\<lparr>s_redirect := branch_redirect cfg ins taken x resolve\<rparr>;
          st1 = (if t_lr_w ins then st1\<lparr>s_lr := x + 1\<rparr> else st1)
      in if t_ctr_w ins then st1\<lparr>s_ctr := resolve + 1\<rparr> else st1)"

definition branch_row :: "tcfg \<Rightarrow> tinsn \<Rightarrow> bool \<Rightarrow> int \<Rightarrow> int \<Rightarrow> int \<times> int \<Rightarrow> tstate \<Rightarrow> tstate" where
  "branch_row cfg ins taken f d xr st =
     (let (x, resolve) = xr;
          info = \<lparr>b_X = x, b_R = resolve, b_mispredict = (if resolve > x then Some (predict_taken ins \<noteq> taken) else None)\<rparr>
      in if branch_slot cfg
         then let c = complete_cycle st False (max resolve (prev_C st));
                  q = \<lparr>q_pc = t_pc ins, q_ins = ins, q_F = f, q_D = d, q_S = x, q_E = x, q_C = c, q_unit = BPU\<rparr>
              in st\<lparr>s_nb := s_nb st @ [q], s_out := s_out st @ [Slotted q info]\<rparr>
         else st\<lparr>s_out := s_out st @ [Folded (t_pc ins) ins f (if s_out st = [] then 0 else row_C (last (s_out st))) info]\<rparr>)"

definition branch_step :: "tcfg \<Rightarrow> tinsn \<Rightarrow> bool \<Rightarrow> int \<Rightarrow> tstate \<Rightarrow> tstate option" where
  "branch_step cfg ins taken f st =
     map_option (\<lambda>d. let xr = branch_times st ins f d
        in branch_row cfg ins taken f d xr (branch_state cfg ins taken f xr st)) (branch_dispatch cfg st ins f)"

section \<open>The other instructions\<close>

definition dispatch_start :: "tcfg \<Rightarrow> tstate \<Rightarrow> tinsn \<Rightarrow> int \<Rightarrow> int" where
  "dispatch_start cfg st ins f =
     (let d = max (f + 1) (max (prev_D st) (max (s_ser st) (s_branch_x st)));
          d = (if t_dserial ins \<and> s_nb st \<noteq> [] then max d (Max (q_C ` set (lastn CQ_LIMIT (s_nb st))) + 1) else d);
          d = (if ''cr-token'' \<in> c_core cfg \<and> t_crd ins \<noteq> {} then max d (s_cr_free st) else d)
      in if ''lsu-base'' \<in> c_core cfg \<and> t_unit ins = LSU
         then Max (insert d (get0 (s_gpr st) ` (t_src ins - (if t_store ins then {field5 (t_word ins) 21} else {})))) else d)"

definition units_of :: "tcfg \<Rightarrow> tinsn \<Rightarrow> tunit list" where
  "units_of cfg ins =
     (if t_unit ins = ADD \<and> c_sru_add cfg then [IU, SRU] else if t_unit ins = ADD then [IU] else [t_unit ins])"

definition operands_ready :: "tstate \<Rightarrow> tinsn \<Rightarrow> int \<Rightarrow> int" where
  "operands_ready st ins wait =
     (let ready = max_default (get0 (s_gpr st) ` t_src ins);
          ready = max ready wait;
          ready = max ready (cr_ready st ins);
          ready = (if t_lr_r ins then max ready (s_lr st) else ready);
          ready = (if t_ctr_r ins then max ready (s_ctr st) else ready)
      in if t_crd ins \<noteq> {} then max ready (s_cr_free st - t_lat ins + 1) else ready)"

definition unit_starts :: "tstate \<Rightarrow> tinsn \<Rightarrow> int \<Rightarrow> int \<Rightarrow> tunit \<Rightarrow> int" where
  "unit_starts st ins d ready u =
     (let s = max (d + 1) (max ready (s_free st u))
      in if t_serial ins \<and> s_nb st \<noteq> [] then max s (q_C (last (s_nb st)) + 1) else s)"

text \<open>\<open>if best is None or s < best[0]: best = (s, u)\<close>\<close>

fun best_of :: "(tunit \<Rightarrow> int) \<Rightarrow> tunit list \<Rightarrow> (int \<times> tunit) option \<Rightarrow> (int \<times> tunit) option" where
  "best_of start [] best = best"
| "best_of start (u # us) best =
     best_of start us (case best of None \<Rightarrow> Some (start u, u) | Some (s, v) \<Rightarrow> if start u < s then Some (start u, u) else best)"

definition choose_unit :: "tcfg \<Rightarrow> tstate \<Rightarrow> tinsn \<Rightarrow> int \<Rightarrow> int \<Rightarrow> tunit list \<Rightarrow> (int \<times> int \<times> int) list \<Rightarrow> int \<times> tunit" where
  "choose_unit cfg st ins d ready avail next =
     (let start = unit_starts st ins d ready; (s, u) = the (best_of start avail None)
      in if u = IU \<and> SRU \<in> set avail \<and> start SRU = s \<and> next_unit cfg next = Some IU then (s, SRU) else (s, u))"

text \<open>An instruction that may not complete beside the one before it.\<close>

definition alone :: "tstate \<Rightarrow> tinsn \<Rightarrow> bool" where
  "alone st ins \<longleftrightarrow>
     s_nb st \<noteq> [] \<and>
     (t_store ins \<or> t_serial ins \<or> t_unit ins = FPU
      \<or> 2 < card (t_dst ins) + card (t_dst (q_ins (last (s_nb st))))
      \<or> 1 < card (t_crd ins) + card (t_crd (q_ins (last (s_nb st)))))"

definition complete_start :: "tcfg \<Rightarrow> tstate \<Rightarrow> int \<Rightarrow> int" where
  "complete_start cfg st fin =
     max (fin + (if ''late-retire'' \<in> c_core cfg then 2 else 1)) (max (prev_C st) (s_pending st))"

definition retire :: "tinsn \<Rightarrow> slot \<Rightarrow> tstate \<Rightarrow> tstate" where
  "retire ins q st =
     (let c = q_C q; fin = q_E q; avail_at = (if t_serial ins then c + 1 else fin + 1);
          cr_at = (if t_cr_fast ins then fin + 1 else if t_serial ins then c + 1 else c);
          st = st\<lparr>s_gpr := (\<lambda>g. if g \<in> t_dst ins then Some avail_at else s_gpr st g),
                  s_cr := (\<lambda>g. if g \<in> t_crd ins then Some cr_at else s_cr st g)\<rparr>;
          st = (if t_lr_w ins then st\<lparr>s_lr := fin + 1\<rparr> else st);
          st = (if t_ctr_w ins then st\<lparr>s_ctr := fin + 1\<rparr> else st);
          st = (if t_dserial ins then st\<lparr>s_ser := c + 1\<rparr> else st);
          st = (if t_crd ins \<noteq> {} then st\<lparr>s_cr_free := c + 1\<rparr> else st)
      in st\<lparr>s_nb := s_nb st @ [q], s_out := s_out st @ [Plain q]\<rparr>)"

definition plain_slot :: "tcfg \<Rightarrow> tstate \<Rightarrow> tinsn \<Rightarrow> int \<Rightarrow> int \<Rightarrow> int \<times> tunit \<Rightarrow> slot" where
  "plain_slot cfg st ins f d su =
     (let (s, u) = su; fin = s + t_lat ins - 1
      in \<lparr>q_pc = t_pc ins, q_ins = ins, q_F = f, q_D = d, q_S = s, q_E = fin,
          q_C = complete_cycle st (alone st ins) (complete_start cfg st fin), q_unit = u\<rparr>)"

definition occupy :: "slot \<Rightarrow> tstate \<Rightarrow> tstate" where
  "occupy q st =
     st\<lparr>s_start := (s_start st)(q_unit q := q_S q),
        s_free := (s_free st)(q_unit q := if q_unit q = LSU \<or> q_unit q = FPU then q_S q + 1 else q_E q + 1)\<rparr>"

definition plain_step :: "tcfg \<Rightarrow> tinsn \<Rightarrow> (int \<times> int \<times> int) list \<Rightarrow> int \<Rightarrow> tstate \<Rightarrow> tstate option" where
  "plain_step cfg ins next f st0 =
     (let st = st0\<lparr>s_redirect := 0\<rparr> in
      map_option (\<lambda>(d, avail).
        let (ea, wait, st) = track ins (t_word ins) st;
            q = plain_slot cfg st ins f d (choose_unit cfg st ins d (operands_ready st ins wait) avail next);
            st = occupy q st;
            st = written ins (t_word ins) ea (q_C q) st
        in retire ins q st) (dispatch_cycle cfg st ins (units_of cfg ins) (dispatch_start cfg st ins f)))"

section \<open>The schedule\<close>

definition schedule_step :: "tcfg \<Rightarrow> int \<times> int \<times> int \<Rightarrow> (int \<times> int \<times> int) list \<Rightarrow> tstate \<Rightarrow> tstate option" where
  "schedule_step cfg rec rest st =
     (let (pc, w, npc) = rec;
          ins = decode_cfg cfg pc w;
          f = fetch_cycle cfg st ins (fetch_start st);
          st = st\<lparr>s_fetch := s_fetch st @ [(f, pc)]\<rparr>
      in if t_unit ins = BPU then branch_step cfg ins (npc \<noteq> pc + 4) f st
         else plain_step cfg ins (take IQ_LIMIT rest) f st)"

fun schedule_from :: "tcfg \<Rightarrow> (int \<times> int \<times> int) list \<Rightarrow> tstate \<Rightarrow> tstate option" where
  "schedule_from cfg [] st = Some st"
| "schedule_from cfg (rec # rest) st = Option.bind (schedule_step cfg rec rest st) (schedule_from cfg rest)"

definition schedule :: "tcfg \<Rightarrow> (int \<times> int \<times> int) list \<Rightarrow> row list option" where
  "schedule cfg stream = map_option s_out (schedule_from cfg stream tstate_init)"

end
