(* ===== verification/Timing_Order.thy ===== *)
theory Timing_Order
  imports Timing_Schedule
begin

text \<open>
  Properties of the scheduler: it returns exactly on the streams without a load multiple of
  more than five registers; fetch, dispatch and completion are in program order with at most
  two instructions a cycle; no more completion-queue entries and renames are in use than
  the machine has.  What an instruction waits for is the subject of \<open>Timing_Waits\<close>.
\<close>

section \<open>Lists built by appending\<close>

definition stepwise :: "('a list \<Rightarrow> 'a \<Rightarrow> bool) \<Rightarrow> 'a list \<Rightarrow> bool" where
  "stepwise P xs \<longleftrightarrow> (\<forall>k < length xs. P (take k xs) (xs ! k))"

lemma stepwise_Nil [simp]: "stepwise P []" by (simp add: stepwise_def)

lemma stepwise_snoc [simp]: "stepwise P (xs @ [x]) \<longleftrightarrow> stepwise P xs \<and> P xs x"
  by (auto simp: stepwise_def nth_append less_Suc_eq)

lemma stepwise_mono: "stepwise P xs \<Longrightarrow> (\<And>ys y. P ys y \<Longrightarrow> Q ys y) \<Longrightarrow> stepwise Q xs"
  by (simp add: stepwise_def)

lemma lastn_snoc2: "lastn 2 (xs @ [x]) = (if xs = [] then [x] else [last xs, x])"
  by (cases xs rule: rev_cases) (auto simp: lastn_def)

text \<open>The next cycle is not before the last, and not a third time the same.\<close>

definition next_cycle :: "('a \<Rightarrow> int) \<Rightarrow> 'a list \<Rightarrow> 'a \<Rightarrow> bool" where
  "next_cycle f xs x \<longleftrightarrow>
     (xs \<noteq> [] \<longrightarrow> f (last xs) \<le> f x \<and> (f (last xs) = f x \<longrightarrow> length (filter (\<lambda>y. f y = f x) (lastn 2 xs)) < 2))"

lemma next_cycle_sorted: "stepwise (next_cycle f) xs \<Longrightarrow> sorted (map f xs)"
proof (induction xs rule: rev_induct)
  case (snoc x xs)
  have "\<forall>y \<in> set xs. f y \<le> f x"
  proof (cases "xs = []")
    case False
    then have "sorted (map f xs)" "f (last xs) \<le> f x" using snoc by (simp_all add: next_cycle_def)
    then show ?thesis
      by (cases xs rule: rev_cases) (auto simp: sorted_append)
  qed simp
  then show ?case using snoc by (simp add: sorted_append)
qed simp

lemma next_cycle_two:
  "stepwise (next_cycle f) xs \<Longrightarrow> length (filter (\<lambda>x. f x = d) xs) \<le> 2"
proof (induction xs rule: rev_induct)
  case (snoc x xs)
  have sorted: "sorted (map f xs)" and step: "next_cycle f xs x" using next_cycle_sorted snoc.prems by auto
  show ?case
  proof (cases "f x = d \<and> xs \<noteq> []")
    case True
    then obtain ys y where xs: "xs = ys @ [y]" by (cases xs rule: rev_cases) auto
    have le: "f y \<le> d" and two: "f y = d \<longrightarrow> length (filter (\<lambda>y. f y = d) (lastn 2 xs)) < 2"
      using step True unfolding next_cycle_def by (simp_all add: xs)
    show ?thesis
    proof (cases "f y = d")
      case True
      have "f z < d" if ys: "ys = zs @ [z]" for zs z
      proof -
        have "f z \<noteq> d" using two True lastn_snoc2 [of ys y] by (simp add: xs ys split: if_splits)
        moreover have "f z \<le> d" using sorted True by (simp add: xs ys sorted_append)
        ultimately show ?thesis by simp
      qed
      then have "\<forall>z \<in> set ys. f z < d"
        using sorted by (cases ys rule: rev_cases) (fastforce simp: xs sorted_append)+
      then have "filter (\<lambda>x. f x = d) ys = []" by (auto simp: filter_empty_conv)
      then show ?thesis by (simp add: xs)
    next
      case False
      then have "\<forall>z \<in> set xs. f z < d" using sorted le by (auto simp: xs sorted_append)
      then have "filter (\<lambda>x. f x = d) xs = []" by (auto simp: filter_empty_conv)
      then show ?thesis by simp
    qed
  qed (use snoc in auto)
qed simp

text \<open>On a sorted list the elements past a bound are a suffix.\<close>

lemma filter_suffix:
  assumes "sorted (map f xs)" "length (filter (\<lambda>x. (d::int) < f x) (lastn k xs)) < k"
  shows "filter (\<lambda>x. d < f x) (lastn k xs) = filter (\<lambda>x. d < f x) xs"
proof -
  let ?n = "length xs - k"
  have xs: "xs = take ?n xs @ lastn k xs" by (simp add: lastn_def)
  have "filter (\<lambda>x. d < f x) (take ?n xs) = []"
  proof (cases "k \<le> length xs")
    case True
    then have "length (lastn k xs) = k" by (simp add: lastn_def)
    then obtain z where z: "z \<in> set (lastn k xs)" "\<not> d < f z"
      using assms(2) by (metis filter_True less_irrefl)
    have "f y \<le> f z" if "y \<in> set (take ?n xs)" for y
    proof -
      have "sorted (map f (take ?n xs) @ map f (lastn k xs))" using assms(1) xs by (metis map_append)
      then show ?thesis using that z(1) by (auto simp: sorted_append)
    qed
    then show ?thesis using z(2) by (force simp: filter_empty_conv)
  qed simp
  then show ?thesis by (subst (2) xs) simp
qed

section \<open>The dispatch loop\<close>

definition dispatched :: "tcfg \<Rightarrow> tstate \<Rightarrow> tinsn \<Rightarrow> tunit list \<Rightarrow> int \<Rightarrow> int \<times> tunit list \<Rightarrow> bool" where
  "dispatched cfg st ins units d0 r \<longleftrightarrow>
     d0 \<le> fst r \<and> \<not> pair_refused st ins (fst r) \<and> snd r = free_units cfg st ins (fst r) units \<and> snd r \<noteq> [] \<and>
     \<not> no_room cfg st ins (fst r)"

lemma dispatch_cycle_result:
  assumes ret: "dispatch_cycle cfg st ins units d0 = Some r"
  shows "dispatched cfg st ins units d0 r"
proof (rule dispatch_cycle.raw_induct [where P = dispatched, OF _ ret])
  fix f cfg st ins units d0 r
  assume IH: "\<And>cfg st ins units d0 r. f cfg st ins units d0 = Some r \<Longrightarrow> dispatched cfg st ins units d0 r"
    and eq: "(if pair_refused st ins d0 then f cfg st ins units (d0 + 1)
      else if free_units cfg st ins d0 units = [] then f cfg st ins units (d0 + 1)
      else if no_room cfg st ins d0 then f cfg st ins units (d0 + 1)
      else Some (d0, free_units cfg st ins d0 units)) = Some r"
  show "dispatched cfg st ins units d0 r"
  proof (cases "f cfg st ins units (d0 + 1) = Some r")
    case True
    then show ?thesis using IH [OF True] unfolding dispatched_def by auto
  next
    case False
    then show ?thesis using eq by (auto simp: dispatched_def split: if_splits)
  qed
qed

text \<open>An instruction that writes more registers than there are renames is never dispatched.\<close>

lemma dispatch_cycle_wide: "5 < card (t_dst ins) \<Longrightarrow> dispatch_cycle cfg st ins units d = None"
proof (rule ccontr)
  assume wide: "5 < card (t_dst ins)" and "dispatch_cycle cfg st ins units d \<noteq> None"
  then obtain r where "dispatch_cycle cfg st ins units d = Some r" by auto
  from dispatch_cycle_result [OF this] wide show False by (simp add: dispatched_def no_room_def GPR_LIMIT_def)
qed

text \<open>Past every cycle so far, dispatch succeeds.\<close>

definition dispatch_bound :: "tstate \<Rightarrow> tunit list \<Rightarrow> int" where
  "dispatch_bound st units =
     Max (insert 0 (q_D ` set (s_nb st) \<union> (\<lambda>q. q_C q + 1) ` set (s_nb st) \<union> s_start st ` insert IU (set units)))"

lemma dispatch_late:
  assumes "dispatch_bound st units < d" "units \<noteq> []" "card (t_dst ins) \<le> 5"
  shows "\<not> pair_refused st ins d \<and> free_units cfg st ins d units \<noteq> [] \<and> \<not> no_room cfg st ins d"
proof (intro conjI)
  let ?S = "insert 0 (q_D ` set (s_nb st) \<union> (\<lambda>q. q_C q + 1) ` set (s_nb st) \<union> s_start st ` insert IU (set units))"
  have le: "x < d" if "x \<in> ?S" for x
    using Max_ge [of ?S x] that assms(1) unfolding dispatch_bound_def by force
  have slots: "q_D q < d" "q_C q + 1 < d" if "q \<in> set (s_nb st)" for q
    using le [of "q_D q"] le [of "q_C q + 1"] that by auto
  have no_pair: "\<not> pairs st d" using slots(1) last_in_set by (force simp: pairs_def)
  then show "\<not> pair_refused st ins d" by (simp add: pair_refused_def)
  have "s_start st u \<le> d" if "u \<in> insert IU (set units)" for u using le [of "s_start st u"] that by auto
  then show "free_units cfg st ins d units \<noteq> []"
    using no_pair assms(2) by (auto simp: free_units_def Let_def filter_empty_conv intro!: last_in_set)
  have "filter (\<lambda>q. d < q_C q + cq_late cfg) (lastn k (s_nb st)) = []" "filter (\<lambda>q. d \<le> q_C q) (lastn k (s_nb st)) = []" for k
    using slots(2) by (force simp: filter_empty_conv cq_late_def dest!: in_lastn)+
  then show "\<not> no_room cfg st ins d"
    using assms(3) by (simp add: no_room_def queue_busy_def renames_busy_def CQ_LIMIT_def GPR_LIMIT_def)
qed

lemma dispatch_cycle_returns:
  assumes "units \<noteq> []" "card (t_dst ins) \<le> 5"
  shows "dispatch_cycle cfg st ins units d \<noteq> None"
proof (induction "nat (dispatch_bound st units + 1 - d)" arbitrary: d rule: less_induct)
  case less
  show ?case
  proof (cases "pair_refused st ins d \<or> free_units cfg st ins d units = [] \<or> no_room cfg st ins d")
    case True
    then have "d \<le> dispatch_bound st units"
      using dispatch_late [where st = st and d = d and cfg = cfg, OF _ assms] not_less by blast
    then have "dispatch_cycle cfg st ins units (d + 1) \<noteq> None" by (intro less) auto
    then show ?thesis using True by (subst dispatch_cycle.simps) auto
  next
    case False
    then show ?thesis by (subst dispatch_cycle.simps) auto
  qed
qed

section \<open>When the schedule returns\<close>

lemma units_of_nonempty: "units_of cfg ins \<noteq> []" by (simp add: units_of_def)

lemma branch_not_wide: "t_unit (decode_cfg cfg pc w) = BPU \<Longrightarrow> \<not> wide w"
  by (auto simp: wide_def decode_cfg_def TInsn_def decode_insn_def multiple_memory_def tinsn_blank_def Let_def)

lemma schedule_step_returns:
  "schedule_step cfg (pc, w, npc) rest st = None \<longleftrightarrow> wide w"
proof -
  let ?ins = "decode_cfg cfg pc w"
  have dst: "card (t_dst ?ins) \<le> 5 \<longleftrightarrow> \<not> wide w" by (simp add: decode_cfg_def TInsn_dst_limit)
  show ?thesis
  proof (cases "wide w")
    case True
    then show ?thesis using branch_not_wide [of cfg pc w] dst
      by (auto simp: schedule_step_def Let_def plain_step_def dispatch_cycle_wide)
  next
    case False
    then show ?thesis using dst dispatch_cycle_returns [of _ ?ins cfg] units_of_nonempty
      by (simp add: schedule_step_def Let_def plain_step_def branch_step_def branch_dispatch_def)
  qed
qed

lemma schedule_from_returns:
  "schedule_from cfg stream st = None \<longleftrightarrow> (\<exists>(pc, w, npc) \<in> set stream. wide w)"
proof (induction stream arbitrary: st)
  case (Cons rec rest)
  obtain pc w npc where rec: "rec = (pc, w, npc)" by (cases rec) auto
  show ?case
    using Cons.IH schedule_step_returns [of cfg pc w npc rest st]
    by (cases "schedule_step cfg rec rest st") (auto simp: rec)
qed simp

text \<open>
  C24: \<open>schedule\<close> returns exactly on the streams in which no load multiple writes more than
  five registers.  A load multiple of six or more asks for more renames than the machine
  has, so the dispatch loop waits for ever.
\<close>

lemma schedule_returns_iff:
  "schedule cfg stream = None \<longleftrightarrow> (\<exists>(pc, w, npc) \<in> set stream. drop_bit 26 w = 46 \<and> drop_bit 21 w AND 31 < 27)"
  by (simp add: schedule_def schedule_from_returns wide_def field5_def)

section \<open>What the steps keep\<close>

text \<open>The address bookkeeping touches three fields only.\<close>

definition timing_part :: "tstate \<Rightarrow> tstate" where
  "timing_part st = st\<lparr>s_sym := Map.empty, s_fresh := 0, s_stores := []\<rparr>"

lemma timing_part_updates [simp]:
  "timing_part (st\<lparr>s_sym := m\<rparr>) = timing_part st" "timing_part (st\<lparr>s_fresh := n\<rparr>) = timing_part st"
  "timing_part (st\<lparr>s_stores := ss\<rparr>) = timing_part st"
  by (simp_all add: timing_part_def)

lemma timing_part_fields:
  assumes "timing_part st = timing_part st'"
  shows "s_out st = s_out st'" "s_nb st = s_nb st'" "s_gpr st = s_gpr st'" "s_fetch st = s_fetch st'"
    "s_pending st = s_pending st'" "s_free st = s_free st'" "s_redirect st = s_redirect st'"
proof -
  have f: "s_out (timing_part s) = s_out s" "s_nb (timing_part s) = s_nb s" "s_gpr (timing_part s) = s_gpr s"
    "s_fetch (timing_part s) = s_fetch s" "s_pending (timing_part s) = s_pending s" "s_free (timing_part s) = s_free s"
    "s_redirect (timing_part s) = s_redirect s"
    for s by (simp_all add: timing_part_def)
  show "s_out st = s_out st'" "s_nb st = s_nb st'" "s_gpr st = s_gpr st'" "s_fetch st = s_fetch st'"
    "s_pending st = s_pending st'" "s_free st = s_free st'" "s_redirect st = s_redirect st'"
    using f [of st, symmetric] f [of st', symmetric] assms by simp_all
qed

lemma gpr_sym_part: "timing_part (snd (gpr_sym g st)) = timing_part st"
  by (simp add: gpr_sym_def Let_def split: option.split)

lemma track_part: "timing_part (snd (snd (track ins w st))) = timing_part st"
  using gpr_sym_part [of "field5 w 16" st] by (simp add: track_def Let_def case_prod_beta)

lemma written_gpr_part: "timing_part (written_gpr w ea g st) = timing_part st"
  by (simp add: written_gpr_def Let_def case_prod_beta gpr_sym_part)

lemma fold_written_part: "timing_part (fold (written_gpr w ea) gs st) = timing_part st"
  by (induction gs arbitrary: st) (simp_all add: written_gpr_part)

lemma written_part: "timing_part (written ins w ea c st) = timing_part st"
  by (simp add: written_def Let_def fold_written_part split: option.split)

section \<open>One instruction\<close>

lemma complete_cycle_result:
  "c \<le> complete_cycle st r c \<and> (q_C (last (s_nb st)) = complete_cycle st r c \<and> s_nb st \<noteq> [] \<longrightarrow>
     length (filter (\<lambda>q. q_C q = complete_cycle st r c) (lastn 2 (s_nb st))) < 2 \<and> \<not> r)"
proof (induction st r c rule: complete_cycle.induct)
  case (1 st r c)
  show ?case
  proof (cases "s_nb st \<noteq> [] \<and> q_C (last (s_nb st)) = c \<and> (2 \<le> length (filter (\<lambda>q. q_C q = c) (lastn 2 (s_nb st))) \<or> r)")
    case True
    then show ?thesis using 1 [OF True] by (simp add: complete_cycle.simps [of st r c])
  next
    case False
    then have "complete_cycle st r c = c" by (auto simp: complete_cycle.simps [of st r c])
    then show ?thesis using False by auto
  qed
qed

lemma fetch_cycle_result: "f \<le> fetch_cycle cfg st ins f \<and> fetch_ok cfg st ins (fetch_cycle cfg st ins f)"
proof (induction cfg st ins f rule: fetch_cycle.induct)
  case (1 cfg st ins f)
  have le: "f \<le> fetch_restart st f" by (simp add: fetch_restart_def)
  show ?case
  proof (cases "fetch_ok cfg st ins (fetch_restart st f)")
    case True
    then show ?thesis using le by (simp add: fetch_cycle.simps [of cfg st ins f] Let_def)
  next
    case False
    then show ?thesis using 1 [OF refl False] le by (simp add: fetch_cycle.simps [of cfg st ins f] Let_def)
  qed
qed

lemma best_of_some: "best \<noteq> None \<or> us \<noteq> [] \<Longrightarrow> best_of start us best \<noteq> None"
  by (induction us arbitrary: best) (auto split: option.splits)

lemma best_of_start:
  "best_of start us best = Some (s, u) \<Longrightarrow> best = Some (s, u) \<or> (s = start u \<and> u \<in> set us)"
proof (induction us arbitrary: best)
  case (Cons v us)
  from Cons.IH [of "case best of None \<Rightarrow> Some (start v, v) | Some (s, w) \<Rightarrow> if start v < s then Some (start v, v) else best"] Cons.prems
  show ?case by (auto split: option.splits if_splits)
qed simp

lemma choose_unit_start:
  assumes "avail \<noteq> []" "choose_unit cfg st ins d ready avail next = (s, u)"
  shows "s = unit_starts st ins d ready u" "u \<in> set avail"
proof -
  obtain s' u' where b: "best_of (unit_starts st ins d ready) avail None = Some (s', u')"
    using best_of_some [of None avail] assms(1) by fastforce
  have "s' = unit_starts st ins d ready u' \<and> u' \<in> set avail" using best_of_start [OF b] by simp
  then show "s = unit_starts st ins d ready u" "u \<in> set avail"
    using assms(2) b by (auto simp: choose_unit_def Let_def split: if_splits)
qed

lemma unit_starts_late: "d < unit_starts st ins d ready u" "ready \<le> unit_starts st ins d ready u"
  by (auto simp: unit_starts_def Let_def)

lemma max_default_ge: "finite S \<Longrightarrow> x \<in> S \<Longrightarrow> x \<le> max_default S"
  by (auto simp: max_default_def)

text \<open>When the result of an instruction is there; what an instruction's record satisfies when it is appended.\<close>

definition result_at :: "slot \<Rightarrow> int" where
  "result_at q = (if t_serial (q_ins q) then q_C q + 1 else q_E q + 1)"

definition stages_ok :: "slot \<Rightarrow> bool" where
  "stages_ok q \<longleftrightarrow> q_F q < q_D q \<and> q_D q < q_S q \<and> q_E q = q_S q + t_lat (q_ins q) - 1 \<and> q_E q < q_C q"

definition placed :: "tcfg \<Rightarrow> tstate \<Rightarrow> slot \<Rightarrow> bool" where
  "placed cfg st q \<longleftrightarrow>
     prev_D st \<le> q_D q \<and> \<not> pair_refused st (q_ins q) (q_D q) \<and> \<not> no_room cfg st (q_ins q) (q_D q) \<and>
     prev_C st \<le> q_C q \<and>
     (s_nb st \<noteq> [] \<and> q_C (last (s_nb st)) = q_C q \<longrightarrow> length (filter (\<lambda>p. q_C p = q_C q) (lastn 2 (s_nb st))) < 2)"

lemma dispatch_start_ge:
  assumes "finite (t_src ins)"
  shows "max (f + 1) (prev_D st) \<le> dispatch_start cfg st ins f"
proof -
  define d where "d = max (f + 1) (max (prev_D st) (max (s_ser st) (s_branch_x st)))"
  define d' where "d' = (if t_dserial ins \<and> s_nb st \<noteq> [] then max d (Max (q_C ` set (lastn CQ_LIMIT (s_nb st))) + 1) else d)"
  define d'' where "d'' = (if ''cr-token'' \<in> c_core cfg \<and> t_crd ins \<noteq> {} then max d' (s_cr_free st) else d')"
  have "max (f + 1) (prev_D st) \<le> d" unfolding d_def by (intro max.mono order_refl max.cobounded1)
  also have "d \<le> d'" by (simp add: d'_def)
  also have "d' \<le> d''" by (simp add: d''_def)
  also have "d'' \<le> dispatch_start cfg st ins f"
  proof -
    have "dispatch_start cfg st ins f = (if ''lsu-base'' \<in> c_core cfg \<and> t_unit ins = LSU
       then Max (insert d'' (get0 (s_gpr st) ` (t_src ins - (if t_store ins then {field5 (t_word ins) 21} else {})))) else d'')"
      by (simp only: dispatch_start_def Let_def d_def d'_def d''_def)
    then show ?thesis using assms by simp
  qed
  finally show ?thesis .
qed

lemma operands_ready_ge:
  assumes "finite (t_src ins)" "g \<in> t_src ins"
  shows "get0 (s_gpr st) g \<le> operands_ready st ins wait"
proof -
  have "get0 (s_gpr st) g \<le> max_default (get0 (s_gpr st) ` t_src ins)" using assms by (simp add: max_default_ge)
  then show ?thesis by (simp add: operands_ready_def Let_def le_max_iff_disj)
qed

lemma plain_step_result:
  assumes "plain_step cfg ins next f st = Some st'" "finite (t_src ins)"
  obtains q where "s_out st' = s_out st @ [Plain q]" "s_nb st' = s_nb st @ [q]" "s_fetch st' = s_fetch st"
    "s_gpr st' = (\<lambda>g. if g \<in> t_dst ins then Some (result_at q) else s_gpr st g)" "q_ins q = ins" "q_F q = f"
    "placed cfg st q" "stages_ok q" "\<And>g. g \<in> t_src ins \<Longrightarrow> get0 (s_gpr st) g \<le> q_S q"
proof -
  let ?st = "st\<lparr>s_redirect := 0\<rparr>"
  obtain d avail where disp: "dispatch_cycle cfg ?st ins (units_of cfg ins) (dispatch_start cfg ?st ins f) = Some (d, avail)"
    using assms(1) by (auto simp: plain_step_def Let_def)
  obtain ea wait st1 where tr: "track ins (t_word ins) ?st = (ea, wait, st1)" by (metis prod.exhaust)
  have part: "timing_part st1 = timing_part ?st" using track_part [of ins "t_word ins" ?st] by (simp add: tr)
  note fields = timing_part_fields [OF part]
  let ?ready = "operands_ready st1 ins wait"
  obtain s u where su: "choose_unit cfg st1 ins d ?ready avail next = (s, u)" by (metis prod.exhaust)
  define q where "q = plain_slot cfg st1 ins f d (s, u)"
  define st2 where "st2 = written ins (t_word ins) ea (q_C q) (occupy q st1)"
  have st': "st' = retire ins q st2"
    using assms(1) by (simp add: plain_step_def Let_def disp tr su q_def st2_def)
  have part2: "timing_part st2 = timing_part (occupy q st1)" by (simp add: st2_def written_part)
  note fields2 = timing_part_fields [OF part2]
  have keep: "s_out st2 = s_out st" "s_nb st2 = s_nb st" "s_fetch st2 = s_fetch st" "s_gpr st2 = s_gpr st"
    using fields fields2 by (simp_all add: occupy_def)
  have D: "dispatched cfg ?st ins (units_of cfg ins) (dispatch_start cfg ?st ins f) (d, avail)"
    using dispatch_cycle_result [OF disp] .
  have q: "q_ins q = ins" "q_F q = f" "q_D q = d" "q_S q = s" "q_E q = s + t_lat ins - 1"
    "q_C q = complete_cycle st1 (alone st1 ins) (complete_start cfg st1 (q_E q))"
    by (simp_all add: q_def plain_slot_def Let_def)
  have "avail \<noteq> []" using D unfolding dispatched_def snd_conv by (elim conjE)
  then have s: "s = unit_starts st1 ins d ?ready u" using choose_unit_start(1) [OF _ su] by blast
  have early: "f + 1 \<le> d" "prev_D st \<le> d"
    using D dispatch_start_ge [OF assms(2), of f ?st cfg] by (auto simp: dispatched_def prev_D_def)
  have C: "complete_start cfg st1 (q_E q) \<le> q_C q" using complete_cycle_result q(6) by metis
  have rest: "s_out st' = s_out st @ [Plain q]" "s_nb st' = s_nb st @ [q]" "s_fetch st' = s_fetch st"
    "s_gpr st' = (\<lambda>g. if g \<in> t_dst ins then Some (result_at q) else s_gpr st g)"
    by (auto simp: st' retire_def Let_def keep result_at_def q(1) fun_eq_iff)
  have "stages_ok q"
    using early(1) unit_starts_late(1) [of d st1 ins ?ready u] C by (auto simp: stages_ok_def q(1-5) s complete_start_def split: if_splits)
  moreover have "placed cfg st q"
    unfolding placed_def
  proof (intro conjI impI)
    have same: "pair_refused ?st = pair_refused st" "no_room cfg ?st = no_room cfg st"
      by (simp_all add: fun_eq_iff pair_refused_def pairs_def no_room_def)
    show "prev_D st \<le> q_D q" "\<not> pair_refused st (q_ins q) (q_D q)" "\<not> no_room cfg st (q_ins q) (q_D q)"
      using D early(2) unfolding dispatched_def fst_conv q(1,3) same by blast+
    have prev: "prev_C st1 = prev_C st" using fields(2) by (simp add: prev_C_def)
    show "prev_C st \<le> q_C q" using C by (simp add: complete_start_def prev)
    show "length (filter (\<lambda>p. q_C p = q_C q) (lastn 2 (s_nb st))) < 2"
      if "s_nb st \<noteq> [] \<and> q_C (last (s_nb st)) = q_C q"
      using complete_cycle_result [of "complete_start cfg st1 (q_E q)" st1 "alone st1 ins", folded q(6)] that fields(2) by simp
  qed
  moreover have "get0 (s_gpr st) g \<le> q_S q" if "g \<in> t_src ins" for g
    using operands_ready_ge [OF assms(2) that, of st1 wait] unit_starts_late(2) [of ?ready st1 ins d u] fields(3)
    by (simp add: q s)
  ultimately show ?thesis using that rest q(1,2) by blast
qed

lemma branch_state_fields [simp]:
  "s_out (branch_state cfg ins taken f xr st) = s_out st" "s_nb (branch_state cfg ins taken f xr st) = s_nb st"
  "s_fetch (branch_state cfg ins taken f xr st) = s_fetch st" "s_gpr (branch_state cfg ins taken f xr st) = s_gpr st"
  by (simp_all add: branch_state_def Let_def case_prod_beta)

lemma branch_step_result:
  assumes "branch_step cfg ins taken f st = Some st'"
  obtains (folded) info where "\<not> branch_slot cfg" "s_nb st' = s_nb st" "s_fetch st' = s_fetch st" "s_gpr st' = s_gpr st"
      "s_out st' = s_out st @ [Folded (t_pc ins) ins f (if s_out st = [] then 0 else row_C (last (s_out st))) info]"
  | (slotted) q info where "s_out st' = s_out st @ [Slotted q info]" "s_nb st' = s_nb st @ [q]" "s_fetch st' = s_fetch st"
      "s_gpr st' = s_gpr st" "q_ins q = ins" "q_F q = f" "f < q_D q" "placed cfg st q"
proof -
  obtain d where d: "branch_dispatch cfg st ins f = Some d" using assms by (auto simp: branch_step_def)
  obtain x resolve where xr: "branch_times st ins f d = (x, resolve)" by (metis prod.exhaust)
  let ?st = "branch_state cfg ins taken f (x, resolve) st"
  have st': "st' = branch_row cfg ins taken f d (x, resolve) ?st"
    using assms by (simp add: branch_step_def d xr Let_def)
  show ?thesis
  proof (cases "branch_slot cfg")
    case False
    then show ?thesis using folded by (simp add: st' branch_row_def)
  next
    case True
    obtain avail where D: "dispatched cfg st ins [BPU] (max (f + 1) (max (prev_D st) (s_ser st))) (d, avail)"
      using d True by (auto simp: branch_dispatch_def dest!: dispatch_cycle_result)
    define q where "q = \<lparr>q_pc = t_pc ins, q_ins = ins, q_F = f, q_D = d, q_S = x, q_E = x,
      q_C = complete_cycle ?st False (max resolve (prev_C ?st)), q_unit = BPU\<rparr>"
    have prev: "prev_C ?st = prev_C st" by (simp add: prev_C_def)
    have "placed cfg st q"
      using D complete_cycle_result [of "max resolve (prev_C st)" ?st False]
      by (auto simp: placed_def dispatched_def q_def prev)
    moreover have "f < q_D q" using D by (simp add: dispatched_def q_def)
    ultimately show ?thesis using True slotted [of q]
      by (simp add: st' branch_row_def Let_def q_def)
  qed
qed

section \<open>The invariant\<close>

fun row_F :: "row \<Rightarrow> int" where
  "row_F (Plain q) = q_F q"
| "row_F (Folded pc ins f c b) = f"
| "row_F (Slotted q b) = q_F q"

fun row_slot :: "row \<Rightarrow> slot list" where
  "row_slot (Plain q) = [q]"
| "row_slot (Folded pc ins f c b) = []"
| "row_slot (Slotted q b) = [q]"

fun row_stages :: "row \<Rightarrow> bool" where
  "row_stages (Plain q) = stages_ok q"
| "row_stages (Folded pc ins f c b) = True"
| "row_stages (Slotted q b) = (q_F q < q_D q)"

definition slots_of :: "row list \<Rightarrow> slot list" where "slots_of rows = concat (map row_slot rows)"

text \<open>The youngest of some instructions that writes a general register.\<close>

definition youngest_writer :: "slot list \<Rightarrow> int \<Rightarrow> slot option" where
  "youngest_writer qs g = find (\<lambda>q. g \<in> t_dst (q_ins q)) (rev qs)"

lemma youngest_writer_snoc [simp]:
  "youngest_writer (qs @ [q]) g = (if g \<in> t_dst (q_ins q) then Some q else youngest_writer qs g)"
  by (simp add: youngest_writer_def)

definition operands_produced :: "slot list \<Rightarrow> slot \<Rightarrow> bool" where
  "operands_produced qs q \<longleftrightarrow>
     (\<forall>g \<in> t_src (q_ins q). case youngest_writer qs g of None \<Rightarrow> True | Some p \<Rightarrow> result_at p \<le> q_S q)"

definition within_limits :: "tcfg \<Rightarrow> slot list \<Rightarrow> slot \<Rightarrow> bool" where
  "within_limits cfg qs q \<longleftrightarrow>
     queue_busy cfg qs (q_D q) + 1 \<le> CQ_LIMIT \<and> renames_busy qs (q_D q) + card (t_dst (q_ins q)) \<le> GPR_LIMIT"

definition slot_step :: "tcfg \<Rightarrow> slot list \<Rightarrow> slot \<Rightarrow> bool" where
  "slot_step cfg qs q \<longleftrightarrow> next_cycle q_D qs q \<and> next_cycle q_C qs q \<and> within_limits cfg qs q \<and> operands_produced qs q"

definition sched_inv :: "tcfg \<Rightarrow> tstate \<Rightarrow> bool" where
  "sched_inv cfg st \<longleftrightarrow>
     slots_of (s_out st) = s_nb st \<and> stepwise (slot_step cfg) (s_nb st) \<and>
     map fst (s_fetch st) = map row_F (s_out st) \<and> stepwise (next_cycle row_F) (s_out st) \<and>
     (s_out st \<noteq> [] \<longrightarrow> row_C (last (s_out st)) = prev_C st) \<and> sorted (map row_C (s_out st)) \<and>
     (\<forall>g. s_gpr st g = map_option result_at (youngest_writer (s_nb st) g)) \<and>
     (\<forall>r \<in> set (s_out st). row_stages r)"

lemma sched_inv_init: "sched_inv cfg tstate_init"
  by (simp add: sched_inv_def tstate_init_def slots_of_def youngest_writer_def)

text \<open>The windows of seven records see every entry that is still in use.\<close>

lemma length_filter_or: "(\<And>x. P x \<Longrightarrow> Q x \<or> R x) \<Longrightarrow> length (filter P xs) \<le> length (filter Q xs) + length (filter R xs)"
  by (induction xs) (auto simp: le_Suc_eq)

lemma filter_lastn: "length (filter P (lastn k xs)) \<le> length (filter P xs)"
proof -
  have "length (filter P xs) = length (filter P (take (length xs - k) xs)) + length (filter P (lastn k xs))"
    unfolding lastn_def by (metis append_take_drop_id filter_append length_append)
  then show ?thesis by simp
qed

lemma busy_window:
  assumes sorted: "stepwise (next_cycle q_C) qs" and room: "queue_busy cfg (lastn 7 qs) d < 5"
  shows "queue_busy cfg (lastn 7 qs) d = queue_busy cfg qs d" "renames_busy (lastn 7 qs) d = renames_busy qs d"
proof -
  have s: "sorted (map q_C qs)" using next_cycle_sorted [OF sorted] .
  then have "sorted (map (\<lambda>q. q_C q + cq_late cfg) qs)"
    by (induction qs) auto
  from filter_suffix [OF this, of d 7] room
  show "queue_busy cfg (lastn 7 qs) d = queue_busy cfg qs d" by (simp add: queue_busy_def)
  have before: "d - 1 < c \<longleftrightarrow> d \<le> c" for c :: int by auto
  have "length (filter (\<lambda>q. d \<le> q_C q) (lastn 7 qs)) \<le>
      length (filter (\<lambda>q. d < q_C q + cq_late cfg) (lastn 7 qs)) + length (filter (\<lambda>q. q_C q = d) (lastn 7 qs))"
    by (rule length_filter_or) (auto simp: cq_late_def)
  then have "length (filter (\<lambda>q. d - 1 < q_C q) (lastn 7 qs)) < 7"
    using room next_cycle_two [OF sorted, of d] filter_lastn [of "\<lambda>q. q_C q = d" 7 qs] by (simp add: queue_busy_def before)
  from filter_suffix [OF s this] show "renames_busy (lastn 7 qs) d = renames_busy qs d"
    by (simp add: renames_busy_def before)
qed

lemma placed_slot_step:
  assumes "stepwise (slot_step cfg) (s_nb st)" "placed cfg st q"
    and gpr: "\<forall>g. s_gpr st g = map_option result_at (youngest_writer (s_nb st) g)"
    and ops: "\<And>g. g \<in> t_src (q_ins q) \<Longrightarrow> get0 (s_gpr st) g \<le> q_S q"
  shows "slot_step cfg (s_nb st) q"
proof -
  have sorted: "stepwise (next_cycle q_C) (s_nb st)" using assms(1) by (rule stepwise_mono) (simp add: slot_step_def)
  have room: "queue_busy cfg (lastn 7 (s_nb st)) (q_D q) < 5" "renames_busy (lastn 7 (s_nb st)) (q_D q) + card (t_dst (q_ins q)) \<le> 5"
    using assms(2) by (simp_all add: placed_def no_room_def CQ_LIMIT_def GPR_LIMIT_def)
  have "within_limits cfg (s_nb st) q"
    using room busy_window [OF sorted room(1)] by (simp add: within_limits_def CQ_LIMIT_def GPR_LIMIT_def)
  moreover have "next_cycle q_D (s_nb st) q" "next_cycle q_C (s_nb st) q"
    using assms(2) by (auto simp: next_cycle_def placed_def prev_D_def prev_C_def pair_refused_def pairs_def)
  moreover have "operands_produced (s_nb st) q"
    unfolding operands_produced_def
  proof
    fix g assume "g \<in> t_src (q_ins q)"
    then show "case youngest_writer (s_nb st) g of None \<Rightarrow> True | Some p \<Rightarrow> result_at p \<le> q_S q"
      using ops [of g] gpr by (cases "youngest_writer (s_nb st) g") (auto simp: get0_def)
  qed
  ultimately show ?thesis by (simp add: slot_step_def)
qed

lemma slots_of_snoc [simp]: "slots_of (rows @ [r]) = slots_of rows @ row_slot r" "slots_of [] = []"
  by (simp_all add: slots_of_def)

lemma fetch_next_cycle:
  assumes "map fst (s_fetch st) = map row_F (s_out st)" "row_F r = fetch_cycle cfg st ins (fetch_start st)"
  shows "next_cycle row_F (s_out st) r"
proof (cases "s_out st" rule: rev_cases)
  case (snoc ys y)
  let ?f = "fetch_cycle cfg st ins (fetch_start st)"
  obtain hs h where hs: "s_fetch st = hs @ [h]" "fst h = row_F y" "map fst hs = map row_F ys"
    using assms(1) snoc by (cases "s_fetch st" rule: rev_cases) auto
  have le: "row_F y \<le> ?f" and ok: "fetch_pair_ok cfg st (t_pc ins) ?f"
    using fetch_cycle_result [of "fetch_start st" cfg st ins] by (auto simp: fetch_start_def fetch_ok_def hs)
  have "length (filter (\<lambda>y. row_F y = ?f) (lastn 2 (s_out st))) < 2" if eq: "row_F y = ?f"
  proof (cases ys rule: rev_cases)
    case Nil
    then show ?thesis by (simp add: snoc lastn_def)
  next
    case z: (snoc zs z)
    then obtain gs g where gs: "hs = gs @ [g]" "fst g = row_F z" using hs(3) by (cases hs rule: rev_cases) auto
    have "fst g \<noteq> ?f" using ok eq by (simp add: fetch_pair_ok_def Let_def hs gs nth_append)
    then show ?thesis using lastn_snoc2 [of ys y] by (simp add: snoc z gs(2))
  qed
  then show ?thesis using le by (simp add: next_cycle_def assms(2) snoc)
qed (simp add: next_cycle_def)

lemma unit_parts:
  "t_unit (x_memory rd ra rb xo i) = LSU" "t_unit (d_memory opc rd ra i) = LSU" "t_unit (multiple_memory opc rd ra i) = LSU"
  "t_unit (fp_memory opc ra i) = LSU" "t_unit (sru_insn lat crs crd i) = SRU"
  "t_unit i = IU \<Longrightarrow> t_unit (rc_cr0 rc (rotate_insn opc rd ra rb i)) = IU"
  "t_unit i = IU \<Longrightarrow> t_unit (x_logical rd ra rb rc xo i) = IU" "t_unit i = IU \<Longrightarrow> t_unit (x_arith rd ra rb rc xo mul dv i) \<noteq> BPU"
  by (simp_all add: x_memory_def d_memory_def multiple_memory_def fp_memory_def sru_insn_def rc_cr0_def rotate_insn_def
      x_logical_def x_arith_def Let_def)

lemma x31_not_branch: "t_unit i = IU \<Longrightarrow> t_unit (decode_x31 w mul dv i) \<noteq> BPU"
  by (simp add: decode_x31_def Let_def unit_parts)

lemma branch_parts:
  "t_dst (branch_insn w kind i) = t_dst i" "t_src (branch_insn w kind i) = t_src i"
  "t_dst (sru_insn lat crs crd i) = t_dst i" "t_src (sru_insn lat crs crd i) = t_src i"
  by (simp_all add: branch_insn_def sru_insn_def Let_def)

lemma decode_branch_registers:
  assumes "t_unit i = IU" "t_dst i = {}" "t_src i = {}" "t_unit (decode_insn mul dv i) = BPU"
  shows "t_dst (decode_insn mul dv i) = {} \<and> t_src (decode_insn mul dv i) = {}"
proof (cases "drop_bit 26 (t_word i) \<in> {16, 18, 19}")
  case True
  have op19: "t_dst (decode_op19 (t_word i) i) = {} \<and> t_src (decode_op19 (t_word i) i) = {}"
    using assms(2,3) by (simp add: decode_op19_def Let_def branch_parts)
  from True consider "drop_bit 26 (t_word i) = 16" | "drop_bit 26 (t_word i) = 18" | "drop_bit 26 (t_word i) = 19"
    by blast
  then show ?thesis using op19 assms(2,3) by cases (simp_all add: decode_insn_def Let_def branch_parts)
next
  case False
  then have "t_unit (decode_insn mul dv i) \<noteq> BPU"
    using assms(1) x31_not_branch [OF assms(1)] by (simp add: decode_insn_def Let_def unit_parts)
  then show ?thesis using assms(4) by contradiction
qed

lemma branch_registers:
  "t_unit (decode_cfg cfg pc w) = BPU \<Longrightarrow> t_dst (decode_cfg cfg pc w) = {} \<and> t_src (decode_cfg cfg pc w) = {}"
  unfolding decode_cfg_def TInsn_def by (rule decode_branch_registers) (simp_all add: tinsn_blank_def)

lemma prev_C_snoc: "s_nb st = qs @ [q] \<Longrightarrow> prev_C st = q_C q" by (simp add: prev_C_def)

lemma sorted_le_last: "sorted (map f xs) \<Longrightarrow> x \<in> set xs \<Longrightarrow> f x \<le> f (last xs)"
  by (cases xs rule: rev_cases) (auto simp: sorted_append)

lemma sched_inv_slot:
  assumes inv: "sched_inv cfg st" and out: "s_out st' = s_out st @ [r]" "s_nb st' = s_nb st @ [q]"
    "map fst (s_fetch st') = map fst (s_fetch st) @ [row_F r]"
    "s_gpr st' = (\<lambda>g. if g \<in> t_dst (q_ins q) then Some (result_at q) else s_gpr st g)"
    and r: "row_slot r = [q]" "row_C r = q_C q" "row_stages r" "next_cycle row_F (s_out st) r"
    and q: "prev_C st \<le> q_C q" "slot_step cfg (s_nb st) q"
  shows "sched_inv cfg st'"
proof -
  note I = inv [unfolded sched_inv_def]
  have "row_C x \<le> q_C q" if "x \<in> set (s_out st)" for x
    using I sorted_le_last [of row_C "s_out st" x] that q(1) by (cases "s_out st = []") auto
  then have "sorted (map row_C (s_out st'))" using I by (auto simp: out r(2) sorted_append)
  moreover have "prev_C st' = q_C q" by (simp add: prev_C_def out)
  moreover have "\<forall>g. s_gpr st' g = map_option result_at (youngest_writer (s_nb st') g)" using I by (simp add: out)
  ultimately show ?thesis using I r q(2) by (simp add: sched_inv_def out)
qed

lemma schedule_step_inv:
  assumes inv: "sched_inv cfg st" and step: "schedule_step cfg (pc, w, npc) rest st = Some st'"
    and t: "1 \<le> c_mul cfg" "1 \<le> c_div cfg"
  shows "sched_inv cfg st' \<and> length (s_out st') = Suc (length (s_out st))"
proof -
  define ins where "ins = decode_cfg cfg pc w"
  define f where "f = fetch_cycle cfg st ins (fetch_start st)"
  define st1 where "st1 = st\<lparr>s_fetch := s_fetch st @ [(f, pc)]\<rparr>"
  have wf: "tinsn_wf ins" using t by (simp add: ins_def decode_cfg_def TInsn_wf)
  then have fin: "finite (t_src ins)" by (auto simp: tinsn_wf_def intro: finite_subset)
  have st1: "s_out st1 = s_out st" "s_nb st1 = s_nb st" "s_gpr st1 = s_gpr st" "map fst (s_fetch st1) = map fst (s_fetch st) @ [f]"
    "prev_C st1 = prev_C st" "\<And>q. placed cfg st1 q = placed cfg st q"
    by (simp_all add: st1_def prev_C_def prev_D_def placed_def pair_refused_def pairs_def no_room_def)
  note I = inv [unfolded sched_inv_def]
  have J: "stepwise (slot_step cfg) (s_nb st)" "\<forall>g. s_gpr st g = map_option result_at (youngest_writer (s_nb st) g)"
    using I by blast+
  have F: "next_cycle row_F (s_out st) r" if "row_F r = f" for r
    using fetch_next_cycle [of st r cfg ins] I that by (simp add: f_def)
  have last: "row_C r \<le> prev_C st" if "r \<in> set (s_out st)" for r
    using I sorted_le_last [of row_C "s_out st" r] that by (cases "s_out st = []") auto
  show ?thesis
  proof (cases "t_unit ins = BPU")
    case True
    then have b: "branch_step cfg ins (npc \<noteq> pc + 4) f st1 = Some st'"
      using step by (simp add: schedule_step_def Let_def ins_def [symmetric] f_def [symmetric] st1_def [symmetric])
    have dst: "t_dst ins = {}" "t_src ins = {}" using branch_registers [of cfg pc w] True by (simp_all add: ins_def)
    from b show ?thesis
    proof (cases rule: branch_step_result)
      case (folded info)
      then show ?thesis using I F st1 last by (auto simp: sched_inv_def sorted_append prev_C_def)
    next
      case (slotted q info)
      then have "slot_step cfg (s_nb st) q" using placed_slot_step [OF J(1) _ J(2), of q] st1 dst by simp
      then have "sched_inv cfg st'"
        using slotted st1 dst F [of "Slotted q info"] I by (intro sched_inv_slot [OF inv slotted(1) [unfolded st1(1)]]) (auto simp: placed_def fun_eq_iff)
      then show ?thesis using slotted st1 by simp
    qed
  next
    case False
    then have b: "plain_step cfg ins (take IQ_LIMIT rest) f st1 = Some st'"
      using step by (simp add: schedule_step_def Let_def ins_def [symmetric] f_def [symmetric] st1_def [symmetric])
    show ?thesis
    proof (rule plain_step_result [OF b fin])
      fix q assume q0: "s_out st' = s_out st1 @ [Plain q]" "s_nb st' = s_nb st1 @ [q]" "s_fetch st' = s_fetch st1"
        "s_gpr st' = (\<lambda>g. if g \<in> t_dst ins then Some (result_at q) else s_gpr st1 g)" "q_ins q = ins" "q_F q = f"
        "placed cfg st1 q" "stages_ok q" "\<And>g. g \<in> t_src ins \<Longrightarrow> get0 (s_gpr st1) g \<le> q_S q"
      note q = q0 [unfolded st1(1,2,3)]
      have placed: "placed cfg st q" using q(7) st1(6) by simp
      then have "slot_step cfg (s_nb st) q" using placed_slot_step [OF J(1) _ J(2), of q] q(5,9) by simp
      then have "sched_inv cfg st'"
        using q st1(4) placed F [of "Plain q"] by (intro sched_inv_slot [OF inv q(1)]) (auto simp: placed_def)
      then show ?thesis using q(1) by simp
    qed
  qed
qed

text \<open>What a whole schedule satisfies, and how long it is.\<close>

lemma schedule_from_inv:
  assumes "sched_inv cfg st" "schedule_from cfg stream st = Some st'" "1 \<le> c_mul cfg" "1 \<le> c_div cfg"
  shows "sched_inv cfg st' \<and> length (s_out st') = length (s_out st) + length stream"
  using assms(1,2)
proof (induction stream arbitrary: st)
  case (Cons rec rest)
  obtain pc w npc where rec: "rec = (pc, w, npc)" by (cases rec) auto
  from Cons.prems(2) obtain st1 where st1: "schedule_step cfg (pc, w, npc) rest st = Some st1" "schedule_from cfg rest st1 = Some st'"
    by (auto simp: rec bind_eq_Some_conv)
  show ?case using schedule_step_inv [OF Cons.prems(1) st1(1) assms(3,4)] Cons.IH [OF _ st1(2)] by simp
qed simp

text \<open>Streams the scheduler is for: no load multiple of more than five registers, at least one cycle each.\<close>

definition schedulable :: "tcfg \<Rightarrow> (int \<times> int \<times> int) list \<Rightarrow> bool" where
  "schedulable cfg stream \<longleftrightarrow>
     1 \<le> c_mul cfg \<and> 1 \<le> c_div cfg \<and>
     (\<forall>(pc, w, npc) \<in> set stream. \<not> (drop_bit 26 w = 46 \<and> drop_bit 21 w AND 31 < 27))"

lemma schedulable_schedule:
  assumes "schedulable cfg stream"
  obtains rows where "schedule cfg stream = Some rows" "length rows = length stream"
    "stepwise (slot_step cfg) (slots_of rows)" "stepwise (next_cycle row_F) rows" "sorted (map row_C rows)"
    "\<forall>r \<in> set rows. row_stages r"
proof -
  obtain st where st: "schedule_from cfg stream tstate_init = Some st"
    using assms schedule_from_returns [of cfg stream tstate_init]
    by (cases "schedule_from cfg stream tstate_init") (auto simp: schedulable_def wide_def field5_def)
  have "1 \<le> c_mul cfg" "1 \<le> c_div cfg" using assms by (simp_all add: schedulable_def)
  from schedule_from_inv [OF sched_inv_init st this]
  have "sched_inv cfg st" "length (s_out st) = length stream" by (simp_all add: tstate_init_def)
  then show ?thesis using that [of "s_out st"] st by (simp add: schedule_def sched_inv_def)
qed

text \<open>A short loop: a load, an addition that needs it, a compare, a conditional branch back.\<close>

definition sample_cfg :: "string set \<Rightarrow> tcfg" where
  "sample_cfg core = \<lparr>c_mul = 3, c_div = 20, c_sru_add = True, c_fetch_any = False, c_core = core\<rparr>"

definition sample_stream :: "(int \<times> int \<times> int) list" where
  "sample_stream = [(0, 0x80830000, 4), (4, 0x7C642214, 8), (8, 0x2C030000, 12), (12, 0x4182FFF4, 0), (0, 0x80830000, 4)]"

lemma sample_schedulable: "schedulable (sample_cfg core) sample_stream"
  by (simp add: schedulable_def sample_cfg_def sample_stream_def)

text \<open>
  C25: \<open>schedule\<close> keeps program order.  Fetch, dispatch and completion cycles never go
  back, and no cycle fetches, dispatches or completes more than two instructions.
\<close>

lemma schedule_in_order:
  assumes "schedulable cfg stream"
  shows "\<exists>rows. schedule cfg stream = Some rows \<and> length rows = length stream \<and>
    sorted (map row_F rows) \<and> sorted (map q_D (slots_of rows)) \<and> sorted (map row_C rows) \<and>
    (\<forall>n. length (filter (\<lambda>r. row_F r = n) rows) \<le> 2 \<and>
         length (filter (\<lambda>q. q_D q = n) (slots_of rows)) \<le> 2 \<and>
         length (filter (\<lambda>q. q_C q = n) (slots_of rows)) \<le> 2)"
proof -
  obtain rows where rows: "schedule cfg stream = Some rows" "length rows = length stream"
    "stepwise (slot_step cfg) (slots_of rows)" "stepwise (next_cycle row_F) rows" "sorted (map row_C rows)"
    using schedulable_schedule [OF assms] by metis
  have "stepwise (next_cycle q_D) (slots_of rows)" "stepwise (next_cycle q_C) (slots_of rows)"
    by (rule stepwise_mono [OF rows(3)], simp add: slot_step_def)+
  with rows show ?thesis
    by (intro exI [of _ rows] conjI allI) (simp_all add: next_cycle_sorted next_cycle_two)
qed

lemma schedule_in_order_witness:
  "\<exists>rows. schedule (sample_cfg {}) sample_stream = Some rows \<and> length rows = length sample_stream \<and>
    sorted (map row_F rows) \<and> sorted (map q_D (slots_of rows)) \<and> sorted (map row_C rows) \<and>
    (\<forall>n. length (filter (\<lambda>r. row_F r = n) rows) \<le> 2 \<and>
         length (filter (\<lambda>q. q_D q = n) (slots_of rows)) \<le> 2 \<and>
         length (filter (\<lambda>q. q_C q = n) (slots_of rows)) \<le> 2)"
  by (rule schedule_in_order [OF sample_schedulable])

section \<open>A branch that resolves before it executes\<close>

text \<open>
  \<open>resolve = x\<close> is set before \<open>x\<close> waits for an outstanding prediction, so a conditional
  branch whose condition is known executes behind the prediction and yet keeps the earlier
  resolve cycle, from which \<open>ctr_ready\<close> is taken.
\<close>

lemma resolve_before_execute:
  assumes "t_crs ins \<noteq> {}" "branch_operands st ins f d < s_pending st" "cr_ready st ins \<le> s_pending st"
  shows "branch_times st ins f d = (s_pending st, branch_operands st ins f d)"
  using assms by (simp add: branch_times_def Let_def)

end
