(* ===== verification/Timing_Waits.thy ===== *)
theory Timing_Waits
  imports Timing_Order
begin

text \<open>
  What an instruction of a schedule waits for.  The scheduler keeps, for every resource, the
  cycle in which it is available; here that cycle is read off the records alone
  (\<open>gpr_at\<close>, \<open>cr_at\<close>, \<open>lr_at\<close>, \<open>ctr_at\<close>, \<open>cr_done\<close>: the youngest older writer) and the
  recent stores are those the address bookkeeping collects from the records (\<open>replay\<close>).
  The invariant says that the state of the scheduler agrees with the records; the
  properties say that every record waits for all of them, and how its stages follow
  each other, for branches too.
\<close>

section \<open>Resources, read off the records\<close>

fun row_ins :: "row \<Rightarrow> tinsn" where
  "row_ins (Plain q) = q_ins q"
| "row_ins (Folded pc ins f c b) = ins"
| "row_ins (Slotted q b) = q_ins q"

fun row_branch :: "row \<Rightarrow> branch_info option" where
  "row_branch (Plain q) = None"
| "row_branch (Folded pc ins f c b) = Some b"
| "row_branch (Slotted q b) = Some b"

text \<open>The cycles in which a record's results are there.\<close>

fun row_result :: "row \<Rightarrow> int" where
  "row_result (Plain q) = result_at q"
| "row_result r = 0"

fun row_cr :: "row \<Rightarrow> int" where
  "row_cr (Plain q) = (if t_cr_fast (q_ins q) then q_E q + 1 else if t_serial (q_ins q) then q_C q + 1 else q_C q)"
| "row_cr r = 0"

fun row_lr :: "row \<Rightarrow> int" where
  "row_lr (Plain q) = q_E q + 1"
| "row_lr (Folded pc ins f c b) = b_X b + 1"
| "row_lr (Slotted q b) = b_X b + 1"

fun row_ctr :: "row \<Rightarrow> int" where
  "row_ctr (Plain q) = q_E q + 1"
| "row_ctr (Folded pc ins f c b) = b_R b + 1"
| "row_ctr (Slotted q b) = b_R b + 1"

text \<open>What the youngest of some records leaves; cycle 0 when there is none.\<close>

definition last_by :: "(row \<Rightarrow> bool) \<Rightarrow> (row \<Rightarrow> int) \<Rightarrow> row list \<Rightarrow> int" where
  "last_by P cyc rows = (case find P (rev rows) of None \<Rightarrow> 0 | Some r \<Rightarrow> cyc r)"

lemma last_by_simps [simp]:
  "last_by P cyc [] = 0" "last_by P cyc (rows @ [r]) = (if P r then cyc r else last_by P cyc rows)"
  by (simp_all add: last_by_def)

definition gpr_at :: "row list \<Rightarrow> int \<Rightarrow> int" where
  "gpr_at rows g = last_by (\<lambda>r. g \<in> t_dst (row_ins r)) row_result rows"

definition cr_at :: "row list \<Rightarrow> int \<Rightarrow> int" where
  "cr_at rows c = last_by (\<lambda>r. c \<in> t_crd (row_ins r)) row_cr rows"

definition lr_at :: "row list \<Rightarrow> int" where "lr_at = last_by (\<lambda>r. t_lr_w (row_ins r)) row_lr"
definition ctr_at :: "row list \<Rightarrow> int" where "ctr_at = last_by (\<lambda>r. t_ctr_w (row_ins r)) row_ctr"

text \<open>The cycle after the completion of the last instruction that writes CR.\<close>

definition cr_done :: "row list \<Rightarrow> int" where
  "cr_done = last_by (\<lambda>r. t_crd (row_ins r) \<noteq> {}) (\<lambda>r. row_C r + 1)"

lemmas at_defs = gpr_at_def cr_at_def lr_at_def ctr_at_def cr_done_def

section \<open>The address bookkeeping of the records\<close>

fun replay_row :: "row \<Rightarrow> tstate \<Rightarrow> tstate" where
  "replay_row (Plain q) st =
     (case track (q_ins q) (t_word (q_ins q)) st of (ea, wait, st') \<Rightarrow> written (q_ins q) (t_word (q_ins q)) ea (q_C q) st')"
| "replay_row r st = st"

definition replay :: "row list \<Rightarrow> tstate" where
  "replay rows = fold replay_row rows tstate_init"

text \<open>The symbolic address of an access after these records.\<close>

definition access_at :: "row list \<Rightarrow> tinsn \<Rightarrow> (int \<times> int) option" where
  "access_at rows ins = fst (track ins (t_word ins) (replay rows))"

text \<open>The bookkeeping reads and writes only its own three fields.\<close>

definition sym_part :: "tstate \<Rightarrow> tstate" where
  "sym_part st = tstate_init\<lparr>s_sym := s_sym st, s_fresh := s_fresh st, s_stores := s_stores st\<rparr>"

lemma sym_part_eq: "s_sym st = s_sym st' \<Longrightarrow> s_fresh st = s_fresh st' \<Longrightarrow> s_stores st = s_stores st' \<Longrightarrow> sym_part st = sym_part st'"
  by (simp add: sym_part_def)

lemma sym_part_fields [simp]:
  "s_sym (sym_part st) = s_sym st" "s_fresh (sym_part st) = s_fresh st" "s_stores (sym_part st) = s_stores st"
  by (simp_all add: sym_part_def)

lemma sym_part_updates [simp]:
  "(sym_part st)\<lparr>s_sym := m\<rparr> = sym_part (st\<lparr>s_sym := m\<rparr>)" "(sym_part st)\<lparr>s_fresh := n\<rparr> = sym_part (st\<lparr>s_fresh := n\<rparr>)"
  "(sym_part st)\<lparr>s_stores := ss\<rparr> = sym_part (st\<lparr>s_stores := ss\<rparr>)"
  by (simp_all add: sym_part_def)

lemma gpr_sym_part_commutes: "gpr_sym g (sym_part st) = map_prod id sym_part (gpr_sym g st)"
  by (simp add: gpr_sym_def Let_def split: option.split)

lemma track_sym: "track ins w (sym_part st) = map_prod id (map_prod id sym_part) (track ins w st)"
  by (simp add: track_def Let_def gpr_sym_part_commutes store_wait_def split: prod.split)

lemma written_gpr_sym: "written_gpr w ea g (sym_part st) = sym_part (written_gpr w ea g st)"
  by (simp add: written_gpr_def Let_def gpr_sym_part_commutes case_prod_beta del: not_None_eq not_Some_eq)

lemma fold_written_sym: "fold (written_gpr w ea) gs (sym_part st) = sym_part (fold (written_gpr w ea) gs st)"
  by (induction gs arbitrary: st) (simp_all add: written_gpr_sym)

lemma written_sym: "written ins w ea c (sym_part st) = sym_part (written ins w ea c st)"
  by (simp add: written_def Let_def fold_written_sym split: option.split)

lemma replay_simps [simp]: "replay [] = tstate_init" "replay (rows @ [r]) = replay_row r (replay rows)"
  by (simp_all add: replay_def)

lemma store_wait_ge:
  assumes "(r, lo, hi, c) \<in> set (s_stores st)" "r = fst ea" "lo < snd ea + n" "snd ea < hi"
  shows "c < store_wait st ea n"
proof -
  have "c + 1 \<le> store_wait st ea n"
    unfolding store_wait_def using assms by (intro max_default_ge finite_set) force
  then show ?thesis by simp
qed

lemma track_wait:
  assumes "track ins w st = (Some ea, wait, st')" "t_load ins" "(r, lo, hi, c) \<in> set (s_stores st)"
    "r = fst ea" "lo < snd ea + access_bytes w" "snd ea < hi"
  shows "c < wait"
proof -
  obtain v st1 where v: "(if field5 w 16 \<noteq> 0 then gpr_sym (field5 w 16) st else ((0, 0), st)) = (v, st1)" by fastforce
  have "s_stores st1 = s_stores st" using v by (auto simp: gpr_sym_def Let_def split: if_splits option.splits)
  moreover have "wait = store_wait st1 ea (access_bytes w)"
    using assms(1,2) v by (auto simp: track_def Let_def split: if_splits prod.splits)
  ultimately show ?thesis using store_wait_ge [of r lo hi c st1 ea] assms(3-6) by simp
qed

section \<open>What a record waits for\<close>

fun branch_waits :: "row list \<Rightarrow> tinsn \<Rightarrow> branch_info \<Rightarrow> bool" where
  "branch_waits rows ins b \<longleftrightarrow>
     (t_lr_r ins \<longrightarrow> lr_at rows \<le> b_X b) \<and> (t_ctr_r ins \<longrightarrow> ctr_at rows \<le> b_X b) \<and>
     (\<forall>c \<in> t_crs ins. cr_at rows c \<le> max (b_X b) (b_R b))"

definition plain_waits :: "row list \<Rightarrow> slot \<Rightarrow> bool" where
  "plain_waits rows q \<longleftrightarrow>
     (\<forall>g \<in> t_src (q_ins q). gpr_at rows g \<le> q_S q) \<and> (\<forall>c \<in> t_crs (q_ins q). cr_at rows c \<le> q_S q) \<and>
     (t_lr_r (q_ins q) \<longrightarrow> lr_at rows \<le> q_S q) \<and> (t_ctr_r (q_ins q) \<longrightarrow> ctr_at rows \<le> q_S q) \<and>
     (t_crd (q_ins q) \<noteq> {} \<longrightarrow> cr_done rows \<le> q_E q) \<and>
     (\<forall>ea. \<forall>(r, lo, hi, c) \<in> set (s_stores (replay rows)).
        t_load (q_ins q) \<and> access_at rows (q_ins q) = Some ea \<and> r = fst ea \<and>
        lo < snd ea + access_bytes (t_word (q_ins q)) \<and> snd ea < hi \<longrightarrow> c < q_S q)"

fun row_waits :: "row list \<Rightarrow> row \<Rightarrow> bool" where
  "row_waits rows (Plain q) = plain_waits rows q"
| "row_waits rows (Folded pc ins f c b) = branch_waits rows ins b"
| "row_waits rows (Slotted q b) = branch_waits rows (q_ins q) b"

section \<open>How the stages of a record follow each other\<close>

text \<open>A branch is predicted when it executes before it resolves.\<close>

definition predicted :: "branch_info \<Rightarrow> bool" where "predicted b \<longleftrightarrow> b_X b < b_R b"

definition resolved_by :: "row list \<Rightarrow> int \<Rightarrow> bool" where
  "resolved_by rows c \<longleftrightarrow> (\<forall>r \<in> set rows. \<forall>b. row_branch r = Some b \<and> predicted b \<longrightarrow> b_R b \<le> c)"

definition branch_unit_free :: "row list \<Rightarrow> int \<Rightarrow> bool" where
  "branch_unit_free rows x \<longleftrightarrow> (\<forall>r \<in> set rows. \<forall>b. row_branch r = Some b \<longrightarrow> b_X b < x)"

fun row_ordered :: "row list \<Rightarrow> row \<Rightarrow> bool" where
  "row_ordered rows (Plain q) \<longleftrightarrow> stages_ok q \<and> resolved_by rows (q_C q)"
| "row_ordered rows (Folded pc ins f c b) \<longleftrightarrow>
     f < b_X b \<and> branch_unit_free rows (b_X b) \<and> (b_mispredict b \<noteq> None \<longleftrightarrow> predicted b) \<and>
     c = (if rows = [] then 0 else row_C (last rows))"
| "row_ordered rows (Slotted q b) \<longleftrightarrow>
     q_F q < q_D q \<and> q_D q \<le> b_X b \<and> q_S q = b_X b \<and> q_E q = b_X b \<and> b_X b \<le> q_C q \<and> b_R b \<le> q_C q \<and>
     branch_unit_free rows (b_X b) \<and> (b_mispredict b \<noteq> None \<longleftrightarrow> predicted b) \<and> resolved_by rows (q_C q)"

section \<open>One instruction\<close>

lemma timing_part_more:
  assumes "timing_part st = timing_part st'"
  shows "s_cr st = s_cr st'" "s_lr st = s_lr st'" "s_ctr st = s_ctr st'" "s_cr_free st = s_cr_free st'" "s_last_x st = s_last_x st'"
proof -
  have f: "s_cr (timing_part s) = s_cr s" "s_lr (timing_part s) = s_lr s" "s_ctr (timing_part s) = s_ctr s"
    "s_cr_free (timing_part s) = s_cr_free s" "s_last_x (timing_part s) = s_last_x s" for s
    by (simp_all add: timing_part_def)
  show "s_cr st = s_cr st'" "s_lr st = s_lr st'" "s_ctr st = s_ctr st'" "s_cr_free st = s_cr_free st'" "s_last_x st = s_last_x st'"
    using f [of st, symmetric] f [of st', symmetric] assms by simp_all
qed

text \<open>The resources of the scheduler's state, and what the execution cycle of an instruction waits for.\<close>

definition resources_ready :: "tstate \<Rightarrow> tinsn \<Rightarrow> int \<Rightarrow> int \<Rightarrow> bool" where
  "resources_ready st ins wait s \<longleftrightarrow>
     (\<forall>g \<in> t_src ins. get0 (s_gpr st) g \<le> s) \<and> (\<forall>c \<in> t_crs ins. get0 (s_cr st) c \<le> s) \<and>
     (t_lr_r ins \<longrightarrow> s_lr st \<le> s) \<and> (t_ctr_r ins \<longrightarrow> s_ctr st \<le> s) \<and>
     (t_crd ins \<noteq> {} \<longrightarrow> s_cr_free st \<le> s + t_lat ins - 1) \<and> wait \<le> s"

lemma cr_ready_ge: "tinsn_wf ins \<Longrightarrow> c \<in> t_crs ins \<Longrightarrow> get0 (s_cr st) c \<le> cr_ready st ins"
  unfolding cr_ready_def tinsn_wf_def by (intro max_default_ge) (auto intro: finite_subset)

lemma operands_ready_all:
  assumes "tinsn_wf ins" "operands_ready st ins wait \<le> s"
  shows "resources_ready st ins wait s"
proof -
  have fin: "finite (t_src ins)" using assms(1) by (auto simp: tinsn_wf_def intro: finite_subset)
  have src: "get0 (s_gpr st) g \<le> s" if "g \<in> t_src ins" for g using operands_ready_ge [OF fin that, of st wait] assms(2) by simp
  define r where "r = max (max_default (get0 (s_gpr st) ` t_src ins)) wait"
  have crs: "cr_ready st ins \<le> s" and rest: "wait \<le> s" "t_lr_r ins \<Longrightarrow> s_lr st \<le> s" "t_ctr_r ins \<Longrightarrow> s_ctr st \<le> s"
    "t_crd ins \<noteq> {} \<Longrightarrow> s_cr_free st - t_lat ins + 1 \<le> s"
    using assms(2) unfolding operands_ready_def Let_def by (simp_all split: if_splits)
  have "get0 (s_cr st) c \<le> s" if "c \<in> t_crs ins" for c using cr_ready_ge [OF assms(1) that, of st] crs by simp
  then show ?thesis unfolding resources_ready_def using src rest(1-3) rest(4) by (intro conjI ballI impI) simp_all
qed

lemma plain_step_waits:
  assumes step: "plain_step cfg ins next f st = Some st'" and wf: "tinsn_wf ins"
  obtains q ea wait st1 where "s_out st' = s_out st @ [Plain q]" "q_ins q = ins" "q_E q = q_S q + t_lat ins - 1"
    "track ins (t_word ins) (sym_part st) = (ea, wait, st1)" "sym_part st' = written ins (t_word ins) ea (q_C q) st1"
    "resources_ready st ins wait (q_S q)" "s_pending st \<le> q_C q"
    "s_gpr st' = (\<lambda>g. if g \<in> t_dst ins then Some (row_result (Plain q)) else s_gpr st g)"
    "s_cr st' = (\<lambda>c. if c \<in> t_crd ins then Some (row_cr (Plain q)) else s_cr st c)"
    "s_lr st' = (if t_lr_w ins then q_E q + 1 else s_lr st)" "s_ctr st' = (if t_ctr_w ins then q_E q + 1 else s_ctr st)"
    "s_cr_free st' = (if t_crd ins \<noteq> {} then q_C q + 1 else s_cr_free st)"
    "s_pending st' = s_pending st" "s_last_x st' = s_last_x st" "s_nb st' = s_nb st @ [q]"
proof -
  let ?st = "st\<lparr>s_redirect := 0\<rparr>"
  obtain d avail where disp: "dispatch_cycle cfg ?st ins (units_of cfg ins) (dispatch_start cfg ?st ins f) = Some (d, avail)"
    using step by (auto simp: plain_step_def Let_def)
  obtain ea wait st1 where tr: "track ins (t_word ins) ?st = (ea, wait, st1)" by (metis prod.exhaust)
  have part: "timing_part st1 = timing_part ?st" using track_part [of ins "t_word ins" ?st] by (simp add: tr)
  note fields = timing_part_fields [OF part] timing_part_more [OF part]
  let ?ready = "operands_ready st1 ins wait"
  obtain s u where su: "choose_unit cfg st1 ins d ?ready avail next = (s, u)" by (metis prod.exhaust)
  define q where "q = plain_slot cfg st1 ins f d (s, u)"
  define st2 where "st2 = written ins (t_word ins) ea (q_C q) (occupy q st1)"
  have st': "st' = retire ins q st2"
    using step by (simp add: plain_step_def Let_def disp tr su q_def st2_def)
  have part2: "timing_part st2 = timing_part (occupy q st1)" by (simp add: st2_def written_part)
  note fields2 = timing_part_fields [OF part2] timing_part_more [OF part2]
  have keep: "s_out st2 = s_out st" "s_nb st2 = s_nb st" "s_gpr st2 = s_gpr st" "s_cr st2 = s_cr st" "s_lr st2 = s_lr st"
    "s_ctr st2 = s_ctr st" "s_cr_free st2 = s_cr_free st" "s_pending st2 = s_pending st" "s_last_x st2 = s_last_x st"
    using fields fields2 by (simp_all add: occupy_def)
  have q: "q_ins q = ins" "q_S q = s" "q_E q = s + t_lat ins - 1"
    "q_C q = complete_cycle st1 (alone st1 ins) (complete_start cfg st1 (q_E q))"
    by (simp_all add: q_def plain_slot_def Let_def)
  have "avail \<noteq> []" using dispatch_cycle_result [OF disp] unfolding dispatched_def snd_conv by (elim conjE)
  then have "s = unit_starts st1 ins d ?ready u" using choose_unit_start(1) [OF _ su] by blast
  then have "resources_ready st1 ins wait s" using operands_ready_all [OF wf] unit_starts_late(2) by blast
  then have ready: "resources_ready st ins wait s" using fields by (simp add: resources_ready_def)
  have "complete_start cfg st1 (q_E q) \<le> q_C q" using complete_cycle_result q(4) by metis
  then have pending: "s_pending st \<le> q_C q" using fields by (simp add: complete_start_def)
  have sp: "sym_part (occupy q st1) = sym_part st1" "sym_part ?st = sym_part st" by (rule sym_part_eq; simp add: occupy_def)+
  have tr': "track ins (t_word ins) (sym_part st) = (ea, wait, sym_part st1)"
    using track_sym [of ins "t_word ins" ?st] by (simp add: tr sp(2))
  have "sym_part st2 = written ins (t_word ins) ea (q_C q) (sym_part st1)"
    unfolding st2_def written_sym [symmetric] sp(1) ..
  moreover have "sym_part st' = sym_part st2" by (rule sym_part_eq) (simp_all add: st' retire_def Let_def)
  ultimately have sym: "sym_part st' = written ins (t_word ins) ea (q_C q) (sym_part st1)" by simp
  show ?thesis
    by (rule that [OF _ q(1) _ tr' sym])
      (simp_all add: q(2,3) ready pending st' retire_def Let_def keep result_at_def q(1) fun_eq_iff)
qed

lemma branch_times_cases:
  assumes "tinsn_wf ins" "branch_times st ins f d = (x, r)"
  shows "branch_first st f \<le> x" "d \<le> x" "t_lr_r ins \<Longrightarrow> s_lr st \<le> x" "t_ctr_r ins \<Longrightarrow> s_ctr st \<le> x"
    "\<And>c. c \<in> t_crs ins \<Longrightarrow> get0 (s_cr st) c \<le> max x r" "x < r \<Longrightarrow> s_pending st \<le> x" "x = s_pending st \<or> x \<le> r"
proof -
  have o: "branch_first st f \<le> branch_operands st ins f d" "d \<le> branch_operands st ins f d"
    "t_lr_r ins \<Longrightarrow> s_lr st \<le> branch_operands st ins f d" "t_ctr_r ins \<Longrightarrow> s_ctr st \<le> branch_operands st ins f d"
    by (auto simp: branch_operands_def Let_def)
  have t: "branch_operands st ins f d \<le> x" and r: "x < r \<Longrightarrow> s_pending st \<le> x" "x = s_pending st \<or> x \<le> r"
    using assms(2) by (auto simp: branch_times_def Let_def split: if_splits)
  show "branch_first st f \<le> x" "d \<le> x" "t_lr_r ins \<Longrightarrow> s_lr st \<le> x" "t_ctr_r ins \<Longrightarrow> s_ctr st \<le> x"
    using o t by force+
  show "x < r \<Longrightarrow> s_pending st \<le> x" "x = s_pending st \<or> x \<le> r" using r by blast+
  show "get0 (s_cr st) c \<le> max x r" if c: "c \<in> t_crs ins" for c
  proof -
    have "cr_ready st ins \<le> max x r" using assms(2) c by (auto simp: branch_times_def Let_def split: if_splits)
    then show ?thesis using cr_ready_ge [OF assms(1) c, of st] by simp
  qed
qed

lemma branch_state_all:
  "s_cr (branch_state cfg ins taken f (x, r) st) = s_cr st" "s_cr_free (branch_state cfg ins taken f (x, r) st) = s_cr_free st"
  "s_lr (branch_state cfg ins taken f (x, r) st) = (if t_lr_w ins then x + 1 else s_lr st)"
  "s_ctr (branch_state cfg ins taken f (x, r) st) = (if t_ctr_w ins then r + 1 else s_ctr st)"
  "s_last_x (branch_state cfg ins taken f (x, r) st) = x"
  "s_pending (branch_state cfg ins taken f (x, r) st) = (if x < r then r else s_pending st)"
  "sym_part (branch_state cfg ins taken f (x, r) st) = sym_part st"
  by (simp_all add: branch_state_def Let_def sym_part_def)

lemma branch_row_keeps:
  "s_cr (branch_row cfg ins taken f d xr st) = s_cr st" "s_cr_free (branch_row cfg ins taken f d xr st) = s_cr_free st"
  "s_lr (branch_row cfg ins taken f d xr st) = s_lr st" "s_ctr (branch_row cfg ins taken f d xr st) = s_ctr st"
  "s_last_x (branch_row cfg ins taken f d xr st) = s_last_x st" "s_pending (branch_row cfg ins taken f d xr st) = s_pending st"
  "s_gpr (branch_row cfg ins taken f d xr st) = s_gpr st" "sym_part (branch_row cfg ins taken f d xr st) = sym_part st"
  by (simp_all add: branch_row_def Let_def sym_part_def split: prod.split)

lemma branch_step_waits:
  assumes step: "branch_step cfg ins taken f st = Some st'" and wf: "tinsn_wf ins"
  obtains r b x where "s_out st' = s_out st @ [r]" "row_ins r = ins" "row_branch r = Some b" "b_X b = x"
    "b_mispredict b \<noteq> None \<longleftrightarrow> predicted b" "f < x" "s_last_x st < x"
    "t_lr_r ins \<Longrightarrow> s_lr st \<le> x" "t_ctr_r ins \<Longrightarrow> s_ctr st \<le> x" "\<And>c. c \<in> t_crs ins \<Longrightarrow> get0 (s_cr st) c \<le> max x (b_R b)"
    "predicted b \<Longrightarrow> s_pending st \<le> x" "x = s_pending st \<or> x \<le> b_R b"
    "s_cr st' = s_cr st" "s_cr_free st' = s_cr_free st" "s_gpr st' = s_gpr st" "sym_part st' = sym_part st"
    "s_lr st' = (if t_lr_w ins then x + 1 else s_lr st)" "s_ctr st' = (if t_ctr_w ins then b_R b + 1 else s_ctr st)"
    "s_last_x st' = x" "s_pending st' = (if predicted b then b_R b else s_pending st)"
    "if branch_slot cfg then \<exists>q. r = Slotted q b \<and> s_nb st' = s_nb st @ [q] \<and> q_D q \<le> x \<and> q_S q = x \<and> q_E q = x \<and>
         f = q_F q \<and> f < q_D q \<and> max (b_R b) (prev_C st) \<le> q_C q
       else r = Folded (t_pc ins) ins f (if s_out st = [] then 0 else row_C (last (s_out st))) b \<and> s_nb st' = s_nb st"
proof -
  obtain d where d: "branch_dispatch cfg st ins f = Some d" using step by (auto simp: branch_step_def)
  obtain x rs where xr: "branch_times st ins f d = (x, rs)" by (metis prod.exhaust)
  let ?st = "branch_state cfg ins taken f (x, rs) st"
  have st': "st' = branch_row cfg ins taken f d (x, rs) ?st" using step by (simp add: branch_step_def d xr Let_def)
  note T = branch_times_cases [OF wf xr]
  have first: "f < x" "s_last_x st < x" using T(1) by (auto simp: branch_first_def)
  define b where "b = \<lparr>b_X = x, b_R = rs, b_mispredict = (if rs > x then Some (predict_taken ins \<noteq> taken) else None)\<rparr>"
  have b: "b_X b = x" "b_R b = rs" "b_mispredict b \<noteq> None \<longleftrightarrow> predicted b" by (simp_all add: b_def predicted_def)
  have pred: "predicted b \<longleftrightarrow> x < rs" by (simp add: predicted_def b)
  note keeps = branch_row_keeps [of cfg ins taken f d "(x, rs)" ?st, folded st', unfolded branch_state_all branch_state_fields]
  define q where "q = \<lparr>q_pc = t_pc ins, q_ins = ins, q_F = f, q_D = d, q_S = x, q_E = x,
    q_C = complete_cycle ?st False (max rs (prev_C ?st)), q_unit = BPU\<rparr>"
  define r where "r = (if branch_slot cfg then Slotted q b
    else Folded (t_pc ins) ins f (if s_out st = [] then 0 else row_C (last (s_out st))) b)"
  have out: "s_out st' = s_out st @ [r]" "s_nb st' = (if branch_slot cfg then s_nb st @ [q] else s_nb st)"
    by (simp_all add: st' branch_row_def Let_def r_def q_def b_def)
  have "if branch_slot cfg then \<exists>q. r = Slotted q b \<and> s_nb st' = s_nb st @ [q] \<and> q_D q \<le> x \<and> q_S q = x \<and> q_E q = x \<and>
         f = q_F q \<and> f < q_D q \<and> max (b_R b) (prev_C st) \<le> q_C q
       else r = Folded (t_pc ins) ins f (if s_out st = [] then 0 else row_C (last (s_out st))) b \<and> s_nb st' = s_nb st"
  proof (cases "branch_slot cfg")
    case True
    have "f < d" using d True by (auto simp: branch_dispatch_def dispatched_def dest!: dispatch_cycle_result)
    moreover have "prev_C ?st = prev_C st" by (simp add: prev_C_def)
    then have "max rs (prev_C st) \<le> q_C q" using complete_cycle_result [of "max rs (prev_C st)" ?st False] by (simp add: q_def)
    ultimately show ?thesis using True T(2) out(2) by (simp add: r_def b) (simp add: q_def)
  qed (simp add: r_def out(2))
  moreover have "row_ins r = ins" "row_branch r = Some b" by (simp_all add: r_def q_def)
  moreover have "s_pending st' = (if predicted b then b_R b else s_pending st)" by (simp add: keeps pred b)
  ultimately show ?thesis
    using that [of r b x] out(1) b first T(3-7) keeps by (simp add: pred)
qed

section \<open>The invariant\<close>

definition waits_inv :: "tcfg \<Rightarrow> tstate \<Rightarrow> bool" where
  "waits_inv cfg st \<longleftrightarrow>
     (\<forall>g. get0 (s_gpr st) g = gpr_at (s_out st) g) \<and> (\<forall>c. get0 (s_cr st) c = cr_at (s_out st) c) \<and>
     s_lr st = lr_at (s_out st) \<and> s_ctr st = ctr_at (s_out st) \<and> s_cr_free st = cr_done (s_out st) \<and>
     sym_part st = replay (s_out st) \<and> stepwise row_waits (s_out st) \<and> stepwise row_ordered (s_out st) \<and>
     resolved_by (s_out st) (s_pending st) \<and> (branch_slot cfg \<longrightarrow> s_pending st \<le> prev_C st) \<and>
     branch_unit_free (s_out st) (s_last_x st + 1)"

lemma waits_inv_init: "waits_inv cfg tstate_init"
  by (simp add: waits_inv_def tstate_init_def at_defs get0_def sym_part_def resolved_by_def branch_unit_free_def prev_C_def)

lemma resolved_by_snoc:
  "resolved_by (rows @ [r]) c \<longleftrightarrow> resolved_by rows c \<and> (\<forall>b. row_branch r = Some b \<and> predicted b \<longrightarrow> b_R b \<le> c)"
  by (auto simp: resolved_by_def)

lemma resolved_by_mono: "resolved_by rows c \<Longrightarrow> c \<le> c' \<Longrightarrow> resolved_by rows c'"
  by (fastforce simp: resolved_by_def)

lemma branch_unit_free_snoc:
  "branch_unit_free (rows @ [r]) x \<longleftrightarrow> branch_unit_free rows x \<and> (\<forall>b. row_branch r = Some b \<longrightarrow> b_X b < x)"
  by (auto simp: branch_unit_free_def)

lemma branch_unit_free_mono: "branch_unit_free rows x \<Longrightarrow> x \<le> x' \<Longrightarrow> branch_unit_free rows x'"
  by (fastforce simp: branch_unit_free_def)

lemma waits_inv_plain:
  assumes inv: "waits_inv cfg st" and step: "plain_step cfg ins next f st = Some st'" and wf: "tinsn_wf ins"
  shows "waits_inv cfg st'"
proof -
  have fin: "finite (t_src ins)" using wf by (auto simp: tinsn_wf_def intro: finite_subset)
  note I = inv [unfolded waits_inv_def]
  from step wf show ?thesis
  proof (rule plain_step_waits)
    fix q ea wait st1
    assume q: "s_out st' = s_out st @ [Plain q]" "q_ins q = ins" "q_E q = q_S q + t_lat ins - 1"
      and tr: "track ins (t_word ins) (sym_part st) = (ea, wait, st1)" "sym_part st' = written ins (t_word ins) ea (q_C q) st1"
      and ready: "resources_ready st ins wait (q_S q)" and pending: "s_pending st \<le> q_C q"
      and new: "s_gpr st' = (\<lambda>g. if g \<in> t_dst ins then Some (row_result (Plain q)) else s_gpr st g)"
        "s_cr st' = (\<lambda>c. if c \<in> t_crd ins then Some (row_cr (Plain q)) else s_cr st c)"
        "s_lr st' = (if t_lr_w ins then q_E q + 1 else s_lr st)" "s_ctr st' = (if t_ctr_w ins then q_E q + 1 else s_ctr st)"
        "s_cr_free st' = (if t_crd ins \<noteq> {} then q_C q + 1 else s_cr_free st)"
      and keep: "s_pending st' = s_pending st" "s_last_x st' = s_last_x st" "s_nb st' = s_nb st @ [q]"
    have sp: "sym_part st = replay (s_out st)" using I by blast
    have "stages_ok q"
    proof (rule plain_step_result [OF step fin])
      fix q' assume "s_out st' = s_out st @ [Plain q']" "stages_ok q'"
      then show ?thesis using q(1) by simp
    qed
    then have ordered: "row_ordered (s_out st) (Plain q)" using I resolved_by_mono [OF _ pending] by simp
    have stores: "c < q_S q"
      if "t_load ins" "(r, lo, hi, c) \<in> set (s_stores (replay (s_out st)))" "access_at (s_out st) ins = Some a" "r = fst a"
        "lo < snd a + access_bytes (t_word ins)" "snd a < hi" for r lo hi c a
    proof -
      have "ea = Some a" using that(3) tr(1) by (simp add: access_at_def sp)
      then have "c < wait" using track_wait [of ins "t_word ins" "sym_part st" a wait st1 r lo hi c] that tr(1) sp by simp
      then show ?thesis using ready by (simp add: resources_ready_def)
    qed
    have "plain_waits (s_out st) q"
      using ready I stores q(3) unfolding plain_waits_def resources_ready_def q(2) by (intro conjI) auto
    then have waits: "row_waits (s_out st) (Plain q)" by simp
    have at: "\<forall>g. get0 (s_gpr st') g = gpr_at (s_out st') g" "\<forall>c. get0 (s_cr st') c = cr_at (s_out st') c"
      "s_lr st' = lr_at (s_out st')" "s_ctr st' = ctr_at (s_out st')" "s_cr_free st' = cr_done (s_out st')"
      using I by (simp_all add: at_defs q(1,2) new get0_def)
    have "sym_part st' = replay (s_out st')" using tr by (simp add: q(1,2) sp)
    moreover have "branch_slot cfg \<longrightarrow> s_pending st' \<le> prev_C st'" using pending by (simp add: keep prev_C_def)
    ultimately show ?thesis
      using I at waits ordered unfolding waits_inv_def q(1) keep(1,2) by (simp add: resolved_by_snoc branch_unit_free_snoc)
  qed
qed

lemma branch_crd:
  assumes "t_unit i = IU" "t_crd i = {}" "t_unit (decode_insn mul dv i) = BPU"
  shows "t_crd (decode_insn mul dv i) = {}"
proof (cases "drop_bit 26 (t_word i) \<in> {16, 18, 19}")
  case True
  have op19: "t_unit (decode_op19 (t_word i) i) = BPU \<Longrightarrow> t_crd (decode_op19 (t_word i) i) = {}"
    using assms(2) by (auto simp: decode_op19_def Let_def sru_insn_def branch_insn_def)
  from True consider "drop_bit 26 (t_word i) = 16" | "drop_bit 26 (t_word i) = 18" | "drop_bit 26 (t_word i) = 19"
    by blast
  then show ?thesis using op19 assms(2,3) by cases (simp_all add: decode_insn_def Let_def branch_insn_def)
next
  case False
  then have "t_unit (decode_insn mul dv i) \<noteq> BPU"
    using assms(1) x31_not_branch [OF assms(1)] by (simp add: decode_insn_def Let_def unit_parts)
  then show ?thesis using assms(3) by contradiction
qed

lemma branch_no_crd: "t_unit (decode_cfg cfg pc w) = BPU \<Longrightarrow> t_crd (decode_cfg cfg pc w) = {}"
  unfolding decode_cfg_def TInsn_def by (rule branch_crd) (simp_all add: tinsn_blank_def)

lemma waits_inv_branch:
  assumes inv: "waits_inv cfg st" and step: "branch_step cfg ins taken f st = Some st'" and wf: "tinsn_wf ins"
    and none: "t_dst ins = {}" "t_crd ins = {}"
  shows "waits_inv cfg st'"
proof -
  note I = inv [unfolded waits_inv_def]
  from step wf show ?thesis
  proof (rule branch_step_waits)
    fix r b x
    assume r: "s_out st' = s_out st @ [r]" "row_ins r = ins" "row_branch r = Some b" "b_X b = x"
      and mis: "b_mispredict b \<noteq> None \<longleftrightarrow> predicted b" and first: "f < x" "s_last_x st < x"
      and ops: "t_lr_r ins \<Longrightarrow> s_lr st \<le> x" "t_ctr_r ins \<Longrightarrow> s_ctr st \<le> x" "\<And>c. c \<in> t_crs ins \<Longrightarrow> get0 (s_cr st) c \<le> max x (b_R b)"
      and pend: "predicted b \<Longrightarrow> s_pending st \<le> x" "x = s_pending st \<or> x \<le> b_R b"
      and keep: "s_cr st' = s_cr st" "s_cr_free st' = s_cr_free st" "s_gpr st' = s_gpr st" "sym_part st' = sym_part st"
      and new: "s_lr st' = (if t_lr_w ins then x + 1 else s_lr st)" "s_ctr st' = (if t_ctr_w ins then b_R b + 1 else s_ctr st)"
        "s_last_x st' = x" "s_pending st' = (if predicted b then b_R b else s_pending st)"
      and shape: "if branch_slot cfg then \<exists>q. r = Slotted q b \<and> s_nb st' = s_nb st @ [q] \<and> q_D q \<le> x \<and> q_S q = x \<and> q_E q = x \<and>
         f = q_F q \<and> f < q_D q \<and> max (b_R b) (prev_C st) \<le> q_C q
       else r = Folded (t_pc ins) ins f (if s_out st = [] then 0 else row_C (last (s_out st))) b \<and> s_nb st' = s_nb st"
    have lr: "row_lr r = x + 1" "row_ctr r = b_R b + 1" using r(3,4) by (cases r; simp)+
    have at: "\<forall>g. get0 (s_gpr st') g = gpr_at (s_out st') g" "\<forall>c. get0 (s_cr st') c = cr_at (s_out st') c"
      "s_lr st' = lr_at (s_out st')" "s_ctr st' = ctr_at (s_out st')" "s_cr_free st' = cr_done (s_out st')"
      using I by (simp_all add: at_defs r(1,2) new keep none lr)
    have "branch_waits (s_out st) ins b" using ops I r(4) by simp
    then have waits: "row_waits (s_out st) r" using r(2,3) by (cases r) simp_all
    have free: "branch_unit_free (s_out st) x" using I first(2) branch_unit_free_mono by auto
    have up: "s_pending st \<le> s_pending st'" using pend(1) new(4) by (auto simp: predicted_def r(4))
    have "resolved_by (s_out st) (s_pending st')" using I resolved_by_mono [OF _ up] by blast
    then have resolved: "resolved_by (s_out st') (s_pending st')" using r by (simp add: resolved_by_snoc new)
    have "branch_unit_free (s_out st') (s_last_x st' + 1)"
      using branch_unit_free_mono [OF free, of "x + 1"] r by (simp add: branch_unit_free_snoc new)
    moreover have "sym_part st' = replay (s_out st')" using I r(3) by (cases r) (simp_all add: keep r(1))
    moreover have "row_ordered (s_out st) r \<and> (branch_slot cfg \<longrightarrow> s_pending st' \<le> prev_C st')"
    proof (cases "branch_slot cfg")
      case True
      then obtain q where q: "r = Slotted q b" "s_nb st' = s_nb st @ [q]" "q_D q \<le> x" "q_S q = x" "q_E q = x"
         "f = q_F q" "f < q_D q" "b_R b \<le> q_C q" "prev_C st \<le> q_C q" using shape by auto
      have p: "s_pending st \<le> q_C q" using I True q(9) by linarith
      have "x \<le> q_C q" using pend(2) p q(8) by linarith
      then have "row_ordered (s_out st) r"
        using q r(4) mis free resolved_by_mono [OF _ p, of "s_out st"] I by simp
      moreover have "s_pending st' \<le> prev_C st'" using p q(2,8) by (simp add: new prev_C_def)
      ultimately show ?thesis by blast
    next
      case False
      then show ?thesis using shape first(1) r(4) free mis by simp
    qed
    ultimately show ?thesis using I at waits resolved unfolding waits_inv_def r(1) by simp
  qed
qed

lemma waits_inv_step:
  assumes inv: "waits_inv cfg st" and step: "schedule_step cfg (pc, w, npc) rest st = Some st'"
    and t: "1 \<le> c_mul cfg" "1 \<le> c_div cfg"
  shows "waits_inv cfg st'"
proof -
  define ins where "ins = decode_cfg cfg pc w"
  define f where "f = fetch_cycle cfg st ins (fetch_start st)"
  define st1 where "st1 = st\<lparr>s_fetch := s_fetch st @ [(f, pc)]\<rparr>"
  have wf: "tinsn_wf ins" using t by (simp add: ins_def decode_cfg_def TInsn_wf)
  have "sym_part st1 = sym_part st" by (rule sym_part_eq) (simp_all add: st1_def)
  moreover have "prev_C st1 = prev_C st" by (simp add: st1_def prev_C_def)
  ultimately have inv1: "waits_inv cfg st1" using inv unfolding waits_inv_def by (simp add: st1_def)
  have s: "(if t_unit ins = BPU then branch_step cfg ins (npc \<noteq> pc + 4) f st1 else plain_step cfg ins (take IQ_LIMIT rest) f st1) = Some st'"
    using step unfolding schedule_step_def Let_def prod.case ins_def [symmetric] f_def [symmetric] st1_def [symmetric] .
  show ?thesis
  proof (cases "t_unit ins = BPU")
    case True
    then show ?thesis
      using s waits_inv_branch [OF inv1 _ wf] branch_registers [of cfg pc w] branch_no_crd [of cfg pc w] by (simp add: ins_def)
  next
    case False
    then show ?thesis using s waits_inv_plain [OF inv1 _ wf] by simp
  qed
qed

lemma waits_inv_from:
  assumes "waits_inv cfg st" "schedule_from cfg stream st = Some st'" "1 \<le> c_mul cfg" "1 \<le> c_div cfg"
  shows "waits_inv cfg st'"
  using assms(1,2)
proof (induction stream arbitrary: st)
  case (Cons rec rest)
  obtain pc w npc where rec: "rec = (pc, w, npc)" by (cases rec) auto
  from Cons.prems(2) obtain st1 where "schedule_step cfg (pc, w, npc) rest st = Some st1" "schedule_from cfg rest st1 = Some st'"
    by (auto simp: rec bind_eq_Some_conv)
  then show ?case using waits_inv_step [OF Cons.prems(1) _ assms(3,4)] Cons.IH by blast
qed simp

lemma schedulable_waits:
  assumes "schedulable cfg stream"
  obtains rows where "schedule cfg stream = Some rows" "length rows = length stream"
    "stepwise (within_limits cfg) (slots_of rows)" "stepwise row_waits rows" "stepwise row_ordered rows"
proof -
  obtain rows where rows: "schedule cfg stream = Some rows" "length rows = length stream" "stepwise (slot_step cfg) (slots_of rows)"
    using schedulable_schedule [OF assms] by metis
  then obtain st where st: "schedule_from cfg stream tstate_init = Some st" "s_out st = rows" by (auto simp: schedule_def)
  have "1 \<le> c_mul cfg" "1 \<le> c_div cfg" using assms by (simp_all add: schedulable_def)
  from waits_inv_from [OF waits_inv_init st(1) this] have "stepwise row_waits rows" "stepwise row_ordered rows"
    by (simp_all add: waits_inv_def st(2))
  moreover have "stepwise (within_limits cfg) (slots_of rows)" by (rule stepwise_mono [OF rows(3)]) (simp add: slot_step_def)
  ultimately show ?thesis using that rows by blast
qed

section \<open>Properties\<close>

text \<open>
  C26: the schedule stays within the machine.  When an instruction is dispatched, it and
  the older instructions not yet completed need at most five completion-queue entries, and
  the registers they write at most five renames.  The stages of every record follow each
  other (\<open>row_ordered\<close>): a non-branch is fetched before it is dispatched, starts after its
  dispatch, executes for its latency and completes after that; a branch executes after
  its fetch, at most one in a cycle and in order, and is marked predicted or mispredicted
  exactly when it executes before it resolves; with a dispatch slot it is dispatched after
  its fetch and not after it executes, and completes neither before it executes nor before
  it resolves; without one it carries the completion cycle of the record before it.
  Nothing that completes by itself does so before an older predicted branch resolves.
\<close>

lemma schedule_within_limits:
  assumes "schedulable cfg stream"
  shows "\<exists>rows. schedule cfg stream = Some rows \<and> stepwise (within_limits cfg) (slots_of rows) \<and> stepwise row_ordered rows"
  using schedulable_waits [OF assms] by metis

lemma schedule_within_limits_witness:
  "\<exists>rows. schedule (sample_cfg {''branch-slot''}) sample_stream = Some rows \<and>
    stepwise (within_limits (sample_cfg {''branch-slot''})) (slots_of rows) \<and> stepwise row_ordered rows"
  by (rule schedule_within_limits [OF sample_schedulable])

text \<open>
  C27: every record waits for what it reads (\<open>row_waits\<close>).  A non-branch does not start
  before the youngest older writer of each general register, each CR field, LR and CTR it
  reads has the result ready; a load does not start before the completion of any of the
  recent stores whose tracked bytes overlap its own; an instruction that writes CR does
  not finish before the one that last wrote CR has completed.  A branch does not execute
  before LR and CTR are ready when it reads them, and by the later of its execution and
  resolve cycles the CR field it tests is ready.
\<close>

lemma schedule_operands_ready:
  assumes "schedulable cfg stream"
  shows "\<exists>rows. schedule cfg stream = Some rows \<and> length rows = length stream \<and> stepwise row_waits rows"
  using schedulable_waits [OF assms] by metis

lemma schedule_operands_ready_witness:
  "\<exists>rows. schedule (sample_cfg {''branch-slot''}) sample_stream = Some rows \<and> length rows = length sample_stream \<and>
    stepwise row_waits rows"
  by (rule schedule_operands_ready [OF sample_schedulable])

end
