(* ===== verification/Timing_Trace.thy ===== *)
theory Timing_Trace
  imports Timing_Decode
begin

text \<open>
  \<open>removed_path\<close> of \<open>sim/tools/perf_model_603e.py\<close>: the branches the core removed between
  two retired instructions, found by a search over the disassembly.  The theory shows that
  the search is sound and complete, and that it does not look at the next retired program
  counter.
\<close>

section \<open>Search\<close>

text \<open>The disassembly maps a program counter to its word.\<close>

definition branch_at :: "(int \<rightharpoonup> int) \<Rightarrow> int \<Rightarrow> int option" where
  "branch_at words b =
     (case words b of None \<Rightarrow> None | Some w \<Rightarrow> if t_unit (TInsn b w 3 20) \<noteq> BPU then None else Some w)"

text \<open>\<open>walk(starts, left)\<close>; the number of branches to place is positive in every call.\<close>

fun walk :: "(int \<rightharpoonup> int) \<Rightarrow> nat \<Rightarrow> int list \<Rightarrow> int list option" where
  "walk words left [] = None"
| "walk words 0 (b # bs) = None"
| "walk words (Suc left) (b # bs) =
     (case branch_at words b of
        None \<Rightarrow> walk words (Suc left) bs
      | Some w \<Rightarrow>
          if left = 0 then Some [b]
          else case walk words left (branch_targets b w) of
                 Some rest \<Rightarrow> Some (b # rest)
               | None \<Rightarrow> walk words (Suc left) bs)"

definition path_starts :: "int \<Rightarrow> int \<Rightarrow> int list" where
  "path_starts ppc pword = (if t_unit (TInsn ppc pword 3 20) = BPU then branch_targets ppc pword else [ppc + 4])"

definition removed_path :: "int \<times> int \<times> int \<Rightarrow> nat \<Rightarrow> int \<Rightarrow> (int \<rightharpoonup> int) \<Rightarrow> int list option" where
  "removed_path prev cnt nxt words = (let (_, ppc, pword) = prev in walk words cnt (path_starts ppc pword))"

section \<open>Chains of branches\<close>

text \<open>Branches of the disassembly, each a possible successor of the one before.\<close>

fun branch_chain :: "(int \<rightharpoonup> int) \<Rightarrow> int list \<Rightarrow> int list \<Rightarrow> bool" where
  "branch_chain words starts [] = True"
| "branch_chain words starts (b # bs) =
     (b \<in> set starts \<and> (case branch_at words b of None \<Rightarrow> False | Some w \<Rightarrow> branch_chain words (branch_targets b w) bs))"

lemma branch_chain_mono: "branch_chain words starts p \<Longrightarrow> set starts \<subseteq> set starts' \<Longrightarrow> branch_chain words starts' p"
  by (cases p) auto

lemma walk_sound: "walk words left starts = Some p \<Longrightarrow> branch_chain words starts p \<and> length p = left"
proof (induction words left starts arbitrary: p rule: walk.induct)
  case (3 words left b bs)
  show ?case
  proof (cases "branch_at words b")
    case None
    then show ?thesis using 3 branch_chain_mono [of words bs p "b # bs"] by auto
  next
    case (Some w)
    show ?thesis
    proof (cases "left = 0")
      case True
      then show ?thesis using 3(4) Some by auto
    next
      case False
      show ?thesis
      proof (cases "walk words left (branch_targets b w)")
        case None
        then show ?thesis using 3(3) [OF Some False None] 3(4) Some False branch_chain_mono [of words bs p "b # bs"] by auto
      next
        case rest: (Some rest)
        then show ?thesis using 3(2) [OF Some False rest] 3(4) Some False by auto
      qed
    qed
  qed
qed simp_all

lemma walk_finds:
  assumes "c \<in> set starts" "branch_at words c = Some w" "left = 0 \<or> walk words left (branch_targets c w) \<noteq> None"
  shows "walk words (Suc left) starts \<noteq> None"
  using assms(1)
proof (induction starts)
  case (Cons b bs)
  then show ?case using assms(2,3) by (auto split: option.splits)
qed simp

lemma walk_complete: "branch_chain words starts p \<Longrightarrow> p \<noteq> [] \<Longrightarrow> walk words (length p) starts \<noteq> None"
proof (induction p arbitrary: starts)
  case (Cons c cs)
  then obtain w where w: "c \<in> set starts" "branch_at words c = Some w" "branch_chain words (branch_targets c w) cs"
    by (auto split: option.splits)
  then have "length cs = 0 \<or> walk words (length cs) (branch_targets c w) \<noteq> None" using Cons.IH by auto
  then show ?case using walk_finds [OF w(1,2)] by simp
qed simp

text \<open>
  \<open>removed_path\<close> returns exactly when some chain of the asked number of branches starts
  at a successor of the retired instruction, and what it returns is such a chain.
\<close>

lemma removed_path_chain:
  assumes "0 < cnt"
  shows "case removed_path (cyc, ppc, pword) cnt nxt words of
      Some p \<Rightarrow> length p = cnt \<and> branch_chain words (path_starts ppc pword) p
    | None \<Rightarrow> \<nexists>p. length p = cnt \<and> branch_chain words (path_starts ppc pword) p"
proof (cases "removed_path (cyc, ppc, pword) cnt nxt words")
  case None
  then have none: "walk words cnt (path_starts ppc pword) = None" by (simp add: removed_path_def)
  have "\<not> branch_chain words (path_starts ppc pword) p" if "length p = cnt" for p
    using walk_complete [of words "path_starts ppc pword" p] none that assms by auto
  then show ?thesis using None by auto
next
  case (Some p)
  then show ?thesis using walk_sound [of words cnt "path_starts ppc pword" p] by (simp add: removed_path_def)
qed

lemma removed_path_chain_witness:
  "case removed_path (0, 0, 0x48000010) 1 0x20 [0x10 \<mapsto> 0x48000010] of
      Some p \<Rightarrow> length p = 1 \<and> branch_chain [0x10 \<mapsto> 0x48000010] (path_starts 0 0x48000010) p
    | None \<Rightarrow> \<nexists>p. length p = 1 \<and> branch_chain [0x10 \<mapsto> 0x48000010] (path_starts 0 0x48000010) p"
  by (rule removed_path_chain) simp

text \<open>
  The documentation says the branches lie before the next retired program counter; the
  search never reads it.  The last branch of the path below does not lead to 0x100.
\<close>

lemma removed_path_ignores_next: "removed_path prev cnt nxt words = removed_path prev cnt nxt' words"
  by (simp add: removed_path_def)

lemma removed_path_misses_next:
  "removed_path (0, 0, 0x48000010) 1 0x100 [0x10 \<mapsto> 0x48000010] = Some [0x10] \<and> branch_targets 0x10 0x48000010 = [0x20]"
  by (code_simp)

end
