(* ===== verification/Dispatch_Class.thy ===== *)
theory Dispatch_Class
  imports Timing_Decode
begin

text \<open>
  \<open>sim/tools/check_dispatch_trace.py\<close>, the classes of instruction words: \<open>classify\<close>,
  \<open>cr_field\<close>, \<open>serial_gpr\<close>, \<open>gpr_reads\<close>, \<open>gpr_writes\<close> and \<open>fetch_stop\<close>.  A class is a
  record with the keys of the dictionary; the list of writes keeps its five positions
  (GPR, CR, FPR, LR, CTR).
\<close>

section \<open>Classes\<close>

record iclass =
  k_units :: "tunit set"
  k_dser :: bool
  k_cser :: bool
  k_cq1 :: bool
  k_writes :: "int list"
  k_isync :: bool
  k_multiple :: bool
  k_cond :: bool
  k_branch :: "string option"
  k_cr_test :: bool
  k_ctr_test :: bool
  k_mtspr :: "string option"
  k_sru_lat :: "int option"

definition class_default :: "int \<Rightarrow> iclass" where
  "class_default rc =
     \<lparr>k_units = {IU}, k_dser = False, k_cser = False, k_cq1 = True, k_writes = [1, rc, 0, 0, 0],
      k_isync = False, k_multiple = False, k_cond = False, k_branch = None, k_cr_test = False, k_ctr_test = False,
      k_mtspr = None, k_sru_lat = None\<rparr>"

definition sru_class :: "iclass \<Rightarrow> iclass" where
  "sru_class c = c\<lparr>k_units := {SRU}, k_cser := True, k_cq1 := False, k_writes := [0, 0, 0, 0, 0]\<rparr>"

definition lsu_class :: "int list \<Rightarrow> iclass \<Rightarrow> iclass" where
  "lsu_class writes c = c\<lparr>k_units := {LSU}, k_writes := writes\<rparr>"

definition UPDATE_LOADS :: "int list" where "UPDATE_LOADS = [33, 35, 41, 43]"
definition UPDATE_X_LOADS :: "int list" where "UPDATE_X_LOADS = [55, 119, 311, 375]"

definition branch_class :: "int \<Rightarrow> iclass \<Rightarrow> iclass" where
  "branch_class word c =
     (let opc = drop_bit 26 word; xo = drop_bit 1 word AND 1023; lk = word AND 1;
          ctr = (opc = 19 \<and> xo = 16 \<and> drop_bit 23 word AND 1 = 0 \<or> opc = 16 \<and> drop_bit 23 word AND 1 = 0);
          counts = (ctr \<or> opc = 19 \<and> drop_bit 23 word AND 1 = 0)
      in c\<lparr>k_units := {BPU}, k_writes := [0, 0, 0, lk, of_bool counts],
           k_cond := (opc \<noteq> 18 \<and> drop_bit 21 word AND 0x14 \<noteq> 0x14),
           k_branch := Some (if opc = 18 then ''b'' else if opc = 16 then ''bc'' else if xo = 16 then ''bclr'' else ''bcctr''),
           k_cr_test := (opc \<noteq> 18 \<and> drop_bit 25 word AND 1 = 0), k_ctr_test := ctr\<rparr>)"

definition fpu_class :: "int \<Rightarrow> int \<Rightarrow> int \<Rightarrow> iclass \<Rightarrow> iclass" where
  "fpu_class opc xo rc c =
     (let w = (if opc = 63 \<and> xo \<in> {0, 32, 64} then [0, 1, 0, 0, 0]
               else if opc = 63 \<and> xo \<in> {38, 70, 134, 711} then [0, rc, 0, 0, 0] else [0, rc, 1, 0, 0])
      in c\<lparr>k_units := {FPU}, k_cq1 := False, k_writes := w,
           k_cser := (if opc = 63 \<and> xo \<in> {38, 64, 70, 134, 583, 711} then True else k_cser c)\<rparr>)"

definition mtspr_class :: "int \<Rightarrow> int \<Rightarrow> iclass \<Rightarrow> iclass" where
  "mtspr_class word xo c =
     (let c = sru_class c; spr = (field5 word 16) OR push_bit 5 (field5 word 11)
      in c\<lparr>k_dser := (xo \<in> {146, 512} \<or> xo = 467 \<and> spr = 1),
           k_writes := [0, of_bool (xo \<in> {144, 512}), 0, of_bool (xo = 467 \<and> spr = 8), of_bool (xo = 467 \<and> spr = 9)],
           k_mtspr := (if xo = 467 then (if spr = 8 then Some ''LR'' else if spr = 9 then Some ''CTR'' else None) else None),
           k_sru_lat := (if xo = 467 then Some 2 else None)\<rparr>)"

definition mfspr_class :: "int \<Rightarrow> int \<Rightarrow> iclass \<Rightarrow> iclass" where
  "mfspr_class word xo c =
     (let c = (sru_class c)\<lparr>k_writes := [1, 0, 0, 0, 0]\<rparr>; spr = (field5 word 16) OR push_bit 5 (field5 word 11)
      in if xo = 339 then c\<lparr>k_sru_lat := Some (if 528 \<le> spr \<and> spr \<le> 543 then 3 else 1)\<rparr> else c)"

definition add_units :: "bool \<Rightarrow> tunit set" where "add_units sru = (if sru then {IU, SRU} else {IU})"

definition classify31 :: "int \<Rightarrow> bool \<Rightarrow> int \<Rightarrow> int \<Rightarrow> iclass \<Rightarrow> iclass" where
  "classify31 word sru xo rc c =
     (if xo \<in> {0, 32} then c\<lparr>k_units := add_units sru, k_writes := [0, 1, 0, 0, 0]\<rparr>
      else if xo AND 511 = 266 \<and> rc = 0 then c\<lparr>k_units := add_units sru\<rparr>
      else if xo = 4 then c\<lparr>k_writes := [0, 0, 0, 0, 0]\<rparr>
      else if xo \<in> {23, 55, 87, 119, 279, 311, 343, 375, 534, 790, 20, 310}
      then lsu_class [1 + of_bool (xo \<in> set UPDATE_X_LOADS), 0, 0, 0, 0] c
      else if xo \<in> {533, 597}
      then (lsu_class [0, 0, 0, 0, 0] c)\<lparr>k_cq1 := False, k_cser := True, k_dser := True, k_multiple := True\<rparr>
      else if xo \<in> {151, 183, 215, 247, 407, 439, 662, 918, 438}
      then (lsu_class [of_bool (xo \<in> {183, 247, 439}), 0, 0, 0, 0] c)\<lparr>k_cq1 := False\<rparr>
      else if xo = 150 then (lsu_class [0, 1, 0, 0, 0] c)\<lparr>k_cq1 := False\<rparr>
      else if xo \<in> {661, 725}
      then (lsu_class [0, 0, 0, 0, 0] c)\<lparr>k_cq1 := False, k_cser := True, k_multiple := True\<rparr>
      else if xo \<in> {535, 567, 599, 631} then lsu_class [of_bool (xo \<in> {567, 631}), 0, 1, 0, 0] c
      else if xo \<in> {663, 695, 727, 759, 983}
      then (lsu_class [of_bool (xo \<in> {695, 759}), 0, 0, 0, 0] c)\<lparr>k_cq1 := False\<rparr>
      else if xo \<in> {1014, 86, 54, 470, 982, 278, 246, 854}
      then (lsu_class [0, 0, 0, 0, 0] c)\<lparr>k_cq1 := False, k_cser := (xo \<noteq> 854)\<rparr>
      else if xo \<in> {306, 566, 978, 1010} then sru_class c
      else if xo = 598 then (sru_class c)\<lparr>k_dser := True\<rparr>
      else if xo \<in> {339, 371, 83, 19, 595, 659} then mfspr_class word xo c
      else if xo \<in> {467, 146, 144, 210, 242, 512} then mtspr_class word xo c
      else c)"

definition classify_word :: "int \<Rightarrow> bool \<Rightarrow> iclass" where
  "classify_word word sru =
     (let opc = drop_bit 26 word; xo = drop_bit 1 word AND 1023;
          rc = (if opc \<in> {20, 21, 23, 31, 59, 63} then word AND 1 else 0);
          c = class_default rc
      in if opc \<in> {16, 18} \<or> opc = 19 \<and> xo \<in> {16, 528} then branch_class word c
      else if opc = 19
      then (sru_class c)\<lparr>k_writes := [0, of_bool (xo \<noteq> 150 \<and> xo \<noteq> 50), 0, 0, 0],
             k_dser := (if xo \<in> {150, 50} then True else k_dser c), k_isync := (xo = 150)\<rparr>
      else if opc = 17 then (sru_class c)\<lparr>k_dser := True\<rparr>
      else if opc \<in> {32, 33, 34, 35, 40, 41, 42, 43} then lsu_class [1 + of_bool (opc \<in> set UPDATE_LOADS), 0, 0, 0, 0] c
      else if opc \<in> {36, 37, 38, 39, 44, 45} then (lsu_class [opc AND 1, 0, 0, 0, 0] c)\<lparr>k_cq1 := False\<rparr>
      else if opc \<in> {46, 47}
      then (lsu_class [0, 0, 0, 0, 0] c)\<lparr>k_cq1 := False, k_cser := True, k_dser := (opc = 46), k_multiple := True\<rparr>
      else if 48 \<le> opc \<and> opc \<le> 51 then lsu_class [opc AND 1, 0, 1, 0, 0] c
      else if 52 \<le> opc \<and> opc \<le> 55 then (lsu_class [opc AND 1, 0, 0, 0, 0] c)\<lparr>k_cq1 := False\<rparr>
      else if opc \<in> {59, 63} then fpu_class opc xo rc c
      else if opc \<in> {14, 15, 11, 10}
      then c\<lparr>k_units := add_units sru, k_writes := (if opc \<in> {10, 11} then [0, 1, 0, 0, 0] else [1, 0, 0, 0, 0])\<rparr>
      else if opc \<in> {13, 28, 29} then c\<lparr>k_writes := [1, 1, 0, 0, 0]\<rparr>
      else if opc \<in> {3, 2} then c\<lparr>k_writes := [0, 0, 0, 0, 0]\<rparr>
      else if opc = 31 then classify31 word sru xo rc c
      else c)"

definition cr_field :: "int option \<Rightarrow> int option" where
  "cr_field w =
     (case w of None \<Rightarrow> None
      | Some word \<Rightarrow>
          let opc = drop_bit 26 word; xo = drop_bit 1 word AND 1023 in
          if opc \<in> {10, 11} \<or> opc = 31 \<and> xo \<in> {0, 32} then Some (drop_bit 23 word AND 7)
          else if opc \<in> {13, 28, 29} \<or> opc \<in> {20, 21, 23} \<and> word AND 1 \<noteq> 0 then Some 0
          else if opc = 31 \<and> word AND 1 \<noteq> 0 \<and> xo \<noteq> 150
          then (if k_units (classify_word word False) = {IU} then Some 0 else None)
          else None)"

definition STORES_X :: "int list" where "STORES_X = [151, 183, 215, 247, 407, 439, 662, 918]"

definition serial_gpr :: "int \<Rightarrow> int option" where
  "serial_gpr word =
     (if drop_bit 26 word = 31 \<and> drop_bit 1 word AND 1023 \<in> {339, 371, 83, 19, 595, 659}
      then Some (field5 word 21) else None)"

definition gpr_reads :: "int \<Rightarrow> int set \<times> int" where
  "gpr_reads word =
     (let opc = drop_bit 26 word; rs = field5 word 21; ra = field5 word 16; rb = field5 word 11;
          xo = drop_bit 1 word AND 1023; base = ra_or_0 ra
      in if opc \<in> {36, 37, 38, 39, 44, 45} then ({rs} \<union> base, 3)
      else if opc = 31 \<and> xo \<in> set STORES_X then ({rs, rb} \<union> base, 3)
      else if opc \<in> {32, 33, 34, 35, 40, 41, 42, 43} then (base, 3)
      else if opc \<in> {7, 8, 10, 11, 12, 13} \<or> opc \<in> {14, 15} \<and> ra \<noteq> 0 then ({ra}, 2)
      else if opc \<in> {20, 21, 24, 25, 26, 27, 28, 29} then ({rs}, 2)
      else ({}, 0))"

definition gpr_writes :: "int \<Rightarrow> int set" where
  "gpr_writes word = (if k_writes (classify_word word False) ! 0 \<noteq> 0 then {field5 word 21, field5 word 16} else {})"

definition fetch_stop :: "iclass \<Rightarrow> iclass \<Rightarrow> string option" where
  "fetch_stop older younger =
     (if k_mtspr older = Some ''LR'' \<and> k_branch younger = Some ''bclr'' then Some ''execute''
      else if k_mtspr older = Some ''CTR'' \<and> (k_branch younger = Some ''bcctr'' \<or> k_ctr_test younger) then Some ''retire''
      else if k_ctr_test older \<and> (k_ctr_test younger \<or> k_branch younger = Some ''bcctr'') then Some ''complete''
      else if k_branch older \<noteq> None \<and> k_writes older ! 3 \<noteq> 0 \<and> k_writes younger ! 3 \<noteq> 0 \<and> k_branch younger \<noteq> Some ''b''
      then Some ''complete'' else None)"

section \<open>The writes of a class\<close>

definition writes_ok :: "iclass \<Rightarrow> bool" where
  "writes_ok c \<longleftrightarrow> length (k_writes c) = 5 \<and> (\<forall>x \<in> set (k_writes c). 0 \<le> x)"

lemma default_writes: "0 \<le> rc \<Longrightarrow> writes_ok (class_default rc)"
  by (simp add: writes_ok_def class_default_def)

lemma part_writes:
  "writes_ok (branch_class w c)" "0 \<le> rc \<Longrightarrow> writes_ok (fpu_class opc xo rc c)" "writes_ok (mtspr_class w xo c)" "writes_ok (mfspr_class w xo c)"
  "writes_ok (sru_class c)"
  by (simp_all add: writes_ok_def branch_class_def fpu_class_def mtspr_class_def mfspr_class_def sru_class_def Let_def)

lemma writes_ok_if: "writes_ok c \<Longrightarrow> writes_ok d \<Longrightarrow> writes_ok (if b then c else d)"
  by simp

lemma classify31_writes: "writes_ok c \<Longrightarrow> writes_ok (classify31 w sru xo rc c)"
  unfolding classify31_def
  by (intro writes_ok_if part_writes) (simp_all add: writes_ok_def lsu_class_def sru_class_def)

lemma classify_writes: "writes_ok (classify_word w sru)"
proof -
  define rc where "rc = (if drop_bit 26 w \<in> {20, 21, 23, 31, 59, 63} then w AND 1 else 0)"
  have rc: "0 \<le> rc" by (simp add: rc_def)
  show ?thesis
    unfolding classify_word_def Let_def rc_def [symmetric]
    by (intro writes_ok_if part_writes rc classify31_writes default_writes)
      (simp_all add: writes_ok_def lsu_class_def sru_class_def class_default_def rc)
qed

end
