(* ===== verification/Dispatch_Rules.thy ===== *)
theory Dispatch_Rules
  imports Dispatch_Class Dict
begin

text \<open>
  \<open>sim/tools/check_dispatch_trace.py\<close>, the streaming check of a dispatch and retirement
  trace: class \<open>Rules\<close> with \<open>event\<close>, \<open>occupancy\<close>, \<open>fetch_stops\<close>, \<open>wrong_path\<close> and
  \<open>mispredict_floor\<close>, and \<open>check_rules\<close> over parsed events.  A failed \<open>require\<close> is a
  \<open>ValueError\<close> that carries the name of the rule instead of the formatted message.  The
  mutable entries the code compares by identity are named by their sequence number.
\<close>

section \<open>State\<close>

datatype eflag = Present | Flushed | BehindRemoved

record entry =
  e_pc :: int
  e_cycle :: int
  e_seq :: int
  e_flag :: eflag
  e_class :: "iclass option"
  e_order :: int

record dispatch_info =
  d_order :: int
  d_class :: "iclass option"
  d_gone :: bool
  d_cycle :: int
  d_pc :: int

record stop =
  p_older :: int
  p_order :: int
  p_pc :: int
  p_kind :: string

record lr_wait =
  w_pc :: int
  w_order :: int
  w_bclr :: int
  w_cycle :: int
  w_retired :: "int option"
  w_seq :: "int option"

record rule_stats =
  n_cycles :: int
  n_dispatches :: int
  n_retirements :: int
  n_pairs_dispatched :: int
  n_pairs_retired :: int
  n_flushed :: int
  n_mispredicts :: int
  n_removed :: int
  n_dser :: int
  n_cser :: int
  n_isync :: int
  n_unknown :: int
  n_sru_pairs :: int
  n_cq_max :: int
  n_gpr_max :: int
  n_fetch_stops :: int
  n_wrong_path :: int
  n_redirects :: int
  n_at_floor :: int

text \<open>The arguments of \<open>Rules\<close>; the words are the RAM image.\<close>

record rule_cfg =
  r_width :: nat
  r_words :: "int \<rightharpoonup> int"
  r_sru :: bool
  r_flush :: bool

record rules =
  g_inflight :: "entry list"
  g_removed_lk :: "(int \<times> int) list"
  g_removed_ctr :: "(int \<times> int) list"
  g_seq :: int
  g_order :: int
  g_stream :: "dispatch_info list"
  g_redirect :: "(int \<times> int) option"
  g_stops :: "stop list"
  g_lr_waits :: "lr_wait list"
  g_lr_retired :: "(int \<times> int) option"
  g_block :: "(int \<times> int) option"
  g_last_dser :: "(int \<times> int) option"
  g_isync :: "int option"
  g_last_pc :: "int option"
  g_last_retire :: "int option"
  g_serial :: "int \<rightharpoonup> int \<times> int"
  g_cond :: bool
  g_stats :: rule_stats

definition rules_init :: rules where
  "rules_init =
     \<lparr>g_inflight = [], g_removed_lk = [], g_removed_ctr = [], g_seq = 0, g_order = 0, g_stream = [], g_redirect = None,
      g_stops = [], g_lr_waits = [], g_lr_retired = None, g_block = None, g_last_dser = None, g_isync = None,
      g_last_pc = None, g_last_retire = None, g_serial = Map.empty, g_cond = False,
      g_stats = \<lparr>n_cycles = 0, n_dispatches = 0, n_retirements = 0, n_pairs_dispatched = 0, n_pairs_retired = 0,
        n_flushed = 0, n_mispredicts = 0, n_removed = 0, n_dser = 0, n_cser = 0, n_isync = 0, n_unknown = 0, n_sru_pairs = 0,
        n_cq_max = 0, n_gpr_max = 0, n_fetch_stops = 0, n_wrong_path = 0, n_redirects = 0, n_at_floor = 0\<rparr>\<rparr>"

definition require :: "bool \<Rightarrow> string \<Rightarrow> 'a result \<Rightarrow> 'a result" where
  "require cond msg rest = (if cond then rest else Inl (ValueError msg))"

definition count_stat :: "(rule_stats \<Rightarrow> rule_stats) \<Rightarrow> rules \<Rightarrow> rules" where
  "count_stat f st = st\<lparr>g_stats := f (g_stats st)\<rparr>"

definition live :: "entry \<Rightarrow> bool" where "live e \<longleftrightarrow> e_flag e = Present"

definition cls :: "rule_cfg \<Rightarrow> int \<Rightarrow> rules \<Rightarrow> iclass option \<times> rules" where
  "cls cfg pc st =
     (case r_words cfg pc of
        None \<Rightarrow> (None, count_stat (\<lambda>s. s\<lparr>n_unknown := n_unknown s + 1\<rparr>) st)
      | Some word \<Rightarrow> (Some (classify_word word (r_sru cfg)), st))"

text \<open>A condition on a class that holds of an unknown word too, or not.\<close>

definition known :: "iclass option \<Rightarrow> (iclass \<Rightarrow> bool) \<Rightarrow> bool" where
  "known c P = (case c of None \<Rightarrow> False | Some k \<Rightarrow> P k)"

section \<open>One retirement\<close>

definition sru_gap_ok :: "int \<Rightarrow> iclass option \<Rightarrow> rules \<Rightarrow> bool" where
  "sru_gap_ok cycle c st \<longleftrightarrow>
     (case (c, g_last_retire st) of
        (Some k, Some l) \<Rightarrow> (case k_sru_lat k of Some lat \<Rightarrow> cycle - l \<ge> lat + 1 | None \<Rightarrow> True)
      | _ \<Rightarrow> True)"

definition serial_ok :: "int \<Rightarrow> int \<Rightarrow> rules \<Rightarrow> bool" where
  "serial_ok cycle word st \<longleftrightarrow>
     (let (regs, gap) = gpr_reads word in
      \<forall>r \<in> regs. case g_serial st r of None \<Rightarrow> True | Some (when, writer) \<Rightarrow> cycle - when \<ge> gap)"

definition serial_update :: "int \<Rightarrow> int \<Rightarrow> int \<Rightarrow> rules \<Rightarrow> rules" where
  "serial_update cycle pc word st =
     (let m = (\<lambda>r. if r \<in> gpr_writes word then None else g_serial st r) in
      st\<lparr>g_serial := (case serial_gpr word of Some r \<Rightarrow> m(r \<mapsto> (cycle, pc)) | None \<Rightarrow> m)\<rparr>)"

definition inflight_has :: "rules \<Rightarrow> int \<Rightarrow> bool" where
  "inflight_has st pc \<longleftrightarrow> (\<exists>e \<in> set (g_inflight st). e_pc e = pc)"

text \<open>The leading entries a recovery removed, when they may be skipped.\<close>

definition wrong_path_count :: "rules \<Rightarrow> nat" where
  "wrong_path_count st =
     (if g_cond st \<or> (g_inflight st \<noteq> [] \<and> e_flag (hd (g_inflight st)) = BehindRemoved)
      then length (takeWhile (\<lambda>e. \<not> live e) (g_inflight st)) else 0)"

definition find_entry :: "rules \<Rightarrow> nat \<Rightarrow> int \<Rightarrow> nat option" where
  "find_entry st from pc =
     find (\<lambda>i. from \<le> i \<and> e_pc (g_inflight st ! i) = pc) [0..<length (g_inflight st)]"

definition lr_waits_ok :: "int \<Rightarrow> int \<Rightarrow> rules \<Rightarrow> bool" where
  "lr_waits_ok cycle seq st \<longleftrightarrow> (\<forall>w \<in> set (g_lr_waits st). w_seq w = Some seq \<longrightarrow> w_cycle w \<ge> cycle - 1)"

definition lr_waits_retire :: "int \<Rightarrow> int \<Rightarrow> rules \<Rightarrow> rules" where
  "lr_waits_retire cycle seq st =
     st\<lparr>g_lr_waits := map (\<lambda>w. if w_seq w = Some seq then w\<lparr>w_retired := Some cycle\<rparr> else w) (g_lr_waits st)\<rparr>"

text \<open>The bookkeeping after the entry has left the queue.\<close>

definition retire_finish :: "int \<Rightarrow> nat \<Rightarrow> int \<Rightarrow> iclass option \<Rightarrow> entry \<Rightarrow> rules \<Rightarrow> rules result" where
  "retire_finish cycle i pc c e st =
     require (e_cycle e < cycle) ''retired in its dispatch cycle''
     (let st = count_stat (\<lambda>s. s\<lparr>n_retirements := n_retirements s + 1\<rparr>) st in
     require (case g_last_dser st of Some (seq, dcycle) \<Rightarrow> e_seq e < seq \<longrightarrow> cycle \<le> dcycle | None \<Rightarrow> True) ''TIM-DISP-DQ0''
     (let st = (case g_block st of Some (seq, _) \<Rightarrow> if e_seq e \<ge> seq then st\<lparr>g_block := None\<rparr> else st | None \<Rightarrow> st) in
     require (i = 1 \<longrightarrow> (case c of Some k \<Rightarrow> k_cq1 k | None \<Rightarrow> True)) ''TIM-CQ-CQ1/ORDER''
     (require (i = 1 \<longrightarrow> (case c of Some k \<Rightarrow> \<not> k_cser k | None \<Rightarrow> True)) ''TIM-SER-COMPLETE''
     (let st = (if known c k_isync then count_stat (\<lambda>s. s\<lparr>n_isync := n_isync s + 1\<rparr>) (st\<lparr>g_isync := Some cycle\<rparr>) else st)
      in Inr (st\<lparr>g_last_pc := Some pc, g_cond := known c k_cond\<rparr>)))))"

definition retire_entry :: "rule_cfg \<Rightarrow> int \<Rightarrow> nat \<Rightarrow> int \<Rightarrow> iclass option \<Rightarrow> rules \<Rightarrow> rules result" where
  "retire_entry cfg cycle i pc c st =
     (let wrong = wrong_path_count st in
      case find_entry st wrong pc of
        None \<Rightarrow> Inl (ValueError ''retired pc was not dispatched (in order)'')
      | Some index \<Rightarrow>
          let e = g_inflight st ! index in
          require (r_flush cfg \<or> index = wrong) ''TIM-CQ-ORDER''
          (require (live e) ''retired after its recovery removed it''
          (let st = count_stat (\<lambda>s. s\<lparr>n_flushed := n_flushed s + int index, n_mispredicts := n_mispredicts s + of_bool (0 < wrong)\<rparr>) st in
           require (lr_waits_ok cycle (e_seq e) st) ''TIM-BPU-LR-DEPENDENCY''
           (let st = lr_waits_retire cycle (e_seq e) st;
                st = (if known c (\<lambda>k. k_mtspr k = Some ''LR'') then st\<lparr>g_lr_retired := Some (cycle, pc)\<rparr> else st);
                st = st\<lparr>g_inflight := drop (index + 1) (g_inflight st)\<rparr>
            in retire_finish cycle i pc c e st))))"

definition further_micro_op :: "iclass option \<Rightarrow> int \<Rightarrow> rules \<Rightarrow> bool" where
  "further_micro_op c pc st \<longleftrightarrow> known c k_multiple \<and> g_last_pc st = Some pc \<and> \<not> inflight_has st pc"

definition retire_one :: "rule_cfg \<Rightarrow> int \<Rightarrow> nat \<Rightarrow> int \<Rightarrow> rules \<Rightarrow> (iclass option \<times> rules) result" where
  "retire_one cfg cycle i pc st =
     (let (c, st) = cls cfg pc st in
      require (sru_gap_ok cycle c st) ''TIM-SER-SRU-LATENCY''
      (let st = st\<lparr>g_last_retire := Some cycle\<rparr> in
       require (case r_words cfg pc of None \<Rightarrow> True | Some word \<Rightarrow> serial_ok cycle word st) ''TIM-SER-RESULT''
       (let st = (case r_words cfg pc of None \<Rightarrow> st | Some word \<Rightarrow> serial_update cycle pc word st) in
        if further_micro_op c pc st then Inr (c, st)
        else bindR (retire_entry cfg cycle i pc c st) (\<lambda>st. Inr (c, st)))))"

fun retire_all :: "rule_cfg \<Rightarrow> int \<Rightarrow> nat \<Rightarrow> int list \<Rightarrow> rules \<Rightarrow> (iclass option list \<times> rules) result" where
  "retire_all cfg cycle i [] st = Inr ([], st)"
| "retire_all cfg cycle i (pc # pcs) st =
     bindR (retire_one cfg cycle i pc st) (\<lambda>(c, st).
     bindR (retire_all cfg cycle (i + 1) pcs st) (\<lambda>(cs, st). Inr (c # cs, st)))"

definition writeback_ok :: "iclass option list \<Rightarrow> bool" where
  "writeback_ok cs =
     (case cs of
        [Some a, Some b] \<Rightarrow> let totals = map2 (+) (k_writes a) (k_writes b)
                           in totals ! 0 \<le> 2 \<and> (\<forall>t \<in> set (tl totals). t \<le> 1)
      | _ \<Rightarrow> True)"

definition retire_phase :: "rule_cfg \<Rightarrow> int \<Rightarrow> int list \<Rightarrow> rules \<Rightarrow> rules result" where
  "retire_phase cfg cycle retired st =
     bindR (retire_all cfg cycle 0 retired st) (\<lambda>(cs, st).
     if length retired = 2
     then let st = count_stat (\<lambda>s. s\<lparr>n_pairs_retired := n_pairs_retired s + 1\<rparr>) st
          in require (writeback_ok cs) ''TIM-WB-LIMITS'' (Inr st)
     else Inr st)"

section \<open>Fetch stops\<close>

definition blocking :: "int \<Rightarrow> rules \<Rightarrow> bool" where
  "blocking seq st \<longleftrightarrow> (\<exists>e \<in> set (g_inflight st). e_seq e = seq \<and> live e)"

definition lr_target_ok :: "int \<Rightarrow> int \<Rightarrow> rules \<Rightarrow> bool" where
  "lr_target_ok cycle pc st \<longleftrightarrow>
     (\<forall>w \<in> set (g_lr_waits st). w_order w = g_order st \<longrightarrow>
        (case w_retired w of Some r \<Rightarrow> pc \<noteq> w_bclr w + 4 \<longrightarrow> cycle \<ge> r + 2 | None \<Rightarrow> True))"

definition not_complete :: "rules \<Rightarrow> int \<times> int \<Rightarrow> bool" where
  "not_complete st r \<longleftrightarrow> (\<exists>e \<in> set (g_inflight st). e_seq e \<le> fst r \<and> live e)"

definition writes_lr :: "iclass option \<Rightarrow> bool" where "writes_lr c \<longleftrightarrow> known c (\<lambda>k. k_writes k ! 3 \<noteq> 0)"

definition lk_waits :: "iclass option \<Rightarrow> bool" where
  "lk_waits c \<longleftrightarrow> known c (\<lambda>k. k_branch k \<noteq> None \<and> k_writes k ! 3 \<noteq> 0 \<and> k_branch k \<noteq> Some ''b'')"

definition ctr_waits :: "iclass option \<Rightarrow> bool" where
  "ctr_waits c \<longleftrightarrow> known c (\<lambda>k. k_ctr_test k \<or> k_branch k = Some ''bcctr'')"

text \<open>The youngest live instruction in flight the branch waits for.\<close>

definition stop_for :: "iclass \<Rightarrow> rules \<Rightarrow> (entry \<times> string) option" where
  "stop_for k st =
     (case find (\<lambda>e. live e \<and> e_class e \<noteq> None \<and> fetch_stop (the (e_class e)) k \<noteq> None \<and> blocking (e_seq e) st)
              (rev (g_inflight st)) of
        None \<Rightarrow> None
      | Some e \<Rightarrow> Some (e, the (fetch_stop (the (e_class e)) k)))"

definition add_stop :: "int \<Rightarrow> int \<Rightarrow> iclass \<Rightarrow> bool \<Rightarrow> rules \<Rightarrow> rules result" where
  "add_stop cycle pc k gone st =
     (let st = (case g_lr_retired st of
            Some (rcycle, rpc) \<Rightarrow>
              if k_branch k = Some ''bclr''
              then st\<lparr>g_lr_waits := g_lr_waits st @ [\<lparr>w_pc = rpc, w_order = g_order st + 1, w_bclr = pc, w_cycle = cycle, w_retired = Some rcycle, w_seq = None\<rparr>]\<rparr>
              else st
          | None \<Rightarrow> st)
      in case stop_for k st of
           None \<Rightarrow> Inr st
         | Some (e, kind) \<Rightarrow>
             let st = (if kind = ''execute''
                 then st\<lparr>g_lr_waits := g_lr_waits st @ [\<lparr>w_pc = e_pc e, w_order = g_order st + 1, w_bclr = pc, w_cycle = cycle, w_retired = None, w_seq = Some (e_seq e)\<rparr>]\<rparr>
                 else st)
             in require (\<not> gone \<or> kind = ''execute'') ''TIM-BPU-FETCH-STOP''
                (Inr (count_stat (\<lambda>s. s\<lparr>n_fetch_stops := n_fetch_stops s + 1\<rparr>)
                  (st\<lparr>g_stops := g_stops st @ [\<lparr>p_older = e_seq e, p_order = g_order st + 1, p_pc = pc, p_kind = kind\<rparr>]\<rparr>))))"

definition fetch_stops :: "int \<Rightarrow> int \<Rightarrow> iclass option \<Rightarrow> bool \<Rightarrow> rules \<Rightarrow> rules result" where
  "fetch_stops cycle pc c gone st0 =
     (let st = st0\<lparr>g_stops := filter (\<lambda>s. blocking (p_older s) st0) (g_stops st0)\<rparr> in
      require (lr_target_ok cycle pc st) ''TIM-BPU-LR-DEPENDENCY''
      (let st = st\<lparr>g_lr_waits := filter (\<lambda>w. w_order w \<noteq> g_order st) (g_lr_waits st)\<rparr>;
           st = (if writes_lr c then st\<lparr>g_lr_retired := None\<rparr> else st);
           st = st\<lparr>g_removed_lk := filter (not_complete st) (g_removed_lk st)\<rparr>
       in require (lk_waits c \<longrightarrow> g_removed_lk st = []) ''TIM-BPU-FETCH-STOP''
       (let st = st\<lparr>g_removed_ctr := filter (not_complete st) (g_removed_ctr st)\<rparr>
        in require (ctr_waits c \<longrightarrow> g_removed_ctr st = []) ''TIM-BPU-FETCH-STOP''
        (require (g_stops st = []) ''TIM-BPU-FETCH-STOP''
         (case c of
            None \<Rightarrow> Inr st
          | Some k \<Rightarrow> if k_branch k = None then Inr st else add_stop cycle pc k gone st)))))"

section \<open>Dispatch\<close>

definition redirect_phase :: "int \<Rightarrow> rules \<Rightarrow> rules result" where
  "redirect_phase cycle st =
     (case g_redirect st of
        None \<Rightarrow> Inr st
      | Some (earliest, pc) \<Rightarrow>
          require (cycle \<ge> earliest) ''TIM-BPU-MISPREDICT''
          (Inr (count_stat (\<lambda>s. s\<lparr>n_redirects := n_redirects s + 1, n_at_floor := n_at_floor s + of_bool (cycle = earliest)\<rparr>)
            (st\<lparr>g_redirect := None\<rparr>))))"

definition serial_phase :: "int \<Rightarrow> rules \<Rightarrow> rules result" where
  "serial_phase cycle st =
     require (g_block st = None) ''TIM-SER-DISPATCH''
     (require (case g_isync st of None \<Rightarrow> True | Some r \<Rightarrow> cycle > r) ''TIM-SER-REFETCH''
       (Inr (st\<lparr>g_isync := None\<rparr>)))"

fun cls_all :: "rule_cfg \<Rightarrow> int list \<Rightarrow> rules \<Rightarrow> iclass option list \<times> rules" where
  "cls_all cfg [] st = ([], st)"
| "cls_all cfg (pc # pcs) st = (let (c, st) = cls cfg pc st; (cs, st) = cls_all cfg pcs st in (c # cs, st))"

definition distinct_units :: "iclass \<Rightarrow> iclass \<Rightarrow> bool" where
  "distinct_units a b \<longleftrightarrow> BPU \<in> k_units a \<union> k_units b \<or> (\<exists>x \<in> k_units a. \<exists>y \<in> k_units b. x \<noteq> y)"

definition sru_pair :: "iclass \<Rightarrow> iclass \<Rightarrow> bool" where
  "sru_pair a b \<longleftrightarrow>
     k_units a = {IU} \<and> k_units b = {IU, SRU} \<or> k_units b = {IU} \<and> k_units a = {IU, SRU} \<or>
     k_units a = {IU, SRU} \<and> k_units b = {IU, SRU}"

definition pair_phase :: "iclass option list \<Rightarrow> rules \<Rightarrow> rules result" where
  "pair_phase cs st0 =
     (if length cs = 2
      then let st = count_stat (\<lambda>s. s\<lparr>n_pairs_dispatched := n_pairs_dispatched s + 1\<rparr>) st0 in
        (case cs of
           [Some a, Some b] \<Rightarrow>
             require (\<not> k_dser a \<and> \<not> k_dser b) ''TIM-DISP-DQ1''
             (require (distinct_units a b) ''TIM-DISP-DQ1 same unit''
               (Inr (if sru_pair a b then count_stat (\<lambda>s. s\<lparr>n_sru_pairs := n_sru_pairs s + 1\<rparr>) st else st)))
         | _ \<Rightarrow> Inr st)
      else Inr st0)"

text \<open>A branch removed at dispatch writes CTR only as a \<open>bc\<close> and LR only as a \<open>bl\<close>.\<close>

definition fold_ok :: "iclass option \<Rightarrow> bool" where
  "fold_ok c \<longleftrightarrow>
     (case c of None \<Rightarrow> True
      | Some k \<Rightarrow> k_units k = {BPU} \<and> (k_writes k ! 4 = 0 \<or> (k_branch k = Some ''bc'' \<and> k_writes k ! 3 = 0)) \<and>
          (k_writes k ! 3 = 0 \<or> k_branch k = Some ''b''))"

definition dispatch_gone :: "int \<Rightarrow> iclass option \<Rightarrow> rules \<Rightarrow> rules result" where
  "dispatch_gone pc c st =
     require (fold_ok c) ''TIM-BPU-FOLD''
     (let st = (if writes_lr c then st\<lparr>g_removed_lk := g_removed_lk st @ [(g_seq st, pc)]\<rparr> else st);
          st = (if known c (\<lambda>k. k_writes k ! 4 \<noteq> 0) then st\<lparr>g_removed_ctr := g_removed_ctr st @ [(g_seq st, pc)]\<rparr> else st)
      in Inr (count_stat (\<lambda>s. s\<lparr>n_dispatches := n_dispatches s + 1, n_removed := n_removed s + 1\<rparr>) st))"

definition dispatch_entry :: "int \<Rightarrow> int \<Rightarrow> iclass option \<Rightarrow> rules \<Rightarrow> rules" where
  "dispatch_entry cycle pc c st =
     (let seq = g_seq st + 1;
          e = \<lparr>e_pc = pc, e_cycle = cycle, e_seq = seq, e_flag = Present, e_class = c, e_order = g_order st\<rparr>;
          st = count_stat (\<lambda>s. s\<lparr>n_dispatches := n_dispatches s + 1\<rparr>) (st\<lparr>g_seq := seq, g_inflight := g_inflight st @ [e]\<rparr>);
          st = (if known c k_dser
                then count_stat (\<lambda>s. s\<lparr>n_dser := n_dser s + 1\<rparr>) (st\<lparr>g_block := Some (seq, cycle), g_last_dser := Some (seq, cycle)\<rparr>)
                else st)
      in if known c k_cser then count_stat (\<lambda>s. s\<lparr>n_cser := n_cser s + 1\<rparr>) st else st)"

definition dispatch_one :: "int \<Rightarrow> int \<Rightarrow> iclass option \<Rightarrow> bool \<Rightarrow> rules \<Rightarrow> rules result" where
  "dispatch_one cycle pc c gone st =
     bindR (fetch_stops cycle pc c gone st) (\<lambda>st.
     let order = g_order st + 1;
         st = st\<lparr>g_order := order,
                 g_stream := drop (length (g_stream st) - 31) (g_stream st) @ [\<lparr>d_order = order, d_class = c, d_gone = gone, d_cycle = cycle, d_pc = pc\<rparr>]\<rparr>
     in if gone then dispatch_gone pc c st else Inr (dispatch_entry cycle pc c st))"

fun dispatch_all :: "int \<Rightarrow> nat \<Rightarrow> bool list \<Rightarrow> (int \<times> iclass option) list \<Rightarrow> rules \<Rightarrow> rules result" where
  "dispatch_all cycle i removed [] st = Inr st"
| "dispatch_all cycle i removed ((pc, c) # rest) st =
     bindR (dispatch_one cycle pc c (i < length removed \<and> removed ! i) st) (dispatch_all cycle (i + 1) removed rest)"

definition dispatch_phase :: "rule_cfg \<Rightarrow> int \<Rightarrow> int list \<Rightarrow> bool list \<Rightarrow> rules \<Rightarrow> rules result" where
  "dispatch_phase cfg cycle dispatched removed st =
     bindR (if dispatched \<noteq> [] then redirect_phase cycle st else Inr st) (\<lambda>st.
     bindR (if dispatched \<noteq> [] then serial_phase cycle st else Inr st) (\<lambda>st.
     let (cs, st) = cls_all cfg dispatched st in
     bindR (pair_phase cs st) (dispatch_all cycle 0 removed (zip dispatched cs))))"

section \<open>Occupancy and recovery\<close>

definition CQ_DEPTH :: int where "CQ_DEPTH = 5"
definition GPR_RENAMES :: int where "GPR_RENAMES = 5"
definition FPR_RENAMES :: int where "FPR_RENAMES = 4"

definition destinations :: "nat \<Rightarrow> entry list \<Rightarrow> int" where
  "destinations k es = sum_list (map (\<lambda>e. case e_class e of Some c \<Rightarrow> k_writes c ! k | None \<Rightarrow> 0) (filter live es))"

definition occupancy :: "rules \<Rightarrow> rules result" where
  "occupancy st =
     (let n = int (length (filter live (g_inflight st))); gpr = destinations 0 (g_inflight st); fpr = destinations 2 (g_inflight st);
          st = count_stat (\<lambda>s. s\<lparr>n_cq_max := max (n_cq_max s) n, n_gpr_max := max (n_gpr_max s) gpr\<rparr>) st
      in require (n \<le> CQ_DEPTH) ''TIM-CQ-ALLOC''
         (require (gpr \<le> GPR_RENAMES \<and> fpr \<le> FPR_RENAMES) ''TIM-RENAME-LIMITS'' (Inr st)))"

definition mispredict_floor :: "rule_cfg \<Rightarrow> int \<Rightarrow> int \<Rightarrow> rules \<Rightarrow> rules result" where
  "mispredict_floor cfg cycle branch st =
     (let earliest = cycle + 1; d = find (\<lambda>d. d_order d = branch) (g_stream st) in
      case d of
        Some d \<Rightarrow>
          if known (d_class d) (\<lambda>k. k_branch k \<noteq> None \<and> k_cr_test k)
          then (case r_words cfg (d_pc d) of
                  None \<Rightarrow> Inl KeyError
                | Some word \<Rightarrow>
                    let field = drop_bit 18 word AND 7;
                        older = filter (\<lambda>o'. d_order o' < branch \<and> \<not> d_gone o' \<and> cr_field (r_words cfg (d_pc o')) = Some field) (g_stream st)
                    in if older \<noteq> [] then Inr (st\<lparr>g_redirect := Some (max earliest (d_cycle (last older) + 4), d_pc d)\<rparr>) else Inr st)
          else Inr (st\<lparr>g_redirect := Some (earliest, d_pc d)\<rparr>)
      | None \<Rightarrow> Inr (st\<lparr>g_redirect := Some (earliest, 0)\<rparr>))"

text \<open>The branch that was mispredicted: the youngest dispatch behind which \<open>n\<close> entries were removed.\<close>

fun find_branch :: "int \<Rightarrow> dispatch_info list \<Rightarrow> int option" where
  "find_branch n [] = None"
| "find_branch n (d # ds) =
     (if \<not> d_gone d then if n = 0 then Some (d_order d) else find_branch (n - 1) ds else find_branch n ds)"

fun one_prediction :: "dispatch_info list \<Rightarrow> bool" where
  "one_prediction [] = True"
| "one_prediction (d # ds) =
     ((known (d_class d) (\<lambda>k. k_branch k \<noteq> None \<and> k_cr_test k \<and> \<not> k_ctr_test k) \<longrightarrow> \<not> d_gone d \<and> ds = []) \<and> one_prediction ds)"

definition wrong_path_from :: "rule_cfg \<Rightarrow> int \<Rightarrow> int \<Rightarrow> rules \<Rightarrow> rules result" where
  "wrong_path_from cfg cycle branch st0 =
     (let path = filter (\<lambda>d. d_order d > branch) (g_stream st0) in
      bindR (mispredict_floor cfg cycle branch st0) (\<lambda>st.
      let st = st\<lparr>g_stops := filter (\<lambda>s. p_order s \<le> branch) (g_stops st)\<rparr>;
          n = length (filter (\<lambda>d. known (d_class d) (\<lambda>k. k_branch k \<noteq> None \<and> k_cr_test k \<and> \<not> k_ctr_test k)) path)
      in require (one_prediction path) ''TIM-BPU-ONE-PREDICTION''
         (Inr (count_stat (\<lambda>s. s\<lparr>n_wrong_path := n_wrong_path s + int n\<rparr>) st))))"

definition wrong_path :: "rule_cfg \<Rightarrow> int \<Rightarrow> int \<Rightarrow> int option \<Rightarrow> rules \<Rightarrow> rules result" where
  "wrong_path cfg cycle mispredict after st =
     (case after of
        Some a \<Rightarrow>
          if a \<ge> int (length (g_stream st)) then Inr st
          else bindR (py_get (g_stream st) (- 1 - a)) (\<lambda>d. wrong_path_from cfg cycle (d_order d) st)
      | None \<Rightarrow>
          (case find_branch mispredict (rev (g_stream st)) of
             None \<Rightarrow> Inr st
           | Some branch \<Rightarrow> wrong_path_from cfg cycle branch st))"

text \<open>The youngest \<open>n\<close> entries are marked.\<close>

definition mark_removed :: "int \<Rightarrow> eflag \<Rightarrow> rules \<Rightarrow> rules" where
  "mark_removed n flag st =
     (let es = g_inflight st; k = nat (int (length es) - n) in
      st\<lparr>g_inflight := take k es @ map (\<lambda>e. e\<lparr>e_flag := flag\<rparr>) (drop k es)\<rparr>)"

definition recovery_phase :: "rule_cfg \<Rightarrow> int \<Rightarrow> int option \<Rightarrow> int option \<Rightarrow> rules \<Rightarrow> rules result" where
  "recovery_phase cfg cycle mispredict after st =
     (let n = (case mispredict of Some n \<Rightarrow> n | None \<Rightarrow> 0) in
      require (n \<le> int (length (g_inflight st))) ''recovery removes more than in flight''
      (bindR (if mispredict \<noteq> None then bindR (wrong_path cfg cycle n after st) (\<lambda>st. Inr (st\<lparr>g_lr_waits := []\<rparr>)) else Inr st) (\<lambda>st.
       Inr (mark_removed n (if after = None then Flushed else BehindRemoved) st))))"

section \<open>Events\<close>

text \<open>One parsed line: cycle, dispatched, retired, removed count, removed marks, count after a removed branch.\<close>

record trace_event =
  v_cycle :: int
  v_dispatched :: "int list"
  v_retired :: "int list"
  v_mispredict :: "int option"
  v_removed :: "bool list"
  v_after :: "int option"

definition check_event :: "rule_cfg \<Rightarrow> trace_event \<Rightarrow> rules \<Rightarrow> rules result" where
  "check_event cfg v st0 =
     (let cycle = v_cycle v; st = count_stat (\<lambda>s. s\<lparr>n_cycles := cycle\<rparr>) st0 in
      require (length (v_dispatched v) \<le> r_width cfg \<and> length (v_retired v) \<le> r_width cfg) ''TIM-DISP-WIDTH''
      (bindR (retire_phase cfg cycle (v_retired v) st) (\<lambda>st.
       bindR (dispatch_phase cfg cycle (v_dispatched v) (v_removed v) st) (\<lambda>st.
       bindR (occupancy st) (recovery_phase cfg cycle (v_mispredict v) (v_after v))))))"

fun check_events :: "rule_cfg \<Rightarrow> int \<Rightarrow> trace_event list \<Rightarrow> rules \<Rightarrow> rules result" where
  "check_events cfg previous [] st = Inr st"
| "check_events cfg previous (v # vs) st =
     require (v_cycle v > previous) ''cycle out of order''
     (bindR (check_event cfg v st) (check_events cfg (v_cycle v) vs))"

definition check_rules :: "rule_cfg \<Rightarrow> trace_event list \<Rightarrow> rule_stats result" where
  "check_rules cfg vs = bindR (check_events cfg (- 1) vs rules_init) (\<lambda>st. Inr (g_stats st))"

end
