(* ===== verification/Dispatch_Order.thy ===== *)
theory Dispatch_Order
  imports Dispatch_Rules
begin

text \<open>
  What an accepted trace guarantees: instructions retire in program order, each after its
  dispatch and at most once; the completion queue and the renames are never exceeded; a
  dispatch-serialized instruction is alone behind the older ones.
\<close>

section \<open>What the helpers keep\<close>

text \<open>The queue and the dispatch counter.\<close>

definition queue_of :: "rules \<Rightarrow> entry list \<times> int" where "queue_of st = (g_inflight st, g_seq st)"

named_theorems keeps_queue \<open>steps that leave the queue alone\<close>

lemma require_Inr [simp]: "require b m r = Inr x \<longleftrightarrow> b \<and> r = Inr x"
  by (simp add: require_def)

lemma count_stat_fields [simp]:
  "g_inflight (count_stat f st) = g_inflight st" "g_seq (count_stat f st) = g_seq st" "g_block (count_stat f st) = g_block st"
  "g_lr_waits (count_stat f st) = g_lr_waits st" "g_last_dser (count_stat f st) = g_last_dser st" "g_order (count_stat f st) = g_order st"
  "g_stream (count_stat f st) = g_stream st"
  by (simp_all add: count_stat_def)

lemma cls_fields [simp]:
  "g_inflight (snd (cls cfg pc st)) = g_inflight st" "g_seq (snd (cls cfg pc st)) = g_seq st" "g_block (snd (cls cfg pc st)) = g_block st"
  by (simp_all add: cls_def split: option.split)

lemma cls_class: "fst (cls cfg pc st) = map_option (\<lambda>w. classify_word w (r_sru cfg)) (r_words cfg pc)"
  by (simp add: cls_def split: option.split)

lemma serial_update_fields [simp]:
  "g_inflight (serial_update t pc w st) = g_inflight st" "g_seq (serial_update t pc w st) = g_seq st"
  "g_block (serial_update t pc w st) = g_block st"
  by (simp_all add: serial_update_def Let_def)

lemma lr_waits_retire_fields [simp]:
  "g_inflight (lr_waits_retire t s st) = g_inflight st" "g_seq (lr_waits_retire t s st) = g_seq st"
  "g_block (lr_waits_retire t s st) = g_block st"
  by (simp_all add: lr_waits_retire_def)

text \<open>A retirement from the blocking instruction on lifts the block.\<close>

definition block_after :: "(int \<times> int) option \<Rightarrow> entry \<Rightarrow> (int \<times> int) option" where
  "block_after b e = (case b of Some (s, _) \<Rightarrow> if e_seq e \<ge> s then None else b | None \<Rightarrow> None)"

lemma retire_finish_result:
  assumes "retire_finish t i pc c e st = Inr st'"
  shows "e_cycle e < t" "g_inflight st' = g_inflight st" "g_seq st' = g_seq st"
    "g_block st' = block_after (g_block st) e"
  using assms by (auto simp: block_after_def retire_finish_def Let_def split: option.splits if_splits)

lemma find_entry_result:
  assumes "find_entry st from pc = Some i"
  shows "i < length (g_inflight st)" "from \<le> i" "e_pc (g_inflight st ! i) = pc"
  using assms by (auto simp: find_entry_def find_Some_iff)

text \<open>A retirement removes a prefix of the queue that ends at a live entry with its program counter.\<close>

lemma retire_entry_result:
  assumes "retire_entry cfg t i pc c st = Inr st'"
  obtains k where "k < length (g_inflight st)" "e_pc (g_inflight st ! k) = pc" "live (g_inflight st ! k)"
    "e_cycle (g_inflight st ! k) < t" "g_inflight st' = drop (Suc k) (g_inflight st)" "g_seq st' = g_seq st"
    "g_block st' = block_after (g_block st) (g_inflight st ! k)"
proof -
  obtain k where k: "find_entry st (wrong_path_count st) pc = Some k"
    using assms by (auto simp: retire_entry_def Let_def split: option.splits)
  let ?e = "g_inflight st ! k"
  have live: "live ?e"
    using assms k by (simp add: retire_entry_def Let_def)
  define a where "a = lr_waits_retire t (e_seq ?e) (count_stat (\<lambda>s. s\<lparr>n_flushed := n_flushed s + int k,
    n_mispredicts := n_mispredicts s + of_bool (0 < wrong_path_count st)\<rparr>) st)"
  define b where "b = (if known c (\<lambda>k. k_mtspr k = Some ''LR'') then a\<lparr>g_lr_retired := Some (t, pc)\<rparr> else a)"
  define st1 where "st1 = b\<lparr>g_inflight := drop (k + 1) (g_inflight b)\<rparr>"
  have fin: "retire_finish t i pc c ?e st1 = Inr st'"
    using assms unfolding retire_entry_def Let_def k option.case require_Inr st1_def b_def a_def by blast
  have st1: "g_inflight st1 = drop (Suc k) (g_inflight st)" "g_seq st1 = g_seq st" "g_block st1 = g_block st"
    by (simp_all add: st1_def b_def a_def)
  show ?thesis
    using that [of k] find_entry_result [OF k] live retire_finish_result [OF fin] st1 by simp
qed

lemma retire_one_result:
  assumes "retire_one cfg t i pc st = Inr (c, st')"
  obtains (micro) "g_inflight st' = g_inflight st" "g_seq st' = g_seq st" "g_block st' = g_block st"
      "known (map_option (\<lambda>w. classify_word w (r_sru cfg)) (r_words cfg pc)) k_multiple"
  | (retired) k where "k < length (g_inflight st)" "e_pc (g_inflight st ! k) = pc" "live (g_inflight st ! k)"
    "e_cycle (g_inflight st ! k) < t" "g_inflight st' = drop (Suc k) (g_inflight st)" "g_seq st' = g_seq st"
    "g_block st' = block_after (g_block st) (g_inflight st ! k)"
proof -
  define c0 where "c0 = fst (cls cfg pc st)"
  define st1 where "st1 = (case r_words cfg pc of None \<Rightarrow> (snd (cls cfg pc st))\<lparr>g_last_retire := Some t\<rparr>
    | Some w \<Rightarrow> serial_update t pc w ((snd (cls cfg pc st))\<lparr>g_last_retire := Some t\<rparr>))"
  have q: "g_inflight st1 = g_inflight st" "g_seq st1 = g_seq st" "g_block st1 = g_block st"
    by (simp_all add: st1_def split: option.split)
  have r: "if further_micro_op c0 pc st1 then st' = st1 else retire_entry cfg t i pc c0 st1 = Inr st'"
    using assms by (auto simp: retire_one_def Let_def case_prod_beta c0_def st1_def bindR_eq_Inr split: if_splits option.splits)
  show ?thesis
  proof (cases "further_micro_op c0 pc st1")
    case True
    then show ?thesis using r q micro by (simp add: further_micro_op_def c0_def cls_class)
  next
    case False
    then have "retire_entry cfg t i pc c0 st1 = Inr st'" using r by simp
    then show ?thesis by (rule retire_entry_result) (use q retired in auto)
  qed
qed

section \<open>The queue follows the dispatches\<close>

text \<open>
  \<open>D\<close> lists the dispatches that entered the queue (cycle and program counter); entry number
  \<open>k\<close> is the \<open>k\<close>-th of them.  Every queue entry is younger than the last retired one.
\<close>

definition entry_of :: "rule_cfg \<Rightarrow> (int \<times> int) list \<Rightarrow> int \<Rightarrow> entry \<Rightarrow> bool" where
  "entry_of cfg D lo e \<longleftrightarrow>
     lo < e_seq e \<and> 1 \<le> e_seq e \<and> e_seq e \<le> int (length D) \<and> D ! nat (e_seq e - 1) = (e_cycle e, e_pc e) \<and>
     e_class e = map_option (\<lambda>w. classify_word w (r_sru cfg)) (r_words cfg (e_pc e))"

definition queue_inv :: "rule_cfg \<Rightarrow> (int \<times> int) list \<Rightarrow> int \<Rightarrow> rules \<Rightarrow> bool" where
  "queue_inv cfg D lo st \<longleftrightarrow>
     lo \<le> int (length D) \<and> g_seq st = int (length D) \<and> sorted_wrt (<) (map e_seq (g_inflight st)) \<and> (\<forall>e \<in> set (g_inflight st). entry_of cfg D lo e)"

text \<open>A retired program counter is a dispatched instruction, or a further part of a multiple instruction.\<close>

definition retires :: "rule_cfg \<Rightarrow> (int \<times> int) list \<Rightarrow> int \<times> int \<Rightarrow> int option \<Rightarrow> bool" where
  "retires cfg D r k \<longleftrightarrow>
     (case k of
        None \<Rightarrow> known (map_option (\<lambda>w. classify_word w (r_sru cfg)) (r_words cfg (snd r))) k_multiple
      | Some n \<Rightarrow> 1 \<le> n \<and> n \<le> int (length D) \<and> snd (D ! nat (n - 1)) = snd r \<and> fst (D ! nat (n - 1)) < fst r)"

definition somes :: "'a option list \<Rightarrow> 'a list" where "somes = List.map_filter (\<lambda>x. x)"

lemma somes_simps [simp]: "somes [] = []" "somes (None # xs) = somes xs" "somes (Some x # xs) = x # somes xs"
  "somes (xs @ ys) = somes xs @ somes ys"
  by (simp_all add: somes_def List.map_filter_def)

text \<open>The numbers retired in a phase: increasing, from \<open>lo\<close> to \<open>lo'\<close>.\<close>

definition in_order :: "rule_cfg \<Rightarrow> (int \<times> int) list \<Rightarrow> int \<Rightarrow> (int \<times> int) list \<Rightarrow> int option list \<Rightarrow> int \<Rightarrow> bool" where
  "in_order cfg D lo rs ks lo' \<longleftrightarrow>
     list_all2 (retires cfg D) rs ks \<and> sorted_wrt (<) (lo # somes ks) \<and> (\<forall>k \<in> set (somes ks). k \<le> lo') \<and> lo \<le> lo'"

lemma in_order_append:
  assumes "in_order cfg D lo rs ks mid" "in_order cfg D mid rs' ks' lo'"
  shows "in_order cfg D lo (rs @ rs') (ks @ ks') lo'"
  using assms by (fastforce simp: in_order_def sorted_wrt_append list_all2_appendI)

lemma in_order_extend: "in_order cfg D lo rs ks lo' \<Longrightarrow> in_order cfg (D @ D') lo rs ks lo'"
  by (auto simp: in_order_def retires_def nth_append elim!: list_all2_mono split: option.splits)

lemma retire_one_inv:
  assumes inv: "queue_inv cfg D lo st" and step: "retire_one cfg t i pc st = Inr (c, st')"
  obtains k lo' where "queue_inv cfg D lo' st'" "in_order cfg D lo [(t, pc)] [k] lo'"
  using step
proof (cases rule: retire_one_result)
  case micro
  then have "queue_inv cfg D lo st'" "in_order cfg D lo [(t, pc)] [None] lo"
    using inv by (simp_all add: queue_inv_def in_order_def retires_def)
  then show ?thesis using that by blast
next
  case (retired k)
  let ?e = "g_inflight st ! k"
  have e: "entry_of cfg D lo ?e" using inv retired(1) by (simp add: queue_inv_def)
  have seqs: "sorted_wrt (<) (map e_seq (g_inflight st))" using inv by (simp add: queue_inv_def)
  have "e_seq ?e < e_seq x" if "x \<in> set (drop (Suc k) (g_inflight st))" for x
  proof -
    obtain j where j: "x = g_inflight st ! j" "k < j" "j < length (g_inflight st)"
      using \<open>x \<in> _\<close> retired(1) by (auto simp: in_set_conv_nth)
    then show ?thesis using seqs by (auto simp: sorted_wrt_iff_nth_less)
  qed
  then have "queue_inv cfg D (e_seq ?e) st'"
    using inv e retired(5,6) by (auto simp: queue_inv_def entry_of_def sorted_wrt_map sorted_wrt_drop dest: in_set_dropD)
  moreover have "in_order cfg D lo [(t, pc)] [Some (e_seq ?e)] (e_seq ?e)"
    using e retired(2,4) by (simp add: in_order_def retires_def entry_of_def)
  ultimately show ?thesis using that by blast
qed

lemma retire_all_inv:
  assumes "queue_inv cfg D lo st" "retire_all cfg t i pcs st = Inr (cs, st')"
  shows "\<exists>ks lo'. queue_inv cfg D lo' st' \<and> in_order cfg D lo (map (Pair t) pcs) ks lo'"
  using assms
proof (induction pcs arbitrary: i st lo cs)
  case Nil
  then have "queue_inv cfg D lo st' \<and> in_order cfg D lo (map (Pair t) []) [] lo" by (simp add: in_order_def)
  then show ?case by blast
next
  case (Cons pc pcs)
  from Cons.prems(2) obtain c st1 cs' where one: "retire_one cfg t i pc st = Inr (c, st1)"
    and rest: "retire_all cfg t (i + 1) pcs st1 = Inr (cs', st')"
    by (auto simp: bindR_eq_Inr)
  obtain k mid where k: "queue_inv cfg D mid st1" "in_order cfg D lo [(t, pc)] [k] mid"
    using retire_one_inv [OF Cons.prems(1) one] by blast
  obtain ks lo' where ks: "queue_inv cfg D lo' st'" "in_order cfg D mid (map (Pair t) pcs) ks lo'"
    using Cons.IH [OF k(1) rest] by blast
  have "in_order cfg D lo (map (Pair t) (pc # pcs)) (k # ks) lo'" using in_order_append [OF k(2) ks(2)] by simp
  then show ?case using ks(1) by blast
qed

lemma retire_phase_result:
  assumes "retire_phase cfg t pcs st = Inr st'"
  obtains cs st1 where "retire_all cfg t 0 pcs st = Inr (cs, st1)" "g_inflight st' = g_inflight st1" "g_seq st' = g_seq st1"
    "g_block st' = g_block st1"
  using assms by (auto simp: retire_phase_def bindR_eq_Inr Let_def split: if_splits)

text \<open>Dispatch.\<close>

lemma add_stop_keeps:
  "add_stop t pc k gone st = Inr st' \<Longrightarrow> g_inflight st' = g_inflight st \<and> g_seq st' = g_seq st \<and> g_block st' = g_block st"
  by (auto simp: add_stop_def Let_def split: option.splits if_splits)

lemma fetch_stops_keeps:
  assumes "fetch_stops t pc c gone st = Inr st'"
  shows "g_inflight st' = g_inflight st \<and> g_seq st' = g_seq st \<and> g_block st' = g_block st"
proof -
  define s1 where "s1 = st\<lparr>g_stops := filter (\<lambda>s. blocking (p_older s) st) (g_stops st)\<rparr>"
  define s2 where "s2 = s1\<lparr>g_lr_waits := filter (\<lambda>w. w_order w \<noteq> g_order s1) (g_lr_waits s1)\<rparr>"
  define s3 where "s3 = (if writes_lr c then s2\<lparr>g_lr_retired := None\<rparr> else s2)"
  define s4 where "s4 = s3\<lparr>g_removed_lk := filter (not_complete s3) (g_removed_lk s3)\<rparr>"
  define s5 where "s5 = s4\<lparr>g_removed_ctr := filter (not_complete s4) (g_removed_ctr s4)\<rparr>"
  have "(case c of None \<Rightarrow> Inr s5 | Some k \<Rightarrow> if k_branch k = None then Inr s5 else add_stop t pc k gone s5) = Inr st'"
    using assms unfolding fetch_stops_def Let_def require_Inr s5_def s4_def s3_def s2_def s1_def by blast
  moreover have "g_inflight s5 = g_inflight st \<and> g_seq s5 = g_seq st \<and> g_block s5 = g_block st"
    by (simp add: s5_def s4_def s3_def s2_def s1_def)
  ultimately show ?thesis using add_stop_keeps [of t pc _ gone s5 st'] by (auto split: option.splits if_splits)
qed

lemma dispatch_gone_keeps:
  "dispatch_gone pc c st = Inr st' \<Longrightarrow> g_inflight st' = g_inflight st \<and> g_seq st' = g_seq st \<and> g_block st' = g_block st"
  by (auto simp: dispatch_gone_def Let_def split: if_splits)

lemma dispatch_entry_fields:
  "g_inflight (dispatch_entry t pc c st) = g_inflight st @ [\<lparr>e_pc = pc, e_cycle = t, e_seq = g_seq st + 1, e_flag = Present, e_class = c, e_order = g_order st\<rparr>]"
  "g_seq (dispatch_entry t pc c st) = g_seq st + 1"
  "g_block (dispatch_entry t pc c st) = (if known c k_dser then Some (g_seq st + 1, t) else g_block st)"
  by (simp_all add: dispatch_entry_def Let_def)

lemma dispatch_one_result:
  assumes "dispatch_one t pc c gone st = Inr st'"
  obtains (gone) "gone" "g_inflight st' = g_inflight st" "g_seq st' = g_seq st" "g_block st' = g_block st"
  | (entered) e where "\<not> gone" "g_inflight st' = g_inflight st @ [e]" "g_seq st' = g_seq st + 1"
      "g_block st' = (if known c k_dser then Some (g_seq st + 1, t) else g_block st)"
      "e_pc e = pc" "e_cycle e = t" "e_seq e = g_seq st + 1" "e_class e = c"
proof -
  obtain st1 where st1: "fetch_stops t pc c gone st = Inr st1"
    and rest: "(let order = g_order st1 + 1;
         st = st1\<lparr>g_order := order,
                 g_stream := drop (length (g_stream st1) - 31) (g_stream st1) @ [\<lparr>d_order = order, d_class = c, d_gone = gone, d_cycle = t, d_pc = pc\<rparr>]\<rparr>
     in if gone then dispatch_gone pc c st else Inr (dispatch_entry t pc c st)) = Inr st'"
    using assms by (auto simp: dispatch_one_def bindR_eq_Inr)
  note keep = fetch_stops_keeps [OF st1]
  show ?thesis
  proof (cases gone)
    case True
    then show ?thesis using rest keep that(1) by (auto simp: Let_def dest!: dispatch_gone_keeps)
  next
    case False
    then show ?thesis using rest keep that(2) by (auto simp: Let_def dispatch_entry_fields)
  qed
qed

text \<open>The dispatches of an event that enter the queue.\<close>

fun entered_from :: "int \<Rightarrow> nat \<Rightarrow> bool list \<Rightarrow> int list \<Rightarrow> (int \<times> int) list" where
  "entered_from t i removed [] = []"
| "entered_from t i removed (pc # pcs) =
     (if i < length removed \<and> removed ! i then [] else [(t, pc)]) @ entered_from t (i + 1) removed pcs"

definition class_at :: "rule_cfg \<Rightarrow> int \<Rightarrow> iclass option" where
  "class_at cfg pc = map_option (\<lambda>w. classify_word w (r_sru cfg)) (r_words cfg pc)"

lemma cls_all_result:
  "fst (cls_all cfg pcs st) = map (class_at cfg) pcs \<and> g_inflight (snd (cls_all cfg pcs st)) = g_inflight st \<and>
   g_seq (snd (cls_all cfg pcs st)) = g_seq st \<and> g_block (snd (cls_all cfg pcs st)) = g_block st"
proof (induction pcs arbitrary: st)
  case (Cons pc pcs)
  show ?case using Cons [of "snd (cls cfg pc st)"] cls_class [of cfg pc st]
    by (simp add: Let_def case_prod_beta class_at_def)
qed simp

lemma dispatch_one_inv:
  assumes "queue_inv cfg D lo st" "dispatch_one t pc (class_at cfg pc) gone st = Inr st'"
  shows "queue_inv cfg (D @ (if gone then [] else [(t, pc)])) lo st'"
  using assms(2)
proof (cases rule: dispatch_one_result)
  case gone
  then show ?thesis using assms(1) by (simp add: queue_inv_def)
next
  case (entered e)
  have old: "entry_of cfg (D @ [(t, pc)]) lo x" if "entry_of cfg D lo x" for x
    using that by (auto simp: entry_of_def nth_append)
  have "entry_of cfg (D @ [(t, pc)]) lo e"
    using assms(1) entered by (simp add: entry_of_def queue_inv_def class_at_def nat_add_distrib)
  then show ?thesis using assms(1) entered old
    by (auto simp: queue_inv_def sorted_wrt_append entry_of_def)
qed

lemma dispatch_all_inv:
  assumes "queue_inv cfg D lo st" "dispatch_all t i removed (zip pcs (map (class_at cfg) pcs)) st = Inr st'"
  shows "queue_inv cfg (D @ entered_from t i removed pcs) lo st'"
  using assms
proof (induction pcs arbitrary: i D st)
  case (Cons pc pcs)
  let ?g = "i < length removed \<and> removed ! i"
  from Cons.prems(2) obtain st1 where st1: "dispatch_one t pc (class_at cfg pc) ?g st = Inr st1"
    "dispatch_all t (i + 1) removed (zip pcs (map (class_at cfg) pcs)) st1 = Inr st'"
    by (auto simp: bindR_eq_Inr)
  have "queue_inv cfg (D @ (if ?g then [] else [(t, pc)])) lo st1"
    using dispatch_one_inv [OF Cons.prems(1) st1(1)] .
  from Cons.IH [OF this st1(2)] show ?case by (simp split: if_splits)
qed simp

lemma redirect_phase_keeps:
  "redirect_phase t st = Inr st' \<Longrightarrow> g_inflight st' = g_inflight st \<and> g_seq st' = g_seq st \<and> g_block st' = g_block st"
  by (auto simp: redirect_phase_def split: option.splits)

lemma serial_phase_keeps:
  "serial_phase t st = Inr st' \<Longrightarrow> g_block st = None \<and> g_inflight st' = g_inflight st \<and> g_seq st' = g_seq st \<and> g_block st' = None"
  by (auto simp: serial_phase_def)

lemma pair_phase_keeps:
  "pair_phase cs st = Inr st' \<Longrightarrow> g_inflight st' = g_inflight st \<and> g_seq st' = g_seq st \<and> g_block st' = g_block st"
  by (auto simp: pair_phase_def Let_def split: list.splits option.splits if_splits)

definition entered :: "trace_event \<Rightarrow> (int \<times> int) list" where
  "entered v = entered_from (v_cycle v) 0 (v_removed v) (v_dispatched v)"

text \<open>The dispatch phase: the queue before the first dispatch, then the dispatches.\<close>

lemma dispatch_phase_result:
  assumes "dispatch_phase cfg t pcs removed st = Inr st'"
  obtains st1 st2 where "g_inflight st1 = g_inflight st" "g_seq st1 = g_seq st" "g_block st1 = g_block st"
    "pcs \<noteq> [] \<Longrightarrow> g_block st1 = None" "pair_phase (map (class_at cfg) pcs) st2 = Inr st1"
    "dispatch_all t 0 removed (zip pcs (map (class_at cfg) pcs)) st1 = Inr st'"
proof (cases "pcs = []")
  case True
  then show ?thesis using assms that [of st st] by (auto simp: dispatch_phase_def pair_phase_def)
next
  case False
  then obtain a b where ab: "redirect_phase t st = Inr a" "serial_phase t a = Inr b"
    and rest: "(let (cs, st) = cls_all cfg pcs b in
     bindR (pair_phase cs st) (dispatch_all t 0 removed (zip pcs cs))) = Inr st'"
    using assms by (auto simp: dispatch_phase_def bindR_eq_Inr)
  let ?c = "snd (cls_all cfg pcs b)"
  obtain d where d: "pair_phase (map (class_at cfg) pcs) ?c = Inr d" "dispatch_all t 0 removed (zip pcs (map (class_at cfg) pcs)) d = Inr st'"
    using rest cls_all_result [of cfg pcs b] by (auto simp: Let_def case_prod_beta bindR_eq_Inr)
  show ?thesis
    using that [of d ?c] d redirect_phase_keeps [OF ab(1)] serial_phase_keeps [OF ab(2)] pair_phase_keeps [OF d(1)]
      cls_all_result [of cfg pcs b] by simp
qed

section \<open>Recovery\<close>

lemma mispredict_floor_keeps:
  "mispredict_floor cfg t b st = Inr st' \<Longrightarrow> g_inflight st' = g_inflight st \<and> g_seq st' = g_seq st \<and> g_block st' = g_block st"
  by (auto simp: mispredict_floor_def Let_def split: option.splits if_splits)

lemma wrong_path_from_keeps:
  "wrong_path_from cfg t b st = Inr st' \<Longrightarrow> g_inflight st' = g_inflight st \<and> g_seq st' = g_seq st \<and> g_block st' = g_block st"
  by (auto simp: wrong_path_from_def Let_def bindR_eq_Inr dest!: mispredict_floor_keeps)

lemma wrong_path_keeps:
  "wrong_path cfg t n after st = Inr st' \<Longrightarrow> g_inflight st' = g_inflight st \<and> g_seq st' = g_seq st \<and> g_block st' = g_block st"
  by (auto simp: wrong_path_def bindR_eq_Inr dest!: wrong_path_from_keeps split: option.splits if_splits)

text \<open>Recovery changes flags only.\<close>

lemma recovery_phase_result:
  assumes "recovery_phase cfg t mispredict after st = Inr st'"
  obtains n flag where "g_inflight st' = take n (g_inflight st) @ map (\<lambda>e. e\<lparr>e_flag := flag\<rparr>) (drop n (g_inflight st))" "flag \<noteq> Present"
    "g_seq st' = g_seq st" "g_block st' = g_block st"
proof -
  let ?n = "case mispredict of Some n \<Rightarrow> n | None \<Rightarrow> 0" and ?flag = "if after = None then Flushed else BehindRemoved"
  obtain st1 where eq: "(if mispredict \<noteq> None then bindR (wrong_path cfg t ?n after st) (\<lambda>st. Inr (st\<lparr>g_lr_waits := []\<rparr>)) else Inr st) = Inr st1"
    and st': "st' = mark_removed ?n ?flag st1"
    using assms unfolding recovery_phase_def Let_def require_Inr bindR_eq_Inr by blast
  have st1: "g_inflight st1 = g_inflight st" "g_seq st1 = g_seq st" "g_block st1 = g_block st"
    using eq by (cases mispredict; auto simp: bindR_eq_Inr dest!: wrong_path_keeps)+
  show ?thesis
    by (rule that [of "nat (int (length (g_inflight st)) - ?n)" ?flag]) (use st1 in \<open>simp_all add: st' mark_removed_def Let_def\<close>)
qed

lemma recovery_inv:
  assumes "queue_inv cfg D lo st" "recovery_phase cfg t mispredict after st = Inr st'"
  shows "queue_inv cfg D lo st'"
  using assms(2)
proof (rule recovery_phase_result)
  fix n flag
  assume q: "g_inflight st' = take n (g_inflight st) @ map (\<lambda>e. e\<lparr>e_flag := flag\<rparr>) (drop n (g_inflight st))" "g_seq st' = g_seq st"
  have "map e_seq (g_inflight st') = map e_seq (take n (g_inflight st) @ drop n (g_inflight st))"
    by (simp add: q(1) comp_def del: append_take_drop_id)
  then have "map e_seq (g_inflight st') = map e_seq (g_inflight st)" by simp
  moreover have "entry_of cfg D lo e" if "e \<in> set (g_inflight st')" for e
    using that assms(1) by (auto simp: q(1) queue_inv_def entry_of_def dest!: in_set_takeD in_set_dropD)
  ultimately show ?thesis using assms(1) q(2) by (simp add: queue_inv_def)
qed

lemma occupancy_keeps:
  "occupancy st = Inr st' \<Longrightarrow> g_inflight st' = g_inflight st \<and> g_seq st' = g_seq st \<and> g_block st' = g_block st"
  by (auto simp: occupancy_def Let_def)

section \<open>Occupancy\<close>

definition within_buffers :: "rules \<Rightarrow> bool" where
  "within_buffers st \<longleftrightarrow>
     int (length (filter live (g_inflight st))) \<le> CQ_DEPTH \<and>
     destinations 0 (g_inflight st) \<le> GPR_RENAMES \<and> destinations 2 (g_inflight st) \<le> FPR_RENAMES"

lemma occupancy_within: "occupancy st = Inr st' \<Longrightarrow> within_buffers st"
  by (auto simp: occupancy_def within_buffers_def Let_def)

lemma destinations_take:
  assumes "\<forall>e \<in> set es. \<forall>c. e_class e = Some c \<longrightarrow> 0 \<le> k_writes c ! k"
  shows "destinations k (take n es) \<le> destinations k es"
proof -
  have "destinations k es = destinations k (take n es) + destinations k (drop n es)"
    unfolding destinations_def by (subst append_take_drop_id [of n es, symmetric]) (simp del: append_take_drop_id)
  moreover have "0 \<le> destinations k (drop n es)"
    unfolding destinations_def using assms by (intro sum_list_nonneg) (auto dest: in_set_dropD split: option.splits)
  ultimately show ?thesis by simp
qed

lemma recovery_within:
  assumes within: "within_buffers st" and inv: "queue_inv cfg D lo st" and rec: "recovery_phase cfg t m after st = Inr st'"
  shows "within_buffers st'"
  using rec
proof (rule recovery_phase_result)
  fix n flag
  assume q: "g_inflight st' = take n (g_inflight st) @ map (\<lambda>e. e\<lparr>e_flag := flag\<rparr>) (drop n (g_inflight st))" "flag \<noteq> Present"
  have live: "filter live (g_inflight st') = filter live (take n (g_inflight st))"
    using q(2) by (simp add: q(1) filter_map comp_def live_def)
  have nonneg: "0 \<le> k_writes c ! k" if "e \<in> set (g_inflight st)" "e_class e = Some c" "k < 5" for e c k
  proof -
    have "entry_of cfg D lo e" using that(1) inv by (simp add: queue_inv_def)
    then have "Some c = map_option (\<lambda>w. classify_word w (r_sru cfg)) (r_words cfg (e_pc e))"
      using that(2) unfolding entry_of_def by metis
    then have "writes_ok c" by (cases "r_words cfg (e_pc e)") (simp_all add: classify_writes)
    then show ?thesis using that(3) by (simp add: writes_ok_def)
  qed
  have "length (filter live (take n (g_inflight st))) \<le> length (filter live (g_inflight st))"
    by (metis append_take_drop_id filter_append le_add1 length_append)
  moreover have "destinations k (g_inflight st') \<le> destinations k (g_inflight st)" if "k < 5" for k
    using destinations_take [of "g_inflight st" k n] nonneg that live by (simp add: destinations_def)
  ultimately show ?thesis
    using within live order_trans [of "destinations 0 (g_inflight st')" "destinations 0 (g_inflight st)" GPR_RENAMES]
      order_trans [of "destinations 2 (g_inflight st')" "destinations 2 (g_inflight st)" FPR_RENAMES]
    by (simp add: within_buffers_def)
qed

section \<open>Whole traces\<close>

definition retirements :: "trace_event \<Rightarrow> (int \<times> int) list" where
  "retirements v = map (Pair (v_cycle v)) (v_retired v)"

text \<open>The four phases of an event.\<close>

lemma check_event_phases:
  assumes "check_event cfg v st = Inr st'"
  obtains st0 st1 st2 st3 where "g_inflight st0 = g_inflight st" "g_seq st0 = g_seq st" "g_block st0 = g_block st"
    "length (v_dispatched v) \<le> r_width cfg" "length (v_retired v) \<le> r_width cfg"
    "retire_phase cfg (v_cycle v) (v_retired v) st0 = Inr st1"
    "dispatch_phase cfg (v_cycle v) (v_dispatched v) (v_removed v) st1 = Inr st2"
    "occupancy st2 = Inr st3" "recovery_phase cfg (v_cycle v) (v_mispredict v) (v_after v) st3 = Inr st'"
proof -
  let ?st0 = "count_stat (\<lambda>s. s\<lparr>n_cycles := v_cycle v\<rparr>) st"
  obtain st1 st2 st3 where "length (v_dispatched v) \<le> r_width cfg" "length (v_retired v) \<le> r_width cfg"
    "retire_phase cfg (v_cycle v) (v_retired v) ?st0 = Inr st1"
    "dispatch_phase cfg (v_cycle v) (v_dispatched v) (v_removed v) st1 = Inr st2"
    "occupancy st2 = Inr st3" "recovery_phase cfg (v_cycle v) (v_mispredict v) (v_after v) st3 = Inr st'"
    using assms unfolding check_event_def Let_def require_Inr bindR_eq_Inr by blast
  then show ?thesis using that [of ?st0 st1 st2 st3] by simp
qed

lemma check_event_inv:
  assumes inv: "queue_inv cfg D lo st" and step: "check_event cfg v st = Inr st'"
  shows "\<exists>ks lo'. queue_inv cfg (D @ entered v) lo' st' \<and> in_order cfg D lo (retirements v) ks lo' \<and> within_buffers st'"
  using step
proof (rule check_event_phases)
  fix st0 st1 st2 st3
  assume q0: "g_inflight st0 = g_inflight st" "g_seq st0 = g_seq st"
    and r: "retire_phase cfg (v_cycle v) (v_retired v) st0 = Inr st1"
    and d: "dispatch_phase cfg (v_cycle v) (v_dispatched v) (v_removed v) st1 = Inr st2"
    and o: "occupancy st2 = Inr st3" and rec: "recovery_phase cfg (v_cycle v) (v_mispredict v) (v_after v) st3 = Inr st'"
  have inv0: "queue_inv cfg D lo st0" using inv q0 by (simp add: queue_inv_def)
  obtain cs a where a: "retire_all cfg (v_cycle v) 0 (v_retired v) st0 = Inr (cs, a)" "g_inflight st1 = g_inflight a" "g_seq st1 = g_seq a"
    using retire_phase_result [OF r] by metis
  obtain ks lo' where ks: "queue_inv cfg D lo' a" "in_order cfg D lo (retirements v) ks lo'"
    using retire_all_inv [OF inv0 a(1)] unfolding retirements_def by blast
  obtain b where b: "g_inflight b = g_inflight st1" "g_seq b = g_seq st1"
    "dispatch_all (v_cycle v) 0 (v_removed v) (zip (v_dispatched v) (map (class_at cfg) (v_dispatched v))) b = Inr st2"
    using dispatch_phase_result [OF d] by metis
  have "queue_inv cfg D lo' b" using ks(1) a b by (simp add: queue_inv_def)
  then have "queue_inv cfg (D @ entered v) lo' st2" using dispatch_all_inv [OF _ b(3)] by (simp add: entered_def)
  then have "queue_inv cfg (D @ entered v) lo' st3" using occupancy_keeps [OF o] by (simp add: queue_inv_def)
  moreover have "within_buffers st3" using occupancy_within [OF o] occupancy_keeps [OF o] by (simp add: within_buffers_def)
  ultimately show ?thesis using recovery_inv [OF _ rec] recovery_within [OF _ _ rec] ks(2) by blast
qed

lemma check_events_inv:
  assumes "queue_inv cfg D lo st" "check_events cfg p vs st = Inr st'"
  shows "\<exists>ks lo'. queue_inv cfg (D @ concat (map entered vs)) lo' st' \<and>
    in_order cfg (D @ concat (map entered vs)) lo (concat (map retirements vs)) ks lo'"
  using assms
proof (induction vs arbitrary: p st D lo)
  case Nil
  then have "queue_inv cfg (D @ concat (map entered [])) lo st' \<and>
      in_order cfg (D @ concat (map entered [])) lo (concat (map retirements [])) [] lo"
    by (simp add: in_order_def)
  then show ?case by blast
next
  case (Cons v vs)
  from Cons.prems(2) obtain st1 where st1: "check_event cfg v st = Inr st1" "check_events cfg (v_cycle v) vs st1 = Inr st'"
    by (auto simp: bindR_eq_Inr)
  obtain ks mid where ks: "queue_inv cfg (D @ entered v) mid st1" "in_order cfg D lo (retirements v) ks mid"
    using check_event_inv [OF Cons.prems(1) st1(1)] by blast
  obtain ks' lo' where ks': "queue_inv cfg ((D @ entered v) @ concat (map entered vs)) lo' st'"
    "in_order cfg ((D @ entered v) @ concat (map entered vs)) mid (concat (map retirements vs)) ks' lo'"
    using Cons.IH [OF ks(1) st1(2)] by blast
  have "in_order cfg ((D @ entered v) @ concat (map entered vs)) lo (retirements v) ks mid"
    using in_order_extend [OF ks(2), of "entered v @ concat (map entered vs)"] by simp
  from in_order_append [OF this ks'(2)] ks'(1) show ?case by auto
qed

lemma queue_inv_init: "queue_inv cfg [] 0 rules_init"
  by (simp add: queue_inv_def rules_init_def)

lemma check_rules_events:
  assumes "is_ok (check_rules cfg vs)"
  obtains st where "check_events cfg (- 1) vs rules_init = Inr st"
  using assms by (auto simp: check_rules_def is_ok_iff bindR_eq_Inr)

lemma check_events_take:
  "check_events cfg p vs st = Inr st' \<Longrightarrow> \<exists>st1. check_events cfg p (take n vs) st = Inr st1"
proof (induction vs arbitrary: p st n)
  case (Cons v vs)
  then show ?case by (cases n) (auto simp: bindR_eq_Inr)
qed simp

text \<open>
  C31: program order.  In every accepted trace each retirement is a part of a multiple
  instruction or the retirement of one dispatched instruction, in an earlier cycle; the
  numbers of the retired instructions strictly increase, so they retire in dispatch order
  and at most once.
\<close>

lemma accepted_in_program_order:
  assumes "is_ok (check_rules cfg vs)"
  shows "\<exists>ks. list_all2 (retires cfg (concat (map entered vs))) (concat (map retirements vs)) ks \<and> sorted_wrt (<) (somes ks)"
proof -
  obtain st where "check_events cfg (- 1) vs rules_init = Inr st" using check_rules_events [OF assms] .
  from check_events_inv [OF queue_inv_init this] show ?thesis by (auto simp: in_order_def)
qed

text \<open>Two additions of four bytes each, dispatched together and retired together.\<close>

definition sample_rules :: rule_cfg where
  "sample_rules = \<lparr>r_width = 2, r_words = [0 \<mapsto> 0x38600001, 4 \<mapsto> 0x38830001], r_sru = True, r_flush = False\<rparr>"

definition sample_trace :: "trace_event list" where
  "sample_trace =
     [\<lparr>v_cycle = 1, v_dispatched = [0, 4], v_retired = [], v_mispredict = None, v_removed = [False, False], v_after = None\<rparr>,
      \<lparr>v_cycle = 3, v_dispatched = [], v_retired = [0, 4], v_mispredict = None, v_removed = [], v_after = None\<rparr>]"

lemma sample_accepted: "is_ok (check_rules sample_rules sample_trace)"
  by code_simp

lemma accepted_in_program_order_witness:
  "\<exists>ks. list_all2 (retires sample_rules (concat (map entered sample_trace))) (concat (map retirements sample_trace)) ks \<and>
     sorted_wrt (<) (somes ks)"
  by (rule accepted_in_program_order [OF sample_accepted])

lemma check_events_within:
  assumes "queue_inv cfg D lo st" "within_buffers st" "check_events cfg p vs st = Inr st'"
  shows "within_buffers st'"
  using assms
proof (induction vs arbitrary: p st D lo)
  case (Cons v vs)
  from Cons.prems(3) obtain st1 where st1: "check_event cfg v st = Inr st1" "check_events cfg (v_cycle v) vs st1 = Inr st'"
    by (auto simp: bindR_eq_Inr)
  obtain lo' where inv: "queue_inv cfg (D @ entered v) lo' st1" and "within_buffers st1"
    using check_event_inv [OF Cons.prems(1) st1(1)] by blast
  then show ?case using Cons.IH [OF inv _ st1(2)] by blast
qed simp

text \<open>
  C32: the machine's limits.  At every point of an accepted trace the live instructions in the
  completion queue are at most five, with at most five general and four floating-point
  destinations.
\<close>

lemma accepted_within_buffers:
  assumes "is_ok (check_rules cfg vs)"
  shows "\<exists>st. check_events cfg (- 1) (take n vs) rules_init = Inr st \<and>
    length (filter live (g_inflight st)) \<le> 5 \<and> destinations 0 (g_inflight st) \<le> 5 \<and> destinations 2 (g_inflight st) \<le> 4"
proof -
  obtain st' where "check_events cfg (- 1) vs rules_init = Inr st'" using check_rules_events [OF assms] .
  then obtain st where st: "check_events cfg (- 1) (take n vs) rules_init = Inr st" using check_events_take by blast
  have "within_buffers rules_init"
    by (simp add: within_buffers_def rules_init_def destinations_def CQ_DEPTH_def GPR_RENAMES_def FPR_RENAMES_def)
  from check_events_within [OF queue_inv_init this st] st show ?thesis
    by (simp add: within_buffers_def CQ_DEPTH_def GPR_RENAMES_def FPR_RENAMES_def)
qed

lemma accepted_within_buffers_witness:
  "\<exists>st. check_events sample_rules (- 1) (take 1 sample_trace) rules_init = Inr st \<and>
    length (filter live (g_inflight st)) \<le> 5 \<and> destinations 0 (g_inflight st) \<le> 5 \<and> destinations 2 (g_inflight st) \<le> 4"
  by (rule accepted_within_buffers [OF sample_accepted])

section \<open>Dispatch serialization\<close>

definition serial :: "entry \<Rightarrow> bool" where "serial e \<longleftrightarrow> known (e_class e) k_dser"

text \<open>A dispatch-serialized entry blocks dispatch, and nothing younger is in the queue.\<close>

definition serial_inv :: "rules \<Rightarrow> bool" where
  "serial_inv st \<longleftrightarrow>
     (\<forall>e \<in> set (g_inflight st). serial e \<longrightarrow> (\<exists>b. g_block st = Some b \<and> e_seq e \<le> fst b)) \<and>
     (\<forall>i. Suc i < length (g_inflight st) \<longrightarrow> \<not> serial (g_inflight st ! i))"

lemma retire_one_serial:
  assumes inv: "queue_inv cfg D lo st" "serial_inv st" and step: "retire_one cfg t i pc st = Inr (c, st')"
  shows "serial_inv st'"
  using step
proof (cases rule: retire_one_result)
  case micro
  then show ?thesis using inv by (simp add: serial_inv_def)
next
  case (retired k)
  have seqs: "sorted_wrt (<) (map e_seq (g_inflight st))" using inv(1) by (simp add: queue_inv_def)
  have "\<exists>b. g_block st' = Some b \<and> e_seq x \<le> fst b" if x: "x \<in> set (drop (Suc k) (g_inflight st))" "serial x" for x
  proof -
    obtain j where j: "x = g_inflight st ! j" "k < j" "j < length (g_inflight st)"
      using x(1) retired(1) by (auto simp: in_set_conv_nth)
    then have later: "e_seq (g_inflight st ! k) < e_seq x" using seqs by (auto simp: sorted_wrt_iff_nth_less)
    obtain s u where "g_block st = Some (s, u)" "e_seq x \<le> s"
      using inv(2) x in_set_dropD [OF x(1)] by (auto simp: serial_inv_def)
    then show ?thesis using later retired(7) by (simp add: block_after_def)
  qed
  then show ?thesis using inv(2) retired(5) by (auto simp: serial_inv_def)
qed

lemma retire_all_serial:
  "queue_inv cfg D lo st \<Longrightarrow> serial_inv st \<Longrightarrow> retire_all cfg t i pcs st = Inr (cs, st') \<Longrightarrow> serial_inv st'"
proof (induction pcs arbitrary: i st lo cs)
  case (Cons pc pcs)
  from Cons.prems(3) obtain c st1 cs' where one: "retire_one cfg t i pc st = Inr (c, st1)"
    and rest: "retire_all cfg t (i + 1) pcs st1 = Inr (cs', st')"
    by (auto simp: bindR_eq_Inr)
  obtain k lo' where "queue_inv cfg D lo' st1" using retire_one_inv [OF Cons.prems(1) one] by blast
  then show ?case using Cons.IH [OF _ retire_one_serial [OF Cons.prems(1,2) one] rest] by blast
qed simp

definition no_serial :: "rules \<Rightarrow> bool" where "no_serial st \<longleftrightarrow> (\<forall>e \<in> set (g_inflight st). \<not> serial e)"

lemma no_serial_inv: "no_serial st \<Longrightarrow> serial_inv st"
  by (simp add: no_serial_def serial_inv_def)

lemma dispatch_one_serial:
  assumes "no_serial st" "dispatch_one t pc c gone st = Inr st'"
  shows "serial_inv st'" "\<not> known c k_dser \<Longrightarrow> no_serial st'"
  using assms(2)
proof (atomize (full), cases rule: dispatch_one_result)
  case gone
  then have "no_serial st'" using assms(1) by (simp add: no_serial_def)
  then show "serial_inv st' \<and> (\<not> known c k_dser \<longrightarrow> no_serial st')" using no_serial_inv by blast
next
  case (entered e)
  then show "serial_inv st' \<and> (\<not> known c k_dser \<longrightarrow> no_serial st')"
    using assms(1) by (auto simp: serial_inv_def no_serial_def serial_def nth_append)
qed

lemma pair_phase_serial:
  assumes "pair_phase [Some a, Some b] st = Inr st'"
  shows "\<not> k_dser a" "\<not> k_dser b"
  using assms by (auto simp: pair_phase_def Let_def)

lemma dispatch_phase_serial:
  assumes inv: "serial_inv st" and step: "dispatch_phase cfg t pcs removed st = Inr st'"
    and two: "length pcs \<le> 2" and words: "\<forall>pc \<in> set pcs. r_words cfg pc \<noteq> None"
  shows "serial_inv st'"
  using step
proof (rule dispatch_phase_result)
  fix st1 st2
  assume q: "g_inflight st1 = g_inflight st" "g_seq st1 = g_seq st" "g_block st1 = g_block st"
    and free: "pcs \<noteq> [] \<Longrightarrow> g_block st1 = None" and pair: "pair_phase (map (class_at cfg) pcs) st2 = Inr st1"
    and d: "dispatch_all t 0 removed (zip pcs (map (class_at cfg) pcs)) st1 = Inr st'"
  have none: "no_serial st1" if "pcs \<noteq> []" using inv free [OF that] q by (auto simp: serial_inv_def no_serial_def)
  consider "pcs = []" | pc where "pcs = [pc]" | pc pd where "pcs = [pc, pd]"
    using two by (cases pcs rule: list.exhaust; cases "tl pcs") (auto simp: le_Suc_eq length_Suc_conv)
  then show ?thesis
  proof cases
    case 1
    then show ?thesis using inv q d by (simp add: serial_inv_def)
  next
    case (2 pc)
    then show ?thesis using d none dispatch_one_serial(1) by (auto simp: bindR_eq_Inr)
  next
    case (3 pc pd)
    obtain a b where ab: "class_at cfg pc = Some a" "class_at cfg pd = Some b" using words 3 by (auto simp: class_at_def)
    have dser: "\<not> k_dser a" "\<not> k_dser b" using pair_phase_serial pair 3 ab by auto
    from d 3 obtain m where m: "dispatch_one t pc (Some a) (0 < length removed \<and> removed ! 0) st1 = Inr m"
      "dispatch_one t pd (Some b) (1 < length removed \<and> removed ! 1) m = Inr st'"
      by (auto simp: bindR_eq_Inr ab)
    have "no_serial m" using dispatch_one_serial(2) [OF none m(1)] 3 dser by (simp add: known_def)
    then show ?thesis using dispatch_one_serial(1) [OF _ m(2)] by blast
  qed
qed

lemma check_event_serial:
  assumes inv: "queue_inv cfg D lo st" "serial_inv st" and step: "check_event cfg v st = Inr st'"
    and two: "r_width cfg \<le> 2" and words: "\<forall>pc \<in> set (v_dispatched v). r_words cfg pc \<noteq> None"
  shows "serial_inv st'"
  using step
proof (rule check_event_phases)
  fix st0 st1 st2 st3
  assume q0: "g_inflight st0 = g_inflight st" "g_seq st0 = g_seq st" "g_block st0 = g_block st"
    and r: "retire_phase cfg (v_cycle v) (v_retired v) st0 = Inr st1"
    and d: "dispatch_phase cfg (v_cycle v) (v_dispatched v) (v_removed v) st1 = Inr st2"
    and o: "occupancy st2 = Inr st3" and rec: "recovery_phase cfg (v_cycle v) (v_mispredict v) (v_after v) st3 = Inr st'"
    and w: "length (v_dispatched v) \<le> r_width cfg"
  have inv0: "queue_inv cfg D lo st0" "serial_inv st0" using inv q0 by (simp_all add: queue_inv_def serial_inv_def)
  obtain cs a where a: "retire_all cfg (v_cycle v) 0 (v_retired v) st0 = Inr (cs, a)" "g_inflight st1 = g_inflight a" "g_block st1 = g_block a"
    using retire_phase_result [OF r] by metis
  have "serial_inv st1" using retire_all_serial [OF inv0 a(1)] a(2,3) by (simp add: serial_inv_def)
  then have "serial_inv st2" using dispatch_phase_serial [OF _ d] two w words by simp
  then have s3: "serial_inv st3" using occupancy_keeps [OF o] by (simp add: serial_inv_def)
  show ?thesis using rec
  proof (rule recovery_phase_result)
    fix n flag
    assume q: "g_inflight st' = take n (g_inflight st3) @ map (\<lambda>e. e\<lparr>e_flag := flag\<rparr>) (drop n (g_inflight st3))"
      "g_block st' = g_block st3"
    have same: "length (g_inflight st') = length (g_inflight st3)"
      "serial (g_inflight st' ! i) = serial (g_inflight st3 ! i) \<and> e_seq (g_inflight st' ! i) = e_seq (g_inflight st3 ! i)"
      if "i < length (g_inflight st3)" for i
      using that by (simp_all add: q(1) nth_append serial_def min_def)
    have len: "length (g_inflight st') = length (g_inflight st3)" by (simp add: q(1))
    show ?thesis using s3 same(2) len q(2) unfolding serial_inv_def all_set_conv_all_nth by (metis Suc_lessD)
  qed
qed

lemma check_events_serial:
  assumes "queue_inv cfg D lo st" "serial_inv st" "check_events cfg p vs st = Inr st'" "r_width cfg \<le> 2"
    "\<forall>v \<in> set vs. \<forall>pc \<in> set (v_dispatched v). r_words cfg pc \<noteq> None"
  shows "serial_inv st'"
  using assms
proof (induction vs arbitrary: p st D lo)
  case (Cons v vs)
  from Cons.prems(3) obtain st1 where st1: "check_event cfg v st = Inr st1" "check_events cfg (v_cycle v) vs st1 = Inr st'"
    by (auto simp: bindR_eq_Inr)
  obtain lo' where inv: "queue_inv cfg (D @ entered v) lo' st1" using check_event_inv [OF Cons.prems(1) st1(1)] by blast
  have "serial_inv st1" using check_event_serial [OF Cons.prems(1,2) st1(1) Cons.prems(4)] Cons.prems(5) by simp
  then show ?case using Cons.IH [OF inv _ st1(2) Cons.prems(4)] Cons.prems(5) by simp
qed simp

text \<open>
  dispatch serialization.  With every dispatched word known and at most two dispatches
  a cycle, at every point of an accepted trace a dispatch-serialized instruction is the
  youngest entry of the completion queue: nothing is dispatched behind it before it retires.
\<close>

lemma accepted_serialized_youngest:
  assumes "is_ok (check_rules cfg vs)" "r_width cfg \<le> 2"
    and "\<forall>v \<in> set vs. \<forall>pc \<in> set (v_dispatched v). r_words cfg pc \<noteq> None"
  shows "\<exists>st. check_events cfg (- 1) (take n vs) rules_init = Inr st \<and>
    (\<forall>i. Suc i < length (g_inflight st) \<longrightarrow> \<not> known (e_class (g_inflight st ! i)) k_dser)"
proof -
  obtain st' where "check_events cfg (- 1) vs rules_init = Inr st'" using check_rules_events [OF assms(1)] .
  then obtain st where st: "check_events cfg (- 1) (take n vs) rules_init = Inr st" using check_events_take by blast
  have "serial_inv rules_init" by (simp add: serial_inv_def rules_init_def)
  from check_events_serial [OF queue_inv_init this st assms(2)] assms(3) st show ?thesis
    by (auto simp: serial_inv_def serial_def dest: in_set_takeD)
qed

lemma accepted_serialized_youngest_witness:
  "\<exists>st. check_events sample_rules (- 1) (take 1 sample_trace) rules_init = Inr st \<and>
    (\<forall>i. Suc i < length (g_inflight st) \<longrightarrow> \<not> known (e_class (g_inflight st ! i)) k_dser)"
  by (rule accepted_serialized_youngest [OF sample_accepted]) (simp_all add: sample_rules_def sample_trace_def)

end
