(* ===== verification/Stage_Timing.thy ===== *)
theory Stage_Timing
  imports Dict
begin

text \<open>
  \<open>sim/tools/check_stage_timing.py\<close>: \<open>check_trace\<close>, the edge-by-edge checker of a trace of the
  integer unit, with the subset decoder \<open>decode\<close> it recomputes operands and results with.
  A row of the trace is one clock edge; what happens on an edge is simultaneous and is checked
  in the order finish, retire, issue, dispatch, release.  The records that the code shares
  between \<open>live\<close> and \<open>history\<close> are kept in \<open>history\<close>; \<open>live\<close> is the list of its keys, in
  insertion order.  A failed \<open>require\<close> is a \<open>ValueError\<close> that carries the message without the
  edge number; a lookup that would raise a \<open>KeyError\<close> is modelled as such, and shown never
  to happen.
\<close>

section \<open>Trace rows\<close>

record stage_packet =
  sp_id :: int
  sp_pc :: int
  sp_insn :: int
  sp_gpr :: int
  sp_value :: int

record stage_finish =
  sf_id :: int
  sf_value :: int

record stage_issue =
  si_id :: int
  si_a :: int
  si_b :: int

record stage_dispatch =
  sd_id :: int
  sd_pc :: int
  sd_insn :: int

record stage_row =
  sr_edge :: int
  sr_cq_count :: int
  sr_rename_count :: int
  sr_finish :: "stage_finish option"
  sr_retire :: "stage_packet option"
  sr_retire_ready :: bool
  sr_issue :: "stage_issue option"
  sr_dispatch :: "stage_dispatch option"

section \<open>The subset decoder\<close>

definition STAGE_FORMS :: "string set" where
  "STAGE_FORMS = {''addi'', ''addis'', ''ori'', ''oris'', ''xori'', ''xoris'', ''add''}"

definition stage_require :: "bool \<Rightarrow> string \<Rightarrow> 'a result \<Rightarrow> 'a result" where
  "stage_require cond msg rest = (if cond then rest else Inl (ValueError msg))"

text \<open>Form, destination, the two source registers and the immediate.\<close>

type_synonym stage_insn = "string \<times> int \<times> int option list \<times> int option"

definition stage_decode :: "int \<Rightarrow> stage_insn result" where
  "stage_decode word =
     (let opc = drop_bit 26 word;
          rt = drop_bit 21 word AND 31;
          ra = drop_bit 16 word AND 31;
          rb = drop_bit 11 word AND 31;
          imm = word AND 65535
      in if opc = 14 \<or> opc = 15 then
           let imm = (if opc = 14 then (if imm AND 32768 \<noteq> 0 then imm - 65536 else imm) else push_bit 16 imm)
           in Inr (if opc = 14 then ''addi'' else ''addis'', rt, [if ra = 0 then None else Some ra, None],
                   Some (imm AND 0xFFFFFFFF))
         else if opc \<in> {24, 25, 26, 27} then
           Inr (if opc = 24 then ''ori'' else if opc = 25 then ''oris'' else if opc = 26 then ''xori'' else ''xoris'',
                ra, [Some rt, None], Some (push_bit (if opc AND 1 \<noteq> 0 then 16 else 0) imm))
         else stage_require (opc = 31 \<and> drop_bit 1 word AND 1023 = 266 \<and> word AND 1 = 0) ''unsupported instruction form''
                (Inr (''add'', rt, [Some ra, Some rb], None)))"

section \<open>State of the checker\<close>

record stage_rec =
  v_dispatch :: int
  v_deps :: "int list"
  v_operands :: "int list"
  v_value :: int
  v_packet :: stage_packet
  v_issue :: "int option"
  v_finish :: "int option"

record stage_stats =
  c_dispatch :: int
  c_issue :: int
  c_finish :: int
  c_retire :: int
  c_retire_stall_edges :: int
  c_pending_raw :: int
  c_same_edge_raw_issue :: int
  c_earliest_issue :: int
  c_earliest_retire :: int
  c_full_edges :: int

record stage_state =
  t_live :: "int list"
  t_history :: "int \<rightharpoonup> stage_rec"
  t_latest :: "int \<rightharpoonup> int"
  t_order :: "int list"
  t_registers :: "int list"
  t_last_edge :: "int option"
  t_stalled :: "stage_packet option"
  t_forms :: "string set"
  t_stats :: stage_stats

definition stage_init :: stage_state where
  "stage_init =
     \<lparr>t_live = [], t_history = Map.empty, t_latest = Map.empty, t_order = [], t_registers = replicate 32 0,
      t_last_edge = None, t_stalled = None, t_forms = {},
      t_stats = \<lparr>c_dispatch = 0, c_issue = 0, c_finish = 0, c_retire = 0, c_retire_stall_edges = 0, c_pending_raw = 0,
        c_same_edge_raw_issue = 0, c_earliest_issue = 0, c_earliest_retire = 0, c_full_edges = 0\<rparr>\<rparr>"

definition stage_count :: "(stage_stats \<Rightarrow> stage_stats) \<Rightarrow> stage_state \<Rightarrow> stage_state" where
  "stage_count f st = st\<lparr>t_stats := f (t_stats st)\<rparr>"

text \<open>\<open>live[ident]\<close>, where \<open>None\<close> means that the key is missing.\<close>

definition live_rec :: "stage_state \<Rightarrow> int \<Rightarrow> stage_rec option" where
  "live_rec st k = (if k \<in> set (t_live st) then t_history st k else None)"

definition set_rec :: "int \<Rightarrow> stage_rec \<Rightarrow> stage_state \<Rightarrow> stage_state" where
  "set_rec k r st = st\<lparr>t_history := (t_history st)(k \<mapsto> r)\<rparr>"

section \<open>One edge\<close>

definition edge_phase :: "stage_row \<Rightarrow> stage_state \<Rightarrow> stage_state result" where
  "edge_phase row st =
     stage_require (case t_last_edge st of None \<Rightarrow> True | Some l \<Rightarrow> sr_edge row = l + 1) ''edge sequence''
       (let st = st\<lparr>t_last_edge := Some (sr_edge row)\<rparr>;
            n = int (length (t_order st))
        in stage_require (sr_cq_count row = n \<and> n = sr_rename_count row) ''resource occupancy/release''
             (Inr (stage_count (\<lambda>s. s\<lparr>c_full_edges := c_full_edges s + of_bool (n = 5)\<rparr>) st)))"

definition finish_phase :: "stage_row \<Rightarrow> stage_state \<Rightarrow> stage_state result" where
  "finish_phase row st =
     (case sr_finish row of
        None \<Rightarrow> Inr st
      | Some f \<Rightarrow>
          (case live_rec st (sf_id f) of
             None \<Rightarrow> Inl (ValueError ''invalid/duplicate finish'')
           | Some r \<Rightarrow>
               (case (v_issue r, v_finish r) of
                  (Some i, None) \<Rightarrow>
                    stage_require (sr_edge row = i + 1) ''issue-to-finish distance''
                      (stage_require (sf_value f = v_value r) ''result value''
                        (Inr (stage_count (\<lambda>s. s\<lparr>c_finish := c_finish s + 1\<rparr>)
                               (set_rec (sf_id f) (r\<lparr>v_finish := Some (sr_edge row)\<rparr>) st))))
                | _ \<Rightarrow> Inl (ValueError ''invalid/duplicate finish''))))"

definition retire_check :: "stage_row \<Rightarrow> stage_state \<Rightarrow> unit result" where
  "retire_check row st =
     stage_require (t_stalled st = None \<or> sr_retire row = t_stalled st) ''stalled retirement changed''
       (case sr_retire row of
          Some p \<Rightarrow>
            stage_require (t_order st \<noteq> [] \<and> sp_id p = hd (t_order st)) ''retirement not oldest''
              (bindR (py_key (live_rec st (sp_id p))) (\<lambda>r.
                stage_require (case v_finish r of None \<Rightarrow> False | Some e \<Rightarrow> e \<le> sr_edge row) ''retirement before finish''
                  (stage_require (p = v_packet r) ''retirement payload'' (Inr ()))))
        | None \<Rightarrow>
            (case t_order st of
               [] \<Rightarrow> Inr ()
             | k # _ \<Rightarrow>
                 bindR (py_key (live_rec st k)) (\<lambda>r.
                   stage_require (v_finish r = None) ''finished head withheld retirement valid'' (Inr ()))))"

definition stall_phase :: "stage_row \<Rightarrow> stage_state \<Rightarrow> stage_state" where
  "stall_phase row st =
     (let s = (if sr_retire_ready row then None else sr_retire row)
      in stage_count (\<lambda>c. c\<lparr>c_retire_stall_edges := c_retire_stall_edges c + of_bool (s \<noteq> None)\<rparr>) (st\<lparr>t_stalled := s\<rparr>))"

text \<open>Every producer has finished; the count of those that finish on this very edge.\<close>

fun deps_finished :: "(int \<rightharpoonup> stage_rec) \<Rightarrow> int \<Rightarrow> int list \<Rightarrow> unit result" where
  "deps_finished h edge [] = Inr ()"
| "deps_finished h edge (p # ps) =
     bindR (py_key (h p)) (\<lambda>r.
       stage_require (case v_finish r of None \<Rightarrow> False | Some e \<Rightarrow> e \<le> edge) ''RAW issued before finish''
         (deps_finished h edge ps))"

definition any_finish_at :: "(int \<rightharpoonup> stage_rec) \<Rightarrow> int \<Rightarrow> int list \<Rightarrow> bool" where
  "any_finish_at h edge ps = list_ex (\<lambda>p. case h p of None \<Rightarrow> False | Some r \<Rightarrow> v_finish r = Some edge) ps"

definition issue_phase :: "stage_row \<Rightarrow> stage_state \<Rightarrow> stage_state result" where
  "issue_phase row st =
     (case sr_issue row of
        None \<Rightarrow> Inr st
      | Some i \<Rightarrow>
          (case live_rec st (si_id i) of
             None \<Rightarrow> Inl (ValueError ''invalid/duplicate issue'')
           | Some r \<Rightarrow>
               stage_require (v_issue r = None) ''invalid/duplicate issue''
                 (stage_require (sr_edge row \<ge> v_dispatch r + 1) ''dispatch-to-issue distance''
                   (bindR (deps_finished (t_history st) (sr_edge row) (v_deps r)) (\<lambda>_.
                     let same = any_finish_at (t_history st) (sr_edge row) (v_deps r)
                     in stage_require ([si_a i, si_b i] = v_operands r) ''issue operands''
                          (Inr (stage_count
                                 (\<lambda>s. s\<lparr>c_same_edge_raw_issue := c_same_edge_raw_issue s + of_bool same,
                                        c_earliest_issue := c_earliest_issue s + of_bool (sr_edge row = v_dispatch r + 1),
                                        c_issue := c_issue s + 1\<rparr>)
                                 (set_rec (si_id i) (r\<lparr>v_issue := Some (sr_edge row)\<rparr>) st))))))))"

text \<open>\<open>any('finish' not in history[p] for p in deps)\<close>\<close>

fun any_pending :: "(int \<rightharpoonup> stage_rec) \<Rightarrow> int list \<Rightarrow> bool result" where
  "any_pending h [] = Inr False"
| "any_pending h (p # ps) = bindR (py_key (h p)) (\<lambda>r. if v_finish r = None then Inr True else any_pending h ps)"

definition stage_deps :: "(int \<rightharpoonup> int) \<Rightarrow> int option list \<Rightarrow> int list" where
  "stage_deps latest sources = List.map_filter (\<lambda>s. case s of None \<Rightarrow> None | Some r \<Rightarrow> latest r) sources"

fun stage_operands :: "int list \<Rightarrow> int option list \<Rightarrow> int list result" where
  "stage_operands regs [] = Inr []"
| "stage_operands regs (s # ss) =
     bindR (case s of None \<Rightarrow> Inr 0 | Some r \<Rightarrow> py_get regs r) (\<lambda>v.
       bindR (stage_operands regs ss) (\<lambda>vs. Inr (v # vs)))"

definition with_imm :: "int option \<Rightarrow> int list \<Rightarrow> int list" where
  "with_imm imm ops = (case imm of None \<Rightarrow> ops | Some i \<Rightarrow> ops[1 := i])"

definition stage_value :: "string \<Rightarrow> int list \<Rightarrow> int" where
  "stage_value form ops =
     (if take 3 form = ''xor'' then ops ! 0 XOR ops ! 1
      else if take 2 form = ''or'' then ops ! 0 OR ops ! 1
      else ops ! 0 + ops ! 1) AND 0xFFFFFFFF"

definition dispatch_stage :: "stage_row \<Rightarrow> stage_state \<Rightarrow> stage_state result" where
  "dispatch_stage row st =
     (case sr_dispatch row of
        None \<Rightarrow> Inr st
      | Some d \<Rightarrow>
          stage_require (length (t_order st) < 5) ''full same-edge reclaim''
            (stage_require (t_history st (sd_id d) = None) ''identity reused within bounded trace''
              (bindR (stage_decode (sd_insn d)) (\<lambda>(form, dst, sources, imm).
                let deps = stage_deps (t_latest st) sources
                in bindR (stage_operands (t_registers st) sources) (\<lambda>ops.
                     let ops = with_imm imm ops;
                         value = stage_value form ops;
                         r = \<lparr>v_dispatch = sr_edge row, v_deps = deps, v_operands = ops, v_value = value,
                              v_packet = \<lparr>sp_id = sd_id d, sp_pc = sd_pc d, sp_insn = sd_insn d, sp_gpr = dst, sp_value = value\<rparr>,
                              v_issue = None, v_finish = None\<rparr>
                     in bindR (any_pending (t_history st) deps) (\<lambda>pending.
                          bindR (py_set (t_registers st) dst value) (\<lambda>regs.
                            Inr (stage_count
                                  (\<lambda>s. s\<lparr>c_pending_raw := c_pending_raw s + of_bool pending, c_dispatch := c_dispatch s + 1\<rparr>)
                                  (set_rec (sd_id d) r
                                    (st\<lparr>t_registers := regs, t_latest := (t_latest st)(dst \<mapsto> sd_id d),
                                        t_live := t_live st @ [sd_id d], t_order := t_order st @ [sd_id d],
                                        t_forms := insert form (t_forms st)\<rparr>))))))))))"

definition release_phase :: "stage_row \<Rightarrow> stage_state \<Rightarrow> stage_state result" where
  "release_phase row st =
     (if sr_retire row \<noteq> None \<and> sr_retire_ready row then
        (case t_order st of
           [] \<Rightarrow> Inl IndexError
         | k # ks \<Rightarrow>
             bindR (py_key (live_rec st k)) (\<lambda>r.
               bindR (py_key (v_finish r)) (\<lambda>e.
                 Inr (stage_count
                       (\<lambda>s. s\<lparr>c_earliest_retire := c_earliest_retire s + of_bool (sr_edge row = e), c_retire := c_retire s + 1\<rparr>)
                       (st\<lparr>t_order := ks, t_live := remove1 k (t_live st)\<rparr>)))))
      else Inr st)"

definition stage_step :: "stage_row \<Rightarrow> stage_state \<Rightarrow> stage_state result" where
  "stage_step row st =
     bindR (edge_phase row st) (\<lambda>st.
     bindR (finish_phase row st) (\<lambda>st.
     bindR (retire_check row st) (\<lambda>_.
     bindR (issue_phase row (stall_phase row st)) (\<lambda>st.
     bindR (dispatch_stage row st) (\<lambda>st.
       release_phase row st)))))"

fun stage_steps :: "stage_row list \<Rightarrow> stage_state \<Rightarrow> stage_state result" where
  "stage_steps [] st = Inr st"
| "stage_steps (row # rows) st = bindR (stage_step row st) (stage_steps rows)"

definition coverage_ok :: "stage_state \<Rightarrow> bool" where
  "coverage_ok st \<longleftrightarrow>
     (let s = t_stats st
      in c_retire_stall_edges s > 0 \<and> c_pending_raw s > 0 \<and> c_same_edge_raw_issue s > 0 \<and> c_earliest_issue s > 0 \<and>
         c_earliest_retire s > 0 \<and> c_full_edges s > 0)"

definition check_trace :: "stage_row list \<Rightarrow> bool \<Rightarrow> stage_stats result" where
  "check_trace edges require_coverage =
     bindR (stage_steps edges stage_init) (\<lambda>st.
       stage_require (t_live st = [] \<and> c_dispatch (t_stats st) > 0) ''trace ended without draining work''
         (if require_coverage then
            stage_require (t_forms st = STAGE_FORMS) ''seven forms not observed''
              (stage_require (coverage_ok st) ''missing coverage'' (Inr (t_stats st)))
          else Inr (t_stats st)))"

end
