(* ===== verification/Stage_Machine.thy ===== *)
theory Stage_Machine
  imports Stage_Timing
begin

text \<open>
  The sequential machine that the stage checker compares a trace against, written on 32-bit
  machine words, and the proof that the checker's decoder, operand read and result are one step of it.
\<close>

section \<open>The sequential machine\<close>

definition insn_field :: "nat \<Rightarrow> 32 word \<Rightarrow> nat" where
  "insn_field s w = unat (drop_bit s w AND 31)"

definition insn_imm :: "32 word \<Rightarrow> 16 word" where
  "insn_imm w = ucast w"

definition arch_exec :: "(nat \<Rightarrow> 32 word) \<Rightarrow> 32 word \<Rightarrow> nat \<times> 32 word" where
  "arch_exec R w =
     (let opc = drop_bit 26 w; d = insn_field 21 w; a = insn_field 16 w; b = insn_field 11 w;
          low = ucast (insn_imm w); high = push_bit 16 (ucast (insn_imm w));
          base = (if a = 0 then 0 else R a)
      in if opc = 14 then (d, base + scast (insn_imm w))
         else if opc = 15 then (d, base + high)
         else if opc = 24 then (a, R d OR low)
         else if opc = 25 then (a, R d OR high)
         else if opc = 26 then (a, R d XOR low)
         else if opc = 27 then (a, R d XOR high)
         else (d, R a + R b))"

text \<open>The registers an instruction reads.\<close>

definition arch_sources :: "32 word \<Rightarrow> nat set" where
  "arch_sources w =
     (let opc = drop_bit 26 w; d = insn_field 21 w; a = insn_field 16 w; b = insn_field 11 w
      in if opc = 14 \<or> opc = 15 then (if a = 0 then {} else {a})
         else if opc \<in> {24, 25, 26, 27} then {d} else {a, b})"

definition arch_packet :: "(nat \<Rightarrow> 32 word) \<Rightarrow> stage_dispatch \<Rightarrow> stage_packet" where
  "arch_packet R d =
     (case arch_exec R (word_of_int (sd_insn d)) of (r, v) \<Rightarrow>
        \<lparr>sp_id = sd_id d, sp_pc = sd_pc d, sp_insn = sd_insn d, sp_gpr = int r, sp_value = uint v\<rparr>)"

definition arch_step :: "(nat \<Rightarrow> 32 word) \<Rightarrow> stage_dispatch \<Rightarrow> nat \<Rightarrow> 32 word" where
  "arch_step R d = (case arch_exec R (word_of_int (sd_insn d)) of (r, v) \<Rightarrow> R(r := v))"

fun arch_run :: "(nat \<Rightarrow> 32 word) \<Rightarrow> stage_dispatch list \<Rightarrow> stage_packet list" where
  "arch_run R [] = []"
| "arch_run R (d # ds) = arch_packet R d # arch_run (arch_step R d) ds"

lemma arch_run_snoc: "arch_run R (ds @ [d]) = arch_run R ds @ [arch_packet (foldl arch_step R ds) d]"
  by (induction ds arbitrary: R) auto

lemma length_arch_run [simp]: "length (arch_run R ds) = length ds"
  by (induction ds arbitrary: R) auto

lemma arch_run_ids: "map sp_id (arch_run R ds) = map sd_id ds"
  by (induction ds arbitrary: R) (auto simp: arch_packet_def split: prod.splits)

section \<open>Fields of an instruction word\<close>

lemma insn_field_less [simp]: "insn_field s w < 32"
proof -
  have "unat (drop_bit s w AND 31) \<le> unat (31 :: 32 word)"
    by (rule word_and_le1 [THEN word_le_nat_alt [THEN iffD1]])
  then show ?thesis by (simp add: insn_field_def)
qed

lemma uint_of_word_range:
  assumes "0 \<le> x" "x < 2 ^ 32"
  shows "uint (word_of_int x :: 32 word) = x" and "take_bit 32 x = x"
  using assms by (simp_all add: uint_word_of_int_eq take_bit_int_eq_self)

lemma int_insn_field:
  assumes "0 \<le> x" "x < 2 ^ 32"
  shows "int (insn_field s (word_of_int x)) = drop_bit s x AND 31"
proof -
  have "uint (drop_bit s (word_of_int x :: 32 word) AND 31) = drop_bit s x AND 31"
    unfolding uint_and by (simp add: unsigned_drop_bit_eq uint_of_word_range [OF assms])
  then show ?thesis by (simp add: insn_field_def)
qed

lemma uint_insn_imm:
  assumes "0 \<le> x" "x < 2 ^ 32"
  shows "uint (insn_imm (word_of_int x)) = x AND 65535"
proof -
  have "uint (insn_imm (word_of_int x)) = take_bit 16 x"
    by (simp only: insn_imm_def unsigned_ucast_eq uint_of_word_range(1) [OF assms]) simp
  then show ?thesis by (simp add: take_bit_eq_mask mask_eq_exp_minus_1)
qed

lemma opcode_word:
  assumes "0 \<le> x" "x < 2 ^ 32"
  shows "uint (drop_bit 26 (word_of_int x :: 32 word)) = drop_bit 26 x"
  by (simp add: unsigned_drop_bit_eq uint_of_word_range [OF assms])

lemma opcode_eq_iff:
  assumes "0 \<le> x" "x < 2 ^ 32"
  shows "drop_bit 26 (word_of_int x :: 32 word) = numeral k \<longleftrightarrow> drop_bit 26 x = uint (numeral k :: 32 word)"
  using opcode_word [OF assms] by (metis word_uint_eqI)

lemma sint_imm:
  "sint (w :: 16 word) = (if uint w AND 32768 \<noteq> 0 then uint w - 65536 else uint w)"
proof -
  have "uint w AND 32768 \<noteq> 0 \<longleftrightarrow> bit (uint w) 15"
    by (simp add: bit_iff_and_push_bit_not_eq_0)
  moreover have "sint w = signed_take_bit 15 (uint w)"
    by (simp add: sint_uint)
  moreover have "take_bit 16 (uint w) = uint w"
    using uint_lt2p [of w] by (simp add: take_bit_int_eq_self)
  ultimately show ?thesis
    by (simp add: signed_take_bit_eq_take_bit_minus)
qed

lemma uint_add32: "uint (a + b :: 32 word) = take_bit 32 (uint a + uint b)"
  by (simp add: uint_word_ariths take_bit_eq_mod)

lemma uint_low32: "uint (ucast (i :: 16 word) :: 32 word) = uint i"
  using uint_lt2p [of i] by (simp add: unsigned_ucast_eq take_bit_int_eq_self)

lemma uint_high32: "uint (push_bit 16 (ucast (i :: 16 word)) :: 32 word) = push_bit 16 (uint i)"
proof (rule bit_eqI)
  fix n
  show "bit (uint (push_bit 16 (ucast i) :: 32 word)) n = bit (push_bit 16 (uint i)) n"
  proof (cases "bit i (n - 16)")
    case True
    then have "n - 16 < 16" using bit_imp_le_length [of i "n - 16"] by simp
    with True show ?thesis
      by (simp only: bit_uint_iff bit_push_bit_iff bit_ucast_iff possible_bit_word) (simp, linarith)
  next
    case False
    then show ?thesis
      by (simp only: bit_uint_iff bit_push_bit_iff bit_ucast_iff possible_bit_word) simp
  qed
qed

lemma uint_scast32: "uint (scast (i :: 16 word) :: 32 word) = take_bit 32 (sint i)"
proof -
  have "LENGTH(32) = 32" by simp
  then show ?thesis unfolding scast_eq uint_word_of_int_eq by (simp only:)
qed

section \<open>The decoder is one step of the machine\<close>

lemma stage_decode_word:
  assumes "stage_decode x = Inr insn"
  shows "0 \<le> x" and "x < 2 ^ 32"
proof -
  have "drop_bit 26 x \<in> {14, 15, 24, 25, 26, 27, 31}"
    using assms by (auto simp: stage_decode_def stage_require_def Let_def split: if_splits)
  then have "x div 67108864 \<in> {14, 15, 24, 25, 26, 27, 31}"
    by (simp add: drop_bit_eq_div)
  then show "0 \<le> x" and "x < 2 ^ 32" by auto
qed

text \<open>The checker's register list holds the machine's registers.\<close>

definition regs_match :: "int list \<Rightarrow> (nat \<Rightarrow> 32 word) \<Rightarrow> bool" where
  "regs_match regs R \<longleftrightarrow> length regs = 32 \<and> (\<forall>i < 32. regs ! i = uint (R i))"

lemma regs_match_get: "regs_match regs R \<Longrightarrow> k < 32 \<Longrightarrow> py_get regs (int k) = Inr (uint (R k))"
  by (simp add: regs_match_def)

lemma regs_match_set:
  "regs_match regs R \<Longrightarrow> k < 32 \<Longrightarrow> py_set regs (int k) (uint v) = Inr (regs[k := uint v]) \<and> regs_match (regs[k := uint v]) (R(k := v))"
  by (auto simp: regs_match_def nth_list_update)

definition decode_agrees :: "(nat \<Rightarrow> 32 word) \<Rightarrow> 32 word \<Rightarrow> int list \<Rightarrow> stage_insn \<Rightarrow> bool" where
  "decode_agrees R w regs insn =
     (case insn of (form, dst, sources, imm) \<Rightarrow>
        (case arch_exec R w of (r, v) \<Rightarrow>
           dst = int r \<and> r < 32 \<and>
           (\<exists>ops. stage_operands regs sources = Inr ops \<and> stage_value form (with_imm imm ops) = uint v) \<and>
           {k. Some k \<in> set sources} = int ` arch_sources w))"

lemmas value_words = uint_add32 uint_or uint_xor uint_low32 uint_high32 uint_scast32 sint_imm and_mask32

text \<open>One lemma for each shape of instruction: immediate add, immediate logical, register add.\<close>

lemma uint_add_imm: "(uint (u :: 32 word) + (k AND 0xFFFFFFFF)) AND 0xFFFFFFFF = take_bit 32 (uint u + k)"
  unfolding and_mask32 take_bit_eq_mod by (rule mod_add_right_eq)

lemma uint_add_scast: "uint (u + scast (k :: 16 word) :: 32 word) = take_bit 32 (uint u + sint k)"
  unfolding uint_add32 uint_scast32 by (simp add: take_bit_eq_mod mod_add_right_eq)

lemma uint_add_high: "uint (u + push_bit 16 (ucast (k :: 16 word)) :: 32 word) = take_bit 32 (uint u + push_bit 16 (uint k))"
  unfolding uint_add32 uint_high32 ..

lemma stage_value_add:
  "stage_value (if c then ''addi'' else ''addis'') [uint (u :: 32 word), i AND 0xFFFFFFFF] = take_bit 32 (uint u + i)"
  by (simp add: stage_value_def uint_add_imm)

lemma stage_value_logical:
  fixes r u :: "32 word"
  shows "stage_value (if o24 then ''ori'' else if o25 then ''oris'' else if o26 then ''xori'' else ''xoris'') [uint r, uint u] =
         uint (if o24 \<or> o25 then r OR u else r XOR u)" (is "?l = uint ?v")
proof -
  have "take_bit 32 (uint ?v) = uint ?v"
    using uint_lt2p [of ?v] by (simp add: take_bit_int_eq_self)
  then show ?thesis
    by (auto simp: stage_value_def and_mask32 uint_or uint_xor)
qed

lemma agrees_imm:
  assumes regs: "regs_match regs R" and exec: "arch_exec R w = (r, v)" and r: "r < 32"
    and src: "arch_sources w = (case s of None \<Rightarrow> {} | Some k \<Rightarrow> {k})" and s: "\<And>k. s = Some k \<Longrightarrow> k < 32"
    and val: "stage_value form [case s of None \<Rightarrow> 0 | Some k \<Rightarrow> uint (R k), i] = uint v"
  shows "decode_agrees R w regs (form, int r, [map_option int s, None], Some i)"
proof -
  have "stage_operands regs [map_option int s, None] = Inr [case s of None \<Rightarrow> 0 | Some k \<Rightarrow> uint (R k), 0]"
    using s by (cases s) (simp_all add: regs_match_get [OF regs])
  then show ?thesis
    using exec r src val by (cases s) (auto simp: decode_agrees_def with_imm_def)
qed

lemma decode_exec:
  assumes dec: "stage_decode x = Inr insn" and regs: "regs_match regs R"
  shows "decode_agrees R (word_of_int x) regs insn"
proof -
  note x = stage_decode_word [OF dec]
  define w :: "32 word" where "w = word_of_int x"
  define d a b where "d = insn_field 21 w" and "a = insn_field 16 w" and "b = insn_field 11 w"
  have fields: "drop_bit 21 x AND 31 = int d" "drop_bit 16 x AND 31 = int a" "drop_bit 11 x AND 31 = int b"
    by (simp_all add: d_def a_def b_def w_def int_insn_field [OF x])
  have less: "d < 32" "a < 32" "b < 32" by (simp_all add: d_def a_def b_def)
  have imm: "x AND 65535 = uint (insn_imm w)"
    by (simp add: w_def uint_insn_imm [OF x])
  have opc: "drop_bit 26 w = numeral k \<longleftrightarrow> drop_bit 26 x = uint (numeral k :: 32 word)" for k
    unfolding w_def by (rule opcode_eq_iff [OF x])
  have cases: "drop_bit 26 x \<in> {14, 15} \<or> drop_bit 26 x \<in> {24, 25, 26, 27} \<or> drop_bit 26 x = 31"
    using dec by (auto simp: stage_decode_def stage_require_def Let_def split: if_splits)
  note exec = arch_exec_def arch_sources_def Let_def opc d_def [symmetric] a_def [symmetric] b_def [symmetric]
  note decode = dec [unfolded stage_decode_def stage_require_def Let_def fields imm]
  have "decode_agrees R w regs insn"
    using cases
  proof (elim disjE)
    assume o: "drop_bit 26 x \<in> {14, 15}"
    define s where "s = (if a = 0 then None else Some a)"
    define i where "i = (if drop_bit 26 x = 14 then sint (insn_imm w) else push_bit 16 (uint (insn_imm w)))"
    define v where "v = (case s of None \<Rightarrow> 0 | Some k \<Rightarrow> R k) +
      (if drop_bit 26 x = 14 then scast (insn_imm w) else push_bit 16 (ucast (insn_imm w)))"
    from o have "insn = (if drop_bit 26 x = 14 then ''addi'' else ''addis'', int d, [map_option int s, None], Some (i AND 0xFFFFFFFF))"
      using decode by (auto simp: s_def i_def sint_imm split: if_splits)
    moreover from o have "arch_exec R w = (d, v)" and "arch_sources w = (case s of None \<Rightarrow> {} | Some k \<Rightarrow> {k})"
      by (auto simp: exec s_def v_def)
    moreover have "(case s of None \<Rightarrow> 0 | Some k \<Rightarrow> uint (R k)) = uint (case s of None \<Rightarrow> 0 | Some k \<Rightarrow> R k)"
      by (cases s) simp_all
    then have "stage_value (if drop_bit 26 x = 14 then ''addi'' else ''addis'')
        [case s of None \<Rightarrow> 0 | Some k \<Rightarrow> uint (R k), i AND 0xFFFFFFFF] = uint v"
      by (simp only: stage_value_add) (simp add: v_def i_def uint_add_scast uint_add_high)
    moreover have "k < 32" if "s = Some k" for k
      using that less by (auto simp: s_def split: if_splits)
    ultimately show ?thesis
      using agrees_imm [OF regs, of w d v s] less by simp
  next
    assume o: "drop_bit 26 x \<in> {24, 25, 26, 27}"
    define form where "form = (if drop_bit 26 x = 24 then ''ori'' else if drop_bit 26 x = 25 then ''oris''
      else if drop_bit 26 x = 26 then ''xori'' else ''xoris'')"
    define i where "i = push_bit (if drop_bit 26 x AND 1 \<noteq> 0 then 16 else 0) (uint (insn_imm w))"
    define u :: "32 word" where "u = (if drop_bit 26 x AND 1 \<noteq> 0 then push_bit 16 (ucast (insn_imm w)) else ucast (insn_imm w))"
    define v where "v = (if drop_bit 26 x = 24 \<or> drop_bit 26 x = 25 then R d OR u else R d XOR u)"
    from o have "insn = (form, int a, [map_option int (Some d), None], Some i)"
      using decode by (auto simp: form_def i_def split: if_splits)
    moreover from o have "arch_exec R w = (a, v)" and "arch_sources w = {d}"
      by (auto simp: exec v_def u_def)
    moreover have "uint u = i"
      by (simp add: u_def i_def uint_low32 uint_high32)
    then have "stage_value form [uint (R d), i] = uint v"
      using stage_value_logical [of "drop_bit 26 x = 24" "drop_bit 26 x = 25" "drop_bit 26 x = 26" "R d" u]
      by (simp add: form_def v_def)
    ultimately show ?thesis
      using agrees_imm [OF regs, of w a v "Some d"] less by simp
  next
    assume o: "drop_bit 26 x = 31"
    then have "insn = (''add'', int d, [Some (int a), Some (int b)], None)" and "arch_exec R w = (d, R a + R b)" and "arch_sources w = {a, b}"
      using decode by (auto simp: exec split: if_splits)
    then show ?thesis
      using less by (auto simp: decode_agrees_def regs_match_get [OF regs] with_imm_def stage_value_def uint_add32 and_mask32)
  qed
  then show ?thesis by (simp add: w_def)
qed

end
