(* ===== verification/Stage_Order.thy ===== *)
theory Stage_Order
  imports Stage_Machine
begin

text \<open>
  What an accepted stage trace means: its retirements are the packets of the sequential machine,
  every dispatched instruction issues, finishes and retires exactly once at the distances the
  contract states, no operand is read before its producer has finished, and the checker itself
  raises nothing but a \<open>ValueError\<close>.
\<close>

section \<open>The events of a trace\<close>

definition dispatch_log :: "stage_row list \<Rightarrow> (stage_dispatch \<times> int) list" where
  "dispatch_log = List.map_filter (\<lambda>r. map_option (\<lambda>d. (d, sr_edge r)) (sr_dispatch r))"

definition issue_log :: "stage_row list \<Rightarrow> (int \<times> int) list" where
  "issue_log = List.map_filter (\<lambda>r. map_option (\<lambda>i. (si_id i, sr_edge r)) (sr_issue r))"

definition finish_log :: "stage_row list \<Rightarrow> (int \<times> int) list" where
  "finish_log = List.map_filter (\<lambda>r. map_option (\<lambda>f. (sf_id f, sr_edge r)) (sr_finish r))"

text \<open>A packet that is offered retires on an edge on which the consumer is ready.\<close>

definition retire_log :: "stage_row list \<Rightarrow> (stage_packet \<times> int) list" where
  "retire_log = List.map_filter (\<lambda>r. if sr_retire_ready r then map_option (\<lambda>p. (p, sr_edge r)) (sr_retire r) else None)"

definition edges_of :: "int \<Rightarrow> (int \<times> int) list \<Rightarrow> int list" where
  "edges_of x es = map snd (filter (\<lambda>(y, e). y = x) es)"

definition retire_ids :: "(stage_packet \<times> int) list \<Rightarrow> (int \<times> int) list" where
  "retire_ids = map (\<lambda>(p, e). (sp_id p, e))"

definition log_ids :: "(stage_dispatch \<times> int) list \<Rightarrow> int list" where
  "log_ids = map (\<lambda>(d, e). sd_id d)"

lemmas log_defs = dispatch_log_def issue_log_def finish_log_def retire_log_def

lemma edges_of_append [simp]: "edges_of x (es @ fs) = edges_of x es @ edges_of x fs"
  by (simp add: edges_of_def)

lemma edges_of_Nil [simp]: "edges_of x [] = []"
  by (simp add: edges_of_def)

lemma edges_of_single [simp]: "edges_of x [(y, e)] = (if y = x then [e] else [])"
  by (simp add: edges_of_def)

lemma log_ids_append [simp]: "log_ids (D @ E) = log_ids D @ log_ids E"
  by (simp add: log_ids_def)

lemma length_log_ids [simp]: "length (log_ids D) = length D"
  by (simp add: log_ids_def)

section \<open>The phases, case by case\<close>

text \<open>Two states that differ in the counters only.\<close>

definition same_core :: "stage_state \<Rightarrow> stage_state \<Rightarrow> bool" where
  "same_core a b \<longleftrightarrow> (\<exists>g. a = stage_count g b)"

lemma same_core_count [simp, intro]: "same_core (stage_count g b) b"
  by (auto simp: same_core_def)

lemma same_coreD:
  assumes "same_core a b"
  shows "t_live a = t_live b" and "t_history a = t_history b" and "t_latest a = t_latest b" and "t_order a = t_order b"
    and "t_registers a = t_registers b"
  using assms by (auto simp: same_core_def stage_count_def)

lemma edge_phaseE:
  assumes "edge_phase row st = Inr st'"
  shows "same_core st' (st\<lparr>t_last_edge := Some (sr_edge row)\<rparr>)" and "sr_cq_count row = int (length (t_order st))"
    and "sr_rename_count row = int (length (t_order st))"
  using assms by (simp_all only: edge_phase_def stage_require_def Let_def split: if_splits) auto

lemma finish_phaseE:
  assumes "finish_phase row st = Inr st'"
  obtains "sr_finish row = None" and "st' = st"
  | f r where "sr_finish row = Some f" and "sf_id f \<in> set (t_live st)" and "t_history st (sf_id f) = Some r"
    and "v_issue r = Some (sr_edge row - 1)" and "v_finish r = None"
    and "same_core st' (set_rec (sf_id f) (r\<lparr>v_finish := Some (sr_edge row)\<rparr>) st)"
  using assms
  by (auto simp: finish_phase_def stage_require_def live_rec_def split: option.splits if_splits)

definition retire_ok :: "stage_row \<Rightarrow> stage_state \<Rightarrow> bool" where
  "retire_ok row st \<longleftrightarrow>
     (\<forall>p. sr_retire row = Some p \<longrightarrow>
       (\<exists>ks r f. t_order st = sp_id p # ks \<and> t_history st (sp_id p) = Some r \<and> v_packet r = p \<and> v_finish r = Some f \<and>
          f \<le> sr_edge row))"

lemma retire_check_ok:
  assumes "retire_check row st = Inr u"
  shows "retire_ok row st"
  using assms
  by (auto simp: retire_check_def stage_require_def py_key_def live_rec_def retire_ok_def neq_Nil_conv bindR_eq_Inr
      split: option.splits if_splits list.splits)

lemma issue_phaseE:
  assumes "issue_phase row st = Inr st'"
  obtains "sr_issue row = None" and "st' = st"
  | i r where "sr_issue row = Some i" and "si_id i \<in> set (t_live st)" and "t_history st (si_id i) = Some r"
    and "v_issue r = None" and "v_dispatch r + 1 \<le> sr_edge row"
    and "deps_finished (t_history st) (sr_edge row) (v_deps r) = Inr ()"
    and "same_core st' (set_rec (si_id i) (r\<lparr>v_issue := Some (sr_edge row)\<rparr>) st)"
  using assms
  by (auto simp: issue_phase_def stage_require_def live_rec_def bindR_eq_Inr Let_def split: option.splits if_splits)

definition new_rec :: "int \<Rightarrow> int list \<Rightarrow> int list \<Rightarrow> string \<Rightarrow> int \<Rightarrow> stage_dispatch \<Rightarrow> stage_rec" where
  "new_rec edge deps ops form dst d =
     \<lparr>v_dispatch = edge, v_deps = deps, v_operands = ops, v_value = stage_value form ops,
      v_packet = \<lparr>sp_id = sd_id d, sp_pc = sd_pc d, sp_insn = sd_insn d, sp_gpr = dst, sp_value = stage_value form ops\<rparr>,
      v_issue = None, v_finish = None\<rparr>"

lemma dispatch_stageE:
  assumes "dispatch_stage row st = Inr st'"
  obtains "sr_dispatch row = None" and "st' = st"
  | d form dst sources imm ops regs where "sr_dispatch row = Some d" and "length (t_order st) < 5"
    and "t_history st (sd_id d) = None" and "stage_decode (sd_insn d) = Inr (form, dst, sources, imm)"
    and "stage_operands (t_registers st) sources = Inr ops"
    and "py_set (t_registers st) dst (stage_value form (with_imm imm ops)) = Inr regs"
    and "same_core st' (set_rec (sd_id d) (new_rec (sr_edge row) (stage_deps (t_latest st) sources) (with_imm imm ops) form dst d)
           (st\<lparr>t_registers := regs, t_latest := (t_latest st)(dst \<mapsto> sd_id d), t_live := t_live st @ [sd_id d],
               t_order := t_order st @ [sd_id d], t_forms := insert form (t_forms st)\<rparr>))"
proof (cases "sr_dispatch row")
  case None
  with assms show ?thesis by (intro that(1)) (simp_all add: dispatch_stage_def)
next
  case (Some d)
  note step = assms [unfolded dispatch_stage_def stage_require_def Let_def, simplified Some option.case]
  from step obtain form dst sources imm ops pending regs where
    *: "length (t_order st) < 5" "t_history st (sd_id d) = None" "stage_decode (sd_insn d) = Inr (form, dst, sources, imm)"
      "stage_operands (t_registers st) sources = Inr ops" "any_pending (t_history st) (stage_deps (t_latest st) sources) = Inr pending"
      "py_set (t_registers st) dst (stage_value form (with_imm imm ops)) = Inr regs"
    by (auto simp: bindR_eq_Inr split: if_splits)
  show ?thesis
    by (rule that(2) [OF Some * (1-4) * (6)]) (use step * in \<open>auto simp: new_rec_def\<close>)
qed

lemma release_phaseE:
  assumes "release_phase row st = Inr st'"
  obtains "\<not> (sr_retire_ready row \<and> sr_retire row \<noteq> None)" and "st' = st"
  | p k ks where "sr_retire row = Some p" and "sr_retire_ready row" and "t_order st = k # ks"
    and "same_core st' (st\<lparr>t_order := ks, t_live := remove1 k (t_live st)\<rparr>)"
  using assms
  by (auto simp: release_phase_def py_key_def bindR_eq_Inr split: option.splits if_splits list.splits)

section \<open>The machine invariant\<close>

abbreviation reset_regs :: "nat \<Rightarrow> 32 word" where
  "reset_regs \<equiv> \<lambda>_. 0"

abbreviation run_of :: "(stage_dispatch \<times> int) list \<Rightarrow> stage_packet list" where
  "run_of D \<equiv> arch_run reset_regs (map fst D)"

definition packets_of :: "(int \<rightharpoonup> stage_rec) \<Rightarrow> int \<Rightarrow> stage_packet option" where
  "packets_of h x = map_option v_packet (h x)"

definition seq_inv :: "(stage_dispatch \<times> int) list \<Rightarrow> (stage_packet \<times> int) list \<Rightarrow> stage_state \<Rightarrow> bool" where
  "seq_inv D R st \<longleftrightarrow>
     distinct (log_ids D) \<and> t_live st = t_order st \<and> t_order st = drop (length R) (log_ids D) \<and>
     dom (t_history st) = set (log_ids D) \<and> regs_match (t_registers st) (foldl arch_step reset_regs (map fst D)) \<and>
     map (packets_of (t_history st)) (log_ids D) = map Some (run_of D) \<and> map fst R = take (length R) (run_of D)"

lemma seq_inv_init: "seq_inv [] [] stage_init"
  by (simp add: seq_inv_def stage_init_def log_ids_def regs_match_def)

lemma seq_inv_core: "same_core a b \<Longrightarrow> seq_inv D R a = seq_inv D R b"
  by (simp add: seq_inv_def same_coreD [of a b])

lemma seq_inv_edge: "seq_inv D R st \<Longrightarrow> edge_phase row st = Inr st' \<Longrightarrow> seq_inv D R st'"
  using same_coreD [OF edge_phaseE(1)] by (simp add: seq_inv_def)

lemma seq_inv_stall: "seq_inv D R (stall_phase row st) = seq_inv D R st"
  by (simp add: seq_inv_def stall_phase_def stage_count_def Let_def)

lemma seq_inv_set_rec:
  assumes "seq_inv D R st" "t_history st x = Some r" "v_packet r' = v_packet r"
  shows "seq_inv D R (set_rec x r' st)"
proof -
  have "packets_of ((t_history st)(x \<mapsto> r')) = packets_of (t_history st)"
    using assms(2,3) by (auto simp: packets_of_def fun_eq_iff)
  then show ?thesis
    using assms(1,2) by (auto simp: seq_inv_def set_rec_def)
qed

lemma seq_inv_finish: "seq_inv D R st \<Longrightarrow> finish_phase row st = Inr st' \<Longrightarrow> seq_inv D R st'"
  by (erule finish_phaseE) (auto simp: seq_inv_core intro: seq_inv_set_rec)

lemma seq_inv_issue: "seq_inv D R st \<Longrightarrow> issue_phase row st = Inr st' \<Longrightarrow> seq_inv D R st'"
  by (erule issue_phaseE) (auto simp: seq_inv_core intro: seq_inv_set_rec)

text \<open>What the log gains on one edge.\<close>

lemma dispatch_log_one: "dispatch_log [row] = (case sr_dispatch row of None \<Rightarrow> [] | Some d \<Rightarrow> [(d, sr_edge row)])"
  by (simp add: dispatch_log_def map_filter_simps split: option.splits)

lemma issue_log_one: "issue_log [row] = (case sr_issue row of None \<Rightarrow> [] | Some i \<Rightarrow> [(si_id i, sr_edge row)])"
  by (simp add: issue_log_def map_filter_simps split: option.splits)

lemma finish_log_one: "finish_log [row] = (case sr_finish row of None \<Rightarrow> [] | Some f \<Rightarrow> [(sf_id f, sr_edge row)])"
  by (simp add: finish_log_def map_filter_simps split: option.splits)

lemma retire_log_one:
  "retire_log [row] = (if sr_retire_ready row then (case sr_retire row of None \<Rightarrow> [] | Some p \<Rightarrow> [(p, sr_edge row)]) else [])"
  by (simp add: retire_log_def map_filter_simps split: option.splits)

lemmas log_one = dispatch_log_one issue_log_one finish_log_one retire_log_one

lemma dispatch_result:
  assumes inv: "seq_inv D R st" and dec: "stage_decode (sd_insn d) = Inr (form, dst, sources, imm)"
    and ops: "stage_operands (t_registers st) sources = Inr ops"
  defines "machine \<equiv> foldl arch_step reset_regs (map fst D)"
  shows "v_packet (new_rec e deps (with_imm imm ops) form dst d) = arch_packet machine d"
    and "\<exists>regs. py_set (t_registers st) dst (stage_value form (with_imm imm ops)) = Inr regs \<and> regs_match regs (arch_step machine d)"
proof -
  have regs: "regs_match (t_registers st) machine"
    using inv by (simp add: seq_inv_def machine_def)
  obtain r v where rv: "arch_exec machine (word_of_int (sd_insn d)) = (r, v)" by force
  with decode_exec [OF dec regs] ops
  have *: "dst = int r" "r < 32" "stage_value form (with_imm imm ops) = uint v"
    by (auto simp: decode_agrees_def)
  then show "v_packet (new_rec e deps (with_imm imm ops) form dst d) = arch_packet machine d"
    by (simp add: new_rec_def arch_packet_def rv)
  show "\<exists>regs. py_set (t_registers st) dst (stage_value form (with_imm imm ops)) = Inr regs \<and> regs_match regs (arch_step machine d)"
    using regs_match_set [OF regs *(2), of v] * by (simp add: arch_step_def rv)
qed

lemma seq_inv_dispatch:
  assumes inv: "seq_inv D R st" and step: "dispatch_stage row st = Inr st'"
  shows "seq_inv (D @ dispatch_log [row]) R st'"
  using step
proof (cases rule: dispatch_stageE)
  case 1
  with inv show ?thesis by (simp add: log_one)
next
  case (2 d form dst sources imm ops regs)
  note res = dispatch_result [OF inv 2(4,5)]
  have len: "length R \<le> length D"
    using inv by (metis seq_inv_def length_map length_take length_arch_run min.cobounded1 min.commute)
  have fresh: "sd_id d \<notin> set (log_ids D)"
    using inv 2(3) by (auto simp: seq_inv_def)
  have map: "map (packets_of ((t_history st)(sd_id d \<mapsto> r))) (log_ids D) = map (packets_of (t_history st)) (log_ids D)" for r
    using fresh by (auto simp: packets_of_def)
  have log: "dispatch_log [row] = [(d, sr_edge row)]" "log_ids [(d, sr_edge row)] = [sd_id d]"
    using 2(1) by (simp_all add: log_one log_ids_def)
  show ?thesis
    using inv res 2(6) len fresh
    by (simp add: same_coreD [OF 2(7)] seq_inv_def set_rec_def log map arch_run_snoc) (simp add: packets_of_def)
qed

lemma seq_inv_release:
  assumes inv: "seq_inv D R st" and ok: "retire_ok row st" and step: "release_phase row st = Inr st'"
  shows "seq_inv D (R @ retire_log [row]) st'"
  using step
proof (cases rule: release_phaseE)
  case 1
  with inv show ?thesis by (auto simp: log_one split: option.splits)
next
  case (2 p k ks)
  with ok have k: "k = sp_id p" and pk: "packets_of (t_history st) k = Some p"
    by (auto simp: retire_ok_def packets_of_def)
  define n where "n = length R"
  have ids: "drop n (log_ids D) = k # ks"
    using inv 2(3) by (simp add: seq_inv_def n_def)
  then have n: "n < length D" and nth: "log_ids D ! n = k" and tl: "drop (Suc n) (log_ids D) = ks"
    by (metis drop_eq_Nil length_log_ids list.distinct(1) not_le, metis nth_via_drop, metis drop_Suc list.sel(3) tl_drop)
  have "map (packets_of (t_history st)) (log_ids D) ! n = map Some (run_of D) ! n"
    using inv by (simp add: seq_inv_def)
  then have "run_of D ! n = p" using n nth pk by simp
  then have "take (Suc n) (run_of D) = map fst (R @ [(p, sr_edge row)])"
    using inv n by (simp add: take_Suc_conv_app_nth seq_inv_def n_def)
  moreover have "remove1 k (drop n (log_ids D)) = ks"
    by (simp add: ids)
  ultimately show ?thesis
    using inv 2 tl by (simp add: same_coreD [OF 2(4)] seq_inv_def log_one n_def)
qed

section \<open>The timing invariant\<close>

definition dispatch_edges :: "(stage_dispatch \<times> int) list \<Rightarrow> (int \<times> int) list" where
  "dispatch_edges = map (\<lambda>(d, e). (sd_id d, e))"

definition opt_list :: "'a option \<Rightarrow> 'a list" where
  "opt_list x = (case x of None \<Rightarrow> [] | Some y \<Rightarrow> [y])"

lemma opt_list_simps [simp]: "opt_list None = []" "opt_list (Some y) = [y]"
  by (simp_all add: opt_list_def)

definition finished_by :: "(int \<rightharpoonup> stage_rec) \<Rightarrow> int \<Rightarrow> int \<Rightarrow> bool" where
  "finished_by h x e \<longleftrightarrow> (\<exists>r f. h x = Some r \<and> v_finish r = Some f \<and> f \<le> e)"

definition rec_times :: "(int \<rightharpoonup> stage_rec) \<Rightarrow> stage_rec \<Rightarrow> bool" where
  "rec_times h r \<longleftrightarrow>
     (\<forall>i. v_issue r = Some i \<longrightarrow> v_dispatch r + 1 \<le> i \<and> (\<forall>p \<in> set (v_deps r). finished_by h p i)) \<and>
     (\<forall>f. v_finish r = Some f \<longrightarrow> v_issue r = Some (f - 1))"

definition time_inv ::
  "(stage_dispatch \<times> int) list \<Rightarrow> (int \<times> int) list \<Rightarrow> (int \<times> int) list \<Rightarrow> (stage_packet \<times> int) list \<Rightarrow>
   (int \<rightharpoonup> stage_rec) \<Rightarrow> bool" where
  "time_inv D I F R h \<longleftrightarrow>
     (\<forall>x. edges_of x (dispatch_edges D) = opt_list (map_option v_dispatch (h x)) \<and>
          edges_of x I = opt_list (Option.bind (h x) v_issue) \<and> edges_of x F = opt_list (Option.bind (h x) v_finish)) \<and>
     (\<forall>x r. h x = Some r \<longrightarrow> rec_times h r) \<and> (\<forall>(p, e) \<in> set R. finished_by h (sp_id p) e)"

lemma time_inv_init: "time_inv [] [] [] [] Map.empty"
  by (simp add: time_inv_def dispatch_edges_def)

lemma deps_finished_ok: "deps_finished h e ps = Inr () \<longleftrightarrow> (\<forall>p \<in> set ps. finished_by h p e)"
  by (induction ps) (auto simp: bindR_eq_Inr py_key_def stage_require_def finished_by_def split: option.splits)

lemma finished_by_mono:
  "finished_by h x e \<Longrightarrow> (\<And>r f. h x = Some r \<Longrightarrow> v_finish r = Some f \<Longrightarrow> \<exists>r'. h' x = Some r' \<and> v_finish r' = Some f) \<Longrightarrow>
   finished_by h' x e"
  by (fastforce simp: finished_by_def)

lemma time_inv_update:
  assumes inv: "time_inv D I F R h"
    and keep: "\<And>r f. h x = Some r \<Longrightarrow> v_finish r = Some f \<Longrightarrow> v_finish r' = Some f"
    and D: "edges_of x (dispatch_edges D') = [v_dispatch r']" "\<And>y. y \<noteq> x \<Longrightarrow> edges_of y (dispatch_edges D') = edges_of y (dispatch_edges D)"
    and I: "edges_of x I' = opt_list (v_issue r')" "\<And>y. y \<noteq> x \<Longrightarrow> edges_of y I' = edges_of y I"
    and F: "edges_of x F' = opt_list (v_finish r')" "\<And>y. y \<noteq> x \<Longrightarrow> edges_of y F' = edges_of y F"
    and new: "rec_times h r'"
  shows "time_inv D' I' F' R (h(x \<mapsto> r'))"
proof -
  have mono: "finished_by (h(x \<mapsto> r')) y e" if "finished_by h y e" for y e
    using that keep by (rule_tac finished_by_mono) auto
  have times: "rec_times (h(x \<mapsto> r')) r" if "rec_times h r" for r
    using that mono by (auto simp: rec_times_def)
  show ?thesis
    using inv D I F times [OF new] mono times by (auto simp: time_inv_def)
qed

lemma time_inv_finish:
  assumes inv: "time_inv D I F R (t_history st)" and step: "finish_phase row st = Inr st'"
  shows "time_inv D I (F @ finish_log [row]) R (t_history st')"
  using step
proof (cases rule: finish_phaseE)
  case 1
  with inv show ?thesis by (simp add: log_one)
next
  case (2 f r)
  have r: "rec_times (t_history st) r" "edges_of (sf_id f) (dispatch_edges D) = [v_dispatch r]"
    "edges_of (sf_id f) I = opt_list (v_issue r)" "edges_of (sf_id f) F = opt_list (v_finish r)"
    using inv 2(3) by (auto simp: time_inv_def)
  show ?thesis
    unfolding same_coreD [OF 2(6)] using 2 r
    by (simp add: set_rec_def log_one) (rule time_inv_update [OF inv]; auto simp: rec_times_def)
qed

lemma time_inv_issue:
  assumes inv: "time_inv D I F R (t_history st)" and step: "issue_phase row st = Inr st'"
  shows "time_inv D (I @ issue_log [row]) F R (t_history st')"
  using step
proof (cases rule: issue_phaseE)
  case 1
  with inv show ?thesis by (simp add: log_one)
next
  case (2 i r)
  have r: "rec_times (t_history st) r" "edges_of (si_id i) (dispatch_edges D) = [v_dispatch r]"
    "edges_of (si_id i) I = opt_list (v_issue r)" "edges_of (si_id i) F = opt_list (v_finish r)"
    using inv 2(3) by (auto simp: time_inv_def)
  then have "v_finish r = None"
    using 2(4) by (cases "v_finish r") (auto simp: rec_times_def)
  then show ?thesis
    unfolding same_coreD [OF 2(7)] using 2 r
    by (simp add: set_rec_def log_one) (rule time_inv_update [OF inv]; auto simp: rec_times_def deps_finished_ok)
qed

lemma time_inv_dispatch:
  assumes inv: "time_inv D I F R (t_history st)" and step: "dispatch_stage row st = Inr st'"
  shows "time_inv (D @ dispatch_log [row]) I F R (t_history st')"
  using step
proof (cases rule: dispatch_stageE)
  case 1
  with inv show ?thesis by (simp add: log_one)
next
  case (2 d form dst sources imm ops regs)
  have none: "edges_of (sd_id d) (dispatch_edges D) = []" "edges_of (sd_id d) I = []" "edges_of (sd_id d) F = []"
    using inv 2(3) by (auto simp: time_inv_def)
  show ?thesis
    unfolding same_coreD [OF 2(7)] using 2(1,3) none
    by (simp add: set_rec_def log_one) (rule time_inv_update [OF inv]; simp add: dispatch_edges_def rec_times_def new_rec_def)
qed

lemma time_inv_release:
  assumes inv: "time_inv D I F R (t_history st)" and ok: "retire_ok row st" and step: "release_phase row st = Inr st'"
  shows "time_inv D I F (R @ retire_log [row]) (t_history st')"
  using step
proof (cases rule: release_phaseE)
  case 1
  with inv show ?thesis by (auto simp: log_one split: option.splits)
next
  case (2 p k ks)
  with ok have "finished_by (t_history st) (sp_id p) (sr_edge row)"
    by (auto simp: retire_ok_def finished_by_def)
  with inv 2 show ?thesis
    unfolding same_coreD [OF 2(4)] by (simp add: time_inv_def log_one)
qed

section \<open>Operand producers\<close>

definition arch_dest :: "stage_dispatch \<Rightarrow> nat" where
  "arch_dest d = fst (arch_exec reset_regs (word_of_int (sd_insn d)))"

text \<open>The youngest instruction of a program that writes a register.\<close>

definition last_writer :: "stage_dispatch list \<Rightarrow> nat \<Rightarrow> int option" where
  "last_writer ds s = map_of (rev (map (\<lambda>d. (arch_dest d, sd_id d)) ds)) s"

definition producers :: "stage_dispatch list \<Rightarrow> stage_dispatch \<Rightarrow> int set" where
  "producers ds d = {p. \<exists>s \<in> arch_sources (word_of_int (sd_insn d)). last_writer ds s = Some p}"

lemma arch_dest_any: "fst (arch_exec R (word_of_int (sd_insn d))) = arch_dest d"
  by (simp add: arch_dest_def arch_exec_def Let_def)

lemma last_writer_snoc: "last_writer (ds @ [d]) = (last_writer ds)(arch_dest d \<mapsto> sd_id d)"
  by (auto simp: last_writer_def fun_eq_iff)

definition deps_inv :: "(stage_dispatch \<times> int) list \<Rightarrow> stage_state \<Rightarrow> bool" where
  "deps_inv D st \<longleftrightarrow>
     (\<forall>s. t_latest st (int s) = last_writer (map fst D) s) \<and>
     (\<forall>k < length D. \<exists>r. t_history st (log_ids D ! k) = Some r \<and> set (v_deps r) = producers (take k (map fst D)) (fst (D ! k)))"

lemma deps_inv_init: "deps_inv [] stage_init"
  by (simp add: deps_inv_def stage_init_def last_writer_def)

lemma deps_inv_edge: "deps_inv D st \<Longrightarrow> edge_phase row st = Inr st' \<Longrightarrow> deps_inv D st'"
  using same_coreD [OF edge_phaseE(1)] by (simp add: deps_inv_def)

lemma deps_inv_stall: "deps_inv D (stall_phase row st) = deps_inv D st"
  by (simp add: deps_inv_def stall_phase_def stage_count_def Let_def)

lemma deps_inv_set_rec:
  "deps_inv D st \<Longrightarrow> t_history st x = Some r \<Longrightarrow> v_deps r' = v_deps r \<Longrightarrow> deps_inv D (set_rec x r' st)"
  by (fastforce simp: deps_inv_def set_rec_def)

lemma deps_inv_core: "same_core a b \<Longrightarrow> deps_inv D a = deps_inv D b"
  by (simp add: deps_inv_def same_coreD [of a b])

lemma deps_inv_finish: "deps_inv D st \<Longrightarrow> finish_phase row st = Inr st' \<Longrightarrow> deps_inv D st'"
  by (erule finish_phaseE) (auto simp: deps_inv_core intro: deps_inv_set_rec)

lemma deps_inv_issue: "deps_inv D st \<Longrightarrow> issue_phase row st = Inr st' \<Longrightarrow> deps_inv D st'"
  by (erule issue_phaseE) (auto simp: deps_inv_core intro: deps_inv_set_rec)

lemma deps_inv_release: "deps_inv D st \<Longrightarrow> release_phase row st = Inr st' \<Longrightarrow> deps_inv D st'"
  by (erule release_phaseE) (simp_all add: deps_inv_core, simp add: deps_inv_def)

lemma set_stage_deps: "set (stage_deps latest sources) = {p. \<exists>s. Some s \<in> set sources \<and> latest s = Some p}"
  by (force simp: stage_deps_def List.map_filter_def split: option.splits)

lemma deps_inv_dispatch:
  assumes inv: "deps_inv D st" and seq: "seq_inv D R st" and step: "dispatch_stage row st = Inr st'"
  shows "deps_inv (D @ dispatch_log [row]) st'"
  using step
proof (cases rule: dispatch_stageE)
  case 1
  with inv show ?thesis by (simp add: log_one)
next
  case (2 d form dst sources imm ops regs)
  define machine where "machine = foldl arch_step reset_regs (map fst D)"
  have "regs_match (t_registers st) machine"
    using seq by (simp add: seq_inv_def machine_def)
  from decode_exec [OF 2(4) this]
  have dst: "dst = int (arch_dest d)" and src: "{k. Some k \<in> set sources} = int ` arch_sources (word_of_int (sd_insn d))"
    by (auto simp: decode_agrees_def arch_dest_any [of machine d, symmetric] split: prod.splits)
  have "{p. \<exists>s. Some s \<in> set sources \<and> t_latest st s = Some p} = {p. \<exists>s \<in> {k. Some k \<in> set sources}. t_latest st s = Some p}"
    by auto
  also have "\<dots> = producers (map fst D) d"
    unfolding src using inv by (auto simp: producers_def deps_inv_def)
  finally have deps: "set (stage_deps (t_latest st) sources) = producers (map fst D) d"
    by (simp add: set_stage_deps)
  have fresh: "log_ids D ! k \<noteq> sd_id d" if "k < length D" for k
    using inv that 2(3) by (auto simp: deps_inv_def)
  have log: "dispatch_log [row] = [(d, sr_edge row)]" "log_ids [(d, sr_edge row)] = [sd_id d]"
    using 2(1) by (simp_all add: log_one log_ids_def)
  show ?thesis
    using inv fresh deps dst
    by (auto simp: deps_inv_def same_coreD [OF 2(7)] set_rec_def log last_writer_snoc nth_append less_Suc_eq new_rec_def)
qed

section \<open>Whole traces\<close>

lemma retire_ok_stall: "retire_ok row st \<Longrightarrow> retire_ok row (stall_phase row st)"
  by (simp add: retire_ok_def stall_phase_def stage_count_def Let_def)

lemma retire_ok_core: "same_core a b \<Longrightarrow> retire_ok row a = retire_ok row b"
  by (simp add: retire_ok_def same_coreD [of a b])

lemma retire_ok_issue: "retire_ok row st \<Longrightarrow> issue_phase row st = Inr st' \<Longrightarrow> retire_ok row st'"
  by (erule issue_phaseE) (simp_all add: retire_ok_core, auto simp: retire_ok_def set_rec_def)

lemma retire_ok_dispatch: "retire_ok row st \<Longrightarrow> dispatch_stage row st = Inr st' \<Longrightarrow> retire_ok row st'"
  by (erule dispatch_stageE) (simp_all add: retire_ok_core, auto simp: retire_ok_def set_rec_def)

definition trace_inv :: "stage_row list \<Rightarrow> stage_state \<Rightarrow> bool" where
  "trace_inv rows st \<longleftrightarrow>
     seq_inv (dispatch_log rows) (retire_log rows) st \<and>
     time_inv (dispatch_log rows) (issue_log rows) (finish_log rows) (retire_log rows) (t_history st) \<and>
     deps_inv (dispatch_log rows) st"

lemma log_append:
  "dispatch_log (rows @ rest) = dispatch_log rows @ dispatch_log rest" "issue_log (rows @ rest) = issue_log rows @ issue_log rest"
  "finish_log (rows @ rest) = finish_log rows @ finish_log rest" "retire_log (rows @ rest) = retire_log rows @ retire_log rest"
  by (simp_all add: log_defs List.map_filter_def)

lemma trace_inv_step:
  assumes inv: "trace_inv rows st" and step: "stage_step row st = Inr st'"
  shows "trace_inv (rows @ [row]) st'"
proof -
  from step obtain a b c d where
    a: "edge_phase row st = Inr a" and b: "finish_phase row a = Inr b" and check: "retire_check row b = Inr ()"
    and c: "issue_phase row (stall_phase row b) = Inr c" and d: "dispatch_stage row c = Inr d" and e: "release_phase row d = Inr st'"
    by (auto simp: stage_step_def bindR_eq_Inr)
  let ?D = "dispatch_log rows" and ?R = "retire_log rows" and ?I = "issue_log rows" and ?F = "finish_log rows"
  have ok: "retire_ok row d"
    by (rule retire_ok_dispatch [OF retire_ok_issue [OF retire_ok_stall [OF retire_check_ok [OF check]] c] d])
  have sc: "seq_inv ?D ?R c"
    using inv by (intro seq_inv_issue [OF _ c] seq_inv_stall [THEN iffD2] seq_inv_finish [OF _ b] seq_inv_edge [OF _ a])
      (simp add: trace_inv_def)
  have "seq_inv (?D @ dispatch_log [row]) (?R @ retire_log [row]) st'"
    by (rule seq_inv_release [OF seq_inv_dispatch [OF sc d] ok e])
  moreover have "deps_inv (?D @ dispatch_log [row]) st'"
    using inv by (intro deps_inv_release [OF _ e] deps_inv_dispatch [OF _ sc d] deps_inv_issue [OF _ c] deps_inv_stall [THEN iffD2]
        deps_inv_finish [OF _ b] deps_inv_edge [OF _ a]) (simp add: trace_inv_def)
  moreover have "t_history (stall_phase row b) = t_history b" "t_history a = t_history st"
    using same_coreD [OF edge_phaseE(1) [OF a]] by (simp_all add: stall_phase_def stage_count_def Let_def)
  then have "time_inv (?D @ dispatch_log [row]) (?I @ issue_log [row]) (?F @ finish_log [row]) (?R @ retire_log [row]) (t_history st')"
    using inv time_inv_finish [OF _ b]
    by (intro time_inv_release [OF _ ok e] time_inv_dispatch [OF _ d] time_inv_issue [OF _ c]) (simp add: trace_inv_def)
  ultimately show ?thesis
    by (simp add: trace_inv_def log_append)
qed

lemma trace_inv_steps: "trace_inv rows st \<Longrightarrow> stage_steps rest st = Inr st' \<Longrightarrow> trace_inv (rows @ rest) st'"
proof (induction rest arbitrary: rows st)
  case (Cons row rest)
  then show ?case
    using trace_inv_step [of rows st row] Cons.IH [of "rows @ [row]"] by (auto simp: bindR_eq_Inr)
qed simp

lemma trace_inv_run:
  assumes "stage_steps rows stage_init = Inr st"
  shows "trace_inv rows st"
proof -
  have "trace_inv [] stage_init"
    by (simp add: trace_inv_def log_defs List.map_filter_def seq_inv_init deps_inv_init)
       (simp add: time_inv_def stage_init_def dispatch_edges_def)
  from trace_inv_steps [OF this assms] show ?thesis by simp
qed

lemma check_trace_run:
  assumes "check_trace rows cov = Inr stats"
  obtains st where "stage_steps rows stage_init = Inr st" and "t_live st = []" and "trace_inv rows st"
  using assms trace_inv_run [of rows]
  by (auto simp: check_trace_def bindR_eq_Inr stage_require_def split: if_splits)

lemma all_retired:
  assumes inv: "seq_inv D R st" and live: "t_live st = []"
  shows "map fst R = run_of D" and "map fst (retire_ids R) = log_ids D"
proof -
  have "drop (length R) (log_ids D) = []"
    using inv live by (metis seq_inv_def)
  then have "length D \<le> length R"
    by simp
  with inv show *: "map fst R = run_of D"
    by (simp add: seq_inv_def)
  have "map fst (retire_ids R) = map sp_id (map fst R)"
    by (simp add: retire_ids_def case_prod_beta comp_def)
  also have "\<dots> = log_ids D"
    by (simp add: * arch_run_ids) (simp add: log_ids_def case_prod_beta)
  finally show "map fst (retire_ids R) = log_ids D" .
qed

lemma edges_of_distinct: "distinct (map fst es) \<Longrightarrow> (x, e) \<in> set es \<Longrightarrow> edges_of x es = [e]"
proof (induction es)
  case (Cons p es)
  moreover have "edges_of x es = []" if "x \<notin> fst ` set es"
    using that by (force simp: edges_of_def filter_empty_conv)
  ultimately show ?case by (auto simp: edges_of_def)
qed simp

lemma finished_edges: "time_inv D I F R h \<Longrightarrow> finished_by h p e \<Longrightarrow> \<exists>f. edges_of p F = [f] \<and> f \<le> e"
  by (auto simp: time_inv_def finished_by_def)

text \<open>One retirement of each dispatched instruction, after its finish.\<close>

lemma retire_edge:
  assumes "trace_inv rows st" and "t_live st = []" and "x \<in> set (log_ids (dispatch_log rows))"
  obtains e where "edges_of x (retire_ids (retire_log rows)) = [e]" and "finished_by (t_history st) x e"
proof -
  let ?R = "retire_log rows"
  have seq: "seq_inv (dispatch_log rows) ?R st"
    using assms(1) by (simp add: trace_inv_def)
  note ids = all_retired(2) [OF seq assms(2)]
  then have "x \<in> set (map fst (retire_ids ?R))"
    using assms(3) by (simp only:)
  then obtain e where e: "(x, e) \<in> set (retire_ids ?R)"
    by auto
  then obtain p where p: "(p, e) \<in> set ?R" "x = sp_id p"
    by (auto simp: retire_ids_def)
  show ?thesis
  proof (rule that)
    show "edges_of x (retire_ids ?R) = [e]"
      using ids seq e by (intro edges_of_distinct) (simp_all add: seq_inv_def)
    show "finished_by (t_history st) x e"
      using assms(1) p by (auto simp: trace_inv_def time_inv_def)
  qed
qed

section \<open>The checker raises nothing but its own failures\<close>

definition only_value_error :: "'a result \<Rightarrow> bool" where
  "only_value_error r \<longleftrightarrow> (\<forall>e. r = Inl e \<longrightarrow> (\<exists>m. e = ValueError m))"

lemma ove_simps [simp]: "only_value_error (Inr x)" "only_value_error (Inl (ValueError m))"
  "only_value_error (stage_require c m r) \<longleftrightarrow> (c \<longrightarrow> only_value_error r)"
  by (auto simp: only_value_error_def stage_require_def)

lemma ove_bind: "only_value_error r \<Longrightarrow> (\<And>x. r = Inr x \<Longrightarrow> only_value_error (f x)) \<Longrightarrow> only_value_error (bindR r f)"
  by (cases r) (auto simp: only_value_error_def)

lemma ove_key: "only_value_error (py_key x) \<longleftrightarrow> x \<noteq> None"
  by (auto simp: only_value_error_def py_key_def split: option.splits)

lemma ove_edge: "only_value_error (edge_phase row st)"
  by (simp add: edge_phase_def Let_def)

lemma ove_finish: "only_value_error (finish_phase row st)"
  by (simp add: finish_phase_def split: option.splits)

lemma live_rec_head:
  assumes inv: "seq_inv D R st" and order: "t_order st = k # ks"
  shows "\<exists>r. live_rec st k = Some r"
proof -
  have "k \<in> set (t_live st)"
    using inv order by (metis list.set_intros(1) seq_inv_def)
  moreover have "k \<in> set (drop (length R) (log_ids D))"
    using inv order by (metis list.set_intros(1) seq_inv_def)
  then have "k \<in> dom (t_history st)"
    using inv by (auto simp: seq_inv_def dest: in_set_dropD)
  ultimately show ?thesis by (auto simp: live_rec_def)
qed

lemma ove_retire_check: "seq_inv D R st \<Longrightarrow> only_value_error (retire_check row st)"
  using live_rec_head [of D R st]
  by (auto simp: retire_check_def ove_key neq_Nil_conv intro!: ove_bind split: option.splits list.splits)

lemma ove_deps: "set ps \<subseteq> dom h \<Longrightarrow> only_value_error (deps_finished h e ps)"
  by (induction ps) (auto simp: ove_key intro!: ove_bind)

lemma ove_pending: "set ps \<subseteq> dom h \<Longrightarrow> only_value_error (any_pending h ps)"
  by (induction ps) (auto simp: ove_key intro!: ove_bind)

lemma producers_in: "producers ds d \<subseteq> set (map sd_id ds)"
  by (auto simp: producers_def last_writer_def dest!: map_of_SomeD)

text \<open>Every producer of a recorded instruction, and of a new one, is recorded.\<close>

lemma deps_recorded:
  assumes inv: "deps_inv D st" and seq: "seq_inv D R st" and r: "t_history st x = Some r"
  shows "set (v_deps r) \<subseteq> dom (t_history st)"
proof -
  have dom: "dom (t_history st) = set (map sd_id (map fst D))"
    using seq by (simp add: seq_inv_def log_ids_def case_prod_beta comp_def)
  from r seq obtain k where k: "k < length D" "log_ids D ! k = x"
    by (metis domI in_set_conv_nth length_log_ids seq_inv_def)
  then have "set (v_deps r) \<subseteq> set (map sd_id (take k (map fst D)))"
    using inv r producers_in by (fastforce simp: deps_inv_def)
  moreover have "set (map sd_id (take k (map fst D))) \<subseteq> set (map sd_id (map fst D))"
    unfolding set_map by (intro image_mono set_take_subset [of k "map fst D", unfolded set_map])
  ultimately show ?thesis
    unfolding dom by blast
qed

lemma ove_issue: "deps_inv D st \<Longrightarrow> seq_inv D R st \<Longrightarrow> only_value_error (issue_phase row st)"
  by (auto simp: issue_phase_def Let_def live_rec_def intro!: ove_bind ove_deps dest: deps_recorded split: option.splits if_splits)

lemma ove_decode: "only_value_error (stage_decode x)"
  by (simp add: stage_decode_def Let_def)

lemma latest_recorded:
  assumes inv: "deps_inv D st" and seq: "seq_inv D R st" and dec: "stage_decode x = Inr (form, dst, sources, imm)"
  shows "set (stage_deps (t_latest st) sources) \<subseteq> dom (t_history st)"
proof -
  have "regs_match (t_registers st) (foldl arch_step reset_regs (map fst D))"
    using seq by (simp add: seq_inv_def)
  from decode_exec [OF dec this] have src: "{k. Some k \<in> set sources} = int ` arch_sources (word_of_int x)"
    by (auto simp: decode_agrees_def split: prod.splits)
  have dom: "dom (t_history st) = set (map sd_id (map fst D))"
    using seq by (simp add: seq_inv_def log_ids_def case_prod_beta comp_def)
  show ?thesis
  proof
    fix p assume "p \<in> set (stage_deps (t_latest st) sources)"
    then obtain s where "Some s \<in> set sources" "t_latest st s = Some p"
      by (auto simp: set_stage_deps)
    with src inv obtain n where "last_writer (map fst D) n = Some p"
      by (auto simp: deps_inv_def dest!: equalityD1 subsetD)
    then show "p \<in> dom (t_history st)"
      unfolding dom last_writer_def by (force dest!: map_of_SomeD)
  qed
qed

lemma ove_dispatch:
  assumes inv: "deps_inv D st" and seq: "seq_inv D R st"
  shows "only_value_error (dispatch_stage row st)"
proof -
  have regs: "regs_match (t_registers st) (foldl arch_step reset_regs (map fst D))"
    using seq by (simp add: seq_inv_def)
  have "only_value_error (stage_operands (t_registers st) sources)" if "stage_decode x = Inr (form, dst, sources, imm)"
    for x form dst sources imm
    using decode_exec [OF that regs] by (auto simp: decode_agrees_def split: prod.splits)
  moreover have "only_value_error (any_pending (t_history st) (stage_deps (t_latest st) sources))"
    if "stage_decode x = Inr (form, dst, sources, imm)" for x form dst sources imm
    by (rule ove_pending [OF latest_recorded [OF inv seq that]])
  moreover have "only_value_error (py_set (t_registers st) dst (stage_value form (with_imm imm ops)))"
    if "stage_decode (sd_insn d) = Inr (form, dst, sources, imm)" "stage_operands (t_registers st) sources = Inr ops"
    for d :: stage_dispatch and form dst sources imm ops
    using dispatch_result(2) [OF seq that] by auto
  ultimately show ?thesis
    by (auto simp: dispatch_stage_def Let_def split: option.split intro!: ove_bind ove_decode)
qed

lemma ove_release:
  assumes "seq_inv D R st" and "retire_ok row st"
  shows "only_value_error (release_phase row st)"
proof -
  have *: "\<exists>r e. live_rec st k = Some r \<and> v_finish r = Some e"
    if "sr_retire row = Some p" "t_order st = k # ks" for p k ks
    using live_rec_head [OF assms(1) that(2)] assms(2) that by (auto simp: retire_ok_def live_rec_def split: if_splits)
  have "t_order st \<noteq> []" if "sr_retire row = Some p" for p
    using assms(2) that by (auto simp: retire_ok_def)
  then show ?thesis
    using * by (fastforce simp: release_phase_def py_key_def split: list.split)
qed

lemma ove_after_finish:
  assumes seq: "seq_inv D R b" and deps: "deps_inv D b"
  shows "only_value_error (bindR (retire_check row b) (\<lambda>_. bindR (issue_phase row (stall_phase row b)) (\<lambda>c.
    bindR (dispatch_stage row c) (\<lambda>d. release_phase row d))))"
proof (rule ove_bind [OF ove_retire_check [OF seq]])
  fix u assume check: "retire_check row b = Inr u"
  have stall: "seq_inv D R (stall_phase row b)" "deps_inv D (stall_phase row b)"
    using seq deps by (simp_all add: seq_inv_stall deps_inv_stall)
  show "only_value_error (bindR (issue_phase row (stall_phase row b)) (\<lambda>c. bindR (dispatch_stage row c) (\<lambda>d. release_phase row d)))"
  proof (rule ove_bind [OF ove_issue [OF stall(2,1)]])
    fix c assume c: "issue_phase row (stall_phase row b) = Inr c"
    have inv: "seq_inv D R c" "deps_inv D c"
      by (rule seq_inv_issue [OF stall(1) c], rule deps_inv_issue [OF stall(2) c])
    show "only_value_error (bindR (dispatch_stage row c) (\<lambda>d. release_phase row d))"
    proof (rule ove_bind [OF ove_dispatch [OF inv(2,1)]])
      fix d assume d: "dispatch_stage row c = Inr d"
      show "only_value_error (release_phase row d)"
        by (rule ove_release [OF seq_inv_dispatch [OF inv(1) d]])
           (rule retire_ok_dispatch [OF retire_ok_issue [OF retire_ok_stall [OF retire_check_ok [OF check]] c] d])
    qed
  qed
qed

lemma ove_step:
  assumes "trace_inv rows st"
  shows "only_value_error (stage_step row st)"
  unfolding stage_step_def
proof (rule ove_bind [OF ove_edge], rule ove_bind [OF ove_finish], rule ove_after_finish)
  fix a b assume "edge_phase row st = Inr a" and "finish_phase row a = Inr b"
  with assms show "seq_inv (dispatch_log rows) (retire_log rows) b" and "deps_inv (dispatch_log rows) b"
    unfolding trace_inv_def by (blast intro: seq_inv_finish seq_inv_edge, blast intro: deps_inv_finish deps_inv_edge)
qed

lemma ove_steps: "trace_inv rows st \<Longrightarrow> only_value_error (stage_steps rest st)"
proof (induction rest arbitrary: rows st)
  case (Cons row rest)
  have "only_value_error (stage_steps rest st')" if "stage_step row st = Inr st'" for st'
    by (rule Cons.IH [OF trace_inv_step [OF Cons.prems that]])
  then show ?case
    using ove_step [OF Cons.prems] by (simp add: ove_bind)
qed simp

section \<open>Properties\<close>

text \<open>
  C33: In every trace that \<open>check_trace\<close> accepts, the packets that retire are, in order and
  completely, those of the sequential machine on 32-bit registers that runs the dispatched
  instructions one after the other from a cleared register file: same identities, program
  counters, destinations and values.
\<close>

theorem accepted_trace_sequential:
  assumes "check_trace rows cov = Inr stats"
  shows "map fst (retire_log rows) = arch_run (\<lambda>_. 0) (map fst (dispatch_log rows))"
proof -
  from assms obtain st where "t_live st = []" and "trace_inv rows st"
    by (rule check_trace_run)
  then show ?thesis
    unfolding trace_inv_def by (blast intro: all_retired(1))
qed

text \<open>Three edges of an add immediate and an add of its result, drained on the fourth.\<close>

definition stage_sample :: "stage_row list" where
  "stage_sample =
     [\<lparr>sr_edge = 7, sr_cq_count = 0, sr_rename_count = 0, sr_finish = None, sr_retire = None, sr_retire_ready = True,
       sr_issue = None, sr_dispatch = Some \<lparr>sd_id = 10, sd_pc = 256, sd_insn = 0x38200005\<rparr>\<rparr>,
      \<lparr>sr_edge = 8, sr_cq_count = 1, sr_rename_count = 1, sr_finish = None, sr_retire = None, sr_retire_ready = True,
       sr_issue = Some \<lparr>si_id = 10, si_a = 0, si_b = 5\<rparr>, sr_dispatch = Some \<lparr>sd_id = 11, sd_pc = 260, sd_insn = 0x7C410A14\<rparr>\<rparr>,
      \<lparr>sr_edge = 9, sr_cq_count = 2, sr_rename_count = 2, sr_finish = Some \<lparr>sf_id = 10, sf_value = 5\<rparr>,
       sr_retire = Some \<lparr>sp_id = 10, sp_pc = 256, sp_insn = 0x38200005, sp_gpr = 1, sp_value = 5\<rparr>, sr_retire_ready = True,
       sr_issue = Some \<lparr>si_id = 11, si_a = 5, si_b = 5\<rparr>, sr_dispatch = None\<rparr>,
      \<lparr>sr_edge = 10, sr_cq_count = 1, sr_rename_count = 1, sr_finish = Some \<lparr>sf_id = 11, sf_value = 10\<rparr>,
       sr_retire = Some \<lparr>sp_id = 11, sp_pc = 260, sp_insn = 0x7C410A14, sp_gpr = 2, sp_value = 10\<rparr>, sr_retire_ready = True,
       sr_issue = None, sr_dispatch = None\<rparr>]"

lemma stage_sample_accepted: "is_ok (check_trace stage_sample False)"
  by code_simp

corollary accepted_trace_sequential_witness:
  "map fst (retire_log stage_sample) = arch_run (\<lambda>_. 0) (map fst (dispatch_log stage_sample)) \<and>
   map sp_value (map fst (retire_log stage_sample)) = [5, 10]"
proof
  obtain stats where "check_trace stage_sample False = Inr stats"
    using stage_sample_accepted by (auto simp: is_ok_iff)
  then show "map fst (retire_log stage_sample) = arch_run (\<lambda>_. 0) (map fst (dispatch_log stage_sample))"
    by (rule accepted_trace_sequential)
qed code_simp

text \<open>
  C34: In an accepted trace every dispatched instruction issues, finishes and retires exactly
  once: it issues at least one edge after its dispatch, finishes exactly one edge after it
  issued, retires no earlier than it finishes, and issues no earlier than the finish of the
  youngest older writer of each register it reads.
\<close>

theorem accepted_trace_edges:
  assumes "check_trace rows cov = Inr stats" and "k < length (dispatch_log rows)" and "dispatch_log rows ! k = (d, e)"
  shows "\<exists>i r. edges_of (sd_id d) (issue_log rows) = [i] \<and> edges_of (sd_id d) (finish_log rows) = [i + 1] \<and>
    edges_of (sd_id d) (retire_ids (retire_log rows)) = [r] \<and> e + 1 \<le> i \<and> i + 1 \<le> r \<and>
    (\<forall>p \<in> producers (take k (map fst (dispatch_log rows))) d. \<exists>f. edges_of p (finish_log rows) = [f] \<and> f \<le> i)"
proof -
  let ?D = "dispatch_log rows" and ?x = "sd_id d"
  from assms(1) obtain st where live: "t_live st = []" and inv: "trace_inv rows st"
    by (rule check_trace_run)
  then have time: "time_inv ?D (issue_log rows) (finish_log rows) (retire_log rows) (t_history st)"
    by (simp add: trace_inv_def)
  have x: "log_ids ?D ! k = ?x" and de: "(d, e) \<in> set ?D"
    using assms(2,3) nth_mem [OF assms(2)] by (simp_all add: log_ids_def)
  then have "?x \<in> set (log_ids ?D)"
    using assms(2) by (metis length_log_ids nth_mem)
  from retire_edge [OF inv live this] obtain er
    where er: "edges_of ?x (retire_ids (retire_log rows)) = [er]" and done_er: "finished_by (t_history st) ?x er" .
  from done_er obtain r f where r: "t_history st ?x = Some r" "v_finish r = Some f" "f \<le> er"
    by (auto simp: finished_by_def)
  with time have t: "rec_times (t_history st) r" "edges_of ?x (dispatch_edges ?D) = [v_dispatch r]"
    "edges_of ?x (issue_log rows) = opt_list (v_issue r)" "edges_of ?x (finish_log rows) = [f]"
    by (auto simp: time_inv_def)
  then have i: "v_issue r = Some (f - 1)" "v_dispatch r + 1 \<le> f - 1" "\<forall>p \<in> set (v_deps r). finished_by (t_history st) p (f - 1)"
    using r by (auto simp: rec_times_def)
  have "e \<in> set (edges_of ?x (dispatch_edges ?D))"
    using de by (force simp: edges_of_def dispatch_edges_def)
  then have "e = v_dispatch r" using t by simp
  moreover have "set (v_deps r) = producers (take k (map fst ?D)) d"
    using inv assms(2,3) r x by (force simp: trace_inv_def deps_inv_def)
  with i have "\<forall>p \<in> producers (take k (map fst ?D)) d. \<exists>g. edges_of p (finish_log rows) = [g] \<and> g \<le> f - 1"
    using finished_edges [OF time] by blast
  ultimately show ?thesis
    using er t i r by (intro exI [of _ "f - 1"] exI [of _ er]) simp
qed

corollary accepted_trace_edges_witness:
  "\<exists>i r. edges_of 11 (issue_log stage_sample) = [i] \<and> edges_of 11 (finish_log stage_sample) = [i + 1] \<and>
     edges_of 11 (retire_ids (retire_log stage_sample)) = [r] \<and> 8 + 1 \<le> i \<and> i + 1 \<le> r \<and>
     (\<forall>p \<in> producers (take 1 (map fst (dispatch_log stage_sample))) \<lparr>sd_id = 11, sd_pc = 260, sd_insn = 0x7C410A14\<rparr>.
        \<exists>f. edges_of p (finish_log stage_sample) = [f] \<and> f \<le> i)"
proof -
  obtain stats where "check_trace stage_sample False = Inr stats"
    using stage_sample_accepted by (auto simp: is_ok_iff)
  moreover have "1 < length (dispatch_log stage_sample)"
    and "dispatch_log stage_sample ! 1 = (\<lparr>sd_id = 11, sd_pc = 260, sd_insn = 0x7C410A14\<rparr>, 8)"
    by code_simp+
  ultimately show ?thesis
    using accepted_trace_edges [of stage_sample False stats 1 "\<lparr>sd_id = 11, sd_pc = 260, sd_insn = 0x7C410A14\<rparr>" 8] by simp
qed

text \<open>
  C35: On every trace \<open>check_trace\<close> either returns its statistics or raises a \<open>ValueError\<close> of a
  named rule: no lookup of an instruction, of a producer, of a register or of the oldest entry
  can fail.
\<close>

theorem check_trace_errors: "(\<exists>stats. check_trace rows cov = Inr stats) \<or> (\<exists>m. check_trace rows cov = Inl (ValueError m))"
proof -
  have "trace_inv [] stage_init"
    using trace_inv_run [of "[]"] by simp
  then have "only_value_error (check_trace rows cov)"
    unfolding check_trace_def by (intro ove_bind ove_steps) simp_all
  then show ?thesis
    by (cases "check_trace rows cov") (auto simp: only_value_error_def)
qed

end
