(* ===== verification/Bus_Decode.thy ===== *)
theory Bus_Decode
  imports Dict
begin

text \<open>
  \<open>sim/tools/bus_decode.py\<close>: validation of the bus encoding manifest (\<open>validate\<close>) and the two
  queries on it, \<open>decode_tt\<close> and \<open>decode_size\<close>.  The manifest is an argument of the
  definitions, as the code passes it: a record per JSON object, in which every key may be
  missing (\<open>None\<close>); a read with \<open>get\<close> yields its default then, a read with brackets raises
  \<open>KeyError\<close> (\<open>py_key\<close>).  A list that the code reads with the default \<open>[]\<close> and whose
  absence validation rejects is a plain list.  Values have the types of the record;
  a manifest with values of other types is outside the model.  An error carries
  its message without the formatted values.
\<close>

section \<open>The manifest\<close>

record bus_master =
  bm_generation :: "string option"
  bm_transaction :: "string option"
  bm_sources :: "string list option"
  bm_non_global :: "bool option"

record tt_row =
  tt_pattern :: "string option"
  tt_dont_care :: "int list option"
  tt_status :: "string option"
  tt_snoop :: "string option"
  tt_command :: "string option"
  tt_manual :: "string option"
  tt_transaction :: "string option"
  tt_master :: "bus_master option"

record abe_override =
  ov_pattern :: "string option"
  ov_command :: "string option"
  ov_master :: "bus_master option"

record size_row =
  sz_tbst :: "string option"
  sz_tsiz :: "string option"
  sz_status :: "string option"
  sz_kind :: "string option"
  sz_bytes :: "int option"

record mode_rule =
  mr_burst_beats :: "int option"
  mr_nonburst_beats :: "(int \<rightharpoonup> int) option"

record bus_counts =
  bc_pattern_rows :: int
  bc_expanded :: int
  bc_defined :: int
  bc_reserved :: int
  bc_generated :: int
  bc_overrides :: int
  bc_sizes :: int

record context_texts =
  cx_address_only :: "string option"
  cx_external :: "string option"

record bus_spec =
  bs_version :: "int option"
  bs_tables :: "string option list"
  bs_rows :: "tt_row list"
  bs_overrides :: "abe_override list option"
  bs_sizes :: "size_row list"
  bs_expected :: "bus_counts option"
  bs_context :: "context_texts option"
  bs_mode :: "int \<rightharpoonup> mode_rule"

section \<open>Patterns\<close>

definition dec_err :: "string \<Rightarrow> 'a result" where
  "dec_err m = Inl (DecodeError m)"

definition dec_require :: "bool \<Rightarrow> string \<Rightarrow> 'a result \<Rightarrow> 'a result" where
  "dec_require cond m rest = (if cond then rest else dec_err m)"

definition dec_bits :: "string option \<Rightarrow> nat \<Rightarrow> string result" where
  "dec_bits value width =
     (case value of
        None \<Rightarrow> dec_err ''binary digits''
      | Some v \<Rightarrow> dec_require (length v = width \<and> set v \<subseteq> {CHR ''0'', CHR ''1''}) ''binary digits'' (Inr v))"

definition dec_pattern :: "string option \<Rightarrow> nat \<Rightarrow> string result" where
  "dec_pattern value width =
     (case value of
        None \<Rightarrow> dec_err ''pattern characters''
      | Some v \<Rightarrow> dec_require (length v = width \<and> set v \<subseteq> {CHR ''0'', CHR ''1'', CHR ''X''}) ''pattern characters'' (Inr v))"

definition pattern_matches :: "string \<Rightarrow> string \<Rightarrow> bool" where
  "pattern_matches pattern bits = list_all (\<lambda>(e, a). e = CHR ''X'' \<or> e = a) (zip pattern bits)"

definition expand_pattern :: "string \<Rightarrow> string list" where
  "expand_pattern pattern =
     foldl (\<lambda>expanded char.
         let choices = (if char = CHR ''X'' then ''01'' else [char])
         in concat (map (\<lambda>prefix. map (\<lambda>choice. prefix @ [choice]) choices) expanded))
       [[]] pattern"

text \<open>
  \<open>f"{value:0nb}"\<close> of a number that is not negative: its binary digits, padded with zeros on
  the left to at least n characters.
\<close>

fun binary_digits :: "nat \<Rightarrow> string" where
  "binary_digits v = (if v < 2 then [] else binary_digits (v div 2)) @ [if v mod 2 = 1 then CHR ''1'' else CHR ''0'']"

declare binary_digits.simps [simp del]

definition bin :: "nat \<Rightarrow> nat \<Rightarrow> string" where
  "bin n v = (let ds = binary_digits v in replicate (n - length ds) (CHR ''0'') @ ds)"

definition x_positions :: "string \<Rightarrow> int list" where
  "x_positions p = map int (filter (\<lambda>i. p ! i = CHR ''X'') [0..<length p])"

section \<open>Validation\<close>

type_synonym expansion = "(string, tt_row) dict"

fun add_codes :: "tt_row \<Rightarrow> string list \<Rightarrow> expansion \<Rightarrow> expansion result" where
  "add_codes row [] ex = Inr ex"
| "add_codes row (c # cs) ex =
     dec_require (dict_get ex c = None) ''overlapping TT patterns'' (add_codes row cs (dict_set c row ex))"

definition snoop_actions :: "string set" where
  "snoop_actions =
     {''not_applicable'', ''kill_cancel_reservation'', ''flush_cancel_reservation'', ''clean_or_flush'', ''flush'', ''clean''}"

definition check_row :: "tt_row \<Rightarrow> expansion \<Rightarrow> expansion result" where
  "check_row row ex =
     bindR (dec_pattern (tt_pattern row) 5) (\<lambda>pattern.
       dec_require (tt_dont_care row = Some (x_positions pattern)) ''dont_care_bits disagrees with X positions''
         (dec_require (tt_status row \<in> {Some ''defined'', Some ''reserved''}) ''invalid TT status''
           (dec_require (tt_snoop row \<in> Some ` snoop_actions) ''invalid snoop action''
             (dec_require (tt_status row = Some ''reserved'' \<longrightarrow> tt_command row = Some ''reserved'')
                 ''reserved encoding has a defined command''
               (add_codes row (expand_pattern pattern) ex)))))"

fun check_rows :: "tt_row list \<Rightarrow> expansion \<Rightarrow> expansion result" where
  "check_rows [] ex = Inr ex"
| "check_rows (row # rows) ex = bindR (check_row row ex) (check_rows rows)"

definition check_override :: "expansion \<Rightarrow> abe_override \<Rightarrow> unit result" where
  "check_override ex ov =
     bindR (dec_bits (ov_pattern ov) 5) (\<lambda>pattern.
     bindR (py_key (dict_get ex pattern)) (\<lambda>base.
     bindR (py_key (tt_status base)) (\<lambda>status.
       if status \<noteq> ''defined'' then dec_err ''ABE override disagrees with base command''
       else bindR (py_key (tt_command base)) (\<lambda>command.
         dec_require (Some command = ov_command ov) ''ABE override disagrees with base command''
           (dec_require (Option.bind (ov_master ov) bm_generation = Some ''generated'') ''ABE override must generate a transaction''
             (Inr ()))))))"

fun check_overrides :: "expansion \<Rightarrow> abe_override list \<Rightarrow> unit result" where
  "check_overrides ex [] = Inr ()"
| "check_overrides ex (ov # ovs) = bindR (check_override ex ov) (\<lambda>_. check_overrides ex ovs)"

fun check_sizes :: "size_row list \<Rightarrow> (string \<times> string) list \<Rightarrow> (string \<times> string) list result" where
  "check_sizes [] seen = Inr seen"
| "check_sizes (item # rest) seen =
     dec_require (sz_tbst item \<in> {Some ''asserted'', Some ''negated''}) ''TBST must use logical asserted/negated state''
       (bindR (dec_bits (sz_tsiz item) 3) (\<lambda>tsiz.
         let key = (the (sz_tbst item), tsiz)
         in dec_require (key \<notin> set seen) ''duplicate size combination''
              (dec_require (sz_status item = Some ''defined'' \<and> 1 \<le> (case sz_bytes item of None \<Rightarrow> 0 | Some n \<Rightarrow> n) \<and>
                    (case sz_bytes item of None \<Rightarrow> 0 | Some n \<Rightarrow> n) \<le> 32) ''bad size entry''
                (check_sizes rest (key # seen)))))"

definition expected_sizes :: "(string \<times> string) set" where
  "expected_sizes = insert (''asserted'', ''010'') ((\<lambda>v. (''negated'', bin 3 v)) ` {0..<8})"

definition count_rows :: "('a \<Rightarrow> bool) \<Rightarrow> 'a list \<Rightarrow> int" where
  "count_rows P xs = int (length (filter P xs))"

text \<open>\<open>row["master"]["generation"]\<close> of every row, and \<open>item["table"]\<close> of every completed table.\<close>

fun count_generated :: "tt_row list \<Rightarrow> int result" where
  "count_generated [] = Inr 0"
| "count_generated (row # rows) =
     bindR (py_key (tt_master row)) (\<lambda>m.
     bindR (py_key (bm_generation m)) (\<lambda>g.
     bindR (count_generated rows) (\<lambda>n. Inr (of_bool (g = ''generated'') + n))))"

fun table_names :: "string option list \<Rightarrow> string list result" where
  "table_names [] = Inr []"
| "table_names (t # ts) = bindR (py_key t) (\<lambda>n. bindR (table_names ts) (\<lambda>ns. Inr (n # ns)))"

text \<open>\<open>spec.get("pid7v_abe_overrides", [])\<close>\<close>

definition overrides_of :: "bus_spec \<Rightarrow> abe_override list" where
  "overrides_of spec = (case bs_overrides spec of None \<Rightarrow> [] | Some ovs \<Rightarrow> ovs)"

definition bus_counts_of :: "bus_spec \<Rightarrow> expansion \<Rightarrow> bus_counts result" where
  "bus_counts_of spec ex =
     bindR (count_generated (bs_rows spec)) (\<lambda>generated.
       Inr \<lparr>bc_pattern_rows = int (length (bs_rows spec)), bc_expanded = int (length ex),
            bc_defined = count_rows (\<lambda>(_, r). tt_status r = Some ''defined'') ex,
            bc_reserved = count_rows (\<lambda>(_, r). tt_status r = Some ''reserved'') ex, bc_generated = generated,
            bc_overrides = int (length (overrides_of spec)), bc_sizes = int (length (bs_sizes spec))\<rparr>)"

definition bus_validate :: "bus_spec \<Rightarrow> bus_counts result" where
  "bus_validate spec =
     dec_require (bs_version spec = Some 1) ''unsupported schema_version''
       (bindR (table_names (bs_tables spec)) (\<lambda>completed.
         dec_require (set completed = {''7-1'', ''7-2'', ''7-3'', ''7-5''}) ''tables_completed''
           (bindR (check_rows (bs_rows spec) []) (\<lambda>ex.
             dec_require (dict_keys ex = bin 5 ` {0..<32}) ''TT patterns do not cover all 32 codes''
               (bindR (check_overrides ex (overrides_of spec)) (\<lambda>_.
                 dec_require (card (set (map ov_pattern (overrides_of spec))) = length (overrides_of spec)) ''duplicate PID7v ABE override''
                   (bindR (check_sizes (bs_sizes spec) []) (\<lambda>seen.
                     dec_require (set seen = expected_sizes) ''Table 7-5 combinations are incomplete or contain unlisted values''
                       (bindR (bus_counts_of spec ex) (\<lambda>counts.
                         dec_require (Some counts = bs_expected spec) ''count mismatch'' (Inr counts)))))))))))"

section \<open>Transfer type\<close>

record tt_result =
  tr_bits :: string
  tr_pattern :: string
  tr_dont_care :: "int list"
  tr_status :: string
  tr_command :: string
  tr_manual :: string
  tr_transaction :: string
  tr_role :: string
  tr_profile :: "string option"
  tr_master :: "bus_master option"
  tr_generation :: "string option"
  tr_action :: "string option"

text \<open>\<open>{...}[generation]\<close>\<close>

definition generation_status :: "string \<Rightarrow> string result" where
  "generation_status g =
     py_key (map_of [(''generated'', ''supported''), (''not_generated'', ''unsupported_by_profile''),
                     (''reserved'', ''reserved_encoding'')] g)"

definition tt_matches :: "bus_spec \<Rightarrow> string \<Rightarrow> tt_row list" where
  "tt_matches spec bits = filter (\<lambda>row. pattern_matches (the (tt_pattern row)) bits) (bs_rows spec)"

definition tt_base :: "tt_row \<Rightarrow> string \<Rightarrow> string \<Rightarrow> tt_result result" where
  "tt_base row bits role =
     bindR (py_key (tt_pattern row)) (\<lambda>pattern.
     bindR (py_key (tt_dont_care row)) (\<lambda>dc.
     bindR (py_key (tt_status row)) (\<lambda>status.
     bindR (py_key (tt_command row)) (\<lambda>command.
     bindR (py_key (tt_manual row)) (\<lambda>manual.
     bindR (py_key (tt_transaction row)) (\<lambda>transaction.
       Inr \<lparr>tr_bits = bits, tr_pattern = pattern, tr_dont_care = dc, tr_status = status, tr_command = command,
            tr_manual = manual, tr_transaction = transaction, tr_role = role, tr_profile = None,
            tr_master = None, tr_generation = None, tr_action = None\<rparr>))))))"

text \<open>The override a PID7v profile applies: the first one with these bits.\<close>

definition tt_master_of :: "bus_spec \<Rightarrow> tt_row \<Rightarrow> string \<Rightarrow> bool \<Rightarrow> bus_master result" where
  "tt_master_of spec row bits abe =
     bindR (py_key (tt_master row)) (\<lambda>master.
       if abe then
         bindR (py_key (bs_overrides spec)) (\<lambda>ovs.
           case find (\<lambda>ov. ov_pattern ov = Some bits) ovs of
             None \<Rightarrow> Inr master
           | Some ov \<Rightarrow> py_key (ov_master ov))
       else Inr master)"

definition decode_tt :: "string \<Rightarrow> string \<Rightarrow> bool \<Rightarrow> bus_spec \<Rightarrow> tt_result result" where
  "decode_tt bits role abe spec =
     bindR (bus_validate spec) (\<lambda>_.
     bindR (dec_bits (Some bits) 5) (\<lambda>bits.
       dec_require (role \<in> {''bus'', ''master'', ''snoop''}) ''role must be bus, master, or snoop''
         (dec_require (\<not> (abe \<and> role \<noteq> ''master'')) ''pid7v_abe affects master generation only''
           (case tt_matches spec bits of
              [row] \<Rightarrow>
                bindR (tt_base row bits role) (\<lambda>r.
                  if role = ''master'' then
                    bindR (tt_master_of spec row bits abe) (\<lambda>m.
                    bindR (py_key (bm_generation m)) (\<lambda>g.
                    bindR (generation_status g) (\<lambda>status.
                      Inr (r\<lparr>tr_profile := Some (if abe then ''pid7v_abe'' else ''generic_603e''), tr_master := Some m,
                             tr_generation := Some status\<rparr>))))
                  else if role = ''snoop'' then
                    bindR (py_key (tt_snoop row)) (\<lambda>a. Inr (r\<lparr>tr_action := Some a\<rparr>))
                  else Inr r)
            | _ \<Rightarrow> dec_err ''TT matched'')))) "

section \<open>Transfer size\<close>

record size_result =
  sr_tbst :: string
  sr_tsiz :: string
  sr_bus_width :: int
  sr_context :: string
  sr_status :: string
  sr_meaning :: "string option"
  sr_resource_bits :: "string option"
  sr_resource_id :: "int option"
  sr_kind :: "string option"
  sr_bytes :: "int option"
  sr_beats :: "int option"
  sr_mode_status :: "string option"

definition size_blank :: "string \<Rightarrow> string \<Rightarrow> int \<Rightarrow> string \<Rightarrow> string \<Rightarrow> size_result" where
  "size_blank tbst tsiz width context status =
     \<lparr>sr_tbst = tbst, sr_tsiz = tsiz, sr_bus_width = width, sr_context = context, sr_status = status, sr_meaning = None,
      sr_resource_bits = None, sr_resource_id = None, sr_kind = None, sr_bytes = None, sr_beats = None, sr_mode_status = None\<rparr>"

text \<open>\<open>int(bits, 2)\<close> of binary digits.\<close>

definition int_of_bin :: "string \<Rightarrow> int" where
  "int_of_bin bits = foldl (\<lambda>v c. 2 * v + of_bool (c = CHR ''1'')) 0 bits"

definition resource_bits :: "string \<Rightarrow> string \<Rightarrow> string" where
  "resource_bits tbst tsiz = (if tbst = ''asserted'' then CHR ''0'' else CHR ''1'') # tsiz"

definition find_size :: "bus_spec \<Rightarrow> string \<Rightarrow> string \<Rightarrow> size_row option" where
  "find_size spec tbst tsiz = find (\<lambda>e. sz_tbst e = Some tbst \<and> sz_tsiz e = Some tsiz) (bs_sizes spec)"

definition size_beats :: "bus_spec \<Rightarrow> size_row \<Rightarrow> int \<Rightarrow> int option result" where
  "size_beats spec item width =
     bindR (py_key (bs_mode spec width)) (\<lambda>mode.
     bindR (py_key (sz_kind item)) (\<lambda>kind.
       if kind = ''cache_line_burst'' then bindR (py_key (mr_burst_beats mode)) (\<lambda>b. Inr (Some b))
       else if width = 64 then Inr (Some 1)
       else bindR (py_key (mr_nonburst_beats mode)) (\<lambda>beats.
              bindR (py_key (sz_bytes item)) (\<lambda>n. Inr (beats n)))))"

definition decode_size :: "string \<Rightarrow> string \<Rightarrow> int \<Rightarrow> string \<Rightarrow> bus_spec \<Rightarrow> size_result result" where
  "decode_size tbst tsiz width context spec =
     bindR (bus_validate spec) (\<lambda>_.
       dec_require (tbst \<in> {''asserted'', ''negated''}) ''TBST must be asserted or negated''
         (bindR (dec_bits (Some tsiz) 3) (\<lambda>tsiz.
           dec_require (width \<in> {32, 64}) ''bus_width must be 32 or 64''
             (dec_require (context \<in> {''memory'', ''address_only'', ''external_control''}) ''context''
               (bindR (py_key (bs_context spec)) (\<lambda>texts.
                 if context = ''address_only'' then
                   bindR (py_key (cx_address_only texts)) (\<lambda>t.
                     Inr ((size_blank tbst tsiz width context ''not_applicable'')\<lparr>sr_meaning := Some t\<rparr>))
                 else if context = ''external_control'' then
                   bindR (py_key (cx_external texts)) (\<lambda>t.
                     Inr ((size_blank tbst tsiz width context ''defined_resource_id'')
                            \<lparr>sr_meaning := Some t, sr_resource_bits := Some (resource_bits tbst tsiz),
                             sr_resource_id := Some (int_of_bin (resource_bits tbst tsiz))\<rparr>))
                 else
                   (case find_size spec tbst tsiz of
                      None \<Rightarrow> Inr ((size_blank tbst tsiz width context ''unlisted'')\<lparr>sr_meaning := Some ''unlisted''\<rparr>)
                    | Some item \<Rightarrow>
                        bindR (py_key (sz_status item)) (\<lambda>status.
                        bindR (size_beats spec item width) (\<lambda>beats.
                          Inr ((size_blank tbst tsiz width context status)
                                 \<lparr>sr_kind := sz_kind item, sr_bytes := sz_bytes item, sr_beats := beats,
                                  sr_mode_status := Some (if beats = None then ''unresolved_without_alignment_tables''
                                                          else ''defined_for_table_7_5_bus_transfer'')\<rparr>)))))))))) "

end
