(* ===== verification/Bus_Unique.thy ===== *)
theory Bus_Unique
  imports Bus_Decode
begin

text \<open>
  What validation of the bus encoding manifest establishes: the patterns partition the 32
  transfer-type codes, so \<open>decode_tt\<close> finds exactly one row for every code, and the listed
  transfer sizes are exactly those of the table, so \<open>decode_size\<close> answers every query.
\<close>

section \<open>Binary strings and patterns\<close>

definition binary :: "nat \<Rightarrow> string \<Rightarrow> bool" where
  "binary n b \<longleftrightarrow> length b = n \<and> set b \<subseteq> {CHR ''0'', CHR ''1''}"

definition pattern_ok :: "nat \<Rightarrow> string \<Rightarrow> bool" where
  "pattern_ok n p \<longleftrightarrow> length p = n \<and> set p \<subseteq> {CHR ''0'', CHR ''1'', CHR ''X''}"

named_theorems dec_simps \<open>the guards of the bus tools\<close>

lemma dec_require_Inr [dec_simps]: "dec_require c m r = Inr x \<longleftrightarrow> c \<and> r = Inr x"
  by (simp add: dec_require_def dec_err_def)

lemma dec_err_Inr [dec_simps]: "dec_err m \<noteq> Inr x"
  by (simp add: dec_err_def)

lemma dec_bits_Inr [dec_simps]: "dec_bits v n = Inr b \<longleftrightarrow> v = Some b \<and> binary n b"
  by (cases v) (auto simp: dec_bits_def dec_simps binary_def)

lemma dec_bits_binary [simp]: "binary n b \<Longrightarrow> dec_bits (Some b) n = Inr b"
  by (simp add: dec_simps)

lemma dec_pattern_Inr [dec_simps]: "dec_pattern v n = Inr p \<longleftrightarrow> v = Some p \<and> pattern_ok n p"
  by (cases v) (auto simp: dec_pattern_def dec_simps pattern_ok_def)

text \<open>For a number that fits, the rendering is its n low bits.\<close>

fun low_digits :: "nat \<Rightarrow> nat \<Rightarrow> string" where
  "low_digits 0 v = []"
| "low_digits (Suc n) v = (if bit v n then CHR ''1'' else CHR ''0'') # low_digits n v"

lemma length_low_digits [simp]: "length (low_digits n v) = n"
  by (induction n) auto

lemma low_digits_snoc: "low_digits (Suc n) v = low_digits n (v div 2) @ [if v mod 2 = 1 then CHR ''1'' else CHR ''0'']"
  by (induction n) (simp_all add: bit_Suc odd_iff_mod_2_eq_one bit_0)

lemma low_digits_0: "low_digits n 0 = replicate n (CHR ''0'')"
  by (induction n) simp_all

lemma bin_low_digits: "v < 2 ^ n \<Longrightarrow> 0 < n \<Longrightarrow> bin n v = low_digits n v"
proof (induction n arbitrary: v)
  case (Suc n)
  show ?case
  proof (cases "v < 2")
    case True
    then have "v div 2 = 0" by simp
    then show ?thesis
      using True unfolding low_digits_snoc bin_def Let_def binary_digits.simps [of v] by (simp add: low_digits_0)
  next
    case False
    then have "0 < n" using Suc.prems(1) by (cases n) auto
    then have "bin n (v div 2) = low_digits n (v div 2)" using Suc.prems(1) by (intro Suc.IH) auto
    then show ?thesis
      using False unfolding low_digits_snoc bin_def Let_def binary_digits.simps [of v] by simp
  qed
qed simp

lemma low_digits_mod: "low_digits n v = low_digits n (take_bit n v)"
proof -
  have "low_digits m v = low_digits m (take_bit n v)" if "m \<le> n" for m
    using that by (induction m) (auto simp: bit_take_bit_iff)
  then show ?thesis by simp
qed

lemma binary_low_digits: "binary n (low_digits n v)"
proof -
  have "set (low_digits n v) \<subseteq> {CHR ''0'', CHR ''1''}" by (induction n) auto
  then show ?thesis by (simp add: binary_def)
qed

lemma binary_is_low: "binary n b \<Longrightarrow> \<exists>v < 2 ^ n. b = low_digits n v"
proof (induction b arbitrary: n)
  case (Cons c b)
  then obtain m where n: "n = Suc m" and "binary m b" and c: "c = CHR ''0'' \<or> c = CHR ''1''"
    by (cases n) (auto simp: binary_def)
  with Cons.IH obtain v where v: "v < 2 ^ m" "b = low_digits m v" by blast
  define w where "w = (if c = CHR ''1'' then 2 ^ m + v else v)"
  have "take_bit m w = take_bit m v" and "bit w m \<longleftrightarrow> c = CHR ''1''"
    using v(1) by (auto simp: w_def bit_iff_odd take_bit_eq_mod)
  then have "c # b = low_digits (Suc m) w"
    using v(2) c low_digits_mod [of m v] low_digits_mod [of m w] by auto
  moreover have "w < 2 ^ Suc m" using v(1) by (simp add: w_def)
  ultimately show ?case unfolding n by blast
qed (auto simp: binary_def)

lemma binary_is_bin: "binary n b \<Longrightarrow> 0 < n \<Longrightarrow> \<exists>v < 2 ^ n. b = bin n v"
  using binary_is_low [of n b] bin_low_digits by metis

lemma binary_bin: "v < 2 ^ n \<Longrightarrow> 0 < n \<Longrightarrow> binary n (bin n v)"
  by (simp add: bin_low_digits binary_low_digits)

lemma binary_strings: "0 < n \<Longrightarrow> {b. binary n b} = bin n ` {0..<2 ^ n}"
  using binary_is_bin [of n] binary_bin [of _ n] by (auto simp: image_iff) (metis atLeastLessThan_iff zero_le)

lemma pattern_matches_snoc:
  "length p = length b \<Longrightarrow> pattern_matches (p @ [c]) (b @ [x]) \<longleftrightarrow> pattern_matches p b \<and> (c = CHR ''X'' \<or> c = x)"
  by (auto simp: pattern_matches_def)

lemma expand_pattern_snoc:
  "set (expand_pattern (p @ [c])) =
   {b @ [x] | b x. b \<in> set (expand_pattern p) \<and> (if c = CHR ''X'' then x \<in> {CHR ''0'', CHR ''1''} else x = c)}"
  by (auto simp: expand_pattern_def Let_def)

text \<open>The expansion of a pattern is the set of codes that match it.\<close>

lemma expand_pattern_matches:
  assumes "pattern_ok n p"
  shows "b \<in> set (expand_pattern p) \<longleftrightarrow> binary n b \<and> pattern_matches p b"
  using assms
proof (induction p arbitrary: n b rule: rev_induct)
  case Nil
  then show ?case by (auto simp: expand_pattern_def pattern_matches_def binary_def pattern_ok_def)
next
  case (snoc c p)
  then have p: "pattern_ok (length p) p" and n: "n = Suc (length p)" and c: "c \<in> {CHR ''0'', CHR ''1'', CHR ''X''}"
    by (auto simp: pattern_ok_def)
  show ?case
  proof (cases b rule: rev_cases)
    case Nil
    then show ?thesis unfolding expand_pattern_snoc by (simp add: n binary_def)
  next
    case (snoc d x)
    have "b \<in> set (expand_pattern (p @ [c])) \<longleftrightarrow>
        d \<in> set (expand_pattern p) \<and> (if c = CHR ''X'' then x \<in> {CHR ''0'', CHR ''1''} else x = c)"
      unfolding expand_pattern_snoc snoc by auto
    also have "\<dots> \<longleftrightarrow> binary n b \<and> pattern_matches (p @ [c]) b"
      using c unfolding snoc.IH [OF p] by (auto simp: snoc n binary_def pattern_matches_snoc)
    finally show ?thesis .
  qed
qed

section \<open>The rows partition the codes\<close>

definition row_matches :: "string \<Rightarrow> tt_row \<Rightarrow> bool" where
  "row_matches c row = pattern_matches (the (tt_pattern row)) c"

definition row_ok :: "tt_row \<Rightarrow> bool" where
  "row_ok row \<longleftrightarrow>
     (\<exists>p. tt_pattern row = Some p \<and> pattern_ok 5 p \<and> tt_dont_care row = Some (x_positions p)) \<and>
     tt_status row \<in> {Some ''defined'', Some ''reserved''} \<and> tt_snoop row \<in> Some ` snoop_actions \<and>
     (tt_status row = Some ''reserved'' \<longrightarrow> tt_command row = Some ''reserved'')"

lemma add_codes_get:
  "add_codes row cs ex = Inr ex' \<Longrightarrow> dict_get ex' c = (if c \<in> set cs then Some row else dict_get ex c)"
  by (induction cs arbitrary: ex) (auto simp: dec_simps dict_get_set split: if_splits)

lemma add_codes_fresh: "add_codes row cs ex = Inr ex' \<Longrightarrow> c \<in> set cs \<Longrightarrow> dict_get ex c = None"
proof (induction cs arbitrary: ex)
  case (Cons a cs)
  then have "dict_get ex a = None" and "add_codes row cs (dict_set a row ex) = Inr ex'"
    by (simp_all add: dec_simps)
  with Cons.IH [OF this(2)] Cons.prems(2) show ?case
    by (cases "c = a") (simp_all add: dict_get_set)
qed simp

lemma check_row_facts:
  assumes "check_row row ex = Inr ex'"
  shows "row_ok row"
    and "binary 5 c \<Longrightarrow> dict_get ex' c = (if row_matches c row then Some row else dict_get ex c)"
    and "binary 5 c \<Longrightarrow> row_matches c row \<Longrightarrow> dict_get ex c = None"
proof -
  from assms obtain p where p: "tt_pattern row = Some p" "pattern_ok 5 p" and rest: "row_ok row"
    and add: "add_codes row (expand_pattern p) ex = Inr ex'"
    by (auto simp: check_row_def bindR_eq_Inr dec_simps row_ok_def)
  show "row_ok row" by (rule rest)
  show "dict_get ex' c = (if row_matches c row then Some row else dict_get ex c)" if "binary 5 c"
    using that add_codes_get [OF add, of c] p by (simp add: expand_pattern_matches row_matches_def)
  show "dict_get ex c = None" if "binary 5 c" "row_matches c row"
    using that add_codes_fresh [OF add, of c] p by (simp add: expand_pattern_matches row_matches_def)
qed

lemma check_rows_ok: "check_rows rows ex = Inr ex' \<Longrightarrow> \<forall>row \<in> set rows. row_ok row"
  by (induction rows arbitrary: ex) (auto simp: bindR_eq_Inr dest: check_row_facts(1))

lemma check_rows_facts:
  "check_rows rows ex = Inr ex' \<Longrightarrow> binary 5 c \<Longrightarrow>
   filter (row_matches c) rows =
     (case dict_get ex c of Some _ \<Rightarrow> [] | None \<Rightarrow> (case dict_get ex' c of None \<Rightarrow> [] | Some row \<Rightarrow> [row])) \<and>
   (\<forall>row. dict_get ex c = Some row \<longrightarrow> dict_get ex' c = Some row)"
proof (induction rows arbitrary: ex)
  case (Cons r rows)
  from Cons.prems(1) obtain ex1 where r: "check_row r ex = Inr ex1" and rs: "check_rows rows ex1 = Inr ex'"
    by (auto simp: bindR_eq_Inr)
  show ?case
    using check_row_facts(2,3) [OF r Cons.prems(2)] Cons.IH [OF rs Cons.prems(2)]
    by (auto split: option.splits if_splits)
qed (simp split: option.split)

lemma check_rows_wf: "check_rows rows ex = Inr ex' \<Longrightarrow> dict_wf ex \<Longrightarrow> dict_wf ex'"
proof (induction rows arbitrary: ex)
  case (Cons r rows)
  have "dict_wf b" if "add_codes r cs a = Inr b" "dict_wf a" for cs a b
    using that by (induction cs arbitrary: a) (auto simp: dec_simps)
  with Cons show ?case
    by (auto simp: bindR_eq_Inr check_row_def dec_simps)
qed simp

lemma bus_validateE:
  assumes "bus_validate spec = Inr counts"
  obtains ex seen where "check_rows (bs_rows spec) [] = Inr ex" and "dict_keys ex = bin 5 ` {0..<32}"
    and "check_overrides ex (overrides_of spec) = Inr ()" and "check_sizes (bs_sizes spec) [] = Inr seen"
    and "set seen = expected_sizes" and "bus_counts_of spec ex = Inr counts"
  using assms by (auto simp: bus_validate_def bindR_eq_Inr dec_simps)

lemma validated_unique_row:
  assumes "bus_validate spec = Inr counts" and c: "binary 5 c"
  obtains row where "tt_matches spec c = [row]" and "row_ok row" and "row_matches c row" and "row \<in> set (bs_rows spec)"
proof -
  from assms(1) obtain ex seen where ex: "check_rows (bs_rows spec) [] = Inr ex" and keys: "dict_keys ex = bin 5 ` {0..<32}"
    by (rule bus_validateE)
  have "c \<in> bin 5 ` {0..<2 ^ 5}"
    using c binary_strings [of 5] by auto
  then have "c \<in> dict_keys ex" using keys by simp
  then obtain row where row: "dict_get ex c = Some row"
    by (auto simp: dict_keys_iff)
  then have f: "filter (row_matches c) (bs_rows spec) = [row]"
    using check_rows_facts [OF ex c] by simp
  have "row \<in> set (filter (row_matches c) (bs_rows spec))"
    unfolding f by simp
  then have "row_ok row" and "row_matches c row" and "row \<in> set (bs_rows spec)"
    using check_rows_ok [OF ex] by simp_all
  moreover have "tt_matches spec c = [row]"
    unfolding tt_matches_def f [symmetric] by (rule filter_cong) (simp_all add: row_matches_def)
  ultimately show ?thesis using that by simp
qed

section \<open>Overrides and sizes\<close>

lemma check_overrides_facts:
  assumes "check_overrides ex ovs = Inr ()" and "ov \<in> set ovs"
  shows "\<exists>m. ov_master ov = Some m \<and> bm_generation m = Some ''generated''"
  using assms by (induction ovs) (auto simp: bindR_eq_Inr check_override_def dec_simps bind_eq_Some_conv split: if_splits)

lemma count_generated_facts:
  "count_generated rows = Inr n \<Longrightarrow> row \<in> set rows \<Longrightarrow> \<exists>m g. tt_master row = Some m \<and> bm_generation m = Some g"
proof (induction rows arbitrary: n)
  case (Cons r rows)
  then obtain m g k where "tt_master r = Some m" "bm_generation m = Some g" "count_generated rows = Inr k"
    by (cases "tt_master r") (auto simp: bindR_eq_Inr py_key_def split: option.splits)
  then show ?case using Cons by auto
qed simp

lemma check_sizes_facts:
  "check_sizes items seen = Inr seen' \<Longrightarrow>
   set seen' = set seen \<union> (\<lambda>i. (the (sz_tbst i), the (sz_tsiz i))) ` set items \<and>
   (\<forall>i \<in> set items. sz_tbst i \<noteq> None \<and> sz_tsiz i \<noteq> None \<and> sz_status i = Some ''defined'' \<and>
      (\<exists>n. sz_bytes i = Some n \<and> 1 \<le> n \<and> n \<le> 32))"
proof (induction items arbitrary: seen)
  case (Cons i items)
  then obtain tsiz where "check_sizes items ((the (sz_tbst i), tsiz) # seen) = Inr seen'" "sz_tsiz i = Some tsiz"
    by (auto simp: dec_simps bindR_eq_Inr Let_def)
  from Cons.IH [OF this(1)] this(2) show ?case
    using Cons.prems by (auto simp: dec_simps bindR_eq_Inr Let_def split: option.splits)
qed simp

lemma validated_sizes:
  assumes "bus_validate spec = Inr counts"
  shows "find_size spec tbst tsiz \<noteq> None \<longleftrightarrow> (tbst, tsiz) \<in> expected_sizes"
    and "find_size spec tbst tsiz = Some item \<Longrightarrow>
           sz_status item = Some ''defined'' \<and> (\<exists>n. sz_bytes item = Some n \<and> 1 \<le> n \<and> n \<le> 32)"
proof -
  from assms obtain seen where seen: "check_sizes (bs_sizes spec) [] = Inr seen" "set seen = expected_sizes"
    by (rule bus_validateE)
  note sizes = check_sizes_facts [OF seen(1), unfolded seen(2)]
  have listed: "\<forall>i \<in> set (bs_sizes spec). sz_tbst i \<noteq> None \<and> sz_tsiz i \<noteq> None"
    using sizes by blast
  have eq: "expected_sizes = (\<lambda>i. (the (sz_tbst i), the (sz_tsiz i))) ` set (bs_sizes spec)"
    using sizes by simp
  have "(tbst, tsiz) \<in> expected_sizes \<longleftrightarrow> (\<exists>i \<in> set (bs_sizes spec). the (sz_tbst i) = tbst \<and> the (sz_tsiz i) = tsiz)"
    unfolding eq by auto
  also have "\<dots> \<longleftrightarrow> (\<exists>i \<in> set (bs_sizes spec). sz_tbst i = Some tbst \<and> sz_tsiz i = Some tsiz)"
    using listed by (metis option.collapse option.sel)
  finally show "find_size spec tbst tsiz \<noteq> None \<longleftrightarrow> (tbst, tsiz) \<in> expected_sizes"
    unfolding find_size_def find_None_iff by blast
  show "sz_status item = Some ''defined'' \<and> (\<exists>n. sz_bytes item = Some n \<and> 1 \<le> n \<and> n \<le> 32)"
    if "find_size spec tbst tsiz = Some item"
    using that sizes by (auto simp: find_size_def find_Some_iff)
qed

lemma expected_sizes_iff:
  "binary 3 tsiz \<Longrightarrow> tbst \<in> {''asserted'', ''negated''} \<Longrightarrow>
   (tbst, tsiz) \<in> expected_sizes \<longleftrightarrow> tbst = ''negated'' \<or> tsiz = ''010''"
  using binary_is_bin [of 3 tsiz] by (auto simp: expected_sizes_def image_iff)

definition generations :: "string set" where
  "generations = {''generated'', ''not_generated'', ''reserved''}"

lemma generation_status_cases:
  "generation_status g = (if g \<in> generations then Inr (the (map_of [(''generated'', ''supported''), (''not_generated'', ''unsupported_by_profile''),
     (''reserved'', ''reserved_encoding'')] g)) else Inl KeyError)"
  by (auto simp: generation_status_def generations_def)

text \<open>The override of a PID7v profile for a code, and the master entry it leaves in force.\<close>

definition override_for :: "bus_spec \<Rightarrow> string \<Rightarrow> bool \<Rightarrow> abe_override option" where
  "override_for spec bits abe = (if abe then find (\<lambda>ov. ov_pattern ov = Some bits) (overrides_of spec) else None)"

definition master_for :: "bus_spec \<Rightarrow> tt_row \<Rightarrow> string \<Rightarrow> bool \<Rightarrow> bus_master option" where
  "master_for spec row bits abe = (case override_for spec bits abe of None \<Rightarrow> tt_master row | Some ov \<Rightarrow> ov_master ov)"

text \<open>
  What \<open>validate\<close> does not require and \<open>decode_tt\<close> reads with brackets: the command of a defined
  row, the manual's name, the bus transaction, and for a master the list of overrides (under
  a PID7v profile) and one of the three generations.
\<close>

definition key_missing :: "bus_spec \<Rightarrow> tt_row \<Rightarrow> string \<Rightarrow> string \<Rightarrow> bool \<Rightarrow> bool" where
  "key_missing spec row bits role abe \<longleftrightarrow>
     tt_command row = None \<or> tt_manual row = None \<or> tt_transaction row = None \<or>
     role = ''master'' \<and> (abe \<and> bs_overrides spec = None \<or>
       \<not> (\<exists>m g. master_for spec row bits abe = Some m \<and> bm_generation m = Some g \<and> g \<in> generations))"

lemma tt_master_of_validated:
  assumes valid: "bus_validate spec = Inr counts" and row: "row \<in> set (bs_rows spec)"
  shows "(abe \<and> bs_overrides spec = None \<and> tt_master_of spec row bits abe = Inl KeyError) \<or>
    (\<not> (abe \<and> bs_overrides spec = None) \<and> (\<exists>m g. tt_master_of spec row bits abe = Inr m \<and> master_for spec row bits abe = Some m \<and>
       bm_generation m = Some g))"
proof -
  from valid obtain ex where ex: "check_overrides ex (overrides_of spec) = Inr ()" and "bus_counts_of spec ex = Inr counts"
    by (rule bus_validateE)
  then obtain n where "count_generated (bs_rows spec) = Inr n" by (auto simp: bus_counts_of_def bindR_eq_Inr)
  from count_generated_facts [OF this row] obtain m g where m: "tt_master row = Some m" "bm_generation m = Some g" by blast
  have ov: "\<exists>m. ov_master ov = Some m \<and> bm_generation m = Some ''generated''"
    if "find (\<lambda>ov. ov_pattern ov = Some bits) (overrides_of spec) = Some ov" for ov
    using that check_overrides_facts [OF ex, of ov] by (auto simp: find_Some_iff)
  show ?thesis
  proof (cases "abe \<and> bs_overrides spec = None")
    case True
    then show ?thesis by (simp add: tt_master_of_def m)
  next
    case False
    show ?thesis
    proof (cases "override_for spec bits abe")
      case None
      then have "tt_master_of spec row bits abe = Inr m" "master_for spec row bits abe = Some m"
        using False m by (auto simp: tt_master_of_def override_for_def overrides_of_def master_for_def split: option.splits if_splits)
      then show ?thesis using False m(2) by blast
    next
      case (Some ov)
      then have abe: "abe" "find (\<lambda>ov. ov_pattern ov = Some bits) (overrides_of spec) = Some ov"
        by (auto simp: override_for_def split: if_splits)
      then obtain m' where m': "ov_master ov = Some m'" "bm_generation m' = Some ''generated''" using ov by blast
      then have "tt_master_of spec row bits abe = Inr m'" "master_for spec row bits abe = Some m'"
        using False abe Some m by (auto simp: tt_master_of_def overrides_of_def master_for_def)
      then show ?thesis using False m'(2) by blast
    qed
  qed
qed

text \<open>The answer of \<open>decode_tt\<close> once the row is known.\<close>

definition tt_answer :: "bus_spec \<Rightarrow> tt_row \<Rightarrow> string \<Rightarrow> string \<Rightarrow> bool \<Rightarrow> tt_result result" where
  "tt_answer spec row bits role abe =
     bindR (tt_base row bits role) (\<lambda>r.
       if role = ''master'' then
         bindR (tt_master_of spec row bits abe) (\<lambda>m.
         bindR (py_key (bm_generation m)) (\<lambda>g.
         bindR (generation_status g) (\<lambda>status.
           Inr (r\<lparr>tr_profile := Some (if abe then ''pid7v_abe'' else ''generic_603e''), tr_master := Some m, tr_generation := Some status\<rparr>))))
       else if role = ''snoop'' then bindR (py_key (tt_snoop row)) (\<lambda>a. Inr (r\<lparr>tr_action := Some a\<rparr>))
       else Inr r)"

lemma decode_tt_answer:
  assumes "bus_validate spec = Inr counts" "binary 5 bits" "role \<in> {''bus'', ''master'', ''snoop''}" "abe \<Longrightarrow> role = ''master''"
    and "tt_matches spec bits = [row]"
  shows "decode_tt bits role abe spec = tt_answer spec row bits role abe"
  using assms by (auto simp: decode_tt_def dec_require_def tt_answer_def)

text \<open>What an answer reports.\<close>

definition reports :: "bus_spec \<Rightarrow> tt_row \<Rightarrow> string \<Rightarrow> string \<Rightarrow> bool \<Rightarrow> tt_result \<Rightarrow> bool" where
  "reports spec row bits role abe r \<longleftrightarrow>
     tr_bits r = bits \<and> tr_role r = role \<and> Some (tr_pattern r) = tt_pattern row \<and> Some (tr_status r) = tt_status row \<and>
     Some (tr_command r) = tt_command row \<and> Some (tr_manual r) = tt_manual row \<and> Some (tr_transaction r) = tt_transaction row \<and>
     tr_master r = (if role = ''master'' then master_for spec row bits abe else None) \<and>
     tr_action r = (if role = ''snoop'' then tt_snoop row else None)"

lemma tt_answer_cases:
  assumes valid: "bus_validate spec = Inr counts" and row: "row \<in> set (bs_rows spec)"
    and p: "tt_pattern row = Some p" "tt_dont_care row = Some dc" "tt_status row = Some status" "tt_snoop row = Some act"
  shows "if key_missing spec row bits role abe then tt_answer spec row bits role abe = Inl KeyError
    else \<exists>r. tt_answer spec row bits role abe = Inr r \<and> reports spec row bits role abe r"
proof (cases "tt_command row = None \<or> tt_manual row = None \<or> tt_transaction row = None")
  case True
  then have "tt_base row bits role = Inl KeyError" using p by (auto simp: tt_base_def py_key_def split: option.splits)
  moreover have "key_missing spec row bits role abe" using True by (auto simp: key_missing_def)
  ultimately show ?thesis by (simp add: tt_answer_def)
next
  case False
  then obtain command manual transaction where k: "tt_command row = Some command" "tt_manual row = Some manual"
      "tt_transaction row = Some transaction" by auto
  define r where "r = \<lparr>tr_bits = bits, tr_pattern = p, tr_dont_care = dc, tr_status = status, tr_command = command,
    tr_manual = manual, tr_transaction = transaction, tr_role = role, tr_profile = None,
    tr_master = None, tr_generation = None, tr_action = None\<rparr>"
  have base: "tt_base row bits role = Inr r"
    using p k by (simp add: tt_base_def r_def)
  consider (master) "role = ''master''" | (snoop) "role \<noteq> ''master''" "role = ''snoop''" | (bus) "role \<noteq> ''master''" "role \<noteq> ''snoop''"
    by blast
  then show ?thesis
  proof cases
    case master
    then have rs: "(role = ''snoop'') = False" by simp
    have ans: "tt_answer spec row bits role abe = bindR (tt_master_of spec row bits abe) (\<lambda>m.
         bindR (py_key (bm_generation m)) (\<lambda>g. bindR (generation_status g) (\<lambda>status.
           Inr (r\<lparr>tr_profile := Some (if abe then ''pid7v_abe'' else ''generic_603e''), tr_master := Some m, tr_generation := Some status\<rparr>))))"
      unfolding tt_answer_def base by (simp only: bindR_Inr master simp_thms if_True)
    from tt_master_of_validated [OF valid row, of abe bits] show ?thesis
    proof (elim disjE conjE exE)
      assume "abe" "bs_overrides spec = None" and e: "tt_master_of spec row bits abe = Inl KeyError"
      then have "key_missing spec row bits role abe" using master by (simp add: key_missing_def)
      then show ?thesis by (simp add: ans e)
    next
      fix m g assume no: "\<not> (abe \<and> bs_overrides spec = None)" and m: "tt_master_of spec row bits abe = Inr m"
        "master_for spec row bits abe = Some m" "bm_generation m = Some g"
      have miss: "key_missing spec row bits role abe \<longleftrightarrow> g \<notin> generations"
        unfolding key_missing_def k m(2) using no master m(3) by auto
      show ?thesis
      proof (cases "g \<in> generations")
        case True
        then show ?thesis
          unfolding miss ans m(1) reports_def using m(2,3) k p rs
          by (simp add: generation_status_cases master) (simp add: r_def master)
      next
        case False
        then show ?thesis unfolding miss ans m(1) using m(3) by (simp add: generation_status_cases)
      qed
    qed
  next
    case snoop
    then have "tt_answer spec row bits role abe = Inr (r\<lparr>tr_action := Some act\<rparr>)"
      unfolding tt_answer_def base by (simp only: p(4) bindR_Inr py_key_simps if_False if_True simp_thms)
    then show ?thesis using k p snoop by (simp add: key_missing_def reports_def r_def)
  next
    case bus
    then have "tt_answer spec row bits role abe = Inr r"
      by (simp only: tt_answer_def base bindR_Inr if_False)
    then show ?thesis using k p bus by (simp add: key_missing_def reports_def r_def)
  qed
qed

section \<open>Properties\<close>

text \<open>
  C36: Once the manifest validates, the patterns of the transfer-type table partition the
  32 codes: for every five-bit code exactly one row matches.  In every role \<open>decode_tt\<close> either
  reports that row (its pattern, status, command, manual name and bus transaction, the master
  entry with the PID7v override applied, the snoop action), or raises \<open>KeyError\<close>, and that exactly
  when something it reads with brackets and \<open>validate\<close> does not require is missing
  (\<open>key_missing\<close>).  A reserved encoding is always reported with the command \<open>reserved\<close>.
\<close>

theorem decode_tt_unique:
  assumes valid: "bus_validate spec = Inr counts" and bits: "length bits = 5" "set bits \<subseteq> {CHR ''0'', CHR ''1''}"
    and role: "role \<in> {''bus'', ''master'', ''snoop''}" and abe: "abe \<Longrightarrow> role = ''master''"
  shows "\<exists>row p. tt_matches spec bits = [row] \<and> tt_pattern row = Some p \<and> pattern_matches p bits \<and>
    (tt_status row = Some ''reserved'' \<longrightarrow> tt_command row = Some ''reserved'') \<and>
    (if key_missing spec row bits role abe then decode_tt bits role abe spec = Inl KeyError
     else \<exists>r. decode_tt bits role abe spec = Inr r \<and> reports spec row bits role abe r)"
proof -
  have b: "binary 5 bits" using bits by (simp add: binary_def)
  obtain row where row: "tt_matches spec bits = [row]" "row_ok row" "row_matches bits row" "row \<in> set (bs_rows spec)"
    by (rule validated_unique_row [OF valid b])
  then obtain p status act where p: "tt_pattern row = Some p" "tt_dont_care row = Some (x_positions p)" "tt_status row = Some status"
      "tt_snoop row = Some act" and res: "status = ''reserved'' \<Longrightarrow> tt_command row = Some ''reserved''"
    by (auto simp: row_ok_def)
  have "pattern_matches p bits"
    using row(3) p(1) by (simp add: row_matches_def)
  then show ?thesis
    using tt_answer_cases [OF valid row(4) p, of bits role abe] row(1) p res
      decode_tt_answer [OF valid b role abe row(1)]
    by (intro exI [of _ row] exI [of _ p]) simp
qed

text \<open>A small manifest: one defined and one reserved pattern, the nine listed sizes; the defined row has no bus transaction.\<close>

definition bus_sample :: bus_spec where
  "bus_sample =
     (let size = (\<lambda>b t n. \<lparr>sz_tbst = Some b, sz_tsiz = Some t, sz_status = Some ''defined'',
            sz_kind = Some (if b = ''asserted'' then ''cache_line_burst'' else ''nonburst''), sz_bytes = Some n\<rparr>);
          idle = \<lparr>bm_generation = Some ''not_generated'', bm_transaction = Some ''not_applicable'', bm_sources = Some [], bm_non_global = None\<rparr>
      in \<lparr>bs_version = Some 1, bs_tables = map Some [''7-1'', ''7-2'', ''7-3'', ''7-5''],
          bs_rows = [\<lparr>tt_pattern = Some ''0XXXX'', tt_dont_care = Some [1, 2, 3, 4], tt_status = Some ''defined'', tt_snoop = Some ''flush'',
             tt_command = Some ''read'', tt_manual = Some ''Read'', tt_transaction = None, tt_master = Some idle\<rparr>,
            \<lparr>tt_pattern = Some ''1XXXX'', tt_dont_care = Some [1, 2, 3, 4], tt_status = Some ''reserved'', tt_snoop = Some ''not_applicable'',
             tt_command = Some ''reserved'', tt_manual = Some ''Reserved'', tt_transaction = Some ''none'', tt_master = Some idle\<rparr>],
          bs_overrides = Some [],
          bs_sizes = [size ''asserted'' ''010'' 32, size ''negated'' ''000'' 8, size ''negated'' ''001'' 1, size ''negated'' ''010'' 2,
            size ''negated'' ''011'' 3, size ''negated'' ''100'' 4, size ''negated'' ''101'' 5, size ''negated'' ''110'' 6,
            size ''negated'' ''111'' 7],
          bs_expected = Some \<lparr>bc_pattern_rows = 2, bc_expanded = 32, bc_defined = 16, bc_reserved = 16, bc_generated = 0,
            bc_overrides = 0, bc_sizes = 9\<rparr>,
          bs_context = Some \<lparr>cx_address_only = Some ''no size'', cx_external = Some ''resource''\<rparr>,
          bs_mode = [64 \<mapsto> \<lparr>mr_burst_beats = Some 4, mr_nonburst_beats = None\<rparr>,
                     32 \<mapsto> \<lparr>mr_burst_beats = Some 8, mr_nonburst_beats = Some [1 \<mapsto> 1, 2 \<mapsto> 1, 3 \<mapsto> 1, 4 \<mapsto> 1, 8 \<mapsto> 2]\<rparr>]\<rparr>)"

lemma bus_sample_valid: "is_ok (bus_validate bus_sample)"
  by code_simp

lemma bus_sample_counts: "\<exists>counts. bus_validate bus_sample = Inr counts"
  using bus_sample_valid by (simp add: is_ok_iff)

corollary decode_tt_unique_witness:
  "(\<exists>r. decode_tt ''10110'' ''master'' True bus_sample = Inr r \<and> tr_command r = ''reserved'') \<and>
   decode_tt ''00110'' ''bus'' False bus_sample = Inl KeyError"
proof -
  have m: "tt_matches bus_sample ''10110'' = [bs_rows bus_sample ! 1]" "tt_matches bus_sample ''00110'' = [bs_rows bus_sample ! 0]"
    by code_simp+
  obtain counts where v: "bus_validate bus_sample = Inr counts"
    using bus_sample_counts by blast
  have k: "\<not> key_missing bus_sample (bs_rows bus_sample ! 1) ''10110'' ''master'' True"
    "key_missing bus_sample (bs_rows bus_sample ! 0) ''00110'' ''bus'' False" "tt_command (bs_rows bus_sample ! 1) = Some ''reserved''"
    by (simp_all add: key_missing_def bus_sample_def Let_def master_for_def override_for_def overrides_of_def generations_def)
  show ?thesis
    using decode_tt_unique [OF v, of "''10110''" "''master''" True] decode_tt_unique [OF v, of "''00110''" "''bus''" False] k
    by (simp add: m) (auto simp: reports_def)
qed

text \<open>
  Once the manifest validates and has the keys that \<open>decode_size\<close> reads with brackets, it answers every memory query on either bus width: the burst
  combination and the eight unburst ones give the listed size, between 1 and 32 bytes, and exactly the seven other
  combinations are reported as unlisted, with no size.
\<close>

theorem decode_size_listed:
  assumes valid: "bus_validate spec = Inr counts" and tbst: "tbst \<in> {''asserted'', ''negated''}"
    and tsiz: "length tsiz = 3" "set tsiz \<subseteq> {CHR ''0'', CHR ''1''}" and width: "width \<in> {32, 64}"
    and mode: "bs_mode spec width = Some mode" "mr_burst_beats mode \<noteq> None" and beats: "width = 32 \<Longrightarrow> mr_nonburst_beats mode \<noteq> None"
    and texts: "bs_context spec \<noteq> None" and kinds: "\<forall>item \<in> set (bs_sizes spec). sz_kind item \<noteq> None"
  shows "\<exists>r. decode_size tbst tsiz width ''memory'' spec = Inr r \<and>
    (if tbst = ''negated'' \<or> tsiz = ''010'' then sr_status r = ''defined'' \<and> (\<exists>n. sr_bytes r = Some n \<and> 1 \<le> n \<and> n \<le> 32)
     else sr_status r = ''unlisted'' \<and> sr_bytes r = None)"
proof -
  have b: "binary 3 tsiz" using tsiz by (simp add: binary_def)
  have found: "find_size spec tbst tsiz \<noteq> None \<longleftrightarrow> tbst = ''negated'' \<or> tsiz = ''010''"
    by (simp only: validated_sizes(1) [OF valid] expected_sizes_iff [OF b tbst])
  have query: "decode_size tbst tsiz width ''memory'' spec =
      (case find_size spec tbst tsiz of
         None \<Rightarrow> Inr ((size_blank tbst tsiz width ''memory'' ''unlisted'')\<lparr>sr_meaning := Some ''unlisted''\<rparr>)
       | Some item \<Rightarrow>
           bindR (py_key (sz_status item)) (\<lambda>status.
           bindR (size_beats spec item width) (\<lambda>beats.
             Inr ((size_blank tbst tsiz width ''memory'' status)
                    \<lparr>sr_kind := sz_kind item, sr_bytes := sz_bytes item, sr_beats := beats,
                     sr_mode_status := Some (if beats = None then ''unresolved_without_alignment_tables''
                                             else ''defined_for_table_7_5_bus_transfer'')\<rparr>))))"
    using valid tbst b width texts by (auto simp: decode_size_def dec_require_def)
  show ?thesis
  proof (cases "find_size spec tbst tsiz")
    case None
    with found show ?thesis by (simp add: query size_blank_def)
  next
    case (Some item)
    with validated_sizes(2) [OF valid Some] obtain n
      where item: "sz_status item = Some ''defined''" "sz_bytes item = Some n" "1 \<le> n" "n \<le> 32" by blast
    have "item \<in> set (bs_sizes spec)" using Some by (auto simp: find_size_def find_Some_iff)
    then obtain kind burst where k: "sz_kind item = Some kind" "mr_burst_beats mode = Some burst" using kinds mode(2) by auto
    obtain beats where "size_beats spec item width = Inr beats"
      using mode(1) k width beats item(2) by (fastforce simp: size_beats_def)
    with found Some item show ?thesis by (simp add: query size_blank_def)
  qed
qed

corollary decode_size_listed_witness:
  "\<exists>r. decode_size ''negated'' ''101'' 32 ''memory'' bus_sample = Inr r \<and>
    (if ''negated'' = ''negated'' \<or> ''101'' = ''010'' then sr_status r = ''defined'' \<and> (\<exists>n. sr_bytes r = Some n \<and> 1 \<le> n \<and> n \<le> 32)
     else sr_status r = ''unlisted'' \<and> sr_bytes r = None)"
proof -
  obtain counts where "bus_validate bus_sample = Inr counts"
    using bus_sample_counts by blast
  then show ?thesis
    by (rule decode_size_listed [where mode = "\<lparr>mr_burst_beats = Some 8, mr_nonburst_beats = Some [1 \<mapsto> 1, 2 \<mapsto> 1, 3 \<mapsto> 1, 4 \<mapsto> 1, 8 \<mapsto> 2]\<rparr>"])
       (simp_all add: bus_sample_def Let_def)
qed

end
