(* ===== verification/Bus_Provenance.thy ===== *)
theory Bus_Provenance
  imports Dict
begin

text \<open>
  The head of \<open>validate\<close> in \<open>sim/tools/bus_address.py\<close>: the contract, the source pages, the lane
  signals, the conventions, the completed tables and the source conflicts of the manifest, and the
  width notes checked further down.  A JSON object is a record, a key that the code reads with
  \<open>get\<close> or that some objects lack an option; a convention that is not a string counts
  as missing.  The em dash of the tables is written \<open>''-''\<close>.
\<close>

section \<open>The records\<close>

record source_note =
  sn_id :: string
  sn_path :: string
  sn_sections :: "string list"
  sn_pdf :: "int list"
  sn_printed :: "string list"
  sn_checked :: bool

record lane_source =
  lc_section :: string
  lc_pdf :: "int list"
  lc_printed :: "string list"
  lc_signals :: "(string, string) dict"
  lc_scope :: string

record completed_table =
  ct_table :: "string option"
  ct_title :: string
  ct_pdf :: int
  ct_printed :: string
  ct_coverage :: string

record source_conflict =
  sc_id :: string
  sc_location :: string
  sc_tsiz :: "string option"
  sc_implied :: "int option"
  sc_marks :: "int list option"
  sc_normal_tsiz :: "string option"
  sc_symbol :: "string option"
  sc_normal_symbol :: "string option"
  sc_basis :: string
  sc_effect :: "string option"
  sc_status :: string

record width_note =
  wn_aligned :: string
  wn_four_byte :: string
  wn_lanes :: string
  wn_doubleword :: string

record addr_head =
  ah_contract :: "string option"
  ah_source :: "source_note option"
  ah_lane_source :: "lane_source option"
  ah_conventions :: "(string, string) dict"
  ah_completed :: "completed_table list"
  ah_conflicts :: "source_conflict list"
  ah_width32 :: "width_note option"

definition addr_err :: "string \<Rightarrow> 'a result" where
  "addr_err m = Inl (AddressError m)"

definition addr_require :: "bool \<Rightarrow> string \<Rightarrow> 'a result \<Rightarrow> 'a result" where
  "addr_require cond m rest = (if cond then rest else addr_err m)"

section \<open>The expected values\<close>

definition expected_contract :: string where
  "expected_contract = ''MPC603e Tables 8-4 through 8-7 address, size, and physical data-lane decomposition''"

definition expected_source :: source_note where
  "expected_source =
     \<lparr>sn_id = ''UM'', sn_path = ''1997_MPC603EUM_MPC603e_EC603e_Users_Manual.pdf'',
      sn_sections = [''8.3.2.4'', ''8.3.2.5''], sn_pdf = [323, 324, 325, 326, 327],
      sn_printed = [''8-15'', ''8-16'', ''8-17'', ''8-18'', ''8-19''], sn_checked = True\<rparr>"

definition expected_lane_source :: lane_source where
  "expected_lane_source =
     \<lparr>lc_section = ''7.2.7.1, Table 7-7; 8.6.1'', lc_pdf = [295, 346], lc_printed = [''7-19'', ''8-38''],
      lc_signals =
        [(''0'', ''DH[0:7]''), (''1'', ''DH[8:15]''), (''2'', ''DH[16:23]''), (''3'', ''DH[24:31]''),
         (''4'', ''DL[0:7]''), (''5'', ''DL[8:15]''), (''6'', ''DL[16:23]''), (''7'', ''DL[24:31]'')],
      lc_scope = ''physical signal groups only; operand byte order and endian steering are not specified by this mapping''\<rparr>"

definition expected_completed :: "completed_table list" where
  "expected_completed =
     [\<lparr>ct_table = Some ''8-6'', ct_title = ''Aligned Data Transfers (32-Bit Bus Mode)'', ct_pdf = 326,
       ct_printed = ''8-18'', ct_coverage = ''all 15 aligned request rows, all 16 data-beat rows, and all rendered lane cells''\<rparr>,
      \<lparr>ct_table = Some ''8-7'', ct_title = ''Misaligned 32-Bit Data Bus Transfer (Four-Byte Examples)'', ct_pdf = 327,
       ct_printed = ''8-19'', ct_coverage = ''all eight starting A[29:31] values, all 14 resulting access rows, and all rendered lane cells''\<rparr>]"

definition expected_conflicts :: "source_conflict list" where
  "expected_conflicts =
     [\<lparr>sc_id = ''T8-5-OFFSET010-SECOND-TSIZ'', sc_location = ''Table 8-5, start A[29:31]=010, second access'',
       sc_tsiz = Some ''011'', sc_implied = Some 2, sc_marks = Some [4, 5], sc_normal_tsiz = Some ''010'',
       sc_symbol = None, sc_normal_symbol = None,
       sc_basis = ''Table 8-1 maps two bytes to TSIZ=010; the row marks two lanes; the mirrored start A[29:31]=110 second access prints TSIZ=010; and the corresponding Table 8-7 row prints TSIZ=010.'',
       sc_effect = None,
       sc_status = ''probable_manual_editorial_error_preserved_and_normalization_explicit''\<rparr>,
      \<lparr>sc_id = ''T8-6-BYTE001-LANE2-SYMBOL'', sc_location = ''Table 8-6, byte A[29:31]=001, lane 2'',
       sc_tsiz = None, sc_implied = None, sc_marks = None, sc_normal_tsiz = None,
       sc_symbol = Some ''x'', sc_normal_symbol = Some ''-'',
       sc_basis = ''The note defines x as a lane not used in 32-bit mode, but lane 2 is part of DH[0:31] and is marked A for byte A[29:31]=010; the remaining unused cells in lanes 0 through 3 print an em dash.'',
       sc_effect = Some ''none; active lanes are taken only from printed A marks'',
       sc_status = ''probable_manual_editorial_error_preserved_and_normalization_explicit''\<rparr>,
      \<lparr>sc_id = ''T8-7-OFFSET001-FIRST-LANE0-SYMBOL'', sc_location = ''Table 8-7, start A[29:31]=001, first access, lane 0'',
       sc_tsiz = None, sc_implied = None, sc_marks = None, sc_normal_tsiz = None,
       sc_symbol = Some ''blank'', sc_normal_symbol = Some ''-'',
       sc_basis = ''The note defines A, em dash, and x but no blank; lane 0 is outside this three-byte access and corresponding unused cells in lanes 0 through 3 print an em dash.'',
       sc_effect = Some ''none; active lanes are taken only from printed A marks'',
       sc_status = ''probable_manual_editorial_omission_preserved_and_normalization_explicit''\<rparr>,
      \<lparr>sc_id = ''T8-7-OFFSET010-SECOND-LANE3-SYMBOL'', sc_location = ''Table 8-7, start A[29:31]=010, second access, lane 3'',
       sc_tsiz = None, sc_implied = None, sc_marks = None, sc_normal_tsiz = None,
       sc_symbol = Some ''x'', sc_normal_symbol = Some ''-'',
       sc_basis = ''The note defines x as a lane not used in 32-bit mode, but lane 3 is part of DH[0:31] and other unused cells in lanes 0 through 3 print an em dash.'',
       sc_effect = Some ''none; active lanes are taken only from printed A marks'',
       sc_status = ''probable_manual_editorial_error_preserved_and_normalization_explicit''\<rparr>]"

definition expected_width32 :: width_note where
  "expected_width32 =
     \<lparr>wn_aligned = ''direct_table_8_6'', wn_four_byte = ''direct_table_8_7'',
      wn_lanes = ''physical lanes 0 through 3 and DH signal slices returned without operand-byte/endian mapping'',
      wn_doubleword = ''one data transaction with two Table 8-6 beats; source A/TSIZ/lane fields retained per beat without inferred second address''\<rparr>"

section \<open>The checks\<close>

definition convention_fields :: "string list" where
  "convention_fields =
     [''bit_numbering'', ''address'', ''table_lane_marks'', ''physical_lanes'', ''endian_scope'', ''decomposition'',
      ''doubleword_32'', ''scope_rejection'']"

text \<open>\<open>sub in s\<close>\<close>

definition contains :: "string \<Rightarrow> string \<Rightarrow> bool" where
  "contains sub s = list_ex (\<lambda>i. take (length sub) (drop i s) = sub) [0..<length s + 1]"

definition same_lane_source :: "lane_source \<Rightarrow> lane_source \<Rightarrow> bool" where
  "same_lane_source a b \<longleftrightarrow> dict_eq (lc_signals a) (lc_signals b) \<and> a\<lparr>lc_signals := []\<rparr> = b\<lparr>lc_signals := []\<rparr>"

fun check_conventions :: "(string, string) dict \<Rightarrow> string list \<Rightarrow> unit result" where
  "check_conventions cs [] = Inr ()"
| "check_conventions cs (f # fs) =
     addr_require (dict_get cs f \<notin> {None, Some []}) ''must be a nonempty scope statement'' (check_conventions cs fs)"

definition check_head :: "addr_head \<Rightarrow> unit result" where
  "check_head h =
     addr_require (ah_contract h = Some expected_contract) ''contract''
       (addr_require (ah_source h = Some expected_source) ''primary source provenance''
         (addr_require (case ah_lane_source h of None \<Rightarrow> False | Some l \<Rightarrow> same_lane_source l expected_lane_source)
             ''physical lane-to-signal provenance''
           (bindR (check_conventions (ah_conventions h) convention_fields) (\<lambda>_.
           bindR (py_key (dict_get (ah_conventions h) ''address'')) (\<lambda>address.
             addr_require (contains ''already bus-side'' address) ''address convention''
               (bindR (py_key (dict_get (ah_conventions h) ''endian_scope'')) (\<lambda>endian.
                 addr_require (contains ''do not assign operand-byte significance'' endian) ''endian scope''
                   (addr_require (map ct_table (ah_completed h) = map Some [''8-4'', ''8-5'', ''8-6'', ''8-7'']) ''tables_completed''
                     (addr_require (drop 2 (ah_completed h) = expected_completed) ''completion provenance or coverage differs''
                       (addr_require (ah_conflicts h = expected_conflicts) ''conflicts must be preserved exactly''
                         (Inr ())))))))))))"

text \<open>A head that passes.\<close>

definition head_sample :: addr_head where
  "head_sample =
     \<lparr>ah_contract = Some expected_contract, ah_source = Some expected_source, ah_lane_source = Some expected_lane_source,
      ah_conventions = map (\<lambda>f. (f, if f = ''address'' then ''already bus-side'' else ''do not assign operand-byte significance''))
        convention_fields,
      ah_completed =
        [\<lparr>ct_table = Some ''8-4'', ct_title = ''Aligned'', ct_pdf = 323, ct_printed = ''8-15'', ct_coverage = ''rows''\<rparr>,
         \<lparr>ct_table = Some ''8-5'', ct_title = ''Misaligned'', ct_pdf = 325, ct_printed = ''8-17'', ct_coverage = ''rows''\<rparr>] @
        expected_completed,
      ah_conflicts = expected_conflicts, ah_width32 = Some expected_width32\<rparr>"

lemma head_sample_ok: "check_head head_sample = Inr ()"
proof -
  have "check_conventions (ah_conventions head_sample) convention_fields = Inr ()"
    and "dict_get (ah_conventions head_sample) ''address'' = Some ''already bus-side''"
    and "dict_get (ah_conventions head_sample) ''endian_scope'' = Some ''do not assign operand-byte significance''"
    and "contains ''already bus-side'' ''already bus-side''"
    and "contains ''do not assign operand-byte significance'' ''do not assign operand-byte significance''"
    and "map ct_table (ah_completed head_sample) = map Some [''8-4'', ''8-5'', ''8-6'', ''8-7'']"
    by code_simp+
  moreover have "ah_contract head_sample = Some expected_contract" "ah_source head_sample = Some expected_source"
    "ah_lane_source head_sample = Some expected_lane_source" "drop 2 (ah_completed head_sample) = expected_completed"
    "ah_conflicts head_sample = expected_conflicts"
    by (simp_all add: head_sample_def)
  moreover have "same_lane_source expected_lane_source expected_lane_source"
    by (simp add: same_lane_source_def)
  ultimately show ?thesis
    by (simp only: check_head_def addr_require_def if_True option.case bindR_Inr py_key_simps simp_thms)
qed

end
