(* ===== verification/Bus_Address.thy ===== *)
theory Bus_Address
  imports Bus_Decode Bus_Provenance
begin

text \<open>
  \<open>sim/tools/bus_address.py\<close>: the expected rows of the four transfer tables, \<open>validate\<close> and \<open>query\<close>.
  A JSON object is a record; a key that some rows lack is an option.  A row of a table that
  lacks any other key differs from the expected row, so \<open>validate\<close> rejects it like any other
  differing row, and such keys are plain fields; \<open>coherency_boundary_rule\<close> and its \<open>rule\<close> are
  not validated, and \<open>query\<close> reads them with brackets when a request crosses 32 bytes.  The em dash
  that marks an unused lane in the tables is written \<open>''-''\<close>.  Of an answer the fixed texts and
  the hexadecimal renderings of its addresses are left out.
\<close>

section \<open>Rows of the tables\<close>

record lane_norm =
  ln_lane :: int
  ln_symbol :: string
  ln_normal :: string
  ln_conflict :: string

record data_beat =
  db_sequence :: string
  db_label :: string
  db_tsiz :: string
  db_a29 :: string
  db_bytes :: int
  db_bits :: string
  db_marks :: "int list"
  db_cells :: "string list"

record table_row =
  ar_size :: int
  ar_tsiz :: string
  ar_a29 :: string
  ar_beat_count :: "int option"
  ar_marks :: "int list"
  ar_cells :: "string list option"
  ar_norms :: "lane_norm list option"
  ar_beats :: "data_beat list option"

text \<open>An access: its place in the sequence, its address offset and the columns of a row.\<close>

record table_access =
  ba_sequence :: string
  ba_delta :: int
  ba_row :: table_row
  ba_source_tsiz :: "string option"
  ba_tsiz_status :: "string option"
  ba_conflict :: "string option"

record table_case =
  ca_start :: string
  ca_alignment :: string
  ca_accesses :: "table_access list"

definition addr_bits :: "string \<Rightarrow> nat \<Rightarrow> string result" where
  "addr_bits value width =
     addr_require (length value = width \<and> set value \<subseteq> {CHR ''0'', CHR ''1''}) ''binary digits'' (Inr value)"

section \<open>The expected tables\<close>

text \<open>\<open>range(0, stop, step)\<close> and \<open>f"{v:03b}"\<close>, whose width counts the sign\<close>

definition range_step :: "int \<Rightarrow> int \<Rightarrow> int list" where
  "range_step stop s = map ((*) s) [0..(stop - 1) div s]"

definition bin3 :: "int \<Rightarrow> string" where
  "bin3 v = (if v < 0 then CHR ''-'' # bin 2 (nat (- v)) else bin 3 (nat v))"

definition tsiz_of :: "int \<Rightarrow> string" where
  "tsiz_of n = (if n = 1 then ''001'' else if n = 2 then ''010'' else if n = 3 then ''011'' else if n = 4 then ''100'' else ''000'')"

definition expected_aligned_rows :: "table_row list" where
  "expected_aligned_rows =
     concat (map (\<lambda>n. map (\<lambda>off.
         \<lparr>ar_size = n, ar_tsiz = tsiz_of n, ar_a29 = bin3 off, ar_beat_count = None, ar_marks = [off..off + n - 1],
          ar_cells = None, ar_norms = None, ar_beats = None\<rparr>) (range_step 8 n)) [1, 2, 4, 8])"

definition expected_four_byte_case :: "int \<Rightarrow> table_case" where
  "expected_four_byte_case off =
     (let row = (\<lambda>n o'. \<lparr>ar_size = n, ar_tsiz = tsiz_of n, ar_a29 = bin3 o', ar_beat_count = None, ar_marks = [o'..o' + n - 1],
            ar_cells = None, ar_norms = None, ar_beats = None\<rparr>);
          acc = (\<lambda>sq delta n o'. \<lparr>ba_sequence = sq, ba_delta = delta, ba_row = row n o', ba_source_tsiz = None,
            ba_tsiz_status = None, ba_conflict = None\<rparr>)
      in if off mod 4 = 0 then
           \<lparr>ca_start = bin3 off, ca_alignment = ''aligned'', ca_accesses = [acc ''only'' 0 4 off]\<rparr>
         else
           let in_word = off mod 4; first_size = 4 - in_word; second_size = in_word; second_offset = (off div 4 * 4 + 4) mod 8;
               second = acc ''second'' first_size second_size second_offset;
               second = (if off = 2 then
                   second\<lparr>ba_source_tsiz := Some ''011'',
                     ba_tsiz_status := Some ''provisional_normalization_of_probable_manual_editorial_error'',
                     ba_conflict := Some ''T8-5-OFFSET010-SECOND-TSIZ''\<rparr> else second)
           in \<lparr>ca_start = bin3 off, ca_alignment = ''misaligned'', ca_accesses = [acc ''first'' 0 first_size off, second]\<rparr>)"

definition lane_cells :: "int list \<Rightarrow> int \<Rightarrow> string list" where
  "lane_cells marks width =
     map (\<lambda>lane. if lane \<in> set marks then ''A'' else if lane < width div 8 then ''-'' else ''x'') [0..7]"

definition aligned_32_row :: "int \<Rightarrow> int \<Rightarrow> table_row" where
  "aligned_32_row n off =
     (let marks = [off mod 4..off mod 4 + n - 1]; cells = lane_cells marks 32; odd = (n = 1 \<and> off = 1)
      in \<lparr>ar_size = n, ar_tsiz = tsiz_of n, ar_a29 = bin3 off, ar_beat_count = Some 1, ar_marks = marks,
          ar_cells = Some (if odd then cells[2 := ''x''] else cells),
          ar_norms = (if odd then Some [\<lparr>ln_lane = 2, ln_symbol = ''x'', ln_normal = ''-'', ln_conflict = ''T8-6-BYTE001-LANE2-SYMBOL''\<rparr>]
                      else None),
          ar_beats = None\<rparr>)"

definition doubleword_beat :: "string \<Rightarrow> string \<Rightarrow> data_beat" where
  "doubleword_beat sq label =
     \<lparr>db_sequence = sq, db_label = label, db_tsiz = ''000'', db_a29 = ''000'', db_bytes = 4, db_bits = ''DH[0:31]'',
      db_marks = [0, 1, 2, 3], db_cells = [''A'', ''A'', ''A'', ''A'', ''x'', ''x'', ''x'', ''x'']\<rparr>"

definition expected_aligned_32_rows :: "table_row list" where
  "expected_aligned_32_rows =
     concat (map (\<lambda>n. map (aligned_32_row n) (range_step 8 n)) [1, 2, 4]) @
     [\<lparr>ar_size = 8, ar_tsiz = ''000'', ar_a29 = ''000'', ar_beat_count = Some 2, ar_marks = [0, 1, 2, 3],
       ar_cells = Some [''A'', ''A'', ''A'', ''A'', ''x'', ''x'', ''x'', ''x''], ar_norms = None,
       ar_beats = Some [doubleword_beat ''first'' ''Double word'', doubleword_beat ''second'' ''Second beat'']\<rparr>]"

definition four_byte_32_access :: "int \<Rightarrow> string \<Rightarrow> int \<Rightarrow> int \<Rightarrow> int \<Rightarrow> table_access" where
  "four_byte_32_access off sq delta n a_off =
     (let marks = [a_off mod 4..a_off mod 4 + n - 1]; cells = lane_cells marks 32;
          blank = (off = 1 \<and> sq = ''first''); crossed = (off = 2 \<and> sq = ''second'');
          cells = (if blank then cells[0 := ''''] else cells);
          cells = (if crossed then cells[3 := ''x''] else cells);
          norms = (if blank then [\<lparr>ln_lane = 0, ln_symbol = ''blank'', ln_normal = ''-'',
                      ln_conflict = ''T8-7-OFFSET001-FIRST-LANE0-SYMBOL''\<rparr>] else []) @
                  (if crossed then [\<lparr>ln_lane = 3, ln_symbol = ''x'', ln_normal = ''-'',
                      ln_conflict = ''T8-7-OFFSET010-SECOND-LANE3-SYMBOL''\<rparr>] else [])
      in \<lparr>ba_sequence = sq, ba_delta = delta,
          ba_row = \<lparr>ar_size = n, ar_tsiz = tsiz_of n, ar_a29 = bin3 a_off, ar_beat_count = Some 1, ar_marks = marks,
            ar_cells = Some cells, ar_norms = (if norms = [] then None else Some norms), ar_beats = None\<rparr>,
          ba_source_tsiz = None, ba_tsiz_status = None, ba_conflict = None\<rparr>)"

definition expected_four_byte_32_case :: "int \<Rightarrow> table_case" where
  "expected_four_byte_32_case off =
     (if off mod 4 = 0 then
        \<lparr>ca_start = bin3 off, ca_alignment = ''aligned'', ca_accesses = [four_byte_32_access off ''only'' 0 4 off]\<rparr>
      else
        let first_size = 4 - off mod 4
        in \<lparr>ca_start = bin3 off, ca_alignment = ''misaligned'',
            ca_accesses = [four_byte_32_access off ''first'' 0 first_size off,
              four_byte_32_access off ''second'' first_size (4 - first_size) ((off div 4 * 4 + 4) mod 8)]\<rparr>)"

definition data_signals :: "string list" where
  "data_signals = [''DH[0:7]'', ''DH[8:15]'', ''DH[16:23]'', ''DH[24:31]'', ''DL[0:7]'', ''DL[8:15]'', ''DL[16:23]'', ''DL[24:31]'']"

fun active_data_signals :: "int list \<Rightarrow> string list result" where
  "active_data_signals [] = Inr []"
| "active_data_signals (l # ls) =
     bindR (py_get data_signals l) (\<lambda>s. bindR (active_data_signals ls) (\<lambda>ss. Inr (s # ss)))"

section \<open>Validation\<close>

record addr_counts =
  n84_rows :: int
  n84_byte :: int
  n84_half :: int
  n84_word :: int
  n84_double :: int
  n85_cases :: int
  n85_accesses :: int
  n85_aligned :: int
  n85_misaligned :: int
  n86_rows :: int
  n86_beats :: int
  n86_byte :: int
  n86_half :: int
  n86_word :: int
  n86_double :: int
  n87_cases :: int
  n87_accesses :: int
  n87_aligned :: int
  n87_misaligned :: int

record addr_spec =
  as_version :: "int option"
  as_head :: addr_head
  as_tsiz :: "(string \<times> string) list"
  as_rows84 :: "table_row list"
  as_cases85 :: "table_case list"
  as_rows86 :: "table_row list"
  as_cases87 :: "table_case list"
  as_expected :: "addr_counts option"
  as_coherency_rule :: "string option"

fun check_row_bits :: "table_row list \<Rightarrow> unit result" where
  "check_row_bits [] = Inr ()"
| "check_row_bits (row # rows) =
     bindR (addr_bits (ar_tsiz row) 3) (\<lambda>_. bindR (addr_bits (ar_a29 row) 3) (\<lambda>_. check_row_bits rows))"

definition marked_lanes :: "string list \<Rightarrow> int list" where
  "marked_lanes cells = map int (filter (\<lambda>i. cells ! i = ''A'') [0..<length cells])"

fun check_rows_32 :: "table_row list \<Rightarrow> unit result" where
  "check_rows_32 [] = Inr ()"
| "check_rows_32 (row # rows) =
     bindR (addr_bits (ar_tsiz row) 3) (\<lambda>_.
     bindR (addr_bits (ar_a29 row) 3) (\<lambda>_.
     bindR (py_key (ar_cells row)) (\<lambda>cells.
       addr_require (ar_marks row = marked_lanes cells) ''Table 8-6 active lane marks disagree with raw A cells''
         (check_rows_32 rows))))"

fun check_cases :: "(int \<Rightarrow> table_case) \<Rightarrow> int \<Rightarrow> table_case list \<Rightarrow> unit result" where
  "check_cases expected off [] = Inr ()"
| "check_cases expected off (case1 # cases) =
     addr_require (case1 = expected off) ''case differs from the rendered row''
       (addr_require (sum_list (map (\<lambda>a. ar_size (ba_row a)) (ca_accesses case1)) = 4) ''case does not total four bytes''
         (check_cases expected (off + 1) cases))"

definition expected_tsiz :: "(string \<times> string) list" where
  "expected_tsiz = [(''1'', ''001''), (''2'', ''010''), (''3'', ''011''), (''4'', ''100''), (''8'', ''000'')]"

definition count_of :: "('a \<Rightarrow> bool) \<Rightarrow> 'a list \<Rightarrow> int" where
  "count_of P xs = int (length (filter P xs))"

definition addr_counts_of :: "addr_spec \<Rightarrow> addr_counts" where
  "addr_counts_of spec =
     (let n = (\<lambda>k rows. count_of (\<lambda>r. ar_size r = k) rows); al = (\<lambda>s cases. count_of (\<lambda>c. ca_alignment c = s) cases);
          accs = (\<lambda>cases. sum_list (map (\<lambda>c. int (length (ca_accesses c))) cases))
      in \<lparr>n84_rows = int (length (as_rows84 spec)), n84_byte = n 1 (as_rows84 spec), n84_half = n 2 (as_rows84 spec),
          n84_word = n 4 (as_rows84 spec), n84_double = n 8 (as_rows84 spec), n85_cases = int (length (as_cases85 spec)),
          n85_accesses = accs (as_cases85 spec), n85_aligned = al ''aligned'' (as_cases85 spec),
          n85_misaligned = al ''misaligned'' (as_cases85 spec), n86_rows = int (length (as_rows86 spec)),
          n86_beats = sum_list (map (\<lambda>r. case ar_beat_count r of None \<Rightarrow> 0 | Some b \<Rightarrow> b) (as_rows86 spec)),
          n86_byte = n 1 (as_rows86 spec), n86_half = n 2 (as_rows86 spec), n86_word = n 4 (as_rows86 spec),
          n86_double = n 8 (as_rows86 spec), n87_cases = int (length (as_cases87 spec)), n87_accesses = accs (as_cases87 spec),
          n87_aligned = al ''aligned'' (as_cases87 spec), n87_misaligned = al ''misaligned'' (as_cases87 spec)\<rparr>)"

definition addr_validate :: "addr_spec \<Rightarrow> addr_counts result" where
  "addr_validate spec =
     addr_require (as_version spec = Some 1) ''unsupported schema_version''
       (bindR (check_head (as_head spec)) (\<lambda>_.
         addr_require (dict_eq (as_tsiz spec) expected_tsiz) ''TSIZ size mapping''
           (addr_require (ah_width32 (as_head spec) = Some expected_width32) ''32-bit width applicability''
             (addr_require (as_rows84 spec = expected_aligned_rows) ''Table 8-4 rows''
               (bindR (check_row_bits (as_rows84 spec)) (\<lambda>_.
                 addr_require (map ca_start (as_cases85 spec) = map bin3 [0..7]) ''Table 8-5 starts''
                   (bindR (check_cases expected_four_byte_case 0 (as_cases85 spec)) (\<lambda>_.
                     addr_require (as_rows86 spec = expected_aligned_32_rows) ''Table 8-6 rows''
                       (bindR (check_rows_32 (as_rows86 spec)) (\<lambda>_.
                         addr_require (map ca_start (as_cases87 spec) = map bin3 [0..7]) ''Table 8-7 starts''
                           (bindR (check_cases expected_four_byte_32_case 0 (as_cases87 spec)) (\<lambda>_.
                             addr_require (Some (addr_counts_of spec) = as_expected spec) ''count mismatch''
                               (Inr (addr_counts_of spec))))))))))))))"

section \<open>Queries\<close>

definition MAX_ADDRESS :: int where
  "MAX_ADDRESS = 0xFFFFFFFF"

definition check_query :: "int \<Rightarrow> int \<Rightarrow> int \<Rightarrow> unit result" where
  "check_query address n width =
     addr_require (0 \<le> address \<and> address \<le> MAX_ADDRESS) ''address must be a 32-bit unsigned byte address''
       (addr_require (n \<in> {1, 2, 4, 8}) ''size must be 1, 2, 4, or 8 bytes''
         (addr_require (width \<in> {32, 64}) ''bus_width must be 32 or 64''
           (addr_require (address + n - 1 \<le> MAX_ADDRESS) ''query wraps beyond the 32-bit physical address space'' (Inr ()))))"

record beat_result =
  br_beat :: data_beat
  br_signals :: "string list"

record access_result =
  xr_sequence :: string
  xr_address :: int
  xr_a29 :: string
  xr_size :: int
  xr_tsiz :: string
  xr_beat_count :: int
  xr_table :: string
  xr_table_rows :: "string list"
  xr_source_tsiz :: "string option"
  xr_tsiz_status :: "string option"
  xr_conflict :: "string option"
  xr_marks :: "int list"
  xr_signals :: "string list"
  xr_cells :: "string list option"
  xr_norms :: "lane_norm list option"
  xr_beats :: "beat_result list option"

record query_result =
  qr_address :: int
  qr_a29 :: string
  qr_size :: int
  qr_width :: int
  qr_status :: string
  qr_alignment :: string
  qr_count :: int
  qr_accesses :: "access_result list"
  qr_crosses_word :: bool
  qr_crosses_coherency :: bool
  qr_coherency_action :: string
  qr_tables :: "string list"
  qr_width_basis :: string

fun beat_results :: "data_beat list \<Rightarrow> beat_result list result" where
  "beat_results [] = Inr []"
| "beat_results (b # bs) =
     bindR (active_data_signals (db_marks b)) (\<lambda>s.
     bindR (beat_results bs) (\<lambda>rs. Inr (\<lparr>br_beat = b, br_signals = s\<rparr> # rs)))"

definition query_access :: "int \<Rightarrow> string \<Rightarrow> string list \<Rightarrow> string \<Rightarrow> table_access \<Rightarrow> access_result result" where
  "query_access address table tables alignment item =
     (let row = ba_row item
      in bindR (active_data_signals (ar_marks row)) (\<lambda>signals.
         bindR (case ar_beats row of None \<Rightarrow> Inr None | Some bs \<Rightarrow> bindR (beat_results bs) (\<lambda>rs. Inr (Some rs))) (\<lambda>beats.
           Inr \<lparr>xr_sequence = ba_sequence item, xr_address = address + ba_delta item, xr_a29 = ar_a29 row, xr_size = ar_size row,
                xr_tsiz = ar_tsiz row, xr_beat_count = (case ar_beat_count row of None \<Rightarrow> 1 | Some c \<Rightarrow> c), xr_table = table,
                xr_table_rows = (if alignment = ''aligned'' then tables else [table]), xr_source_tsiz = ba_source_tsiz item,
                xr_tsiz_status = ba_tsiz_status item, xr_conflict = ba_conflict item, xr_marks = ar_marks row,
                xr_signals = signals, xr_cells = ar_cells row, xr_norms = ar_norms row, xr_beats = beats\<rparr>)))"

fun query_accesses :: "int \<Rightarrow> string \<Rightarrow> string list \<Rightarrow> string \<Rightarrow> table_access list \<Rightarrow> access_result list result" where
  "query_accesses address table tables alignment [] = Inr []"
| "query_accesses address table tables alignment (i # is) =
     bindR (query_access address table tables alignment i) (\<lambda>a.
     bindR (query_accesses address table tables alignment is) (\<lambda>as. Inr (a # as)))"

text \<open>The case that answers a query, with the tables it comes from.\<close>

definition next_of :: "('a \<Rightarrow> bool) \<Rightarrow> 'a list \<Rightarrow> 'a result" where
  "next_of P xs = (case find P xs of None \<Rightarrow> Inl StopIteration | Some x \<Rightarrow> Inr x)"

definition query_case :: "int \<Rightarrow> int \<Rightarrow> int \<Rightarrow> addr_spec \<Rightarrow> (table_case \<times> string list) result" where
  "query_case address n width spec =
     (let off = address AND 7
      in if n = 4 then
           bindR (next_of (\<lambda>c. ca_start c = bin3 off) (if width = 64 then as_cases85 spec else as_cases87 spec)) (\<lambda>c.
             let t = (if width = 64 then ''8-5'' else ''8-7'')
             in Inr (c, if ca_alignment c = ''aligned'' then [if width = 64 then ''8-4'' else ''8-6'', t] else [t]))
         else if address mod n \<noteq> 0 then Inl (ScopeError ''outside_selected_tables'')
         else
           (case find (\<lambda>r. ar_size r = n \<and> ar_a29 r = bin3 off) (if width = 64 then as_rows84 spec else as_rows86 spec) of
              None \<Rightarrow> Inl (ScopeError ''no matching Table row'')
            | Some row \<Rightarrow>
                Inr (\<lparr>ca_start = bin3 off, ca_alignment = ''aligned'',
                      ca_accesses = [\<lparr>ba_sequence = ''only'', ba_delta = 0, ba_row = row, ba_source_tsiz = None,
                        ba_tsiz_status = None, ba_conflict = None\<rparr>]\<rparr>,
                     [if width = 64 then ''8-4'' else ''8-6''])))"

definition access_table :: "int \<Rightarrow> int \<Rightarrow> string" where
  "access_table n width =
     (if width = 64 \<and> n = 4 then ''8-5'' else if width = 32 \<and> n = 4 then ''8-7'' else if width = 64 then ''8-4'' else ''8-6'')"

definition query :: "int \<Rightarrow> int \<Rightarrow> int \<Rightarrow> addr_spec \<Rightarrow> query_result result" where
  "query address n width spec =
     bindR (addr_validate spec) (\<lambda>_.
     bindR (check_query address n width) (\<lambda>_.
     bindR (query_case address n width spec) (\<lambda>(c, tables).
     bindR (query_accesses address (access_table n width) tables (ca_alignment c) (ca_accesses c)) (\<lambda>accesses.
       let crosses = (address div 32 \<noteq> (address + n - 1) div 32)
       in bindR (if crosses then py_key (as_coherency_rule spec) else Inr ''not_applicable'') (\<lambda>action. Inr \<lparr>qr_address = address, qr_a29 = bin3 (address AND 7), qr_size = n, qr_width = width,
               qr_status = (if list_ex (\<lambda>a. xr_conflict a \<noteq> None \<or> xr_norms a \<noteq> None) accesses
                            then ''defined_with_explicit_source_conflict'' else ''defined_by_selected_tables''),
               qr_alignment = ca_alignment c, qr_count = int (length accesses), qr_accesses = accesses,
               qr_crosses_word = (address div 4 \<noteq> (address + n - 1) div 4), qr_crosses_coherency = crosses,
               qr_coherency_action = action, qr_tables = tables,
               qr_width_basis = (if width = 64 then (if n = 4 then ''direct_64_bit_table_rows'' else ''direct_64_bit_table_row'')
                                 else (if n = 4 then ''direct_32_bit_table_rows'' else ''direct_32_bit_table_row''))\<rparr>)))))"

end
