(* ===== verification/Bus_Tiling.thy ===== *)
theory Bus_Tiling
  imports Bus_Address
begin

text \<open>
  What \<open>query\<close> answers for a validated manifest: the accesses tile the requested bytes, each
  with the size code, the low address bits and the byte lanes of its own address.
\<close>

section \<open>Tiling\<close>

text \<open>An access at a byte address uses the lanes of that address and stays inside one word.\<close>

definition access_places :: "int \<Rightarrow> int \<Rightarrow> int \<Rightarrow> string \<Rightarrow> string \<Rightarrow> int list \<Rightarrow> bool" where
  "access_places width a n tsiz a29 marks \<longleftrightarrow>
     0 < n \<and> a29 = bin3 (a mod 8) \<and> tsiz = tsiz_of n \<and>
     marks = [a mod (width div 8)..a mod (width div 8) + min n (width div 8) - 1] \<and> (n = 8 \<or> a mod 4 + n \<le> 4)"

definition row_places :: "int \<Rightarrow> int \<Rightarrow> table_row \<Rightarrow> bool" where
  "row_places width a row \<longleftrightarrow> access_places width a (ar_size row) (ar_tsiz row) (ar_a29 row) (ar_marks row)"

fun tiles :: "int \<Rightarrow> int \<Rightarrow> table_access list \<Rightarrow> int \<Rightarrow> bool" where
  "tiles width a [] stop = (a = stop)"
| "tiles width a (i # is) stop = (row_places width a (ba_row i) \<and> tiles width (a + ar_size (ba_row i)) is stop)"

fun deltas_ok :: "int \<Rightarrow> table_access list \<Rightarrow> bool" where
  "deltas_ok d [] = True"
| "deltas_ok d (i # is) = (ba_delta i = d \<and> deltas_ok (d + ar_size (ba_row i)) is)"

lemma row_places_mod:
  assumes "width \<in> {32, 64}" and "b mod 8 = a mod 8"
  shows "row_places width a row = row_places width b row"
proof -
  have four: "a mod 4 = b mod 4"
    using assms(2) mod_mod_cancel [of 4 8 a] mod_mod_cancel [of 4 8 b] by simp
  moreover from assms(1) have "width div 8 = 4 \<or> width div 8 = 8"
    by auto
  then have "a mod (width div 8) = b mod (width div 8)"
    using four assms(2) by (elim disjE) (simp_all only:)
  ultimately show ?thesis
    by (simp only: row_places_def access_places_def assms(2))
qed

lemma tiles_mod:
  assumes w: "width \<in> {32, 64}"
  shows "b mod 8 = a mod 8 \<Longrightarrow> tiles width a accs (a + n) = tiles width b accs (b + n)"
proof (induction accs arbitrary: a b n)
  case (Cons i accs)
  let ?k = "ar_size (ba_row i)"
  have "(b + ?k) mod 8 = (a + ?k) mod 8"
    using Cons.prems by (metis mod_add_left_eq)
  from Cons.IH [OF this, of "n - ?k"] show ?case
    using row_places_mod [OF w Cons.prems] by simp
qed simp

text \<open>The tables, row by row.\<close>

definition table_case_for :: "int \<Rightarrow> int \<Rightarrow> int \<Rightarrow> table_case" where
  "table_case_for width n off =
     (if n = 4 then (if width = 64 then expected_four_byte_case off else expected_four_byte_32_case off)
      else \<lparr>ca_start = bin3 off, ca_alignment = ''aligned'',
             ca_accesses = (case find (\<lambda>r. ar_size r = n \<and> ar_a29 r = bin3 off)
                (if width = 64 then expected_aligned_rows else expected_aligned_32_rows) of
                None \<Rightarrow> [] | Some row \<Rightarrow> [\<lparr>ba_sequence = ''only'', ba_delta = 0, ba_row = row, ba_source_tsiz = None,
                        ba_tsiz_status = None, ba_conflict = None\<rparr>])\<rparr>)"

text \<open>The signal names of a row exist.\<close>

definition row_ready :: "table_row \<Rightarrow> bool" where
  "row_ready row \<longleftrightarrow>
     is_ok (active_data_signals (ar_marks row)) \<and> (case ar_beats row of None \<Rightarrow> True | Some bs \<Rightarrow> is_ok (beat_results bs))"

definition case_good :: "int \<Rightarrow> int \<Rightarrow> int \<Rightarrow> bool" where
  "case_good width n off \<longleftrightarrow>
     (let accs = ca_accesses (table_case_for width n off)
      in tiles width off accs (off + n) \<and> deltas_ok 0 accs \<and>
         list_all (\<lambda>i. row_ready (ba_row i)) accs)"

lemma all_cases_good:
  "list_all (\<lambda>width. list_all (\<lambda>n. list_all (\<lambda>off. n \<noteq> 4 \<and> off mod n \<noteq> 0 \<or> case_good width n off)
      [0, 1, 2, 3, 4, 5, 6, 7]) [1, 2, 4, 8]) [32, 64]"
  by code_simp

lemma case_good_all:
  assumes "width \<in> {32, 64}" "n \<in> {1, 2, 4, 8}" "off \<in> {0, 1, 2, 3, 4, 5, 6, 7}" "n = 4 \<or> off mod n = 0"
  shows "case_good width n off"
proof -
  have "\<forall>width \<in> {32, 64}. \<forall>n \<in> {1, 2, 4, 8}. \<forall>off \<in> {0, 1, 2, 3, 4, 5, 6, 7}. n \<noteq> 4 \<and> off mod n \<noteq> 0 \<or> case_good width n off"
    using all_cases_good by (simp only: list_all_iff list.set)
  from bspec [OF bspec [OF bspec [OF this assms(1)] assms(2)] assms(3)] assms(4) show ?thesis
    by argo
qed

section \<open>The tables of a validated manifest\<close>

named_theorems addr_simps \<open>the guards of the address tool\<close>

lemma addr_require_Inr [addr_simps]: "addr_require c m r = Inr x \<longleftrightarrow> c \<and> r = Inr x"
  by (simp add: addr_require_def addr_err_def)

lemma check_cases_eq:
  "check_cases f off cs = Inr () \<Longrightarrow> cs = map f [off..off + int (length cs) - 1]"
proof (induction cs arbitrary: off)
  case (Cons c cs)
  then have "c = f off" and "check_cases f (off + 1) cs = Inr ()"
    by (simp_all add: addr_simps)
  note this(1) and Cons.IH [OF this(2)]
  moreover have "[off..off + int (length (c # cs)) - 1] = off # [off + 1..off + 1 + int (length cs) - 1]"
    by (subst upto_rec1) (simp_all add: algebra_simps)
  ultimately show ?case by simp
qed simp

lemma addr_validateE:
  assumes "addr_validate spec = Inr counts"
  shows "as_rows84 spec = expected_aligned_rows" and "as_rows86 spec = expected_aligned_32_rows"
    and "as_cases85 spec = map expected_four_byte_case [0..7]" and "as_cases87 spec = map expected_four_byte_32_case [0..7]"
proof -
  from assms have "map ca_start (as_cases85 spec) = map bin3 [0..7]" "check_cases expected_four_byte_case 0 (as_cases85 spec) = Inr ()"
    and "map ca_start (as_cases87 spec) = map bin3 [0..7]" "check_cases expected_four_byte_32_case 0 (as_cases87 spec) = Inr ()"
    by (auto simp: addr_validate_def addr_simps bindR_eq_Inr split: option.splits)
  then show "as_cases85 spec = map expected_four_byte_case [0..7]" "as_cases87 spec = map expected_four_byte_32_case [0..7]"
    by (auto dest!: check_cases_eq dest: map_eq_imp_length_eq)
  show "as_rows84 spec = expected_aligned_rows" and "as_rows86 spec = expected_aligned_32_rows"
    using assms by (auto simp: addr_validate_def addr_simps bindR_eq_Inr split: option.splits)
qed

definition offsets :: "int list" where
  "offsets = [0, 1, 2, 3, 4, 5, 6, 7]"

lemma offsets_iff: "off \<in> set offsets \<longleftrightarrow> 0 \<le> off \<and> off < 8"
  by (auto simp: offsets_def)

lemma low_bits: "(address :: int) AND 7 = address mod 8"
proof -
  have "address AND 7 = take_bit 3 address"
    by (simp add: take_bit_eq_mask mask_eq_exp_minus_1)
  then show ?thesis by (simp add: take_bit_eq_mod)
qed

lemma low_bits_offset: "address mod 8 \<in> set offsets"
  by (simp add: offsets_iff)

text \<open>What the lookups of \<open>query_case\<close> find, by running them on the expected tables.\<close>

lemma four_byte_lookup:
  "list_all (\<lambda>off. next_of (\<lambda>c. ca_start c = bin3 off) (map expected_four_byte_case [0..7]) = Inr (expected_four_byte_case off) \<and>
     next_of (\<lambda>c. ca_start c = bin3 off) (map expected_four_byte_32_case [0..7]) = Inr (expected_four_byte_32_case off)) offsets"
  by code_simp

lemma aligned_lookup:
  "list_all (\<lambda>n. list_all (\<lambda>off. off mod n \<noteq> 0 \<or>
      (find (\<lambda>r. ar_size r = n \<and> ar_a29 r = bin3 off) expected_aligned_rows \<noteq> None \<and>
       find (\<lambda>r. ar_size r = n \<and> ar_a29 r = bin3 off) expected_aligned_32_rows \<noteq> None)) offsets) [1, 2, 8]"
  by code_simp

lemma query_case_validated:
  assumes valid: "addr_validate spec = Inr counts" and n: "n \<in> {1, 2, 4, 8}" and width: "width \<in> {32, 64}"
  shows "if n = 4 \<or> address mod n = 0
    then \<exists>tables. query_case address n width spec = Inr (table_case_for width n (address mod 8), tables)
    else \<exists>m. query_case address n width spec = Inl (ScopeError m)"
proof (cases "n = 4")
  case True
  then show ?thesis
    using four_byte_lookup low_bits_offset [of address] width
    by (auto simp: query_case_def low_bits Let_def addr_validateE(3,4) [OF valid] table_case_for_def list_all_iff)
next
  case False
  then have n3: "n \<in> set [1, 2, 8]" and "n dvd 8" using n by auto
  then have eq: "address mod 8 mod n = address mod n"
    by (simp add: mod_mod_cancel)
  show ?thesis
  proof (cases "address mod n = 0")
    case True
    then have "address mod 8 mod n = 0" using eq by simp
    then have "find (\<lambda>r. ar_size r = n \<and> ar_a29 r = bin3 (address mod 8)) expected_aligned_rows \<noteq> None"
      "find (\<lambda>r. ar_size r = n \<and> ar_a29 r = bin3 (address mod 8)) expected_aligned_32_rows \<noteq> None"
      using aligned_lookup n3 low_bits_offset [of address] by (auto simp: list_all_iff)
    then show ?thesis
      using True False width by (auto simp: query_case_def low_bits Let_def addr_validateE(1,2) [OF valid] table_case_for_def)
  next
    case nz: False
    with False show ?thesis by (simp add: query_case_def Let_def)
  qed
qed

text \<open>The accesses of an answer, with the addresses it reports.\<close>

fun covers :: "int \<Rightarrow> int \<Rightarrow> access_result list \<Rightarrow> int \<Rightarrow> bool" where
  "covers width a [] stop = (a = stop)"
| "covers width a (x # xs) stop =
     (xr_address x = a \<and> access_places width a (xr_size x) (xr_tsiz x) (xr_a29 x) (xr_marks x) \<and>
      covers width (a + xr_size x) xs stop)"

lemma query_accesses_covers:
  assumes "tiles width (address + d) accs stop" and "deltas_ok d accs"
    and "list_all (\<lambda>i. row_ready (ba_row i)) accs"
  shows "\<exists>xs. query_accesses address t ts al accs = Inr xs \<and> covers width (address + d) xs stop"
  using assms
proof (induction accs arbitrary: d)
  case (Cons i accs)
  let ?n = "ar_size (ba_row i)"
  from Cons.prems obtain sig where sig: "active_data_signals (ar_marks (ba_row i)) = Inr sig"
    by (auto simp: row_ready_def is_ok_iff)
  obtain beats where "(case ar_beats (ba_row i) of None \<Rightarrow> Inr None | Some bs \<Rightarrow> bindR (beat_results bs) (\<lambda>rs. Inr (Some rs))) = Inr beats"
    using Cons.prems(3) by (cases "ar_beats (ba_row i)") (auto simp: row_ready_def is_ok_iff)
  with sig Cons.prems have "\<exists>x. query_access address t ts al i = Inr x \<and> xr_address x = address + d \<and> xr_size x = ?n \<and>
      access_places width (address + d) (xr_size x) (xr_tsiz x) (xr_a29 x) (xr_marks x)"
    by (simp add: query_access_def Let_def row_places_def)
  moreover have "\<exists>xs. query_accesses address t ts al accs = Inr xs \<and> covers width (address + (d + ?n)) xs stop"
    using Cons.prems by (intro Cons.IH) (auto simp: add.assoc)
  ultimately show ?case by (auto simp: add.assoc)
qed simp

section \<open>Properties\<close>

text \<open>
  C37: For a validated manifest and a request inside the address space, \<open>query\<close> raises \<open>ScopeError\<close>
  exactly when the request is neither naturally aligned nor of four bytes.  Otherwise it answers,
  except that a request that crosses a 32-byte boundary raises \<open>KeyError\<close> when the manifest has no
  coherency boundary rule, which \<open>validate\<close> does not require; with one, it is reported.  The accesses it lists tile the requested bytes in order, none crosses
  a word except an aligned doubleword, and each has the size code, the low address bits and the
  byte lanes of its own address on that bus width.
\<close>

theorem query_tiles_request:
  assumes valid: "addr_validate spec = Inr counts" and n: "n \<in> {1, 2, 4, 8}" and width: "width \<in> {32, 64}"
    and range: "0 \<le> address" "address + n - 1 \<le> 0xFFFFFFFF"
  shows "if n = 4 \<or> address mod n = 0
    then if address div 32 \<noteq> (address + n - 1) div 32 \<and> as_coherency_rule spec = None
      then query address n width spec = Inl KeyError
      else \<exists>r. query address n width spec = Inr r \<and> covers width address (qr_accesses r) (address + n) \<and>
        Some (qr_coherency_action r) =
          (if address div 32 \<noteq> (address + n - 1) div 32 then as_coherency_rule spec else Some ''not_applicable'')
    else \<exists>m. query address n width spec = Inl (ScopeError m)"
proof -
  have check: "check_query address n width = Inr ()"
    using n width range by (auto simp: check_query_def addr_require_def MAX_ADDRESS_def)
  show ?thesis
  proof (cases "n = 4 \<or> address mod n = 0")
    case False
    then show ?thesis
      using query_case_validated [OF valid n width, of address] valid check by (auto simp: query_def)
  next
    case True
    define c where "c = table_case_for width n (address mod 8)"
    from True obtain tables where qc: "query_case address n width spec = Inr (c, tables)"
      using query_case_validated [OF valid n width, of address] by (auto simp: c_def)
    have "address mod 8 mod n = address mod n" if "n \<noteq> 4"
      using n that by (intro mod_mod_cancel) auto
    then have "n = 4 \<or> address mod 8 mod n = 0"
      using True by metis
    then have "case_good width n (address mod 8)"
      by (rule case_good_all [OF width n low_bits_offset [of address, unfolded offsets_def list.set]])
    then have good: "tiles width (address mod 8) (ca_accesses c) (address mod 8 + n)" "deltas_ok 0 (ca_accesses c)"
      "list_all (\<lambda>i. row_ready (ba_row i)) (ca_accesses c)"
      by (simp_all add: case_good_def c_def Let_def)
    have "tiles width (address + 0) (ca_accesses c) (address + n)"
      using tiles_mod [OF width, of "address mod 8" address "ca_accesses c" n] good(1) by simp
    from query_accesses_covers [OF this good(2,3), of "access_table n width" tables "ca_alignment c"] obtain xs where
      "query_accesses address (access_table n width) tables (ca_alignment c) (ca_accesses c) = Inr xs" "covers width address xs (address + n)"
      by auto
    then show ?thesis
      using True valid check qc by (auto simp: query_def Let_def)
  qed
qed

definition addr_sample :: addr_spec where
  "addr_sample =
     (let base = \<lparr>as_version = Some 1, as_head = head_sample, as_tsiz = expected_tsiz, as_rows84 = expected_aligned_rows,
        as_cases85 = map expected_four_byte_case [0..7], as_rows86 = expected_aligned_32_rows,
        as_cases87 = map expected_four_byte_32_case [0..7], as_expected = None, as_coherency_rule = None\<rparr>
      in base\<lparr>as_expected := Some (addr_counts_of base)\<rparr>)"

lemma addr_sample_valid: "is_ok (addr_validate addr_sample)"
proof -
  have head: "check_head (as_head addr_sample) = Inr ()" and width: "ah_width32 (as_head addr_sample) = Some expected_width32"
    by (simp_all add: addr_sample_def head_sample_ok Let_def) (simp add: head_sample_def)
  have tables: "dict_eq (as_tsiz addr_sample) expected_tsiz \<and> as_version addr_sample = Some 1 \<and>
      as_rows84 addr_sample = expected_aligned_rows \<and> check_row_bits (as_rows84 addr_sample) = Inr () \<and>
      map ca_start (as_cases85 addr_sample) = map bin3 [0..7] \<and>
      check_cases expected_four_byte_case 0 (as_cases85 addr_sample) = Inr () \<and>
      as_rows86 addr_sample = expected_aligned_32_rows \<and> check_rows_32 (as_rows86 addr_sample) = Inr () \<and>
      map ca_start (as_cases87 addr_sample) = map bin3 [0..7] \<and>
      check_cases expected_four_byte_32_case 0 (as_cases87 addr_sample) = Inr () \<and>
      Some (addr_counts_of addr_sample) = as_expected addr_sample"
    by code_simp
  then have rows: "check_row_bits expected_aligned_rows = Inr () \<and> check_rows_32 expected_aligned_32_rows = Inr ()"
    by metis
  show ?thesis
    unfolding addr_validate_def addr_require_def head
    by (simp only: tables rows simp_thms if_True bindR_Inr is_ok.simps width)
qed

corollary query_tiles_request_witness:
  "(\<exists>r. query 0x1006 4 32 addr_sample = Inr r \<and> covers 32 0x1006 (qr_accesses r) (0x1006 + 4) \<and>
      qr_coherency_action r = ''not_applicable'') \<and>
   query 0x101E 4 64 addr_sample = Inl KeyError \<and> (\<exists>m. query 0x1001 2 64 addr_sample = Inl (ScopeError m))"
proof -
  have "as_coherency_rule addr_sample = None" by (simp add: addr_sample_def Let_def)
  moreover obtain counts where v: "addr_validate addr_sample = Inr counts"
    using addr_sample_valid by (auto simp: is_ok_iff)
  ultimately show ?thesis
    using query_tiles_request [OF v, where n = 4 and width = 32 and address = "0x1006"] query_tiles_request [OF v, where n = 4 and width = 64 and address = "0x101E"] query_tiles_request [OF v, where n = 2 and width = 64 and address = "0x1001"]
    by simp
qed

end
