(* ===== verification/Isa_Decode.thy ===== *)
theory Isa_Decode
  imports Dict
begin

text \<open>
  The decode-entry checks of \<open>sim/tools/isa_generate.py\<close> and the probe words of
  \<open>sim/tools/isa_check_rtl.py\<close>.  A decode entry of the ISA metadata is a record; a key read with
  \<open>get\<close> is an option.  A \<open>MetadataError\<close> is the \<open>ValueError\<close> it derives from, with the message
  less the formatted values.
\<close>

section \<open>Numbers\<close>

definition meta_err :: "string \<Rightarrow> 'a result" where
  "meta_err m = Inl (ValueError m)"

definition meta_require :: "bool \<Rightarrow> string \<Rightarrow> 'a result \<Rightarrow> 'a result" where
  "meta_require cond m rest = (if cond then rest else meta_err m)"

text \<open>\<open>int(value, 16)\<close> of a string that starts with \<open>0x\<close>: digits with single underscores, trailing blanks.\<close>

definition hex_char :: "char \<Rightarrow> int option" where
  "hex_char c =
     (let n = int (of_char c :: nat)
      in if 48 \<le> n \<and> n \<le> 57 then Some (n - 48) else if 97 \<le> n \<and> n \<le> 102 then Some (n - 87)
         else if 65 \<le> n \<and> n \<le> 70 then Some (n - 55) else None)"

definition is_space :: "char \<Rightarrow> bool" where
  "is_space c = (let n = (of_char c :: nat) in 9 \<le> n \<and> n \<le> 13 \<or> 28 \<le> n \<and> n \<le> 32 \<or> n = 133 \<or> n = 160)"

fun hex_digits :: "int \<Rightarrow> string \<Rightarrow> int option" where
  "hex_digits acc [] = Some acc"
| "hex_digits acc (c # cs) =
     (if c = CHR ''_'' then
        (case cs of
           [] \<Rightarrow> None
         | d # ds \<Rightarrow> (case hex_char d of None \<Rightarrow> None | Some v \<Rightarrow> hex_digits (16 * acc + v) ds))
      else (case hex_char c of None \<Rightarrow> None | Some v \<Rightarrow> hex_digits (16 * acc + v) cs))"

definition isa_number :: "string \<Rightarrow> int result" where
  "isa_number s =
     meta_require (take 2 s = ''0x'') ''must be a 0x-prefixed string''
       (let body = rev (dropWhile is_space (rev (drop 2 s)))
        in case (if body = [] then None else hex_digits 0 body) of
             None \<Rightarrow> meta_err ''is not hexadecimal''
           | Some v \<Rightarrow> meta_require (0 \<le> v \<and> v \<le> 0xFFFFFFFF) ''exceeds 32 bits'' (Inr v))"

section \<open>Entries\<close>

text \<open>A feature profile is one parameter or a list of them.\<close>

datatype profile_field = OneParameter string | Parameters "string list"

record isa_entry =
  ie_id :: string
  ie_mask :: string
  ie_value :: string
  ie_primary :: int
  ie_status :: "string option"
  ie_profile :: "profile_field option"
  ie_validation :: "string option"
  ie_unit :: string
  ie_privilege :: string
  ie_serialization :: string
  ie_semantic :: "string option"
  ie_spr :: "int option"
  ie_writes :: "string list"

definition entry_code :: "isa_entry \<Rightarrow> (int \<times> int) result" where
  "entry_code e = bindR (isa_number (ie_mask e)) (\<lambda>m. bindR (isa_number (ie_value e)) (\<lambda>v. Inr (m, v)))"

definition patterns_overlap :: "isa_entry \<Rightarrow> isa_entry \<Rightarrow> bool result" where
  "patterns_overlap left right =
     bindR (entry_code left) (\<lambda>(lm, lv). bindR (entry_code right) (\<lambda>(rm, rv). Inr ((lv XOR rv) AND lm AND rm = 0)))"

definition decode_matches :: "isa_entry \<Rightarrow> int \<Rightarrow> bool result" where
  "decode_matches e word = bindR (entry_code e) (\<lambda>(fixed, value). Inr (word AND fixed = value))"

fun overlaps_with :: "isa_entry \<Rightarrow> isa_entry list \<Rightarrow> (string \<times> string) list result" where
  "overlaps_with left [] = Inr []"
| "overlaps_with left (right # rest) =
     bindR (patterns_overlap left right) (\<lambda>o1.
     bindR (overlaps_with left rest) (\<lambda>os. Inr (if o1 then (ie_id left, ie_id right) # os else os)))"

fun find_overlaps :: "isa_entry list \<Rightarrow> (string \<times> string) list result" where
  "find_overlaps [] = Inr []"
| "find_overlaps (left # rest) =
     bindR (overlaps_with left rest) (\<lambda>os. bindR (find_overlaps rest) (\<lambda>more_os. Inr (os @ more_os)))"

section \<open>The entry checks of \<open>validate\<close>\<close>

definition check_entry_code :: "isa_entry \<Rightarrow> unit result" where
  "check_entry_code e =
     bindR (entry_code e) (\<lambda>(fixed, value).
       meta_require (value AND NOT fixed = 0) ''value sets bits outside mask''
         (meta_require (ie_primary e = drop_bit 26 value) ''primary opcode disagrees with value'' (Inr ())))"

fun check_entry_codes :: "isa_entry list \<Rightarrow> unit result" where
  "check_entry_codes [] = Inr ()"
| "check_entry_codes (e # es) = bindR (check_entry_code e) (\<lambda>_. check_entry_codes es)"

text \<open>An item of \<open>allowed_overlaps\<close>; a pair is the frozenset of its names.\<close>

record allowed_overlap =
  ao_entries :: "string list"
  ao_reason :: "string option"

definition check_allowed :: "string list \<Rightarrow> allowed_overlap \<Rightarrow> unit result" where
  "check_allowed ids item =
     meta_require (card (set (ao_entries item)) = 2 \<and> ao_reason item \<notin> {None, Some ''''})
       ''allowed overlap needs two distinct entries and a reason''
       (meta_require (set (ao_entries item) \<subseteq> set ids) ''allowed overlap names unknown entries'' (Inr ()))"

fun check_alloweds :: "string list \<Rightarrow> allowed_overlap list \<Rightarrow> unit result" where
  "check_alloweds ids [] = Inr ()"
| "check_alloweds ids (a # as) = bindR (check_allowed ids a) (\<lambda>_. check_alloweds ids as)"

text \<open>The dictionary keyed by the pair: of items with the same pair the last one counts, in the place of the first.\<close>

definition allowed_dict :: "allowed_overlap list \<Rightarrow> allowed_overlap list" where
  "allowed_dict items = map snd (dict_of (map (\<lambda>a. (set (ao_entries a), a)) items))"

definition check_overlaps :: "isa_entry list \<Rightarrow> allowed_overlap list \<Rightarrow> unit result" where
  "check_overlaps entries allowed_items =
     (let ids = map ie_id entries; allowed = (\<lambda>a. set (ao_entries a)) ` set (allowed_dict allowed_items)
      in bindR (check_alloweds ids (allowed_dict allowed_items)) (\<lambda>_.
         bindR (find_overlaps entries) (\<lambda>os.
           let overlaps = (\<lambda>(a, b). {a, b}) ` set os
           in meta_require (overlaps \<subseteq> allowed) ''overlapping decode masks''
                (meta_require (allowed \<subseteq> overlaps) ''stale allowed overlap'' (Inr ())))))"

text \<open>Unique identifiers, then the codes, then the overlaps.\<close>

definition validate_decode :: "isa_entry list \<Rightarrow> allowed_overlap list \<Rightarrow> unit result" where
  "validate_decode entries allowed_items =
     meta_require (distinct (map ie_id entries)) ''duplicate decode entry id''
       (bindR (check_entry_codes entries) (\<lambda>_. check_overlaps entries allowed_items))"

section \<open>Probe words\<close>

text \<open>The words are computed for entries that validated, whose codes \<open>int(..., 16)\<close> reads as \<open>_number\<close> does.\<close>

definition entry_words :: "int \<Rightarrow> int \<Rightarrow> int list" where
  "entry_words fixed value =
     value # (value OR (NOT fixed AND 0xFFFFFFFF)) #
     map (\<lambda>b. value XOR push_bit b 1) (filter (\<lambda>b. drop_bit b fixed AND 1 \<noteq> 0) [0..<32])"

fun targeted_words_of :: "isa_entry list \<Rightarrow> int list result" where
  "targeted_words_of [] = Inr []"
| "targeted_words_of (e # es) =
     bindR (entry_code e) (\<lambda>(m, v). bindR (targeted_words_of es) (\<lambda>ws. Inr (entry_words m v @ ws)))"

definition targeted_words :: "isa_entry list \<Rightarrow> int list result" where
  "targeted_words es = bindR (targeted_words_of es) (\<lambda>ws. Inr (sorted_list_of_set (set ws)))"

end
