(* ===== verification/Isa_Unambiguous.thy ===== *)
theory Isa_Unambiguous
  imports Isa_Decode
begin

text \<open>
  What the decode-entry checks establish: two patterns overlap exactly when some instruction word
  matches both, so an accepted list of entries is ambiguous only on its declared overlaps, and the
  probe words separate every fixed bit of every entry.
\<close>

section \<open>Overlap is a common word\<close>

lemma isa_number_range: "isa_number s = Inr v \<Longrightarrow> 0 \<le> v \<and> v < 2 ^ 32"
  by (auto simp: isa_number_def meta_require_def meta_err_def Let_def split: if_splits option.splits)

lemma entry_code_range: "entry_code e = Inr (m, v) \<Longrightarrow> in_field 32 m \<and> in_field 32 v"
  by (auto simp: entry_code_def bindR_eq_Inr in_field_def dest: isa_number_range)

lemma common_word:
  fixes lm lv rm rv :: int
  assumes "lv AND NOT lm = 0" "rv AND NOT rm = 0" "(lv XOR rv) AND lm AND rm = 0"
  shows "(lv OR rv) AND lm = lv" and "(lv OR rv) AND rm = rv"
proof -
  have l: "bit lv n \<Longrightarrow> bit lm n" and r: "bit rv n \<Longrightarrow> bit rm n"
    and x: "bit lm n \<Longrightarrow> bit rm n \<Longrightarrow> bit lv n = bit rv n" for n
    using arg_cong [OF assms(1), of "\<lambda>k. bit k n"] arg_cong [OF assms(2), of "\<lambda>k. bit k n"]
      arg_cong [OF assms(3), of "\<lambda>k. bit k n"]
    by (auto simp: bit_simps)
  show "(lv OR rv) AND lm = lv" "(lv OR rv) AND rm = rv"
    by (rule bit_eqI; use l r x in \<open>auto simp: bit_simps\<close>)+
qed

lemma overlap_of_word:
  fixes w :: int
  assumes "w AND lm = lv" "w AND rm = rv"
  shows "(lv XOR rv) AND lm AND rm = 0"
  using assms by (auto intro!: bit_eqI simp: bit_simps)

definition code_ok :: "isa_entry \<Rightarrow> bool" where
  "code_ok e \<longleftrightarrow> (\<exists>m v. entry_code e = Inr (m, v) \<and> v AND NOT m = 0)"

definition matches_word :: "isa_entry \<Rightarrow> int \<Rightarrow> bool" where
  "matches_word e w \<longleftrightarrow> decode_matches e w = Inr True"

lemma overlap_iff:
  assumes "code_ok l" "code_ok r"
  shows "\<exists>b. patterns_overlap l r = Inr b \<and> (b \<longleftrightarrow> (\<exists>w. in_field 32 w \<and> matches_word l w \<and> matches_word r w))"
proof -
  from assms obtain lm lv rm rv where l: "entry_code l = Inr (lm, lv)" "lv AND NOT lm = 0"
    and r: "entry_code r = Inr (rm, rv)" "rv AND NOT rm = 0"
    by (auto simp: code_ok_def)
  have "(lv XOR rv) AND lm AND rm = 0 \<longleftrightarrow> (\<exists>w. in_field 32 w \<and> w AND lm = lv \<and> w AND rm = rv)"
  proof
    assume "(lv XOR rv) AND lm AND rm = 0"
    then show "\<exists>w. in_field 32 w \<and> w AND lm = lv \<and> w AND rm = rv"
      using common_word [OF l(2) r(2)] entry_code_range [OF l(1)] entry_code_range [OF r(1)]
      by (intro exI [of _ "lv OR rv"]) simp
  qed (elim exE conjE, rule overlap_of_word)
  then show ?thesis
    using l r by (simp add: patterns_overlap_def decode_matches_def matches_word_def)
qed

section \<open>The list of overlaps\<close>

text \<open>Two entries at different places share a word.\<close>

definition collide :: "isa_entry list \<Rightarrow> nat \<Rightarrow> nat \<Rightarrow> bool" where
  "collide es i j \<longleftrightarrow> i < j \<and> j < length es \<and> (\<exists>w. in_field 32 w \<and> matches_word (es ! i) w \<and> matches_word (es ! j) w)"

lemma overlaps_with_set:
  assumes "overlaps_with l es = Inr os" and "code_ok l" and "\<forall>e \<in> set es. code_ok e"
  shows "set os = {(ie_id l, ie_id e) | e. e \<in> set es \<and> (\<exists>w. in_field 32 w \<and> matches_word l w \<and> matches_word e w)}"
  using assms
proof (induction es arbitrary: os)
  case (Cons e es)
  from Cons.prems(1) obtain b os' where b: "patterns_overlap l e = Inr b" "overlaps_with l es = Inr os'"
    and os: "os = (if b then (ie_id l, ie_id e) # os' else os')"
    by (auto simp: bindR_eq_Inr)
  moreover have "b \<longleftrightarrow> (\<exists>w. in_field 32 w \<and> matches_word l w \<and> matches_word e w)"
    using overlap_iff [of l e] Cons.prems(2,3) b(1) by auto
  ultimately show ?case
    using Cons.IH [OF b(2) Cons.prems(2)] Cons.prems(3) by auto
qed simp

lemma find_overlaps_set:
  assumes "find_overlaps es = Inr os" and "\<forall>e \<in> set es. code_ok e"
  shows "set os = {(ie_id (es ! i), ie_id (es ! j)) | i j. collide es i j}"
  using assms
proof (induction es arbitrary: os)
  case (Cons e es)
  from Cons.prems(1) obtain a b where a: "overlaps_with e es = Inr a" and b: "find_overlaps es = Inr b" and os: "os = a @ b"
    by (auto simp: bindR_eq_Inr)
  have first: "set a = {(ie_id ((e # es) ! 0), ie_id ((e # es) ! Suc j)) | j. collide (e # es) 0 (Suc j)}"
    unfolding overlaps_with_set [OF a, simplified Cons.prems(2)] using Cons.prems(2)
    by (fastforce simp: collide_def overlaps_with_set [OF a] in_set_conv_nth)
  have rest: "set b = {(ie_id ((e # es) ! Suc i), ie_id ((e # es) ! Suc j)) | i j. collide (e # es) (Suc i) (Suc j)}"
    using Cons.IH [OF b] Cons.prems(2) by (auto simp: collide_def)
  have split: "collide (e # es) i j \<longleftrightarrow>
      (\<exists>k. i = 0 \<and> j = Suc k \<and> collide (e # es) 0 (Suc k)) \<or> (\<exists>k l. i = Suc k \<and> j = Suc l \<and> collide (e # es) (Suc k) (Suc l))" for i j
    by (cases i; cases j) (auto simp: collide_def)
  show ?case
    unfolding os set_append first rest by (subst (2) split) blast
qed (simp add: collide_def)

lemma check_entry_codes_ok: "check_entry_codes es = Inr () \<Longrightarrow> \<forall>e \<in> set es. code_ok e"
  by (induction es) (auto simp: bindR_eq_Inr check_entry_code_def meta_require_def meta_err_def code_ok_def split: if_splits)

lemma allowed_dict_sets: "(\<lambda>a. set (ao_entries a)) ` set (allowed_dict as) = (\<lambda>a. set (ao_entries a)) ` set as"
proof -
  let ?d = "dict_of (map (\<lambda>a. (set (ao_entries a), a)) as)"
  have keyed: "\<forall>(k, a) \<in> set ?d. k = set (ao_entries a)"
    by (rule dict_of_all) auto
  have "(\<lambda>a. set (ao_entries a)) ` set (map snd ?d) = fst ` set ?d"
    unfolding set_map image_image by (rule image_cong) (use keyed in auto)
  also have "\<dots> = (\<lambda>a. set (ao_entries a)) ` set as"
    using dict_keys_of [of "map (\<lambda>a. (set (ao_entries a), a)) as"] by (simp add: dict_keys_def image_image)
  finally show ?thesis by (simp add: allowed_dict_def)
qed

lemma validate_decode_sets:
  assumes "validate_decode es allowed_items = Inr ()"
  shows "(\<lambda>(i, j). {ie_id (es ! i), ie_id (es ! j)}) ` {(i, j). collide es i j} = (\<lambda>a. set (ao_entries a)) ` set allowed_items"
    and "\<forall>e \<in> set es. code_ok e" and "distinct (map ie_id es)"
proof -
  from assms have codes: "check_entry_codes es = Inr ()" and d: "distinct (map ie_id es)"
    by (auto simp: validate_decode_def meta_require_def meta_err_def bindR_eq_Inr split: if_splits)
  from assms obtain os where os: "find_overlaps es = Inr os"
    and sets: "(\<lambda>(a, b). {a, b}) ` set os = (\<lambda>a. set (ao_entries a)) ` set allowed_items"
    by (auto simp: validate_decode_def check_overlaps_def meta_require_def meta_err_def bindR_eq_Inr Let_def allowed_dict_sets
        split: if_splits)
  note ok = check_entry_codes_ok [OF codes]
  show "(\<lambda>(i, j). {ie_id (es ! i), ie_id (es ! j)}) ` {(i, j). collide es i j} = (\<lambda>a. set (ao_entries a)) ` set allowed_items"
    unfolding sets [symmetric] find_overlaps_set [OF os ok] by force
  show "\<forall>e \<in> set es. code_ok e" and "distinct (map ie_id es)" by (rule ok, rule d)
qed

section \<open>Properties\<close>

text \<open>
  C38: Once the decode entries validate, their ambiguity is exactly what the metadata declares:
  two different entries match a common 32-bit instruction word if and only if their pair of
  identifiers is listed in \<open>allowed_overlaps\<close>.
\<close>

theorem decode_ambiguity_declared:
  assumes "validate_decode es allowed_items = Inr ()" and "i < length es" and "j < length es" and "i \<noteq> j"
  shows "(\<exists>w. 0 \<le> w \<and> w < 2 ^ 32 \<and> decode_matches (es ! i) w = Inr True \<and> decode_matches (es ! j) w = Inr True) \<longleftrightarrow>
    (\<exists>a \<in> set allowed_items. set (ao_entries a) = {ie_id (es ! i), ie_id (es ! j)})"
proof -
  note v = validate_decode_sets [OF assms(1)]
  define pair where "pair = {ie_id (es ! i), ie_id (es ! j)}"
  have same: "{ie_id (es ! k), ie_id (es ! l)} = pair \<longleftrightarrow> {k, l} = {i, j}" if "k < length es" "l < length es" for k l
    using v(3) assms(2-4) that by (auto simp: pair_def doubleton_eq_iff distinct_conv_nth)
  have "(\<exists>w. in_field 32 w \<and> matches_word (es ! i) w \<and> matches_word (es ! j) w) \<longleftrightarrow> collide es i j \<or> collide es j i"
    using assms(2-4) by (auto simp: collide_def)
  also have "\<dots> \<longleftrightarrow> pair \<in> (\<lambda>(i, j). {ie_id (es ! i), ie_id (es ! j)}) ` {(i, j). collide es i j}"
  proof
    assume "collide es i j \<or> collide es j i"
    moreover have "{ie_id (es ! j), ie_id (es ! i)} = pair"
      by (simp add: pair_def insert_commute)
    ultimately show "pair \<in> (\<lambda>(i, j). {ie_id (es ! i), ie_id (es ! j)}) ` {(i, j). collide es i j}"
      unfolding pair_def by blast
  next
    assume "pair \<in> (\<lambda>(i, j). {ie_id (es ! i), ie_id (es ! j)}) ` {(i, j). collide es i j}"
    then obtain k l where kl: "collide es k l" and "{ie_id (es ! k), ie_id (es ! l)} = pair"
      by blast
    moreover from kl have "k < length es" "l < length es" by (simp_all add: collide_def)
    ultimately have "{k, l} = {i, j}" using same by blast
    with kl show "collide es i j \<or> collide es j i"
      by (auto simp: doubleton_eq_iff)
  qed
  also have "\<dots> \<longleftrightarrow> (\<exists>a \<in> set allowed_items. set (ao_entries a) = pair)"
    unfolding v(1) by auto
  finally show ?thesis
    by (simp add: in_field_def matches_word_def pair_def conj_assoc)
qed

text \<open>An immediate add, its load-immediate alias, and an immediate or.\<close>

definition isa_sample :: "isa_entry list" where
  "isa_sample =
     map (\<lambda>(i, m, v, p). \<lparr>ie_id = i, ie_mask = m, ie_value = v, ie_primary = p, ie_status = Some ''implemented'', ie_profile = None,
         ie_validation = None, ie_unit = ''Integer'', ie_privilege = ''user'', ie_serialization = ''none'', ie_semantic = None,
         ie_spr = None, ie_writes = [''rD'']\<rparr>)
       [(''addi'', ''0xFC000000'', ''0x38000000'', 14), (''li'', ''0xFC1F0000'', ''0x38000000'', 14),
        (''ori'', ''0xFC000000'', ''0x60000000'', 24)]"

lemma isa_sample_valid: "validate_decode isa_sample [\<lparr>ao_entries = [''addi'', ''li''], ao_reason = Some ''alias''\<rparr>] = Inr ()"
  by code_simp

corollary decode_ambiguity_declared_witness:
  "(\<exists>w. 0 \<le> w \<and> w < 2 ^ 32 \<and> decode_matches (isa_sample ! 0) w = Inr True \<and> decode_matches (isa_sample ! 2) w = Inr True) \<longleftrightarrow>
    (\<exists>a \<in> set [\<lparr>ao_entries = [''addi'', ''li''], ao_reason = Some ''alias''\<rparr>].
       set (ao_entries a) = {ie_id (isa_sample ! 0), ie_id (isa_sample ! 2)})"
  by (rule decode_ambiguity_declared [OF isa_sample_valid]) (simp_all add: isa_sample_def)

lemma entry_words_in: "targeted_words_of es = Inr ws \<Longrightarrow> e \<in> set es \<Longrightarrow> entry_code e = Inr (m, v) \<Longrightarrow> set (entry_words m v) \<subseteq> set ws"
  by (induction es arbitrary: ws) (auto simp: bindR_eq_Inr)

lemma targeted_words_of_codes:
  "targeted_words_of es = Inr ws \<Longrightarrow> w \<in> set ws \<Longrightarrow> \<exists>e m v. e \<in> set es \<and> entry_code e = Inr (m, v) \<and> w \<in> set (entry_words m v)"
  by (induction es arbitrary: ws) (auto simp: bindR_eq_Inr, blast+)

lemma in_field_xor [simp]: "in_field n x \<Longrightarrow> in_field n y \<Longrightarrow> in_field n (x XOR y)"
  by (simp add: in_field_iff take_bit_xor)

lemma entry_words_range:
  assumes "entry_code e = Inr (m, v)" and "w \<in> set (entry_words m v)"
  shows "in_field 32 w"
proof -
  have v: "in_field 32 v" using entry_code_range [OF assms(1)] by simp
  have "in_field 32 (NOT m AND 0xFFFFFFFF)"
    by (simp add: and_mask32)
  moreover have "in_field 32 (push_bit b 1)" if "b < 32" for b
    using that by (simp add: in_field_iff take_bit_push_bit)
  ultimately show ?thesis
    using assms(2) v by (auto simp: entry_words_def)
qed

lemma probe_matches:
  fixes m v :: int
  assumes "v AND NOT m = 0"
  shows "v AND m = v" and "(v OR (NOT m AND k)) AND m = v" and "bit m b \<Longrightarrow> (v XOR push_bit b 1) AND m \<noteq> v"
proof -
  have l: "bit v n \<Longrightarrow> bit m n" for n
    using arg_cong [OF assms, of "\<lambda>k. bit k n"] by (auto simp: bit_simps)
  show "v AND m = v" and "(v OR (NOT m AND k)) AND m = v"
    by (rule bit_eqI; use l in \<open>auto simp: bit_simps\<close>)+
  assume "bit m b"
  then have "bit ((v XOR push_bit b 1) AND m) b \<noteq> bit v b"
    by (auto simp: bit_simps)
  then show "(v XOR push_bit b 1) AND m \<noteq> v" by auto
qed

text \<open>
  The probe words of the RTL decoder check exercise every fixed bit of every entry: for an
  entry whose value lies in its mask, the words contain its value with all other bits clear and
  with all of them set, which the entry matches, and for each bit of the mask the value with that
  bit flipped, which the entry does not match; and every word fits 32 bits.
\<close>

theorem targeted_words_probe:
  assumes "targeted_words es = Inr ws" and "e \<in> set es" and "entry_code e = Inr (m, v)" and "v AND NOT m = 0"
  shows "decode_matches e v = Inr True \<and> v \<in> set ws \<and>
    decode_matches e (v OR (NOT m AND 0xFFFFFFFF)) = Inr True \<and> v OR (NOT m AND 0xFFFFFFFF) \<in> set ws \<and>
    (\<forall>b < 32. bit m b \<longrightarrow> decode_matches e (v XOR push_bit b 1) = Inr False \<and> v XOR push_bit b 1 \<in> set ws) \<and>
    (\<forall>w \<in> set ws. 0 \<le> w \<and> w < 2 ^ 32)"
proof -
  from assms(1) obtain us where us: "targeted_words_of es = Inr us" and ws: "set ws = set us"
    by (auto simp: targeted_words_def bindR_eq_Inr)
  note words = entry_words_in [OF us assms(2,3)]
  have "v XOR push_bit b 1 \<in> set us" if "b < 32" "bit m b" for b
  proof -
    have "b \<in> set (filter (\<lambda>b. drop_bit b m AND 1 \<noteq> 0) [0..<32])"
      using that by (simp add: and_one_eq bit_iff_odd_drop_bit odd_iff_mod_2_eq_one)
    then show ?thesis
      using words unfolding entry_words_def by auto
  qed
  moreover have "in_field 32 w" if "w \<in> set us" for w
    using targeted_words_of_codes [OF us that] entry_words_range by blast
  ultimately show ?thesis
    using words probe_matches [OF assms(4)] assms(3)
    by (auto simp: ws decode_matches_def entry_words_def in_field_def)
qed

corollary targeted_words_probe_witness:
  "\<exists>ws. targeted_words isa_sample = Inr ws \<and> decode_matches (isa_sample ! 2) 0x60000000 = Inr True \<and> 0x60000000 \<in> set ws \<and>
    decode_matches (isa_sample ! 2) (0x60000000 OR (NOT 0xFC000000 AND 0xFFFFFFFF)) = Inr True \<and>
    0x60000000 OR (NOT 0xFC000000 AND 0xFFFFFFFF) \<in> set ws \<and>
    (\<forall>b < 32. bit (0xFC000000 :: int) b \<longrightarrow>
       decode_matches (isa_sample ! 2) (0x60000000 XOR push_bit b 1) = Inr False \<and> 0x60000000 XOR push_bit b 1 \<in> set ws) \<and>
    (\<forall>w \<in> set ws. 0 \<le> w \<and> w < 2 ^ 32)"
proof -
  have "is_ok (targeted_words isa_sample)" and "entry_code (isa_sample ! 2) = Inr (0xFC000000, 0x60000000)"
    by code_simp+
  then obtain ws where ws: "targeted_words isa_sample = Inr ws" and code: "entry_code (isa_sample ! 2) = Inr (0xFC000000, 0x60000000)"
    by (auto simp: is_ok_iff)
  have "isa_sample ! 2 \<in> set isa_sample" by (rule nth_mem) (simp add: isa_sample_def)
  from targeted_words_probe [OF ws this code] ws show ?thesis by auto
qed

end
