(* ===== verification/Isa_Profiles.thy ===== *)
theory Isa_Profiles
  imports Isa_Unambiguous
begin

text \<open>
  The opt-in decode profiles of \<open>sim/tools/isa_generate.py\<close>: the reviewed encodings
  (\<open>LSU_EXTENSION_FORMS\<close>, \<open>FULL_DECODE_FORMS\<close>, the X-forms) and \<open>validate_profile_entries\<close>, which
  holds every opt-in entry to one of them, or to the encoding of its special register.
\<close>

section \<open>Reviewed encodings\<close>

definition DECODE_PARAMETERS :: "string list" where
  "DECODE_PARAMETERS =
     [''ENABLE_SUPERVISOR_EXCEPTIONS'', ''ENABLE_LIVE_CONTEXT'', ''ENABLE_TIMERS'', ''ENABLE_RUNTIME_BAT'',
      ''ENABLE_SEGMENT_REGISTERS'', ''ENABLE_TLB_INVALIDATE'', ''ENABLE_TLB_LOAD'', ''ENABLE_SDR1'',
      ''ENABLE_TLB_MISS_EXCEPTIONS'', ''ENABLE_CACHE_INSTRUCTIONS'', ''ENABLE_BYTE_REVERSE'', ''ENABLE_MULTIPLE_STRING'',
      ''ENABLE_RESERVATION'', ''ENABLE_FULL_DECODE'']"

definition CACHE_PROFILE :: "string list" where
  "CACHE_PROFILE = [''ENABLE_SUPERVISOR_EXCEPTIONS'', ''ENABLE_CACHE_INSTRUCTIONS'']"

definition MULTIPLE_PROFILE :: "string list" where
  "MULTIPLE_PROFILE = [''ENABLE_SUPERVISOR_EXCEPTIONS'', ''ENABLE_MULTIPLE_STRING'']"

definition BYTE_REVERSE_PROFILE :: "string list" where
  "BYTE_REVERSE_PROFILE = [''ENABLE_SUPERVISOR_EXCEPTIONS'', ''ENABLE_BYTE_REVERSE'']"

definition RESERVATION_PROFILE :: "string list" where
  "RESERVATION_PROFILE = [''ENABLE_SUPERVISOR_EXCEPTIONS'', ''ENABLE_CACHE_INSTRUCTIONS'', ''ENABLE_RESERVATION'']"

definition FULL_DECODE_PROFILE :: "string list" where
  "FULL_DECODE_PROFILE = [''ENABLE_SUPERVISOR_EXCEPTIONS'', ''ENABLE_LIVE_CONTEXT'', ''ENABLE_FULL_DECODE'']"

definition op31 :: "int \<Rightarrow> int" where
  "op31 xo = shl 31 26 OR shl xo 1"

type_synonym lsu_form = "int \<times> int \<times> string list \<times> string"

definition LSU_EXTENSION_FORMS :: "(string \<times> lsu_form) list" where
  "LSU_EXTENSION_FORMS =
     [(''lmw'', 0xFC000000, shl 46 26, MULTIPLE_PROFILE, ''dispatch_and_execution_sync''),
      (''stmw'', 0xFC000000, shl 47 26, MULTIPLE_PROFILE, ''execution_sync''),
      (''lswi'', 0xFC0007FF, op31 597, MULTIPLE_PROFILE, ''dispatch_and_execution_sync''),
      (''lswx'', 0xFC0007FF, op31 533, MULTIPLE_PROFILE, ''dispatch_and_execution_sync''),
      (''stswi'', 0xFC0007FF, op31 725, MULTIPLE_PROFILE, ''execution_sync''),
      (''stswx'', 0xFC0007FF, op31 661, MULTIPLE_PROFILE, ''execution_sync''),
      (''lwarx'', 0xFC0007FF, op31 20, RESERVATION_PROFILE, ''none''),
      (''stwcx.'', 0xFC0007FF, op31 150 OR 1, RESERVATION_PROFILE, ''none''),
      (''lhbrx'', 0xFC0007FF, op31 790, BYTE_REVERSE_PROFILE, ''none''),
      (''lwbrx'', 0xFC0007FF, op31 534, BYTE_REVERSE_PROFILE, ''none''),
      (''sthbrx'', 0xFC0007FF, op31 918, BYTE_REVERSE_PROFILE, ''none''),
      (''stwbrx'', 0xFC0007FF, op31 662, BYTE_REVERSE_PROFILE, ''none'')]"

definition LSU_EXTENSION_PROFILES :: "string list list" where
  "LSU_EXTENSION_PROFILES = [MULTIPLE_PROFILE, BYTE_REVERSE_PROFILE, RESERVATION_PROFILE]"

text \<open>The encoded SPR field swaps the two halves of the number.\<close>

definition isa_spr_field :: "int \<Rightarrow> int" where
  "isa_spr_field spr = shl (spr AND 31) 16 OR shl (drop_bit 5 spr) 11"

definition spr_word :: "int \<Rightarrow> int \<Rightarrow> int" where
  "spr_word spr xo = shl 31 26 OR shl (spr AND 31) 16 OR shl (drop_bit 5 spr) 11 OR shl xo 1"

type_synonym full_form = "int \<times> int \<times> string \<times> string"

definition FULL_DECODE_FORMS :: "(string \<times> full_form) list" where
  "FULL_DECODE_FORMS =
     [(''tw'', 0xFC0007FF, op31 4, ''Integer'', ''user''),
      (''twi'', 0xFC000000, shl 3 26, ''Integer'', ''user''),
      (''eciwx'', 0xFC0007FF, op31 310, ''LSU'', ''user''),
      (''ecowx'', 0xFC0007FF, op31 438, ''LSU'', ''user''),
      (''mfpvr'', 0xFC1FFFFF, spr_word 287 339, ''SRU'', ''supervisor''),
      (''mfhid0'', 0xFC1FFFFF, spr_word 1008 339, ''SRU'', ''supervisor''),
      (''mthid0'', 0xFC1FFFFF, spr_word 1008 467, ''SRU'', ''supervisor''),
      (''mfhid1'', 0xFC1FFFFF, spr_word 1009 339, ''SRU'', ''supervisor''),
      (''mthid1'', 0xFC1FFFFF, spr_word 1009 467, ''SRU'', ''supervisor''),
      (''mfear'', 0xFC1FFFFF, spr_word 282 339, ''SRU'', ''supervisor''),
      (''mtear'', 0xFC1FFFFF, spr_word 282 467, ''SRU'', ''supervisor''),
      (''sync_l'', 0xFF9FFFFF, 0x7C0004AC, ''SRU'', ''user'')] @
     map (\<lambda>(opr, name). (name, 0xFC000000, shl (48 + opr) 26, ''LSU'', ''user''))
       (zip [0..7] [''lfs'', ''lfsu'', ''lfd'', ''lfdu'', ''stfs'', ''stfsu'', ''stfd'', ''stfdu'']) @
     map (\<lambda>(name, xo). (name, 0xFC0007FE, op31 xo, ''LSU'', ''user''))
       [(''lfsx'', 535), (''lfsux'', 567), (''lfdx'', 599), (''lfdux'', 631), (''stfsx'', 663), (''stfsux'', 695), (''stfdx'', 727),
        (''stfdux'', 759), (''stfiwx'', 983)] @
     concat (map (\<lambda>(opr, forms). map (\<lambda>(name, xo). (name, 0xFC00003E, shl opr 26 OR shl xo 1, ''FPU'', ''user'')) forms)
       [(59, [(''fdivs'', 18), (''fsubs'', 20), (''fadds'', 21), (''fres'', 24), (''fmuls'', 25), (''fmsubs'', 28), (''fmadds'', 29),
              (''fnmsubs'', 30), (''fnmadds'', 31)]),
        (63, [(''fdiv'', 18), (''fsub'', 20), (''fadd'', 21), (''fsel'', 23), (''fmul'', 25), (''frsqrte'', 26), (''fmsub'', 28),
              (''fmadd'', 29), (''fnmsub'', 30), (''fnmadd'', 31)])]) @
     map (\<lambda>(name, xo). (name, 0xFC0007FE, shl 63 26 OR shl xo 1, ''FPU'', ''user''))
       [(''fcmpu'', 0), (''frsp'', 12), (''fctiw'', 14), (''fctiwz'', 15), (''fcmpo'', 32), (''mtfsb1'', 38), (''fneg'', 40),
        (''mcrfs'', 64), (''mtfsb0'', 70), (''fmr'', 72), (''mtfsfi'', 134), (''fnabs'', 136), (''fabs'', 264), (''mffs'', 583),
        (''mtfsf'', 711)]"

definition x_forms :: "(string \<times> int \<times> int) list" where
  "x_forms =
     [(''mtmsr'', 146, 0xFC1FFFFF), (''mtsr'', 210, 0xFC10FFFF), (''mtsrin'', 242, 0xFC1F07FF), (''mfsr'', 595, 0xFC10FFFF),
      (''mfsrin'', 659, 0xFC1F07FF), (''tlbie'', 306, 0xFFFF07FF), (''tlbld'', 978, 0xFFFF07FF), (''tlbli'', 1010, 0xFFFF07FF),
      (''tlbsync'', 566, 0xFFFFFFFF), (''dcbf'', 86, 0xFFE007FF), (''dcbi'', 470, 0xFFE007FF), (''dcbst'', 54, 0xFFE007FF),
      (''dcbt'', 278, 0xFFE007FF), (''dcbtst'', 246, 0xFFE007FF), (''dcbz'', 1014, 0xFFE007FF), (''icbi'', 982, 0xFFE007FF)]"

definition user_forms :: "string set" where
  "user_forms = {''dcbf'', ''dcbst'', ''dcbt'', ''dcbtst'', ''dcbz'', ''icbi''}"

definition PROFILE_STATUSES :: "string set" where
  "PROFILE_STATUSES = {''implemented_opt_in_profile'', ''manual_conflict_rejected''}"

definition SPR_READ_XO :: "int list" where "SPR_READ_XO = [339, 371]"
definition SPR_WRITE_XO :: int where "SPR_WRITE_XO = 467"

section \<open>\<open>validate_profile_entries\<close>\<close>

definition feature_profile :: "isa_entry \<Rightarrow> string list" where
  "feature_profile e = (case ie_profile e of None \<Rightarrow> [] | Some (OneParameter p) \<Rightarrow> [p] | Some (Parameters ps) \<Rightarrow> ps)"

text \<open>Which reviewed forms have been seen.\<close>

record profile_seen =
  ps_x :: "string list"
  ps_lsu :: "string list"
  ps_full :: "string list"

definition check_full :: "isa_entry \<Rightarrow> string list \<Rightarrow> unit result" where
  "check_full e profile =
     (case map_of FULL_DECODE_FORMS (ie_id e) of
        None \<Rightarrow> meta_err ''unreviewed full-decode form''
      | Some (fm, fv, unit1, privilege) \<Rightarrow>
          bindR (entry_code e) (\<lambda>code.
            meta_require (code = (fm, fv)) ''full-decode encoding changed''
              (meta_require (profile = FULL_DECODE_PROFILE \<and> ie_unit e = unit1 \<and> ie_privilege e = privilege \<and>
                   ie_validation e = Some ''accepted_full_decode_benches'')
                 ''full-decode profile, unit or privilege changed'' (Inr ()))))"

definition check_lsu :: "isa_entry \<Rightarrow> string list \<Rightarrow> lsu_form \<Rightarrow> unit result" where
  "check_lsu e profile form =
     (case form of (fm, fv, expected, serialization) \<Rightarrow>
        bindR (entry_code e) (\<lambda>code.
          meta_require (code = (fm, fv)) ''load/store extension encoding changed''
            (meta_require (profile = expected \<and> ie_unit e = ''LSU'' \<and> ie_privilege e = ''user'')
               ''load/store extension profile, unit or privilege changed''
              (meta_require (ie_serialization e = serialization) ''Table 6-6 serialization changed''
                (meta_require ((ie_id e = ''lmw'') = (ie_semantic e = Some ''load_multiple''))
                   ''only lmw models the rA-in-range invalid form'' (Inr ()))))))"

definition check_spr :: "isa_entry \<Rightarrow> int \<Rightarrow> unit result" where
  "check_spr e spr =
     bindR (isa_number (ie_value e)) (\<lambda>v.
       let xo = drop_bit 1 v AND 0x3FF
       in meta_require (xo \<in> set (SPR_READ_XO @ [SPR_WRITE_XO])) ''SPR entry must use MFSPR, MFTB or MTSPR''
            (bindR (entry_code e) (\<lambda>code.
              meta_require (code = (0xFC1FFFFF, shl 31 26 OR isa_spr_field spr OR shl xo 1)) ''SPR selector encoding changed''
                (meta_require (ie_privilege e = (if spr AND 16 \<noteq> 0 then ''supervisor'' else ''user''))
                   ''privilege disagrees with SPR[0]''
                  (meta_require ((ie_writes e = [''rD'']) = (xo \<in> set SPR_READ_XO)) ''SPR direction disagrees with extended opcode''
                    (Inr ()))))))"

definition check_x :: "isa_entry \<Rightarrow> string list \<Rightarrow> unit result" where
  "check_x e profile =
     (case map_of x_forms (ie_id e) of
        None \<Rightarrow> meta_err ''unreviewed opt-in X-form''
      | Some (xo, fm) \<Rightarrow>
          bindR (entry_code e) (\<lambda>code.
            meta_require (code = (fm, op31 xo)) ''X-form reserved fields or XO changed''
              (meta_require (ie_privilege e = (if ie_id e \<in> user_forms then ''user'' else ''supervisor'')) ''privilege must be''
                (meta_require (ie_id e \<in> insert ''dcbi'' user_forms \<longrightarrow> profile = CACHE_PROFILE)
                   ''cache control form outside the cache profile'' (Inr ())))))"

definition check_profile :: "isa_entry \<Rightarrow> profile_seen \<Rightarrow> profile_seen result" where
  "check_profile e seen =
     (let profile = feature_profile e
      in meta_require (profile \<noteq> [] \<and> set profile \<subseteq> set DECODE_PARAMETERS \<and> distinct profile)
           ''feature_profile must list known decode parameters''
        (meta_require (''ENABLE_SUPERVISOR_EXCEPTIONS'' \<in> set profile) ''opt-in profile requires supervisor exceptions''
          (if ''ENABLE_FULL_DECODE'' \<in> set profile then
             bindR (check_full e profile) (\<lambda>_. Inr (seen\<lparr>ps_full := ie_id e # ps_full seen\<rparr>))
           else
             (case map_of LSU_EXTENSION_FORMS (ie_id e) of
                Some form \<Rightarrow> bindR (check_lsu e profile form) (\<lambda>_. Inr (seen\<lparr>ps_lsu := ie_id e # ps_lsu seen\<rparr>))
              | None \<Rightarrow>
                  meta_require (profile \<notin> set LSU_EXTENSION_PROFILES) ''unreviewed load/store extension form''
                    (meta_require (length profile > 1 \<and> ''ENABLE_LIVE_CONTEXT'' \<notin> set profile \<longrightarrow> profile = CACHE_PROFILE)
                       ''MMU/timer profiles require live context''
                      (meta_require (''ENABLE_CACHE_INSTRUCTIONS'' \<in> set profile \<longrightarrow> profile = CACHE_PROFILE)
                         ''cache control profile changed''
                        (case ie_spr e of
                           Some spr \<Rightarrow> bindR (check_spr e spr) (\<lambda>_. Inr seen)
                         | None \<Rightarrow> bindR (check_x e profile) (\<lambda>_. Inr (seen\<lparr>ps_x := ie_id e # ps_x seen\<rparr>)))))))))"

definition opt_in :: "isa_entry \<Rightarrow> bool" where
  "opt_in e \<longleftrightarrow> ie_status e \<in> Some ` PROFILE_STATUSES"

fun check_profiles :: "isa_entry list \<Rightarrow> profile_seen \<Rightarrow> profile_seen result" where
  "check_profiles [] seen = Inr seen"
| "check_profiles (e # es) seen =
     (if opt_in e then bindR (check_profile e seen) (check_profiles es) else check_profiles es seen)"

definition validate_profile_entries :: "string option \<Rightarrow> int list option \<Rightarrow> isa_entry list \<Rightarrow> unit result" where
  "validate_profile_entries ignored_mask extended_opcodes entries =
     meta_require (ignored_mask = Some ''0x00000040'' \<and> extended_opcodes = Some SPR_READ_XO)
       ''603e MFSPR/MFTB bit-25 equivalence rule changed''
       (bindR (check_profiles entries \<lparr>ps_x = [], ps_lsu = [], ps_full = []\<rparr>) (\<lambda>seen.
         meta_require (set (ps_x seen) = set (map fst x_forms)) ''missing opt-in X-forms''
           (meta_require (set (ps_full seen) = set (map fst FULL_DECODE_FORMS)) ''missing full-decode forms''
             (meta_require (set (ps_lsu seen) = set (map fst LSU_EXTENSION_FORMS)) ''missing load/store extension forms''
               (Inr ())))))"

section \<open>The reviewed forms are unambiguous\<close>

definition ALL_FORMS :: "(string \<times> int \<times> int) list" where
  "ALL_FORMS =
     map (\<lambda>(n, m, v, u, p). (n, m, v)) FULL_DECODE_FORMS @ map (\<lambda>(n, m, v, p, s). (n, m, v)) LSU_EXTENSION_FORMS @
     map (\<lambda>(n, xo, m). (n, m, op31 xo)) x_forms"

fun apart :: "(string \<times> int \<times> int) list \<Rightarrow> bool" where
  "apart [] = True"
| "apart ((n, m, v) # fs) = (list_all (\<lambda>(n', m', v'). n \<noteq> n' \<and> (v XOR v') AND m AND m' \<noteq> 0) fs \<and> apart fs)"

lemma forms_apart: "apart ALL_FORMS"
  by code_simp

lemma apart_overlap: "(v XOR v') AND m AND m' = 0 \<longleftrightarrow> (v' XOR v) AND m' AND m = (0 :: int)"
  by (simp add: xor.commute and.assoc and.commute [of m m'])

lemma apartD:
  "apart fs \<Longrightarrow> (n, m, v) \<in> set fs \<Longrightarrow> (n', m', v') \<in> set fs \<Longrightarrow> n \<noteq> n' \<Longrightarrow> (v XOR v') AND m AND m' \<noteq> 0"
proof (induction fs rule: apart.induct)
  case (2 k a b fs)
  then show ?case
    using apart_overlap [of v v' m m'] by (auto simp: list_all_iff)
qed simp

text \<open>What an accepted entry is: one of the reviewed forms, or a special-register move.\<close>

definition entry_kind :: "isa_entry \<Rightarrow> bool" where
  "entry_kind e \<longleftrightarrow>
     (\<exists>m v. entry_code e = Inr (m, v) \<and> (ie_id e, m, v) \<in> set ALL_FORMS) \<or>
     (\<exists>spr xo. ie_spr e = Some spr \<and> xo \<in> {339, 371, 467} \<and> entry_code e = Inr (0xFC1FFFFF, spr_word spr xo) \<and>
        ie_privilege e = (if spr AND 16 \<noteq> 0 then ''supervisor'' else ''user''))"

named_theorems meta_simps \<open>the guards of the metadata checks\<close>

lemma meta_require_Inr [meta_simps]: "meta_require c m r = Inr x \<longleftrightarrow> c \<and> r = Inr x"
  by (simp add: meta_require_def meta_err_def)

lemma meta_err_Inr [meta_simps]: "meta_err m \<noteq> Inr x"
  by (simp add: meta_err_def)

lemma full_in_all: "(n, m, v, u, p) \<in> set FULL_DECODE_FORMS \<Longrightarrow> (n, m, v) \<in> set ALL_FORMS"
  unfolding ALL_FORMS_def set_append set_map by (rule UnI1, rule image_eqI [rotated], assumption, simp)

lemma lsu_in_all: "(n, m, v, p, s) \<in> set LSU_EXTENSION_FORMS \<Longrightarrow> (n, m, v) \<in> set ALL_FORMS"
  unfolding ALL_FORMS_def set_append set_map by (rule UnI2, rule UnI1, rule image_eqI [rotated], assumption, simp)

lemma x_in_all: "(n, xo, m) \<in> set x_forms \<Longrightarrow> (n, m, op31 xo) \<in> set ALL_FORMS"
  unfolding ALL_FORMS_def set_append set_map by (rule UnI2, rule UnI2, rule image_eqI [rotated], assumption, simp)

lemma check_full_form:
  assumes "check_full e profile = Inr ()"
  shows "\<exists>m v. entry_code e = Inr (m, v) \<and> (ie_id e, m, v) \<in> set ALL_FORMS"
proof (cases "map_of FULL_DECODE_FORMS (ie_id e)")
  case None
  with assms show ?thesis by (simp add: check_full_def meta_err_Inr)
next
  case (Some f)
  obtain m v u p where f: "f = (m, v, u, p)" by (cases f)
  have "entry_code e = Inr (m, v)"
    using assms unfolding check_full_def Some f option.case prod.case bindR_eq_Inr meta_require_Inr by blast
  with full_in_all [OF map_of_SomeD [OF Some [unfolded f]]] show ?thesis by blast
qed

lemma check_lsu_form:
  assumes "map_of LSU_EXTENSION_FORMS (ie_id e) = Some form" and "check_lsu e profile form = Inr ()"
  shows "\<exists>m v. entry_code e = Inr (m, v) \<and> (ie_id e, m, v) \<in> set ALL_FORMS"
proof -
  obtain m v p s where form: "form = (m, v, p, s)" by (cases form)
  have "entry_code e = Inr (m, v)"
    using assms(2) unfolding check_lsu_def form prod.case bindR_eq_Inr meta_require_Inr by blast
  with lsu_in_all [OF map_of_SomeD [OF assms(1) [unfolded form]]] show ?thesis by blast
qed

lemma check_x_form:
  assumes "check_x e profile = Inr ()"
  shows "\<exists>m v. entry_code e = Inr (m, v) \<and> (ie_id e, m, v) \<in> set ALL_FORMS"
proof (cases "map_of x_forms (ie_id e)")
  case None
  with assms show ?thesis by (simp add: check_x_def meta_err_Inr)
next
  case (Some f)
  obtain xo m where f: "f = (xo, m)" by (cases f)
  have "entry_code e = Inr (m, op31 xo)"
    using assms unfolding check_x_def Some f option.case prod.case bindR_eq_Inr meta_require_Inr by blast
  with x_in_all [OF map_of_SomeD [OF Some [unfolded f]]] show ?thesis by blast
qed

lemma check_spr_form:
  assumes "check_spr e spr = Inr ()"
  shows "\<exists>xo. xo \<in> {339, 371, 467} \<and> entry_code e = Inr (0xFC1FFFFF, spr_word spr xo) \<and>
    ie_privilege e = (if spr AND 16 \<noteq> 0 then ''supervisor'' else ''user'')"
proof -
  from assms obtain v where "drop_bit 1 v AND 0x3FF \<in> set (SPR_READ_XO @ [SPR_WRITE_XO])"
    and "entry_code e = Inr (0xFC1FFFFF, shl 31 26 OR isa_spr_field spr OR shl (drop_bit 1 v AND 0x3FF) 1)"
    and "ie_privilege e = (if spr AND 16 \<noteq> 0 then ''supervisor'' else ''user'')"
    unfolding check_spr_def bindR_eq_Inr Let_def meta_require_Inr by blast
  moreover have "shl 31 26 OR isa_spr_field spr OR shl xo 1 = spr_word spr xo" for xo
    by (simp only: spr_word_def isa_spr_field_def or.assoc)
  ultimately show ?thesis
    unfolding SPR_READ_XO_def SPR_WRITE_XO_def by (intro exI [of _ "drop_bit 1 v AND 0x3FF"] conjI) (simp_all only: append.simps list.set insert_commute)
qed

definition form_listed :: "isa_entry \<Rightarrow> bool" where
  "form_listed e \<longleftrightarrow> (\<exists>m v. entry_code e = Inr (m, v) \<and> (ie_id e, m, v) \<in> set ALL_FORMS)"

lemma entry_kind_listed: "form_listed e \<Longrightarrow> entry_kind e"
  unfolding form_listed_def entry_kind_def by (rule disjI1)

lemma bindR_unit_Inr: "bindR r (\<lambda>_. Inr s) = Inr t \<longleftrightarrow> r = Inr () \<and> t = s"
  by (cases r) auto

text \<open>What the check of one entry records.\<close>

lemma check_profile_kind:
  assumes "check_profile e seen = Inr seen'"
  shows "seen' = seen \<and> entry_kind e \<or>
    form_listed e \<and> seen' \<in> {seen\<lparr>ps_full := ie_id e # ps_full seen\<rparr>, seen\<lparr>ps_lsu := ie_id e # ps_lsu seen\<rparr>,
      seen\<lparr>ps_x := ie_id e # ps_x seen\<rparr>}"
proof (cases "''ENABLE_FULL_DECODE'' \<in> set (feature_profile e)")
  case True
  with assms have got: "check_full e (feature_profile e) = Inr ()" "seen' = seen\<lparr>ps_full := ie_id e # ps_full seen\<rparr>"
    unfolding check_profile_def Let_def meta_require_Inr if_P [OF True] bindR_unit_Inr by - (elim conjE, assumption)+
  from check_full_form [OF got(1)] got show ?thesis unfolding form_listed_def by blast
next
  case False
  note step = assms [unfolded check_profile_def Let_def meta_require_Inr if_not_P [OF False]]
  show ?thesis
  proof (cases "map_of LSU_EXTENSION_FORMS (ie_id e)")
    case (Some form)
    from step have got: "check_lsu e (feature_profile e) form = Inr ()" "seen' = seen\<lparr>ps_lsu := ie_id e # ps_lsu seen\<rparr>"
      unfolding Some option.case bindR_unit_Inr by - (elim conjE, assumption)+
    from check_lsu_form [OF Some got(1)] got show ?thesis unfolding form_listed_def by blast
  next
    case None
    show ?thesis
    proof (cases "ie_spr e")
      case (Some spr)
      from step have got: "check_spr e spr = Inr ()" "seen' = seen"
        unfolding None Some option.case meta_require_Inr bindR_unit_Inr by - (elim conjE, assumption)+
      from check_spr_form [OF got(1)] got Some show ?thesis unfolding entry_kind_def by blast
    next
      case N: None
      from step have got: "check_x e (feature_profile e) = Inr ()" "seen' = seen\<lparr>ps_x := ie_id e # ps_x seen\<rparr>"
        unfolding None N option.case meta_require_Inr bindR_unit_Inr by - (elim conjE, assumption)+
      from check_x_form [OF got(1)] got show ?thesis unfolding form_listed_def by blast
    qed
  qed
qed

definition seen_ids :: "profile_seen \<Rightarrow> string set" where
  "seen_ids seen = set (ps_x seen) \<union> set (ps_lsu seen) \<union> set (ps_full seen)"

lemma check_profiles_seen:
  assumes "check_profiles es seen = Inr seen'"
  shows "(\<forall>e \<in> set es. opt_in e \<longrightarrow> entry_kind e) \<and>
    (\<forall>n \<in> seen_ids seen'. n \<in> seen_ids seen \<or> (\<exists>e \<in> set es. opt_in e \<and> ie_id e = n \<and> form_listed e))"
  using assms
proof (induction es seen rule: check_profiles.induct)
  case (1 seen)
  then show ?case by simp
next
  case (2 e es seen)
  show ?case
  proof (cases "opt_in e")
    case False
    with 2 show ?thesis by auto
  next
    case True
    with "2.prems" obtain mid where mid: "check_profile e seen = Inr mid" and rest: "check_profiles es mid = Inr seen'"
      by (auto simp: bindR_eq_Inr)
    have "entry_kind e" and "\<forall>n \<in> seen_ids mid. n \<in> seen_ids seen \<or> ie_id e = n \<and> form_listed e"
      using check_profile_kind [OF mid] entry_kind_listed by (auto simp: seen_ids_def)
    moreover note "2.IH"(1) [OF True rest]
    ultimately show ?thesis using True by auto
  qed
qed

lemma reviewed_names: "set (map fst x_forms) \<union> set (map fst FULL_DECODE_FORMS) \<union> set (map fst LSU_EXTENSION_FORMS) =
    fst ` set ALL_FORMS"
  unfolding ALL_FORMS_def set_append set_map image_Un image_image by (simp add: split_def) blast

lemma apart_unique:
  "apart fs \<Longrightarrow> (n, m, v) \<in> set fs \<Longrightarrow> (n, m', v') \<in> set fs \<Longrightarrow> m = m' \<and> v = v'"
  by (induction fs rule: apart.induct) (auto simp: list_all_iff)

lemma apart_no_common:
  fixes w :: int
  assumes "apart fs" and "(n, m, v) \<in> set fs" and "(n', m', v') \<in> set fs" and "n \<noteq> n'" and "w AND m = v"
  shows "w AND m' \<noteq> v'"
proof
  assume "w AND m' = v'"
  then have "(v XOR v') AND m AND m' = 0"
    unfolding assms(5) [symmetric] by (intro bit_eqI) (auto simp: bit_simps)
  with apartD [OF assms(1-4)] show False by blast
qed

text \<open>
  The encoding of a special-register move fixes its opcode bits 1 to 5 and its extended opcode; a
  reviewed form differs from it there, unless it is such a move itself.
\<close>

definition SPR_MASK :: int where "SPR_MASK = 0xFC1FFFFF"

lemma forms_off_spr:
  "list_all (\<lambda>(n, m, v). m = SPR_MASK \<or> (v XOR 0x7C000000) AND m AND 0x7C000000 \<noteq> 0 \<or>
      list_all (\<lambda>xo. (v XOR push_bit 1 xo) AND m AND 0x7FF \<noteq> 0) [339, 371, 467]) ALL_FORMS"
  by code_simp

lemma spr_word_parts:
  assumes "xo \<in> {339, 371, 467}"
  shows "spr_word spr xo AND 0x7FF = push_bit 1 xo" "spr_word spr xo AND 0x7C000000 = 0x7C000000"
proof -
  have low: "x AND 0x7FF = take_bit 11 x" for x :: int
    by (simp add: take_bit_eq_mask mask_eq_exp_minus_1)
  have "take_bit 11 (spr_word spr xo) = take_bit 11 (push_bit 1 xo)"
    by (rule bit_eqI) (auto simp: spr_word_def shl_def bit_simps)
  moreover have "take_bit 11 (push_bit 1 xo) = push_bit 1 xo"
    using assms by (auto simp: take_bit_eq_mod push_bit_eq_mult)
  ultimately show "spr_word spr xo AND 0x7FF = push_bit 1 xo" by (simp add: low)
  have top: "bit (0x7C000000 :: int) k \<longleftrightarrow> bit (push_bit 26 (31 :: int)) k" for k by simp
  show "spr_word spr xo AND 0x7C000000 = 0x7C000000"
    by (rule bit_eqI) (auto simp: spr_word_def shl_def bit_or_iff bit_and_iff top simp del: push_bit_numeral push_bit_of_1)
qed

lemma common_part:
  fixes w :: int
  assumes "w AND m = v" "w AND M = s" "s AND K = c" "M AND K = K"
  shows "(v XOR c) AND m AND K = 0"
proof -
  have "c = w AND K" using assms(2-4) by (metis and.assoc)
  then show ?thesis unfolding assms(1) [symmetric] by (intro bit_eqI) (auto simp: bit_simps)
qed

lemma form_off_spr:
  assumes form: "(n, m, v) \<in> set ALL_FORMS" and w: "w AND m = v" "w AND SPR_MASK = spr_word spr xo" and xo: "xo \<in> {339, 371, 467}"
  shows "m = SPR_MASK \<and> v = spr_word spr xo"
proof -
  have "(v XOR push_bit 1 xo) AND m AND 0x7FF = 0" "(v XOR 0x7C000000) AND m AND 0x7C000000 = 0"
    by (rule common_part [OF w spr_word_parts(1) [OF xo]], simp add: SPR_MASK_def,
        rule common_part [OF w spr_word_parts(2) [OF xo]], simp add: SPR_MASK_def)
  with bspec [OF forms_off_spr [unfolded list_all_iff] form] xo have "m = SPR_MASK" by auto
  then show ?thesis using w by simp
qed

lemma entry_kind_code:
  assumes "entry_kind f" and code: "entry_code f = Inr (a, b)"
  shows "(ie_id f, a, b) \<in> set ALL_FORMS \<or>
    (\<exists>spr xo. ie_spr f = Some spr \<and> xo \<in> {339, 371, 467} \<and> a = SPR_MASK \<and> b = spr_word spr xo)"
  using assms(1) unfolding entry_kind_def
proof (elim disjE exE conjE)
  fix m v assume "entry_code f = Inr (m, v)" "(ie_id f, m, v) \<in> set ALL_FORMS"
  then show ?thesis using code by simp
next
  fix spr xo :: int assume f: "ie_spr f = Some spr" "xo \<in> {339, 371, 467}" "entry_code f = Inr (0xFC1FFFFF, spr_word spr xo)"
  then have "a = SPR_MASK \<and> b = spr_word spr xo" using code by (simp add: SPR_MASK_def)
  then show ?thesis using f(1,2) by blast
qed

text \<open>Two accepted entries of different identifiers that match the same word.\<close>

lemma kinds_collide:
  assumes k: "entry_kind e" "entry_kind e'" and ids: "ie_id e \<noteq> ie_id e'"
    and w: "decode_matches e w = Inr True" "decode_matches e' w = Inr True"
  shows "\<exists>spr xo. (ie_spr e = Some spr \<or> ie_spr e' = Some spr) \<and> xo \<in> {339, 371, 467} \<and>
    entry_code e = Inr (SPR_MASK, spr_word spr xo) \<and> entry_code e' = Inr (SPR_MASK, spr_word spr xo)"
proof -
  obtain m v m' v' where c: "entry_code e = Inr (m, v)" "w AND m = v" and c': "entry_code e' = Inr (m', v')" "w AND m' = v'"
    using w by (auto simp: decode_matches_def bindR_eq_Inr)
  note kind = entry_kind_code
  show ?thesis
  proof (cases "(ie_id e, m, v) \<in> set ALL_FORMS \<and> (ie_id e', m', v') \<in> set ALL_FORMS")
    case True
    then show ?thesis using apart_no_common [OF forms_apart _ _ ids c(2)] c'(2) by blast
  next
    case False
    then consider (right) spr xo where "ie_spr e' = Some spr" "xo \<in> {339, 371, 467}" "m' = SPR_MASK" "v' = spr_word spr xo"
      | (left) spr xo where "ie_spr e = Some spr" "xo \<in> {339, 371, 467}" "m = SPR_MASK" "v = spr_word spr xo"
      using kind [OF k(1) c(1)] kind [OF k(2) c'(1)] by (elim disjE exE conjE) blast+
    then show ?thesis
    proof cases
      case right
      then have "m = SPR_MASK \<and> v = spr_word spr xo"
        using kind [OF k(1) c(1)] form_off_spr [of "ie_id e" m v w spr xo] c(2) c'(2) by blast
      then show ?thesis using right c(1) c'(1) by (intro exI [of _ spr] exI [of _ xo] conjI) (simp_all only: simp_thms)
    next
      case left
      then have "m' = SPR_MASK \<and> v' = spr_word spr xo"
        using kind [OF k(2) c'(1)] form_off_spr [of "ie_id e'" m' v' w spr xo] c(2) c'(2) by blast
      then show ?thesis using left c(1) c'(1) by (intro exI [of _ spr] exI [of _ xo] conjI) (simp_all only: simp_thms)
    qed
  qed
qed

text \<open>
  C39: Entries the profile check accepts hold every reviewed encoding and keep the opt-in forms
  apart: each name of the full-decode, load/store-extension and X-form tables is the identifier of
  an opt-in entry with exactly the table's mask and value; and two opt-in entries with different
  identifiers match a common instruction word only when both have the same encoding, that of
  one special-register move, and one of them is an entry with that register in its \<open>spr\<close> field.
  In particular no two entries without an \<open>spr\<close> field share a word, and no two special-register
  moves of different encodings do.
\<close>

theorem profile_forms_unambiguous:
  assumes "validate_profile_entries ignored_mask extended entries = Inr ()"
  shows "(\<forall>(n, m, v) \<in> set ALL_FORMS. \<exists>e \<in> set entries. opt_in e \<and> ie_id e = n \<and> entry_code e = Inr (m, v)) \<and>
    (\<forall>e \<in> set entries. \<forall>e' \<in> set entries. \<forall>w. opt_in e \<and> opt_in e' \<and> ie_id e \<noteq> ie_id e' \<and>
       decode_matches e w = Inr True \<and> decode_matches e' w = Inr True \<longrightarrow>
       (\<exists>spr xo. (ie_spr e = Some spr \<or> ie_spr e' = Some spr) \<and> xo \<in> {339, 371, 467} \<and>
          entry_code e = Inr (SPR_MASK, spr_word spr xo) \<and> entry_code e' = Inr (SPR_MASK, spr_word spr xo)))"
proof -
  from assms obtain seen where run: "check_profiles entries \<lparr>ps_x = [], ps_lsu = [], ps_full = []\<rparr> = Inr seen"
    and all: "set (ps_x seen) = set (map fst x_forms)" "set (ps_full seen) = set (map fst FULL_DECODE_FORMS)"
      "set (ps_lsu seen) = set (map fst LSU_EXTENSION_FORMS)"
    unfolding validate_profile_entries_def bindR_eq_Inr meta_require_Inr by blast
  note kinds = check_profiles_seen [OF run]
  have ids: "seen_ids seen = fst ` set ALL_FORMS"
    unfolding seen_ids_def all reviewed_names [symmetric] by blast
  have listed: "\<exists>e \<in> set entries. opt_in e \<and> ie_id e = n \<and> entry_code e = Inr (m, v)" if form: "(n, m, v) \<in> set ALL_FORMS" for n m v
  proof -
    have "n \<in> seen_ids seen" unfolding ids using form by (rule image_eqI [rotated]) simp
    with kinds obtain e where e: "e \<in> set entries" "opt_in e" "ie_id e = n" "form_listed e"
      unfolding seen_ids_def by auto
    with apart_unique [OF forms_apart _ form] show ?thesis
      unfolding form_listed_def by blast
  qed
  have "entry_kind e" if "e \<in> set entries" "opt_in e" for e using kinds that by blast
  with listed kinds_collide show ?thesis by blast
qed

text \<open>The reviewed tables written out as entries.\<close>

definition hex8 :: "int \<Rightarrow> string" where
  "hex8 v = ''0x'' @ map (\<lambda>k. ''0123456789ABCDEF'' ! nat (drop_bit (4 * k) v AND 15)) [7, 6, 5, 4, 3, 2, 1, 0]"

definition sample_form :: "string \<Rightarrow> int \<Rightarrow> int \<Rightarrow> string list \<Rightarrow> string \<Rightarrow> string \<Rightarrow> string \<Rightarrow> isa_entry" where
  "sample_form n m v profile u p ser =
     \<lparr>ie_id = n, ie_mask = hex8 m, ie_value = hex8 v, ie_primary = drop_bit 26 v, ie_status = Some ''implemented_opt_in_profile'',
      ie_profile = Some (Parameters profile), ie_validation = Some ''accepted_full_decode_benches'', ie_unit = u, ie_privilege = p,
      ie_serialization = ser, ie_semantic = (if n = ''lmw'' then Some ''load_multiple'' else None), ie_spr = None, ie_writes = []\<rparr>"

definition sample_entries :: "isa_entry list" where
  "sample_entries =
     map (\<lambda>(n, m, v, u, p). sample_form n m v FULL_DECODE_PROFILE u p ''none'') FULL_DECODE_FORMS @
     map (\<lambda>(n, m, v, p, s). sample_form n m v p ''LSU'' ''user'' s) LSU_EXTENSION_FORMS @
     map (\<lambda>(n, xo, m). sample_form n m (op31 xo) CACHE_PROFILE ''SRU'' (if n \<in> user_forms then ''user'' else ''supervisor'') ''none'') x_forms"

lemma hex_digit_char: "0 \<le> d \<Longrightarrow> d < 16 \<Longrightarrow> ''0123456789ABCDEF'' ! nat d \<noteq> CHR ''_'' \<and> hex_char (''0123456789ABCDEF'' ! nat d) = Some d \<and>
    \<not> is_space (''0123456789ABCDEF'' ! nat d)"
proof -
  have "\<forall>k \<in> set [0..<16]. ''0123456789ABCDEF'' ! k \<noteq> CHR ''_'' \<and> hex_char (''0123456789ABCDEF'' ! k) = Some (int k) \<and>
      \<not> is_space (''0123456789ABCDEF'' ! k)"
    by code_simp
  moreover assume "0 \<le> d" "d < 16"
  ultimately show ?thesis by (auto dest!: bspec [where x = "nat d"])
qed

lemma nibble_step: "16 * drop_bit (k + 4) v + (drop_bit k v AND 15) = drop_bit k (v :: int)"
proof -
  have "drop_bit (k + 4) v = drop_bit k v div 16"
    by (simp add: drop_bit_eq_div power_add div_mult2_eq zdiv_zmult2_eq)
  moreover have "drop_bit k v AND 15 = drop_bit k v mod 16"
    using take_bit_eq_mask [of 4 "drop_bit k v"] by (simp add: take_bit_eq_mod mask_eq_exp_minus_1)
  ultimately show ?thesis by simp
qed

lemma nibble_range: "0 \<le> (x :: int) AND 15" "x AND 15 < 16"
  using take_bit_eq_mask [of 4 x] by (simp_all add: take_bit_eq_mod mask_eq_exp_minus_1)

lemma isa_number_hex8: "0 \<le> v \<Longrightarrow> v < 2 ^ 32 \<Longrightarrow> isa_number (hex8 v) = Inr v"
proof -
  assume v: "0 \<le> v" "v < 2 ^ 32"
  note digit = hex_digit_char [OF nibble_range]
  have top: "16 * 0 + (drop_bit 28 v AND 15) = drop_bit 28 v"
    using nibble_step [of 28 v] v by (simp add: drop_bit_eq_div)
  have "hex_digits 0 (drop 2 (hex8 v)) = Some (268435456 * (drop_bit 28 v AND 15) + 16777216 * (drop_bit 24 v AND 15) +
      1048576 * (drop_bit 20 v AND 15) + 65536 * (drop_bit 16 v AND 15) + 4096 * (drop_bit 12 v AND 15) +
      256 * (drop_bit 8 v AND 15) + 16 * (drop_bit 4 v AND 15) + (drop_bit 0 v AND 15))"
    by (simp add: hex8_def digit)
  also have "268435456 * (drop_bit 28 v AND 15) + 16777216 * (drop_bit 24 v AND 15) +
      1048576 * (drop_bit 20 v AND 15) + 65536 * (drop_bit 16 v AND 15) + 4096 * (drop_bit 12 v AND 15) +
      256 * (drop_bit 8 v AND 15) + 16 * (drop_bit 4 v AND 15) + (drop_bit 0 v AND 15) = drop_bit 0 v"
    using top nibble_step [of 24 v] nibble_step [of 20 v] nibble_step [of 16 v] nibble_step [of 12 v] nibble_step [of 8 v]
      nibble_step [of 4 v] nibble_step [of 0 v]
    by simp
  finally have "hex_digits 0 (drop 2 (hex8 v)) = Some v"
    by simp
  then show ?thesis
    using v digit [of v] by (simp add: isa_number_def Let_def meta_require_def hex8_def)
qed

lemma forms_range: "list_all (\<lambda>(n, m, v). 0 \<le> m \<and> m < 2 ^ 32 \<and> 0 \<le> v \<and> v < 2 ^ 32) ALL_FORMS"
  by code_simp

lemma sample_form_code: "(n, m, v) \<in> set ALL_FORMS \<Longrightarrow> entry_code (sample_form n m v profile u p ser) = Inr (m, v)"
  using bspec [OF forms_range [unfolded list_all_iff], of "(n, m, v)"]
  by (simp add: entry_code_def sample_form_def isa_number_hex8)

lemma sample_profiles:
  "list_all (\<lambda>(n, m, v, p, s). p \<noteq> [] \<and> set p \<subseteq> set DECODE_PARAMETERS \<and> distinct p \<and> ''ENABLE_SUPERVISOR_EXCEPTIONS'' \<in> set p \<and>
     ''ENABLE_FULL_DECODE'' \<notin> set p) LSU_EXTENSION_FORMS"
  "FULL_DECODE_PROFILE \<noteq> [] \<and> set FULL_DECODE_PROFILE \<subseteq> set DECODE_PARAMETERS \<and> distinct FULL_DECODE_PROFILE \<and>
     ''ENABLE_SUPERVISOR_EXCEPTIONS'' \<in> set FULL_DECODE_PROFILE \<and> ''ENABLE_FULL_DECODE'' \<in> set FULL_DECODE_PROFILE"
  "CACHE_PROFILE \<noteq> [] \<and> set CACHE_PROFILE \<subseteq> set DECODE_PARAMETERS \<and> distinct CACHE_PROFILE \<and>
     ''ENABLE_SUPERVISOR_EXCEPTIONS'' \<in> set CACHE_PROFILE \<and> ''ENABLE_FULL_DECODE'' \<notin> set CACHE_PROFILE \<and>
     CACHE_PROFILE \<notin> set LSU_EXTENSION_PROFILES"
  "list_all (\<lambda>(n, xo, m). map_of LSU_EXTENSION_FORMS n = None) x_forms"
  "distinct (map fst FULL_DECODE_FORMS)" "distinct (map fst LSU_EXTENSION_FORMS)" "distinct (map fst x_forms)"
  by code_simp+

lemma sample_full:
  assumes "(n, m, v, u, p) \<in> set FULL_DECODE_FORMS"
  shows "check_profile (sample_form n m v FULL_DECODE_PROFILE u p ''none'') seen = Inr (seen\<lparr>ps_full := n # ps_full seen\<rparr>)"
proof -
  let ?e = "sample_form n m v FULL_DECODE_PROFILE u p ''none''"
  have "map_of FULL_DECODE_FORMS (ie_id ?e) = Some (m, v, u, p)"
    using map_of_is_SomeI [OF sample_profiles(5) assms] by (simp add: sample_form_def)
  then have "check_full ?e FULL_DECODE_PROFILE = Inr ()"
    using sample_form_code [OF full_in_all [OF assms]] by (simp add: check_full_def meta_require_def) (simp add: sample_form_def)
  moreover have "feature_profile ?e = FULL_DECODE_PROFILE"
    by (simp add: feature_profile_def sample_form_def)
  ultimately show ?thesis
    using sample_profiles(2) by (simp add: check_profile_def meta_require_def Let_def) (simp add: sample_form_def)
qed

lemma sample_lsu:
  assumes "(n, m, v, p, s) \<in> set LSU_EXTENSION_FORMS"
  shows "check_profile (sample_form n m v p ''LSU'' ''user'' s) seen = Inr (seen\<lparr>ps_lsu := n # ps_lsu seen\<rparr>)"
proof -
  let ?e = "sample_form n m v p ''LSU'' ''user'' s"
  have "check_lsu ?e p (m, v, p, s) = Inr ()"
    using sample_form_code [OF lsu_in_all [OF assms]] by (simp add: check_lsu_def meta_require_def) (simp add: sample_form_def)
  moreover have "map_of LSU_EXTENSION_FORMS (ie_id ?e) = Some (m, v, p, s)"
    using map_of_is_SomeI [OF sample_profiles(6) assms] by (simp add: sample_form_def)
  moreover have "feature_profile ?e = p"
    by (simp add: feature_profile_def sample_form_def)
  ultimately show ?thesis
    using bspec [OF sample_profiles(1) [unfolded list_all_iff] assms]
    by (simp add: check_profile_def meta_require_def Let_def) (simp add: sample_form_def)
qed

lemma sample_x:
  assumes "(n, xo, m) \<in> set x_forms"
  shows "check_profile (sample_form n m (op31 xo) CACHE_PROFILE ''SRU'' (if n \<in> user_forms then ''user'' else ''supervisor'') ''none'') seen =
    Inr (seen\<lparr>ps_x := n # ps_x seen\<rparr>)"
proof -
  let ?e = "sample_form n m (op31 xo) CACHE_PROFILE ''SRU'' (if n \<in> user_forms then ''user'' else ''supervisor'') ''none''"
  have "map_of x_forms (ie_id ?e) = Some (xo, m)"
    using map_of_is_SomeI [OF sample_profiles(7) assms] by (simp add: sample_form_def)
  then have "check_x ?e CACHE_PROFILE = Inr ()"
    using sample_form_code [OF x_in_all [OF assms]] by (simp add: check_x_def meta_require_def) (simp add: sample_form_def)
  moreover have "feature_profile ?e = CACHE_PROFILE" "ie_spr ?e = None" "ie_id ?e = n"
    by (simp_all add: feature_profile_def sample_form_def)
  ultimately show ?thesis
    using bspec [OF sample_profiles(4) [unfolded list_all_iff] assms] sample_profiles(3)
    by (simp add: check_profile_def meta_require_def Let_def)
qed

lemma check_profiles_append: "check_profiles (xs @ ys) seen = bindR (check_profiles xs seen) (check_profiles ys)"
  by (induction xs arbitrary: seen) (simp_all add: bindR_def split: sum.splits)

lemma sample_opt_in [simp]: "opt_in (sample_form n m v profile u p ser)"
  by (simp add: opt_in_def sample_form_def PROFILE_STATUSES_def)

lemma check_profiles_full:
  "set fs \<subseteq> set FULL_DECODE_FORMS \<Longrightarrow>
     check_profiles (map (\<lambda>(n, m, v, u, p). sample_form n m v FULL_DECODE_PROFILE u p ''none'') fs) seen =
       Inr (seen\<lparr>ps_full := rev (map fst fs) @ ps_full seen\<rparr>)"
  by (induction fs arbitrary: seen) (auto simp: sample_full)

lemma check_profiles_lsu:
  "set ls \<subseteq> set LSU_EXTENSION_FORMS \<Longrightarrow>
     check_profiles (map (\<lambda>(n, m, v, p, s). sample_form n m v p ''LSU'' ''user'' s) ls) seen =
       Inr (seen\<lparr>ps_lsu := rev (map fst ls) @ ps_lsu seen\<rparr>)"
  by (induction ls arbitrary: seen) (auto simp: sample_lsu)

lemma check_profiles_x:
  "set xs \<subseteq> set x_forms \<Longrightarrow>
     check_profiles (map (\<lambda>(n, xo, m). sample_form n m (op31 xo) CACHE_PROFILE ''SRU''
        (if n \<in> user_forms then ''user'' else ''supervisor'') ''none'') xs) seen = Inr (seen\<lparr>ps_x := rev (map fst xs) @ ps_x seen\<rparr>)"
  by (induction xs arbitrary: seen) (auto simp: sample_x simp del: if_image_distrib split del: if_split)

lemma sample_entries_valid: "validate_profile_entries (Some ''0x00000040'') (Some [339, 371]) sample_entries = Inr ()"
  by (simp add: validate_profile_entries_def sample_entries_def check_profiles_append
    check_profiles_full check_profiles_lsu check_profiles_x meta_require_def SPR_READ_XO_def)

corollary profile_forms_unambiguous_witness:
  "\<exists>e \<in> set sample_entries. opt_in e \<and> ie_id e = ''tw'' \<and> entry_code e = Inr (0xFC0007FF, op31 4)"
proof -
  have "(''tw'', 0xFC0007FF, op31 4) \<in> set ALL_FORMS"
    by code_simp
  then show ?thesis
    using profile_forms_unambiguous [OF sample_entries_valid] by blast
qed

end
