(* ===== verification/Isa_Rows.thy ===== *)
theory Isa_Rows
  imports Isa_Unambiguous
begin

text \<open>
  The row metadata of \<open>sim/tools/isa_generate.py\<close>: the opcode key of an Appendix A row, its concrete
  mnemonics and \<open>validate_row_metadata\<close>, which binds every decode entry to the rows.  The lines of
  the Makefile that \<open>make_targets\<close> reads are an argument.
\<close>

section \<open>Records\<close>

text \<open>The columns of a decode entry that only the row checks read are added to its record.\<close>

record row_entry =
  re_entry :: isa_entry
  re_form :: string
  re_mnemonic :: string
  re_modifiers :: "(string, string) dict"
  re_variants :: "(string, string) dict"

record legality_rule =
  lr_id :: string
  lr_variants :: "string list"
  lr_status :: string
  lr_pages :: "int list option"

record spr_override =
  so_entry :: string
  so_variant :: string
  so_status :: string

record legality =
  lg_status :: string
  lg_rule :: string

record row_meta =
  rm_mnemonic :: string
  rm_form :: string
  rm_xo :: "int option"
  rm_modifiers :: "(string, string) dict"
  rm_concrete :: "string list"
  rm_attributes :: "string list"
  rm_privilege :: string
  rm_entries :: "string list"
  rm_variants :: "(string, legality) dict"
  rm_benches :: "string list"

record isa_row =
  rw_id :: string
  rw_primary :: int
  rw_status :: string
  rw_meta :: "row_meta option"

record row_spec =
  rs_entries :: "row_entry list"
  rs_variants :: "string list"
  rs_rules :: "legality_rule list"
  rs_overrides :: "spr_override list"
  rs_exclusions :: "(string \<times> string list) list"
  rs_rows :: "isa_row list"

section \<open>Keys and names\<close>

text \<open>The extended-opcode field of each form: its mask and the shift of its value.\<close>

definition FORM_XO_FIELD :: "(string \<times> int \<times> nat) list" where
  "FORM_XO_FIELD =
     [(''X'', 0x7FE, 1), (''XL'', 0x7FE, 1), (''XFX'', 0x7FE, 1), (''XFL'', 0x7FE, 1), (''XO'', 0x3FE, 1), (''A'', 0x3E, 1),
      (''MDS'', 0x1E, 1), (''MD'', 0x1C, 2), (''XS'', 0x7FC, 2), (''DS'', 0x3, 0)]"

definition NO_XO_FORMS :: "string set" where
  "NO_XO_FORMS = {''D'', ''I'', ''B'', ''SC'', ''M''}"

definition ROW_ATTRIBUTES :: "string set" where
  "ROW_ATTRIBUTES =
     {''supervisor'', ''spr_dependent_privilege'', ''string_or_multiple'', ''64_bit'', ''optional'', ''implementation_specific'',
      ''floating_point''}"

definition ROW_VARIANT_STATUSES :: "string set" where
  "ROW_VARIANT_STATUSES =
     {''legal'', ''illegal'', ''fp_unavailable'', ''emulation_trap'', ''tag_checked'', ''pending_editorial_reconciliation''}"

definition SPR_ROWS :: "string set" where
  "SPR_ROWS = {''mfspr'', ''mtspr'', ''mftb''}"

definition row_key :: "int \<Rightarrow> string \<Rightarrow> int option \<Rightarrow> (int \<times> int) result" where
  "row_key primary form xo =
     (case map_of FORM_XO_FIELD form of
        None \<Rightarrow> Inr (0xFC000000, push_bit 26 primary)
      | Some (field, shift) \<Rightarrow>
          (case xo of
             None \<Rightarrow> Inl TypeError
           | Some x \<Rightarrow> Inr (0xFC000000 OR field, push_bit 26 primary OR push_bit shift x)))"

definition ends_with :: "string \<Rightarrow> string \<Rightarrow> bool" where
  "ends_with s suffix \<longleftrightarrow> length suffix \<le> length s \<and> drop (length s - length suffix) s = suffix"

definition aa_key :: "string \<Rightarrow> nat" where
  "aa_key s = (if ends_with s ''a'' \<or> ends_with s ''la'' then 2 else 0) + (if ends_with s ''l'' then 1 else 0)"

text \<open>\<open>[x for form in forms for x in (form, form + suffix)]\<close>\<close>

definition with_suffix :: "string \<Rightarrow> string list \<Rightarrow> string list" where
  "with_suffix suffix forms = concat (map (\<lambda>f. [f, f @ suffix]) forms)"

definition row_concrete_forms :: "string \<Rightarrow> (string, string) dict \<Rightarrow> string list result" where
  "row_concrete_forms mnemonic modifiers =
     bindR (py_key (dict_get modifiers ''OE'')) (\<lambda>oe.
     bindR (py_key (dict_get modifiers ''LK'')) (\<lambda>lk.
     bindR (py_key (dict_get modifiers ''AA'')) (\<lambda>aa.
     bindR (py_key (dict_get modifiers ''Rc'')) (\<lambda>rc.
       let forms = [mnemonic];
           forms = (if oe = ''free'' then forms @ map (\<lambda>f. f @ ''o'') forms else forms);
           forms = (if lk = ''free'' then with_suffix ''l'' forms else forms);
           forms = (if aa = ''free'' then sort_key aa_key (with_suffix ''a'' forms) else forms);
           forms = (if rc = ''free'' then with_suffix ''.'' forms else forms)
       in Inr forms))))"

text \<open>The names before the first colon of each rule line that start with \<open>test-\<close>.\<close>

fun blank_split :: "string \<Rightarrow> string \<Rightarrow> string list" where
  "blank_split acc [] = (if acc = [] then [] else [rev acc])"
| "blank_split acc (c # cs) =
     (if is_space c then (if acc = [] then blank_split [] cs else rev acc # blank_split [] cs) else blank_split (c # acc) cs)"

definition make_targets :: "string list \<Rightarrow> string set" where
  "make_targets lines =
     {name \<in> set (concat (map (\<lambda>line. blank_split [] (takeWhile (\<lambda>c. c \<noteq> CHR '':'') line))
                 (filter (\<lambda>line. take 1 line \<noteq> [char_of (9 :: nat)] \<and> CHR '':'' \<in> set line) lines))).
        take 5 name = ''test-''}"

section \<open>\<open>validate_row_metadata\<close>\<close>

definition row_entries :: "row_entry list \<Rightarrow> (string, row_entry) dict" where
  "row_entries es = dict_of (map (\<lambda>e. (ie_id (re_entry e), e)) es)"

fun check_rules :: "string list \<Rightarrow> legality_rule list \<Rightarrow> unit result" where
  "check_rules variants [] = Inr ()"
| "check_rules variants (r # rs) =
     meta_require (lr_status r \<in> ROW_VARIANT_STATUSES \<and> set (lr_variants r) \<subseteq> set variants) ''unknown legality status or variant''
       (meta_require (lr_pages r \<notin> {None, Some []}) ''legality rule must cite PDF pages'' (check_rules variants rs))"

fun check_spr_overrides :: "(string, row_entry) dict \<Rightarrow> ((string \<times> string) \<times> spr_override) list \<Rightarrow> unit result" where
  "check_spr_overrides entries [] = Inr ()"
| "check_spr_overrides entries (((n, v), item) # rest) =
     (case dict_get entries n of
        None \<Rightarrow> meta_err ''SPR variant override disagrees with its decode entry''
      | Some e \<Rightarrow>
          bindR (py_key (dict_get (re_variants e) v)) (\<lambda>s.
            meta_require (s = so_status item) ''SPR variant override disagrees with its decode entry''
              (check_spr_overrides entries rest)))"

fun expected_ids :: "int \<Rightarrow> int \<Rightarrow> (string, row_entry) dict \<Rightarrow> string list result" where
  "expected_ids km kv [] = Inr []"
| "expected_ids km kv ((n, e) # rest) =
     bindR (isa_number (ie_mask (re_entry e))) (\<lambda>m.
     bindR (if m AND km = km then bindR (isa_number (ie_value (re_entry e))) (\<lambda>v. Inr (v AND km = kv)) else Inr False) (\<lambda>hit.
     bindR (expected_ids km kv rest) (\<lambda>ns. Inr (if hit then n # ns else ns))))"

fun check_entry_variants :: "row_meta \<Rightarrow> (string \<times> string) set \<Rightarrow> string \<Rightarrow> row_entry \<Rightarrow> string list \<Rightarrow> unit result" where
  "check_entry_variants meta overrides n e [] = Inr ()"
| "check_entry_variants meta overrides n e (v # vs) =
     bindR (py_key (dict_get (rm_variants meta) v)) (\<lambda>expected.
     bindR (py_key (dict_get (re_variants e) v)) (\<lambda>s.
       meta_require (s = lg_status expected \<or> (n, v) \<in> overrides) ''legality disagrees with the row''
         (check_entry_variants meta overrides n e vs)))"

text \<open>The loop over the entries of a row, with the mnemonics it covers.\<close>

fun check_row_entries ::
  "(string, row_entry) dict \<Rightarrow> string list \<Rightarrow> (string \<times> string) set \<Rightarrow> row_meta \<Rightarrow> string list \<Rightarrow> string set \<Rightarrow> string set result" where
  "check_row_entries entries variants overrides meta [] covered = Inr covered"
| "check_row_entries entries variants overrides meta (n # ns) covered =
     bindR (py_key (dict_get entries n)) (\<lambda>e.
       meta_require (re_form e = rm_form meta) ''form disagrees with Table A-46''
         (meta_require (rm_privilege meta = ''spr_dependent'' \<or> ie_privilege (re_entry e) = rm_privilege meta)
             ''privilege disagrees with the row''
           (let covered = insert (re_mnemonic e) covered;
                covered = (if dict_get (re_modifiers e) ''Rc'' = Some ''ignored'' then insert (re_mnemonic e @ ''.'') covered else covered)
            in bindR (check_entry_variants meta overrides n e variants) (\<lambda>_.
                 check_row_entries entries variants overrides meta ns covered))))"

fun check_row_legality :: "(string, legality_rule) dict \<Rightarrow> (string, legality) dict \<Rightarrow> unit result" where
  "check_row_legality rules [] = Inr ()"
| "check_row_legality rules ((v, l) # rest) =
     meta_require (case dict_get rules (lg_rule l) of None \<Rightarrow> False | Some r \<Rightarrow> v \<in> set (lr_variants r) \<and> lr_status r = lg_status l)
       ''legality does not follow its cited rule'' (check_row_legality rules rest)"

definition row_privilege :: "row_meta \<Rightarrow> string" where
  "row_privilege meta =
     (if ''supervisor'' \<in> set (rm_attributes meta) then ''supervisor''
      else if ''spr_dependent_privilege'' \<in> set (rm_attributes meta) then ''spr_dependent'' else ''user'')"

text \<open>\<open>meta["variants"][variant]["status"] != status\<close>\<close>

definition variant_differs :: "row_meta \<Rightarrow> string \<Rightarrow> string \<Rightarrow> bool result" where
  "variant_differs meta variant status =
     bindR (py_key (dict_get (rm_variants meta) variant)) (\<lambda>l. Inr (lg_status l \<noteq> status))"

definition check_exclusion :: "(string \<times> string list) list \<Rightarrow> isa_row \<Rightarrow> row_meta \<Rightarrow> string list \<Rightarrow> unit result" where
  "check_exclusion exclusions row meta ids =
     bindR (py_key (dict_get (dict_of exclusions) ''B-1'')) (\<lambda>b1.
     bindR (py_key (dict_get (dict_of exclusions) ''B-2'')) (\<lambda>b2.
       let unimplemented = rm_mnemonic meta \<in> set b1 \<union> set b2
       in meta_require (unimplemented = (rw_status row = ''reviewed_not_implemented_metadata''))
            ''Table B-1/B-2 membership disagrees with the row status''
            (bindR (if \<not> unimplemented then Inr False
                    else if ids \<noteq> [] then Inr True
                    else bindR (variant_differs meta ''PID7v-603e'' ''illegal'') (\<lambda>d.
                           if d then Inr True else variant_differs meta ''602'' ''illegal'')) (\<lambda>bad.
               meta_require (\<not> bad) ''unimplemented row must be undecoded and illegal on 603e and 602''
                 (bindR (if ''floating_point'' \<in> set (rm_attributes meta) \<and> \<not> unimplemented
                         then variant_differs meta ''EC603e'' ''fp_unavailable'' else Inr False) (\<lambda>bad_fp.
                    meta_require (\<not> bad_fp) ''EC603e FP row must take floating-point unavailable'' (Inr ())))))))"

text \<open>The checks of one row, in their order; the result is the identifiers it binds.\<close>

definition check_isa_row :: "row_spec \<Rightarrow> (string \<times> string) set \<Rightarrow> string set \<Rightarrow> isa_row \<Rightarrow> string list result" where
  "check_isa_row spec overrides targets row =
     (case rw_meta row of
        None \<Rightarrow> meta_err ''missing row metadata''
      | Some meta \<Rightarrow>
          let form = rm_form meta; known = form \<in> fst ` set FORM_XO_FIELD; entries = row_entries (rs_entries spec)
          in meta_require ((form \<in> NO_XO_FORMS) = (rm_xo meta = None) \<and> (form \<in> NO_XO_FORMS \<or> known)) ''form and extended opcode disagree''
            (meta_require (dict_keys (rm_modifiers meta) = {''OE'', ''Rc'', ''AA'', ''LK''}) ''modifier map must name OE, Rc, AA and LK''
              (bindR (row_concrete_forms (rm_mnemonic meta) (rm_modifiers meta)) (\<lambda>forms.
                meta_require (rm_concrete meta = forms) ''concrete forms do not follow the free modifiers''
                  (meta_require (set (rm_attributes meta) \<subseteq> ROW_ATTRIBUTES) ''unknown row attribute''
                    (meta_require (rm_privilege meta = row_privilege meta) ''privilege disagrees with the Table A-1 footnotes''
                      (bindR (row_key (rw_primary row) form (rm_xo meta)) (\<lambda>(km, kv).
                       bindR (expected_ids km kv entries) (\<lambda>ids.
                         meta_require (rm_entries meta = ids) ''bound decode entries disagree with the opcode key''
                           (bindR (check_row_entries entries (rs_variants spec) overrides meta ids {}) (\<lambda>covered.
                             meta_require (ids = [] \<or> rm_mnemonic meta \<in> SPR_ROWS \<or> set (rm_concrete meta) \<subseteq> covered)
                                 ''decoded row lacks concrete forms''
                               (meta_require (dict_keys (rm_variants meta) = set (rs_variants spec)) ''legality must cover every variant''
                                 (bindR (check_row_legality (dict_of (map (\<lambda>r. (lr_id r, r)) (rs_rules spec))) (rm_variants meta)) (\<lambda>_.
                                  bindR (check_exclusion (rs_exclusions spec) row meta ids) (\<lambda>_.
                                    meta_require (set (rm_benches meta) \<subseteq> targets) ''bench reference names an unknown make target''
                                      (Inr ids))))))))))))))))"

fun check_isa_rows :: "row_spec \<Rightarrow> (string \<times> string) set \<Rightarrow> string set \<Rightarrow> isa_row list \<Rightarrow> string set \<Rightarrow> string set result" where
  "check_isa_rows spec overrides targets [] bound = Inr bound"
| "check_isa_rows spec overrides targets (row # rows) bound =
     bindR (check_isa_row spec overrides targets row) (\<lambda>ids.
       check_isa_rows spec overrides targets rows (bound \<union> set ids))"

definition validate_row_metadata :: "row_spec \<Rightarrow> string list \<Rightarrow> unit result" where
  "validate_row_metadata spec makefile =
     (let entries = row_entries (rs_entries spec);
          overrides = dict_of (map (\<lambda>o1. ((so_entry o1, so_variant o1), o1)) (rs_overrides spec))
      in bindR (check_rules (rs_variants spec) (map snd (dict_of (map (\<lambda>r. (lr_id r, r)) (rs_rules spec))))) (\<lambda>_.
         bindR (check_spr_overrides entries overrides) (\<lambda>_.
         bindR (check_isa_rows spec (dict_keys overrides) (make_targets makefile) (rs_rows spec) {}) (\<lambda>bound.
           meta_require (bound = dict_keys entries) ''decode entries outside every Appendix A row'' (Inr ())))))"

end
