(* ===== verification/Isa_Bound.thy ===== *)
theory Isa_Bound
  imports Isa_Rows Isa_Profiles
begin

text \<open>
  What \<open>validate_row_metadata\<close> establishes: every decode entry is backed by a row of Appendix A.
\<close>

section \<open>Readings of the loops\<close>

lemma expected_ids_sound:
  "expected_ids km kv d = Inr ns \<Longrightarrow> n \<in> set ns \<Longrightarrow>
     \<exists>e m v. (n, e) \<in> set d \<and> entry_code (re_entry e) = Inr (m, v) \<and> m AND km = km \<and> v AND km = kv"
proof (induction d arbitrary: ns)
  case (Cons p d)
  obtain k e where p: "p = (k, e)" by (cases p)
  from Cons.prems obtain m ns' hit where m: "isa_number (ie_mask (re_entry e)) = Inr m"
    and hit: "(if m AND km = km then bindR (isa_number (ie_value (re_entry e))) (\<lambda>v. Inr (v AND km = kv)) else Inr False) = Inr hit"
    and rest: "expected_ids km kv d = Inr ns'" and ns: "ns = (if hit then k # ns' else ns')"
    unfolding p by (fastforce simp: bindR_eq_Inr simp del: sum.case)
  show ?case
  proof (cases "n \<in> set ns'")
    case True
    with Cons.IH [OF rest] show ?thesis by auto
  next
    case False
    with Cons.prems(2) ns have "hit" "n = k" by (auto split: if_splits)
    with hit obtain v where "m AND km = km" "isa_number (ie_value (re_entry e)) = Inr v" "v AND km = kv"
      by (auto simp: bindR_eq_Inr split: if_splits)
    with m \<open>n = k\<close> show ?thesis
      by (intro exI [of _ e]) (auto simp: p entry_code_def)
  qed
qed simp

lemma check_entry_variants_sound:
  "check_entry_variants meta ov n e vs = Inr () \<Longrightarrow> v \<in> set vs \<Longrightarrow>
     \<exists>l. dict_get (rm_variants meta) v = Some l \<and> (dict_get (re_variants e) v = Some (lg_status l) \<or> (n, v) \<in> ov)"
  by (induction vs) (auto simp: bindR_eq_Inr meta_require_Inr)

lemma check_row_entries_sound:
  "check_row_entries entries vs ov meta ns c = Inr c' \<Longrightarrow> n \<in> set ns \<Longrightarrow>
     \<exists>e. dict_get entries n = Some e \<and> re_form e = rm_form meta \<and>
       (rm_privilege meta = ''spr_dependent'' \<or> ie_privilege (re_entry e) = rm_privilege meta) \<and>
       check_entry_variants meta ov n e vs = Inr ()"
proof (induction ns arbitrary: c)
  case (Cons k ns)
  from Cons.prems(1) obtain e c2 where "dict_get entries k = Some e" "re_form e = rm_form meta"
    "rm_privilege meta = ''spr_dependent'' \<or> ie_privilege (re_entry e) = rm_privilege meta"
    "check_entry_variants meta ov k e vs = Inr ()" and rest: "check_row_entries entries vs ov meta ns c2 = Inr c'"
    by (auto simp: bindR_eq_Inr meta_require_Inr Let_def)
  with Cons.IH [OF rest] Cons.prems(2) show ?case by auto
qed simp

lemma check_isa_rows_sound:
  "check_isa_rows spec ov ts rows b = Inr b' \<Longrightarrow> n \<in> b' \<Longrightarrow>
     n \<in> b \<or> (\<exists>row \<in> set rows. \<exists>ids. check_isa_row spec ov ts row = Inr ids \<and> n \<in> set ids)"
proof (induction rows arbitrary: b)
  case (Cons row rows)
  then obtain ids where "check_isa_row spec ov ts row = Inr ids" "check_isa_rows spec ov ts rows (b \<union> set ids) = Inr b'"
    by (auto simp: bindR_eq_Inr)
  with Cons.IH [OF this(2) Cons.prems(2)] show ?case by auto
qed simp

lemma check_exclusion_sound:
  assumes "check_exclusion ex row meta ids = Inr ()" and "ids \<noteq> []" and "t \<in> {''B-1'', ''B-2''}"
    and "dict_get (dict_of ex) t = Some names"
  shows "rm_mnemonic meta \<notin> set names"
  using assms by (auto simp: check_exclusion_def bindR_eq_Inr meta_require_Inr Let_def split: if_splits)

text \<open>What a checked row gives.\<close>

lemma check_isa_row_sound:
  assumes "check_isa_row spec ov ts row = Inr ids" and "n \<in> set ids"
  obtains meta km kv c where "rw_meta row = Some meta" "rm_entries meta = ids"
    "row_key (rw_primary row) (rm_form meta) (rm_xo meta) = Inr (km, kv)"
    "expected_ids km kv (row_entries (rs_entries spec)) = Inr ids"
    "check_row_entries (row_entries (rs_entries spec)) (rs_variants spec) ov meta ids {} = Inr c"
    "check_exclusion (rs_exclusions spec) row meta ids = Inr ()"
proof (cases "rw_meta row")
  case None
  with assms show thesis by (simp add: check_isa_row_def meta_err_Inr)
next
  case (Some meta)
  note ok = assms(1) [unfolded check_isa_row_def Some option.case Let_def bindR_eq_Inr meta_require_Inr]
  then obtain kk where key: "row_key (rw_primary row) (rm_form meta) (rm_xo meta) = Inr kk"
    and rest: "(case kk of (km, kv) \<Rightarrow> bindR (expected_ids km kv (row_entries (rs_entries spec))) (\<lambda>ids.
        meta_require (rm_entries meta = ids) ''bound decode entries disagree with the opcode key''
          (bindR (check_row_entries (row_entries (rs_entries spec)) (rs_variants spec) ov meta ids {}) (\<lambda>covered.
            meta_require (ids = [] \<or> rm_mnemonic meta \<in> SPR_ROWS \<or> set (rm_concrete meta) \<subseteq> covered)
                ''decoded row lacks concrete forms''
              (meta_require (dict_keys (rm_variants meta) = set (rs_variants spec)) ''legality must cover every variant''
                (bindR (check_row_legality (dict_of (map (\<lambda>r. (lr_id r, r)) (rs_rules spec))) (rm_variants meta)) (\<lambda>_.
                 bindR (check_exclusion (rs_exclusions spec) row meta ids) (\<lambda>_.
                   meta_require (set (rm_benches meta) \<subseteq> ts) ''bench reference names an unknown make target''
                     (Inr ids)))))))))  = Inr ids"
    by blast
  obtain km kv where kk: "kk = (km, kv)" by (cases kk)
  show thesis
    using rest unfolding kk prod.case bindR_eq_Inr meta_require_Inr sum.inject
    by (elim exE conjE) (rule that [OF Some _ key [unfolded kk]]; simp)
qed

lemma row_entries_get:
  assumes "distinct (map (\<lambda>e. ie_id (re_entry e)) es)" and "e \<in> set es"
  shows "dict_get (row_entries es) (ie_id (re_entry e)) = Some e"
proof -
  have "distinct (map fst (rev (map (\<lambda>e. (ie_id (re_entry e), e)) es)))"
    using assms(1) by (simp add: comp_def flip: rev_map)
  then have "map_of (rev (map (\<lambda>e. (ie_id (re_entry e), e)) es)) (ie_id (re_entry e)) = Some e"
    using assms(2) by (intro map_of_is_SomeI) auto
  then show ?thesis
    by (simp add: row_entries_def dict_get_of)
qed

lemma row_entries_wf: "dict_wf (row_entries es)"
proof -
  have "dict_wf (foldl (\<lambda>d (k, v). dict_set k v d) d xs)" if "dict_wf d" for d :: "(string, row_entry) dict" and xs
    using that by (induction xs arbitrary: d) auto
  then show ?thesis by (simp add: row_entries_def dict_of_def)
qed

section \<open>Properties\<close>

text \<open>A row that backs an entry: same opcode key, form, privilege and legality, and not an excluded instruction.\<close>

definition row_backs :: "row_spec \<Rightarrow> isa_row \<Rightarrow> row_entry \<Rightarrow> bool" where
  "row_backs spec row e \<longleftrightarrow>
     (\<exists>meta km kv. rw_meta row = Some meta \<and> ie_id (re_entry e) \<in> set (rm_entries meta) \<and>
        row_key (rw_primary row) (rm_form meta) (rm_xo meta) = Inr (km, kv) \<and>
        (\<forall>w. decode_matches (re_entry e) w = Inr True \<longrightarrow> w AND km = kv) \<and>
        re_form e = rm_form meta \<and>
        (rm_privilege meta = ''spr_dependent'' \<or> ie_privilege (re_entry e) = rm_privilege meta) \<and>
        (\<forall>v \<in> set (rs_variants spec). \<exists>l. dict_get (rm_variants meta) v = Some l \<and>
           (dict_get (re_variants e) v = Some (lg_status l) \<or>
            (ie_id (re_entry e), v) \<in> (\<lambda>o1. (so_entry o1, so_variant o1)) ` set (rs_overrides spec))) \<and>
        (\<forall>t \<in> {''B-1'', ''B-2''}. \<forall>names. dict_get (dict_of (rs_exclusions spec)) t = Some names \<longrightarrow>
           rm_mnemonic meta \<notin> set names))"

text \<open>
  C40: Once the row metadata validates, every decode entry is backed by an Appendix A row: the row
  binds it, every instruction word the entry matches carries the row's primary and extended
  opcode, the form agrees, the privilege and the legality in every variant agree up to the declared
  special-register exceptions, and the row is not one of the instructions that Tables B-1 and B-2
  exclude.
\<close>

theorem rows_back_entries:
  assumes "validate_row_metadata spec makefile = Inr ()" and "distinct (map (\<lambda>e. ie_id (re_entry e)) (rs_entries spec))"
    and "e \<in> set (rs_entries spec)"
  shows "\<exists>row \<in> set (rs_rows spec). row_backs spec row e"
proof -
  let ?es = "row_entries (rs_entries spec)" and ?n = "ie_id (re_entry e)"
  let ?ov = "dict_keys (dict_of (map (\<lambda>o1. ((so_entry o1, so_variant o1), o1)) (rs_overrides spec)))"
  have get: "dict_get ?es ?n = Some e" by (rule row_entries_get [OF assms(2,3)])
  then have "?n \<in> dict_keys ?es" by (simp add: dict_keys_iff)
  with assms(1) obtain row ids where row: "row \<in> set (rs_rows spec)" and ids: "?n \<in> set ids"
    and ok: "check_isa_row spec ?ov (make_targets makefile) row = Inr ids"
    by (auto simp: validate_row_metadata_def Let_def bindR_eq_Inr meta_require_Inr dest: check_isa_rows_sound)
  obtain meta km kv c where meta: "rw_meta row = Some meta" "rm_entries meta = ids"
    and key: "row_key (rw_primary row) (rm_form meta) (rm_xo meta) = Inr (km, kv)" and exp: "expected_ids km kv ?es = Inr ids"
    and ents: "check_row_entries ?es (rs_variants spec) ?ov meta ids {} = Inr c"
    and excl: "check_exclusion (rs_exclusions spec) row meta ids = Inr ()"
    by (rule check_isa_row_sound [OF ok ids])
  from expected_ids_sound [OF exp ids] get row_entries_wf obtain m v where code: "entry_code (re_entry e) = Inr (m, v)"
    and mv: "m AND km = km" "v AND km = kv"
    by (auto simp: dict_item_iff)
  from check_row_entries_sound [OF ents ids] get have form: "re_form e = rm_form meta"
    and priv: "rm_privilege meta = ''spr_dependent'' \<or> ie_privilege (re_entry e) = rm_privilege meta"
    and vs: "check_entry_variants meta ?ov ?n e (rs_variants spec) = Inr ()"
    by auto
  have ov: "?ov = (\<lambda>o1. (so_entry o1, so_variant o1)) ` set (rs_overrides spec)"
    by (simp add: dict_keys_of image_image)
  have "row_backs spec row e"
    unfolding row_backs_def
  proof (rule exI [of _ meta], rule exI [of _ km], rule exI [of _ kv], intro conjI allI ballI impI)
    show "w AND km = kv" if "decode_matches (re_entry e) w = Inr True" for w
    proof -
      from that code have "w AND m = v" by (simp add: decode_matches_def)
      with mv show ?thesis by (metis and.assoc)
    qed
    show "?n \<in> set (rm_entries meta)" using ids meta(2) by simp
    show "\<exists>l. dict_get (rm_variants meta) x = Some l \<and> (dict_get (re_variants e) x = Some (lg_status l) \<or>
        (?n, x) \<in> (\<lambda>o1. (so_entry o1, so_variant o1)) ` set (rs_overrides spec))" if "x \<in> set (rs_variants spec)" for x
      by (rule check_entry_variants_sound [OF vs that, unfolded ov])
    show "rm_mnemonic meta \<notin> set names" if "t \<in> {''B-1'', ''B-2''}" "dict_get (dict_of (rs_exclusions spec)) t = Some names" for t names
      using check_exclusion_sound [OF excl _ that] ids by (cases ids) auto
  qed (rule meta(1) key form priv)+
  with row show ?thesis by blast
qed

text \<open>One row of an immediate add with its entry.\<close>

definition rows_sample :: row_spec where
  "rows_sample =
     \<lparr>rs_entries = [\<lparr>re_entry = isa_sample ! 0, re_form = ''D'', re_mnemonic = ''addi'',
        re_modifiers = [(''OE'', ''absent''), (''Rc'', ''absent''), (''AA'', ''absent''), (''LK'', ''absent'')],
        re_variants = [(''602'', ''legal'')]\<rparr>],
      rs_variants = [''602''],
      rs_rules = [\<lparr>lr_id = ''602-A1'', lr_variants = [''602''], lr_status = ''legal'', lr_pages = Some [361]\<rparr>],
      rs_overrides = [], rs_exclusions = [(''B-1'', [''fsqrt'']), (''B-2'', [''ld''])],
      rs_rows = [\<lparr>rw_id = ''A1-005'', rw_primary = 14, rw_status = ''reviewed'', rw_meta = Some
        \<lparr>rm_mnemonic = ''addi'', rm_form = ''D'', rm_xo = None,
         rm_modifiers = [(''OE'', ''absent''), (''Rc'', ''absent''), (''AA'', ''absent''), (''LK'', ''absent'')],
         rm_concrete = [''addi''], rm_attributes = [], rm_privilege = ''user'', rm_entries = [''addi''],
         rm_variants = [(''602'', \<lparr>lg_status = ''legal'', lg_rule = ''602-A1''\<rparr>)], rm_benches = [''test-core'']\<rparr>\<rparr>]\<rparr>"

lemma rows_sample_valid: "validate_row_metadata rows_sample [''all: x'', ''test-core test-chip: bin''] = Inr ()"
  by code_simp

corollary rows_back_entries_witness: "\<exists>row \<in> set (rs_rows rows_sample). row_backs rows_sample row (hd (rs_entries rows_sample))"
  by (rule rows_back_entries [OF rows_sample_valid]) (simp_all add: rows_sample_def)

end
