(* ===== verification/Spec2Isabelle.thy ===== *)
theory Spec2Isabelle
  imports Compare_Family Rotate_Family Flag_State Recovery Fetch_Drain Fp_Arithmetic Ppc_Fp_Oracle Selftest_Run Selftest_Families Bat Tlb Lha Timing_Waits Timing_Trace Dispatch_Order Stage_Order Bus_Unique Bus_Tiling Isa_Profiles Isa_Bound
begin

text \<open>
  SloPPC603 is a PowerPC 603e core in SystemVerilog.  The Python of the repository is what
  the hardware is held to: executable reference models whose results the benches compare
  with, an instruction-set model that computes the expected results of a self-test, a timing
  model of the 603e, checkers that accept or reject traces of the core, and validators of
  the manifests that describe its instruction set and its bus.  This library models those
  programs and proves what they compute, promise or guarantee by accepting.

  Conventions.  A Python \<open>int\<close> is an HOL integer, its bit operations are the HOL ones, and a
  32-bit quantity is masked where the code masks it; \<open>'n word\<close> appears in the specifications
  the code is compared with.  A class or JSON object is a record, a dictionary an association
  list (\<open>Dict\<close>) or a map, an exception a value of \<open>py_error\<close> (\<open>Prelude\<close>): a function that may raise
  returns \<open>'a result\<close>, and a method that mutates its object returns the new object beside the
  result, also when it raises.  A key that may be missing is an option, read with \<open>py_key\<close> where
  the code uses brackets.  An error carries its message without the values formatted into
  it.  The em dash of the bus tables is written \<open>''-''\<close>.  Where the code iterates over a Python set
  the model takes ascending order; only the names of symbolic address roots depend on it.
  Values of a type the code does not expect are outside the model.

  Shared theories
    \<open>Prelude\<close>          exceptions, sequencing, masks and bit fields, runs of a step function
                       (locale \<open>stepper\<close>, interpreted by every stateful component)
    \<open>Dict\<close>             dictionaries, Python indexing and slicing
    \<open>Family_Contract\<close>  the result type of the integer families and the contract between a
                       family and the flag owner (locale \<open>flag_producer\<close>)

  Integer reference models, \<open>sim/tools\<close>
    \<open>Add_Family\<close> \<open>Logical_Family\<close> \<open>Shift_Family\<close> \<open>Rotate_Family\<close> \<open>Compare_Family\<close>
      \<open>evaluate\<close> and \<open>encode\<close> of the module of that name: value, CA, OV, SO and CR0 against 32-bit word
      arithmetic, the cyclic mask \<open>ppc_mask\<close>, whose loop is a partial function and returns exactly
      when both ends are five-bit numbers, and which forms an encoder accepts.
    \<open>Flag_State\<close>
      \<open>flag_state.py\<close>: the data classes with their checks, \<open>apply_commit\<close>, \<open>validate_completion\<close>, the \<open>prepare\<close>
      functions that package a family's result, and \<open>FlagOwnerModel.advance\<close>, the edge on which a
      single flag owner allocates, finishes, retires or is killed.  Shown: the exact bits a
      commit writes, atomicity of a failing edge, the owner invariant and sticky SO along
      every run, and that an operation prepared from the registers retires with the bits
      of the family's result.

  Recovery, \<open>sim/recovery/model.py\<close>
    \<open>Recovery\<close>         \<open>RecoveryModel\<close>: completion queue, rename slots, generation tags, producer
      tokens, redirects.  No assertion of \<open>check_invariants\<close> ever fails, retirement is in order, a
      killed entry never retires, a response reaches only the entry that issued it.
    \<open>Fetch_Drain\<close>      \<open>FetchDrainModel\<close>: a refinement of a program counter, without stale packets.

  Floating point, \<open>sim/fpu\<close>
    \<open>Fp_Reference\<close> \<open>Fp_Rounding\<close> \<open>Fp_Arithmetic\<close>
      \<open>reference.py\<close>: \<open>decode\<close>, \<open>pack\<close>, \<open>pack_ratio\<close>, \<open>calculate\<close>, \<open>calculate_fma\<close>; results and flags are those of
      correct rounding of the exact rational value, in every mode.
    \<open>Ppc_Fp\<close> \<open>Ppc_Fp_Results\<close> \<open>Ppc_Fp_Oracle\<close>
      \<open>ppc_reference.py\<close> and the FPSCR update of \<open>enabled_vectors.py\<close>: agreement of \<open>arithmetic\<close> with the oracle
      on all words in double precision (fused forms without NaN operands), one rounding in
      single precision, and every FPSCR bit after an operation.

  Self-test, \<open>toolchain/demo/selftest/gen.py\<close>
    \<open>Selftest_State\<close> \<open>Selftest_Insn\<close> \<open>Selftest_Machine\<close> \<open>Selftest_Step\<close> \<open>Selftest_Run\<close>
      the state and its effects, \<open>Insn\<close> with the encoders, class \<open>Machine\<close>, and the evaluation of a case;
      a method is a function in a state monad with outcomes for a value, a trap, an exception
      and a loop that does not end.  \<open>run_case\<close> has the code's own bound of 400 steps as fuel.
    \<open>Selftest_Families\<close>
      the machine against the integer families: every instruction of the five families leaves
      what the family's evaluator gives.  The lemma \<open>xlate_below_window\<close> shows the missing lower
      bound of the read-only window.

  Translation, \<open>sim/tools\<close>
    \<open>Bat\<close>              \<open>bat_vectors.py\<close>, \<open>bat_service_vectors.py\<close>: the two block-translation oracles agree.
    \<open>Tlb\<close>              \<open>tlb_vectors.py\<close>: the oracle never raises on well-formed traffic and refines a map.

  Timing, \<open>sim/tools\<close>
    \<open>Timing_Decode\<close> \<open>Timing_Schedule\<close> \<open>Timing_Trace\<close>
      \<open>perf_model_603e.py\<close>: class \<open>Insn\<close>, the scheduler \<open>schedule\<close> (a fold over the stream; the dispatch loop is
      a partial function, the fetch and completion loops end by a measure), \<open>removed_path\<close>.
    \<open>Timing_Order\<close> \<open>Timing_Waits\<close>
      on which streams \<open>schedule\<close> returns; program order and the two-per-cycle limits; queue and
      rename limits, the order of the stages of every record, branches included; and that
      every record waits for each resource it reads (general registers, CR, LR, CTR, older
      overlapping stores, the one CR rename), with the cycles read off the records alone.
    \<open>Dispatch_Class\<close> \<open>Dispatch_Rules\<close> \<open>Dispatch_Order\<close>
      \<open>check_dispatch_trace.py\<close>: classification of words, class \<open>Rules\<close>, and what an accepted trace means:
      order of retirement, and occupancy after every event.
    \<open>Stage_Timing\<close> \<open>Stage_Machine\<close> \<open>Stage_Order\<close>
      \<open>check_stage_timing.py\<close>: an accepted trace retires the packets of a sequential 32-bit machine, its
      events keep the reviewed distances, and the checker raises only its own errors.

  Manifests, \<open>sim/tools\<close>
    \<open>Bus_Decode\<close> \<open>Bus_Unique\<close>
      \<open>bus_decode.py\<close>: in a validated manifest one row matches each transfer type; what \<open>decode_tt\<close> then
      reports, and exactly when it raises \<open>KeyError\<close>.
    \<open>Bus_Provenance\<close> \<open>Bus_Address\<close> \<open>Bus_Tiling\<close>
      \<open>bus_address.py\<close>: what \<open>query\<close> answers for a validated manifest; its accesses tile the request.
    \<open>Isa_Decode\<close> \<open>Isa_Unambiguous\<close> \<open>Isa_Profiles\<close> \<open>Isa_Rows\<close> \<open>Isa_Bound\<close>
      \<open>isa_generate.py\<close> and the probe words of \<open>isa_check_rtl.py\<close>: decode ambiguity is exactly what is
      declared; the opt-in forms hold the reviewed encodings and share words only as
      duplicates of one special-register move; every entry is backed by a row of Appendix A.

  Tools
    \<open>Lha\<close>              \<open>toolchain/demo/lha.py\<close>: CRC-16, bit reader, Huffman codes, \<open>lh5\<close>; its loops end by
      measures on the bits and bytes left.

  How the parts meet.  The families hand their results to the flag owner through
  \<open>flag_producer\<close>; the self-test machine uses the floating-point model and is compared with the
  families; the dispatch checker classifies with the vocabulary of the timing decoder;
  the address tables share the binary renderings of the encoding tables.

  Not modelled.  Code that runs other programs or reads and writes files: command lines,
  vector generators around a random source, the runners of simulators and of the
  third-party reference emulator, reports over log files, build and release scripts.
  Straight-line generators of bench programs, which hold data.  Scripts that compare
  fragments of the SystemVerilog sources or hand them to synthesis and SAT tools, whose
  meaning rests on the hardware text.  The parts of \<open>validate\<close> in \<open>isa_generate.py\<close> that compare
  entries with literal tables of one instruction group, and Markdown rendering.  LHA member
  headers.  The SystemVerilog itself is another language.
\<close>

end
